(* ===== verification/Prelude.thy ===== *)
theory Prelude
  imports Main "HOL-Library.AList" "HOL-Library.Word"
begin

text \<open>
  Shared vocabulary of the development.

  \<^item> Python values: \<open>bytes\<close> is a list of 8-bit words, a dictionary that the code
    iterates over is an association list kept in insertion order (\<open>AList.update\<close> is
    \<open>d[k] = v\<close>: it overwrites in place or appends), a dictionary that is only looked up is a
    map \<open>'k \<rightharpoonup> 'v\<close>, a Python set is a HOL set.
  \<^item> Python control flow: an operation on a mutable object is a function from the object's
    state to an outcome and the state it leaves behind (\<open>pyM\<close>). The state is returned
    with a raised exception too, because Python keeps the mutations made before the raise.
  \<^item> \<open>keeps I m\<close>: the operation \<open>m\<close> preserves \<open>I\<close> on every path, the exceptional ones
    included. The composition rules are collected in \<open>keeps_rules\<close>.
\<close>

section \<open>Python values\<close>

type_synonym byte = "8 word"
type_synonym bytes = "byte list"

text \<open>\<open>xs[a:b]\<close> and \<open>xs[a:b] = new\<close>: a negative bound counts from the end, and every bound is clipped
  to the list.\<close>

definition pyIndex :: "int \<Rightarrow> 'a list \<Rightarrow> nat" where
  "pyIndex n xs = nat (if n < 0 then max 0 (int (length xs) + n) else min n (int (length xs)))"

definition pySlice :: "int \<Rightarrow> int \<Rightarrow> 'a list \<Rightarrow> 'a list" where
  "pySlice a b xs = take (pyIndex b xs - pyIndex a xs) (drop (pyIndex a xs) xs)"

definition pySetSlice :: "int \<Rightarrow> int \<Rightarrow> 'a list \<Rightarrow> 'a list \<Rightarrow> 'a list" where
  "pySetSlice a b new xs = take (pyIndex a xs) xs @ new @ drop (max (pyIndex a xs) (pyIndex b xs)) xs"

section \<open>Exceptions\<close>

text \<open>The exceptions the modelled code raises. The message of an exception is kept only
  where the code reads it back. \<open>NotReturned\<close> is no exception of Python: it stands for a loop that has
  used up its fuel.\<close>

datatype py_error =
    AssertionError
  | KeyError
  | TypeError
  | ValueError
  | AttributeError
  | QueueFull
  | CorruptMessageStream
  | StructError
  | GenericException
  | BusyLoadingError
  | NotReturned
  | UnboundLocalError
  | QueueEmpty
  | MessageBusLoopExit

section \<open>Operations with state and exceptions\<close>

type_synonym ('s, 'a) pyM = "'s \<Rightarrow> (py_error + 'a) \<times> 's"

definition ret :: "'a \<Rightarrow> ('s, 'a) pyM" where
  "ret a = (\<lambda>s. (Inr a, s))"

definition raise :: "py_error \<Rightarrow> ('s, 'a) pyM" where
  "raise e = (\<lambda>s. (Inl e, s))"

definition bindM :: "('s, 'a) pyM \<Rightarrow> ('a \<Rightarrow> ('s, 'b) pyM) \<Rightarrow> ('s, 'b) pyM" where
  "bindM m f = (\<lambda>s. case m s of (Inl e, s') \<Rightarrow> (Inl e, s') | (Inr a, s') \<Rightarrow> f a s')"

definition thenM :: "('s, 'a) pyM \<Rightarrow> ('s, 'b) pyM \<Rightarrow> ('s, 'b) pyM" where
  "thenM m n = bindM m (\<lambda>_. n)"

definition gets :: "('s \<Rightarrow> 'a) \<Rightarrow> ('s, 'a) pyM" where
  "gets f = (\<lambda>s. (Inr (f s), s))"

definition modify :: "('s \<Rightarrow> 's) \<Rightarrow> ('s, unit) pyM" where
  "modify f = (\<lambda>s. (Inr (), f s))"

definition assertM :: "bool \<Rightarrow> ('s, unit) pyM" where
  "assertM b = (if b then ret () else raise AssertionError)"

definition whenM :: "bool \<Rightarrow> ('s, unit) pyM \<Rightarrow> ('s, unit) pyM" where
  "whenM b m = (if b then m else ret ())"

text \<open>\<open>d[k]\<close> on a dictionary: a missing key raises.\<close>

definition lookupM :: "('k \<rightharpoonup> 'v) \<Rightarrow> 'k \<Rightarrow> ('s, 'v) pyM" where
  "lookupM d k = (case d k of None \<Rightarrow> raise KeyError | Some v \<Rightarrow> ret v)"

text \<open>\<open>for x in xs: f x\<close>, and the same loop carrying a local variable.\<close>

fun forM :: "'a list \<Rightarrow> ('a \<Rightarrow> ('s, unit) pyM) \<Rightarrow> ('s, unit) pyM" where
  "forM [] f = ret ()"
| "forM (x # xs) f = thenM (f x) (forM xs f)"

fun foldMl :: "('a \<Rightarrow> 'b \<Rightarrow> ('s, 'b) pyM) \<Rightarrow> 'a list \<Rightarrow> 'b \<Rightarrow> ('s, 'b) pyM" where
  "foldMl f [] b = ret b"
| "foldMl f (x # xs) b = bindM (f x b) (foldMl f xs)"

text \<open>\<open>try: m except Exception: h\<close>.\<close>

definition catchM :: "('s, 'a) pyM \<Rightarrow> (py_error \<Rightarrow> ('s, 'a) pyM) \<Rightarrow> ('s, 'a) pyM" where
  "catchM m h = (\<lambda>s. case m s of (Inl e, s') \<Rightarrow> h e s' | (Inr a, s') \<Rightarrow> (Inr a, s'))"

text \<open>Run an operation of a sub-object held in a field of the state.\<close>

definition zoomM :: "('s \<Rightarrow> 't) \<Rightarrow> ('t \<Rightarrow> 's \<Rightarrow> 's) \<Rightarrow> ('t, 'a) pyM \<Rightarrow> ('s, 'a) pyM" where
  "zoomM g p m = (\<lambda>s. case m (g s) of (r, t) \<Rightarrow> (r, p t s))"

lemmas pyM_defs = ret_def raise_def bindM_def thenM_def gets_def modify_def assertM_def
  whenM_def lookupM_def catchM_def zoomM_def

subsection \<open>Evaluation\<close>

lemma ret_run [simp]: "ret a s = (Inr a, s)"
  by (simp add: ret_def)

lemma raise_run [simp]: "raise e s = (Inl e, s)"
  by (simp add: raise_def)

lemma gets_run [simp]: "gets f s = (Inr (f s), s)"
  by (simp add: gets_def)

lemma modify_run [simp]: "modify f s = (Inr (), f s)"
  by (simp add: modify_def)

lemma assertM_run [simp]: "assertM b s = (if b then Inr () else Inl AssertionError, s)"
  by (simp add: assertM_def)

lemma whenM_run [simp]: "whenM b m s = (if b then m s else (Inr (), s))"
  by (simp add: whenM_def)

lemma bindM_Inr [simp]: "m s = (Inr a, s') \<Longrightarrow> bindM m f s = f a s'"
  by (simp add: bindM_def)

lemma bindM_Inl [simp]: "m s = (Inl e, s') \<Longrightarrow> bindM m f s = (Inl e, s')"
  by (simp add: bindM_def)

lemma thenM_Inr [simp]: "m s = (Inr a, s') \<Longrightarrow> thenM m n s = n s'"
  by (simp add: thenM_def)

lemma thenM_Inl [simp]: "m s = (Inl e, s') \<Longrightarrow> thenM m n s = (Inl e, s')"
  by (simp add: thenM_def)

lemma lookupM_Some [simp]: "d k = Some v \<Longrightarrow> lookupM d k s = (Inr v, s)"
  by (simp add: lookupM_def)

lemma lookupM_None [simp]: "d k = None \<Longrightarrow> lookupM d k s = (Inl KeyError, s)"
  by (simp add: lookupM_def)

lemma bindM_basic [simp]:
  "bindM (ret a) f s = f a s" "bindM (raise e) f s = (Inl e, s)"
  "bindM (gets g) f s = f (g s) s" "bindM (modify h) f' s = f' () (h s)"
  by simp_all

lemma thenM_basic [simp]:
  "thenM (ret a) n s = n s" "thenM (raise e) n s = (Inl e, s)"
  "thenM (gets g) n s = n s" "thenM (modify h) n s = n (h s)"
  "thenM (assertM b) n s = (if b then n s else (Inl AssertionError, s))"
  by simp_all

subsection \<open>Inversion of a successful run\<close>

lemma bindM_ok:
  "bindM m f s = (Inr b, s'') \<longleftrightarrow> (\<exists>a s'. m s = (Inr a, s') \<and> f a s' = (Inr b, s''))"
  by (auto simp: bindM_def split: prod.splits sum.splits)

lemma thenM_ok:
  "thenM m n s = (Inr b, s'') \<longleftrightarrow> (\<exists>a s'. m s = (Inr a, s') \<and> n s' = (Inr b, s''))"
  by (simp add: thenM_def bindM_ok)

lemma assertM_ok: "assertM b s = (Inr u, s') \<longleftrightarrow> b \<and> s' = s"
  by auto

lemma lookupM_ok: "lookupM d k s = (Inr v, s') \<longleftrightarrow> d k = Some v \<and> s' = s"
  by (auto simp: lookupM_def split: option.splits)

lemma zoomM_ok:
  "zoomM g p m s = (Inr a, s') \<longleftrightarrow> (\<exists>t. m (g s) = (Inr a, t) \<and> s' = p t s)"
  by (auto simp: zoomM_def split: prod.splits)

lemmas pyM_ok = bindM_ok thenM_ok assertM_ok lookupM_ok zoomM_ok

section \<open>Invariant preservation\<close>

definition keeps :: "('s \<Rightarrow> bool) \<Rightarrow> ('s, 'a) pyM \<Rightarrow> bool" where
  "keeps I m \<longleftrightarrow> (\<forall>s. I s \<longrightarrow> I (snd (m s)))"

named_theorems keeps_rules "composition rules for keeps"

lemma keepsI: "(\<And>s. I s \<Longrightarrow> I (snd (m s))) \<Longrightarrow> keeps I m"
  by (simp add: keeps_def)

lemma keepsD: "keeps I m \<Longrightarrow> I s \<Longrightarrow> m s = (r, s') \<Longrightarrow> I s'"
  unfolding keeps_def by (metis snd_conv)

lemma keeps_ret [keeps_rules]: "keeps I (ret a)"
  by (simp add: keeps_def)

lemma keeps_raise [keeps_rules]: "keeps I (raise e)"
  by (simp add: keeps_def)

text \<open>The simplifier contracts \<open>ret a\<close> and \<open>raise e\<close> to this form.\<close>

lemma keeps_Pair [simp]: "keeps I (Pair r)"
  by (simp add: keeps_def)

lemma keeps_gets [keeps_rules]: "keeps I (gets f)"
  by (simp add: keeps_def)

lemma keeps_assertM [keeps_rules]: "keeps I (assertM b)"
  by (simp add: keeps_def)

lemma keeps_lookupM [keeps_rules]: "keeps I (lookupM d k)"
  by (simp add: keeps_def lookupM_def split: option.splits)

lemma keeps_bindM [keeps_rules]:
  assumes "keeps I m" and "\<And>a. keeps I (f a)"
  shows "keeps I (bindM m f)"
proof (rule keepsI)
  fix s assume "I s"
  obtain r s' where m: "m s = (r, s')" by fastforce
  with assms(1) \<open>I s\<close> have "I s'" by (metis keepsD)
  with assms(2) have "I (snd (f a s'))" for a by (simp add: keeps_def)
  with m \<open>I s'\<close> show "I (snd (bindM m f s))"
    by (cases r) simp_all
qed

lemma keeps_thenM [keeps_rules]: "keeps I m \<Longrightarrow> keeps I n \<Longrightarrow> keeps I (thenM m n)"
  by (simp add: thenM_def keeps_bindM)

lemma keeps_whenM [keeps_rules]: "(b \<Longrightarrow> keeps I m) \<Longrightarrow> keeps I (whenM b m)"
  by (simp add: whenM_def keeps_ret)

lemma keeps_if [keeps_rules]: "(b \<Longrightarrow> keeps I m) \<Longrightarrow> (\<not> b \<Longrightarrow> keeps I n) \<Longrightarrow> keeps I (if b then m else n)"
  by simp

lemma keeps_forM [keeps_rules]: "(\<And>x. x \<in> set xs \<Longrightarrow> keeps I (f x)) \<Longrightarrow> keeps I (forM xs f)"
  by (induction xs) (auto intro: keeps_ret keeps_thenM)

lemma keeps_foldMl [keeps_rules]:
  "(\<And>x b. x \<in> set xs \<Longrightarrow> keeps I (f x b)) \<Longrightarrow> keeps I (foldMl f xs b)"
  by (induction xs arbitrary: b) (auto intro: keeps_ret keeps_bindM)

lemma keeps_catchM [keeps_rules]:
  assumes "keeps I m" and "\<And>e. keeps I (h e)"
  shows "keeps I (catchM m h)"
  using assms by (auto simp: keeps_def catchM_def split: prod.splits sum.splits)

lemma keeps_option [keeps_rules]:
  "(x = None \<Longrightarrow> keeps I n) \<Longrightarrow> (\<And>a. x = Some a \<Longrightarrow> keeps I (f a)) \<Longrightarrow>
     keeps I (case x of None \<Rightarrow> n | Some a \<Rightarrow> f a)"
  by (simp split: option.split)

lemma keeps_prod [keeps_rules]:
  "(\<And>a b. p = (a, b) \<Longrightarrow> keeps I (f a b)) \<Longrightarrow> keeps I (case p of (a, b) \<Rightarrow> f a b)"
  by (simp split: prod.split)

lemma keeps_prod_arg [keeps_rules]:
  "(\<And>a b. p = (a, b) \<Longrightarrow> keeps I (f a b c)) \<Longrightarrow> keeps I ((case p of (a, b) \<Rightarrow> f a b) c)"
  by (simp split: prod.split)

lemma keeps_Let [keeps_rules]: "keeps I (f x) \<Longrightarrow> keeps I (let y = x in f y)"
  by simp

lemma keeps_modify: "(\<And>s. I s \<Longrightarrow> I (f s)) \<Longrightarrow> keeps I (modify f)"
  by (simp add: keeps_def)

lemma keeps_zoomM:
  "(\<And>s t. I s \<Longrightarrow> m (g s) = t \<Longrightarrow> I (p (snd t) s)) \<Longrightarrow> keeps I (zoomM g p m)"
  by (auto simp: keeps_def zoomM_def split: prod.splits)

subsection \<open>Establishing a stronger invariant on the way\<close>

text \<open>From \<open>P\<close> every outcome of \<open>m\<close> leaves a state with \<open>Q\<close>.\<close>

definition leadsto :: "('s \<Rightarrow> bool) \<Rightarrow> ('s, 'a) pyM \<Rightarrow> ('s \<Rightarrow> bool) \<Rightarrow> bool" where
  "leadsto P m Q \<longleftrightarrow> (\<forall>s. P s \<longrightarrow> Q (snd (m s)))"

lemma keeps_leadsto: "keeps I m \<longleftrightarrow> leadsto I m I"
  by (simp add: keeps_def leadsto_def)

lemma leadsto_thenM:
  assumes "leadsto P m R" and "leadsto R n Q" and "\<And>s. R s \<Longrightarrow> Q s"
  shows "leadsto P (thenM m n) Q"
  unfolding leadsto_def
proof (intro allI impI)
  fix s assume "P s"
  obtain r s' where m: "m s = (r, s')" by fastforce
  with assms(1) \<open>P s\<close> have "R s'" by (auto simp: leadsto_def)
  with assms(2,3) m show "Q (snd (thenM m n s))"
    by (cases r) (auto simp: leadsto_def)
qed

lemma leadsto_bindM:
  assumes "leadsto P m R" and "\<And>a. leadsto R (f a) Q" and "\<And>s. R s \<Longrightarrow> Q s"
  shows "leadsto P (bindM m f) Q"
  unfolding leadsto_def
proof (intro allI impI)
  fix s assume "P s"
  obtain r s' where m: "m s = (r, s')" by fastforce
  with assms(1) \<open>P s\<close> have "R s'" by (auto simp: leadsto_def)
  with assms(2,3) m show "Q (snd (bindM m f s))"
    by (cases r) (auto simp: leadsto_def)
qed

lemma leadsto_raise: "(\<And>s. P s \<Longrightarrow> Q s) \<Longrightarrow> leadsto P (raise e) Q"
  by (simp add: leadsto_def)

lemma leadsto_gets: "leadsto P (gets f) P"
  by (simp add: leadsto_def)

lemma leadsto_modify: "(\<And>s. P s \<Longrightarrow> Q (f s)) \<Longrightarrow> leadsto P (modify f) Q"
  by (simp add: leadsto_def)

lemma leadsto_if: "(b \<Longrightarrow> leadsto P m Q) \<Longrightarrow> (\<not> b \<Longrightarrow> leadsto P n Q) \<Longrightarrow> leadsto P (if b then m else n) Q"
  by simp

lemma leadsto_prod: "(\<And>a b. leadsto P (f a b) Q) \<Longrightarrow> leadsto P (case p of (a, b) \<Rightarrow> f a b) Q"
  by (simp split: prod.split)

lemma leadsto_Let: "leadsto P (f x) Q \<Longrightarrow> leadsto P (let y = x in f y) Q"
  by simp

lemma leadsto_weaken: "leadsto P m Q \<Longrightarrow> (\<And>s. P' s \<Longrightarrow> P s) \<Longrightarrow> leadsto P' m Q"
  by (simp add: leadsto_def)

section \<open>What a successful run returns\<close>

text \<open>From \<open>P\<close>, if \<open>m\<close> returns a value then the value and the state satisfy \<open>Q\<close>.\<close>

definition yields :: "('s \<Rightarrow> bool) \<Rightarrow> ('s, 'a) pyM \<Rightarrow> ('a \<Rightarrow> 's \<Rightarrow> bool) \<Rightarrow> bool" where
  "yields P m Q \<longleftrightarrow> (\<forall>s a s'. P s \<longrightarrow> m s = (Inr a, s') \<longrightarrow> Q a s')"

named_theorems yields_rules "composition rules for yields"

lemma yieldsD: "yields P m Q \<Longrightarrow> P s \<Longrightarrow> m s = (Inr a, s') \<Longrightarrow> Q a s'"
  by (simp add: yields_def)

lemma yields_keeps: "keeps P m \<Longrightarrow> yields P m (\<lambda>_. P)"
  unfolding yields_def by (blast dest: keepsD)

lemma yields_ret [yields_rules]: "(\<And>s. P s \<Longrightarrow> Q a s) \<Longrightarrow> yields P (ret a) Q"
  by (simp add: yields_def)

lemma yields_raise [yields_rules]: "yields P (raise e) Q"
  by (simp add: yields_def)

lemma yields_gets [yields_rules]: "(\<And>s. P s \<Longrightarrow> Q (f s) s) \<Longrightarrow> yields P (gets f) Q"
  by (simp add: yields_def)

lemma yields_modify [yields_rules]: "(\<And>s. P s \<Longrightarrow> Q () (f s)) \<Longrightarrow> yields P (modify f) Q"
  by (simp add: yields_def)

lemma yields_bindM: "yields P m R \<Longrightarrow> (\<And>a. yields (R a) (f a) Q) \<Longrightarrow> yields P (bindM m f) Q"
  unfolding yields_def bindM_ok by blast

lemma yields_thenM: "yields P m R \<Longrightarrow> (\<And>a. yields (R a) n Q) \<Longrightarrow> yields P (thenM m n) Q"
  unfolding thenM_def by (rule yields_bindM)

lemma yields_if [yields_rules]: "(b \<Longrightarrow> yields P m Q) \<Longrightarrow> (\<not> b \<Longrightarrow> yields P n Q) \<Longrightarrow> yields P (if b then m else n) Q"
  by simp

lemma yields_option [yields_rules]:
  "(x = None \<Longrightarrow> yields P n Q) \<Longrightarrow> (\<And>a. x = Some a \<Longrightarrow> yields P (f a) Q) \<Longrightarrow>
     yields P (case x of None \<Rightarrow> n | Some a \<Rightarrow> f a) Q"
  by (simp split: option.split)

lemma yields_prod [yields_rules]: "(\<And>a b. p = (a, b) \<Longrightarrow> yields P (f a b) Q) \<Longrightarrow> yields P (case p of (a, b) \<Rightarrow> f a b) Q"
  by (simp split: prod.split)

lemma yields_Let [yields_rules]: "yields P (f x) Q \<Longrightarrow> yields P (let y = x in f y) Q"
  by simp

lemma yields_foldMl: "(\<And>x b. x \<in> set xs \<Longrightarrow> yields (Q b) (f x b) Q) \<Longrightarrow> yields (Q b) (foldMl f xs b) Q"
  by (induction xs arbitrary: b) (auto intro: yields_ret yields_bindM)

lemma yields_weaken: "yields P m Q \<Longrightarrow> (\<And>a s. Q a s \<Longrightarrow> Q' a s) \<Longrightarrow> yields P m Q'"
  by (simp add: yields_def)

section \<open>Dictionaries and sets\<close>

text \<open>\<open>d.update(e)\<close> for association lists: assigns the entries of \<open>e\<close> in order.\<close>

definition dict_update :: "('k \<times> 'v) list \<Rightarrow> ('k \<times> 'v) list \<Rightarrow> ('k \<times> 'v) list" where
  "dict_update d e = fold (\<lambda>(k, v). AList.update k v) e d"

text \<open>A well-formed dictionary has each key once.\<close>

abbreviation dict_ok :: "('k \<times> 'v) list \<Rightarrow> bool" where
  "dict_ok d \<equiv> distinct (map fst d)"

lemma dict_ok_update [simp]: "dict_ok d \<Longrightarrow> dict_ok (AList.update k v d)"
  by (rule distinct_update)

lemma dict_ok_dict_update: "dict_ok d \<Longrightarrow> dict_ok (dict_update d e)"
  unfolding dict_update_def
  by (induction e arbitrary: d) (auto split: prod.splits)

lemma map_of_update [simp]: "map_of (AList.update k v d) = (map_of d)(k \<mapsto> v)"
  by (rule ext) (simp add: update_conv')

lemma map_of_dict_update: "dict_ok e \<Longrightarrow> map_of (dict_update d e) = map_of d ++ map_of e"
proof (induction e arbitrary: d)
  case Nil
  then show ?case by (simp add: dict_update_def)
next
  case (Cons p e)
  obtain k v where p: "p = (k, v)" by fastforce
  with Cons.prems have "map_of e k = None"
    by (auto simp: map_of_eq_None_iff)
  moreover have "map_of (dict_update d (p # e)) = map_of (AList.update k v d) ++ map_of e"
    using Cons p by (simp add: dict_update_def)
  ultimately show ?case
    using p by (auto simp: map_add_def split: option.splits)
qed

lemma dict_update_Nil [simp]: "dict_update d [] = d"
  by (simp add: dict_update_def)

lemma keys_dict_update: "fst ` set (dict_update d e) = fst ` set d \<union> fst ` set e"
proof (induction e arbitrary: d)
  case (Cons p e)
  then show ?case by (cases p) (simp add: dict_update_def dom_update)
qed simp

text \<open>\<open>AList.update\<close> on an absent key appends, so an update with fresh keys appends all.\<close>

lemma update_fresh: "k \<notin> fst ` set d \<Longrightarrow> AList.update k v d = d @ [(k, v)]"
  by (induction d) auto

lemma dict_update_append: "dict_ok (d @ e) \<Longrightarrow> dict_update d e = d @ e"
proof (induction e arbitrary: d)
  case Nil
  then show ?case by simp
next
  case (Cons p e)
  obtain k v where p: "p = (k, v)" by fastforce
  with Cons.prems have "AList.update k v d = d @ [p]"
    by (intro update_fresh[THEN trans]) auto
  then show ?case
    using Cons.IH[of "d @ [p]"] Cons.prems p by (simp add: dict_update_def)
qed

lemma set_update_subset: "set (AList.update k v d) \<subseteq> insert (k, v) (set d)"
  by (induction d) auto

text \<open>\<open>m.setdefault(k, set())\<close> followed by \<open>.add\<close>, for maps into sets, and the
  membership test that treats a missing key as the empty set.\<close>

definition set_at :: "('k \<rightharpoonup> 'a set) \<Rightarrow> 'k \<Rightarrow> 'a set" where
  "set_at m k = (case m k of None \<Rightarrow> {} | Some s \<Rightarrow> s)"

definition add_at :: "'k \<Rightarrow> 'a \<Rightarrow> ('k \<rightharpoonup> 'a set) \<Rightarrow> ('k \<rightharpoonup> 'a set)" where
  "add_at k a m = m(k \<mapsto> insert a (set_at m k))"

text \<open>\<open>discard\<close> the element and delete the key when nothing is left.\<close>

definition drop_at :: "'k \<Rightarrow> 'a \<Rightarrow> ('k \<rightharpoonup> 'a set) \<Rightarrow> ('k \<rightharpoonup> 'a set)" where
  "drop_at k a m = (case m k of None \<Rightarrow> m
     | Some s \<Rightarrow> if s - {a} = {} then m(k := None) else m(k \<mapsto> s - {a}))"

lemma set_at_empty [simp]: "set_at Map.empty k = {}"
  by (simp add: set_at_def)

lemma set_at_map_of_fresh: "k \<notin> fst ` set d \<Longrightarrow> set_at (map_of d) k = {}"
  by (simp add: set_at_def map_of_eq_None_iff[THEN iffD2])

lemma set_at_map_of_in: "set_at (map_of d) k \<noteq> {} \<Longrightarrow> k \<in> fst ` set d"
  by (rule ccontr) (simp add: set_at_map_of_fresh)

lemma set_at_map_of_entry: "dict_ok d \<Longrightarrow> (k, m) \<in> set d \<Longrightarrow> set_at (map_of d) k = m"
  by (simp add: set_at_def)

lemma set_at_upd [simp]: "set_at (m(k \<mapsto> s)) j = (if j = k then s else set_at m j)"
  by (simp add: set_at_def)

lemma set_at_add_at [simp]:
  "set_at (add_at k a m) j = (if j = k then insert a (set_at m k) else set_at m j)"
  by (simp add: add_at_def)

lemma set_at_drop_at [simp]:
  "set_at (drop_at k a m) j = (if j = k then set_at m k - {a} else set_at m j)"
  by (auto simp: drop_at_def set_at_def split: option.splits)

end
