(* ===== verification/Odb_Types.thy ===== *)
theory Odb_Types
  imports Prelude "HOL-Library.List_Lexorder" "HOL-Library.Product_Lexorder"
begin

text \<open>
  The data that every component exchanges: the identifiers of \<open>schema.py\<close> and the two
  message alternatives of \<open>messages.py\<close>.

  A tuple that the server builds from a Python set (\<open>tuple(s)\<close>, \<open>list(s)\<close>) lists the
  elements in an order the language leaves open; such a field of a server message is modelled
  by the set itself. A tuple built by a client keeps its list.
\<close>

section \<open>Identifiers (schema.py)\<close>

type_synonym ObjectId = int
type_synonym FieldId = int
type_synonym IndexValue = bytes

datatype ObjectFieldId = ObjectFieldId (objId: ObjectId) (fieldId: FieldId) (isIndexValue: bool)

datatype IndexId = IndexId (ixFieldId: FieldId) (indexValue: IndexValue)

text \<open>Named tuples are ordered lexicographically; the server sorts \<open>ObjectFieldId\<close>s.\<close>

instantiation ObjectFieldId :: linorder
begin

definition less_eq_ObjectFieldId :: "ObjectFieldId \<Rightarrow> ObjectFieldId \<Rightarrow> bool" where
  "less_eq_ObjectFieldId x y =
     ((objId x, fieldId x, isIndexValue x) \<le> (objId y, fieldId y, isIndexValue y))"

definition less_ObjectFieldId :: "ObjectFieldId \<Rightarrow> ObjectFieldId \<Rightarrow> bool" where
  "less_ObjectFieldId x y =
     ((objId x, fieldId x, isIndexValue x) < (objId y, fieldId y, isIndexValue y))"

instance
  by standard (auto simp: less_eq_ObjectFieldId_def less_ObjectFieldId_def ObjectFieldId.expand
      less_le_not_le)

end

instantiation IndexId :: linorder
begin

definition less_eq_IndexId :: "IndexId \<Rightarrow> IndexId \<Rightarrow> bool" where
  "less_eq_IndexId x y = ((ixFieldId x, indexValue x) \<le> (ixFieldId y, indexValue y))"

definition less_IndexId :: "IndexId \<Rightarrow> IndexId \<Rightarrow> bool" where
  "less_IndexId x y = ((ixFieldId x, indexValue x) < (ixFieldId y, indexValue y))"

instance
  by standard (auto simp: less_eq_IndexId_def less_IndexId_def IndexId.expand less_le_not_le)

end

datatype FieldDefinition = FieldDefinition (fd_schema: string) (fd_typename: string) (fd_fieldname: string)

record TypeDefinition =
  td_fields :: "string list"
  td_indices :: "string list"

type_synonym SchemaDefinition = "(string \<times> TypeDefinition) list"

text \<open>\<open>OneOf(None, Tuple(str, IndexValue))\<close>: the part of a subscription that narrows a
  type to an index value.\<close>

type_synonym field_and_value = "(string \<times> IndexValue) option"

text \<open>The keys whose last committed version the server tracks.\<close>

datatype version_key = VKey ObjectFieldId | VIndex IndexId

section \<open>Messages (messages.py)\<close>

type_synonym write_dict = "(ObjectFieldId \<times> bytes option) list"

record transaction_data =
  tx_writes :: write_dict
  tx_set_adds :: "(IndexId \<times> ObjectId list) list"
  tx_set_removes :: "(IndexId \<times> ObjectId list) list"
  tx_key_versions :: "ObjectFieldId list"
  tx_index_versions :: "IndexId list"
  tx_guid :: int
  tx_prerequisites :: write_dict

datatype ClientToServer =
    TransactionData transaction_data
  | CompleteTransaction (as_of_version: int) (c_guid: int) (no_log: bool)
  | Heartbeat
  | DefineSchema string SchemaDefinition
  | LoadLazyObject string string ObjectId
  | Subscribe string string field_and_value bool
  | Flush int
  | Authenticate string
  | RequestDependentConnectionId ObjectId string
  | DropDependentConnectionId ObjectId
  | SubscribeNone string string

text \<open>\<open>badKey\<close> of a transaction result: the conflicting key, a fixed string, or the
  traceback of an exception, of which the model keeps the exception.\<close>

datatype bad_key = BadKey version_key | BadText string | BadTraceback py_error

type_synonym set_dict = "(IndexId \<times> ObjectId set) list"

record transaction_msg =
  tm_writes :: write_dict
  tm_set_adds :: set_dict
  tm_set_removes :: set_dict
  tm_transaction_id :: int

datatype ServerToClient =
    Initialize int ObjectId int
  | TransactionResult int bool "bad_key option" bool
  | SchemaMapping string "(FieldDefinition \<times> FieldId) list"
  | FlushResponse int
  | SubscriptionData string string field_and_value
      "ObjectFieldId \<rightharpoonup> bytes option" "ObjectFieldId \<rightharpoonup> bytes option" "ObjectId set option"
  | LazyTransactionPriors "(ObjectFieldId \<times> bytes option) list"
  | LazyLoadResponse ObjectId "(ObjectFieldId \<times> bytes option) list"
  | LazySubscriptionData string string field_and_value "ObjectId set" "ObjectFieldId \<rightharpoonup> bytes option"
  | SubscriptionComplete string string field_and_value int
  | SubscriptionIncrease string string "string \<times> IndexValue" "ObjectId set" int
  | Disconnected
  | Transaction transaction_msg
  | DependentConnectionId string ObjectId int

end
