(* ===== verification/Type_Map.thy ===== *)
theory Type_Map
  imports Odb_Types
begin

text \<open>
  \<open>TypeMap\<close> of \<open>server.py\<close>: the server's numbering of every field of every type. A field
  definition gets the next number when it is first seen, and keeps it. The two dictionaries are
  inverse to each other and the numbers are \<open>0 .. len - 1\<close>.
\<close>

section \<open>Model\<close>

record TypeMap =
  fieldDefToId :: "(FieldDefinition \<times> FieldId) list"
  fieldIdToDef :: "FieldId \<rightharpoonup> FieldDefinition"

definition emptyTypeMap :: TypeMap where
  "emptyTypeMap = \<lparr>fieldDefToId = [], fieldIdToDef = Map.empty\<rparr>"

definition typeMapLen :: "TypeMap \<Rightarrow> nat" where
  "typeMapLen tm = length (fieldDefToId tm)"

definition lookupOrAdd :: "string \<Rightarrow> string \<Rightarrow> string \<Rightarrow> TypeMap \<Rightarrow> FieldId \<times> TypeMap" where
  "lookupOrAdd schema typename fieldname tm =
     (let key = FieldDefinition schema typename fieldname
      in case map_of (fieldDefToId tm) key of
           Some f \<Rightarrow> (f, tm)
         | None \<Rightarrow>
             let f = int (typeMapLen tm)
             in (f, tm\<lparr>fieldDefToId := AList.update key f (fieldDefToId tm),
                       fieldIdToDef := (fieldIdToDef tm)(f \<mapsto> key)\<rparr>))"

definition fieldIdFor :: "TypeMap \<Rightarrow> string \<Rightarrow> string \<Rightarrow> string \<Rightarrow> FieldId option" where
  "fieldIdFor tm schema typename fieldname =
     map_of (fieldDefToId tm) (FieldDefinition schema typename fieldname)"

section \<open>Invariant\<close>

definition typemap_ok :: "TypeMap \<Rightarrow> bool" where
  "typemap_ok tm \<longleftrightarrow>
     dict_ok (fieldDefToId tm) \<and>
     map snd (fieldDefToId tm) = map int [0..<typeMapLen tm] \<and>
     (\<forall>f d. fieldIdToDef tm f = Some d \<longleftrightarrow> map_of (fieldDefToId tm) d = Some f)"

text \<open>\<open>tm'\<close> extends \<open>tm\<close>: every number keeps its meaning.\<close>

definition typemap_le :: "TypeMap \<Rightarrow> TypeMap \<Rightarrow> bool" where
  "typemap_le tm tm' \<longleftrightarrow>
     map_of (fieldDefToId tm) \<subseteq>\<^sub>m map_of (fieldDefToId tm') \<and>
     fieldIdToDef tm \<subseteq>\<^sub>m fieldIdToDef tm'"

section \<open>Lemmas\<close>

lemma typemap_ok_empty [simp]: "typemap_ok emptyTypeMap"
  by (simp add: typemap_ok_def emptyTypeMap_def typeMapLen_def)

lemma typemap_le_refl [simp]: "typemap_le tm tm"
  by (simp add: typemap_le_def)

lemma typemap_le_trans: "typemap_le a b \<Longrightarrow> typemap_le b c \<Longrightarrow> typemap_le a c"
  unfolding typemap_le_def by (blast intro: map_le_trans)

lemma typemap_ok_id_bound:
  assumes "typemap_ok tm" and "map_of (fieldDefToId tm) d = Some f"
  shows "0 \<le> f \<and> f < int (typeMapLen tm)"
proof -
  from assms(2) have "f \<in> set (map snd (fieldDefToId tm))"
    by (force dest: map_of_SomeD)
  with assms(1) show ?thesis by (auto simp: typemap_ok_def)
qed

lemma typemap_ok_def_bound:
  assumes "typemap_ok tm" and "fieldIdToDef tm f = Some d"
  shows "0 \<le> f \<and> f < int (typeMapLen tm)"
  using assms typemap_ok_id_bound unfolding typemap_ok_def by blast

lemma typemap_ok_inj:
  "typemap_ok tm \<Longrightarrow> map_of (fieldDefToId tm) d = Some f \<Longrightarrow>
     map_of (fieldDefToId tm) d' = Some f \<Longrightarrow> d = d'"
  unfolding typemap_ok_def by (metis option.inject)

lemma lookupOrAdd_known:
  "fieldIdFor tm s t n = Some f \<Longrightarrow> lookupOrAdd s t n tm = (f, tm)"
  by (simp add: lookupOrAdd_def fieldIdFor_def Let_def)

lemma lookupOrAdd_new:
  assumes "fieldIdFor tm s t n = None"
  shows "lookupOrAdd s t n tm =
    (int (typeMapLen tm),
     tm\<lparr>fieldDefToId := fieldDefToId tm @ [(FieldDefinition s t n, int (typeMapLen tm))],
        fieldIdToDef := (fieldIdToDef tm)(int (typeMapLen tm) \<mapsto> FieldDefinition s t n)\<rparr>)"
proof -
  from assms have none: "map_of (fieldDefToId tm) (FieldDefinition s t n) = None"
    by (simp add: fieldIdFor_def)
  then have "FieldDefinition s t n \<notin> fst ` set (fieldDefToId tm)"
    by (simp add: map_of_eq_None_iff)
  with none show ?thesis
    by (simp add: lookupOrAdd_def Let_def update_fresh)
qed

lemma lookupOrAdd_ok:
  assumes "typemap_ok tm"
  shows "typemap_ok (snd (lookupOrAdd s t n tm))"
proof (cases "fieldIdFor tm s t n")
  case None
  let ?k = "FieldDefinition s t n" and ?f = "int (typeMapLen tm)"
  have new: "fieldIdToDef tm ?f = None"
    using typemap_ok_def_bound[OF assms] by (cases "fieldIdToDef tm ?f") auto
  have fresh: "?k \<notin> fst ` set (fieldDefToId tm)"
    using None by (simp add: fieldIdFor_def map_of_eq_None_iff)
  have inv: "((fieldIdToDef tm)(?f \<mapsto> ?k)) f = Some d \<longleftrightarrow>
      map_of (fieldDefToId tm @ [(?k, ?f)]) d = Some f" for f d
  proof (cases "d = ?k")
    case True
    with assms new None show ?thesis
      by (auto simp: typemap_ok_def fieldIdFor_def map_add_def)
  next
    case False
    then have "map_of (fieldDefToId tm @ [(?k, ?f)]) d = map_of (fieldDefToId tm) d"
      by (simp add: map_add_def split: option.splits)
    moreover have "map_of (fieldDefToId tm) d \<noteq> Some ?f"
      using typemap_ok_id_bound[OF assms, of d ?f] by blast
    ultimately show ?thesis
      using assms False by (cases "f = ?f") (simp_all add: typemap_ok_def)
  qed
  show ?thesis
    using assms fresh inv
    by (simp add: lookupOrAdd_new[OF None] typemap_ok_def typeMapLen_def)
qed (simp add: lookupOrAdd_known assms)

lemma lookupOrAdd_le:
  assumes "typemap_ok tm"
  shows "typemap_le tm (snd (lookupOrAdd s t n tm))"
proof (cases "fieldIdFor tm s t n")
  case None
  have "fieldIdToDef tm (int (typeMapLen tm)) = None"
    using typemap_ok_def_bound[OF assms] by (cases "fieldIdToDef tm (int (typeMapLen tm))") auto
  then show ?thesis
    by (auto simp: lookupOrAdd_new[OF None] typemap_le_def map_le_def map_add_def)
qed (simp add: lookupOrAdd_known)

lemma fieldIdFor_lookupOrAdd:
  "fieldIdFor (snd (lookupOrAdd s t n tm)) s t n = Some (fst (lookupOrAdd s t n tm))"
  by (simp add: lookupOrAdd_def fieldIdFor_def Let_def split: option.splits)

text \<open>C12. registering a field is stable and injective. On a well-formed map
  \<open>lookupOrAdd\<close> keeps the map well formed, never changes the number of a known field, makes
  the two dictionaries agree on the returned number, and the returned number belongs to no other
  field.\<close>

theorem lookupOrAdd_correct:
  assumes "typemap_ok tm" and "lookupOrAdd s t n tm = (f, tm')"
  shows "typemap_ok tm' \<and> typemap_le tm tm' \<and>
    fieldIdFor tm' s t n = Some f \<and> fieldIdToDef tm' f = Some (FieldDefinition s t n) \<and>
    (\<forall>s2 t2 n2. fieldIdFor tm' s2 t2 n2 = Some f \<longrightarrow> (s2, t2, n2) = (s, t, n))"
proof -
  have ok: "typemap_ok tm'" and le: "typemap_le tm tm'" and f: "fieldIdFor tm' s t n = Some f"
    using lookupOrAdd_ok[OF assms(1), of s t n] lookupOrAdd_le[OF assms(1), of s t n]
      fieldIdFor_lookupOrAdd[of s t n tm] assms(2) by auto
  from ok f have "fieldIdToDef tm' f = Some (FieldDefinition s t n)"
    by (simp add: typemap_ok_def fieldIdFor_def)
  moreover from ok f have "\<forall>s2 t2 n2. fieldIdFor tm' s2 t2 n2 = Some f \<longrightarrow> (s2, t2, n2) = (s, t, n)"
    unfolding fieldIdFor_def using typemap_ok_inj by blast
  ultimately show ?thesis using ok le f by blast
qed

theorem lookupOrAdd_correct_witness:
  "typemap_ok (snd (lookupOrAdd ''core'' ''Connection'' '' exists'' emptyTypeMap))
   \<and> fieldIdFor (snd (lookupOrAdd ''core'' ''Connection'' '' exists'' emptyTypeMap))
       ''core'' ''Connection'' '' exists'' = Some 0"
proof -
  have "lookupOrAdd ''core'' ''Connection'' '' exists'' emptyTypeMap =
      (0, snd (lookupOrAdd ''core'' ''Connection'' '' exists'' emptyTypeMap))"
    by (simp add: lookupOrAdd_def emptyTypeMap_def typeMapLen_def Let_def)
  from lookupOrAdd_correct[OF typemap_ok_empty this] show ?thesis by blast
qed

end
