(* ===== verification/Environment.thy ===== *)
theory Environment
  imports Type_Map
begin

text \<open>
  What the modelled code takes from outside the repository.

  \<^item> \<open>typed_python\<close>'s \<open>serialize\<close> and \<open>deserialize\<close>, at the types the server uses them
    with. \<open>None\<close> is a raised exception. \<open>codec_ok\<close> is what the code relies on: decoding
    inverts encoding.
  \<^item> The order in which a Python set is iterated, which the language leaves open.
    \<open>iter_ok\<close>: an iteration visits each element once.

  Both are fields of one record \<open>pyenv\<close>, an argument of the definitions that use them.
  \<open>demo_env\<close> is a concrete environment that satisfies both requirements.
\<close>

section \<open>Set members\<close>

text \<open>\<open>SetValue = OneOf(int, bytes)\<close> of \<open>persistence.py\<close>, ordered so that a set of
  them has a canonical iteration.\<close>

datatype SetValue = SVInt int | SVBytes bytes

instantiation SetValue :: linorder
begin

fun less_eq_SetValue :: "SetValue \<Rightarrow> SetValue \<Rightarrow> bool" where
  "less_eq_SetValue (SVInt i) (SVInt j) = (i \<le> j)"
| "less_eq_SetValue (SVInt i) (SVBytes b) = True"
| "less_eq_SetValue (SVBytes a) (SVInt j) = False"
| "less_eq_SetValue (SVBytes a) (SVBytes b) = (a \<le> b)"

definition less_SetValue :: "SetValue \<Rightarrow> SetValue \<Rightarrow> bool" where
  "less_SetValue x y = (x \<le> y \<and> \<not> y \<le> x)"

instance
proof
  fix x y z :: SetValue
  show "(x < y) = (x \<le> y \<and> \<not> y \<le> x)" by (rule less_SetValue_def)
  show "x \<le> x" by (cases x) auto
  show "x \<le> y \<Longrightarrow> y \<le> z \<Longrightarrow> x \<le> z" by (cases x; cases y; cases z) auto
  show "x \<le> y \<Longrightarrow> y \<le> x \<Longrightarrow> x = y" by (cases x; cases y) auto
  show "x \<le> y \<or> y \<le> x" by (cases x; cases y) auto
qed

end

section \<open>The environment\<close>

type_synonym chan = nat

record pyenv =
  ser_bool :: "bool \<Rightarrow> bytes"
  ser_int :: "int \<Rightarrow> bytes"
  deser_int :: "bytes \<Rightarrow> int option"
  ser_iv :: "IndexValue \<Rightarrow> bytes"
  deser_iv :: "bytes \<Rightarrow> IndexValue option"
  deser_ObjectBase :: "bytes \<Rightarrow> int option"
  ser_TypeMap :: "TypeMap \<Rightarrow> bytes"
  deser_TypeMap :: "bytes \<Rightarrow> TypeMap option"
  iterV :: "SetValue set \<Rightarrow> SetValue list"
  iterC :: "chan set \<Rightarrow> chan list"
  iterI :: "ObjectId set \<Rightarrow> ObjectId list"
  iterK :: "ObjectFieldId set \<Rightarrow> ObjectFieldId list"
  iterX :: "IndexId set \<Rightarrow> IndexId list"

definition codec_ok :: "pyenv \<Rightarrow> bool" where
  "codec_ok env \<longleftrightarrow>
     ser_bool env True \<noteq> ser_bool env False \<and>
     (\<forall>n. deser_int env (ser_int env n) = Some n) \<and>
     (\<forall>v. deser_iv env (ser_iv env v) = Some v)"

definition good_iter :: "('a set \<Rightarrow> 'a list) \<Rightarrow> bool" where
  "good_iter it \<longleftrightarrow> (\<forall>S. finite S \<longrightarrow> set (it S) = S \<and> distinct (it S))"

definition iter_ok :: "pyenv \<Rightarrow> bool" where
  "iter_ok env \<longleftrightarrow> good_iter (iterV env) \<and> good_iter (iterC env) \<and> good_iter (iterI env) \<and>
     good_iter (iterK env) \<and> good_iter (iterX env)"

lemma good_iter_set: "good_iter it \<Longrightarrow> finite S \<Longrightarrow> set (it S) = S"
  by (simp add: good_iter_def)

lemma good_iter_distinct: "good_iter it \<Longrightarrow> finite S \<Longrightarrow> distinct (it S)"
  by (simp add: good_iter_def)

section \<open>A concrete environment\<close>

definition demo_env :: pyenv where
  "demo_env = \<lparr>
     ser_bool = (\<lambda>b. [if b then 1 else 0]),
     ser_int = (\<lambda>n. (if n < 0 then 1 else 0) # replicate (nat \<bar>n\<bar>) 0),
     deser_int = (\<lambda>b. case b of [] \<Rightarrow> None
        | s # r \<Rightarrow> Some (if s = 1 then - int (length r) else int (length r))),
     ser_iv = (\<lambda>v. v), deser_iv = Some,
     deser_ObjectBase = (\<lambda>b. Some (int (length b))),
     ser_TypeMap = (\<lambda>_. []), deser_TypeMap = (\<lambda>_. None),
     iterV = sorted_list_of_set, iterC = sorted_list_of_set, iterI = sorted_list_of_set,
     iterK = sorted_list_of_set, iterX = sorted_list_of_set\<rparr>"

lemma codec_ok_demo [simp]: "codec_ok demo_env"
  by (simp add: codec_ok_def demo_env_def)

lemma iter_ok_demo [simp]: "iter_ok demo_env"
  by (simp add: iter_ok_def good_iter_def demo_env_def)

lemma demo_env_sel [simp]:
  "ser_bool demo_env b = [if b then 1 else 0]"
  "ser_iv demo_env v = v" "deser_iv demo_env v = Some v"
  "iterV demo_env = sorted_list_of_set" "iterC demo_env = sorted_list_of_set"
  "iterI demo_env = sorted_list_of_set" "iterK demo_env = sorted_list_of_set"
  "iterX demo_env = sorted_list_of_set"
  by (simp_all add: demo_env_def)

lemma iterV_set [simp]: "iter_ok env \<Longrightarrow> finite S \<Longrightarrow> set (iterV env S) = S"
  by (simp add: iter_ok_def good_iter_set)

lemma iterC_set [simp]: "iter_ok env \<Longrightarrow> finite S \<Longrightarrow> set (iterC env S) = S"
  by (simp add: iter_ok_def good_iter_set)

lemma iterI_set [simp]: "iter_ok env \<Longrightarrow> finite S \<Longrightarrow> set (iterI env S) = S"
  by (simp add: iter_ok_def good_iter_set)

lemma iterK_set [simp]: "iter_ok env \<Longrightarrow> finite S \<Longrightarrow> set (iterK env S) = S"
  by (simp add: iter_ok_def good_iter_set)

lemma iterX_set [simp]: "iter_ok env \<Longrightarrow> finite S \<Longrightarrow> set (iterX env S) = S"
  by (simp add: iter_ok_def good_iter_set)

lemma iterV_distinct [simp]: "iter_ok env \<Longrightarrow> finite S \<Longrightarrow> distinct (iterV env S)"
  by (simp add: iter_ok_def good_iter_distinct)

lemma deser_iv_ser_iv [simp]: "codec_ok env \<Longrightarrow> deser_iv env (ser_iv env v) = Some v"
  by (simp add: codec_ok_def)

lemma deser_int_ser_int [simp]: "codec_ok env \<Longrightarrow> deser_int env (ser_int env n) = Some n"
  by (simp add: codec_ok_def)

lemma ser_bool_inj: "codec_ok env \<Longrightarrow> ser_bool env a = ser_bool env b \<longleftrightarrow> a = b"
  unfolding codec_ok_def by (metis (full_types))

end
