(* ===== verification/Persistence.thy ===== *)
theory Persistence
  imports Environment
begin

text \<open>
  \<open>InMemoryPersistence\<close> of \<open>persistence.py\<close>: the key-value store below the server. A
  key holds a byte string or a set; an operation that fails an assertion in the middle of a batch
  leaves the part it has already written, which the model keeps.

  \<open>val_of\<close> and \<open>set_of\<close> read a store as two total functions, and \<open>kv_ok\<close> says that
  keys hold values of their kind and no empty set is stored. On these, one law describes
  \<open>setSeveral\<close> completely (\<open>setSeveral_spec\<close>); it is the contract the server relies on,
  stated as the locale \<open>kv_persistence\<close> and discharged here for the in-memory store.
\<close>

section \<open>Model\<close>

text \<open>\<open>KeyType = OneOf(ObjectFieldId, IndexId, FieldId, "identityRoot", "types")\<close>\<close>

datatype KeyType = KObj ObjectFieldId | KIx IndexId | KFld FieldId | KStr string

datatype stored = Bytes bytes | Members "SetValue set"

record InMemoryPersistence =
  kv_values :: "KeyType \<rightharpoonup> stored"

definition newInMemoryPersistence :: InMemoryPersistence where
  "newInMemoryPersistence = \<lparr>kv_values = Map.empty\<rparr>"

text \<open>\<open>not isinstance(key, str) and key.isIndexValue\<close>: only an \<open>ObjectFieldId\<close> has the
  attribute; on the other key types reading it raises.\<close>

definition isIndexValueKey :: "KeyType \<Rightarrow> ('s, bool) pyM" where
  "isIndexValueKey k = (case k of KStr _ \<Rightarrow> ret False | KObj i \<Rightarrow> ret (isIndexValue i)
     | KIx _ \<Rightarrow> raise AttributeError | KFld _ \<Rightarrow> raise AttributeError)"

definition kv_get :: "pyenv \<Rightarrow> KeyType \<Rightarrow> (InMemoryPersistence, bytes option) pyM" where
  "kv_get env key =
     bindM (gets kv_values) (\<lambda>vs.
       case vs key of
         None \<Rightarrow> ret None
       | Some (Members _) \<Rightarrow> raise AssertionError
       | Some (Bytes b) \<Rightarrow>
           bindM (isIndexValueKey key) (\<lambda>iv.
             if iv then (case deser_iv env b of None \<Rightarrow> raise ValueError | Some v \<Rightarrow> ret (Some v))
             else ret (Some b)))"

definition kv_set :: "pyenv \<Rightarrow> KeyType \<Rightarrow> bytes option \<Rightarrow> (InMemoryPersistence, unit) pyM" where
  "kv_set env key val =
     bindM (isIndexValueKey key) (\<lambda>iv.
       case val of
         None \<Rightarrow> modify (\<lambda>s. s\<lparr>kv_values := (kv_values s)(key := None)\<rparr>)
       | Some b \<Rightarrow>
           modify (\<lambda>s. s\<lparr>kv_values := (kv_values s)(key \<mapsto> Bytes (if iv then ser_iv env b else b))\<rparr>))"

text \<open>\<open>self.values[key].add(value)\<close> after \<open>assert value not in self.values[key]\<close>. On a
  byte string the attribute is missing.\<close>

definition set_add1 :: "KeyType \<Rightarrow> SetValue \<Rightarrow> (InMemoryPersistence, unit) pyM" where
  "set_add1 key v =
     bindM (gets (\<lambda>s. kv_values s key)) (\<lambda>cur.
       case cur of
         Some (Members m) \<Rightarrow>
           thenM (assertM (v \<notin> m))
             (modify (\<lambda>s. s\<lparr>kv_values := (kv_values s)(key \<mapsto> Members (insert v m))\<rparr>))
       | _ \<Rightarrow> raise AttributeError)"

definition setAdd :: "pyenv \<Rightarrow> KeyType \<Rightarrow> SetValue set \<Rightarrow> (InMemoryPersistence, unit) pyM" where
  "setAdd env key vals =
     (if vals = {} then ret ()
      else thenM (modify (\<lambda>s. if kv_values s key = None
                              then s\<lparr>kv_values := (kv_values s)(key \<mapsto> Members {})\<rparr> else s))
             (forM (iterV env vals) (set_add1 key)))"

definition set_remove1 :: "KeyType \<Rightarrow> SetValue \<Rightarrow> (InMemoryPersistence, unit) pyM" where
  "set_remove1 key v =
     bindM (gets (\<lambda>s. kv_values s key)) (\<lambda>cur.
       case cur of
         Some (Members m) \<Rightarrow>
           thenM (assertM (v \<in> m))
             (modify (\<lambda>s. s\<lparr>kv_values := (kv_values s)(key \<mapsto> Members (m - {v}))\<rparr>))
       | _ \<Rightarrow> raise AttributeError)"

definition setRemove :: "pyenv \<Rightarrow> KeyType \<Rightarrow> SetValue set \<Rightarrow> (InMemoryPersistence, unit) pyM" where
  "setRemove env key vals =
     (if vals = {} then ret ()
      else
        bindM (gets (\<lambda>s. kv_values s key)) (\<lambda>cur.
        thenM (assertM (cur \<noteq> None \<and> cur \<noteq> Some (Members {}) \<and> cur \<noteq> Some (Bytes [])))
        (thenM (forM (iterV env vals) (set_remove1 key))
          (modify (\<lambda>s. if kv_values s key = Some (Members {})
                       then s\<lparr>kv_values := (kv_values s)(key := None)\<rparr> else s)))))"

definition getSetMembers :: "KeyType \<Rightarrow> (InMemoryPersistence, SetValue set) pyM" where
  "getSetMembers key =
     bindM (gets (\<lambda>s. kv_values s key)) (\<lambda>cur.
       case cur of None \<Rightarrow> ret {} | Some (Members m) \<Rightarrow> ret m | Some (Bytes _) \<Rightarrow> raise AssertionError)"

fun getSeveral :: "pyenv \<Rightarrow> KeyType list \<Rightarrow> (InMemoryPersistence, bytes option list) pyM" where
  "getSeveral env [] = ret []"
| "getSeveral env (k # ks) =
     bindM (kv_get env k) (\<lambda>v. bindM (getSeveral env ks) (\<lambda>vs. ret (v # vs)))"

definition getSeveralAsDictionary ::
  "pyenv \<Rightarrow> KeyType list \<Rightarrow> (InMemoryPersistence, (KeyType \<times> bytes option) list) pyM" where
  "getSeveralAsDictionary env keys =
     bindM (getSeveral env keys) (\<lambda>vs. ret (dict_update [] (zip keys vs)))"

text \<open>The two result sets are kept as lists in the order of insertion.\<close>

definition setSeveral ::
  "pyenv \<Rightarrow> (KeyType \<times> bytes option) list \<Rightarrow> (KeyType \<times> SetValue set) list
     \<Rightarrow> (KeyType \<times> SetValue set) list \<Rightarrow> (InMemoryPersistence, KeyType list \<times> KeyType list) pyM" where
  "setSeveral env kvs adds removes =
     thenM (forM kvs (\<lambda>(k, v). kv_set env k v))
     (bindM (foldMl (\<lambda>(k, to_add) new_sets.
               bindM (gets (\<lambda>s. kv_values s k = None)) (\<lambda>isnew.
               thenM (setAdd env k to_add) (ret (if isnew then new_sets @ [k] else new_sets))))
             adds []) (\<lambda>new_sets.
      bindM (foldMl (\<lambda>(k, to_remove) dropped_sets.
               thenM (setRemove env k to_remove)
               (bindM (gets (\<lambda>s. kv_values s k = None)) (\<lambda>gone.
                ret (if gone then dropped_sets @ [k] else dropped_sets))))
             removes []) (\<lambda>dropped_sets.
      ret (new_sets, dropped_sets))))"

definition kv_exists :: "KeyType \<Rightarrow> (InMemoryPersistence, bool) pyM" where
  "kv_exists key = gets (\<lambda>s. kv_values s key \<noteq> None)"

definition kv_delete :: "KeyType \<Rightarrow> (InMemoryPersistence, unit) pyM" where
  "kv_delete key = modify (\<lambda>s. s\<lparr>kv_values := (kv_values s)(key := None)\<rparr>)"

section \<open>The store as two functions\<close>

definition val_of :: "pyenv \<Rightarrow> InMemoryPersistence \<Rightarrow> KeyType \<Rightarrow> bytes option" where
  "val_of env s k = (case kv_values s k of
       Some (Bytes b) \<Rightarrow> (case k of KObj i \<Rightarrow> if isIndexValue i then deser_iv env b else Some b
                          | _ \<Rightarrow> Some b)
     | _ \<Rightarrow> None)"

definition set_of :: "InMemoryPersistence \<Rightarrow> KeyType \<Rightarrow> SetValue set" where
  "set_of s k = (case kv_values s k of Some (Members m) \<Rightarrow> m | _ \<Rightarrow> {})"

definition value_key :: "KeyType \<Rightarrow> bool" where
  "value_key k \<longleftrightarrow> (case k of KObj _ \<Rightarrow> True | KStr _ \<Rightarrow> True | _ \<Rightarrow> False)"

definition set_key :: "KeyType \<Rightarrow> bool" where
  "set_key k \<longleftrightarrow> \<not> value_key k"

text \<open>Keys hold values of their kind, no empty set is stored, every stored index value
  decodes.\<close>

definition cell_ok :: "pyenv \<Rightarrow> KeyType \<Rightarrow> stored option \<Rightarrow> bool" where
  "cell_ok env k c \<longleftrightarrow> (case c of
       None \<Rightarrow> True
     | Some (Bytes b) \<Rightarrow> value_key k \<and>
         (case k of KObj i \<Rightarrow> isIndexValue i \<longrightarrow> deser_iv env b \<noteq> None | _ \<Rightarrow> True)
     | Some (Members m) \<Rightarrow> set_key k \<and> m \<noteq> {} \<and> finite m)"

definition kv_ok :: "pyenv \<Rightarrow> InMemoryPersistence \<Rightarrow> bool" where
  "kv_ok env s \<longleftrightarrow> (\<forall>k. cell_ok env k (kv_values s k))"

text \<open>What a batch must satisfy for the store to accept it.\<close>

definition batch_ok ::
  "(KeyType \<Rightarrow> SetValue set) \<Rightarrow> (KeyType \<times> bytes option) list \<Rightarrow> (KeyType \<times> SetValue set) list
     \<Rightarrow> (KeyType \<times> SetValue set) list \<Rightarrow> bool" where
  "batch_ok sets kvs adds removes \<longleftrightarrow>
     dict_ok kvs \<and> dict_ok adds \<and> dict_ok removes \<and>
     (\<forall>(k, v) \<in> set kvs. value_key k) \<and>
     (\<forall>(k, m) \<in> set adds. set_key k \<and> finite m \<and> m \<noteq> {} \<and> m \<inter> sets k = {}) \<and>
     (\<forall>(k, m) \<in> set removes. set_key k \<and> finite m \<and> m \<noteq> {} \<and>
        m \<subseteq> sets k \<union> set_at (map_of adds) k)"

section \<open>Reading\<close>

lemma isIndexValueKey_ok: "value_key k \<Longrightarrow>
    isIndexValueKey k s = (Inr (case k of KObj i \<Rightarrow> isIndexValue i | _ \<Rightarrow> False), s)"
  by (auto simp: isIndexValueKey_def value_key_def split: KeyType.splits)

lemma kv_okD: "kv_ok env s \<Longrightarrow> kv_values s k = c \<Longrightarrow> cell_ok env k c"
  by (auto simp: kv_ok_def)

lemma kv_ok_value:
  assumes "kv_ok env s" and "value_key k" and "kv_values s k = Some v"
  obtains b where "v = Bytes b" and "val_of env s k \<noteq> None"
  using kv_okD[OF assms(1,3)] assms(2,3)
  by (auto simp: cell_ok_def val_of_def set_key_def split: stored.splits KeyType.splits)

lemma kv_ok_set:
  assumes "kv_ok env s" and "set_key k" and "kv_values s k = Some v"
  obtains m where "v = Members m" and "m \<noteq> {}" and "finite m"
  using kv_okD[OF assms(1,3)] assms(2)
  by (auto simp: cell_ok_def set_key_def split: stored.splits)

lemma kv_get_ok:
  assumes "kv_ok env s" and "value_key k"
  shows "kv_get env k s = (Inr (val_of env s k), s)"
proof (cases "kv_values s k")
  case None
  then show ?thesis by (simp add: kv_get_def val_of_def)
next
  case (Some v)
  with assms obtain b where "v = Bytes b" and "val_of env s k \<noteq> None"
    by (blast elim: kv_ok_value)
  with Some assms(2) show ?thesis
    by (auto simp: kv_get_def val_of_def isIndexValueKey_def value_key_def
        split: KeyType.splits option.splits)
qed

lemma getSetMembers_ok:
  assumes "kv_ok env s" and "set_key k"
  shows "getSetMembers k s = (Inr (set_of s k), s)"
proof (cases "kv_values s k")
  case None
  then show ?thesis by (simp add: getSetMembers_def set_of_def)
next
  case (Some v)
  with assms obtain m where "v = Members m" by (blast elim: kv_ok_set)
  with Some show ?thesis by (simp add: getSetMembers_def set_of_def)
qed

lemma getSeveral_ok:
  "kv_ok env s \<Longrightarrow> \<forall>k \<in> set ks. value_key k \<Longrightarrow>
     getSeveral env ks s = (Inr (map (val_of env s) ks), s)"
  by (induction ks) (simp_all add: kv_get_ok)

lemma getSeveralAsDictionary_ok:
  assumes "kv_ok env s" and "\<forall>k \<in> set ks. value_key k" and "distinct ks"
  shows "getSeveralAsDictionary env ks s = (Inr (map (\<lambda>k. (k, val_of env s k)) ks), s)"
proof -
  have "zip ks (map (val_of env s) ks) = map (\<lambda>k. (k, val_of env s k)) ks"
    by (induction ks) auto
  with assms show ?thesis
    by (simp add: getSeveralAsDictionary_def getSeveral_ok dict_update_append comp_def)
qed

lemma kv_get_state [simp]: "snd (kv_get env k s) = s"
  by (auto simp: kv_get_def isIndexValueKey_def bindM_def split: option.splits stored.splits KeyType.splits)

lemma getSetMembers_state [simp]: "snd (getSetMembers k s) = s"
  by (auto simp: getSetMembers_def split: option.splits stored.splits)

lemma getSeveral_state [simp]: "snd (getSeveral env ks s) = s"
proof (induction ks)
  case (Cons k ks)
  obtain r where r: "kv_get env k s = (r, s)" by (metis kv_get_state prod.collapse)
  obtain q where q: "getSeveral env ks s = (q, s)" by (metis Cons prod.collapse)
  show ?case by (cases r; cases q) (simp_all add: bindM_def r q)
qed simp

lemma getSeveralAsDictionary_state [simp]: "snd (getSeveralAsDictionary env ks s) = s"
proof -
  obtain q where q: "getSeveral env ks s = (q, s)" by (metis getSeveral_state prod.collapse)
  show ?thesis by (cases q) (simp_all add: getSeveralAsDictionary_def bindM_def q)
qed

section \<open>Writing one key\<close>

definition put_val :: "pyenv \<Rightarrow> InMemoryPersistence \<Rightarrow> KeyType \<Rightarrow> bytes option \<Rightarrow> InMemoryPersistence" where
  "put_val env s k v = snd (kv_set env k v s)"

definition put_set :: "InMemoryPersistence \<Rightarrow> KeyType \<Rightarrow> SetValue set \<Rightarrow> InMemoryPersistence" where
  "put_set s k m = s\<lparr>kv_values := (kv_values s)(k := if m = {} then None else Some (Members m))\<rparr>"

lemma kv_set_ok: "value_key k \<Longrightarrow> kv_set env k v s = (Inr (), put_val env s k v)"
  by (auto simp: put_val_def kv_set_def isIndexValueKey_ok split: option.splits)

lemma val_of_put_val:
  "codec_ok env \<Longrightarrow> value_key k \<Longrightarrow> val_of env (put_val env s k v) j = (if j = k then v else val_of env s j)"
  by (auto simp: put_val_def kv_set_def isIndexValueKey_ok val_of_def
      split: option.splits KeyType.splits)

lemma set_of_put_val:
  "kv_ok env s \<Longrightarrow> value_key k \<Longrightarrow> set_of (put_val env s k v) j = set_of s j"
  by (auto simp: put_val_def kv_set_def isIndexValueKey_ok set_of_def
      elim: kv_ok_value split: option.splits stored.splits)

lemma kv_ok_put_val:
  "codec_ok env \<Longrightarrow> kv_ok env s \<Longrightarrow> value_key k \<Longrightarrow> kv_ok env (put_val env s k v)"
  by (auto simp: kv_ok_def put_val_def kv_set_def isIndexValueKey_ok cell_ok_def
      split: option.splits KeyType.splits)

lemma set_of_put_set [simp]: "set_of (put_set s k m) j = (if j = k then m else set_of s j)"
  by (simp add: set_of_def put_set_def)

lemma val_of_put_set:
  "kv_ok env s \<Longrightarrow> set_key k \<Longrightarrow> val_of env (put_set s k m) j = val_of env s j"
  by (auto simp: val_of_def put_set_def elim: kv_ok_set split: option.splits stored.splits)

lemma kv_ok_put_set: "kv_ok env s \<Longrightarrow> set_key k \<Longrightarrow> finite m \<Longrightarrow> kv_ok env (put_set s k m)"
  by (simp add: kv_ok_def put_set_def cell_ok_def)

lemma kv_values_None_iff:
  "kv_ok env s \<Longrightarrow> set_key k \<Longrightarrow> kv_values s k = None \<longleftrightarrow> set_of s k = {}"
  by (auto simp: set_of_def elim: kv_ok_set split: option.splits stored.splits)

lemma finite_set_of: "kv_ok env s \<Longrightarrow> finite (set_of s k)"
  by (auto simp: set_of_def cell_ok_def dest: kv_okD split: option.splits stored.splits)

lemma kv_values_Members:
  "kv_ok env s \<Longrightarrow> set_key k \<Longrightarrow> set_of s k \<noteq> {} \<Longrightarrow> kv_values s k = Some (Members (set_of s k))"
  by (auto simp: set_of_def elim: kv_ok_set split: option.splits stored.splits)

lemma forM_set_add1:
  "distinct vs \<Longrightarrow> kv_values s k = Some (Members m) \<Longrightarrow> set vs \<inter> m = {} \<Longrightarrow>
     forM vs (set_add1 k) s = (Inr (), s\<lparr>kv_values := (kv_values s)(k \<mapsto> Members (m \<union> set vs))\<rparr>)"
proof (induction vs arbitrary: s m)
  case Nil
  then have "(kv_values s)(k \<mapsto> Members m) = kv_values s" by (simp add: fun_upd_idem)
  then show ?case by simp
next
  case (Cons v vs)
  let ?s = "s\<lparr>kv_values := (kv_values s)(k \<mapsto> Members (insert v m))\<rparr>"
  have "set_add1 k v s = (Inr (), ?s)"
    using Cons.prems by (simp add: set_add1_def)
  then show ?case using Cons.IH[of ?s "insert v m"] Cons.prems
    by (simp add: fun_upd_def cong: if_cong)
qed

lemma forM_set_remove1:
  "distinct vs \<Longrightarrow> kv_values s k = Some (Members m) \<Longrightarrow> set vs \<subseteq> m \<Longrightarrow>
     forM vs (set_remove1 k) s = (Inr (), s\<lparr>kv_values := (kv_values s)(k \<mapsto> Members (m - set vs))\<rparr>)"
proof (induction vs arbitrary: s m)
  case Nil
  then have "(kv_values s)(k \<mapsto> Members m) = kv_values s" by (simp add: fun_upd_idem)
  then show ?case by simp
next
  case (Cons v vs)
  let ?s = "s\<lparr>kv_values := (kv_values s)(k \<mapsto> Members (m - {v}))\<rparr>"
  have "set_remove1 k v s = (Inr (), ?s)"
    using Cons.prems by (simp add: set_remove1_def)
  moreover have "m - {v} - set vs = m - insert v (set vs)" by blast
  ultimately show ?case using Cons.IH[of ?s "m - {v}"] Cons.prems
    by (auto simp: fun_upd_def cong: if_cong)
qed

lemma setAdd_ok:
  assumes "iter_ok env" and "kv_ok env s" and "set_key k"
    and "finite m" and "m \<noteq> {}" and "m \<inter> set_of s k = {}"
  shows "setAdd env k m s = (Inr (), put_set s k (set_of s k \<union> m))"
proof -
  let ?s = "if kv_values s k = None then s\<lparr>kv_values := (kv_values s)(k \<mapsto> Members {})\<rparr> else s"
  have "kv_values ?s k = Some (Members (set_of s k))"
    using assms kv_values_Members by (auto simp: kv_values_None_iff)
  from forM_set_add1[OF _ this, of "iterV env m"] assms show ?thesis
    by (auto simp: setAdd_def put_set_def Int_commute)
qed

lemma setRemove_ok:
  assumes "iter_ok env" and "kv_ok env s" and "set_key k"
    and "finite m" and "m \<noteq> {}" and "m \<subseteq> set_of s k"
  shows "setRemove env k m s = (Inr (), put_set s k (set_of s k - m))"
proof -
  have v: "kv_values s k = Some (Members (set_of s k))"
    using assms kv_values_Members by blast
  from forM_set_remove1[OF _ this, of "iterV env m"] assms v show ?thesis
    by (auto simp: setRemove_def put_set_def)
qed

section \<open>Writing a batch\<close>

lemma forM_kv_set:
  assumes "codec_ok env"
  shows "kv_ok env s \<Longrightarrow> dict_ok kvs \<Longrightarrow> \<forall>(k, v) \<in> set kvs. value_key k \<Longrightarrow>
    \<exists>s'. forM kvs (\<lambda>(k, v). kv_set env k v) s = (Inr (), s') \<and> kv_ok env s' \<and>
      (\<forall>k. val_of env s' k = (case map_of kvs k of Some v \<Rightarrow> v | None \<Rightarrow> val_of env s k)) \<and>
      set_of s' = set_of s"
proof (induction kvs arbitrary: s)
  case Nil
  then show ?case by auto
next
  case (Cons p kvs)
  obtain k v where p: "p = (k, v)" by fastforce
  with Cons.prems have k: "value_key k" and new: "map_of kvs k = None"
    by (auto simp: map_of_eq_None_iff)
  let ?s = "put_val env s k v"
  have "kv_ok env ?s" using kv_ok_put_val assms Cons.prems(1) k by blast
  with Cons.IH[of ?s] Cons.prems obtain s' where
    s': "forM kvs (\<lambda>(k, v). kv_set env k v) ?s = (Inr (), s')" "kv_ok env s'" and
    vals: "\<forall>j. val_of env s' j = (case map_of kvs j of Some v \<Rightarrow> v | None \<Rightarrow> val_of env ?s j)" and
    sets: "set_of s' = set_of ?s"
    by auto
  have "set_of ?s = set_of s" using set_of_put_val[OF Cons.prems(1) k] by blast
  with s' vals sets new p show ?case
    by (auto simp: kv_set_ok k val_of_put_val[OF assms k] split: option.splits)
qed

definition add_loop where
  "add_loop env = (\<lambda>(k, to_add) new_sets.
     bindM (gets (\<lambda>s. kv_values s k = None)) (\<lambda>isnew.
     thenM (setAdd env k to_add) (ret (if isnew then new_sets @ [k] else new_sets))))"

definition remove_loop where
  "remove_loop env = (\<lambda>(k, to_remove) dropped_sets.
     thenM (setRemove env k to_remove)
     (bindM (gets (\<lambda>s. kv_values s k = None)) (\<lambda>gone.
      ret (if gone then dropped_sets @ [k] else dropped_sets))))"

lemma setSeveral_loops:
  "setSeveral env kvs adds removes =
     thenM (forM kvs (\<lambda>(k, v). kv_set env k v))
     (bindM (foldMl (add_loop env) adds []) (\<lambda>new_sets.
      bindM (foldMl (remove_loop env) removes []) (\<lambda>dropped_sets. ret (new_sets, dropped_sets))))"
  by (simp add: setSeveral_def add_loop_def remove_loop_def)

lemma foldMl_adds:
  assumes "iter_ok env"
  shows "kv_ok env s \<Longrightarrow> dict_ok adds \<Longrightarrow>
    \<forall>(k, m) \<in> set adds. set_key k \<and> finite m \<and> m \<noteq> {} \<and> m \<inter> set_of s k = {} \<Longrightarrow>
    \<exists>s'. foldMl (add_loop env) adds ns s
            = (Inr (ns @ filter (\<lambda>k. set_of s k = {}) (map fst adds)), s') \<and>
      kv_ok env s' \<and> val_of env s' = val_of env s \<and>
      (\<forall>k. set_of s' k = set_of s k \<union> set_at (map_of adds) k)"
proof (induction adds arbitrary: s ns)
  case Nil
  then show ?case by auto
next
  case (Cons p adds)
  obtain k m where p: "p = (k, m)" by fastforce
  with Cons.prems have k: "set_key k" "finite m" "m \<noteq> {}" "m \<inter> set_of s k = {}"
    and new: "k \<notin> fst ` set adds" by auto
  let ?s = "put_set s k (set_of s k \<union> m)"
  have ok: "kv_ok env ?s"
    using finite_set_of[OF Cons.prems(1)] k by (simp add: kv_ok_put_set[OF Cons.prems(1)])
  have other: "filter (\<lambda>j. set_of ?s j = {}) (map fst adds) = filter (\<lambda>j. set_of s j = {}) (map fst adds)"
    using new by (intro filter_cong) (auto simp: image_iff)
  have pre: "\<forall>(j, m) \<in> set adds. set_key j \<and> finite m \<and> m \<noteq> {} \<and> m \<inter> set_of ?s j = {}"
  proof (intro ballI, clarify)
    fix j m' assume jm: "(j, m') \<in> set adds"
    with new have "j \<noteq> k" by force
    moreover have "set_key j \<and> finite m' \<and> m' \<noteq> {} \<and> m' \<inter> set_of s j = {}"
      using Cons.prems(3) jm by auto
    ultimately show "set_key j \<and> finite m' \<and> m' \<noteq> {} \<and> m' \<inter> set_of ?s j = {}"
      by simp
  qed
  let ?ns = "ns @ (if set_of s k = {} then [k] else [])"
  have step: "add_loop env p ns s = (Inr ?ns, ?s)"
    using setAdd_ok[OF assms Cons.prems(1) k] p kv_values_None_iff[OF Cons.prems(1) k(1)]
    by (simp add: add_loop_def)
  from Cons.IH[OF ok _ pre, of ?ns] Cons.prems(2) obtain s' where
    s': "foldMl (add_loop env) adds ?ns ?s
           = (Inr (?ns @ filter (\<lambda>k. set_of ?s k = {}) (map fst adds)), s')" "kv_ok env s'"
       "val_of env s' = val_of env ?s"
       "\<forall>k. set_of s' k = set_of ?s k \<union> set_at (map_of adds) k" by auto
  have "val_of env ?s = val_of env s"
    using val_of_put_set[OF Cons.prems(1) k(1)] by blast
  moreover have "set_at (map_of adds) k = {}"
    using new by (rule set_at_map_of_fresh)
  ultimately show ?case
    using s' step p other by (auto simp: set_at_def)
qed

lemma foldMl_removes:
  assumes "iter_ok env"
  shows "kv_ok env s \<Longrightarrow> dict_ok removes \<Longrightarrow>
    \<forall>(k, m) \<in> set removes. set_key k \<and> finite m \<and> m \<noteq> {} \<and> m \<subseteq> set_of s k \<Longrightarrow>
    \<exists>s'. foldMl (remove_loop env) removes ds s
            = (Inr (ds @ filter (\<lambda>k. set_of s' k = {}) (map fst removes)), s') \<and>
      kv_ok env s' \<and> val_of env s' = val_of env s \<and>
      (\<forall>k. set_of s' k = set_of s k - set_at (map_of removes) k)"
proof (induction removes arbitrary: s ds)
  case Nil
  then show ?case by auto
next
  case (Cons p removes)
  obtain k m where p: "p = (k, m)" by fastforce
  with Cons.prems have k: "set_key k" "finite m" "m \<noteq> {}" "m \<subseteq> set_of s k"
    and new: "k \<notin> fst ` set removes" by auto
  let ?s = "put_set s k (set_of s k - m)"
  have ok: "kv_ok env ?s"
    using finite_set_of[OF Cons.prems(1)] k by (simp add: kv_ok_put_set[OF Cons.prems(1)])
  have pre: "\<forall>(j, m) \<in> set removes. set_key j \<and> finite m \<and> m \<noteq> {} \<and> m \<subseteq> set_of ?s j"
  proof (intro ballI, clarify)
    fix j m' assume jm: "(j, m') \<in> set removes"
    with new have "j \<noteq> k" by force
    moreover have "set_key j \<and> finite m' \<and> m' \<noteq> {} \<and> m' \<subseteq> set_of s j"
      using Cons.prems(3) jm by auto
    ultimately show "set_key j \<and> finite m' \<and> m' \<noteq> {} \<and> m' \<subseteq> set_of ?s j"
      by simp
  qed
  let ?ds = "ds @ (if set_of s k - m = {} then [k] else [])"
  have step: "remove_loop env p ds s = (Inr ?ds, ?s)"
    using setRemove_ok[OF assms Cons.prems(1) k] p kv_values_None_iff[OF ok k(1)]
    by (simp add: remove_loop_def)
  from Cons.IH[OF ok _ pre, of ?ds] Cons.prems(2) obtain s' where
    s': "foldMl (remove_loop env) removes ?ds ?s
           = (Inr (?ds @ filter (\<lambda>k. set_of s' k = {}) (map fst removes)), s')" "kv_ok env s'"
       "val_of env s' = val_of env ?s"
       "\<forall>k. set_of s' k = set_of ?s k - set_at (map_of removes) k" by auto
  have "val_of env ?s = val_of env s"
    using val_of_put_set[OF Cons.prems(1) k(1)] by blast
  moreover have "set_at (map_of removes) k = {}"
    using new by (rule set_at_map_of_fresh)
  ultimately show ?case
    using s' step p by (auto simp: set_at_def)
qed

lemma setSeveral_spec:
  assumes env: "codec_ok env" "iter_ok env" and ok: "kv_ok env s"
    and batch: "batch_ok (set_of s) kvs adds removes"
  shows "\<exists>s' nw dr. setSeveral env kvs adds removes s = (Inr (nw, dr), s') \<and> kv_ok env s' \<and>
    (\<forall>k. val_of env s' k = (case map_of kvs k of Some v \<Rightarrow> v | None \<Rightarrow> val_of env s k)) \<and>
    (\<forall>k. set_of s' k = (set_of s k \<union> set_at (map_of adds) k) - set_at (map_of removes) k) \<and>
    nw = filter (\<lambda>k. set_of s k = {}) (map fst adds) \<and>
    dr = filter (\<lambda>k. set_of s' k = {}) (map fst removes)"
proof -
  from batch have b: "dict_ok kvs" "dict_ok adds" "dict_ok removes"
    "\<forall>(k, v) \<in> set kvs. value_key k"
    "\<forall>(k, m) \<in> set adds. set_key k \<and> finite m \<and> m \<noteq> {} \<and> m \<inter> set_of s k = {}"
    "\<forall>(k, m) \<in> set removes. set_key k \<and> finite m \<and> m \<noteq> {} \<and> m \<subseteq> set_of s k \<union> set_at (map_of adds) k"
    by (simp_all add: batch_ok_def)
  from forM_kv_set[OF env(1) ok b(1,4)] obtain s1 where
    s1: "forM kvs (\<lambda>(k, v). kv_set env k v) s = (Inr (), s1)" "kv_ok env s1"
        "\<forall>k. val_of env s1 k = (case map_of kvs k of Some v \<Rightarrow> v | None \<Rightarrow> val_of env s k)"
        "set_of s1 = set_of s" by blast
  from foldMl_adds[OF env(2) s1(2) b(2), of "[]"] b(5) s1(4) obtain s2 where
    s2: "foldMl (add_loop env) adds [] s1 = (Inr (filter (\<lambda>k. set_of s k = {}) (map fst adds)), s2)"
        "kv_ok env s2" "val_of env s2 = val_of env s1"
        "\<forall>k. set_of s2 k = set_of s k \<union> set_at (map_of adds) k" by auto
  from foldMl_removes[OF env(2) s2(2) b(3), of "[]"] b(6) s2(4) obtain s3 where
    s3: "foldMl (remove_loop env) removes [] s2
           = (Inr (filter (\<lambda>k. set_of s3 k = {}) (map fst removes)), s3)"
        "kv_ok env s3" "val_of env s3 = val_of env s2"
        "\<forall>k. set_of s3 k = set_of s2 k - set_at (map_of removes) k" by auto
  have "setSeveral env kvs adds removes s
      = (Inr (filter (\<lambda>k. set_of s k = {}) (map fst adds),
              filter (\<lambda>k. set_of s3 k = {}) (map fst removes)), s3)"
    using s1(1) s2(1) s3(1) by (simp add: setSeveral_loops)
  with s1 s2 s3 show ?thesis by auto
qed

end
