(* ===== verification/Kv_Interface.thy ===== *)
theory Kv_Interface
  imports Persistence
begin

text \<open>
  The contract between the server and its key-value store, and the part of the server that
  writes a transaction into the store (\<open>server.py\<close>, the store phase of
  \<open>_commitAndBroadcastNewTransaction\<close>). The server keeps, next to every index set
  \<open>IndexId(fieldId, value)\<close>, a metadata set under the plain \<open>fieldId\<close> that lists the index
  values in use; \<open>meta_ok\<close> says the two agree.

  The client lemmas are proved once in the locale \<open>kv_persistence\<close> from the store's laws
  and reach the server through the interpretation \<open>mem\<close> at the end.
\<close>

section \<open>Model: the store phase of a commit\<close>

text \<open>\<open>indexSetAdds[s.fieldId].add(s.indexValue)\<close> for each set key; another kind of key
  lacks one of the attributes.\<close>

fun collectIndexValues ::
  "KeyType list \<Rightarrow> (FieldId \<times> IndexValue set) list \<Rightarrow> ('s, (FieldId \<times> IndexValue set) list) pyM" where
  "collectIndexValues [] acc = ret acc"
| "collectIndexValues (KIx i # ks) acc =
     collectIndexValues ks
       (AList.update (ixFieldId i) (insert (indexValue i) (set_at (map_of acc) (ixFieldId i))) acc)"
| "collectIndexValues (_ # ks) acc = raise AttributeError"

definition fieldSets :: "(FieldId \<times> IndexValue set) list \<Rightarrow> (KeyType \<times> SetValue set) list" where
  "fieldSets = map (\<lambda>(f, vs). (KFld f, SVBytes ` vs))"

definition idSets :: "set_dict \<Rightarrow> (KeyType \<times> SetValue set) list" where
  "idSets = map (\<lambda>(i, ids). (KIx i, SVInt ` ids))"

type_synonym 's several_op =
  "(KeyType \<times> bytes option) list \<Rightarrow> (KeyType \<times> SetValue set) list
     \<Rightarrow> (KeyType \<times> SetValue set) list \<Rightarrow> ('s, KeyType list \<times> KeyType list) pyM"

definition storeTransaction ::
  "'s several_op \<Rightarrow> (KeyType \<times> bytes option) list \<Rightarrow> set_dict \<Rightarrow> set_dict \<Rightarrow> ('s, unit) pyM" where
  "storeTransaction several target_kvs set_adds set_removes =
     bindM (several target_kvs (idSets set_adds) (idSets set_removes)) (\<lambda>(new_sets, dropped_sets).
     bindM (collectIndexValues new_sets []) (\<lambda>indexSetAdds.
     bindM (collectIndexValues dropped_sets []) (\<lambda>indexSetRemoves.
     bindM (several [] (fieldSets indexSetAdds) (fieldSets indexSetRemoves)) (\<lambda>_. ret ()))))"

definition meta_ok :: "(KeyType \<Rightarrow> SetValue set) \<Rightarrow> bool" where
  "meta_ok S \<longleftrightarrow>
     (\<forall>f x. x \<in> S (KFld f) \<longleftrightarrow> (\<exists>v. x = SVBytes v \<and> S (KIx (IndexId f v)) \<noteq> {}))"

section \<open>Lemmas on the collected dictionaries\<close>

lemma collectIndexValues_ok:
  "\<forall>k \<in> set ks. \<exists>i. k = KIx i \<Longrightarrow> dict_ok acc \<Longrightarrow> \<forall>(f, V) \<in> set acc. finite V \<and> V \<noteq> {} \<Longrightarrow>
   \<exists>acc'. collectIndexValues ks acc s = (Inr acc', s) \<and> dict_ok acc' \<and>
     (\<forall>(f, V) \<in> set acc'. finite V \<and> V \<noteq> {}) \<and>
     (\<forall>f. set_at (map_of acc') f = set_at (map_of acc) f \<union> {v. KIx (IndexId f v) \<in> set ks})"
proof (induction ks arbitrary: acc)
  case Nil
  then show ?case by simp
next
  case (Cons k ks)
  then obtain i where i: "k = KIx i" by auto
  let ?acc = "AList.update (ixFieldId i) (insert (indexValue i) (set_at (map_of acc) (ixFieldId i))) acc"
  have fin: "finite (set_at (map_of acc) f)" for f
    using Cons.prems(3) by (auto simp: set_at_def dest!: map_of_SomeD split: option.splits)
  have "set ?acc \<subseteq> insert (ixFieldId i, insert (indexValue i) (set_at (map_of acc) (ixFieldId i))) (set acc)"
    by (rule set_update_subset)
  with Cons.prems(3) fin have "\<forall>(f, V) \<in> set ?acc. finite V \<and> V \<noteq> {}" by blast
  moreover have "dict_ok ?acc" "\<forall>k \<in> set ks. \<exists>i. k = KIx i"
    using Cons.prems by auto
  ultimately obtain acc' where
    acc': "collectIndexValues ks ?acc s = (Inr acc', s)" "dict_ok acc'"
      "\<forall>(f, V) \<in> set acc'. finite V \<and> V \<noteq> {}"
      "\<forall>f. set_at (map_of acc') f = set_at (map_of ?acc) f \<union> {v. KIx (IndexId f v) \<in> set ks}"
    using Cons.IH[of ?acc] by blast
  have "set_at (map_of ?acc) f \<union> {v. KIx (IndexId f v) \<in> set ks}
      = set_at (map_of acc) f \<union> {v. KIx (IndexId f v) \<in> set (k # ks)}" for f
    using i by (cases i) (auto simp: set_at_def)
  with acc' i show ?case by auto
qed

lemma dict_ok_fieldSets: "dict_ok acc \<Longrightarrow> dict_ok (fieldSets acc)"
  unfolding fieldSets_def by (induction acc) force+

lemma dict_ok_idSets: "dict_ok d \<Longrightarrow> dict_ok (idSets d)"
  unfolding idSets_def by (induction d) force+

lemma map_of_fieldSets:
  "map_of (fieldSets acc) (KFld f) = map_option (image SVBytes) (map_of acc f)"
  unfolding fieldSets_def by (induction acc) auto

lemma map_of_fieldSets_other: "\<forall>f. k \<noteq> KFld f \<Longrightarrow> map_of (fieldSets acc) k = None"
  unfolding fieldSets_def by (induction acc) auto

lemma map_of_idSets: "map_of (idSets d) (KIx i) = map_option (image SVInt) (map_of d i)"
  unfolding idSets_def by (induction d) auto

lemma map_of_idSets_other: "\<forall>i. k \<noteq> KIx i \<Longrightarrow> map_of (idSets d) k = None"
  unfolding idSets_def by (induction d) auto

lemma set_at_fieldSets: "set_at (map_of (fieldSets acc)) (KFld f) = SVBytes ` set_at (map_of acc) f"
  by (simp add: set_at_def map_of_fieldSets split: option.splits)

lemma set_at_idSets: "set_at (map_of (idSets d)) (KIx i) = SVInt ` set_at (map_of d) i"
  by (simp add: set_at_def map_of_idSets split: option.splits)

lemma set_at_fieldSets_other: "\<forall>f. k \<noteq> KFld f \<Longrightarrow> set_at (map_of (fieldSets acc)) k = {}"
  by (simp add: set_at_def map_of_fieldSets_other)

lemma set_at_idSets_other: "\<forall>i. k \<noteq> KIx i \<Longrightarrow> set_at (map_of (idSets d)) k = {}"
  by (simp add: set_at_def map_of_idSets_other)

lemma fieldSets_keys: "(k, m) \<in> set (fieldSets acc) \<Longrightarrow> \<exists>f V. k = KFld f \<and> m = SVBytes ` V \<and> (f, V) \<in> set acc"
  by (auto simp: fieldSets_def)

lemma idSets_keys: "k \<in> fst ` set (idSets d) \<Longrightarrow> \<exists>i. k = KIx i \<and> i \<in> fst ` set d"
  by (force simp: idSets_def)

section \<open>The contract\<close>

locale kv_persistence =
  fixes inv :: "'s \<Rightarrow> bool"
    and vals :: "'s \<Rightarrow> KeyType \<Rightarrow> bytes option"
    and sets :: "'s \<Rightarrow> KeyType \<Rightarrow> SetValue set"
    and get :: "KeyType \<Rightarrow> ('s, bytes option) pyM"
    and members :: "KeyType \<Rightarrow> ('s, SetValue set) pyM"
    and several :: "'s several_op"
  assumes get_law: "inv s \<Longrightarrow> value_key k \<Longrightarrow>
      \<exists>s'. get k s = (Inr (vals s k), s') \<and> inv s' \<and> vals s' = vals s \<and> sets s' = sets s"
    and members_law: "inv s \<Longrightarrow> set_key k \<Longrightarrow>
      \<exists>s'. members k s = (Inr (sets s k), s') \<and> inv s' \<and> vals s' = vals s \<and> sets s' = sets s"
    and several_law: "inv s \<Longrightarrow> batch_ok (sets s) kvs adds removes \<Longrightarrow>
      \<exists>s' nw dr. several kvs adds removes s = (Inr (nw, dr), s') \<and> inv s' \<and>
        (\<forall>k. vals s' k = (case map_of kvs k of Some v \<Rightarrow> v | None \<Rightarrow> vals s k)) \<and>
        (\<forall>k. sets s' k = (sets s k \<union> set_at (map_of adds) k) - set_at (map_of removes) k) \<and>
        set nw = {k \<in> fst ` set adds. sets s k = {}} \<and>
        set dr = {k \<in> fst ` set removes. sets s' k = {}}"
begin

lemma several_then_get:
  assumes "inv s" and "batch_ok (sets s) kvs adds removes" and "value_key k" and "map_of kvs k = Some v"
  shows "\<exists>s'. bindM (several kvs adds removes) (\<lambda>_. get k) s = (Inr v, s')"
proof -
  from several_law[OF assms(1,2)] obtain s1 p where
    "several kvs adds removes s = (Inr p, s1)" "inv s1" "vals s1 k = v"
    using assms(4) by (metis (no_types, lifting) option.simps(5))
  with get_law[OF \<open>inv s1\<close> assms(3)] show ?thesis by auto
qed

text \<open>The batch of the metadata update is acceptable whenever the first batch was.\<close>

lemma meta_batch_ok:
  assumes meta: "meta_ok S" and batch: "batch_ok S kvs (idSets A) (idSets R)"
    and S': "\<forall>k. S' k = (S k \<union> set_at (map_of (idSets A)) k) - set_at (map_of (idSets R)) k"
    and nw: "set nw = {k \<in> fst ` set (idSets A). S k = {}}"
    and dr: "set dr = {k \<in> fst ` set (idSets R). S' k = {}}"
    and ia: "dict_ok ia" "\<forall>(f, V) \<in> set ia. finite V \<and> V \<noteq> {}"
      "\<forall>f. set_at (map_of ia) f = {v. KIx (IndexId f v) \<in> set nw}"
    and ir: "dict_ok ir" "\<forall>(f, V) \<in> set ir. finite V \<and> V \<noteq> {}"
      "\<forall>f. set_at (map_of ir) f = {v. KIx (IndexId f v) \<in> set dr}"
  shows "batch_ok S' [] (fieldSets ia) (fieldSets ir)"
proof -
  have fld: "S' (KFld f) = S (KFld f)" for f
    using S' by (simp add: set_at_idSets_other)
  note entry = set_at_map_of_entry[symmetric]
  have "\<forall>(k, m) \<in> set (fieldSets ia). set_key k \<and> finite m \<and> m \<noteq> {} \<and> m \<inter> S' k = {}"
  proof (intro ballI, clarify)
    fix k m assume "(k, m) \<in> set (fieldSets ia)"
    then obtain f V where f: "k = KFld f" "m = SVBytes ` V" "(f, V) \<in> set ia"
      using fieldSets_keys by blast
    with entry[OF ia(1) f(3)] ia(3) nw meta fld have "m \<inter> S' k = {}"
      by (auto simp: meta_ok_def)
    with f ia(2) show "set_key k \<and> finite m \<and> m \<noteq> {} \<and> m \<inter> S' k = {}"
      by (auto simp: set_key_def value_key_def)
  qed
  moreover have "\<forall>(k, m) \<in> set (fieldSets ir).
      set_key k \<and> finite m \<and> m \<noteq> {} \<and> m \<subseteq> S' k \<union> set_at (map_of (fieldSets ia)) k"
  proof (intro ballI, clarify)
    fix k m assume "(k, m) \<in> set (fieldSets ir)"
    then obtain f V where f: "k = KFld f" "m = SVBytes ` V" "(f, V) \<in> set ir"
      using fieldSets_keys by blast
    have "SVBytes v \<in> S (KFld f) \<or> KIx (IndexId f v) \<in> set nw" if "v \<in> V" for v
    proof -
      let ?k = "KIx (IndexId f v)"
      from that entry[OF ir(1) f(3)] ir(3) dr have "?k \<in> fst ` set (idSets R)" by auto
      then obtain M where "(?k, M) \<in> set (idSets R)" by auto
      with batch have "M \<noteq> {}" "M \<subseteq> S ?k \<union> set_at (map_of (idSets A)) ?k"
        by (auto simp: batch_ok_def)
      then have "S ?k \<noteq> {} \<or> ?k \<in> fst ` set (idSets A)"
        using set_at_map_of_fresh by fastforce
      with nw meta show ?thesis by (auto simp: meta_ok_def)
    qed
    with ia(3) have "SVBytes ` V \<subseteq> S (KFld f) \<union> SVBytes ` set_at (map_of ia) f"
      by blast
    with f fld have "m \<subseteq> S' k \<union> set_at (map_of (fieldSets ia)) k"
      by (simp add: set_at_fieldSets)
    with f ir(2) show "set_key k \<and> finite m \<and> m \<noteq> {} \<and> m \<subseteq> S' k \<union> set_at (map_of (fieldSets ia)) k"
      by (auto simp: set_key_def value_key_def)
  qed
  ultimately show ?thesis
    by (simp add: batch_ok_def dict_ok_fieldSets ia(1) ir(1))
qed

text \<open>Writing a transaction: the values, the index sets and the metadata sets all end up as
  specified, and the agreement of index and metadata is kept.\<close>

lemma storeTransaction_law:
  assumes "inv s" and meta: "meta_ok (sets s)" and batch: "batch_ok (sets s) kvs (idSets A) (idSets R)"
  shows "\<exists>s'. storeTransaction several kvs A R s = (Inr (), s') \<and> inv s' \<and>
    (\<forall>k. vals s' k = (case map_of kvs k of Some v \<Rightarrow> v | None \<Rightarrow> vals s k)) \<and>
    (\<forall>i. sets s' (KIx i) = (sets s (KIx i) \<union> SVInt ` set_at (map_of A) i) - SVInt ` set_at (map_of R) i) \<and>
    meta_ok (sets s')"
proof -
  from several_law[OF assms(1) batch] obtain s1 nw dr where
    s1: "several kvs (idSets A) (idSets R) s = (Inr (nw, dr), s1)" "inv s1"
      "\<forall>k. vals s1 k = (case map_of kvs k of Some v \<Rightarrow> v | None \<Rightarrow> vals s k)" and
    S1: "\<forall>k. sets s1 k = (sets s k \<union> set_at (map_of (idSets A)) k) - set_at (map_of (idSets R)) k" and
    nw: "set nw = {k \<in> fst ` set (idSets A). sets s k = {}}" and
    dr: "set dr = {k \<in> fst ` set (idSets R). sets s1 k = {}}" by blast
  from nw dr have "\<forall>k \<in> set nw. \<exists>i. k = KIx i" "\<forall>k \<in> set dr. \<exists>i. k = KIx i"
    using idSets_keys by blast+
  from collectIndexValues_ok[OF this(1), of "[]" s1] collectIndexValues_ok[OF this(2), of "[]" s1]
  obtain ia ir where
    cia: "collectIndexValues nw [] s1 = (Inr ia, s1)" and
    ia: "dict_ok ia" "\<forall>(f, V) \<in> set ia. finite V \<and> V \<noteq> {}"
      "\<forall>f. set_at (map_of ia) f = {v. KIx (IndexId f v) \<in> set nw}" and
    cir: "collectIndexValues dr [] s1 = (Inr ir, s1)" and
    ir: "dict_ok ir" "\<forall>(f, V) \<in> set ir. finite V \<and> V \<noteq> {}"
      "\<forall>f. set_at (map_of ir) f = {v. KIx (IndexId f v) \<in> set dr}" by auto
  from several_law[OF s1(2) meta_batch_ok[OF meta batch S1 nw dr ia ir]] obtain s2 p where
    s2: "several [] (fieldSets ia) (fieldSets ir) s1 = (Inr p, s2)" "inv s2" "\<forall>k. vals s2 k = vals s1 k" and
    S2: "\<forall>k. sets s2 k = (sets s1 k \<union> set_at (map_of (fieldSets ia)) k) - set_at (map_of (fieldSets ir)) k"
    by auto
  have ix: "sets s2 (KIx i) = sets s1 (KIx i)" for i
    using S2 by (simp add: set_at_fieldSets_other)
  have A: "set_at (map_of (idSets A)) k \<noteq> {} \<longleftrightarrow> k \<in> fst ` set (idSets A)" for k
  proof
    assume "k \<in> fst ` set (idSets A)"
    then obtain m where m: "(k, m) \<in> set (idSets A)" by auto
    with batch have "m \<noteq> {}" "dict_ok (idSets A)" by (auto simp: batch_ok_def)
    with m show "set_at (map_of (idSets A)) k \<noteq> {}" by (simp add: set_at_map_of_entry)
  qed (rule set_at_map_of_in)
  have "x \<in> sets s2 (KFld f) \<longleftrightarrow> (\<exists>v. x = SVBytes v \<and> sets s1 (KIx (IndexId f v)) \<noteq> {})" for f x
  proof -
    have "x \<in> sets s2 (KFld f) \<longleftrightarrow>
        (\<exists>v. x = SVBytes v \<and> (sets s (KIx (IndexId f v)) \<noteq> {} \<or> KIx (IndexId f v) \<in> set nw)
          \<and> KIx (IndexId f v) \<notin> set dr)"
      using S2 S1 meta ia(3) ir(3) by (auto simp: meta_ok_def set_at_fieldSets set_at_idSets_other)
    moreover have "(sets s k \<noteq> {} \<or> k \<in> set nw) \<and> k \<notin> set dr \<longleftrightarrow> sets s1 k \<noteq> {}" for k
    proof (cases "k \<in> fst ` set (idSets R)")
      case True
      moreover have "sets s1 k \<noteq> {} \<Longrightarrow> sets s k \<noteq> {} \<or> set_at (map_of (idSets A)) k \<noteq> {}"
        using S1 by auto
      ultimately show ?thesis using nw dr A[of k] by blast
    next
      case False
      then have "sets s1 k = sets s k \<union> set_at (map_of (idSets A)) k"
        using S1 by (simp add: set_at_map_of_fresh)
      with False show ?thesis using nw dr A[of k] by blast
    qed
    ultimately show ?thesis by auto
  qed
  with ix have "meta_ok (sets s2)" by (simp add: meta_ok_def)
  moreover have "storeTransaction several kvs A R s = (Inr (), s2)"
    using s1(1) cia cir s2(1) by (simp add: storeTransaction_def)
  moreover have "sets s2 (KIx i) = (sets s (KIx i) \<union> SVInt ` set_at (map_of A) i) - SVInt ` set_at (map_of R) i" for i
    using ix S1 by (simp add: set_at_idSets)
  ultimately show ?thesis using s1 s2 by auto
qed

end

section \<open>The in-memory store meets the contract\<close>

definition mem_inv :: "pyenv \<Rightarrow> InMemoryPersistence \<Rightarrow> bool" where
  "mem_inv env s \<longleftrightarrow> codec_ok env \<and> iter_ok env \<and> kv_ok env s"

interpretation mem: kv_persistence "mem_inv env" "val_of env" set_of "kv_get env" getSetMembers "setSeveral env"
  for env
proof
  show "\<exists>s'. kv_get env k s = (Inr (val_of env s k), s') \<and> mem_inv env s' \<and> val_of env s' = val_of env s
      \<and> set_of s' = set_of s" if "mem_inv env s" "value_key k" for s k
    using that kv_get_ok unfolding mem_inv_def by blast
  show "\<exists>s'. getSetMembers k s = (Inr (set_of s k), s') \<and> mem_inv env s' \<and> val_of env s' = val_of env s
      \<and> set_of s' = set_of s" if "mem_inv env s" "set_key k" for s k
    using that getSetMembers_ok unfolding mem_inv_def by blast
next
  fix s kvs adds removes
  assume "mem_inv env s" and "batch_ok (set_of s) kvs adds removes"
  with setSeveral_spec[of env s kvs adds removes]
  show "\<exists>s' nw dr. setSeveral env kvs adds removes s = (Inr (nw, dr), s') \<and> mem_inv env s' \<and>
      (\<forall>k. val_of env s' k = (case map_of kvs k of Some v \<Rightarrow> v | None \<Rightarrow> val_of env s k)) \<and>
      (\<forall>k. set_of s' k = (set_of s k \<union> set_at (map_of adds) k) - set_at (map_of removes) k) \<and>
      set nw = {k \<in> fst ` set adds. set_of s k = {}} \<and> set dr = {k \<in> fst ` set removes. set_of s' k = {}}"
    by (auto simp: mem_inv_def)
qed

end
