(* ===== verification/Identity.thy ===== *)
theory Identity
  imports Prelude
begin

text \<open>
  \<open>identity.py\<close>: every connection owns a block of object identities, chosen by its
  identity root, and counts through it. Python integers do not overflow, so nothing in the code
  stops a producer at the end of its block: the disjointness of two producers holds while each
  has handed out at most one block.
\<close>

section \<open>Model\<close>

definition IDENTITY_BLOCK_SIZE :: int where
  "IDENTITY_BLOCK_SIZE = 100000000"

record IdentityProducer =
  ip_ix :: int
  ip_count :: int

definition newIdentityProducer :: "int \<Rightarrow> IdentityProducer" where
  "newIdentityProducer ix = \<lparr>ip_ix = ix, ip_count = 0\<rparr>"

definition createIdentity :: "IdentityProducer \<Rightarrow> int \<times> IdentityProducer" where
  "createIdentity p =
     (let count = ip_count p
      in (ip_ix p * IDENTITY_BLOCK_SIZE + count, p\<lparr>ip_count := count + 1\<rparr>))"

text \<open>The identities of \<open>n\<close> successive calls.\<close>

fun createIdentities :: "nat \<Rightarrow> IdentityProducer \<Rightarrow> int list \<times> IdentityProducer" where
  "createIdentities 0 p = ([], p)"
| "createIdentities (Suc n) p =
     (let (i, p') = createIdentity p; (is, p'') = createIdentities n p' in (i # is, p''))"

section \<open>Lemmas\<close>

lemma createIdentities_eq:
  "createIdentities n p =
     (map (\<lambda>k. ip_ix p * IDENTITY_BLOCK_SIZE + ip_count p + int k) [0..<n],
      p\<lparr>ip_count := ip_count p + int n\<rparr>)"
proof (induction n arbitrary: p)
  case 0
  then show ?case by simp
next
  case (Suc n)
  have "[0..<Suc n] = 0 # map Suc [0..<n]"
    by (metis map_Suc_upt upt_conv_Cons zero_less_Suc)
  then show ?case
    by (simp add: Suc createIdentity_def Let_def comp_def algebra_simps del: upt_Suc)
qed

lemma set_createIdentities:
  "set (fst (createIdentities n p)) =
     (\<lambda>k. ip_ix p * IDENTITY_BLOCK_SIZE + ip_count p + int k) ` {..<n}"
  by (simp add: createIdentities_eq atLeast0LessThan)

text \<open>An identity determines its block: the root is recovered by integer division.\<close>

lemma identity_block:
  assumes "0 \<le> k" and "k < IDENTITY_BLOCK_SIZE"
  shows "(r * IDENTITY_BLOCK_SIZE + k) div IDENTITY_BLOCK_SIZE = r"
  using assms by (simp add: IDENTITY_BLOCK_SIZE_def)

text \<open>C11. producers with distinct identity roots never create the same object identity, as
  long as neither has handed out more than \<open>IDENTITY_BLOCK_SIZE\<close> identities; one producer
  never repeats itself.\<close>

theorem identities_unique:
  assumes "r \<noteq> r'" and "int n \<le> IDENTITY_BLOCK_SIZE" and "int n' \<le> IDENTITY_BLOCK_SIZE"
  shows "set (fst (createIdentities n (newIdentityProducer r)))
           \<inter> set (fst (createIdentities n' (newIdentityProducer r'))) = {}
         \<and> distinct (fst (createIdentities n (newIdentityProducer r)))"
proof
  have block: "i div IDENTITY_BLOCK_SIZE = q"
    if "i \<in> set (fst (createIdentities m (newIdentityProducer q)))" "int m \<le> IDENTITY_BLOCK_SIZE"
    for i m q
    using that identity_block by (auto simp: set_createIdentities newIdentityProducer_def)
  then show "set (fst (createIdentities n (newIdentityProducer r)))
      \<inter> set (fst (createIdentities n' (newIdentityProducer r'))) = {}"
    using assms by blast
  show "distinct (fst (createIdentities n (newIdentityProducer r)))"
    by (auto simp: createIdentities_eq distinct_map inj_on_def)
qed

theorem identities_unique_witness:
  "set (fst (createIdentities 3 (newIdentityProducer 0)))
     \<inter> set (fst (createIdentities 2 (newIdentityProducer 7))) = {}"
  using identities_unique[of 0 7 3 2] by (simp add: IDENTITY_BLOCK_SIZE_def)

end
