(* ===== verification/Server_State.thy ===== *)
theory Server_State
  imports Kv_Interface Identity
begin

text \<open>
  The state of \<open>Server\<close> (\<open>server.py\<close>) and of the \<open>ConnectedChannel\<close> objects it holds,
  with the operations the commit, the subscription and the message handlers share.

  A channel object is a number; \<open>sv_cc\<close> is the heap of \<open>ConnectedChannel\<close> objects, which
  outlive their entry in \<open>_clientChannels\<close> because the channel's message handler keeps a
  reference. \<open>sv_outbox c\<close> lists what was written to channel \<open>c\<close>. \<open>sv_key_value\<close>
  is the dictionary of writes of the transaction being committed: the caller shares it with the
  commit, which enlarges it in place.

  Not modelled: the lock (an operation here is one critical section), log output, timers and
  the wall clock, whose readings are arguments.
\<close>

section \<open>ConnectedChannel\<close>

record pending_transaction =
  pt_writes :: write_dict
  pt_prerequisites :: write_dict
  pt_set_adds :: set_dict
  pt_set_removes :: set_dict
  pt_key_versions :: "ObjectFieldId set"
  pt_index_versions :: "IndexId set"

record ConnectedChannel =
  cc_initial_tid :: int
  cc_connectionObject :: ObjectId
  cc_missedHeartbeats :: int
  cc_definedSchemas :: "string \<rightharpoonup> SchemaDefinition"
  cc_subscribedFields :: "(FieldId option \<times> int) list"
  cc_subscribedIds :: "ObjectId set"
  cc_subscribedIndexKeys :: "(IndexId \<times> int) list"
  cc_identityRoot :: int
  cc_pendingTransactions :: "int \<rightharpoonup> pending_transaction"
  cc_dependentConnections :: "ObjectId set"
  cc_needsAuthentication :: bool

definition newConnectedChannel :: "int \<Rightarrow> ObjectId \<Rightarrow> int \<Rightarrow> ConnectedChannel" where
  "newConnectedChannel initial_tid connectionObject identityRoot = \<lparr>
     cc_initial_tid = initial_tid, cc_connectionObject = connectionObject,
     cc_missedHeartbeats = 0, cc_definedSchemas = Map.empty, cc_subscribedFields = [],
     cc_subscribedIds = {}, cc_subscribedIndexKeys = [], cc_identityRoot = identityRoot,
     cc_pendingTransactions = Map.empty, cc_dependentConnections = {connectionObject},
     cc_needsAuthentication = True\<rparr>"

definition emptyPending :: pending_transaction where
  "emptyPending = \<lparr>pt_writes = [], pt_prerequisites = [], pt_set_adds = [], pt_set_removes = [],
     pt_key_versions = {}, pt_index_versions = {}\<rparr>"

text \<open>\<open>{k: set(d[k]) for k in d if d[k]}\<close>\<close>

definition nonemptySets :: "(IndexId \<times> ObjectId list) list \<Rightarrow> set_dict" where
  "nonemptySets d = map (\<lambda>(k, v). (k, set v)) (filter (\<lambda>(k, v). v \<noteq> []) d)"

definition accumulate :: "transaction_data \<Rightarrow> pending_transaction \<Rightarrow> pending_transaction" where
  "accumulate msg p = \<lparr>
     pt_writes = dict_update (pt_writes p) (tx_writes msg),
     pt_prerequisites = dict_update (pt_prerequisites p) (tx_prerequisites msg),
     pt_set_adds = dict_update (pt_set_adds p) (nonemptySets (tx_set_adds msg)),
     pt_set_removes = dict_update (pt_set_removes p) (nonemptySets (tx_set_removes msg)),
     pt_key_versions = pt_key_versions p \<union> set (tx_key_versions msg),
     pt_index_versions = pt_index_versions p \<union> set (tx_index_versions msg)\<rparr>"

definition handleTransactionData :: "transaction_data \<Rightarrow> ConnectedChannel \<Rightarrow> ConnectedChannel" where
  "handleTransactionData msg cc =
     (let guid = tx_guid msg;
          p = (case cc_pendingTransactions cc guid of None \<Rightarrow> emptyPending | Some p \<Rightarrow> p)
      in cc\<lparr>cc_pendingTransactions := (cc_pendingTransactions cc)(guid \<mapsto> accumulate msg p)\<rparr>)"

definition extractTransactionData ::
  "int \<Rightarrow> ConnectedChannel \<Rightarrow> (py_error + pending_transaction) \<times> ConnectedChannel" where
  "extractTransactionData guid cc =
     (case cc_pendingTransactions cc guid of
        None \<Rightarrow> (Inl KeyError, cc)
      | Some p \<Rightarrow> (Inr p, cc\<lparr>cc_pendingTransactions := (cc_pendingTransactions cc)(guid := None)\<rparr>))"

section \<open>Server\<close>

text \<open>The throughput counters that only the periodic log message reads.\<close>

record server_stats =
  st_fieldTransactions :: "FieldId \<rightharpoonup> int"
  st_fieldBroadcasts :: "FieldId \<rightharpoonup> int"
  st_transactions :: int
  st_transactionLag :: int
  st_lastLogEvent :: int
  st_logInterval :: int

text \<open>One call of \<open>transactionWatcher.onTransaction\<close>.\<close>

record watch_event =
  we_source :: "ObjectId option"
  we_key_value :: write_dict
  we_prerequisites :: write_dict
  we_set_adds :: set_dict
  we_set_removes :: set_dict
  we_key_versions :: "ObjectFieldId set"
  we_index_versions :: "IndexId set"
  we_as_of_version :: int
  we_tid :: int
  we_guid :: "int option"
  we_broadcastConnIds :: "ObjectId set option"
  we_success :: bool
  we_badKey :: "bad_key option"
  we_exception :: "py_error option"

record Server =
  sv_kvstore :: InMemoryPersistence
  sv_auth_token :: string
  sv_typeMap :: "TypeMap option"
  sv_clientChannels :: "chan list"
  sv_cc :: "chan \<Rightarrow> ConnectedChannel"
  sv_cur_transaction_num :: int
  sv_version_numbers :: "version_key \<rightharpoonup> int"
  sv_version_numbers_timestamps :: "(version_key \<times> int) list"
  sv_min_acceptable_version_number :: int
  sv_field_id_to_channel :: "FieldId option \<rightharpoonup> chan set"
  sv_index_to_channel :: "IndexId \<rightharpoonup> chan set"
  sv_id_to_channel :: "ObjectId \<rightharpoonup> chan set"
  sv_pendingSubscriptionRecheck :: "transaction_msg list option"
  sv_subscriptionQueue :: "(chan \<times> (string \<times> string \<times> field_and_value \<times> bool)) list"
  sv_gc_interval :: int
  sv_last_garbage_collect_timestamp :: "int option"
  sv_identityProducer :: IdentityProducer
  sv_MAX_NORMAL :: nat
  sv_MAX_LAZY :: nat
  sv_key_value :: write_dict
  sv_stats :: server_stats
  sv_watcher :: "watch_event list option"
  sv_outbox :: "chan \<Rightarrow> ServerToClient list"
  sv_closed :: "chan set"

definition DEFAULT_GC_INTERVAL :: int where
  "DEFAULT_GC_INTERVAL = 900"

subsection \<open>Access to the parts of the state\<close>

definition liftKv :: "(InMemoryPersistence, 'a) pyM \<Rightarrow> (Server, 'a) pyM" where
  "liftKv = zoomM sv_kvstore (\<lambda>kv s. s\<lparr>sv_kvstore := kv\<rparr>)"

definition updCC :: "chan \<Rightarrow> (ConnectedChannel \<Rightarrow> ConnectedChannel) \<Rightarrow> Server \<Rightarrow> Server" where
  "updCC c f s = s\<lparr>sv_cc := (sv_cc s)(c := f (sv_cc s c))\<rparr>"

text \<open>\<open>channel.write(msg)\<close> for one channel, and for every channel of a set.\<close>

definition writeMsg :: "chan \<Rightarrow> ServerToClient \<Rightarrow> Server \<Rightarrow> Server" where
  "writeMsg c msg s = s\<lparr>sv_outbox := (sv_outbox s)(c := sv_outbox s c @ [msg])\<rparr>"

definition writeAll :: "chan set \<Rightarrow> ServerToClient \<Rightarrow> Server \<Rightarrow> Server" where
  "writeAll C msg s = s\<lparr>sv_outbox := (\<lambda>c. if c \<in> C then sv_outbox s c @ [msg] else sv_outbox s c)\<rparr>"

definition existsField :: string where "existsField = '' exists''"

subsection \<open>The type map\<close>

definition currentTypeMap :: "pyenv \<Rightarrow> (Server, TypeMap) pyM" where
  "currentTypeMap env =
     bindM (gets sv_typeMap) (\<lambda>tm.
       case tm of
         Some m \<Rightarrow> ret m
       | None \<Rightarrow>
           bindM (liftKv (kv_get env (KStr ''types''))) (\<lambda>ser.
             case ser of
               None \<Rightarrow>
                 (let m = snd (lookupOrAdd ''core'' ''Connection'' ''heartbeats_suspended''
                            (snd (lookupOrAdd ''core'' ''Connection'' existsField emptyTypeMap)))
                  in thenM (modify (\<lambda>s. s\<lparr>sv_typeMap := Some m\<rparr>)) (ret m))
             | Some b \<Rightarrow>
                 (case deser_TypeMap env b of
                    None \<Rightarrow> raise ValueError
                  | Some m \<Rightarrow> thenM (modify (\<lambda>s. s\<lparr>sv_typeMap := Some m\<rparr>)) (ret m))))"

definition serverLookupOrAdd :: "pyenv \<Rightarrow> string \<Rightarrow> string \<Rightarrow> string \<Rightarrow> (Server, FieldId) pyM" where
  "serverLookupOrAdd env schema typename fieldname =
     bindM (currentTypeMap env) (\<lambda>tm.
       let (f, tm') = lookupOrAdd schema typename fieldname tm
       in thenM (modify (\<lambda>s. s\<lparr>sv_typeMap := Some tm'\<rparr>)) (ret f))"

text \<open>A named tuple with an \<open>int\<close> member refuses \<open>None\<close>.\<close>

definition someInt :: "int option \<Rightarrow> ('s, int) pyM" where
  "someInt i = (case i of None \<Rightarrow> raise TypeError | Some n \<Rightarrow> ret n)"

subsection \<open>Identities\<close>

definition allocateNewIdentityRoot :: "pyenv \<Rightarrow> (Server, int) pyM" where
  "allocateNewIdentityRoot env =
     bindM (liftKv (kv_get env (KStr ''identityRoot''))) (\<lambda>cur.
     bindM (case cur of None \<Rightarrow> ret 0
            | Some b \<Rightarrow> (case deser_int env b of None \<Rightarrow> raise ValueError | Some n \<Rightarrow> ret n)) (\<lambda>root.
     thenM (liftKv (kv_set env (KStr ''identityRoot'') (Some (ser_int env (root + 1)))))
     (ret root)))"

section \<open>Lemmas\<close>

lemma writeAll_outbox [simp]:
  "sv_outbox (writeAll C msg s) c = (if c \<in> C then sv_outbox s c @ [msg] else sv_outbox s c)"
  by (simp add: writeAll_def)

lemma writeMsg_outbox [simp]:
  "sv_outbox (writeMsg d msg s) c = (if c = d then sv_outbox s c @ [msg] else sv_outbox s c)"
  by (simp add: writeMsg_def)

lemma updCC_cc [simp]: "sv_cc (updCC c f s) d = (if d = c then f (sv_cc s c) else sv_cc s d)"
  by (simp add: updCC_def)

lemma dict_ok_nonemptySets: "dict_ok d \<Longrightarrow> dict_ok (nonemptySets d)"
  unfolding nonemptySets_def by (induction d) force+

text \<open>An operation on the store leaves every other field of the server alone.\<close>

lemma liftKv_run: "liftKv m s = (fst (m (sv_kvstore s)), s\<lparr>sv_kvstore := snd (m (sv_kvstore s))\<rparr>)"
  by (simp add: liftKv_def zoomM_def split: prod.splits)

lemma keeps_liftKv [keeps_rules]:
  "(\<And>s kv. I s \<Longrightarrow> I (s\<lparr>sv_kvstore := kv\<rparr>)) \<Longrightarrow> keeps I (liftKv m)"
  by (simp add: keeps_def liftKv_run)

lemma keeps_currentTypeMap:
  assumes "\<And>s tm. I s \<Longrightarrow> I (s\<lparr>sv_typeMap := tm\<rparr>)" and "\<And>s kv. I s \<Longrightarrow> I (s\<lparr>sv_kvstore := kv\<rparr>)"
  shows "keeps I (currentTypeMap env)"
  unfolding currentTypeMap_def by (intro keeps_rules keeps_modify; simp add: assms)

lemma keeps_serverLookupOrAdd:
  assumes "\<And>s tm. I s \<Longrightarrow> I (s\<lparr>sv_typeMap := tm\<rparr>)" and "\<And>s kv. I s \<Longrightarrow> I (s\<lparr>sv_kvstore := kv\<rparr>)"
  shows "keeps I (serverLookupOrAdd env schema typename fieldname)"
  unfolding serverLookupOrAdd_def
  by (intro keeps_rules keeps_modify keeps_currentTypeMap; simp add: assms)

lemma keeps_someInt [keeps_rules]: "keeps I (someInt i)"
  by (simp add: someInt_def keeps_rules split: option.split)

lemma keeps_allocateNewIdentityRoot:
  assumes "\<And>s kv. I s \<Longrightarrow> I (s\<lparr>sv_kvstore := kv\<rparr>)"
  shows "keeps I (allocateNewIdentityRoot env)"
  unfolding allocateNewIdentityRoot_def by (intro keeps_rules; simp add: assms)

lemma currentTypeMap_cached: "sv_typeMap s = Some tm \<Longrightarrow> currentTypeMap env s = (Inr tm, s)"
  by (simp add: currentTypeMap_def)

end
