(* ===== verification/Server_Commit.thy ===== *)
theory Server_Commit
  imports Server_State
begin

text \<open>
  Committing a transaction: \<open>_handleNewTransaction\<close>,
  \<open>_commitAndBroadcastNewTransaction\<close> and what they call (\<open>server.py\<close>). The long method is
  cut at its phases, in its order: the creator's subscription, the version check, the
  prerequisites, the version stamps, the store, the index subscriptions that grow, the broadcast,
  the statistics and the garbage collection of version numbers.

  \<open>clock\<close> holds the readings of \<open>time.time()\<close> one commit makes, so no assumption is made
  on how they relate.
\<close>

section \<open>Model\<close>

record clock =
  ck_t1 :: int
  ck_lag :: int
  ck_log_check :: int
  ck_log_done :: int
  ck_gc_check :: int
  ck_gc_threshold :: int
  ck_gc_done :: int

record txn =
  t_prerequisites :: write_dict
  t_set_adds :: set_dict
  t_set_removes :: set_dict
  t_keys :: "ObjectFieldId set"
  t_indices :: "IndexId set"
  t_as_of :: int
  t_start :: "int option"
  t_guid :: "int option"

subsection \<open>Reading objects\<close>

text \<open>\<open>channel.definedSchemas.get(schema)[typename]\<close>\<close>

definition typedefFor :: "chan \<Rightarrow> string \<Rightarrow> string \<Rightarrow> (Server, TypeDefinition) pyM" where
  "typedefFor c schema typename =
     bindM (gets (\<lambda>s. cc_definedSchemas (sv_cc s c) schema)) (\<lambda>d.
       case d of None \<Rightarrow> raise TypeError | Some sd \<Rightarrow> lookupM (map_of sd) typename)"

text \<open>The list of \<open>ObjectFieldId(objId=ident, fieldId=fieldIdFor(..))\<close> over some field
  names and identities.\<close>

fun fieldKeys ::
  "pyenv \<Rightarrow> string \<Rightarrow> string \<Rightarrow> string list \<Rightarrow> ObjectId list \<Rightarrow> (Server, ObjectFieldId list) pyM" where
  "fieldKeys env schema typename [] ids = ret []"
| "fieldKeys env schema typename (n # ns) ids =
     bindM (currentTypeMap env) (\<lambda>tm.
     bindM (if ids = [] then ret 0 else someInt (fieldIdFor tm schema typename n)) (\<lambda>f.
     bindM (fieldKeys env schema typename ns ids) (\<lambda>ks.
     ret (map (\<lambda>i. ObjectFieldId i f False) ids @ ks))))"

definition loadValuesForObject ::
  "pyenv \<Rightarrow> chan \<Rightarrow> string \<Rightarrow> string \<Rightarrow> ObjectId list \<Rightarrow> (Server, write_dict) pyM" where
  "loadValuesForObject env c schema typename identities =
     bindM (typedefFor c schema typename) (\<lambda>td.
     bindM (fieldKeys env schema typename (td_fields td) identities) (\<lambda>valsToGet.
     bindM (liftKv (getSeveral env (map KObj valsToGet))) (\<lambda>results.
     ret (dict_update [] (zip valsToGet results)))))"

subsection \<open>Growing subscriptions\<close>

text \<open>\<open>subscribedIds.update(ids)\<close> and \<open>_id_to_channel.setdefault(i, set()).add(channel)\<close> for each.\<close>

definition subscribeIds :: "chan \<Rightarrow> ObjectId set \<Rightarrow> Server \<Rightarrow> Server" where
  "subscribeIds c ids s =
     (updCC c (\<lambda>cc. cc\<lparr>cc_subscribedIds := cc_subscribedIds cc \<union> ids\<rparr>) s)
       \<lparr>sv_id_to_channel := (\<lambda>i. if i \<in> ids then Some (insert c (set_at (sv_id_to_channel s) i))
                                else sv_id_to_channel s i)\<rparr>"

definition broadcastSubscriptionIncrease ::
  "pyenv \<Rightarrow> chan \<Rightarrow> IndexId \<Rightarrow> int \<Rightarrow> ObjectId set \<Rightarrow> (Server, unit) pyM" where
  "broadcastSubscriptionIncrease env c indexKey tid newIds =
     bindM (currentTypeMap env) (\<lambda>tm.
     bindM (lookupM (fieldIdToDef tm) (ixFieldId indexKey)) (\<lambda>fieldDef.
     modify (writeMsg c (SubscriptionIncrease (fd_schema fieldDef) (fd_typename fieldDef)
       (fd_fieldname fieldDef, indexValue indexKey) newIds tid))))"

text \<open>The last loop of \<open>_increaseBroadcastTransactionToInclude\<close>: look the index values of
  the new objects up in \<open>reverseKVMap\<close> and add the objects to the index sets.\<close>

fun addReverseValues ::
  "pyenv \<Rightarrow> string \<Rightarrow> string \<Rightarrow> string list \<Rightarrow> ObjectId list \<Rightarrow> (ObjectFieldId \<times> bytes option) list
     \<Rightarrow> set_dict \<Rightarrow> (Server, set_dict) pyM" where
  "addReverseValues env schema typename [] ids rkv set_adds = ret set_adds"
| "addReverseValues env schema typename (n # ns) ids rkv set_adds =
     bindM (currentTypeMap env) (\<lambda>tm.
     bindM (foldMl (\<lambda>i sa.
        bindM (someInt (fieldIdFor tm schema typename n)) (\<lambda>f.
          case map_of rkv (ObjectFieldId i f False) of
            Some (Some v) \<Rightarrow> ret (AList.update (IndexId f v) (insert i (set_at (map_of sa) (IndexId f v))) sa)
          | _ \<Rightarrow> ret sa)) ids set_adds) (\<lambda>sa'.
     addReverseValues env schema typename ns ids rkv sa'))"

definition increaseBroadcastTransactionToInclude ::
  "pyenv \<Rightarrow> chan \<Rightarrow> IndexId \<Rightarrow> ObjectId set \<Rightarrow> set_dict \<Rightarrow> (Server, set_dict) pyM" where
  "increaseBroadcastTransactionToInclude env c indexKey newIds set_adds =
     (let f = ixFieldId indexKey; ids = iterI env newIds in
      bindM (currentTypeMap env) (\<lambda>tm.
      bindM (lookupM (fieldIdToDef tm) f) (\<lambda>fieldDef.
      bindM (typedefFor c (fd_schema fieldDef) (fd_typename fieldDef)) (\<lambda>td.
      bindM (loadValuesForObject env c (fd_schema fieldDef) (fd_typename fieldDef) ids) (\<lambda>vals.
      thenM (modify (\<lambda>s. s\<lparr>sv_key_value := dict_update (sv_key_value s) vals\<rparr>))
      (let reverseKeys = concat (map (\<lambda>_. map (\<lambda>i. ObjectFieldId i f True) ids) (td_indices td)) in
       bindM (liftKv (getSeveral env (map KObj reverseKeys))) (\<lambda>reverseVals.
       addReverseValues env (fd_schema fieldDef) (fd_typename fieldDef) (td_indices td) ids
         (dict_update [] (zip reverseKeys reverseVals)) set_adds)))))))"

subsection \<open>Phase: objects the source channel creates\<close>

definition subscribeCreator :: "pyenv \<Rightarrow> chan \<Rightarrow> int \<Rightarrow> IndexId \<times> ObjectId set \<Rightarrow> (Server, unit) pyM" where
  "subscribeCreator env c tid = (\<lambda>(add_index, added).
     bindM (currentTypeMap env) (\<lambda>tm.
       case fieldIdToDef tm (ixFieldId add_index) of
         None \<Rightarrow> raise AttributeError
       | Some fieldDef \<Rightarrow>
           bindM (gets (\<lambda>s. map_of (cc_subscribedFields (sv_cc s c)) (Some (ixFieldId add_index)))) (\<lambda>sub.
           whenM (fd_fieldname fieldDef = existsField \<and> sub = None)
             (thenM (modify (subscribeIds c added))
              (broadcastSubscriptionIncrease env c add_index tid added)))))"

subsection \<open>Phase: version check\<close>

definition versionOf :: "Server \<Rightarrow> version_key \<Rightarrow> int" where
  "versionOf s k = (case sv_version_numbers s k of None \<Rightarrow> -1 | Some v \<Rightarrow> v)"

text \<open>The first key, in iteration order, that was committed after \<open>as_of_version\<close>.\<close>

definition conflictingKey :: "pyenv \<Rightarrow> txn \<Rightarrow> Server \<Rightarrow> version_key option" where
  "conflictingKey env t s =
     List.find (\<lambda>k. t_as_of t < versionOf s k)
       (map VKey (iterK env (t_keys t)) @ map VIndex (iterX env (t_indices t)))"

subsection \<open>Phase: the store\<close>

text \<open>\<open>indexReverseLookupKvs\<close>: for each object and index field the value it is indexed
  under; additions overwrite removals.\<close>

definition indexReverseLookupKvs :: "pyenv \<Rightarrow> set_dict \<Rightarrow> set_dict \<Rightarrow> write_dict" where
  "indexReverseLookupKvs env adds removes =
     dict_update
       (dict_update []
         (concat (map (\<lambda>(k, ids). map (\<lambda>i. (ObjectFieldId i (ixFieldId k) True, None)) (iterI env ids)) removes)))
       (concat (map (\<lambda>(k, ids). map (\<lambda>i. (ObjectFieldId i (ixFieldId k) True, Some (indexValue k)))
                                   (iterI env ids)) adds))"

definition objKeys :: "write_dict \<Rightarrow> (KeyType \<times> bytes option) list" where
  "objKeys = map (\<lambda>(k, v). (KObj k, v))"

definition stampVersions :: "version_key list \<Rightarrow> int \<Rightarrow> int \<Rightarrow> Server \<Rightarrow> Server" where
  "stampVersions ks tid t1 s = s\<lparr>
     sv_version_numbers := (\<lambda>k. if k \<in> set ks then Some tid else sv_version_numbers s k),
     sv_version_numbers_timestamps :=
       fold (\<lambda>k. AList.update k t1) ks (sv_version_numbers_timestamps s)\<rparr>"

subsection \<open>Phase: index subscriptions that grow\<close>

text \<open>One channel subscribed to \<open>index_key\<close>. The state carried is the set of identities to
  add to the transaction and the set of lazily subscribed channels.\<close>

definition growChannel ::
  "pyenv \<Rightarrow> int \<Rightarrow> IndexId \<Rightarrow> ObjectId set \<Rightarrow> chan \<Rightarrow> ObjectId set \<times> chan set
     \<Rightarrow> (Server, ObjectId set \<times> chan set) pyM" where
  "growChannel env tid index_key adds c = (\<lambda>(ids, priors).
     bindM (gets (\<lambda>s. sv_cc s c)) (\<lambda>cc.
       let lazy = (case map_of (cc_subscribedIndexKeys cc) index_key of None \<Rightarrow> False | Some t \<Rightarrow> t \<ge> 0);
           newIds = adds - cc_subscribedIds cc
       in thenM (modify (subscribeIds c newIds))
          (thenM (broadcastSubscriptionIncrease env c index_key tid newIds)
           (ret (ids \<union> newIds, if lazy then insert c priors else priors)))))"

definition growIndex ::
  "pyenv \<Rightarrow> int \<Rightarrow> IndexId \<Rightarrow> set_dict \<times> chan set \<Rightarrow> (Server, set_dict \<times> chan set) pyM" where
  "growIndex env tid index_key = (\<lambda>(set_adds, priors).
     bindM (gets (\<lambda>s. sv_index_to_channel s index_key)) (\<lambda>chans.
       case chans of
         None \<Rightarrow> ret (set_adds, priors)
       | Some C \<Rightarrow>
           bindM (foldMl (growChannel env tid index_key (set_at (map_of set_adds) index_key))
                   (iterC env C) ({}, priors)) (\<lambda>(idsToAdd, priors').
           if idsToAdd = {} then ret (set_adds, priors')
           else bindM (increaseBroadcastTransactionToInclude env (last (iterC env C)) index_key
                         idsToAdd set_adds) (\<lambda>set_adds'.
                ret (set_adds', priors')))))"

subsection \<open>Phase: broadcast and statistics\<close>

definition fieldIdsWriting :: "write_dict \<Rightarrow> set_dict \<Rightarrow> set_dict \<Rightarrow> FieldId set" where
  "fieldIdsWriting kv adds removes =
     fieldId ` fst ` set kv \<union> ixFieldId ` fst ` set adds \<union> ixFieldId ` fst ` set removes"

definition identitiesMentioned :: "write_dict \<Rightarrow> set_dict \<Rightarrow> set_dict \<Rightarrow> ObjectId set" where
  "identitiesMentioned kv adds removes =
     objId ` fst ` set kv \<union> \<Union> (snd ` set adds) \<union> \<Union> (snd ` set removes)"

definition channelsTriggered :: "Server \<Rightarrow> FieldId set \<Rightarrow> ObjectId set \<Rightarrow> chan set" where
  "channelsTriggered s flds ids =
     (\<Union>f \<in> flds. set_at (sv_field_id_to_channel s) (Some f)) \<union>
     (\<Union>i \<in> ids. set_at (sv_id_to_channel s) i)"

text \<open>\<open>channel.subscribedFields[fieldId] >= 0\<close> marks a lazy subscription; a channel listed
  for a field it has no entry for would raise.\<close>

definition lazyFieldChannels :: "Server \<Rightarrow> FieldId set \<Rightarrow> chan set" where
  "lazyFieldChannels s flds =
     {c. \<exists>f \<in> flds. c \<in> set_at (sv_field_id_to_channel s) (Some f) \<and>
          (case map_of (cc_subscribedFields (sv_cc s c)) (Some f) of None \<Rightarrow> False | Some t \<Rightarrow> t \<ge> 0)}"

definition fieldChannelsOk :: "Server \<Rightarrow> FieldId set \<Rightarrow> bool" where
  "fieldChannelsOk s flds \<longleftrightarrow>
     (\<forall>f \<in> flds. \<forall>c \<in> set_at (sv_field_id_to_channel s) (Some f).
        map_of (cc_subscribedFields (sv_cc s c)) (Some f) \<noteq> None)"

definition countFields :: "FieldId set \<Rightarrow> int \<Rightarrow> (FieldId \<rightharpoonup> int) \<Rightarrow> (FieldId \<rightharpoonup> int)" where
  "countFields F n m = (\<lambda>f. if f \<in> F then Some ((case m f of None \<Rightarrow> 0 | Some k \<Rightarrow> k) + n) else m f)"

definition bumpFieldStats :: "FieldId set \<Rightarrow> nat \<Rightarrow> Server \<Rightarrow> Server" where
  "bumpFieldStats F nChannels s = s\<lparr>sv_stats := (sv_stats s)\<lparr>
     st_fieldTransactions := countFields F 1 (st_fieldTransactions (sv_stats s)),
     st_fieldBroadcasts := countFields F (int nChannels) (st_fieldBroadcasts (sv_stats s))\<rparr>\<rparr>"

definition bumpTransactionStats :: "clock \<Rightarrow> int option \<Rightarrow> Server \<Rightarrow> Server" where
  "bumpTransactionStats ck start s = s\<lparr>sv_stats := (sv_stats s)\<lparr>
     st_transactions := st_transactions (sv_stats s) + 1,
     st_transactionLag := st_transactionLag (sv_stats s)
       + (case start of None \<Rightarrow> 0 | Some t0 \<Rightarrow> ck_lag ck - t0)\<rparr>\<rparr>"

text \<open>The periodic throughput message names the twenty busiest fields and then resets the
  counters. A field without a definition raises.\<close>

definition logThroughput :: "pyenv \<Rightarrow> clock \<Rightarrow> (Server, unit) pyM" where
  "logThroughput env ck =
     bindM (gets sv_stats) (\<lambda>st.
     whenM (ck_log_check ck - st_lastLogEvent st > st_logInterval st)
       (let counts = st_fieldTransactions st;
            busiest = take 20 (sort_key (\<lambda>f. (- the (counts f), f)) (iterI env (dom counts)))
        in thenM (forM busiest (\<lambda>f.
             bindM (currentTypeMap env) (\<lambda>tm.
               case fieldIdToDef tm f of None \<Rightarrow> raise AttributeError | Some fieldDef \<Rightarrow> ret ())))
           (modify (\<lambda>s. s\<lparr>sv_stats := (sv_stats s)\<lparr>
              st_fieldTransactions := Map.empty, st_fieldBroadcasts := Map.empty,
              st_transactions := 0, st_transactionLag := 0, st_lastLogEvent := ck_log_done ck\<rparr>\<rparr>))))"

definition sendTransactionMessages ::
  "chan set \<Rightarrow> chan set \<Rightarrow> (ObjectFieldId \<times> bytes option) list \<Rightarrow> transaction_msg \<Rightarrow> Server \<Rightarrow> Server" where
  "sendTransactionMessages priorsTo triggered priorValues msg s =
     (let s1 = writeAll priorsTo (LazyTransactionPriors priorValues) s;
          s2 = s1\<lparr>sv_pendingSubscriptionRecheck :=
                   map_option (\<lambda>l. l @ [msg]) (sv_pendingSubscriptionRecheck s1)\<rparr>
      in writeAll triggered (Transaction msg) s2)"

subsection \<open>Phase: garbage collection of version numbers\<close>

text \<open>One entry of \<open>_version_numbers_timestamps\<close>; the accumulator is \<open>new_ts\<close>.\<close>

definition collectVersion ::
  "pyenv \<Rightarrow> int \<Rightarrow> version_key \<times> int \<Rightarrow> (version_key \<times> int) list \<Rightarrow> (Server, (version_key \<times> int) list) pyM" where
  "collectVersion env threshold = (\<lambda>(key, ts) new_ts.
     if ts < threshold then
       bindM (case key of
                VIndex i \<Rightarrow> bindM (liftKv (getSetMembers (KIx i))) (\<lambda>m. ret (m = {}))
              | VKey k \<Rightarrow> bindM (liftKv (kv_get env (KObj k))) (\<lambda>v. ret (v = None))) (\<lambda>gone.
       if gone then
         bindM (gets sv_version_numbers) (\<lambda>vn.
         bindM (lookupM vn key) (\<lambda>v.
         thenM (modify (\<lambda>s. s\<lparr>
             sv_min_acceptable_version_number := max (sv_min_acceptable_version_number s) v,
             sv_version_numbers := (sv_version_numbers s)(key := None)\<rparr>))
         (ret new_ts)))
       else ret new_ts)
     else ret (AList.update key ts new_ts))"

definition garbage_collect :: "pyenv \<Rightarrow> clock \<Rightarrow> int option \<Rightarrow> (Server, unit) pyM" where
  "garbage_collect env ck intervalOverride =
     bindM (gets (\<lambda>s. case intervalOverride of
              None \<Rightarrow> sv_gc_interval s
            | Some i \<Rightarrow> if i = 0 then sv_gc_interval s else i)) (\<lambda>interval.
     bindM (gets sv_last_garbage_collect_timestamp) (\<lambda>last_gc.
     whenM (case last_gc of None \<Rightarrow> True | Some t \<Rightarrow> ck_gc_check ck - t > interval)
       (let threshold = ck_gc_threshold ck - interval in
        bindM (gets sv_version_numbers_timestamps) (\<lambda>tss.
        bindM (foldMl (collectVersion env threshold) tss []) (\<lambda>new_ts.
        modify (\<lambda>s. s\<lparr>sv_version_numbers_timestamps := new_ts,
                     sv_last_garbage_collect_timestamp := Some (ck_gc_done ck)\<rparr>))))))"

subsection \<open>The commit\<close>

type_synonym commit_result = "(bool \<times> bad_key option) \<times> int \<times> ObjectId set"

text \<open>\<open>priorValues = self._kvstore.getSeveralAsDictionary(key_value)\<close>, keyed as the writes
  are.\<close>

definition getPriorValues :: "pyenv \<Rightarrow> write_dict \<Rightarrow> (Server, write_dict) pyM" where
  "getPriorValues env kv0 =
     bindM (liftKv (getSeveralAsDictionary env (map (\<lambda>(k, v). KObj k) kv0))) (\<lambda>d.
     ret (map (\<lambda>(k, v). (k, Option.bind (map_of d (KObj k)) (\<lambda>x. x))) kv0))"

definition badPrerequisites :: "write_dict \<Rightarrow> write_dict \<Rightarrow> bool" where
  "badPrerequisites prereq prior \<longleftrightarrow>
     (\<exists>(k, v) \<in> set prereq. Option.bind (map_of prior k) (\<lambda>x. x) \<noteq> v)"

text \<open>The messages, the statistics and the garbage collection, once the index subscriptions
  have grown: \<open>set_adds'\<close> and \<open>priorsIx\<close> come from there. \<open>kv0\<close> is the dictionary of
  writes as the client sent it.\<close>

definition announceTransaction ::
  "pyenv \<Rightarrow> clock \<Rightarrow> txn \<Rightarrow> set_dict \<Rightarrow> set_dict \<Rightarrow> write_dict \<Rightarrow> write_dict \<Rightarrow> int
     \<Rightarrow> set_dict \<Rightarrow> chan set \<Rightarrow> (Server, commit_result) pyM" where
  "announceTransaction env ck t set_adds set_removes kv0 prior tid set_adds' priorsIx =
     (let flds = fieldIdsWriting kv0 set_adds set_removes;
          ids = identitiesMentioned kv0 set_adds set_removes
      in bindM (gets (\<lambda>s. fieldChannelsOk s flds)) (\<lambda>ok.
         if \<not> ok then raise KeyError
         else
         bindM (gets (\<lambda>s. (channelsTriggered s flds ids, lazyFieldChannels s flds))) (\<lambda>(triggered, lazy).
         thenM (modify (bumpFieldStats flds (card triggered)))
         (bindM (gets sv_key_value) (\<lambda>kv.
          thenM (modify (sendTransactionMessages (priorsIx \<union> lazy) triggered prior
             \<lparr>tm_writes = kv, tm_set_adds = set_adds', tm_set_removes = set_removes,
              tm_transaction_id = tid\<rparr>))
          (thenM (modify (bumpTransactionStats ck (t_start t)))
          (thenM (logThroughput env ck) (thenM (garbage_collect env ck None)
           (bindM (gets (\<lambda>s. (\<lambda>c. cc_connectionObject (sv_cc s c)) ` triggered)) (\<lambda>conns.
            ret ((True, None), tid, conns)))))))))))"

text \<open>Everything after the transaction has been stored.\<close>

definition broadcastCommitted ::
  "pyenv \<Rightarrow> clock \<Rightarrow> txn \<Rightarrow> set_dict \<Rightarrow> set_dict \<Rightarrow> write_dict \<Rightarrow> write_dict \<Rightarrow> int \<Rightarrow> (Server, commit_result) pyM" where
  "broadcastCommitted env ck t set_adds set_removes kv0 prior tid =
     bindM (foldMl (growIndex env tid) (map fst set_adds) (set_adds, {})) (\<lambda>(set_adds', priorsIx).
     announceTransaction env ck t set_adds set_removes kv0 prior tid set_adds' priorsIx)"

text \<open>The keys the transaction writes, in the order they are stamped.\<close>

definition writtenKeys :: "write_dict \<Rightarrow> set_dict \<Rightarrow> set_dict \<Rightarrow> version_key list" where
  "writtenKeys kv0 set_adds set_removes =
     map (\<lambda>(k, v). VKey k) kv0 @ map (\<lambda>(k, v). VIndex k) set_adds @ map (\<lambda>(k, v). VIndex k) set_removes"

definition commitAccepted ::
  "pyenv \<Rightarrow> clock \<Rightarrow> txn \<Rightarrow> set_dict \<Rightarrow> set_dict \<Rightarrow> write_dict \<Rightarrow> int \<Rightarrow> (Server, commit_result) pyM" where
  "commitAccepted env ck t set_adds set_removes kv0 tid =
     bindM (getPriorValues env kv0) (\<lambda>prior.
     if badPrerequisites (t_prerequisites t) prior
     then bindM (currentTypeMap env) (\<lambda>_. raise GenericException)
     else
     thenM (modify (stampVersions (writtenKeys kv0 set_adds set_removes) tid (ck_t1 ck)))
     (thenM (liftKv (storeTransaction (setSeveral env)
         (objKeys (dict_update kv0 (indexReverseLookupKvs env set_adds set_removes)))
         set_adds set_removes))
     (broadcastCommitted env ck t set_adds set_removes kv0 prior tid)))"

definition commitWithId ::
  "pyenv \<Rightarrow> clock \<Rightarrow> chan option \<Rightarrow> txn \<Rightarrow> int \<Rightarrow> (Server, commit_result) pyM" where
  "commitWithId env ck source t tid =
     thenM (assertM (tid > t_as_of t))
     (let set_adds = filter (\<lambda>(k, v). v \<noteq> {}) (t_set_adds t);
          set_removes = filter (\<lambda>(k, v). v \<noteq> {}) (t_set_removes t)
      in thenM (case source of None \<Rightarrow> ret () | Some c \<Rightarrow> forM set_adds (subscribeCreator env c tid))
         (bindM (gets (conflictingKey env t)) (\<lambda>bad.
            case bad of
              Some k \<Rightarrow> ret ((False, Some (BadKey k)), tid, {})
            | None \<Rightarrow>
                bindM (gets sv_key_value) (\<lambda>kv0.
                commitAccepted env ck t set_adds set_removes kv0 tid))))"

definition commitAndBroadcastNewTransaction ::
  "pyenv \<Rightarrow> clock \<Rightarrow> chan option \<Rightarrow> txn \<Rightarrow> (Server, commit_result) pyM" where
  "commitAndBroadcastNewTransaction env ck source t =
     thenM (modify (\<lambda>s. s\<lparr>sv_cur_transaction_num := sv_cur_transaction_num s + 1\<rparr>))
     (bindM (gets sv_cur_transaction_num) (commitWithId env ck source t))"

subsection \<open>The watcher around the commit\<close>

definition sourceIdentity :: "chan option \<Rightarrow> Server \<Rightarrow> ObjectId option" where
  "sourceIdentity source s = map_option (\<lambda>c. cc_connectionObject (sv_cc s c)) source"

definition notifyWatcher ::
  "chan option \<Rightarrow> txn \<Rightarrow> int \<Rightarrow> ObjectId set option \<Rightarrow> bool \<Rightarrow> bad_key option \<Rightarrow> py_error option
     \<Rightarrow> Server \<Rightarrow> Server" where
  "notifyWatcher source t tid conns success badKey exn s =
     s\<lparr>sv_watcher := map_option (\<lambda>l. l @ [\<lparr>
         we_source = sourceIdentity source s, we_key_value = sv_key_value s,
         we_prerequisites = t_prerequisites t, we_set_adds = t_set_adds t,
         we_set_removes = t_set_removes t, we_key_versions = t_keys t,
         we_index_versions = t_indices t, we_as_of_version = t_as_of t, we_tid = tid,
         we_guid = t_guid t, we_broadcastConnIds = conns, we_success = success,
         we_badKey = badKey, we_exception = exn\<rparr>]) (sv_watcher s)\<rparr>"

definition handleNewTransaction ::
  "pyenv \<Rightarrow> clock \<Rightarrow> chan option \<Rightarrow> write_dict \<Rightarrow> txn \<Rightarrow> bool \<Rightarrow> (Server, bool \<times> bad_key option) pyM" where
  "handleNewTransaction env ck source key_value t nolog =
     thenM (modify (\<lambda>s. s\<lparr>sv_key_value := key_value\<rparr>))
     (catchM
       (bindM (commitAndBroadcastNewTransaction env ck source t) (\<lambda>(result, tid, conns).
        thenM (whenM (\<not> nolog) (modify (notifyWatcher source t tid (Some conns) (fst result) (snd result) None)))
        (ret result)))
       (\<lambda>e. bindM (gets sv_cur_transaction_num) (\<lambda>cur.
            thenM (modify (notifyWatcher source t cur None False (Some (BadText ''<EXCEPTION>'')) (Some e)))
            (raise e))))"

subsection \<open>Connection entries\<close>

definition connectionKeys :: "pyenv \<Rightarrow> ObjectId \<Rightarrow> (Server, ObjectFieldId \<times> ObjectFieldId \<times> IndexId) pyM" where
  "connectionKeys env identity =
     bindM (currentTypeMap env) (\<lambda>tm.
     bindM (someInt (fieldIdFor tm ''core'' ''Connection'' existsField)) (\<lambda>f.
     bindM (someInt (fieldIdFor tm ''core'' ''Connection'' ''heartbeats_suspended'')) (\<lambda>h.
     ret (ObjectFieldId identity f False, ObjectFieldId identity h False,
          IndexId f (ser_bool env True)))))"

definition internalTxn :: "set_dict \<Rightarrow> set_dict \<Rightarrow> int \<Rightarrow> txn" where
  "internalTxn adds removes as_of = \<lparr>t_prerequisites = [], t_set_adds = adds, t_set_removes = removes,
     t_keys = {}, t_indices = {}, t_as_of = as_of, t_start = None, t_guid = None\<rparr>"

definition createConnectionEntry :: "pyenv \<Rightarrow> clock \<Rightarrow> (Server, ObjectId \<times> int) pyM" where
  "createConnectionEntry env ck =
     bindM (gets (\<lambda>s. fst (createIdentity (sv_identityProducer s)))) (\<lambda>identity.
     thenM (modify (\<lambda>s. s\<lparr>sv_identityProducer := snd (createIdentity (sv_identityProducer s))\<rparr>))
     (bindM (allocateNewIdentityRoot env) (\<lambda>identityRoot.
      bindM (connectionKeys env identity) (\<lambda>(exists_key, heartbeat_key, exists_index).
      bindM (gets sv_cur_transaction_num) (\<lambda>cur.
      bindM (handleNewTransaction env ck None
               [(exists_key, Some (ser_bool env True)), (heartbeat_key, Some (ser_bool env False))]
               (internalTxn [(exists_index, {identity})] [] cur) False) (\<lambda>_.
      ret (identity, identityRoot)))))))"

definition dropConnectionEntry :: "pyenv \<Rightarrow> clock \<Rightarrow> ObjectId \<Rightarrow> (Server, unit) pyM" where
  "dropConnectionEntry env ck identity =
     bindM (connectionKeys env identity) (\<lambda>(exists_key, heartbeat_key, exists_index).
     bindM (gets sv_cur_transaction_num) (\<lambda>cur.
     bindM (handleNewTransaction env ck None [(exists_key, None), (heartbeat_key, None)]
              (internalTxn [] [(exists_index, {identity})] cur) False) (\<lambda>_.
     ret ())))"

end
