(* ===== verification/Server_Versions.thy ===== *)
theory Server_Versions
  imports Server_Commit
begin

text \<open>
  Optimistic concurrency. A client computes a transaction from what it read as of some
  version \<open>v\<close>; the server accepts it only if no key it read has a version above \<open>v\<close>.
  A \<^emph>\<open>snapshot\<close> is a pair of a transaction number and the store at that moment;
  \<open>snap_ok\<close> says that every key whose version is not above the snapshot's still holds the
  snapshot's value, for snapshots that are not older than the collected versions. Every server
  operation keeps it, whether it returns or raises, so an accepted transaction sees at commit
  time exactly what it read: the committed transactions are equivalent to running them one after
  the other in the order of their numbers.
\<close>

section \<open>Operations that leave the store and the versions alone\<close>

text \<open>The fields the version check depends on.\<close>

definition core :: "Server \<Rightarrow> InMemoryPersistence \<times> (version_key \<rightharpoonup> int) \<times> int \<times> int \<times> (version_key \<times> int) list" where
  "core s = (sv_kvstore s, sv_version_numbers s, sv_min_acceptable_version_number s,
     sv_cur_transaction_num s, sv_version_numbers_timestamps s)"

named_theorems frame_simps "projections of the state that a field update leaves alone"

lemma core_frame [frame_simps]:
  "core (s\<lparr>sv_typeMap := a\<rparr>) = core s" "core (s\<lparr>sv_clientChannels := b\<rparr>) = core s"
  "core (s\<lparr>sv_cc := d\<rparr>) = core s" "core (s\<lparr>sv_field_id_to_channel := e\<rparr>) = core s"
  "core (s\<lparr>sv_index_to_channel := f\<rparr>) = core s" "core (s\<lparr>sv_id_to_channel := g\<rparr>) = core s"
  "core (s\<lparr>sv_pendingSubscriptionRecheck := h\<rparr>) = core s" "core (s\<lparr>sv_subscriptionQueue := i\<rparr>) = core s"
  "core (s\<lparr>sv_last_garbage_collect_timestamp := j\<rparr>) = core s" "core (s\<lparr>sv_identityProducer := k\<rparr>) = core s"
  "core (s\<lparr>sv_key_value := l\<rparr>) = core s" "core (s\<lparr>sv_stats := m\<rparr>) = core s"
  "core (s\<lparr>sv_watcher := n\<rparr>) = core s" "core (s\<lparr>sv_outbox := p\<rparr>) = core s"
  "core (s\<lparr>sv_closed := q\<rparr>) = core s"
  by (simp_all add: core_def)

lemma core_frame_ops [frame_simps]:
  "core (writeMsg c msg s) = core s" "core (writeAll C msg s) = core s" "core (updCC c f s) = core s"
  "core (bumpFieldStats F n s) = core s" "core (bumpTransactionStats ck st s) = core s"
  "core (notifyWatcher source t tid conns success badKey exn s) = core s"
  "core (sendTransactionMessages P T pv tmsg s) = core s" "core (subscribeIds c ids s) = core s"
  by (simp_all add: core_def subscribeIds_def writeMsg_def writeAll_def updCC_def bumpFieldStats_def
      bumpTransactionStats_def notifyWatcher_def sendTransactionMessages_def Let_def)

text \<open>A read of the store changes nothing at all.\<close>

lemma keeps_liftKv_read:
  assumes "\<And>kv. snd (m kv) = kv"
  shows "keeps I (liftKv m)"
  by (simp add: keeps_def liftKv_run assms)

lemmas keeps_store_reads [keeps_rules] =
  keeps_liftKv_read[OF kv_get_state] keeps_liftKv_read[OF getSetMembers_state]
  keeps_liftKv_read[OF getSeveral_state] keeps_liftKv_read[OF getSeveralAsDictionary_state]

declare keeps_liftKv [keeps_rules del]

lemma keeps_currentTypeMap' [keeps_rules]:
  assumes "\<And>s tm. I s \<Longrightarrow> I (s\<lparr>sv_typeMap := tm\<rparr>)"
  shows "keeps I (currentTypeMap env)"
  unfolding currentTypeMap_def by (intro keeps_rules keeps_modify; simp add: assms)

subsection \<open>Frame rules for the phases of a commit\<close>

lemma keeps_typedefFor [keeps_rules]: "keeps I (typedefFor c schema typename)"
  unfolding typedefFor_def by (intro keeps_rules)

lemma keeps_fieldKeys [keeps_rules]:
  assumes "\<And>s tm. I s \<Longrightarrow> I (s\<lparr>sv_typeMap := tm\<rparr>)"
  shows "keeps I (fieldKeys env schema typename ns ids)"
  by (induction ns) (auto intro!: keeps_rules simp: assms)

lemma keeps_loadValuesForObject [keeps_rules]:
  assumes "\<And>s tm. I s \<Longrightarrow> I (s\<lparr>sv_typeMap := tm\<rparr>)"
  shows "keeps I (loadValuesForObject env c schema typename ids)"
  unfolding loadValuesForObject_def by (intro keeps_rules; simp add: assms)

lemma keeps_broadcastSubscriptionIncrease [keeps_rules]:
  assumes "\<And>s tm. I s \<Longrightarrow> I (s\<lparr>sv_typeMap := tm\<rparr>)" and "\<And>s c a b p ids t. I s \<Longrightarrow> I (writeMsg c (SubscriptionIncrease a b p ids t) s)"
  shows "keeps I (broadcastSubscriptionIncrease env c k tid newIds)"
  unfolding broadcastSubscriptionIncrease_def by (intro keeps_rules keeps_modify; simp add: assms)

lemma keeps_addReverseValues [keeps_rules]:
  assumes "\<And>s tm. I s \<Longrightarrow> I (s\<lparr>sv_typeMap := tm\<rparr>)"
  shows "keeps I (addReverseValues env schema typename ns ids rkv sa)"
proof (induction ns arbitrary: sa)
  case (Cons n ns)
  show ?case unfolding addReverseValues.simps
    by (intro keeps_rules Cons; simp add: assms)
qed (simp add: keeps_rules)

lemma keeps_increaseBroadcast [keeps_rules]:
  assumes "\<And>s tm. I s \<Longrightarrow> I (s\<lparr>sv_typeMap := tm\<rparr>)" and "\<And>s kv. I s \<Longrightarrow> I (s\<lparr>sv_key_value := kv\<rparr>)"
  shows "keeps I (increaseBroadcastTransactionToInclude env c k newIds sa)"
  unfolding increaseBroadcastTransactionToInclude_def
  by (intro keeps_rules keeps_modify; simp add: assms)

lemma keeps_core_logThroughput: "keeps (\<lambda>s. P (core s)) (logThroughput env ck)"
  unfolding logThroughput_def
  by (intro keeps_rules keeps_modify; simp add: frame_simps)

lemma keeps_core_currentTypeMap: "keeps (\<lambda>s. P (core s)) (currentTypeMap env)"
  by (intro keeps_rules; simp add: frame_simps)

lemma keeps_core_subscribeCreator: "keeps (\<lambda>s. P (core s)) (subscribeCreator env c tid p)"
  unfolding subscribeCreator_def
  by (intro keeps_rules keeps_modify; simp add: frame_simps)

lemma keeps_core_growChannel: "keeps (\<lambda>s. P (core s)) (growChannel env tid k adds c p)"
  unfolding growChannel_def
  by (intro keeps_rules keeps_modify; simp add: frame_simps)

lemma keeps_core_growIndex: "keeps (\<lambda>s. P (core s)) (growIndex env tid k p)"
  unfolding growIndex_def
  by (intro keeps_rules keeps_modify keeps_core_growChannel; simp add: frame_simps)

section \<open>Keys the store phase can touch\<close>

definition touches :: "KeyType set \<Rightarrow> (InMemoryPersistence, 'a) pyM \<Rightarrow> bool" where
  "touches K m \<longleftrightarrow> (\<forall>k v. k \<notin> K \<longrightarrow> keeps (\<lambda>s. kv_values s k = v) m)"

lemma keeps_stored [keeps_rules]:
  "(\<And>b. x = Bytes b \<Longrightarrow> keeps I (f b)) \<Longrightarrow> (\<And>m. x = Members m \<Longrightarrow> keeps I (g m)) \<Longrightarrow>
     keeps I (case x of Bytes b \<Rightarrow> f b | Members m \<Rightarrow> g m)"
  by (simp split: stored.split)

lemma touches_kv_set: "k \<in> K \<Longrightarrow> touches K (kv_set env k v)"
  unfolding touches_def kv_set_def isIndexValueKey_def
  by (cases k) (auto intro!: keeps_rules keeps_modify)

lemma touches_setAdd: "k \<in> K \<Longrightarrow> touches K (setAdd env k m)"
  unfolding touches_def setAdd_def set_add1_def
  by (auto intro!: keeps_rules keeps_modify split: if_splits)

lemma touches_setRemove: "k \<in> K \<Longrightarrow> touches K (setRemove env k m)"
  unfolding touches_def setRemove_def set_remove1_def
  by (auto intro!: keeps_rules keeps_modify split: if_splits)

lemma touches_setSeveral:
  assumes "fst ` set kvs \<subseteq> K" and "fst ` set adds \<subseteq> K" and "fst ` set removes \<subseteq> K"
  shows "touches K (setSeveral env kvs adds removes)"
  unfolding touches_def
proof (intro allI impI)
  fix k v
  assume k: "k \<notin> K"
  have "keeps (\<lambda>s. kv_values s k = v) (kv_set env a b)" if "(a, b) \<in> set kvs" for a b
    using that assms(1) k touches_kv_set[of a K] by (force simp: touches_def)
  moreover have "keeps (\<lambda>s. kv_values s k = v) (setAdd env a b)" if "(a, b) \<in> set adds" for a b
    using that assms(2) k touches_setAdd[of a K] by (force simp: touches_def)
  moreover have "keeps (\<lambda>s. kv_values s k = v) (setRemove env a b)" if "(a, b) \<in> set removes" for a b
    using that assms(3) k touches_setRemove[of a K] by (force simp: touches_def)
  ultimately show "keeps (\<lambda>s. kv_values s k = v) (setSeveral env kvs adds removes)"
    unfolding setSeveral_def by (intro keeps_rules) auto
qed

lemma keeps_collectIndexValues [keeps_rules]: "keeps I (collectIndexValues ks acc)"
  by (induction ks acc rule: collectIndexValues.induct) (simp_all add: keeps_rules)

lemma touches_storeTransaction:
  assumes "fst ` set kvs \<subseteq> K" and "KIx ` fst ` set A \<subseteq> K" and "KIx ` fst ` set R \<subseteq> K" and "range KFld \<subseteq> K"
  shows "touches K (storeTransaction (setSeveral env) kvs A R)"
proof -
  have "fst ` set (idSets d) \<subseteq> K" if "KIx ` fst ` set d \<subseteq> K" for d
    using that by (force simp: idSets_def)
  moreover have "fst ` set (fieldSets d) \<subseteq> K" for d
    using assms(4) by (force simp: fieldSets_def)
  ultimately have "touches K (setSeveral env kvs (idSets A) (idSets R))"
    and "touches K (setSeveral env [] (fieldSets d) (fieldSets e))" for d e
    using assms by (simp_all add: touches_setSeveral)
  then show ?thesis
    unfolding touches_def storeTransaction_def by (blast intro: keeps_rules)
qed

section \<open>Snapshots\<close>

fun storeKey :: "version_key \<Rightarrow> KeyType" where
  "storeKey (VKey k) = KObj k"
| "storeKey (VIndex i) = KIx i"

text \<open>Clients read plain fields and index sets; the reverse index values are the server's.\<close>

fun tracked :: "version_key \<Rightarrow> bool" where
  "tracked (VKey k) = (\<not> isIndexValue k)"
| "tracked (VIndex i) = True"

type_synonym snapshot = "int \<times> InMemoryPersistence"

definition snap_ok :: "snapshot set \<Rightarrow> Server \<Rightarrow> bool" where
  "snap_ok H s \<longleftrightarrow> (\<forall>(v, kv) \<in> H. \<forall>k. tracked k \<longrightarrow> versionOf s k \<le> v \<longrightarrow>
     sv_min_acceptable_version_number s \<le> v \<longrightarrow>
     kv_values kv (storeKey k) = kv_values (sv_kvstore s) (storeKey k))"

definition stamped :: "version_key list \<Rightarrow> int \<Rightarrow> Server \<Rightarrow> bool" where
  "stamped ks tid s \<longleftrightarrow> (\<forall>k \<in> set ks. tid \<le> versionOf s k)"

text \<open>The invariant during the commit of transaction \<open>tid\<close>.\<close>

definition snap_at :: "snapshot set \<Rightarrow> int \<Rightarrow> Server \<Rightarrow> bool" where
  "snap_at H tid s \<longleftrightarrow> snap_ok H s \<and> sv_cur_transaction_num s = tid"

lemma versionOf_core: "core s = core s' \<Longrightarrow> versionOf s k = versionOf s' k"
  by (simp add: versionOf_def core_def)

lemma snap_at_core: "core s = core s' \<Longrightarrow> snap_at H tid s \<longleftrightarrow> snap_at H tid s'"
  by (auto simp: snap_at_def snap_ok_def versionOf_def core_def)

definition snap_core where
  "snap_core H tid c = (\<exists>s. core s = c \<and> snap_at H tid s)"

lemma snap_at_via_core: "snap_at H tid = (\<lambda>s. snap_core H tid (core s))"
  unfolding snap_core_def using snap_at_core by blast

lemma snap_at_frame [frame_simps]: "core s = core s' \<Longrightarrow> snap_at H tid s' \<Longrightarrow> snap_at H tid s"
  using snap_at_core by blast

lemma versionOf_stamp:
  "versionOf (stampVersions ks tid t1 s) k = (if k \<in> set ks then tid else versionOf s k)"
  by (simp add: versionOf_def stampVersions_def)

lemma snap_stamp:
  assumes "\<forall>(v, kv) \<in> H. v < tid" and "snap_at H tid s"
  shows "snap_at H tid (stampVersions ks tid t1 s) \<and> stamped ks tid (stampVersions ks tid t1 s)"
  using assms unfolding snap_at_def snap_ok_def stamped_def versionOf_stamp
  by (auto simp: stampVersions_def split: if_splits)

lemma keeps_snap_store:
  assumes "\<forall>(v, kv) \<in> H. v < tid" and "touches K m"
    and "\<And>k. tracked k \<Longrightarrow> storeKey k \<in> K \<Longrightarrow> k \<in> set ks"
  shows "keeps (\<lambda>s. snap_at H tid s \<and> stamped ks tid s) (liftKv m)"
proof (rule keepsI)
  fix s assume s: "snap_at H tid s \<and> stamped ks tid s"
  let ?kv = "snd (m (sv_kvstore s))"
  have same: "kv_values ?kv k = kv_values (sv_kvstore s) k" if "k \<notin> K" for k
    using assms(2) that by (simp add: touches_def keeps_def)
  have ver: "versionOf (s\<lparr>sv_kvstore := ?kv\<rparr>) k = versionOf s k" for k
    by (simp add: versionOf_def)
  have "kv_values kv (storeKey k) = kv_values ?kv (storeKey k)"
    if "(v, kv) \<in> H" "tracked k" "versionOf s k \<le> v" "sv_min_acceptable_version_number s \<le> v" for v kv k
  proof -
    have "k \<notin> set ks" using s assms(1) that by (fastforce simp: stamped_def)
    with that(2) assms(3) have "storeKey k \<notin> K" by blast
    with s that same show ?thesis by (fastforce simp: snap_at_def snap_ok_def)
  qed
  then have "snap_ok H (s\<lparr>sv_kvstore := ?kv\<rparr>)"
    by (auto simp: snap_ok_def ver)
  with s show "snap_at H tid (snd (liftKv m s)) \<and> stamped ks tid (snd (liftKv m s))"
    by (simp add: liftKv_run snap_at_def stamped_def ver)
qed

subsection \<open>Garbage collection\<close>

lemma snap_collect:
  assumes "snap_ok H s" and "sv_version_numbers s key = Some v0"
  shows "snap_ok H (s\<lparr>sv_min_acceptable_version_number := max (sv_min_acceptable_version_number s) v0,
                     sv_version_numbers := (sv_version_numbers s)(key := None)\<rparr>)"
proof -
  have "versionOf s k \<le> v" if "versionOf (s\<lparr>sv_min_acceptable_version_number := m,
      sv_version_numbers := (sv_version_numbers s)(key := None)\<rparr>) k \<le> v" "v0 \<le> v" for k m v
    using that assms(2) by (cases "k = key") (auto simp: versionOf_def)
  with assms(1) show ?thesis by (fastforce simp: snap_ok_def)
qed

lemma keeps_snap_collectVersion: "keeps (snap_at H tid) (collectVersion env threshold p new_ts)"
proof -
  have step: "keeps (snap_at H tid)
      (bindM (gets sv_version_numbers) (\<lambda>vn. bindM (lookupM vn key) (\<lambda>v.
         thenM (modify (\<lambda>s. s\<lparr>sv_min_acceptable_version_number := max (sv_min_acceptable_version_number s) v,
             sv_version_numbers := (sv_version_numbers s)(key := None)\<rparr>)) (ret new_ts))))" for key
    by (rule keepsI) (auto simp: bindM_def lookupM_def snap_at_def snap_collect split: option.splits)
  show ?thesis
    unfolding collectVersion_def
    by (intro keeps_rules step, cases "fst p"; simp; intro keeps_rules)
qed

lemma keeps_snap_garbage_collect: "keeps (snap_at H tid) (garbage_collect env ck ov)"
  unfolding garbage_collect_def
  by (intro keeps_rules keeps_modify keeps_snap_collectVersion)
     (simp add: snap_at_def snap_ok_def versionOf_def)

subsection \<open>The commit keeps every snapshot valid\<close>

lemma keeps_getPriorValues [keeps_rules]: "keeps I (getPriorValues env kv0)"
  unfolding getPriorValues_def by (intro keeps_rules)

lemma keeps_snap_broadcastCommitted:
  "keeps (snap_at H tid) (broadcastCommitted env ck t A R kv0 prior tid)"
proof -
  have grow: "keeps (snap_at H tid) (growIndex env tid k p)" for k p
    unfolding snap_at_via_core by (rule keeps_core_growIndex)
  have log: "keeps (snap_at H tid) (logThroughput env ck)"
    unfolding snap_at_via_core by (rule keeps_core_logThroughput)
  show ?thesis
    unfolding broadcastCommitted_def announceTransaction_def
    by (intro keeps_rules keeps_modify grow log keeps_snap_garbage_collect; (rule snap_at_frame, simp add: frame_simps, assumption)?)
qed

lemma reverse_keys_index:
  "(k, v) \<in> set (indexReverseLookupKvs env A R) \<Longrightarrow> isIndexValue k"
proof -
  assume "(k, v) \<in> set (indexReverseLookupKvs env A R)"
  then have "k \<in> fst ` set (indexReverseLookupKvs env A R)" by force
  then show ?thesis by (auto simp: indexReverseLookupKvs_def keys_dict_update)
qed

lemma keeps_snap_commitAccepted:
  assumes "\<forall>(v, kv) \<in> H. v < tid"
  shows "keeps (snap_at H tid) (commitAccepted env ck t A R kv0 tid)"
proof -
  let ?ks = "writtenKeys kv0 A R"
  let ?kvs = "objKeys (dict_update kv0 (indexReverseLookupKvs env A R))"
  let ?J = "\<lambda>s. snap_at H tid s \<and> stamped ?ks tid s"
  let ?K = "KObj ` (fst ` set kv0 \<union> {k. isIndexValue k}) \<union> KIx ` (fst ` set A \<union> fst ` set R) \<union> range KFld"
  have "fst ` set ?kvs = KObj ` (fst ` set kv0 \<union> fst ` set (indexReverseLookupKvs env A R))"
    by (simp add: objKeys_def image_image case_prod_unfold flip: keys_dict_update)
  moreover have "fst ` set (indexReverseLookupKvs env A R) \<subseteq> {k. isIndexValue k}"
    using reverse_keys_index by auto
  ultimately have "fst ` set ?kvs \<subseteq> ?K"
    by (simp only:) (intro le_supI1 image_mono Un_mono order_refl)
  then have "touches ?K (storeTransaction (setSeveral env) ?kvs A R)"
    by (rule touches_storeTransaction) (simp_all add: image_Un, blast+)
  moreover have "k \<in> set ?ks" if "tracked k" "storeKey k \<in> ?K" for k
    using that by (cases k) (force simp: writtenKeys_def)+
  ultimately have store: "keeps ?J (liftKv (storeTransaction (setSeveral env) ?kvs A R))"
    by (rule keeps_snap_store[OF assms])
  have "leadsto (snap_at H tid) (modify (stampVersions ?ks tid (ck_t1 ck))) ?J"
    using snap_stamp[OF assms] by (simp add: leadsto_def)
  moreover have "leadsto ?J (broadcastCommitted env ck t A R kv0 prior tid) (snap_at H tid)" for prior
    using keeps_snap_broadcastCommitted[of H tid] by (simp add: keeps_leadsto leadsto_def)
  ultimately have "keeps (snap_at H tid) (thenM (modify (stampVersions ?ks tid (ck_t1 ck)))
      (thenM (liftKv (storeTransaction (setSeveral env) ?kvs A R))
        (broadcastCommitted env ck t A R kv0 prior tid)))" for prior
    using store unfolding keeps_leadsto by (blast intro: leadsto_thenM)
  moreover have "keeps (snap_at H tid) (currentTypeMap env)"
    unfolding snap_at_via_core by (rule keeps_core_currentTypeMap)
  ultimately show ?thesis
    unfolding commitAccepted_def
    by (intro keeps_bindM keeps_if keeps_raise keeps_getPriorValues)
qed

definition snap_inv :: "snapshot set \<Rightarrow> Server \<Rightarrow> bool" where
  "snap_inv H s \<longleftrightarrow> snap_ok H s \<and> (\<forall>(v, kv) \<in> H. v \<le> sv_cur_transaction_num s)"

lemma snap_inv_at: "snap_inv H s \<longleftrightarrow> snap_at H (sv_cur_transaction_num s) s \<and> (\<forall>(v, kv) \<in> H. v \<le> sv_cur_transaction_num s)"
  by (simp add: snap_inv_def snap_at_def)

lemma keeps_snap_commit: "keeps (snap_inv H) (commitAndBroadcastNewTransaction env ck source t)"
proof (rule keepsI)
  fix s assume s: "snap_inv H s"
  let ?s = "s\<lparr>sv_cur_transaction_num := sv_cur_transaction_num s + 1\<rparr>"
  let ?tid = "sv_cur_transaction_num s + 1"
  from s have lt: "\<forall>(v, kv) \<in> H. v < ?tid" by (auto simp: snap_inv_def)
  have at: "snap_at H ?tid ?s"
    using s by (simp add: snap_inv_def snap_at_def snap_ok_def versionOf_def)
  have creator: "keeps (snap_at H ?tid) (subscribeCreator env c ?tid p)" for c p
    unfolding snap_at_via_core by (rule keeps_core_subscribeCreator)
  have "keeps (snap_at H ?tid) (commitWithId env ck source t ?tid)"
    unfolding commitWithId_def
    by (intro keeps_rules creator keeps_snap_commitAccepted[OF lt])
  with at have "snap_at H ?tid (snd (commitWithId env ck source t ?tid ?s))" by (simp add: keeps_def)
  moreover have "commitAndBroadcastNewTransaction env ck source t s = commitWithId env ck source t ?tid ?s"
    by (simp add: commitAndBroadcastNewTransaction_def)
  ultimately show "snap_inv H (snd (commitAndBroadcastNewTransaction env ck source t s))"
    using lt by (auto simp: snap_inv_def snap_at_def)
qed

lemma snap_inv_frame: "core s = core s' \<Longrightarrow> snap_inv H s' \<Longrightarrow> snap_inv H s"
  by (auto simp: snap_inv_def snap_ok_def core_def versionOf_def)

lemma keeps_snap_handleNewTransaction [keeps_rules]:
  "keeps (snap_inv H) (handleNewTransaction env ck source kv t nolog)"
  unfolding handleNewTransaction_def
  by (intro keeps_rules keeps_modify keeps_snap_commit; (rule snap_inv_frame, simp add: frame_simps, assumption)?)

end
