(* ===== verification/Server_Subscriptions.thy ===== *)
theory Server_Subscriptions
  imports Server_Commit
begin

text \<open>
  Subscriptions (\<open>server.py\<close>): parsing a request, sending the current data, registering the
  channel for updates, in the foreground for small requests and in slices on the background
  thread for large ones.

  \<open>identities_left_to_send.pop()\<close> removes an element of the set's choosing. The batch one
  slice sends is therefore an argument \<open>batch\<close>, a function that picks a subset;
  \<open>batch_choice\<close> is what the loop guarantees of it.
\<close>

section \<open>Model\<close>

type_synonym sub_msg = "string \<times> string \<times> field_and_value \<times> bool"

definition intMembers :: "SetValue set \<Rightarrow> ObjectId set" where
  "intMembers m = {i. SVInt i \<in> m}"

definition parseSubscriptionMsg :: "pyenv \<Rightarrow> chan \<Rightarrow> sub_msg \<Rightarrow> (Server, TypeDefinition \<times> ObjectId set) pyM" where
  "parseSubscriptionMsg env c = (\<lambda>(schema, typename, fv, isLazy).
     bindM (gets (\<lambda>s. cc_definedSchemas (sv_cc s c) schema)) (\<lambda>definition.
     case definition of
       None \<Rightarrow> raise AssertionError
     | Some sd \<Rightarrow>
       (case map_of sd typename of
          None \<Rightarrow> raise AssertionError
        | Some typedef \<Rightarrow>
          (let (fld, val) = (case fv of None \<Rightarrow> (existsField, ser_bool env True) | Some p \<Rightarrow> p)
           in if fld = ''_identity''
              then (case deser_ObjectBase env val of
                      None \<Rightarrow> raise ValueError
                    | Some i \<Rightarrow> ret (typedef, {i}))
              else bindM (serverLookupOrAdd env schema typename fld) (\<lambda>f.
                   bindM (liftKv (getSetMembers (KIx (IndexId f val)))) (\<lambda>m.
                   ret (typedef, intMembers m)))))))"

text \<open>Values of the given fields for the given objects.\<close>

fun fieldValues ::
  "pyenv \<Rightarrow> string \<Rightarrow> string \<Rightarrow> string list \<Rightarrow> ObjectId list \<Rightarrow> (Server, (ObjectFieldId \<times> bytes option) list) pyM" where
  "fieldValues env schema typename [] ids = ret []"
| "fieldValues env schema typename (n # ns) ids =
     bindM (currentTypeMap env) (\<lambda>tm.
     bindM (if ids = [] then ret 0 else someInt (fieldIdFor tm schema typename n)) (\<lambda>f.
     let keys = map (\<lambda>i. ObjectFieldId i f False) ids in
     bindM (liftKv (getSeveral env (map KObj keys))) (\<lambda>vals.
     bindM (fieldValues env schema typename ns ids) (\<lambda>rest.
     ret (zip keys vals @ rest)))))"

text \<open>\<open>_buildIndexValueMap\<close>\<close>

fun buildIndexValueMap ::
  "pyenv \<Rightarrow> string list \<Rightarrow> string \<Rightarrow> string \<Rightarrow> ObjectId list \<Rightarrow> (Server, (ObjectFieldId \<times> bytes option) list) pyM" where
  "buildIndexValueMap env [] schema typename ids = ret []"
| "buildIndexValueMap env (n # ns) schema typename ids =
     bindM (serverLookupOrAdd env schema typename n) (\<lambda>f.
     let keys = map (\<lambda>i. ObjectFieldId i f True) ids in
     bindM (liftKv (getSeveral env (map KObj keys))) (\<lambda>vals.
     bindM (buildIndexValueMap env ns schema typename ids) (\<lambda>rest.
     ret (zip keys vals @ rest))))"

subsection \<open>Registering a subscription\<close>

definition subscribeIndex :: "chan \<Rightarrow> IndexId \<Rightarrow> int \<Rightarrow> Server \<Rightarrow> Server" where
  "subscribeIndex c k tid s =
     (updCC c (\<lambda>cc. cc\<lparr>cc_subscribedIndexKeys := AList.update k tid (cc_subscribedIndexKeys cc)\<rparr>) s)
       \<lparr>sv_index_to_channel := add_at k c (sv_index_to_channel s)\<rparr>"

definition subscribeField :: "chan \<Rightarrow> FieldId option \<Rightarrow> int \<Rightarrow> Server \<Rightarrow> Server" where
  "subscribeField c f tid s =
     (updCC c (\<lambda>cc. cc\<lparr>cc_subscribedFields := AList.update f tid (cc_subscribedFields cc)\<rparr>) s)
       \<lparr>sv_field_id_to_channel := add_at f c (sv_field_id_to_channel s)\<rparr>"

definition markSubscriptionComplete ::
  "pyenv \<Rightarrow> string \<Rightarrow> string \<Rightarrow> field_and_value \<Rightarrow> ObjectId set \<Rightarrow> chan \<Rightarrow> bool \<Rightarrow> (Server, unit) pyM" where
  "markSubscriptionComplete env schema typename fv identities c isLazy =
     (case fv of
        Some (fld, val) \<Rightarrow>
          thenM (modify (subscribeIds c identities))
          (if fld \<noteq> ''_identity''
           then bindM (currentTypeMap env) (\<lambda>tm.
                bindM (someInt (fieldIdFor tm schema typename fld)) (\<lambda>f.
                modify (\<lambda>s. subscribeIndex c (IndexId f val)
                              (if isLazy then sv_cur_transaction_num s else -1) s)))
           else assertM (\<not> isLazy))
      | None \<Rightarrow>
          bindM (gets (\<lambda>s. cc_definedSchemas (sv_cc s c))) (\<lambda>ds.
          bindM (lookupM ds schema) (\<lambda>sd.
          bindM (lookupM (map_of sd) typename) (\<lambda>td.
          forM (td_fields td) (\<lambda>n.
            bindM (currentTypeMap env) (\<lambda>tm.
            modify (\<lambda>s. subscribeField c (fieldIdFor tm schema typename n)
                          (if isLazy then sv_cur_transaction_num s else -1) s)))))))"

definition completeMsg :: "chan \<Rightarrow> string \<Rightarrow> string \<Rightarrow> field_and_value \<Rightarrow> (Server, unit) pyM" where
  "completeMsg c schema typename fv =
     modify (\<lambda>s. writeMsg c (SubscriptionComplete schema typename fv (sv_cur_transaction_num s)) s)"

definition completeLazySubscription ::
  "pyenv \<Rightarrow> string \<Rightarrow> string \<Rightarrow> field_and_value \<Rightarrow> TypeDefinition \<Rightarrow> ObjectId set \<Rightarrow> chan \<Rightarrow> (Server, unit) pyM" where
  "completeLazySubscription env schema typename fv typedef identities c =
     bindM (buildIndexValueMap env (td_indices typedef) schema typename (iterI env identities)) (\<lambda>index_vals.
     thenM (modify (writeMsg c (LazySubscriptionData schema typename fv identities (map_of index_vals))))
     (thenM (markSubscriptionComplete env schema typename fv identities c True)
      (completeMsg c schema typename fv)))"

subsection \<open>Sending data\<close>

text \<open>Does a set that grew belong to the subscription? The field definition of its key is
  looked up for every key, so an unknown field raises.\<close>

definition matchesSubscription :: "string \<Rightarrow> string \<Rightarrow> field_and_value \<Rightarrow> FieldDefinition \<Rightarrow> IndexValue \<Rightarrow> bool" where
  "matchesSubscription schema typename fv fieldDef val \<longleftrightarrow>
     schema = fd_schema fieldDef \<and> typename = fd_typename fieldDef \<and>
     (case fv of None \<Rightarrow> fd_fieldname fieldDef = existsField | Some p \<Rightarrow> p = (fd_fieldname fieldDef, val))"

definition recheckMessage ::
  "pyenv \<Rightarrow> string \<Rightarrow> string \<Rightarrow> field_and_value \<Rightarrow> ObjectId set \<Rightarrow> transaction_msg \<Rightarrow> ObjectId set
     \<Rightarrow> (Server, ObjectId set) pyM" where
  "recheckMessage env schema typename fv identities msg left =
     foldMl (\<lambda>(k, ids) l.
        bindM (currentTypeMap env) (\<lambda>tm.
        bindM (lookupM (fieldIdToDef tm) (ixFieldId k)) (\<lambda>fieldDef.
        ret (if matchesSubscription schema typename fv fieldDef (indexValue k) then l \<union> ids else l))))
       (tm_set_adds msg)
       (left \<union> (objId ` fst ` set (tm_writes msg) \<inter> identities))"

definition sendPartialSubscription ::
  "pyenv \<Rightarrow> (ObjectId set \<Rightarrow> ObjectId set) \<Rightarrow> bool \<Rightarrow> chan \<Rightarrow> string \<Rightarrow> string \<Rightarrow> field_and_value
     \<Rightarrow> TypeDefinition \<Rightarrow> ObjectId set \<Rightarrow> ObjectId set \<Rightarrow> (Server, ObjectId set) pyM" where
  "sendPartialSubscription env batch checkPending c schema typename fv typedef identities left =
     bindM (if checkPending
            then bindM (gets sv_pendingSubscriptionRecheck) (\<lambda>pend.
                   case pend of
                     None \<Rightarrow> raise TypeError
                   | Some msgs \<Rightarrow> foldMl (recheckMessage env schema typename fv identities) msgs left)
            else ret left) (\<lambda>left'.
     let to_send = batch left' in
     bindM (fieldValues env schema typename (td_fields typedef) (iterI env to_send)) (\<lambda>kvs.
     bindM (buildIndexValueMap env (td_indices typedef) schema typename (iterI env to_send)) (\<lambda>index_vals.
     thenM (modify (writeMsg c (SubscriptionData schema typename fv (map_of kvs) (map_of index_vals)
              (case fv of None \<Rightarrow> None | Some _ \<Rightarrow> Some to_send))))
     (ret (left' - to_send)))))"

text \<open>What \<open>while left and (BATCH_SIZE is None or len(to_send) < BATCH_SIZE): pop\<close>
  guarantees.\<close>

definition batch_choice :: "nat option \<Rightarrow> (ObjectId set \<Rightarrow> ObjectId set) \<Rightarrow> bool" where
  "batch_choice limit batch \<longleftrightarrow> (\<forall>L. finite L \<longrightarrow> batch L \<subseteq> L \<and>
     card (batch L) = (case limit of None \<Rightarrow> card L | Some n \<Rightarrow> min n (card L)))"

subsection \<open>Foreground\<close>

definition handleSubscriptionInForeground :: "pyenv \<Rightarrow> chan \<Rightarrow> sub_msg \<Rightarrow> (Server, unit) pyM" where
  "handleSubscriptionInForeground env c msg =
     (case msg of (schema, typename, fv, isLazy) \<Rightarrow>
      bindM (parseSubscriptionMsg env c msg) (\<lambda>(typedef, identities).
      bindM (gets (\<lambda>s. isLazy \<and> card identities < sv_MAX_LAZY s \<or> card identities < sv_MAX_NORMAL s)) (\<lambda>small.
      if \<not> small
      then modify (\<lambda>s. s\<lparr>sv_subscriptionQueue := sv_subscriptionQueue s @ [(c, msg)]\<rparr>)
      else if isLazy then completeLazySubscription env schema typename fv typedef identities c
      else
        bindM (sendPartialSubscription env (\<lambda>L. L) False c schema typename fv typedef identities identities) (\<lambda>_.
        thenM (markSubscriptionComplete env schema typename fv identities c False)
        (completeMsg c schema typename fv)))))"

subsection \<open>Background thread\<close>

text \<open>\<open>handleSubscriptionOnBackgroundThread\<close> takes the lock once to start and once per slice;
  other operations run in between. A job holds its local variables.\<close>

record bg_job =
  bg_channel :: chan
  bg_msg :: sub_msg
  bg_typedef :: TypeDefinition
  bg_identities :: "ObjectId set"
  bg_left :: "ObjectId set"

definition bgStart :: "pyenv \<Rightarrow> chan \<Rightarrow> sub_msg \<Rightarrow> (Server, bg_job option) pyM" where
  "bgStart env c msg =
     (case msg of (schema, typename, fv, isLazy) \<Rightarrow>
      bindM (parseSubscriptionMsg env c msg) (\<lambda>(typedef, identities).
      bindM (gets (\<lambda>s. c \<in> set (sv_clientChannels s))) (\<lambda>alive.
      if \<not> alive then ret None
      else if isLazy then
        (if (case fv of None \<Rightarrow> False | Some (fld, _) \<Rightarrow> fld \<noteq> ''_identity'')
         then raise GenericException
         else thenM (completeLazySubscription env schema typename fv typedef identities c) (ret None))
      else
        thenM (modify (\<lambda>s. s\<lparr>sv_pendingSubscriptionRecheck := Some []\<rparr>))
        (ret (Some \<lparr>bg_channel = c, bg_msg = msg, bg_typedef = typedef,
                    bg_identities = identities, bg_left = identities\<rparr>)))))"

definition bgSlice :: "pyenv \<Rightarrow> (ObjectId set \<Rightarrow> ObjectId set) \<Rightarrow> bg_job \<Rightarrow> (Server, bg_job option) pyM" where
  "bgSlice env batch job =
     (case bg_msg job of (schema, typename, fv, isLazy) \<Rightarrow>
      bindM (sendPartialSubscription env batch True (bg_channel job) schema typename fv
               (bg_typedef job) (bg_identities job) (bg_left job)) (\<lambda>left.
      thenM (modify (\<lambda>s. s\<lparr>sv_pendingSubscriptionRecheck := Some []\<rparr>))
      (if left \<noteq> {} then ret (Some (job\<lparr>bg_left := left\<rparr>))
       else thenM (markSubscriptionComplete env schema typename fv (bg_identities job) (bg_channel job) False)
            (thenM (completeMsg (bg_channel job) schema typename fv) (ret None)))))"

text \<open>The \<open>finally\<close> clause runs when the job ends, normally or by an exception.\<close>

definition bgFinally :: "(Server, bg_job option) pyM \<Rightarrow> (Server, bg_job option) pyM" where
  "bgFinally m =
     bindM (catchM m (\<lambda>e. thenM (modify (\<lambda>s. s\<lparr>sv_pendingSubscriptionRecheck := None\<rparr>)) (raise e))) (\<lambda>j.
     thenM (whenM (j = None) (modify (\<lambda>s. s\<lparr>sv_pendingSubscriptionRecheck := None\<rparr>))) (ret j))"

subsection \<open>Schemas and lazy objects\<close>

fun registerFields ::
  "pyenv \<Rightarrow> string \<Rightarrow> string \<Rightarrow> string list \<Rightarrow> (FieldDefinition \<times> FieldId) list
     \<Rightarrow> (Server, (FieldDefinition \<times> FieldId) list) pyM" where
  "registerFields env name typename [] result = ret result"
| "registerFields env name typename (n # ns) result =
     bindM (serverLookupOrAdd env name typename n) (\<lambda>f.
     registerFields env name typename ns (AList.update (FieldDefinition name typename n) f result))"

definition defineSchema :: "pyenv \<Rightarrow> chan \<Rightarrow> string \<Rightarrow> SchemaDefinition \<Rightarrow> (Server, unit) pyM" where
  "defineSchema env c name definition =
     thenM (modify (updCC c (\<lambda>cc. cc\<lparr>cc_definedSchemas := (cc_definedSchemas cc)(name \<mapsto> definition)\<rparr>)))
     (bindM (currentTypeMap env) (\<lambda>tm0.
      bindM (foldMl (\<lambda>(typename, td). registerFields env name typename (td_fields td @ td_indices td))
               definition []) (\<lambda>result.
      thenM (modify (writeMsg c (SchemaMapping name result)))
      (bindM (currentTypeMap env) (\<lambda>tm.
       whenM (typeMapLen tm \<noteq> typeMapLen tm0)
         (liftKv (kv_set env (KStr ''types'') (Some (ser_TypeMap env tm)))))))))"

definition loadLazyObject :: "pyenv \<Rightarrow> chan \<Rightarrow> string \<Rightarrow> string \<Rightarrow> ObjectId \<Rightarrow> (Server, unit) pyM" where
  "loadLazyObject env c schema typename identity =
     bindM (loadValuesForObject env c schema typename [identity]) (\<lambda>vals.
     modify (writeMsg c (LazyLoadResponse identity vals)))"

end
