(* ===== verification/Server_Messages.thy ===== *)
theory Server_Messages
  imports Server_Subscriptions
begin

text \<open>
  The server's entry points (\<open>server.py\<close>): the dispatch of client messages, connections
  coming and going, heartbeats, the start-up clean-up, and the step relation of a running server,
  in which the background subscription job interleaves with everything else.
\<close>

section \<open>Model\<close>

subsection \<open>Connections\<close>

definition addConnection :: "pyenv \<Rightarrow> clock \<Rightarrow> chan \<Rightarrow> (Server, unit) pyM" where
  "addConnection env ck c =
     catchM
       (bindM (createConnectionEntry env ck) (\<lambda>(conn, root).
        modify (\<lambda>s. writeMsg c (Initialize (sv_cur_transaction_num s) conn root)
          (s\<lparr>sv_cc := (sv_cc s)(c := newConnectedChannel (sv_cur_transaction_num s) conn root),
             sv_clientChannels := (if c \<in> set (sv_clientChannels s) then sv_clientChannels s
                                   else sv_clientChannels s @ [c])\<rparr>))))
       (\<lambda>e. ret ())"

definition unsubscribeField :: "chan \<Rightarrow> FieldId option \<Rightarrow> (Server, unit) pyM" where
  "unsubscribeField c f =
     bindM (gets sv_field_id_to_channel) (\<lambda>m.
     bindM (lookupM m f) (\<lambda>S.
     modify (\<lambda>s. s\<lparr>sv_field_id_to_channel := (sv_field_id_to_channel s)(f \<mapsto> S - {c})\<rparr>)))"

definition unsubscribeIndex :: "chan \<Rightarrow> IndexId \<Rightarrow> (Server, unit) pyM" where
  "unsubscribeIndex c k =
     bindM (gets sv_index_to_channel) (\<lambda>m.
     bindM (lookupM m k) (\<lambda>S.
     modify (\<lambda>s. s\<lparr>sv_index_to_channel := drop_at k c (sv_index_to_channel s)\<rparr>)))"

definition unsubscribeIds :: "chan \<Rightarrow> Server \<Rightarrow> Server" where
  "unsubscribeIds c s = s\<lparr>sv_id_to_channel :=
     (\<lambda>i. if i \<in> cc_subscribedIds (sv_cc s c) then drop_at i c (sv_id_to_channel s) i
          else sv_id_to_channel s i)\<rparr>"

definition dropConnection :: "pyenv \<Rightarrow> (ObjectId \<Rightarrow> clock) \<Rightarrow> chan \<Rightarrow> (Server, unit) pyM" where
  "dropConnection env ckf c =
     bindM (gets (\<lambda>s. c \<in> set (sv_clientChannels s))) (\<lambda>known.
     if \<not> known then ret ()
     else
       bindM (gets (\<lambda>s. sv_cc s c)) (\<lambda>cc.
       thenM (forM (map fst (cc_subscribedFields cc)) (unsubscribeField c))
       (thenM (forM (map fst (cc_subscribedIndexKeys cc)) (unsubscribeIndex c))
       (thenM (modify (unsubscribeIds c))
       (thenM (modify (\<lambda>s. s\<lparr>sv_clientChannels := filter (\<lambda>d. d \<noteq> c) (sv_clientChannels s)\<rparr>))
       (forM (iterI env (cc_dependentConnections cc)) (\<lambda>co. dropConnectionEntry env (ckf co) co)))))))"

definition areHeartbeatsSuspended :: "pyenv \<Rightarrow> ObjectId \<Rightarrow> (Server, bool) pyM" where
  "areHeartbeatsSuspended env connIdentity =
     bindM (currentTypeMap env) (\<lambda>tm.
     bindM (someInt (fieldIdFor tm ''core'' ''Connection'' ''heartbeats_suspended'')) (\<lambda>h.
     bindM (liftKv (kv_get env (KObj (ObjectFieldId connIdentity h False)))) (\<lambda>data.
     ret (data = Some (ser_bool env True)))))"

definition checkChannel :: "pyenv \<Rightarrow> (ObjectId \<Rightarrow> clock) \<Rightarrow> chan \<Rightarrow> (Server, unit) pyM" where
  "checkChannel env ckf c =
     bindM (gets (\<lambda>s. cc_missedHeartbeats (sv_cc s c))) (\<lambda>missed.
     thenM (modify (updCC c (\<lambda>cc. cc\<lparr>cc_missedHeartbeats := cc_missedHeartbeats cc + 1\<rparr>)))
     (whenM (missed \<ge> 4)
       (bindM (gets (\<lambda>s. cc_connectionObject (sv_cc s c))) (\<lambda>conn.
        bindM (areHeartbeatsSuspended env conn) (\<lambda>susp.
        whenM (\<not> susp)
          (thenM (modify (\<lambda>s. s\<lparr>sv_closed := insert c (sv_closed s)\<rparr>))
           (dropConnection env ckf c)))))))"

definition checkForDeadConnections :: "pyenv \<Rightarrow> (ObjectId \<Rightarrow> clock) \<Rightarrow> (Server, unit) pyM" where
  "checkForDeadConnections env ckf =
     bindM (gets sv_clientChannels) (\<lambda>cs. forM cs (checkChannel env ckf))"

subsection \<open>Start-up\<close>

definition removeOldDeadConnections :: "pyenv \<Rightarrow> (Server, unit) pyM" where
  "removeOldDeadConnections env =
     bindM (currentTypeMap env) (\<lambda>tm.
     bindM (someInt (fieldIdFor tm ''core'' ''Connection'' existsField)) (\<lambda>f.
     let exists_index = IndexId f (ser_bool env True);
         h = fieldIdFor tm ''core'' ''Connection'' ''heartbeats_suspended'' in
     bindM (liftKv (getSetMembers (KIx exists_index))) (\<lambda>oldIds.
     whenM (oldIds \<noteq> {})
       (bindM (someInt h) (\<lambda>hf.
        let ids = iterI env (intMembers oldIds) in
        bindM (liftKv (setSeveral env
           (concat (map (\<lambda>i. [(KObj (ObjectFieldId i f False), None), (KObj (ObjectFieldId i hf False), None)]) ids))
           [] [(KIx exists_index, oldIds)])) (\<lambda>_. ret ()))))))"

definition blankServer :: "InMemoryPersistence \<Rightarrow> string \<Rightarrow> bool \<Rightarrow> int \<Rightarrow> Server" where
  "blankServer kv token watched now = \<lparr>
     sv_kvstore = kv, sv_auth_token = token, sv_typeMap = None, sv_clientChannels = [],
     sv_cc = (\<lambda>_. newConnectedChannel 0 0 0), sv_cur_transaction_num = 0,
     sv_version_numbers = Map.empty, sv_version_numbers_timestamps = [],
     sv_min_acceptable_version_number = -1, sv_field_id_to_channel = Map.empty,
     sv_index_to_channel = Map.empty, sv_id_to_channel = Map.empty,
     sv_pendingSubscriptionRecheck = None, sv_subscriptionQueue = [],
     sv_gc_interval = DEFAULT_GC_INTERVAL, sv_last_garbage_collect_timestamp = None,
     sv_identityProducer = newIdentityProducer 0, sv_MAX_NORMAL = 1000, sv_MAX_LAZY = 10000,
     sv_key_value = [],
     sv_stats = \<lparr>st_fieldTransactions = Map.empty, st_fieldBroadcasts = Map.empty,
       st_transactions = 0, st_transactionLag = 0, st_lastLogEvent = now, st_logInterval = 10\<rparr>,
     sv_watcher = (if watched then Some [] else None), sv_outbox = (\<lambda>_. []), sv_closed = {}\<rparr>"

definition initServer :: "pyenv \<Rightarrow> (Server, unit) pyM" where
  "initServer env =
     bindM (allocateNewIdentityRoot env) (\<lambda>root.
     thenM (modify (\<lambda>s. s\<lparr>sv_identityProducer := newIdentityProducer root\<rparr>))
     (removeOldDeadConnections env))"

subsection \<open>Client messages\<close>

definition sendTransactionSuccess :: "chan \<Rightarrow> int \<Rightarrow> bool \<Rightarrow> bad_key option \<Rightarrow> bool \<Rightarrow> (Server, unit) pyM" where
  "sendTransactionSuccess c guid success badKey isException =
     modify (writeMsg c (TransactionResult guid success badKey isException))"

definition extractM :: "chan \<Rightarrow> int \<Rightarrow> (Server, pending_transaction) pyM" where
  "extractM c guid = zoomM (\<lambda>s. sv_cc s c) (\<lambda>cc s. s\<lparr>sv_cc := (sv_cc s)(c := cc)\<rparr>) (extractTransactionData guid)"

definition completeTransaction ::
  "pyenv \<Rightarrow> clock \<Rightarrow> int \<Rightarrow> chan \<Rightarrow> int \<Rightarrow> int \<Rightarrow> bool \<Rightarrow> (Server, unit) pyM" where
  "completeTransaction env ck now c as_of guid nolog =
     bindM (catchM
       (bindM (extractM c guid) (\<lambda>data.
        bindM (gets sv_min_acceptable_version_number) (\<lambda>m.
        if as_of < m then ret (False, Some (BadText ''<TRANSACTION TOO OLD>''), False)
        else bindM (handleNewTransaction env ck (Some c) (pt_writes data)
               \<lparr>t_prerequisites = pt_prerequisites data, t_set_adds = pt_set_adds data,
                t_set_removes = pt_set_removes data, t_keys = pt_key_versions data,
                t_indices = pt_index_versions data, t_as_of = as_of, t_start = Some now,
                t_guid = Some guid\<rparr> nolog) (\<lambda>(isOK, badKey).
             ret (isOK, badKey, False)))))
       (\<lambda>e. ret (False, Some (BadTraceback e), True))) (\<lambda>(isOK, badKey, isException).
     sendTransactionSuccess c guid isOK badKey isException)"

definition requestDependentConnectionId :: "pyenv \<Rightarrow> clock \<Rightarrow> chan \<Rightarrow> string \<Rightarrow> (Server, unit) pyM" where
  "requestDependentConnectionId env ck c guid =
     bindM (createConnectionEntry env ck) (\<lambda>(conn, root).
     thenM (modify (updCC c (\<lambda>cc. cc\<lparr>cc_dependentConnections := insert conn (cc_dependentConnections cc)\<rparr>)))
     (modify (writeMsg c (DependentConnectionId guid conn root))))"

definition dropDependentConnectionId :: "pyenv \<Rightarrow> clock \<Rightarrow> chan \<Rightarrow> ObjectId \<Rightarrow> (Server, unit) pyM" where
  "dropDependentConnectionId env ck c conn =
     bindM (gets (\<lambda>s. conn \<in> cc_dependentConnections (sv_cc s c))) (\<lambda>present.
     if \<not> present then raise KeyError
     else thenM (modify (updCC c (\<lambda>cc. cc\<lparr>cc_dependentConnections := cc_dependentConnections cc - {conn}\<rparr>)))
          (dropConnectionEntry env ck conn))"

definition onClientToServerMessage ::
  "pyenv \<Rightarrow> clock \<Rightarrow> int \<Rightarrow> chan \<Rightarrow> ClientToServer \<Rightarrow> (Server, unit) pyM" where
  "onClientToServerMessage env ck now c msg =
     (case msg of
        Authenticate token \<Rightarrow>
          bindM (gets sv_auth_token) (\<lambda>good.
          whenM (token = good) (modify (updCC c (\<lambda>cc. cc\<lparr>cc_needsAuthentication := False\<rparr>))))
      | _ \<Rightarrow>
          bindM (gets (\<lambda>s. cc_needsAuthentication (sv_cc s c))) (\<lambda>unauth.
          if unauth then ret ()
          else case msg of
            DropDependentConnectionId conn \<Rightarrow> dropDependentConnectionId env ck c conn
          | RequestDependentConnectionId parent guid \<Rightarrow> requestDependentConnectionId env ck c guid
          | Heartbeat \<Rightarrow> modify (updCC c (\<lambda>cc. cc\<lparr>cc_missedHeartbeats := 0\<rparr>))
          | LoadLazyObject schema typename identity \<Rightarrow> loadLazyObject env c schema typename identity
          | Flush guid \<Rightarrow> modify (writeMsg c (FlushResponse guid))
          | DefineSchema name definition \<Rightarrow> defineSchema env c name definition
          | SubscribeNone schema typename \<Rightarrow> ret ()
          | Subscribe schema typename fv isLazy \<Rightarrow>
              handleSubscriptionInForeground env c (schema, typename, fv, isLazy)
          | TransactionData td \<Rightarrow> modify (updCC c (handleTransactionData td))
          | CompleteTransaction as_of guid nolog \<Rightarrow> completeTransaction env ck now c as_of guid nolog
          | Authenticate token \<Rightarrow> ret ()))"

section \<open>The running server\<close>

text \<open>A channel object that was just accepted: nothing in the server refers to it.\<close>

definition channel_unused :: "chan \<Rightarrow> Server \<Rightarrow> bool" where
  "channel_unused c s \<longleftrightarrow> c \<notin> set (sv_clientChannels s) \<and> sv_outbox s c = [] \<and>
     (\<forall>f. c \<notin> set_at (sv_field_id_to_channel s) f) \<and> (\<forall>k. c \<notin> set_at (sv_index_to_channel s) k) \<and>
     (\<forall>i. c \<notin> set_at (sv_id_to_channel s) i)"

text \<open>Between two critical sections the server state is at rest together with the job of the
  background thread, if one is under way.\<close>

inductive server_step :: "pyenv \<Rightarrow> Server \<times> bg_job option \<Rightarrow> Server \<times> bg_job option \<Rightarrow> bool" for env where
  connect: "channel_unused c s \<Longrightarrow> addConnection env ck c s = (r, s') \<Longrightarrow> server_step env (s, j) (s', j)"
| disconnect: "dropConnection env ckf c s = (r, s') \<Longrightarrow> server_step env (s, j) (s', j)"
| check_dead: "checkForDeadConnections env ckf s = (r, s') \<Longrightarrow> server_step env (s, j) (s', j)"
| message: "onClientToServerMessage env ck now c msg s = (r, s') \<Longrightarrow> server_step env (s, j) (s', j)"
| collect: "garbage_collect env ck ov s = (r, s') \<Longrightarrow> server_step env (s, j) (s', j)"
| bg_begin: "sv_subscriptionQueue s = (c, msg) # q \<Longrightarrow>
    bgFinally (bgStart env c msg) (s\<lparr>sv_subscriptionQueue := q\<rparr>) = (r, s') \<Longrightarrow>
    server_step env (s, None) (s', case r of Inl _ \<Rightarrow> None | Inr j \<Rightarrow> j)"
| bg_slice: "batch_choice (Some 100) batch \<Longrightarrow> bgFinally (bgSlice env batch job) s = (r, s') \<Longrightarrow>
    server_step env (s, Some job) (s', case r of Inl _ \<Rightarrow> None | Inr j \<Rightarrow> j)"

end
