(* ===== verification/Demo_States.thy ===== *)
theory Demo_States
  imports Server_Messages
begin

text \<open>
  Concrete servers for the witnesses: two authenticated channels, each with a pending
  transaction, over an empty in-memory store.
\<close>

definition demo_clock :: clock where
  "demo_clock = \<lparr>ck_t1 = 100, ck_lag = 101, ck_log_check = 101, ck_log_done = 101, ck_gc_check = 102, ck_gc_threshold = 102, ck_gc_done = 102\<rparr>"

definition demo_key :: "int \<Rightarrow> ObjectFieldId" where
  "demo_key i = ObjectFieldId i 7 False"

definition demo_pending :: "int \<Rightarrow> pending_transaction" where
  "demo_pending i = emptyPending\<lparr>pt_writes := [(demo_key i, Some [5])], pt_key_versions := {demo_key i},
     pt_index_versions := {IndexId 7 [1]}\<rparr>"

definition demo_channel :: "int \<Rightarrow> ConnectedChannel" where
  "demo_channel i = (newConnectedChannel 0 i i)\<lparr>cc_needsAuthentication := False,
     cc_pendingTransactions := [9 \<mapsto> demo_pending i]\<rparr>"

definition demo_server :: Server where
  "demo_server = (blankServer \<lparr>kv_values = Map.empty\<rparr> ''token'' True 95)
     \<lparr>sv_clientChannels := [2, 3], sv_cc := (\<lambda>c. demo_channel (int c)),
      sv_last_garbage_collect_timestamp := Some 0\<rparr>"

text \<open>Channel 2 has committed its transaction.\<close>

definition demo_server2 :: Server where
  "demo_server2 = snd (onClientToServerMessage demo_env demo_clock 0 2 (CompleteTransaction 0 9 False) demo_server)"

lemmas demo_defs = demo_server_def demo_channel_def demo_pending_def demo_key_def demo_clock_def
  newConnectedChannel_def emptyPending_def blankServer_def

lemmas commit_defs = onClientToServerMessage_def completeTransaction_def extractM_def extractTransactionData_def
  handleNewTransaction_def commitAndBroadcastNewTransaction_def commitWithId_def conflictingKey_def
  versionOf_def commitAccepted_def getPriorValues_def badPrerequisites_def stampVersions_def writtenKeys_def
  storeTransaction_def setSeveral_def broadcastCommitted_def announceTransaction_def fieldIdsWriting_def identitiesMentioned_def
  channelsTriggered_def lazyFieldChannels_def fieldChannelsOk_def bumpFieldStats_def bumpTransactionStats_def logThroughput_def
  sendTransactionMessages_def garbage_collect_def notifyWatcher_def sendTransactionSuccess_def
  DEFAULT_GC_INTERVAL_def indexReverseLookupKvs_def objKeys_def dict_update_def idSets_def fieldSets_def

lemmas store_defs = getSeveralAsDictionary_def kv_get_def kv_set_def isIndexValueKey_def

lemmas run_defs = commit_defs store_defs demo_defs pyM_defs liftKv_def writeAll_def writeMsg_def Let_def

lemma demo_commit: "last (sv_outbox demo_server2 2) = TransactionResult 9 True None False"
  unfolding demo_server2_def by (simp add: run_defs)

lemma demo_commit_then:
  "last (sv_outbox (snd (onClientToServerMessage demo_env demo_clock 0 3 (CompleteTransaction 0 9 False) demo_server2)) 3)
     = TransactionResult 9 True None False"
  unfolding demo_server2_def by (simp add: run_defs)

lemma demo_server2_cc: "sv_cc demo_server2 3 = demo_channel 3"
  unfolding demo_server2_def by (simp add: run_defs)

end
