(* ===== verification/Server_Steps.thy ===== *)
theory Server_Steps
  imports Server_Versions Demo_States
begin

text \<open>
  How a property of the server state is shown for a whole run. The locale \<open>server_inv\<close> lists
  what a property has to survive, one assumption per primitive effect of the handlers, and derives
  that every handler and every step keeps it. The locale \<open>commit_inv\<close> is the common case of a
  property of the store, the versions and the transactions sent: it only has to survive the commit,
  and it is a \<open>server_inv\<close>.
\<close>

section \<open>Frame facts\<close>

text \<open>The messages that carry neither a transaction nor a block of identities.\<close>

fun quiet :: "ServerToClient \<Rightarrow> bool" where
  "quiet (Transaction m) = False"
| "quiet (Initialize a b r) = False"
| "quiet (DependentConnectionId a b r) = False"
| "quiet _ = True"

fun is_transaction :: "ServerToClient \<Rightarrow> bool" where
  "is_transaction (Transaction m) = True"
| "is_transaction _ = False"

text \<open>The subscriptions a channel object records.\<close>

definition subs_of :: "ConnectedChannel \<Rightarrow> (FieldId option \<times> int) list \<times> ObjectId set \<times> (IndexId \<times> int) list" where
  "subs_of cc = (cc_subscribedFields cc, cc_subscribedIds cc, cc_subscribedIndexKeys cc)"

lemma core_frame_subs [frame_simps]:
  "core (subscribeIndex c k tid s) = core s"
  "core (subscribeField c f tid s) = core s" "core (unsubscribeIds c s) = core s"
  by (simp_all add: subscribeIndex_def subscribeField_def unsubscribeIds_def frame_simps)

section \<open>Any property of the server\<close>

locale server_inv =
  fixes env :: pyenv and I :: "Server \<Rightarrow> bool"
  assumes typeMap: "I s \<Longrightarrow> I (s\<lparr>sv_typeMap := tm\<rparr>)"
    and send: "quiet msg \<Longrightarrow> I s \<Longrightarrow> I (writeMsg c msg s)"
    and recheck: "I s \<Longrightarrow> I (s\<lparr>sv_pendingSubscriptionRecheck := p\<rparr>)"
    and queue: "I s \<Longrightarrow> I (s\<lparr>sv_subscriptionQueue := q\<rparr>)"
    and closed: "I s \<Longrightarrow> I (s\<lparr>sv_closed := C\<rparr>)"
    and cc: "subs_of cc' = subs_of (sv_cc s c) \<Longrightarrow> I s \<Longrightarrow> I (s\<lparr>sv_cc := (sv_cc s)(c := cc')\<rparr>)"
    and sub_ids: "I s \<Longrightarrow> I (subscribeIds c ids s)"
    and sub_index: "I s \<Longrightarrow> I (subscribeIndex c k tid s)"
    and sub_field: "I s \<Longrightarrow> I (subscribeField c f tid s)"
    and types_key: "keeps I (liftKv (kv_set env (KStr ''types'') v))"
    and new_transaction: "keeps I (handleNewTransaction env ck (Some c) kv t nolog)"
    and collect: "keeps I (garbage_collect env ck ov)"
    and drop_entry: "keeps I (dropConnectionEntry env ck i)"
    and dependent: "keeps I (requestDependentConnectionId env ck c guid)"
    and accept: "leadsto (\<lambda>s. I s \<and> channel_unused c s) (addConnection env ck c) I"
    and drop: "keeps I (dropConnection env ckf c)"
begin

lemma updCC_keep: "(\<And>cc. subs_of (f cc) = subs_of cc) \<Longrightarrow> I s \<Longrightarrow> I (updCC c f s)"
  by (simp add: updCC_def cc)

lemmas updates = typeMap send recheck queue closed sub_ids sub_index sub_field updCC_keep

lemma keep_currentTypeMap: "keeps I (currentTypeMap env)"
  by (intro keeps_rules typeMap)

lemma keep_lookupOrAdd: "keeps I (serverLookupOrAdd env a b d)"
  unfolding serverLookupOrAdd_def
  by (intro keeps_rules keeps_modify typeMap; simp add: typeMap)

lemma keep_registerFields: "keeps I (registerFields env n t ns r)"
  by (induction ns arbitrary: r) (auto intro!: keeps_rules keep_lookupOrAdd)

lemma keep_buildIndexValueMap: "keeps I (buildIndexValueMap env ns a b ids)"
proof (induction ns)
  case (Cons n ns)
  show ?case unfolding buildIndexValueMap.simps by (intro keeps_rules keep_lookupOrAdd Cons)
qed simp

lemma keep_fieldValues: "keeps I (fieldValues env a b ns ids)"
proof (induction ns)
  case (Cons n ns)
  show ?case unfolding fieldValues.simps by (intro keeps_rules keep_currentTypeMap Cons)
qed simp

lemma keep_parse: "keeps I (parseSubscriptionMsg env c msg)"
  unfolding parseSubscriptionMsg_def by (intro keeps_rules keep_lookupOrAdd)

lemma keep_mark: "keeps I (markSubscriptionComplete env a b fv ids c lz)"
  unfolding markSubscriptionComplete_def
  by (intro keeps_rules keeps_modify keep_currentTypeMap updates)

lemma keep_completeMsg: "keeps I (completeMsg c a b fv)"
  unfolding completeMsg_def by (intro keeps_modify send) simp_all

lemma keep_completeLazy: "keeps I (completeLazySubscription env a b fv td ids c)"
  unfolding completeLazySubscription_def
  by (intro keeps_rules keeps_modify keep_buildIndexValueMap keep_mark keep_completeMsg send) simp_all

lemma keep_sendPartial: "keeps I (sendPartialSubscription env batch chk c a b fv td ids left)"
  unfolding sendPartialSubscription_def recheckMessage_def
  by (intro keeps_rules keeps_modify keep_fieldValues keep_buildIndexValueMap keep_currentTypeMap send) simp_all

lemmas keep_parts = keep_parse keep_mark keep_completeMsg keep_completeLazy keep_sendPartial keep_currentTypeMap

lemma keep_foreground: "keeps I (handleSubscriptionInForeground env c msg)"
  unfolding handleSubscriptionInForeground_def
  by (intro keeps_rules keeps_modify keep_parts queue)

lemma keep_bgStart: "keeps I (bgStart env c msg)"
  unfolding bgStart_def by (intro keeps_rules keeps_modify keep_parts recheck)

lemma keep_bgSlice: "keeps I (bgSlice env batch job)"
  unfolding bgSlice_def by (intro keeps_rules keeps_modify keep_parts recheck)

lemma keep_bgFinally: "keeps I m \<Longrightarrow> keeps I (bgFinally m)"
  unfolding bgFinally_def by (intro keeps_rules keeps_modify recheck)

lemma keep_schema: "keeps I (defineSchema env c n d)"
  unfolding defineSchema_def
  by (intro keeps_rules keeps_modify keep_currentTypeMap keep_registerFields types_key updates;
      simp add: subs_of_def)

lemma keep_loadLazy: "keeps I (loadLazyObject env c a b i)"
  unfolding loadLazyObject_def
  by (intro keeps_rules keeps_modify typeMap send) simp_all

lemma keep_checkDead: "keeps I (checkForDeadConnections env ckf)"
  unfolding checkForDeadConnections_def checkChannel_def areHeartbeatsSuspended_def
  by (intro keeps_rules keeps_modify keep_currentTypeMap drop closed updCC_keep; simp add: subs_of_def)

lemma keep_completeTransaction: "keeps I (completeTransaction env ck now c as_of guid nolog)"
proof -
  have "keeps I (extractM c guid)"
    unfolding extractM_def
    by (rule keeps_zoomM) (auto simp: extractTransactionData_def subs_of_def intro!: cc split: option.splits)
  then show ?thesis
    unfolding completeTransaction_def sendTransactionSuccess_def
    by (intro keeps_rules keeps_modify new_transaction send) simp_all
qed

lemma keep_dropDependent: "keeps I (dropDependentConnectionId env ck c i)"
  unfolding dropDependentConnectionId_def
  by (intro keeps_rules keeps_modify drop_entry updCC_keep; simp add: subs_of_def)

lemma keep_message: "keeps I (onClientToServerMessage env ck now c msg)"
  unfolding onClientToServerMessage_def
  by (cases msg; simp only: ClientToServer.case;
      intro keeps_rules keeps_modify dependent keep_dropDependent keep_loadLazy keep_schema keep_foreground
        keep_completeTransaction updates; simp add: subs_of_def handleTransactionData_def Let_def)

lemma step_keeps:
  assumes "server_step env p p'" and "I (fst p)"
  shows "I (fst p')"
  using assms
proof (induction rule: server_step.induct)
  case (connect c s ck r s' j)
  then show ?case using accept[of c ck] by (auto simp: leadsto_def)
next
  case (bg_begin s c msg q r s')
  then show ?case using keepsD[OF keep_bgFinally[OF keep_bgStart[of c msg]] queue] by auto
next
  case (bg_slice batch job s r s')
  then show ?case using keepsD[OF keep_bgFinally[OF keep_bgSlice[of batch job]]] by auto
qed (auto dest: keepsD[OF drop] keepsD[OF keep_checkDead] keepsD[OF keep_message] keepsD[OF collect])

end

section \<open>Properties of the store, the versions and the transactions sent\<close>

locale commit_inv =
  fixes env :: pyenv and I :: "Server \<Rightarrow> bool"
  assumes frame: "core s = core s' \<Longrightarrow> sv_outbox s = sv_outbox s' \<Longrightarrow> I s' \<Longrightarrow> I s"
    and send_other: "\<not> is_transaction msg \<Longrightarrow> I s \<Longrightarrow> I (writeMsg c msg s)"
    and commit: "keeps I (commitAndBroadcastNewTransaction env ck source t)"
    and string_key: "keeps I (liftKv (kv_set env (KStr n) v))"
    and collect_versions: "keeps I (garbage_collect env ck ov)"
begin

text \<open>Updates of the other fields.\<close>

lemma keep_modify: "(\<And>s. core (f s) = core s) \<Longrightarrow> (\<And>s. sv_outbox (f s) = sv_outbox s) \<Longrightarrow> keeps I (modify f)"
  by (rule keeps_modify) (blast intro: frame)

lemma keep_typeMap: "I s \<Longrightarrow> I (s\<lparr>sv_typeMap := tm\<rparr>)"
  by (auto intro: frame[rotated 2] simp: frame_simps)

lemma keep_newTransaction: "keeps I (handleNewTransaction env ck source kv t nolog)"
  unfolding handleNewTransaction_def
  by (intro keeps_rules keep_modify commit; simp add: frame_simps notifyWatcher_def)

lemma keep_keys: "keeps I (connectionKeys env i)"
  unfolding connectionKeys_def by (intro keeps_rules keep_typeMap)

lemma keep_createEntry: "keeps I (createConnectionEntry env ck)"
  unfolding createConnectionEntry_def allocateNewIdentityRoot_def
  by (intro keeps_rules keep_modify keep_newTransaction keep_keys string_key; simp add: frame_simps)

lemma keep_dropEntry: "keeps I (dropConnectionEntry env ck i)"
  unfolding dropConnectionEntry_def
  by (intro keeps_rules keep_newTransaction keep_keys)

lemma keep_drop: "keeps I (dropConnection env ckf c)"
  unfolding dropConnection_def unsubscribeField_def unsubscribeIndex_def
  by (intro keeps_rules keep_modify keep_dropEntry; simp add: frame_simps unsubscribeIds_def)

lemma send_after: "\<not> is_transaction msg \<Longrightarrow> core (f s) = core s \<Longrightarrow> sv_outbox (f s) = sv_outbox s \<Longrightarrow> I s \<Longrightarrow> I (writeMsg c msg (f s))"
  by (blast intro: send_other frame)

lemma keep_add: "keeps I (addConnection env ck c)"
  unfolding addConnection_def
  by (intro keeps_rules keep_createEntry keeps_modify send_other; (rule frame)?; simp add: frame_simps)

lemma keep_request: "keeps I (requestDependentConnectionId env ck c guid)"
  unfolding requestDependentConnectionId_def
  by (intro keeps_rules keep_createEntry; (intro keeps_modify send_other)?;
      (rule frame; simp add: frame_simps updCC_def)?; simp)

end

lemma quiet_not_transaction: "quiet msg \<Longrightarrow> \<not> is_transaction msg"
  by (cases msg) simp_all

sublocale commit_inv \<subseteq> server_inv env I
proof
  show "keeps I (liftKv (kv_set env (KStr ''types'') v))" for v by (rule string_key)
  show "keeps I (handleNewTransaction env ck (Some c) kv t nolog)" for ck c kv t nolog by (rule keep_newTransaction)
  show "keeps I (garbage_collect env ck ov)" for ck ov by (rule collect_versions)
  show "keeps I (dropConnectionEntry env ck i)" for ck i by (rule keep_dropEntry)
  show "keeps I (requestDependentConnectionId env ck c guid)" for ck c guid by (rule keep_request)
  show "leadsto (\<lambda>s. I s \<and> channel_unused c s) (addConnection env ck c) I" for c ck
    using keep_add[of ck c] by (simp add: leadsto_def keeps_def)
  show "keeps I (dropConnection env ckf c)" for ckf c by (rule keep_drop)
  show "quiet msg \<Longrightarrow> I s \<Longrightarrow> I (writeMsg c msg s)" for msg s c
    by (rule send_other[OF quiet_not_transaction])
qed (rule frame; simp add: frame_simps subscribeIds_def subscribeIndex_def subscribeField_def updCC_def)+

end
