(* ===== verification/Server_Safety.thy ===== *)
theory Server_Safety
  imports Server_Steps
begin

text \<open>
  Runs of the server: snapshots stay valid along every run, hence the optimistic commit is
  serialisable.
\<close>

section \<open>Snapshots along every operation\<close>

text \<open>Writing a key that no version guards.\<close>

lemma keeps_snap_kv_set_str: "keeps (snap_inv H) (liftKv (kv_set env (KStr n) v))"
proof (rule keepsI)
  fix s assume s: "snap_inv H s"
  have "touches {KStr n} (kv_set env (KStr n) v)" by (simp add: touches_kv_set)
  then have "kv_values (snd (kv_set env (KStr n) v kv)) (storeKey k) = kv_values kv (storeKey k)" for kv k
    by (cases k) (auto simp: touches_def keeps_def)
  with s show "snap_inv H (snd (liftKv (kv_set env (KStr n) v) s))"
    by (simp add: liftKv_run snap_inv_def snap_ok_def versionOf_def)
qed

lemma keeps_snap_gc: "keeps (snap_inv H) (garbage_collect env ck ov)"
proof (rule keepsI)
  fix s assume "snap_inv H s"
  then have "snap_at H (sv_cur_transaction_num s) s" "\<forall>(v, kv) \<in> H. v \<le> sv_cur_transaction_num s"
    by (simp_all add: snap_inv_at)
  with keeps_snap_garbage_collect[of H "sv_cur_transaction_num s" env ck ov]
  show "snap_inv H (snd (garbage_collect env ck ov s))"
    by (simp add: keeps_def snap_inv_def snap_at_def)
qed

interpretation snap: commit_inv env "snap_inv H" for env H
  by unfold_locales
    (auto intro: snap_inv_frame[rotated] keeps_snap_commit keeps_snap_kv_set_str keeps_snap_gc simp: frame_simps)

section \<open>Runs\<close>

text \<open>A run of the server from some state, with the snapshots taken along the way.\<close>

inductive server_run :: "pyenv \<Rightarrow> Server \<Rightarrow> snapshot set \<Rightarrow> Server \<times> bg_job option \<Rightarrow> bool" for env s0 where
  start: "server_run env s0 {} (s0, None)"
| step: "server_run env s0 H p \<Longrightarrow> server_step env p p' \<Longrightarrow> server_run env s0 H p'"
| snap: "server_run env s0 H (s, j) \<Longrightarrow>
    server_run env s0 (insert (sv_cur_transaction_num s, sv_kvstore s) H) (s, j)"

inductive_cases server_step_cases: "server_step env (s, j) (s', j')"

lemma snap_inv_run: "server_run env s0 H p \<Longrightarrow> snap_inv H (fst p)"
proof (induction rule: server_run.induct)
  case (step H p p')
  then show ?case using snap.step_keeps by blast
qed (auto simp: snap_inv_def snap_ok_def)

section \<open>What an accepted transaction has read\<close>

lemma subscribe_core:
  assumes "(case source of None \<Rightarrow> ret () | Some c \<Rightarrow> forM adds (subscribeCreator env c tid)) s = (r, s1)"
  shows "core s1 = core s"
proof -
  have "keeps (\<lambda>s'. core s' = core s) (case source of None \<Rightarrow> ret () | Some c \<Rightarrow> forM adds (subscribeCreator env c tid))"
    by (intro keeps_rules keeps_core_subscribeCreator[where P = "\<lambda>x. x = core s"])
  with assms show ?thesis by (auto dest: keepsD)
qed

lemma conflictingKey_core: "core s = core s' \<Longrightarrow> conflictingKey env t s = conflictingKey env t s'"
proof -
  assume "core s = core s'"
  then have "versionOf s = versionOf s'" by (intro ext versionOf_core)
  then show ?thesis by (simp only: conflictingKey_def)
qed

text \<open>The set changes that remain after the empty ones are dropped.\<close>

definition added :: "txn \<Rightarrow> set_dict" where
  "added t = filter (\<lambda>(k, v). v \<noteq> {}) (t_set_adds t)"

definition removed :: "txn \<Rightarrow> set_dict" where
  "removed t = filter (\<lambda>(k, v). v \<noteq> {}) (t_set_removes t)"

lemma commitWithId_accepted:
  assumes "commitWithId env ck source t tid s = (Inr ((True, b), x), s')"
  shows "\<exists>s1. (case source of None \<Rightarrow> ret () | Some c \<Rightarrow> forM (added t) (subscribeCreator env c tid)) s = (Inr (), s1) \<and>
    conflictingKey env t s1 = None \<and>
    commitAccepted env ck t (added t) (removed t) (sv_key_value s1) tid s1 = (Inr ((True, b), x), s')"
proof -
  let ?src = "case source of None \<Rightarrow> ret () | Some c \<Rightarrow> forM (added t) (subscribeCreator env c tid)"
  from assms obtain s1 where "?src s = (Inr (), s1)" and
    "(case conflictingKey env t s1 of
        None \<Rightarrow> bindM (gets sv_key_value) (\<lambda>kv0. commitAccepted env ck t (added t) (removed t) kv0 tid)
      | Some k \<Rightarrow> ret ((False, Some (BadKey k)), tid, {})) s1 = (Inr ((True, b), x), s')"
    unfolding commitWithId_def Let_def added_def[symmetric] removed_def[symmetric]
    by (auto simp: thenM_ok[of "case_option _ _ _"] split: if_splits)
  then show ?thesis by (cases "conflictingKey env t s1") auto
qed

lemma commit_success:
  assumes "commitAndBroadcastNewTransaction env ck source t s = (Inr ((True, b), x), s')"
  shows "conflictingKey env t s = None"
proof -
  let ?tid = "sv_cur_transaction_num s + 1"
  let ?s = "s\<lparr>sv_cur_transaction_num := ?tid\<rparr>"
  have "commitWithId env ck source t ?tid ?s = (Inr ((True, b), x), s')"
    using assms by (simp add: commitAndBroadcastNewTransaction_def)
  from commitWithId_accepted[OF this] obtain s1 where
    src: "(case source of None \<Rightarrow> ret () | Some c \<Rightarrow> forM (added t) (subscribeCreator env c ?tid)) ?s = (Inr (), s1)"
    and "conflictingKey env t s1 = None" by blast
  with conflictingKey_core[OF subscribe_core[OF src]] have "conflictingKey env t ?s = None" by simp
  then show ?thesis by (simp add: conflictingKey_def versionOf_def)
qed

lemma conflictingKey_None:
  assumes "conflictingKey env t s = None" and "iter_ok env" and "finite (t_keys t)" and "finite (t_indices t)"
  shows "k \<in> t_keys t \<Longrightarrow> versionOf s (VKey k) \<le> t_as_of t"
    and "i \<in> t_indices t \<Longrightarrow> versionOf s (VIndex i) \<le> t_as_of t"
  using assms by (auto simp: conflictingKey_def find_None_iff)

text \<open>The transaction that the message \<open>CompleteTransaction\<close> hands to the commit.\<close>

definition requested :: "pending_transaction \<Rightarrow> int \<Rightarrow> int \<Rightarrow> int \<Rightarrow> txn" where
  "requested p as_of guid now = \<lparr>t_prerequisites = pt_prerequisites p, t_set_adds = pt_set_adds p,
     t_set_removes = pt_set_removes p, t_keys = pt_key_versions p, t_indices = pt_index_versions p,
     t_as_of = as_of, t_start = Some now, t_guid = Some guid\<rparr>"

lemma handleNewTransaction_success:
  assumes "handleNewTransaction env ck source kv t nolog s = (Inr (True, b), s')"
  shows "conflictingKey env t s = None"
proof -
  from assms obtain x s1 where
    "commitAndBroadcastNewTransaction env ck source t (s\<lparr>sv_key_value := kv\<rparr>) = (Inr ((True, b), x), s1)"
    by (auto simp: handleNewTransaction_def catchM_def bindM_def thenM_def split: prod.splits sum.splits if_splits)
  from commit_success[OF this] show ?thesis by (simp add: conflictingKey_def versionOf_def)
qed

lemma completeTransaction_success:
  assumes "completeTransaction env ck now c as_of guid nolog s = (r, s')"
    and "last (sv_outbox s' c) = TransactionResult guid True bad isExc"
    and "cc_pendingTransactions (sv_cc s c) guid = Some p"
  shows "sv_min_acceptable_version_number s \<le> as_of \<and> conflictingKey env (requested p as_of guid now) s = None"
proof -
  let ?s = "s\<lparr>sv_cc := (sv_cc s)(c := (sv_cc s c)\<lparr>cc_pendingTransactions :=
     (cc_pendingTransactions (sv_cc s c))(guid := None)\<rparr>)\<rparr>"
  have "extractM c guid s = (Inr p, ?s)"
    using assms(3) by (simp add: extractM_def zoomM_def extractTransactionData_def)
  with assms(1,2) obtain s1 where le: "sv_min_acceptable_version_number s \<le> as_of"
    and "handleNewTransaction env ck (Some c) (pt_writes p) (requested p as_of guid now) nolog ?s = (Inr (True, bad), s1)"
    by (auto simp: completeTransaction_def sendTransactionSuccess_def requested_def catchM_def bindM_def
        split: prod.splits sum.splits if_splits)
  from handleNewTransaction_success[OF this(2)] le show ?thesis
    by (simp add: conflictingKey_def versionOf_def)
qed

section \<open>Serialisability\<close>

text \<open>C1. Optimistic commits are serialisable. Take a snapshot \<open>(v, kv)\<close> of the store at any
  point of a run; whatever happens afterwards, a transaction that declares it was computed as of
  \<open>v\<close> and that the server reports as successful finds, at the moment it is committed, every
  field and every index set it declared as read exactly as the snapshot had it.\<close>

theorem commit_reads_current:
  assumes "server_run env s0 H (s, j)" and "(v, kv) \<in> H" and "iter_ok env"
    and "cc_pendingTransactions (sv_cc s c) guid = Some p"
    and "finite (pt_key_versions p)" and "finite (pt_index_versions p)"
    and "onClientToServerMessage env ck now c (CompleteTransaction v guid nolog) s = (r, s')"
    and "\<not> cc_needsAuthentication (sv_cc s c)"
    and "last (sv_outbox s' c) = TransactionResult guid True bad isExc"
  shows "(\<forall>k \<in> pt_key_versions p. \<not> isIndexValue k \<longrightarrow>
            kv_values (sv_kvstore s) (KObj k) = kv_values kv (KObj k)) \<and>
         (\<forall>i \<in> pt_index_versions p. kv_values (sv_kvstore s) (KIx i) = kv_values kv (KIx i))"
proof -
  from assms(7,8) have "completeTransaction env ck now c v guid nolog s = (r, s')"
    by (simp add: onClientToServerMessage_def)
  from completeTransaction_success[OF this assms(9,4)]
  have recent: "sv_min_acceptable_version_number s \<le> v"
    and free: "conflictingKey env (requested p v guid now) s = None" by simp_all
  have read: "versionOf s (VKey k) \<le> v" if "k \<in> pt_key_versions p" for k
    using conflictingKey_None(1)[OF free assms(3)] assms(5,6) that by (simp add: requested_def)
  have readIx: "versionOf s (VIndex i) \<le> v" if "i \<in> pt_index_versions p" for i
    using conflictingKey_None(2)[OF free assms(3)] assms(5,6) that by (simp add: requested_def)
  have "snap_ok H s" using snap_inv_run[OF assms(1)] by (simp add: snap_inv_def)
  with assms(2) recent have same: "kv_values kv (storeKey k) = kv_values (sv_kvstore s) (storeKey k)"
    if "tracked k" "versionOf s k \<le> v" for k
    using that by (fastforce simp: snap_ok_def)
  show ?thesis using same[of "VKey k" for k] same[of "VIndex i" for i] read readIx by simp
qed

theorem commit_reads_current_witness:
  "kv_values (sv_kvstore demo_server2) (KObj (demo_key 3)) = kv_values (sv_kvstore demo_server) (KObj (demo_key 3)) \<and>
   kv_values (sv_kvstore demo_server2) (KIx (IndexId 7 [1])) = kv_values (sv_kvstore demo_server) (KIx (IndexId 7 [1]))"
proof -
  let ?m = "\<lambda>c. onClientToServerMessage demo_env demo_clock 0 c (CompleteTransaction 0 9 False)"
  let ?H = "{(0, sv_kvstore demo_server)}"
  have "sv_cur_transaction_num demo_server = 0" by (simp add: demo_defs)
  with server_run.snap[OF server_run.start, of demo_env demo_server]
  have "server_run demo_env demo_server ?H (demo_server, None)" by simp
  moreover have "server_step demo_env (demo_server, None) (demo_server2, None)"
    unfolding demo_server2_def by (rule server_step.message[OF prod.collapse[symmetric]])
  ultimately have run: "server_run demo_env demo_server ?H (demo_server2, None)" by (rule server_run.step)
  have p: "cc_pendingTransactions (sv_cc demo_server2 3) 9 = Some (demo_pending 3)"
    by (simp add: demo_server2_cc demo_channel_def)
  show ?thesis
    using commit_reads_current[OF run singletonI iter_ok_demo p _ _ prod.collapse[symmetric] _ demo_commit_then]
    by (simp add: demo_server2_cc demo_defs)
qed

end
