(* ===== verification/Server_Progress.thy ===== *)
theory Server_Progress
  imports Server_Safety
begin

text \<open>
  What keeps the server live: version numbers never run ahead of the transaction counter, the
  garbage collection of version numbers never fails and never forgets a key that still exists,
  and a transaction based on the current state is never refused.
\<close>

section \<open>The kinds of stored values\<close>

text \<open>Value keys hold bytes that decode, set keys hold sets. Unlike \<open>kv_ok\<close> this survives a
  batch that fails half way.\<close>

definition kinds_ok :: "pyenv \<Rightarrow> InMemoryPersistence \<Rightarrow> bool" where
  "kinds_ok env s \<longleftrightarrow> (\<forall>k. case kv_values s k of
       None \<Rightarrow> True
     | Some (Bytes b) \<Rightarrow> value_key k \<and>
         (case k of KObj i \<Rightarrow> isIndexValue i \<longrightarrow> deser_iv env b \<noteq> None | _ \<Rightarrow> True)
     | Some (Members m) \<Rightarrow> set_key k)"

lemma kinds_upd:
  "kinds_ok env s \<Longrightarrow> (case c of Bytes b \<Rightarrow> value_key k \<and>
         (case k of KObj i \<Rightarrow> isIndexValue i \<longrightarrow> deser_iv env b \<noteq> None | _ \<Rightarrow> True)
     | Members m \<Rightarrow> set_key k) \<Longrightarrow> kinds_ok env (s\<lparr>kv_values := (kv_values s)(k \<mapsto> c)\<rparr>)"
  by (simp add: kinds_ok_def split: stored.splits)

lemma kinds_del: "kinds_ok env s \<Longrightarrow> kinds_ok env (s\<lparr>kv_values := (kv_values s)(k := None)\<rparr>)"
  by (simp add: kinds_ok_def)

lemma keeps_kinds_set:
  assumes "codec_ok env"
  shows "keeps (kinds_ok env) (kv_set env k v)"
proof (rule keepsI)
  fix s assume "kinds_ok env s"
  with assms show "kinds_ok env (snd (kv_set env k v s))"
    by (cases k; cases v) (auto simp: kv_set_def isIndexValueKey_def value_key_def intro!: kinds_upd kinds_del)
qed

lemma keeps_kinds_setAdd: "set_key k \<Longrightarrow> keeps (kinds_ok env) (setAdd env k m)"
  unfolding setAdd_def set_add1_def
  by (intro keeps_rules keeps_modify; auto intro!: kinds_upd)

lemma keeps_kinds_setRemove: "set_key k \<Longrightarrow> keeps (kinds_ok env) (setRemove env k m)"
  unfolding setRemove_def set_remove1_def
  by (intro keeps_rules keeps_modify; auto intro!: kinds_upd kinds_del)

lemma keeps_kinds_setSeveral:
  assumes "codec_ok env" and "\<forall>k \<in> fst ` set adds \<union> fst ` set removes. set_key k"
  shows "keeps (kinds_ok env) (setSeveral env kvs adds removes)"
  unfolding setSeveral_def
  using assms by (intro keeps_rules keeps_kinds_set keeps_kinds_setAdd keeps_kinds_setRemove; force)

lemma set_key_sets: "(k, m) \<in> set (idSets A) \<Longrightarrow> set_key k" "(k, m) \<in> set (fieldSets B) \<Longrightarrow> set_key k"
  by (auto simp: idSets_def fieldSets_def set_key_def value_key_def)

lemma keeps_kinds_storeTransaction:
  "codec_ok env \<Longrightarrow> keeps (kinds_ok env) (storeTransaction (setSeveral env) kvs A R)"
  unfolding storeTransaction_def
  by (intro keeps_rules keeps_kinds_setSeveral; auto dest: set_key_sets)

lemma kinds_get: "kinds_ok env s \<Longrightarrow> value_key k \<Longrightarrow> kv_get env k s = (Inr (val_of env s k), s)"
  unfolding kinds_ok_def kv_get_def val_of_def isIndexValueKey_def value_key_def
  by (drule spec[of _ k]) (auto split: option.splits stored.splits KeyType.splits simp: set_key_def value_key_def)

lemma kinds_members: "kinds_ok env s \<Longrightarrow> set_key k \<Longrightarrow> getSetMembers k s = (Inr (set_of s k), s)"
  unfolding kinds_ok_def getSetMembers_def set_of_def set_key_def
  by (drule spec[of _ k]) (auto split: option.splits stored.splits)

section \<open>The invariant\<close>

definition live_inv :: "pyenv \<Rightarrow> Server \<Rightarrow> bool" where
  "live_inv env s \<longleftrightarrow> codec_ok env \<and> 0 \<le> sv_cur_transaction_num s \<and> kinds_ok env (sv_kvstore s) \<and>
     dict_ok (sv_version_numbers_timestamps s) \<and>
     fst ` set (sv_version_numbers_timestamps s) \<subseteq> dom (sv_version_numbers s) \<and>
     (\<forall>k v. sv_version_numbers s k = Some v \<longrightarrow> v \<le> sv_cur_transaction_num s) \<and>
     sv_min_acceptable_version_number s \<le> sv_cur_transaction_num s"

definition live_at :: "pyenv \<Rightarrow> int \<Rightarrow> Server \<Rightarrow> bool" where
  "live_at env tid s \<longleftrightarrow> live_inv env s \<and> sv_cur_transaction_num s = tid"

lemma live_inv_core: "core s = core s' \<Longrightarrow> live_inv env s = live_inv env s'"
  by (simp add: live_inv_def core_def)

lemma live_at_frame: "core s = core s' \<Longrightarrow> live_at env tid s' \<Longrightarrow> live_at env tid s"
  unfolding live_at_def by (simp add: live_inv_core[of s s']) (simp add: core_def)

lemma live_at_via_core: "live_at env tid = (\<lambda>s. (\<exists>s'. core s' = core s \<and> live_at env tid s'))"
  by (auto intro: live_at_frame[OF sym])

section \<open>Garbage collection\<close>

definition absent :: "pyenv \<Rightarrow> Server \<Rightarrow> version_key \<Rightarrow> bool" where
  "absent env s k = (case k of VKey f \<Rightarrow> val_of env (sv_kvstore s) (KObj f) = None
                             | VIndex i \<Rightarrow> set_of (sv_kvstore s) (KIx i) = {})"

text \<open>What one entry does to the server.\<close>

definition collected :: "pyenv \<Rightarrow> int \<Rightarrow> version_key \<times> int \<Rightarrow> Server \<Rightarrow> Server" where
  "collected env threshold = (\<lambda>(k, ts) s.
     if ts < threshold \<and> absent env s k
     then s\<lparr>sv_min_acceptable_version_number :=
               max (sv_min_acceptable_version_number s) (the (sv_version_numbers s k)),
            sv_version_numbers := (sv_version_numbers s)(k := None)\<rparr>
     else s)"

lemma collectVersion_run:
  assumes "kinds_ok env (sv_kvstore s)" and "k \<in> dom (sv_version_numbers s)"
  shows "collectVersion env threshold (k, ts) new_ts s =
    (Inr (if ts < threshold then new_ts else AList.update k ts new_ts), collected env threshold (k, ts) s)"
proof -
  have "liftKv (kv_get env (KObj f)) s = (Inr (val_of env (sv_kvstore s) (KObj f)), s)" for f
    using assms(1) by (simp add: liftKv_run kinds_get value_key_def)
  moreover have "liftKv (getSetMembers (KIx i)) s = (Inr (set_of (sv_kvstore s) (KIx i)), s)" for i
    using assms(1) by (simp add: liftKv_run kinds_members set_key_def value_key_def)
  ultimately show ?thesis
    using assms(2) by (cases k) (auto simp: collectVersion_def collected_def absent_def)
qed

lemma collected_simps [simp]:
  "sv_kvstore (collected env th p s) = sv_kvstore s"
  "sv_cur_transaction_num (collected env th p s) = sv_cur_transaction_num s"
  "sv_version_numbers_timestamps (collected env th p s) = sv_version_numbers_timestamps s"
  "absent env (collected env th p s) k = absent env s k"
  by (auto simp: collected_def absent_def split: prod.splits version_key.splits)

lemma collected_fold [simp]:
  "sv_kvstore (fold (collected env th) ps s) = sv_kvstore s"
  "sv_cur_transaction_num (fold (collected env th) ps s) = sv_cur_transaction_num s"
  "sv_version_numbers_timestamps (fold (collected env th) ps s) = sv_version_numbers_timestamps s"
  by (induction ps arbitrary: s) auto

lemma collect_loop:
  assumes "kinds_ok env (sv_kvstore s)" and "dict_ok ps" and "fst ` set ps \<subseteq> dom (sv_version_numbers s)"
    and "dict_ok (acc @ ps)"
  shows "foldMl (collectVersion env th) ps acc s =
    (Inr (acc @ filter (\<lambda>(k, ts). th \<le> ts) ps), fold (collected env th) ps s)"
  using assms
proof (induction ps arbitrary: acc s)
  case Nil
  then show ?case by simp
next
  case (Cons p ps)
  obtain k ts where p: "p = (k, ts)" by fastforce
  let ?s = "collected env th p s"
  let ?acc = "if ts < th then acc else acc @ [p]"
  have "collectVersion env th p acc s = (Inr ?acc, ?s)"
    using Cons.prems p collectVersion_run[of env s k th ts acc] update_fresh[of k acc ts] by auto
  moreover have "fst ` set ps \<subseteq> dom (sv_version_numbers ?s)"
  proof
    fix q assume "q \<in> fst ` set ps"
    with Cons.prems p have "q \<noteq> k" "q \<in> dom (sv_version_numbers s)" by auto
    then show "q \<in> dom (sv_version_numbers ?s)" using p by (auto simp: collected_def)
  qed
  moreover have "dict_ok (?acc @ ps)" using Cons.prems(4) by auto
  ultimately show ?case
    using Cons.IH[of ?s ?acc] Cons.prems p by auto
qed

text \<open>The effect of the collection on one key.\<close>

lemma collected_versions:
  "dict_ok ps \<Longrightarrow> sv_version_numbers (fold (collected env th) ps s) k =
     (if \<exists>ts. (k, ts) \<in> set ps \<and> ts < th \<and> absent env s k then None else sv_version_numbers s k)"
proof (induction ps arbitrary: s)
  case (Cons p ps)
  obtain k' ts where p: "p = (k', ts)" by fastforce
  have "k \<noteq> k'" if "(k, t) \<in> set ps" for t using Cons.prems p that by force
  moreover have "sv_version_numbers (fold (collected env th) ps (collected env th p s)) k =
      (if \<exists>ts. (k, ts) \<in> set ps \<and> ts < th \<and> absent env s k then None
       else sv_version_numbers (collected env th p s) k)"
    using Cons.IH[of "collected env th p s"] Cons.prems by simp
  ultimately show ?case using p by (auto simp: collected_def)
qed simp

lemma collected_min_mono:
  "sv_min_acceptable_version_number s \<le> sv_min_acceptable_version_number (fold (collected env th) ps s)"
proof (induction ps arbitrary: s)
  case (Cons p ps)
  have "sv_min_acceptable_version_number s \<le> sv_min_acceptable_version_number (collected env th p s)"
    by (auto simp: collected_def split: prod.splits)
  with Cons show ?case by (auto intro: order_trans)
qed simp

lemma collected_min:
  "dict_ok ps \<Longrightarrow> (k, ts) \<in> set ps \<Longrightarrow> ts < th \<Longrightarrow> absent env s k \<Longrightarrow> sv_version_numbers s k = Some v \<Longrightarrow>
   v \<le> sv_min_acceptable_version_number (fold (collected env th) ps s)"
proof (induction ps arbitrary: s)
  case (Cons p ps)
  show ?case
  proof (cases "p = (k, ts)")
    case True
    with Cons.prems have "v \<le> sv_min_acceptable_version_number (collected env th p s)"
      by (simp add: collected_def)
    also have "\<dots> \<le> sv_min_acceptable_version_number (fold (collected env th) ps (collected env th p s))"
      by (rule collected_min_mono)
    finally show ?thesis by simp
  next
    case False
    with Cons.prems have "sv_version_numbers (collected env th p s) k = Some v"
      by (force simp: collected_def split: prod.splits)
    with Cons False show ?thesis by auto
  qed
qed simp

lemma collected_min_bound:
  "fst ` set ps \<subseteq> dom (sv_version_numbers s) \<Longrightarrow> dict_ok ps \<Longrightarrow>
   \<forall>k v. sv_version_numbers s k = Some v \<longrightarrow> v \<le> b \<Longrightarrow> sv_min_acceptable_version_number s \<le> b \<Longrightarrow>
   sv_min_acceptable_version_number (fold (collected env th) ps s) \<le> b"
proof (induction ps arbitrary: s)
  case (Cons p ps)
  obtain k ts where p: "p = (k, ts)" by fastforce
  let ?s = "collected env th p s"
  have "fst ` set ps \<subseteq> dom (sv_version_numbers ?s)"
    using Cons.prems p by (force simp: collected_def)
  moreover have "\<forall>k v. sv_version_numbers ?s k = Some v \<longrightarrow> v \<le> b"
    using Cons.prems p by (auto simp: collected_def)
  moreover have "sv_min_acceptable_version_number ?s \<le> b"
    using Cons.prems p by (auto simp: collected_def)
  ultimately show ?case using Cons by simp
qed simp

lemma live_collected:
  assumes "live_inv env s"
  shows "live_inv env ((fold (collected env th) (sv_version_numbers_timestamps s) s)
    \<lparr>sv_version_numbers_timestamps := filter (\<lambda>(k, ts). th \<le> ts) (sv_version_numbers_timestamps s)\<rparr>)"
proof -
  let ?ps = "sv_version_numbers_timestamps s"
  let ?s = "fold (collected env th) ?ps s"
  from assms have ok: "dict_ok ?ps" "fst ` set ?ps \<subseteq> dom (sv_version_numbers s)"
    "\<forall>k v. sv_version_numbers s k = Some v \<longrightarrow> v \<le> sv_cur_transaction_num s"
    "sv_min_acceptable_version_number s \<le> sv_cur_transaction_num s" by (simp_all add: live_inv_def)
  note ver = collected_versions[OF ok(1), of env th s]
  have uniq: "t = ts" if "(k, t) \<in> set ?ps" "(k, ts) \<in> set ?ps" for k t ts
    using ok(1) that by (metis eq_key_imp_eq_value)
  have "k \<in> dom (sv_version_numbers ?s)" if "(k, ts) \<in> set ?ps" "th \<le> ts" for k ts
  proof -
    have "\<not> (\<exists>t. (k, t) \<in> set ?ps \<and> t < th \<and> absent env s k)" using uniq[OF that(1)] that(2) by auto
    then show ?thesis using that ok(2) by (force simp: ver)
  qed
  moreover have "\<exists>ts. (k, ts) \<in> set ?ps \<and> th \<le> ts" if "k \<in> fst ` set (filter (\<lambda>(k, ts). th \<le> ts) ?ps)" for k
    using that by auto
  ultimately have "fst ` set (filter (\<lambda>(k, ts). th \<le> ts) ?ps) \<subseteq> dom (sv_version_numbers ?s)" by blast
  moreover have "v \<le> sv_cur_transaction_num s" if "sv_version_numbers ?s k = Some v" for k v
    using that ok(3) by (simp add: ver split: if_splits)
  moreover have "sv_min_acceptable_version_number ?s \<le> sv_cur_transaction_num s"
    using collected_min_bound[OF ok(2,1,3,4)] .
  moreover have "dict_ok (filter (\<lambda>(k, ts). th \<le> ts) ?ps)"
    using ok(1) by (simp add: distinct_map_filter)
  ultimately show ?thesis using assms by (simp add: live_inv_def)
qed

lemma garbage_collect_run:
  assumes "live_inv env s"
  shows "garbage_collect env ck ov s = (Inr (), s) \<or>
   (\<exists>th. garbage_collect env ck ov s = (Inr (), (fold (collected env th) (sv_version_numbers_timestamps s) s)
    \<lparr>sv_version_numbers_timestamps := filter (\<lambda>(k, ts). th \<le> ts) (sv_version_numbers_timestamps s),
     sv_last_garbage_collect_timestamp := Some (ck_gc_done ck)\<rparr>))"
proof -
  have "foldMl (collectVersion env th) (sv_version_numbers_timestamps s) [] s =
    (Inr (filter (\<lambda>(k, ts). th \<le> ts) (sv_version_numbers_timestamps s)),
     fold (collected env th) (sv_version_numbers_timestamps s) s)" for th
    using collect_loop[of env s "sv_version_numbers_timestamps s" "[]" th] assms by (simp add: live_inv_def)
  then show ?thesis by (auto simp: garbage_collect_def Let_def)
qed

lemma live_inv_gc_ts: "live_inv env (s\<lparr>sv_last_garbage_collect_timestamp := t\<rparr>) = live_inv env s"
  by (simp add: live_inv_def)

lemma keeps_live_gc: "keeps (live_inv env) (garbage_collect env ck ov)"
proof (rule keepsI)
  fix s assume s: "live_inv env s"
  from garbage_collect_run[OF this, of ck ov] show "live_inv env (snd (garbage_collect env ck ov s))"
  proof
    assume "\<exists>th. garbage_collect env ck ov s = (Inr (), (fold (collected env th) (sv_version_numbers_timestamps s) s)
      \<lparr>sv_version_numbers_timestamps := filter (\<lambda>(k, ts). th \<le> ts) (sv_version_numbers_timestamps s),
       sv_last_garbage_collect_timestamp := Some (ck_gc_done ck)\<rparr>)"
    then show ?thesis using live_collected[OF s] live_inv_gc_ts by (metis snd_conv)
  qed (simp add: s)
qed

lemma keeps_cur_gc: "keeps (\<lambda>s. sv_cur_transaction_num s = tid) (garbage_collect env ck ov)"
  unfolding garbage_collect_def collectVersion_def
  by (intro keeps_rules keeps_modify; simp split: version_key.split; intro conjI allI impI keeps_rules)

lemma keeps_live_at_gc: "keeps (live_at env tid) (garbage_collect env ck ov)"
  using keeps_live_gc[of env ck ov] keeps_cur_gc[of tid env ck ov] by (simp add: keeps_def live_at_def)

section \<open>The commit\<close>

lemma timestamps_fold:
  "dict_ok ts \<Longrightarrow> dict_ok (fold (\<lambda>k. AList.update k t) ks ts) \<and>
   fst ` set (fold (\<lambda>k. AList.update k t) ks ts) = fst ` set ts \<union> set ks"
  by (induction ks arbitrary: ts) (auto simp: dom_update)

lemma live_stamp: "live_at env tid s \<Longrightarrow> live_at env tid (stampVersions ks tid t1 s)"
  using timestamps_fold[of "sv_version_numbers_timestamps s" t1 ks]
  by (auto simp: live_at_def live_inv_def stampVersions_def dom_def split: if_splits)

lemma keeps_live_store:
  assumes "codec_ok env \<Longrightarrow> keeps (kinds_ok env) m"
  shows "keeps (live_at env tid) (liftKv m)" "keeps (live_inv env) (liftKv m)"
  using assms by (auto simp: keeps_def live_at_def live_inv_def liftKv_run)

lemma keeps_live_broadcast: "keeps (live_at env tid) (broadcastCommitted env ck t A R kv0 prior tid)"
proof -
  have grow: "keeps (live_at env tid) (growIndex env tid k p)" for k p
    by (subst live_at_via_core) (rule keeps_core_growIndex)
  have log: "keeps (live_at env tid) (logThroughput env ck)"
    by (subst live_at_via_core) (rule keeps_core_logThroughput)
  show ?thesis
    unfolding broadcastCommitted_def announceTransaction_def
    by (intro keeps_rules keeps_modify grow log keeps_live_at_gc; (rule live_at_frame, simp add: frame_simps, assumption)?)
qed

lemma keeps_live_accepted: "keeps (live_at env tid) (commitAccepted env ck t A R kv0 tid)"
proof -
  have tm: "keeps (live_at env tid) (currentTypeMap env)"
    by (subst live_at_via_core) (rule keeps_core_currentTypeMap)
  show ?thesis
    unfolding commitAccepted_def
    by (intro keeps_rules keeps_modify live_stamp keeps_live_store keeps_kinds_storeTransaction
        keeps_live_broadcast tm)
qed

lemma keeps_live_commit: "keeps (live_inv env) (commitAndBroadcastNewTransaction env ck source t)"
proof (rule keepsI)
  fix s assume s: "live_inv env s"
  let ?tid = "sv_cur_transaction_num s + 1"
  let ?s = "s\<lparr>sv_cur_transaction_num := ?tid\<rparr>"
  have at: "live_at env ?tid ?s" using s by (force simp: live_at_def live_inv_def)
  have "keeps (live_at env ?tid) (subscribeCreator env c ?tid p)" for c p
    by (subst live_at_via_core) (rule keeps_core_subscribeCreator)
  then have "keeps (live_at env ?tid) (commitWithId env ck source t ?tid)"
    unfolding commitWithId_def by (intro keeps_rules keeps_live_accepted)
  with at have "live_at env ?tid (snd (commitWithId env ck source t ?tid ?s))" by (simp add: keeps_def)
  then show "live_inv env (snd (commitAndBroadcastNewTransaction env ck source t s))"
    by (simp add: commitAndBroadcastNewTransaction_def live_at_def)
qed

interpretation live: commit_inv env "live_inv env" for env
proof
  show "core s = core s' \<Longrightarrow> sv_outbox s = sv_outbox s' \<Longrightarrow> live_inv env s' \<Longrightarrow> live_inv env s" for s s'
    using live_inv_core by blast
  show "\<not> is_transaction msg \<Longrightarrow> live_inv env s \<Longrightarrow> live_inv env (writeMsg c msg s)" for msg s c
    by (simp add: live_inv_def writeMsg_def)
  show "keeps (live_inv env) (liftKv (kv_set env (KStr n) v))" for n v
    by (intro keeps_live_store keeps_kinds_set)
qed (rule keeps_live_commit keeps_live_gc)+

text \<open>The state the server starts in.\<close>

lemma live_blank: "codec_ok env \<Longrightarrow> kinds_ok env kv \<Longrightarrow> live_inv env (blankServer kv token watched now)"
  by (simp add: live_inv_def blankServer_def)

lemma live_init: "live_inv env s \<Longrightarrow> live_inv env (snd (initServer env s))"
proof -
  have "keeps (kinds_ok env) (setSeveral env kvs [] [(KIx i, m)])" if "codec_ok env" for kvs i m
    using that by (intro keeps_kinds_setSeveral) (simp_all add: set_key_def value_key_def)
  then have "keeps (live_inv env) (removeOldDeadConnections env)"
    unfolding removeOldDeadConnections_def by (intro keeps_rules live.keep_typeMap keeps_live_store)
  then have "keeps (live_inv env) (initServer env)"
    unfolding initServer_def allocateNewIdentityRoot_def
    by (intro keeps_rules live.keep_modify live.string_key; simp add: frame_simps)
  then show "live_inv env s \<Longrightarrow> live_inv env (snd (initServer env s))" by (simp add: keeps_def)
qed

lemma live_run: "server_run env s0 H p \<Longrightarrow> live_inv env s0 \<Longrightarrow> live_inv env (fst p)"
proof (induction rule: server_run.induct)
  case (step H p p')
  then show ?case using live.step_keeps by blast
qed simp_all

section \<open>Properties\<close>



text \<open>C6. Garbage collection of version numbers is safe and total on every reachable state: it never
  raises, leaves the store alone, forgets the version of a key only when nothing is stored under the
  key, and then raises the oldest acceptable version to at least the forgotten one, so that no
  transaction can slip past the check because its conflict was forgotten.\<close>

theorem garbage_collect_safe:
  assumes "live_inv env s"
  shows "\<exists>s'. garbage_collect env ck ov s = (Inr (), s') \<and> live_inv env s' \<and>
    sv_kvstore s' = sv_kvstore s \<and> sv_min_acceptable_version_number s \<le> sv_min_acceptable_version_number s' \<and>
    (\<forall>k v. sv_version_numbers s k = Some v \<longrightarrow>
       sv_version_numbers s' k = Some v \<or>
       sv_version_numbers s' k = None \<and> absent env s k \<and> v \<le> sv_min_acceptable_version_number s')"
  using garbage_collect_run[OF assms, of ck ov]
proof
  assume "garbage_collect env ck ov s = (Inr (), s)"
  then show ?thesis using assms by simp
next
  let ?ps = "sv_version_numbers_timestamps s"
  have ok: "dict_ok ?ps" using assms by (simp add: live_inv_def)
  assume "\<exists>th. garbage_collect env ck ov s = (Inr (), (fold (collected env th) ?ps s)
    \<lparr>sv_version_numbers_timestamps := filter (\<lambda>(k, ts). th \<le> ts) ?ps,
     sv_last_garbage_collect_timestamp := Some (ck_gc_done ck)\<rparr>)"
  then obtain th s' where s': "garbage_collect env ck ov s = (Inr (), s')"
    and eq: "s' = (fold (collected env th) ?ps s)\<lparr>sv_version_numbers_timestamps := filter (\<lambda>(k, ts). th \<le> ts) ?ps,
     sv_last_garbage_collect_timestamp := Some (ck_gc_done ck)\<rparr>" by blast
  have "live_inv env s'" using keeps_live_gc[of env ck ov] assms s' by (auto simp: keeps_def)
  moreover have "v \<le> sv_min_acceptable_version_number s'"
    if "sv_version_numbers s k = Some v" "(k, ts) \<in> set ?ps" "ts < th" "absent env s k" for k v ts
    using collected_min[OF ok that(2,3,4,1)] by (simp add: eq)
  ultimately show ?thesis
    using s' collected_min_mono[of s env th ?ps] by (auto simp: eq collected_versions[OF ok])
qed

theorem garbage_collect_safe_witness:
  "\<exists>s'. garbage_collect demo_env demo_clock (Some 1) demo_server2 = (Inr (), s') \<and> live_inv demo_env s' \<and>
    sv_kvstore s' = sv_kvstore demo_server2"
proof -
  have "live_inv demo_env demo_server" by (simp add: live_inv_def demo_defs kinds_ok_def)
  moreover have "server_step demo_env (demo_server, None) (demo_server2, None)"
    unfolding demo_server2_def by (rule server_step.message[OF prod.collapse[symmetric]])
  ultimately have "live_inv demo_env demo_server2" using live.step_keeps by fastforce
  from garbage_collect_safe[OF this, of demo_clock "Some 1"] show ?thesis by blast
qed

end
