(* ===== verification/Server_Order.thy ===== *)
theory Server_Order
  imports Server_Progress
begin

text \<open>
  What the server tells its clients: every channel receives the committed transactions in
  strictly increasing order of their numbers, each at most once; a commit that the server reports
  as successful reaches every channel that was subscribed to a field or an object it touches, and
  no other.
\<close>

section \<open>The transactions in a channel's output\<close>

fun txs :: "ServerToClient list \<Rightarrow> transaction_msg list" where
  "txs [] = []"
| "txs (msg # msgs) = (case msg of Transaction m \<Rightarrow> m # txs msgs | _ \<Rightarrow> txs msgs)"

lemma txs_append [simp]: "txs (a @ b) = txs a @ txs b"
  by (induction a) (auto split: ServerToClient.splits)

lemma txs_other [simp]: "\<not> is_transaction msg \<Longrightarrow> txs [msg] = []"
  by (cases msg) simp_all

definition sent :: "Server \<Rightarrow> chan \<Rightarrow> transaction_msg list" where
  "sent s c = txs (sv_outbox s c)"

lemma sent_frame: "sv_outbox s = sv_outbox s' \<Longrightarrow> sent s = sent s'"
  by (rule ext) (simp add: sent_def)

lemma sent_write [simp]: "\<not> is_transaction msg \<Longrightarrow> sent (writeMsg d msg s) = sent s"
  by (rule ext) (simp add: sent_def del: txs.simps)

lemma sent_messages:
  "sent (sendTransactionMessages P T pv m s) c = sent s c @ (if c \<in> T then [m] else [])"
  by (simp add: sent_def sendTransactionMessages_def Let_def)

section \<open>Strictly increasing numbers\<close>

definition ordered_upto :: "int \<Rightarrow> (chan \<Rightarrow> transaction_msg list) \<Rightarrow> bool" where
  "ordered_upto b f \<longleftrightarrow> (\<forall>c. sorted_wrt (<) (map tm_transaction_id (f c)) \<and>
     (\<forall>m \<in> set (f c). tm_transaction_id m \<le> b))"

definition order_inv :: "Server \<Rightarrow> bool" where
  "order_inv s \<longleftrightarrow> ordered_upto (sv_cur_transaction_num s) (sent s)"

text \<open>During the commit of \<open>tid\<close>, before and after the messages go out.\<close>

definition before_send :: "int \<Rightarrow> Server \<Rightarrow> bool" where
  "before_send tid s \<longleftrightarrow> sv_cur_transaction_num s = tid \<and> ordered_upto (tid - 1) (sent s)"

definition after_send :: "int \<Rightarrow> Server \<Rightarrow> bool" where
  "after_send tid s \<longleftrightarrow> sv_cur_transaction_num s = tid \<and> ordered_upto tid (sent s)"

lemma before_after: "before_send tid s \<Longrightarrow> after_send tid s"
  by (fastforce simp: before_send_def after_send_def ordered_upto_def)

lemma before_frame:
  "sv_cur_transaction_num s = sv_cur_transaction_num s' \<Longrightarrow> sent s = sent s' \<Longrightarrow> before_send tid s' \<Longrightarrow> before_send tid s"
  by (simp add: before_send_def)

lemma after_frame:
  "sv_cur_transaction_num s = sv_cur_transaction_num s' \<Longrightarrow> sent s = sent s' \<Longrightarrow> after_send tid s' \<Longrightarrow> after_send tid s"
  by (simp add: after_send_def)

lemma send_orders:
  assumes "before_send tid s" and "tm_transaction_id m = tid"
  shows "after_send tid (sendTransactionMessages P T pv m s)"
proof -
  have "sv_cur_transaction_num (sendTransactionMessages P T pv m s) = tid"
    using assms(1) by (simp add: before_send_def sendTransactionMessages_def writeAll_def Let_def)
  moreover have "tm_transaction_id x < tid" if "x \<in> set (sent s c)" for x c
    using assms(1) that by (fastforce simp: before_send_def ordered_upto_def)
  moreover have "sorted_wrt (<) (map tm_transaction_id (sent s c))" for c
    using assms(1) by (simp add: before_send_def ordered_upto_def)
  ultimately show ?thesis
    using assms(2) by (auto simp: after_send_def ordered_upto_def sent_messages sorted_wrt_append less_imp_le)
qed

text \<open>Everything that leaves the number and the transactions sent alone.\<close>

definition still :: "int \<times> (chan \<Rightarrow> transaction_msg list) \<Rightarrow> Server \<Rightarrow> bool" where
  "still v s \<longleftrightarrow> (sv_cur_transaction_num s, sent s) = v"

lemma stillI: "(\<And>s. sv_cur_transaction_num (f s) = sv_cur_transaction_num s) \<Longrightarrow> (\<And>s. sent (f s) = sent s) \<Longrightarrow> keeps (still v) (modify f)"
  by (rule keeps_modify) (simp add: still_def)

lemma still_typeMap: "still v s \<Longrightarrow> still v (s\<lparr>sv_typeMap := tm\<rparr>)"
  by (simp add: still_def sent_frame[of "s\<lparr>sv_typeMap := tm\<rparr>" s])

lemma keeps_of_still:
  assumes "\<And>v. keeps (still v) m" and "\<And>s s'. sv_cur_transaction_num s = sv_cur_transaction_num s' \<Longrightarrow> sent s = sent s' \<Longrightarrow> I s' \<Longrightarrow> I s"
  shows "keeps I m"
proof (rule keepsI)
  fix s assume "I s"
  have "still (sv_cur_transaction_num s, sent s) (snd (m s))"
    using assms(1)[of "(sv_cur_transaction_num s, sent s)"] by (simp add: keeps_def still_def)
  with assms(2) \<open>I s\<close> show "I (snd (m s))" by (auto simp: still_def)
qed

lemma sent_field_updates [simp]:
  "sent (s\<lparr>sv_typeMap := a\<rparr>) = sent s" "sent (s\<lparr>sv_cc := b\<rparr>) = sent s" "sent (s\<lparr>sv_id_to_channel := d\<rparr>) = sent s"
  "sent (s\<lparr>sv_key_value := e\<rparr>) = sent s" "sent (s\<lparr>sv_stats := f\<rparr>) = sent s" "sent (s\<lparr>sv_kvstore := g\<rparr>) = sent s"
  "sent (s\<lparr>sv_version_numbers := h\<rparr>) = sent s" "sent (s\<lparr>sv_min_acceptable_version_number := i\<rparr>) = sent s"
  "sent (s\<lparr>sv_version_numbers_timestamps := j\<rparr>) = sent s" "sent (s\<lparr>sv_last_garbage_collect_timestamp := k\<rparr>) = sent s"
  "sent (s\<lparr>sv_cur_transaction_num := n\<rparr>) = sent s"
  by (auto simp: sent_def)

lemma still_fields:
  "still v s \<Longrightarrow> still v (s\<lparr>sv_key_value := e\<rparr>)" "still v s \<Longrightarrow> still v (writeMsg c (SubscriptionIncrease x y p ids t) s)"
  by (simp_all add: still_def) (simp add: writeMsg_def)

lemma still_increase: "keeps (still v) (broadcastSubscriptionIncrease env c k tid ids)"
  by (intro keeps_rules still_typeMap still_fields)

lemma still_growIndex: "keeps (still v) (growIndex env tid k p)"
  unfolding growIndex_def growChannel_def
  by (intro keeps_rules stillI still_increase still_typeMap still_fields; simp add: subscribeIds_def updCC_def)

lemma still_subscribeCreator: "keeps (still v) (subscribeCreator env c tid p)"
  unfolding subscribeCreator_def
  by (intro keeps_rules stillI still_increase still_typeMap; simp add: subscribeIds_def updCC_def)

lemma still_log: "keeps (still v) (logThroughput env ck)"
  unfolding logThroughput_def by (intro keeps_rules stillI still_typeMap; simp)

lemma still_gc: "keeps (still v) (garbage_collect env ck ov)"
  unfolding garbage_collect_def collectVersion_def
  by (intro keeps_rules stillI; simp split: version_key.split; intro conjI allI impI keeps_rules)

lemma still_store: "keeps (still v) (liftKv m)"
  by (simp add: keeps_def liftKv_run still_def)

lemmas keeps_before = keeps_of_still[OF _ before_frame]
lemmas keeps_after = keeps_of_still[OF _ after_frame]

section \<open>The commit sends once\<close>

lemma bump_still:
  "sv_cur_transaction_num (bumpFieldStats F n s) = sv_cur_transaction_num s" "sent (bumpFieldStats F n s) = sent s"
  "sv_cur_transaction_num (bumpTransactionStats ck st s) = sv_cur_transaction_num s" "sent (bumpTransactionStats ck st s) = sent s"
  "sv_cur_transaction_num (stampVersions ks tid t1 s) = sv_cur_transaction_num s" "sent (stampVersions ks tid t1 s) = sent s"
  by (simp_all add: bumpFieldStats_def bumpTransactionStats_def stampVersions_def)

lemma broadcast_order:
  "leadsto (before_send tid) (broadcastCommitted env ck t A R kv0 prior tid) (after_send tid)"
proof -
  let ?msg = "\<lambda>kv A'. \<lparr>tm_writes = kv, tm_set_adds = A', tm_set_removes = R, tm_transaction_id = tid\<rparr>"
  have grow: "leadsto (before_send tid) (foldMl (growIndex env tid) ks p) (before_send tid)" for ks p
    unfolding keeps_leadsto[symmetric] by (intro keeps_rules keeps_before still_growIndex)
  have tail: "leadsto (after_send tid)
     (thenM (modify (bumpTransactionStats ck (t_start t)))
          (thenM (logThroughput env ck) (thenM (garbage_collect env ck None)
           (bindM (gets (\<lambda>s. (\<lambda>c. cc_connectionObject (sv_cc s c)) ` T)) (\<lambda>conns.
            ret ((True, None), tid, conns)))))) (after_send tid)" for T
    unfolding keeps_leadsto[symmetric]
    by (intro keeps_rules keeps_after stillI still_log still_gc; simp add: bump_still)
  have send: "leadsto (before_send tid) (modify (sendTransactionMessages P T prior (?msg kv A'))) (after_send tid)" for P T kv A'
    by (rule leadsto_modify) (simp add: send_orders)
  have "leadsto (before_send tid) (modify (bumpFieldStats F n)) (before_send tid)" for F n
    by (rule leadsto_modify) (simp add: before_send_def bump_still)
  then show ?thesis
    unfolding broadcastCommitted_def announceTransaction_def
    by (intro leadsto_bindM[OF grow] leadsto_prod leadsto_Let leadsto_if leadsto_raise
        leadsto_bindM[where P = "before_send tid" and R = "before_send tid"]
        leadsto_thenM[OF send tail] leadsto_thenM[where P = "before_send tid" and R = "before_send tid"] leadsto_gets)
       (simp_all add: before_after)
qed

lemma commitAccepted_order: "leadsto (before_send tid) (commitAccepted env ck t A R kv0 tid) (after_send tid)"
proof -
  have stamp: "leadsto (before_send tid) (modify (stampVersions ks tid t1)) (before_send tid)" for ks t1
    by (rule leadsto_modify) (simp add: before_send_def bump_still)
  have store: "leadsto (before_send tid) (liftKv m) (before_send tid)" for m :: "(InMemoryPersistence, unit) pyM"
    unfolding keeps_leadsto[symmetric] by (intro keeps_before still_store)
  have prior: "leadsto (before_send tid) (getPriorValues env kv0) (before_send tid)"
    unfolding keeps_leadsto[symmetric] by (intro keeps_rules)
  have tm: "leadsto (before_send tid) (currentTypeMap env) (before_send tid)"
    unfolding keeps_leadsto[symmetric] by (intro keeps_rules) (simp add: before_send_def)
  show ?thesis
    unfolding commitAccepted_def
    by (intro leadsto_bindM[OF prior] leadsto_bindM[OF tm] leadsto_if leadsto_raise
        leadsto_thenM[OF stamp] leadsto_thenM[OF store] broadcast_order)
       (simp_all add: before_after)
qed

lemma keeps_order_commit: "keeps order_inv (commitAndBroadcastNewTransaction env ck source t)"
proof (rule keepsI)
  fix s assume s: "order_inv s"
  let ?tid = "sv_cur_transaction_num s + 1"
  let ?s = "s\<lparr>sv_cur_transaction_num := ?tid\<rparr>"
  let ?J = "before_send ?tid" and ?K = "after_send ?tid"
  have "?J ?s" using s by (simp add: before_send_def order_inv_def)
  have "keeps ?J (case source of None \<Rightarrow> ret () | Some c \<Rightarrow> forM adds (subscribeCreator env c ?tid))" for adds
    by (intro keeps_rules keeps_before still_subscribeCreator)
  then have src: "leadsto ?J (case source of None \<Rightarrow> ret () | Some c \<Rightarrow> forM adds (subscribeCreator env c ?tid)) ?J" for adds
    by (simp only: keeps_leadsto)
  have check: "leadsto ?J (case x of Some k \<Rightarrow> ret (f k) | None \<Rightarrow>
      bindM (gets sv_key_value) (\<lambda>kv0. commitAccepted env ck t A R kv0 ?tid)) ?K" for x f A R
  proof (cases x)
    case None
    then show ?thesis
      using leadsto_bindM[OF leadsto_gets[of ?J sv_key_value] commitAccepted_order[of ?tid env ck t A R]]
      by (simp add: before_after)
  next
    case (Some a)
    then show ?thesis by (simp add: leadsto_def before_after)
  qed
  have "leadsto ?J (assertM b) ?J" for b by (simp add: leadsto_def)
  then have "leadsto ?J (commitWithId env ck source t ?tid) ?K"
    unfolding commitWithId_def
    by (intro leadsto_thenM[where R = ?J] leadsto_Let src leadsto_bindM[OF leadsto_gets] check)
       (simp_all add: before_after)
  with \<open>?J ?s\<close> have "?K (snd (commitWithId env ck source t ?tid ?s))" by (simp add: leadsto_def)
  then show "order_inv (snd (commitAndBroadcastNewTransaction env ck source t s))"
    by (simp add: commitAndBroadcastNewTransaction_def after_send_def order_inv_def)
qed

lemma order_of_still: "(\<And>v. keeps (still v) m) \<Longrightarrow> keeps order_inv m"
  by (erule keeps_of_still) (simp add: order_inv_def)

interpretation order: commit_inv env order_inv for env
proof
  show "core s = core s' \<Longrightarrow> sv_outbox s = sv_outbox s' \<Longrightarrow> order_inv s' \<Longrightarrow> order_inv s" for s s'
    using sent_frame[of s s'] by (simp add: order_inv_def core_def)
  show "\<not> is_transaction msg \<Longrightarrow> order_inv s \<Longrightarrow> order_inv (writeMsg c msg s)" for msg s c
    by (simp add: order_inv_def) (simp add: writeMsg_def)
qed (intro keeps_order_commit order_of_still still_store still_gc)+

lemma order_run: "server_run env s0 H p \<Longrightarrow> order_inv s0 \<Longrightarrow> order_inv (fst p)"
proof (induction rule: server_run.induct)
  case (step H p p')
  then show ?case using order.step_keeps by blast
qed simp_all

section \<open>Properties\<close>

text \<open>C4. In every run, whatever operations interleave and whichever of them raise, each channel
  has been sent transactions with strictly increasing numbers, none above the server's counter:
  no client sees a commit twice or out of order.\<close>

theorem transactions_in_order:
  assumes "server_run env s0 H (s, j)" and "\<forall>c. sv_outbox s0 c = []"
  shows "sorted_wrt (<) (map tm_transaction_id (sent s c)) \<and>
    (\<forall>m \<in> set (sent s c). tm_transaction_id m \<le> sv_cur_transaction_num s)"
proof -
  have "order_inv s0" using assms(2) by (simp add: order_inv_def ordered_upto_def sent_def)
  with order_run[OF assms(1)] show ?thesis by (simp add: order_inv_def ordered_upto_def)
qed

theorem transactions_in_order_witness:
  "sorted_wrt (<) (map tm_transaction_id (sent demo_server2 2))"
proof -
  have "server_step demo_env (demo_server, None) (demo_server2, None)"
    unfolding demo_server2_def by (rule server_step.message[OF prod.collapse[symmetric]])
  with server_run.start have "server_run demo_env demo_server {} (demo_server2, None)" by (rule server_run.step)
  from transactions_in_order[OF this] show ?thesis by (simp add: demo_server_def blankServer_def)
qed

end
