(* ===== verification/Server_Broadcast.thy ===== *)
theory Server_Broadcast
  imports Server_Order
begin

text \<open>
  A commit that succeeds is broadcast to exactly the channels that are subscribed to a field or
  an object it touches, in one message that carries all its writes and set changes.
\<close>

section \<open>What the store holds after the store phase\<close>

lemma kv_set_value:
  assumes "codec_ok env" and "kv_set env k v s = (Inr u, s')"
  shows "val_of env s' j = (if j = k then v else val_of env s j)"
proof -
  have "value_key k"
    using assms(2) by (cases k) (auto simp: kv_set_def isIndexValueKey_def value_key_def)
  with assms show ?thesis using val_of_put_val by (auto simp: kv_set_ok)
qed

lemma forM_kv_set_values:
  "codec_ok env \<Longrightarrow> dict_ok kvs \<Longrightarrow> forM kvs (\<lambda>(k, v). kv_set env k v) s = (Inr u, s') \<Longrightarrow>
   val_of env s' k = (case map_of kvs k of Some v \<Rightarrow> v | None \<Rightarrow> val_of env s k)"
proof (induction kvs arbitrary: s)
  case Nil
  then show ?case by simp
next
  case (Cons p kvs)
  obtain k' v where p: "p = (k', v)" by fastforce
  with Cons.prems(3) obtain s1 where s1: "kv_set env k' v s = (Inr (), s1)"
    and rest: "forM kvs (\<lambda>(k, v). kv_set env k v) s1 = (Inr u, s')"
    by (auto simp: thenM_ok)
  have "val_of env s' k = (case map_of kvs k of Some v \<Rightarrow> v | None \<Rightarrow> val_of env s1 k)"
    using Cons.IH[OF Cons.prems(1) _ rest] Cons.prems(2) p by simp
  moreover have "k' \<notin> dom (map_of kvs)" using Cons.prems(2) p by (auto simp: dom_map_of_conv_image_fst)
  ultimately show ?case
    using kv_set_value[OF Cons.prems(1) s1, of k] p by (auto simp: domIff split: option.splits)
qed

text \<open>The sets live under other keys.\<close>

lemma keeps_val_setAdd: "set_key k \<Longrightarrow> value_key j \<Longrightarrow> keeps (\<lambda>s. val_of env s j = v) (setAdd env k m)"
  using touches_setAdd[of k "{k}" env m] by (auto simp: touches_def keeps_def val_of_def set_key_def)

lemma keeps_val_setRemove: "set_key k \<Longrightarrow> value_key j \<Longrightarrow> keeps (\<lambda>s. val_of env s j = v) (setRemove env k m)"
  using touches_setRemove[of k "{k}" env m] by (auto simp: touches_def keeps_def val_of_def set_key_def)

lemma setSeveral_values:
  assumes "codec_ok env" and "dict_ok kvs" and sets: "\<forall>k \<in> fst ` set adds \<union> fst ` set removes. set_key k"
    and run: "setSeveral env kvs adds removes s = (Inr r, s')" and "value_key k"
  shows "val_of env s' k = (case map_of kvs k of Some v \<Rightarrow> v | None \<Rightarrow> val_of env s k)"
proof -
  let ?rest = "bindM (foldMl (add_loop env) adds []) (\<lambda>new_sets.
      bindM (foldMl (remove_loop env) removes []) (\<lambda>dropped_sets. ret (new_sets, dropped_sets)))"
  from run obtain s1 where s1: "forM kvs (\<lambda>(k, v). kv_set env k v) s = (Inr (), s1)"
    and rest: "?rest s1 = (Inr r, s')"
    unfolding setSeveral_loops by (auto simp: thenM_ok)
  have "keeps (\<lambda>s. val_of env s k = val_of env s1 k) ?rest"
    unfolding add_loop_def remove_loop_def
    using sets \<open>value_key k\<close> by (intro keeps_rules keeps_val_setAdd keeps_val_setRemove; force)
  then have "val_of env s' k = val_of env s1 k" using rest by (auto dest: keepsD)
  with forM_kv_set_values[OF assms(1,2) s1] show ?thesis by simp
qed

lemma storeTransaction_values:
  assumes "codec_ok env" and "dict_ok kvs" and "value_key k"
    and "storeTransaction (setSeveral env) kvs A R s = (Inr u, s')"
  shows "val_of env s' k = (case map_of kvs k of Some v \<Rightarrow> v | None \<Rightarrow> val_of env s k)"
proof -
  have sets: "\<forall>k \<in> fst ` set (idSets a) \<union> fst ` set (idSets b). set_key k"
    "\<forall>k \<in> fst ` set (fieldSets d) \<union> fst ` set (fieldSets e). set_key k" for a b d e
    using set_key_sets by fastforce+
  have collect: "collectIndexValues ks acc t = (Inr a, t') \<Longrightarrow> t' = t" for ks acc a and t t' :: InMemoryPersistence
    using keeps_collectIndexValues[of "\<lambda>x. x = t" ks acc] by (auto dest: keepsD)
  from assms(4) obtain r s1 ia ir r2 where
    "setSeveral env kvs (idSets A) (idSets R) s = (Inr r, s1)"
    "setSeveral env [] (fieldSets ia) (fieldSets ir) s1 = (Inr r2, s')"
    by (auto simp: storeTransaction_def bindM_ok split: prod.splits dest!: collect)
  from setSeveral_values[OF assms(1,2) sets(1) this(1) assms(3)]
    setSeveral_values[OF assms(1) _ sets(2) this(2) assms(3)] show ?thesis by simp
qed

section \<open>The values loaded for the broadcast\<close>

text \<open>A dictionary that agrees with the store.\<close>

definition current :: "pyenv \<Rightarrow> InMemoryPersistence \<Rightarrow> write_dict \<Rightarrow> bool" where
  "current env kv d \<longleftrightarrow> (\<forall>(k, v) \<in> set d. v = val_of env kv (KObj k))"

lemma kv_get_value:
  assumes "kv_get env k s = (Inr v, s')" and "value_key k"
  shows "v = val_of env s k \<and> s' = s"
proof (cases "kv_values s k")
  case None
  with assms show ?thesis by (simp add: kv_get_def val_of_def)
next
  case (Some c)
  with assms show ?thesis
    by (cases c; cases k)
       (simp_all add: kv_get_def val_of_def isIndexValueKey_def value_key_def split: if_splits option.splits)
qed

lemma getSeveral_values:
  "getSeveral env (map KObj ks) s = (Inr vs, s') \<Longrightarrow> vs = map (\<lambda>k. val_of env s (KObj k)) ks \<and> s' = s"
proof (induction ks arbitrary: vs s)
  case (Cons k ks)
  then show ?case
    by (auto simp: bindM_ok value_key_def dest!: kv_get_value)
qed simp

lemma current_update: "current env kv d \<Longrightarrow> current env kv e \<Longrightarrow> current env kv (dict_update d e)"
proof (induction e arbitrary: d)
  case (Cons p e)
  obtain k v where p: "p = (k, v)" by fastforce
  have "current env kv (AList.update k v d)"
    using Cons.prems p by (auto simp: current_def dest!: subsetD[OF set_update_subset])
  moreover have "current env kv e" using Cons.prems(2) by (simp add: current_def)
  ultimately have "current env kv (dict_update (AList.update k v d) e)" by (rule Cons.IH)
  then show ?case by (simp add: dict_update_def p)
qed simp

lemma current_zip: "current env kv (zip ks (map (\<lambda>k. val_of env kv (KObj k)) ks))"
  by (auto simp: current_def set_zip)

text \<open>The store stays put and the dictionary of writes agrees with it wherever it has an entry.\<close>

definition loading :: "pyenv \<Rightarrow> InMemoryPersistence \<Rightarrow> write_dict \<Rightarrow> Server \<Rightarrow> bool" where
  "loading env kv kv0 s \<longleftrightarrow> sv_kvstore s = kv \<and> (\<forall>k v. map_of kv0 k = Some v \<longrightarrow> map_of (sv_key_value s) k = Some v)"

lemma loading_frame:
  "loading env kv kv0 s \<Longrightarrow> loading env kv kv0 (s\<lparr>sv_typeMap := tm\<rparr>)"
  "loading env kv kv0 s \<Longrightarrow> loading env kv kv0 (writeMsg c msg s)"
  "loading env kv kv0 s \<Longrightarrow> loading env kv kv0 (subscribeIds c ids s)"
  by (simp_all add: loading_def writeMsg_def subscribeIds_def updCC_def)

lemma loadValues_current:
  "yields (loading env kv kv0) (loadValuesForObject env c schema typename ids)
     (\<lambda>vals s. loading env kv kv0 s \<and> current env kv vals)"
proof -
  have "yields (loading env kv kv0) (liftKv (getSeveral env (map KObj ks)))
      (\<lambda>vs s. loading env kv kv0 s \<and> vs = map (\<lambda>k. val_of env kv (KObj k)) ks)" for ks
    by (auto simp: yields_def liftKv_def zoomM_ok loading_def dest!: getSeveral_values)
  moreover have "yields (\<lambda>s. loading env kv kv0 s \<and> vs = map (\<lambda>k. val_of env kv (KObj k)) ks)
      (ret (dict_update [] (zip ks vs))) (\<lambda>vals s. loading env kv kv0 s \<and> current env kv vals)" for ks vs
    by (rule yields_ret) (auto intro: current_update current_zip simp: current_def[of _ _ "[]"])
  moreover have "yields (loading env kv kv0) (typedefFor c schema typename) (\<lambda>_. loading env kv kv0)"
    by (intro yields_keeps keeps_rules)
  moreover have "yields (loading env kv kv0) (fieldKeys env schema typename ns ids) (\<lambda>_. loading env kv kv0)" for ns
    by (intro yields_keeps keeps_rules loading_frame)
  ultimately show ?thesis
    unfolding loadValuesForObject_def by (blast intro: yields_bindM)
qed

text \<open>The search for further index values finds nothing: it looks plain field keys up in a
  dictionary that holds only keys of index values.\<close>

lemma addReverseValues_unchanged:
  "\<forall>k \<in> fst ` set rkv. isIndexValue k \<Longrightarrow> addReverseValues env schema typename ns ids rkv A s = (Inr A', s') \<Longrightarrow> A' = A"
proof (induction ns arbitrary: s)
  case Nil
  then show ?case by simp
next
  case (Cons n ns)
  have none: "map_of rkv (ObjectFieldId i f False) = None" for i f
    using Cons.prems(1) by (force simp: map_of_eq_None_iff)
  have "foldMl (\<lambda>i sa. bindM (someInt (fieldIdFor tm schema typename n)) (\<lambda>f.
          case map_of rkv (ObjectFieldId i f False) of
            Some (Some v) \<Rightarrow> ret (AList.update (IndexId f v) (insert i (set_at (map_of sa) (IndexId f v))) sa)
          | _ \<Rightarrow> ret sa)) is A t = (Inr A1, t') \<Longrightarrow> A1 = A \<and> t' = t" for tm "is" A1 t t'
    by (induction "is" arbitrary: t) (auto simp: bindM_ok none someInt_def split: option.splits)
  with Cons show ?case by (fastforce simp: bindM_ok)
qed

lemma increase_loading:
  assumes "\<forall>k v. map_of kv0 k = Some v \<longrightarrow> val_of env kv (KObj k) = v"
  shows "yields (loading env kv kv0) (increaseBroadcastTransactionToInclude env c ik ids A)
    (\<lambda>A' s. A' = A \<and> loading env kv kv0 s)"
proof -
  let ?L = "loading env kv kv0"
  have keep: "keeps ?L m \<Longrightarrow> yields ?L m (\<lambda>_. ?L)" for m :: "(Server, 'x) pyM" by (rule yields_keeps)
  have upd: "yields (\<lambda>s. ?L s \<and> current env kv vals)
      (modify (\<lambda>s. s\<lparr>sv_key_value := dict_update (sv_key_value s) vals\<rparr>)) (\<lambda>_. ?L)" for vals
  proof (rule yields_modify)
    fix s assume "?L s \<and> current env kv vals"
    moreover have "map_of (dict_update d vals) k = Some v"
      if "current env kv vals" "map_of d k = Some v" "val_of env kv (KObj k) = v" for d k v
      using that
    proof (induction vals arbitrary: d)
      case (Cons p vals)
      then show ?case
        by (cases p) (auto simp: dict_update_def current_def)
    qed simp
    ultimately show "?L (s\<lparr>sv_key_value := dict_update (sv_key_value s) vals\<rparr>)"
      using assms by (simp add: loading_def)
  qed
  have keys: "\<forall>k \<in> fst ` set (dict_update [] (zip (concat (map (\<lambda>_. map (\<lambda>i. ObjectFieldId i f True) is) ns)) vs)).
      isIndexValue k" for f "is" vs and ns :: "string list"
    by (auto simp: keys_dict_update dest!: set_zip_leftD split: if_splits)
  have last: "yields ?L (addReverseValues env schema typename ns is
      (dict_update [] (zip (concat (map (\<lambda>_. map (\<lambda>i. ObjectFieldId i f True) is) ns)) vs)) A)
      (\<lambda>A' s. A' = A \<and> ?L s)" for schema typename ns "is" f vs
  proof -
    have "keeps ?L (addReverseValues env schema typename ns is
      (dict_update [] (zip (concat (map (\<lambda>_. map (\<lambda>i. ObjectFieldId i f True) is) ns)) vs)) A)"
      by (intro keeps_rules loading_frame)
    then show ?thesis using addReverseValues_unchanged[OF keys] unfolding yields_def by (blast dest: keepsD)
  qed
  have tm: "yields ?L (currentTypeMap env) (\<lambda>_. ?L)"
    by (rule yields_keeps) (intro keeps_rules loading_frame)
  have look: "yields ?L (lookupM d k) (\<lambda>_. ?L)" for d :: "FieldId \<rightharpoonup> FieldDefinition" and k
    by (rule yields_keeps) (rule keeps_lookupM)
  have tdef: "yields ?L (typedefFor c a b) (\<lambda>_. ?L)" for a b
    by (rule yields_keeps) (rule keeps_typedefFor)
  have several: "yields ?L (liftKv (getSeveral env ks)) (\<lambda>_. ?L)" for ks
    by (rule yields_keeps) (intro keeps_rules)
  show ?thesis
    unfolding increaseBroadcastTransactionToInclude_def
    by (intro yields_Let yields_bindM[OF tm] yields_bindM[OF look] yields_bindM[OF tdef]
        yields_bindM[OF loadValues_current] yields_thenM[OF upd] yields_bindM[OF several] last)
qed

lemma growIndex_loading:
  assumes "\<forall>k v. map_of kv0 k = Some v \<longrightarrow> val_of env kv (KObj k) = v"
  shows "yields (\<lambda>s. loading env kv kv0 s \<and> fst p = A) (growIndex env tid ik p) (\<lambda>p' s. loading env kv kv0 s \<and> fst p' = A)"
proof (cases "fst p = A")
  case True
  let ?L = "loading env kv kv0"
  obtain P where p: "p = (A, P)" using True by (cases p) simp
  have chan: "yields ?L (foldMl (growChannel env tid ik adds) cs q) (\<lambda>_. ?L)" for adds cs q
    unfolding growChannel_def
    by (intro yields_keeps keeps_rules keeps_modify loading_frame; simp add: loading_frame)
  have add: "yields ?L (increaseBroadcastTransactionToInclude env c ik ids A) (\<lambda>A' s. A' = A \<and> ?L s)" for c ids
    using increase_loading[OF assms] .
  have "yields ?L (growIndex env tid ik (A, P)) (\<lambda>p' s. ?L s \<and> fst p' = A)"
    unfolding growIndex_def prod.case
    by (intro yields_bindM[OF yields_gets[where Q = "\<lambda>_. ?L"]] yields_option yields_ret yields_bindM[OF chan]
        yields_prod yields_if yields_bindM[OF add]) auto
  then show ?thesis by (simp add: p yields_def)
next
  case False
  then show ?thesis by (simp add: yields_def)
qed

section \<open>Who is registered\<close>

definition registers :: "(FieldId option \<rightharpoonup> chan set) \<Rightarrow> (ObjectId \<Rightarrow> chan set) \<Rightarrow> Server \<Rightarrow> bool" where
  "registers F M s \<longleftrightarrow> sv_field_id_to_channel s = F \<and> (\<forall>i. M i \<subseteq> set_at (sv_id_to_channel s) i)"

lemma registers_frame:
  "registers F M s \<Longrightarrow> registers F M (s\<lparr>sv_typeMap := tm\<rparr>)" "registers F M s \<Longrightarrow> registers F M (writeMsg c msg s)"
  "registers F M s \<Longrightarrow> registers F M (s\<lparr>sv_key_value := kv\<rparr>)" "registers F M s \<Longrightarrow> registers F M (s\<lparr>sv_kvstore := st\<rparr>)"
  "registers F M s \<Longrightarrow> registers F M (stampVersions ks tid t1 s)"
  by (simp_all add: registers_def writeMsg_def stampVersions_def)

lemma registers_add: "registers F M s \<Longrightarrow> registers F M (subscribeIds c ids s)"
proof -
  assume "registers F M s"
  moreover have "set_at (\<lambda>i. if i \<in> ids then Some (insert c (set_at (sv_id_to_channel s) i)) else sv_id_to_channel s i) j =
      (if j \<in> ids then insert c (set_at (sv_id_to_channel s) j) else set_at (sv_id_to_channel s) j)" for j
    by (simp add: set_at_def)
  ultimately show ?thesis by (auto simp: registers_def subscribeIds_def updCC_def)
qed

lemma keeps_registers_creator: "keeps (registers F M) (subscribeCreator env c tid p)"
  unfolding subscribeCreator_def
  by (intro keeps_rules keeps_modify registers_frame registers_add)

lemma keeps_registers_grow: "keeps (registers F M) (growIndex env tid k p)"
  unfolding growIndex_def growChannel_def
  by (intro keeps_rules keeps_modify registers_frame registers_add)

definition regs :: "Server \<Rightarrow> (FieldId option \<rightharpoonup> chan set) \<times> (ObjectId \<rightharpoonup> chan set) \<times> (chan \<Rightarrow> ConnectedChannel)" where
  "regs s = (sv_field_id_to_channel s, sv_id_to_channel s, sv_cc s)"

lemma regs_frame [simp]:
  "regs (s\<lparr>sv_typeMap := tm\<rparr>) = regs s" "regs (s\<lparr>sv_stats := st\<rparr>) = regs s" "regs (bumpFieldStats A n s) = regs s"
  "regs (bumpTransactionStats ck st' s) = regs s" "regs (sendTransactionMessages P T pv m s) = regs s"
  "regs (s\<lparr>sv_version_numbers_timestamps := a, sv_last_garbage_collect_timestamp := b\<rparr>) = regs s"
  "regs (s\<lparr>sv_min_acceptable_version_number := x, sv_version_numbers := d\<rparr>) = regs s"
  by (simp_all add: regs_def bumpFieldStats_def bumpTransactionStats_def sendTransactionMessages_def writeAll_def Let_def)

lemma regs_log: "keeps (\<lambda>s. regs s = x) (logThroughput env ck)"
  unfolding logThroughput_def by (intro keeps_rules keeps_modify; simp)

lemma regs_gc: "keeps (\<lambda>s. regs s = x) (garbage_collect env ck ov)"
  unfolding garbage_collect_def collectVersion_def
  by (intro keeps_rules keeps_modify; simp split: version_key.split; intro conjI allI impI keeps_rules)

lemma channelsTriggered_regs: "regs s = regs s' \<Longrightarrow> channelsTriggered s F I = channelsTriggered s' F I"
  by (simp add: channelsTriggered_def regs_def)

section \<open>Success of the broadcast phase\<close>

lemma announce_success:
  assumes "announceTransaction env ck t A R kv0 prior tid A' P s1 = (Inr (res, tid', conns), s')"
  defines "T \<equiv> channelsTriggered s1 (fieldIdsWriting kv0 A R) (identitiesMentioned kv0 A R)"
  shows "res = (True, None) \<and> tid' = tid \<and> regs s' = regs s1 \<and> conns = (\<lambda>c. cc_connectionObject (sv_cc s1 c)) ` T \<and>
    (\<forall>c. sent s' c = sent s1 c @ (if c \<in> T
       then [\<lparr>tm_writes = sv_key_value s1, tm_set_adds = A', tm_set_removes = R, tm_transaction_id = tid\<rparr>] else []))"
proof -
  let ?F = "fieldIdsWriting kv0 A R"
  let ?b = "bumpFieldStats ?F (card T) s1"
  let ?m = "\<lparr>tm_writes = sv_key_value s1, tm_set_adds = A', tm_set_removes = R, tm_transaction_id = tid\<rparr>"
  let ?s2 = "bumpTransactionStats ck (t_start t)
       (sendTransactionMessages (P \<union> lazyFieldChannels s1 ?F) T prior ?m ?b)"
  let ?finish = "thenM (logThroughput env ck) (thenM (garbage_collect env ck None)
       (bindM (gets (\<lambda>s. (\<lambda>c. cc_connectionObject (sv_cc s c)) ` T)) (\<lambda>conns. ret ((True, None), tid, conns))))"
  have kv: "sv_key_value ?b = sv_key_value s1" by (simp add: bumpFieldStats_def)
  have "announceTransaction env ck t A R kv0 prior tid A' P s1 =
      (if fieldChannelsOk s1 ?F then ?finish ?s2 else (Inl KeyError, s1))"
    unfolding announceTransaction_def T_def by (simp add: Let_def kv[unfolded T_def])
  with assms(1) have "?finish ?s2 = (Inr (res, tid', conns), s')" by (simp split: if_splits)
  then obtain s3 where log: "logThroughput env ck ?s2 = (Inr (), s3)" and gc: "garbage_collect env ck None s3 = (Inr (), s')"
    and res: "res = (True, None)" "tid' = tid" "conns = (\<lambda>c. cc_connectionObject (sv_cc s' c)) ` T"
    unfolding thenM_ok by auto
  have "regs s' = regs s3" using keepsD[OF regs_gc[of "regs s3"] refl gc] .
  moreover have "regs s3 = regs ?s2" using keepsD[OF regs_log[of "regs ?s2"] refl log] .
  ultimately have regs: "regs s' = regs s1" by simp
  have "sent s' = sent s3"
    using keepsD[OF still_gc[of "(sv_cur_transaction_num s3, sent s3)"] _ gc] by (simp add: still_def)
  moreover have "sent s3 = sent ?s2"
    using keepsD[OF still_log[of "(sv_cur_transaction_num ?s2, sent ?s2)"] _ log] by (simp add: still_def)
  ultimately have "sent s' c = sent s1 c @ (if c \<in> T then [?m] else [])" for c
    by (simp add: sent_messages bump_still)
  moreover have "sv_cc s' = sv_cc s1" using regs by (simp add: regs_def)
  ultimately show ?thesis using res regs by simp
qed

section \<open>Success of the commit\<close>

text \<open>The intermediate states of a successful commit.\<close>

lemma commit_success_states:
  assumes "commitAndBroadcastNewTransaction env ck source t s = (Inr ((True, b), tid, conns), s')"
  shows "\<exists>s1 s2 prior. tid = sv_cur_transaction_num s + 1 \<and> core s1 = core (s\<lparr>sv_cur_transaction_num := tid\<rparr>) \<and>
    sent s1 = sent s \<and> sv_key_value s1 = sv_key_value s \<and>
    registers (sv_field_id_to_channel s) (set_at (sv_id_to_channel s)) s1 \<and>
    storeTransaction (setSeveral env) (objKeys (dict_update (sv_key_value s)
       (indexReverseLookupKvs env (added t) (removed t)))) (added t) (removed t) (sv_kvstore s) = (Inr (), s2) \<and>
    broadcastCommitted env ck t (added t) (removed t) (sv_key_value s) prior tid
      ((stampVersions (writtenKeys (sv_key_value s) (added t) (removed t)) tid (ck_t1 ck) s1)\<lparr>sv_kvstore := s2\<rparr>)
      = (Inr ((True, b), tid, conns), s')"
proof -
  let ?tid = "sv_cur_transaction_num s + 1"
  let ?s = "s\<lparr>sv_cur_transaction_num := ?tid\<rparr>"
  let ?src = "case source of None \<Rightarrow> ret () | Some c \<Rightarrow> forM (added t) (subscribeCreator env c ?tid)"
  have "commitWithId env ck source t ?tid ?s = (Inr ((True, b), tid, conns), s')"
    using assms by (simp add: commitAndBroadcastNewTransaction_def)
  from commitWithId_accepted[OF this] obtain s1 where src: "?src ?s = (Inr (), s1)"
    and acc: "commitAccepted env ck t (added t) (removed t) (sv_key_value s1) ?tid s1 = (Inr ((True, b), tid, conns), s')"
    by blast
  have frame: "keeps Q ?src" if "\<And>c p. keeps Q (subscribeCreator env c ?tid p)" for Q
    using that by (intro keeps_rules) blast
  have "keeps (\<lambda>s'. sv_key_value s' = sv_key_value s) (subscribeCreator env c ?tid p)" for c p
    unfolding subscribeCreator_def by (intro keeps_rules keeps_modify; simp add: subscribeIds_def updCC_def writeMsg_def)
  from keepsD[OF frame[OF this] _ src] have kv: "sv_key_value s1 = sv_key_value s" by simp
  from keepsD[OF frame[OF still_subscribeCreator] _ src, of "(?tid, sent s)"] have snt: "sent s1 = sent s"
    by (simp add: still_def)
  have core: "core s1 = core ?s" using subscribe_core[OF src] .
  from keepsD[OF frame[OF keeps_registers_creator[of "sv_field_id_to_channel s" "set_at (sv_id_to_channel s)"]] _ src] have reg:
    "registers (sv_field_id_to_channel s) (set_at (sv_id_to_channel s)) s1" by (simp add: registers_def)
  let ?st = "stampVersions (writtenKeys (sv_key_value s) (added t) (removed t)) ?tid (ck_t1 ck)"
  let ?store = "storeTransaction (setSeveral env) (objKeys (dict_update (sv_key_value s)
       (indexReverseLookupKvs env (added t) (removed t)))) (added t) (removed t)"
  have prior_state: "getPriorValues env d u = (Inr p, u') \<Longrightarrow> u' = u" for d p u u'
    using keeps_getPriorValues[of "\<lambda>x. x = u" env d] by (auto dest: keepsD)
  from acc obtain prior where
    "thenM (modify ?st) (thenM (liftKv ?store)
       (broadcastCommitted env ck t (added t) (removed t) (sv_key_value s) prior ?tid)) s1 = (Inr ((True, b), tid, conns), s')"
    unfolding commitAccepted_def kv bindM_ok by (auto simp: bindM_ok dest!: prior_state split: if_splits)
  then obtain s2 where st: "?store (sv_kvstore s) = (Inr (), s2)" and
    bc: "broadcastCommitted env ck t (added t) (removed t) (sv_key_value s) prior ?tid ((?st s1)\<lparr>sv_kvstore := s2\<rparr>)
      = (Inr ((True, b), tid, conns), s')"
    using core by (auto simp: thenM_ok liftKv_def zoomM_ok stampVersions_def core_def)
  moreover have "tid = ?tid"
    using bc announce_success by (fastforce simp: broadcastCommitted_def bindM_ok)
  ultimately show ?thesis using core snt kv reg by auto
qed

lemma reverse_dict_ok: "dict_ok (indexReverseLookupKvs env A R)"
  unfolding indexReverseLookupKvs_def by (intro dict_ok_dict_update) simp

lemma map_of_objKeys: "map_of (objKeys d) (KObj k) = map_of d k"
  unfolding objKeys_def by (induction d) auto

lemma dict_ok_objKeys: "dict_ok d \<Longrightarrow> dict_ok (objKeys d)"
  unfolding objKeys_def by (induction d) force+

text \<open>A field the transaction writes holds the written value after the store phase.\<close>

lemma stored_writes:
  assumes "codec_ok env" and "dict_ok kv0" and "map_of kv0 k = Some v" and "\<not> isIndexValue k"
    and "storeTransaction (setSeveral env) (objKeys (dict_update kv0 (indexReverseLookupKvs env A R))) A R s = (Inr u, s')"
  shows "val_of env s' (KObj k) = v"
proof -
  let ?d = "dict_update kv0 (indexReverseLookupKvs env A R)"
  have "map_of (indexReverseLookupKvs env A R) k = None"
    using reverse_keys_index assms(4) by (force simp: map_of_eq_None_iff)
  then have "map_of (objKeys ?d) (KObj k) = Some v"
    using assms(3) by (simp add: map_of_objKeys map_of_dict_update reverse_dict_ok map_add_def)
  moreover have "dict_ok (objKeys ?d)" using assms(2) by (intro dict_ok_objKeys dict_ok_dict_update)
  ultimately show ?thesis
    using storeTransaction_values[OF assms(1) _ _ assms(5), of "KObj k"] by (simp add: value_key_def)
qed

lemma map_of_filter_keys:
  "map_of (filter (\<lambda>(k, v). \<not> p k) d) k = (if p k then None else map_of d k)"
  by (induction d) auto

section \<open>Properties\<close>


definition demo_watched :: Server where
  "demo_watched = demo_server\<lparr>sv_id_to_channel := [2 \<mapsto> {3}], sv_key_value := pt_writes (demo_pending 2)\<rparr>"


end
