(* ===== verification/Server_Store.thy ===== *)
theory Server_Store
  imports Server_Broadcast
begin

text \<open>
  What a commit does to the database, and what a refused one leaves alone. The store is seen
  through the contract \<open>kv_persistence\<close>; the index sets, their metadata and the reverse index
  (from an object and a field back to the value it is indexed under) stay in agreement.
\<close>

section \<open>The store after a successful commit\<close>

lemma keeps_store_grow: "keeps (\<lambda>s. P (sv_kvstore s)) (growIndex env tid k p)"
  using keeps_core_growIndex[of "\<lambda>c. P (fst c)" env tid k p] by (simp add: core_def)

lemma keeps_store_log: "keeps (\<lambda>s. P (sv_kvstore s)) (logThroughput env ck)"
  using keeps_core_logThroughput[of "\<lambda>c. P (fst c)" env ck] by (simp add: core_def)

lemma keeps_store_gc: "keeps (\<lambda>s. P (sv_kvstore s)) (garbage_collect env ck ov)"
  unfolding garbage_collect_def collectVersion_def
  by (intro keeps_rules keeps_modify; simp split: version_key.split; intro conjI allI impI keeps_rules)

lemma keeps_store_broadcast: "keeps (\<lambda>s. P (sv_kvstore s)) (broadcastCommitted env ck t A R kv0 prior tid)"
  unfolding broadcastCommitted_def announceTransaction_def
  by (intro keeps_rules keeps_modify keeps_store_grow keeps_store_log keeps_store_gc;
      simp add: bumpFieldStats_def bumpTransactionStats_def sendTransactionMessages_def writeAll_def Let_def)

lemma commit_store:
  assumes "commitAndBroadcastNewTransaction env ck source t s = (Inr ((True, b), tid, conns), s')"
  shows "storeTransaction (setSeveral env) (objKeys (dict_update (sv_key_value s)
       (indexReverseLookupKvs env (added t) (removed t)))) (added t) (removed t) (sv_kvstore s) = (Inr (), sv_kvstore s')"
proof -
  from commit_success_states[OF assms] obtain s1 st prior where
    store: "storeTransaction (setSeveral env) (objKeys (dict_update (sv_key_value s)
       (indexReverseLookupKvs env (added t) (removed t)))) (added t) (removed t) (sv_kvstore s) = (Inr (), st)" and
    bc: "broadcastCommitted env ck t (added t) (removed t) (sv_key_value s) prior tid
      ((stampVersions (writtenKeys (sv_key_value s) (added t) (removed t)) tid (ck_t1 ck) s1)\<lparr>sv_kvstore := st\<rparr>)
      = (Inr ((True, b), tid, conns), s')" by blast
  from keepsD[OF keeps_store_broadcast[of "\<lambda>x. x = st"] _ bc] have "sv_kvstore s' = st" by simp
  with store show ?thesis by simp
qed

section \<open>The reverse index\<close>

text \<open>For every index set, the reverse index of its members names it, and only those.\<close>

definition reverse_ok :: "pyenv \<Rightarrow> InMemoryPersistence \<Rightarrow> bool" where
  "reverse_ok env kv \<longleftrightarrow> (\<forall>f v i. SVInt i \<in> set_of kv (KIx (IndexId f v)) \<longleftrightarrow>
     val_of env kv (KObj (ObjectFieldId i f True)) = Some v)"

text \<open>The set changes of a transaction that moves objects between index values: an object enters at
  most one value of a field, leaves the one it was under, and does not leave the one it enters.\<close>

definition moves_ok :: "(KeyType \<Rightarrow> SetValue set) \<Rightarrow> set_dict \<Rightarrow> set_dict \<Rightarrow> bool" where
  "moves_ok S A R \<longleftrightarrow> (\<forall>f v i. i \<in> set_at (map_of A) (IndexId f v) \<longrightarrow>
     i \<notin> set_at (map_of R) (IndexId f v) \<and>
     (\<forall>w. i \<in> set_at (map_of A) (IndexId f w) \<longrightarrow> w = v) \<and>
     (\<forall>w. SVInt i \<in> S (KIx (IndexId f w)) \<longrightarrow> i \<in> set_at (map_of R) (IndexId f w)))"

lemma map_of_dict_update_last:
  "map_of (dict_update d e) k = (case map_of (rev e) k of Some v \<Rightarrow> Some v | None \<Rightarrow> map_of d k)"
proof (induction e arbitrary: d)
  case (Cons p e)
  obtain k' v where p: "p = (k', v)" by fastforce
  have "map_of (dict_update d (p # e)) k = (case map_of (rev e) k of Some v \<Rightarrow> Some v | None \<Rightarrow> map_of (AList.update k' v d) k)"
    using Cons.IH[of "AList.update k' v d"] by (simp add: dict_update_def p)
  then show ?case by (simp add: p map_add_def split: option.splits)
qed simp

lemma set_at_member:
  assumes "dict_ok D"
  shows "(\<exists>ids. (k, ids) \<in> set D \<and> j \<in> ids) \<longleftrightarrow> j \<in> set_at (map_of D) k"
proof
  assume "\<exists>ids. (k, ids) \<in> set D \<and> j \<in> ids"
  then obtain ids where "(k, ids) \<in> set D" "j \<in> ids" by blast
  with set_at_map_of_entry[OF assms this(1)] show "j \<in> set_at (map_of D) k" by simp
next
  assume "j \<in> set_at (map_of D) k"
  then show "\<exists>ids. (k, ids) \<in> set D \<and> j \<in> ids"
    by (auto simp: set_at_def dest: map_of_SomeD split: option.splits)
qed

lemma map_of_rev_mem:
  "map_of (rev d) k = Some x \<Longrightarrow> (k, x) \<in> set d" "map_of (rev d) k = None \<Longrightarrow> (k, x) \<notin> set d"
  by (metis map_of_SomeD set_rev) (metis map_of_eq_None_iff set_rev fst_conv image_eqI)

lemma concat_pairs:
  "(k, x) \<in> set (concat (map (\<lambda>(a, ids). map (\<lambda>i. (g i a, h a)) (it ids)) D)) \<longleftrightarrow>
    (\<exists>a ids i. (a, ids) \<in> set D \<and> i \<in> set (it ids) \<and> k = g i a \<and> x = h a)"
  by (simp add: image_iff case_prod_unfold) force

text \<open>The entries the code writes into the reverse index.\<close>

lemma reverse_entries:
  assumes "iter_ok env" and "\<forall>(k, ids) \<in> set A \<union> set R. finite ids" and "dict_ok A" and "dict_ok R"
    and uniq: "\<forall>v w. i \<in> set_at (map_of A) (IndexId f v) \<and> i \<in> set_at (map_of A) (IndexId f w) \<longrightarrow> v = w"
  shows "map_of (indexReverseLookupKvs env A R) (ObjectFieldId i f True) =
    (if \<exists>v. i \<in> set_at (map_of A) (IndexId f v) then Some (Some (THE v. i \<in> set_at (map_of A) (IndexId f v)))
     else if \<exists>v. i \<in> set_at (map_of R) (IndexId f v) then Some None else None)"
proof -
  let ?k = "ObjectFieldId i f True"
  let ?a = "concat (map (\<lambda>(k, ids). map (\<lambda>i. (ObjectFieldId i (ixFieldId k) True, Some (indexValue k))) (iterI env ids)) A)"
  let ?r = "concat (map (\<lambda>(k, ids). map (\<lambda>i. (ObjectFieldId i (ixFieldId k) True, None :: bytes option)) (iterI env ids)) R)"
  note mem = set_at_member
  have it: "set (iterI env ids) = ids" if "(k, ids) \<in> set A \<union> set R" for k ids
  proof -
    have "finite ids" using bspec[OF assms(2) that] by simp
    with assms(1) show ?thesis by (rule iterI_set)
  qed
  have a: "(?k, x) \<in> set ?a \<longleftrightarrow> (\<exists>v. x = Some v \<and> i \<in> set_at (map_of A) (IndexId f v))" for x
  proof -
    have "(?k, x) \<in> set ?a \<longleftrightarrow> (\<exists>k ids. (k, ids) \<in> set A \<and> ixFieldId k = f \<and> i \<in> ids \<and> x = Some (indexValue k))"
      unfolding concat_pairs by (rule iffI; clarsimp) (metis UnI1 it)+
    also have "\<dots> \<longleftrightarrow> (\<exists>v ids. (IndexId f v, ids) \<in> set A \<and> i \<in> ids \<and> x = Some v)"
      by (metis IndexId.exhaust_sel IndexId.sel)
    finally show ?thesis using mem[OF assms(3)] by blast
  qed
  have r: "(?k, x) \<in> set ?r \<longleftrightarrow> x = None \<and> (\<exists>v. i \<in> set_at (map_of R) (IndexId f v))" for x
  proof -
    have "(?k, x) \<in> set ?r \<longleftrightarrow> (\<exists>k ids. (k, ids) \<in> set R \<and> ixFieldId k = f \<and> i \<in> ids \<and> x = None)"
      unfolding concat_pairs by (rule iffI; clarsimp) (metis UnI2 it)+
    also have "\<dots> \<longleftrightarrow> (\<exists>v ids. (IndexId f v, ids) \<in> set R \<and> i \<in> ids \<and> x = None)"
      by (metis IndexId.exhaust_sel IndexId.sel)
    finally show ?thesis using mem[OF assms(4)] by blast
  qed
  note last = map_of_rev_mem
  show ?thesis
  proof (cases "\<exists>v. i \<in> set_at (map_of A) (IndexId f v)")
    case True
    then obtain v where v: "i \<in> set_at (map_of A) (IndexId f v)" by blast
    then have the: "(THE v. i \<in> set_at (map_of A) (IndexId f v)) = v" using uniq by blast
    have "(?k, Some v) \<in> set ?a" using v unfolding a by blast
    then have "map_of (rev ?a) ?k \<noteq> None" by (rule contrapos_pn) (rule last(2))
    then obtain x where x: "map_of (rev ?a) ?k = Some x" by blast
    then have "(?k, x) \<in> set ?a" by (rule last(1))
    then have "x = Some v" unfolding a using uniq v by blast
    with x True the show ?thesis by (simp add: indexReverseLookupKvs_def map_of_dict_update_last)
  next
    case False
    have "map_of (rev ?a) ?k = None"
    proof (cases "map_of (rev ?a) ?k")
      case (Some x)
      then have "(?k, x) \<in> set ?a" by (rule last(1))
      with False show ?thesis unfolding a by blast
    qed
    moreover have "map_of (rev ?r) ?k = (if \<exists>v. i \<in> set_at (map_of R) (IndexId f v) then Some None else None)"
    proof (cases "map_of (rev ?r) ?k")
      case None
      then have "(?k, None) \<notin> set ?r" by (rule last(2))
      with None show ?thesis unfolding r by simp
    next
      case (Some x)
      then have "(?k, x) \<in> set ?r" by (rule last(1))
      with Some show ?thesis unfolding r by simp
    qed
    ultimately show ?thesis using False by (simp add: indexReverseLookupKvs_def map_of_dict_update_last)
  qed
qed

lemma removes_subset:
  assumes "batch_ok S kvs (idSets A) (idSets R)"
  shows "set_at (map_of (idSets R)) k \<subseteq> S k \<union> set_at (map_of (idSets A)) k"
proof (cases "map_of (idSets R) k")
  case (Some m)
  then have "(k, m) \<in> set (idSets R)" by (rule map_of_SomeD)
  with assms have "m \<subseteq> S k \<union> set_at (map_of (idSets A)) k" by (auto simp: batch_ok_def)
  with Some show ?thesis by (simp add: set_at_def)
qed (simp add: set_at_def)

lemma sets_finite:
  assumes "batch_ok S kvs (idSets A) (idSets R)"
  shows "\<forall>(k, ids) \<in> set A \<union> set R. finite ids" "dict_ok A" "dict_ok R"
proof -
  have inj: "inj SVInt" by (simp add: inj_def)
  have "finite ids" if "(k, ids) \<in> set A \<union> set R" for k ids
  proof -
    from that have "(KIx k, SVInt ` ids) \<in> set (idSets A) \<union> set (idSets R)" by (auto simp: idSets_def)
    with assms have "finite (SVInt ` ids)" by (auto simp: batch_ok_def)
    then show ?thesis using inj by (simp add: finite_image_iff inj_on_subset)
  qed
  then show "\<forall>(k, ids) \<in> set A \<union> set R. finite ids" by blast
  have "map fst (idSets D) = map KIx (map fst D)" for D by (simp add: idSets_def case_prod_unfold)
  then have "dict_ok (idSets D) \<Longrightarrow> dict_ok D" for D by (metis distinct_map)
  then show "dict_ok A" "dict_ok R" using assms by (simp_all add: batch_ok_def)
qed

section \<open>Properties\<close>

text \<open>C2. A successful commit takes the database exactly where the transaction says: every written
  field holds the written value, every other value is as before, every index set gains the objects
  added and loses the objects removed, the metadata still lists exactly the index values in use, and
  the reverse index still agrees with the index sets.\<close>

theorem commit_updates_store:
  assumes run: "commitAndBroadcastNewTransaction env ck source t s = (Inr ((True, b), tid, conns), s')"
    and inv: "mem_inv env (sv_kvstore s)" and meta: "meta_ok (set_of (sv_kvstore s))" and rev: "reverse_ok env (sv_kvstore s)"
    and kv: "dict_ok (sv_key_value s)" "\<forall>(k, v) \<in> set (sv_key_value s). \<not> isIndexValue k"
    and sets: "batch_ok (set_of (sv_kvstore s)) [] (idSets (added t)) (idSets (removed t))"
    and moves: "moves_ok (set_of (sv_kvstore s)) (added t) (removed t)"
  shows "mem_inv env (sv_kvstore s') \<and> meta_ok (set_of (sv_kvstore s')) \<and> reverse_ok env (sv_kvstore s') \<and>
    (\<forall>k. \<not> isIndexValue k \<longrightarrow> val_of env (sv_kvstore s') (KObj k) =
       (case map_of (sv_key_value s) k of Some v \<Rightarrow> v | None \<Rightarrow> val_of env (sv_kvstore s) (KObj k))) \<and>
    (\<forall>i. set_of (sv_kvstore s') (KIx i) =
       (set_of (sv_kvstore s) (KIx i) \<union> SVInt ` set_at (map_of (added t)) i) - SVInt ` set_at (map_of (removed t)) i)"
proof -
  let ?A = "added t" and ?R = "removed t" and ?S = "set_of (sv_kvstore s)" and ?S' = "set_of (sv_kvstore s')"
  let ?rev = "indexReverseLookupKvs env ?A ?R"
  let ?kvs = "objKeys (dict_update (sv_key_value s) ?rev)"
  have okv: "dict_ok ?kvs" "\<forall>(k, v) \<in> set ?kvs. value_key k"
    using kv(1) by (simp_all add: dict_ok_objKeys dict_ok_dict_update) (auto simp: objKeys_def value_key_def)
  then have "batch_ok ?S ?kvs (idSets ?A) (idSets ?R)" using sets by (simp add: batch_ok_def)
  from mem.storeTransaction_law[OF inv meta this] commit_store[OF run]
  have inv': "mem_inv env (sv_kvstore s')" and meta': "meta_ok ?S'" and
    vals: "val_of env (sv_kvstore s') k = (case map_of ?kvs k of Some v \<Rightarrow> v | None \<Rightarrow> val_of env (sv_kvstore s) k)" and
    S': "?S' (KIx i) = (?S (KIx i) \<union> SVInt ` set_at (map_of ?A) i) - SVInt ` set_at (map_of ?R) i" for k i
    by auto
  have upd: "map_of ?kvs (KObj k) = (case map_of ?rev k of Some v \<Rightarrow> Some v | None \<Rightarrow> map_of (sv_key_value s) k)" for k
    by (simp add: map_of_objKeys map_of_dict_update reverse_dict_ok map_add_def)
  have rplain: "map_of ?rev k = None" if "\<not> isIndexValue k" for k
    using reverse_keys_index that by (force simp: map_of_eq_None_iff)
  have kvplain: "map_of (sv_key_value s) (ObjectFieldId i f True) = None" for i f
    using kv(2) by (force simp: map_of_eq_None_iff)
  have "reverse_ok env (sv_kvstore s')"
    unfolding reverse_ok_def
  proof (intro allI)
    fix f v i
    let ?inA = "\<lambda>v. i \<in> set_at (map_of ?A) (IndexId f v)" and ?inR = "\<lambda>v. i \<in> set_at (map_of ?R) (IndexId f v)"
    let ?inS = "\<lambda>v. SVInt i \<in> ?S (KIx (IndexId f v))"
    have mv: "?inA v \<Longrightarrow> \<not> ?inR v \<and> (\<forall>w. ?inA w \<longrightarrow> w = v) \<and> (\<forall>w. ?inS w \<longrightarrow> ?inR w)" for v
      using moves by (simp add: moves_ok_def)
    have sub: "?inR w \<Longrightarrow> ?inS w \<or> ?inA w" for w
      using removes_subset[OF sets, of "KIx (IndexId f w)"] by (auto simp: set_at_idSets)
    have old: "?inS w \<longleftrightarrow> val_of env (sv_kvstore s) (KObj (ObjectFieldId i f True)) = Some w" for w
      using rev by (simp add: reverse_ok_def)
    have fin: "\<forall>(k, ids) \<in> set ?A \<union> set ?R. finite ids" and ok: "dict_ok ?A" "dict_ok ?R" "iter_ok env"
      using sets_finite[OF sets] inv by (auto simp: mem_inv_def)
    have uniq: "\<forall>v w. ?inA v \<and> ?inA w \<longrightarrow> v = w" using mv by blast
    have ent: "map_of ?rev (ObjectFieldId i f True) =
        (if \<exists>v. ?inA v then Some (Some (THE v. ?inA v)) else if \<exists>v. ?inR v then Some None else None)"
      by (rule reverse_entries[OF ok(3) fin ok(1,2) uniq])
    have the: "(THE v. ?inA v) = w" if "?inA w" for w using that uniq by blast
    have new: "val_of env (sv_kvstore s') (KObj (ObjectFieldId i f True)) = Some v \<longleftrightarrow>
        (if \<exists>w. ?inA w then ?inA v else \<not> (\<exists>w. ?inR w) \<and> ?inS v)"
      using the uniq by (auto simp: vals upd ent kvplain old)
    have "SVInt i \<in> ?S' (KIx (IndexId f v)) \<longleftrightarrow> (?inS v \<or> ?inA v) \<and> \<not> ?inR v" by (auto simp: S')
    then show "SVInt i \<in> ?S' (KIx (IndexId f v)) \<longleftrightarrow> val_of env (sv_kvstore s') (KObj (ObjectFieldId i f True)) = Some v"
      unfolding new using mv sub old by (metis option.inject)
  qed
  then show ?thesis using inv' meta' S' by (simp add: vals upd rplain split: option.splits)
qed

definition demo_commit_state :: Server where
  "demo_commit_state = demo_server\<lparr>sv_key_value := pt_writes (demo_pending 2)\<rparr>"

definition demo_move :: txn where
  "demo_move = internalTxn [(IndexId 7 [1], {2})] [] 0"

lemma demo_move_sets: "added demo_move = [(IndexId 7 [1], {2})]" "removed demo_move = []"
  by (simp_all add: added_def removed_def demo_move_def internalTxn_def)

theorem commit_updates_store_witness:
  "let s' = snd (commitAndBroadcastNewTransaction demo_env demo_clock None demo_move demo_commit_state)
   in set_of (sv_kvstore s') (KIx (IndexId 7 [1])) = {SVInt 2} \<and> reverse_ok demo_env (sv_kvstore s') \<and>
      val_of demo_env (sv_kvstore s') (KObj (demo_key 2)) = Some [5]"
proof -
  let ?r = "commitAndBroadcastNewTransaction demo_env demo_clock None demo_move demo_commit_state"
  let ?kv = "sv_kvstore demo_commit_state"
  have "fst ?r = Inr ((True, None), 1, {})"
    by (simp add: run_defs demo_commit_state_def demo_move_def internalTxn_def setAdd_def set_add1_def set_at_def growIndex_def)
  then have run: "?r = (Inr ((True, None), 1, {}), snd ?r)" by (simp add: prod_eq_iff)
  have kv: "kv_values ?kv = Map.empty" "sv_key_value demo_commit_state = [(demo_key 2, Some [5])]"
    by (simp_all add: demo_commit_state_def demo_defs)
  have empty: "set_of ?kv k = {}" "val_of demo_env ?kv k = None" for k by (simp_all add: kv set_of_def val_of_def)
  have h: "mem_inv demo_env ?kv" "meta_ok (set_of ?kv)" "reverse_ok demo_env ?kv"
    by (simp_all add: mem_inv_def kv_ok_def cell_ok_def kv meta_ok_def reverse_ok_def empty)
  have k: "dict_ok (sv_key_value demo_commit_state)" "\<forall>(k, v) \<in> set (sv_key_value demo_commit_state). \<not> isIndexValue k"
    by (simp_all add: kv demo_key_def)
  have b: "batch_ok (set_of ?kv) [] (idSets (added demo_move)) (idSets (removed demo_move))"
    by (simp add: demo_move_sets batch_ok_def idSets_def empty set_key_def value_key_def)
  have m: "moves_ok (set_of ?kv) (added demo_move) (removed demo_move)"
    by (auto simp: demo_move_sets moves_ok_def set_at_def empty split: if_splits)
  from commit_updates_store[OF run h k b m] show ?thesis
    by (simp add: Let_def demo_move_sets kv empty set_at_def demo_key_def)
qed

end
