(* ===== verification/Server_Rejection.thy ===== *)
theory Server_Rejection
  imports Server_Store
begin

text \<open>
  Transactions that are refused: what makes the server refuse, and that a refused transaction
  leaves the database, the versions and what the clients have seen as they were.
\<close>

section \<open>Before the store phase\<close>

text \<open>What an observer of the database sees.\<close>

definition visible :: "Server \<Rightarrow> InMemoryPersistence \<times> (version_key \<rightharpoonup> int) \<times> (chan \<Rightarrow> transaction_msg list)" where
  "visible s = (sv_kvstore s, sv_version_numbers s, sent s)"

lemma visible_core: "core s = core s' \<Longrightarrow> sent s = sent s' \<Longrightarrow> visible s = visible s'"
  by (simp add: visible_def core_def)

lemma source_phase_visible:
  assumes "(case source of None \<Rightarrow> ret () | Some c \<Rightarrow> forM adds (subscribeCreator env c tid)) s = (r, s1)"
  shows "visible s1 = visible s \<and> core s1 = core s"
proof -
  have "keeps (still (sv_cur_transaction_num s, sent s)) (case source of None \<Rightarrow> ret () | Some c \<Rightarrow> forM adds (subscribeCreator env c tid))"
    by (intro keeps_rules still_subscribeCreator)
  from keepsD[OF this _ assms] have "sent s1 = sent s" by (simp add: still_def)
  with subscribe_core[OF assms] show ?thesis using visible_core by blast
qed

text \<open>The ways a commit can go that stop before the transaction is accepted.\<close>

lemma commitWithId_cases:
  assumes "commitWithId env ck source t tid s = (r, s')"
  shows "(visible s' = visible s \<and> (\<exists>e. r = Inl e)) \<or>
    (\<exists>k. conflictingKey env t s = Some k \<and> r = Inr ((False, Some (BadKey k)), tid, {}) \<and> visible s' = visible s) \<or>
    (\<exists>s1. conflictingKey env t s = None \<and> visible s1 = visible s \<and>
       commitAccepted env ck t (added t) (removed t) (sv_key_value s) tid s1 = (r, s'))"
proof (cases "tid > t_as_of t")
  case False
  then have "r = Inl AssertionError \<and> s' = s" using assms by (simp add: commitWithId_def)
  then show ?thesis by blast
next
  case True
  let ?src = "case source of None \<Rightarrow> ret () | Some c \<Rightarrow> forM (added t) (subscribeCreator env c tid)"
  obtain r1 s1 where src: "?src s = (r1, s1)" by fastforce
  note vis = source_phase_visible[OF src]
  have "keeps (\<lambda>s'. sv_key_value s' = sv_key_value s) (subscribeCreator env c tid p)" for c p
    unfolding subscribeCreator_def by (intro keeps_rules keeps_modify; simp add: subscribeIds_def updCC_def writeMsg_def)
  then have "keeps (\<lambda>s'. sv_key_value s' = sv_key_value s) ?src" by (intro keeps_rules) blast
  from keepsD[OF this refl src] have kv: "sv_key_value s1 = sv_key_value s" .
  from vis have conf: "conflictingKey env t s1 = conflictingKey env t s" using conflictingKey_core by blast
  show ?thesis
  proof (cases r1)
    case (Inl e)
    then have "r = Inl e \<and> s' = s1"
      using assms True src unfolding commitWithId_def Let_def added_def[symmetric] by simp
    with vis show ?thesis by blast
  next
    case (Inr u)
    then have "(case conflictingKey env t s1 of
        None \<Rightarrow> bindM (gets sv_key_value) (\<lambda>kv0. commitAccepted env ck t (added t) (removed t) kv0 tid)
      | Some k \<Rightarrow> ret ((False, Some (BadKey k)), tid, {})) s1 = (r, s')"
      using assms True src unfolding commitWithId_def Let_def added_def[symmetric] removed_def[symmetric] by simp
    with vis kv show ?thesis unfolding conf by (cases "conflictingKey env t s") auto
  qed
qed

lemma commitAccepted_not_refused:
  "commitAccepted env ck t A R kv0 tid s = (Inr ((ok, b), x), s') \<Longrightarrow> ok \<and> b = None"
proof -
  assume "commitAccepted env ck t A R kv0 tid s = (Inr ((ok, b), x), s')"
  then obtain A' P s1 s2 prior where
    "announceTransaction env ck t A R kv0 prior tid A' P s1 = (Inr ((ok, b), x), s2)"
    by (auto simp: commitAccepted_def broadcastCommitted_def bindM_ok thenM_ok split: if_splits)
  then show ?thesis using announce_success by (metis prod.collapse prod.inject)
qed

text \<open>The watcher sees the outcome and changes nothing a client can see.\<close>

lemma visible_frame [simp]:
  "visible (s\<lparr>sv_key_value := kv\<rparr>) = visible s" "visible (s\<lparr>sv_cur_transaction_num := n\<rparr>) = visible s"
  "visible (notifyWatcher source t tid conns success badKey exn s) = visible s"
  by (simp_all add: visible_def notifyWatcher_def sent_def[abs_def])

lemma handleNewTransaction_commit:
  assumes "handleNewTransaction env ck source kv t nolog s = (r, s')"
  shows "\<exists>r1 s1. commitWithId env ck source t (sv_cur_transaction_num s + 1)
      (s\<lparr>sv_key_value := kv, sv_cur_transaction_num := sv_cur_transaction_num s + 1\<rparr>) = (r1, s1) \<and> visible s' = visible s1 \<and>
    (\<forall>p. r = Inr p \<longrightarrow> (\<exists>x. r1 = Inr (p, x)))"
proof -
  obtain r1 s1 where run: "commitWithId env ck source t (sv_cur_transaction_num s + 1)
      (s\<lparr>sv_key_value := kv, sv_cur_transaction_num := sv_cur_transaction_num s + 1\<rparr>) = (r1, s1)" by fastforce
  then have "commitAndBroadcastNewTransaction env ck source t (s\<lparr>sv_key_value := kv\<rparr>) = (r1, s1)"
    by (simp add: commitAndBroadcastNewTransaction_def)
  with assms have "visible s' = visible s1 \<and> (\<forall>p. r = Inr p \<longrightarrow> (\<exists>x. r1 = Inr (p, x)))"
    by (cases r1; cases nolog)
       (auto simp: handleNewTransaction_def catchM_def thenM_def bindM_def whenM_def split: prod.splits sum.splits if_splits)
  with run show ?thesis by blast
qed

lemma handleNewTransaction_refused:
  assumes "handleNewTransaction env ck source kv t nolog s = (Inr (False, b), s')"
  shows "\<exists>k. b = Some (BadKey k) \<and> conflictingKey env t s = Some k \<and> visible s' = visible s"
proof -
  let ?s1 = "s\<lparr>sv_key_value := kv, sv_cur_transaction_num := sv_cur_transaction_num s + 1\<rparr>"
  from handleNewTransaction_commit[OF assms] obtain x s1 where
    run: "commitWithId env ck source t (sv_cur_transaction_num s + 1) ?s1 = (Inr ((False, b), x), s1)"
    and s': "visible s' = visible s1" by blast
  from commitWithId_cases[OF run] commitAccepted_not_refused obtain k where
    "conflictingKey env t ?s1 = Some k" "b = Some (BadKey k)" "visible s1 = visible ?s1" by fastforce
  with s' show ?thesis by (simp add: conflictingKey_def versionOf_def)
qed

subsection \<open>Prerequisites\<close>

lemma map_of_zip_map: "map_of (zip ks (map f ks)) k = (if k \<in> set ks then Some (f k) else None)"
  by (induction ks) auto

lemma map_of_dict_update_zip:
  "map_of (dict_update [] (zip ks (map f ks))) k = (if k \<in> set ks then Some (f k) else None)"
proof -
  have "rev (zip ks (map f ks)) = zip (rev ks) (map f (rev ks))" by (simp add: zip_rev[symmetric] rev_map[symmetric])
  then show ?thesis by (simp add: map_of_dict_update_last map_of_zip_map split: option.splits)
qed

lemma getPriorValues_values:
  assumes "getPriorValues env kv0 s = (Inr prior, s')"
  shows "s' = s \<and> map_of prior k = (if k \<in> fst ` set kv0 then Some (val_of env (sv_kvstore s) (KObj k)) else None)"
proof -
  let ?f = "\<lambda>k. val_of env (sv_kvstore s) (KObj k)" and ?ks = "map fst kv0"
  have keys: "map (\<lambda>(k, v). KObj k) kv0 = map KObj ?ks" by (simp add: case_prod_unfold)
  from assms obtain vs s1 where "getSeveral env (map KObj ?ks) (sv_kvstore s) = (Inr vs, s1)"
    and prior: "prior = map (\<lambda>(k, v). (k, Option.bind (map_of (dict_update [] (zip (map KObj ?ks) vs)) (KObj k)) (\<lambda>x. x))) kv0"
    and s': "s' = s\<lparr>sv_kvstore := s1\<rparr>"
    unfolding getPriorValues_def keys by (auto simp: liftKv_def zoomM_ok getSeveralAsDictionary_def bindM_ok)
  with getSeveral_values have vs: "vs = map ?f ?ks" "s1 = sv_kvstore s" by blast+
  have "vs = map (val_of env (sv_kvstore s)) (map KObj ?ks)" by (simp add: vs)
  then have "map_of (dict_update [] (zip (map KObj ?ks) vs)) (KObj k) =
      (if KObj k \<in> set (map KObj ?ks) then Some (?f k) else None)" for k
    by (simp only: map_of_dict_update_zip)
  then have "map_of (dict_update [] (zip (map KObj ?ks) vs)) (KObj k) = (if k \<in> fst ` set kv0 then Some (?f k) else None)" for k
    by (auto simp: image_iff)
  then have "prior = map (\<lambda>(k, v). (k, if k \<in> fst ` set kv0 then ?f k else None)) kv0"
    by (simp add: prior case_prod_unfold)
  moreover have "map_of (map (\<lambda>(k, v). (k, g k)) d) k = (if k \<in> fst ` set d then Some (g k) else None)"
    for g :: "ObjectFieldId \<Rightarrow> bytes option" and d :: write_dict and k
    by (induction d) auto
  ultimately show ?thesis using s' vs by simp
qed

lemma bad_prerequisite:
  assumes "commitAccepted env ck t A R kv0 tid s = (r, s')" and "(k, v) \<in> set (t_prerequisites t)"
    and "(if k \<in> fst ` set kv0 then val_of env (sv_kvstore s) (KObj k) else None) \<noteq> v"
  shows "visible s' = visible s \<and> (\<exists>e. r = Inl e)"
proof -
  obtain r1 s1 where prior: "getPriorValues env kv0 s = (r1, s1)" by fastforce
  have s1: "s1 = s" using keeps_getPriorValues[of "\<lambda>x. x = s" env kv0] prior by (auto dest: keepsD)
  show ?thesis
  proof (cases r1)
    case (Inl e)
    with assms(1) prior s1 have "r = Inl e \<and> s' = s" by (simp add: commitAccepted_def)
    then show ?thesis by blast
  next
    case (Inr p)
    with getPriorValues_values prior have "map_of p k = (if k \<in> fst ` set kv0 then Some (val_of env (sv_kvstore s) (KObj k)) else None)"
      by blast
    with assms(2,3) have bad: "badPrerequisites (t_prerequisites t) p"
      unfolding badPrerequisites_def by (intro bexI[of _ "(k, v)"]) (simp_all split: if_splits)
    obtain r2 s2 where tm: "currentTypeMap env s = (r2, s2)" by fastforce
    have "keeps (\<lambda>s'. visible s' = visible s) (currentTypeMap env)"
      by (intro keeps_rules) (simp add: visible_def)
    with tm have "visible s2 = visible s" by (auto dest: keepsD)
    with assms(1) prior Inr s1 bad tm show ?thesis by (cases r2) (auto simp: commitAccepted_def)
  qed
qed

section \<open>Properties\<close>

text \<open>C7. A conflict is reported only when there is one, and costs nothing: if the server refuses a
  transaction and names a key, then the transaction declared that key as read, the key was committed
  after the version the transaction is based on, and the database, the versions and the transactions
  sent to the clients are unchanged.\<close>

theorem conflict_is_genuine:
  assumes "handleNewTransaction env ck source kv t nolog s = (Inr (False, b), s')"
    and "iter_ok env" and "finite (t_keys t)" and "finite (t_indices t)"
  shows "\<exists>k. b = Some (BadKey k) \<and> k \<in> VKey ` t_keys t \<union> VIndex ` t_indices t \<and> t_as_of t < versionOf s k \<and>
    sv_kvstore s' = sv_kvstore s \<and> sv_version_numbers s' = sv_version_numbers s \<and> sent s' = sent s"
proof -
  from handleNewTransaction_refused[OF assms(1)] obtain k where
    k: "b = Some (BadKey k)" "conflictingKey env t s = Some k" "visible s' = visible s" by blast
  from k(2) have "t_as_of t < versionOf s k" "k \<in> set (map VKey (iterK env (t_keys t)) @ map VIndex (iterX env (t_indices t)))"
    unfolding conflictingKey_def find_Some_iff using nth_mem by blast+
  with assms(2-4) k show ?thesis by (auto simp: visible_def)
qed

theorem conflict_is_genuine_witness:
  "let s = demo_server\<lparr>sv_version_numbers := [VKey (demo_key 2) \<mapsto> 5], sv_cur_transaction_num := 5\<rparr>;
       t = (internalTxn [] [] 3)\<lparr>t_keys := {demo_key 2}\<rparr>
   in \<exists>k. fst (handleNewTransaction demo_env demo_clock None [] t True s) = Inr (False, Some (BadKey k)) \<and> t_as_of t < versionOf s k"
proof -
  let ?s = "demo_server\<lparr>sv_version_numbers := [VKey (demo_key 2) \<mapsto> 5], sv_cur_transaction_num := 5\<rparr>"
  let ?t = "(internalTxn [] [] 3)\<lparr>t_keys := {demo_key 2}\<rparr>"
  let ?r = "handleNewTransaction demo_env demo_clock None [] ?t True ?s"
  have fst: "fst ?r = Inr (False, Some (BadKey (VKey (demo_key 2))))"
    by (simp add: run_defs internalTxn_def)
  then have "?r = (Inr (False, Some (BadKey (VKey (demo_key 2)))), snd ?r)" by (simp add: prod_eq_iff)
  from conflict_is_genuine[OF this iter_ok_demo] fst show ?thesis by (auto simp: Let_def internalTxn_def)
qed



end
