(* ===== verification/Server_Frame.thy ===== *)
theory Server_Frame
  imports Server_Steps
begin

text \<open>
  Properties that a commit cannot break because it never writes the fields they depend on: the
  connected channels, the subscription tables of fields and indices. The locale \<open>commit_silent\<close>
  lists the updates a commit makes; a property that survives each of them survives the commit.
\<close>

locale commit_silent =
  fixes env :: pyenv and I :: "Server \<Rightarrow> bool"
  assumes upd_typeMap: "I s \<Longrightarrow> I (s\<lparr>sv_typeMap := tm\<rparr>)"
    and upd_kvstore: "I s \<Longrightarrow> I (s\<lparr>sv_kvstore := kv\<rparr>)"
    and upd_outbox: "I s \<Longrightarrow> I (s\<lparr>sv_outbox := out\<rparr>)"
    and upd_ids: "I s \<Longrightarrow> I (subscribeIds c ids s)"
    and upd_key_value: "I s \<Longrightarrow> I (s\<lparr>sv_key_value := d\<rparr>)"
    and upd_stats: "I s \<Longrightarrow> I (s\<lparr>sv_stats := st\<rparr>)"
    and upd_recheck: "I s \<Longrightarrow> I (s\<lparr>sv_pendingSubscriptionRecheck := p\<rparr>)"
    and upd_watcher: "I s \<Longrightarrow> I (s\<lparr>sv_watcher := w\<rparr>)"
    and upd_producer: "I s \<Longrightarrow> I (s\<lparr>sv_identityProducer := ip\<rparr>)"
    and upd_number: "I s \<Longrightarrow> I (s\<lparr>sv_cur_transaction_num := n\<rparr>)"
    and upd_versions: "I s \<Longrightarrow> I (s\<lparr>sv_version_numbers := v\<rparr>)"
    and upd_timestamps: "I s \<Longrightarrow> I (s\<lparr>sv_version_numbers_timestamps := ts\<rparr>)"
    and upd_oldest: "I s \<Longrightarrow> I (s\<lparr>sv_min_acceptable_version_number := m\<rparr>)"
    and upd_collected: "I s \<Longrightarrow> I (s\<lparr>sv_last_garbage_collect_timestamp := gt\<rparr>)"
begin

lemmas upds = upd_typeMap upd_kvstore upd_outbox upd_ids upd_key_value upd_stats upd_recheck upd_watcher
  upd_producer upd_number upd_versions upd_timestamps upd_oldest upd_collected

lemma silent_ops:
  "I s \<Longrightarrow> I (writeMsg c msg s)" "I s \<Longrightarrow> I (bumpFieldStats F k s)" "I s \<Longrightarrow> I (bumpTransactionStats ck st' s)"
  "I s \<Longrightarrow> I (stampVersions ks tid t1 s)" "I s \<Longrightarrow> I (notifyWatcher source t tid conns success badKey exn s)"
  "I s \<Longrightarrow> I (sendTransactionMessages P T pv tmsg s)"
  by (simp_all add: writeMsg_def bumpFieldStats_def bumpTransactionStats_def stampVersions_def notifyWatcher_def
      sendTransactionMessages_def writeAll_def Let_def upds)

lemma silent_kv: "keeps I (liftKv m)"
  by (simp add: keeps_def liftKv_run upds)

lemma silent_gc: "keeps I (garbage_collect env ck ov)"
  unfolding garbage_collect_def collectVersion_def
  by (intro keeps_rules keeps_modify upds; simp split: version_key.split; intro conjI allI impI keeps_rules)

lemma silent_log: "keeps I (logThroughput env ck)"
  unfolding logThroughput_def by (intro keeps_rules keeps_modify upds)

lemma silent_grow: "keeps I (growIndex env tid k p)"
  unfolding growIndex_def growChannel_def by (intro keeps_rules keeps_modify upds silent_ops)

lemma silent_creator: "keeps I (subscribeCreator env c tid p)"
  unfolding subscribeCreator_def by (intro keeps_rules keeps_modify upds silent_ops)

lemma silent_commit: "keeps I (commitAndBroadcastNewTransaction env ck source t)"
proof -
  have "keeps I (announceTransaction env ck t A R kv0 prior tid A' P)" for A R kv0 prior tid A' P
    unfolding announceTransaction_def
    by (intro keeps_rules keeps_modify silent_ops silent_gc silent_log)
  then have "keeps I (commitAccepted env ck t A R kv0 tid)" for A R kv0 tid
    unfolding commitAccepted_def broadcastCommitted_def
    by (intro keeps_rules keeps_modify silent_ops silent_kv silent_grow upd_typeMap)
  then show ?thesis
    unfolding commitAndBroadcastNewTransaction_def commitWithId_def
    by (intro keeps_rules keeps_modify upd_number silent_creator)
qed

lemma silent_newTransaction: "keeps I (handleNewTransaction env ck source kv t nolog)"
  unfolding handleNewTransaction_def
  by (intro keeps_rules keeps_modify silent_ops upds silent_commit)

lemma silent_keys: "keeps I (connectionKeys env i)"
  unfolding connectionKeys_def by (intro keeps_rules upds)

lemma silent_createEntry: "keeps I (createConnectionEntry env ck)"
  unfolding createConnectionEntry_def allocateNewIdentityRoot_def
  by (intro keeps_rules keeps_modify upds silent_newTransaction silent_keys silent_kv)

lemma silent_dropEntry: "keeps I (dropConnectionEntry env ck i)"
  unfolding dropConnectionEntry_def by (intro keeps_rules silent_newTransaction silent_keys)

end

section \<open>The connected channels\<close>

definition channels_are :: "chan list \<times> chan set \<Rightarrow> Server \<Rightarrow> bool" where
  "channels_are x s \<longleftrightarrow> (sv_clientChannels s, sv_closed s) = x"

interpretation chans: commit_silent env "channels_are x" for env x
  by unfold_locales (simp_all add: channels_are_def subscribeIds_def updCC_def)

end
