(* ===== verification/Redis_Persistence.thy ===== *)
theory Redis_Persistence
  imports Kv_Interface
begin

text \<open>
  \<open>RedisPersistence\<close> of \<open>persistence.py\<close>: the store of a production server, a write-through cache in front of a
  redis database. The redis client is code outside the repository: the record \<open>redis\<close> holds the calls the
  class makes, on an unknown state \<open>'r\<close>, and \<open>redis_ok\<close> states the documented behaviour of those calls (a key
  holds a string or a set that is not empty, a pipeline executes its commands in order, a database that is
  still loading refuses every command). Keys and set members go over the wire serialised (\<open>wire\<close>).

  A read sleeps and tries again while redis is loading. The loop gets fuel; \<open>NotReturned\<close> is the outcome
  when it is used up, and \<open>redis_get_returns\<close> shows how much is enough.

  The class is a second provider of the contract \<open>kv_persistence\<close>, so that everything the server's store
  phase relies on holds for it too; \<open>redis_matches_memory\<close> compares the two providers.
\<close>

section \<open>The redis client\<close>

datatype redis_value = RStr bytes | RSet "bytes set"

datatype redis_command = DELETE bytes | SETVAL bytes bytes | SADD bytes bytes | SREM bytes bytes

record 'r redis =
  rd_get :: "bytes \<Rightarrow> 'r \<Rightarrow> py_error + bytes option"
  rd_mget :: "bytes list \<Rightarrow> 'r \<Rightarrow> py_error + bytes option list"
  rd_smembers :: "bytes \<Rightarrow> 'r \<Rightarrow> py_error + bytes set"
  rd_exists :: "bytes \<Rightarrow> 'r \<Rightarrow> py_error + bool"
  rd_execute :: "redis_command list \<Rightarrow> 'r \<Rightarrow> (py_error + unit) \<times> 'r"
  rd_sleep :: "'r \<Rightarrow> 'r"

record wire =
  ser_key :: "KeyType \<Rightarrow> bytes"
  deser_key :: "bytes \<Rightarrow> KeyType option"
  ser_sv :: "SetValue \<Rightarrow> bytes"
  deser_sv :: "bytes \<Rightarrow> SetValue option"

section \<open>Model\<close>

record 'r RedisPersistence =
  rp_redis :: 'r
  rp_cache :: "KeyType \<rightharpoonup> stored"

text \<open>\<open>while not success: try: ... except BusyLoadingError: time.sleep(1.0)\<close>\<close>

fun retryLoading :: "'r redis \<Rightarrow> nat \<Rightarrow> ('r \<Rightarrow> py_error + 'a) \<Rightarrow> ('r RedisPersistence, 'a) pyM" where
  "retryLoading rd 0 call = raise NotReturned"
| "retryLoading rd (Suc fuel) call =
     bindM (gets (\<lambda>s. call (rp_redis s))) (\<lambda>answer.
       case answer of
         Inr a \<Rightarrow> ret a
       | Inl e \<Rightarrow>
           if e = BusyLoadingError
           then thenM (modify (\<lambda>s. s\<lparr>rp_redis := rd_sleep rd (rp_redis s)\<rparr>)) (retryLoading rd fuel call)
           else raise e)"

definition cachePut :: "KeyType \<Rightarrow> stored option \<Rightarrow> ('r RedisPersistence, unit) pyM" where
  "cachePut key v = modify (\<lambda>s. s\<lparr>rp_cache := (rp_cache s)(key := v)\<rparr>)"

definition redis_get :: "'r redis \<Rightarrow> wire \<Rightarrow> nat \<Rightarrow> KeyType \<Rightarrow> ('r RedisPersistence, bytes option) pyM" where
  "redis_get rd w fuel key =
     bindM (gets (\<lambda>s. rp_cache s key)) (\<lambda>cached.
       case cached of
         Some (Members _) \<Rightarrow> raise AssertionError
       | Some (Bytes b) \<Rightarrow> ret (Some b)
       | None \<Rightarrow>
           bindM (retryLoading rd fuel (rd_get rd (ser_key w key))) (\<lambda>result.
             case result of
               None \<Rightarrow> ret None
             | Some b \<Rightarrow> thenM (cachePut key (Some (Bytes b))) (ret (Some b))))"

text \<open>The loop over \<open>needed_keys\<close> and \<open>vals\<close>; redis answers with one value per key.\<close>

fun cacheAnswers :: "wire \<Rightarrow> bytes list \<Rightarrow> bytes option list \<Rightarrow> ('r RedisPersistence, unit) pyM" where
  "cacheAnswers w [] vals = ret ()"
| "cacheAnswers w (k # ks) [] = raise GenericException"
| "cacheAnswers w (k # ks) (None # vals) = cacheAnswers w ks vals"
| "cacheAnswers w (k # ks) (Some b # vals) =
     (case deser_key w k of
        None \<Rightarrow> raise ValueError
      | Some key \<Rightarrow> thenM (cachePut key (Some (Bytes b))) (cacheAnswers w ks vals))"

definition redis_getSeveral :: "'r redis \<Rightarrow> wire \<Rightarrow> nat \<Rightarrow> KeyType list \<Rightarrow> ('r RedisPersistence, stored option list) pyM" where
  "redis_getSeveral rd w fuel keys =
     bindM (gets (\<lambda>s. map (ser_key w) (filter (\<lambda>k. rp_cache s k = None) keys))) (\<lambda>needed_keys.
     thenM (if needed_keys = [] then ret ()
            else bindM (retryLoading rd fuel (rd_mget rd needed_keys)) (cacheAnswers w needed_keys))
     (gets (\<lambda>s. map (rp_cache s) keys)))"

definition redis_getSeveralAsDictionary ::
  "'r redis \<Rightarrow> wire \<Rightarrow> nat \<Rightarrow> KeyType list \<Rightarrow> ('r RedisPersistence, (KeyType \<times> stored option) list) pyM" where
  "redis_getSeveralAsDictionary rd w fuel keys =
     bindM (redis_getSeveral rd w fuel keys) (\<lambda>vs. ret (dict_update [] (zip keys vs)))"

definition redis_getSetMembers :: "'r redis \<Rightarrow> wire \<Rightarrow> nat \<Rightarrow> KeyType \<Rightarrow> ('r RedisPersistence, SetValue set) pyM" where
  "redis_getSetMembers rd w fuel key =
     bindM (gets (\<lambda>s. rp_cache s key)) (\<lambda>cached.
       case cached of
         Some (Bytes _) \<Rightarrow> raise AssertionError
       | Some (Members m) \<Rightarrow> ret m
       | None \<Rightarrow>
           bindM (retryLoading rd fuel (rd_smembers rd (ser_key w key))) (\<lambda>vals.
             if vals = {} then ret {}
             else if \<exists>x \<in> vals. deser_sv w x = None then raise ValueError
             else let m = (\<lambda>x. the (deser_sv w x)) ` vals in thenM (cachePut key (Some (Members m))) (ret m)))"

text \<open>\<open>setSeveral\<close>. The pipeline only collects commands until it is executed.\<close>

fun kvCommand :: "wire \<Rightarrow> KeyType \<times> bytes option \<Rightarrow> redis_command" where
  "kvCommand w (key, None) = DELETE (ser_key w key)"
| "kvCommand w (key, Some b) = SETVAL (ser_key w key) b"

definition loadUncached :: "'r redis \<Rightarrow> wire \<Rightarrow> nat \<Rightarrow> KeyType \<Rightarrow> ('r RedisPersistence, unit) pyM" where
  "loadUncached rd w fuel key =
     bindM (gets (\<lambda>s. rp_cache s key = None)) (\<lambda>missing.
       whenM missing (bindM (redis_getSetMembers rd w fuel key) (\<lambda>_. ret ())))"

definition pipeSets ::
  "'r redis \<Rightarrow> wire \<Rightarrow> nat \<Rightarrow> pyenv \<Rightarrow> (bytes \<Rightarrow> bytes \<Rightarrow> redis_command) \<Rightarrow> (KeyType \<times> SetValue set) list
     \<Rightarrow> redis_command list \<Rightarrow> ('r RedisPersistence, redis_command list) pyM" where
  "pipeSets rd w fuel env command sets pipe =
     foldMl (\<lambda>(key, vals) pipe.
       thenM (loadUncached rd w fuel key)
         (ret (pipe @ map (\<lambda>v. command (ser_key w key) (ser_sv w v)) (iterV env vals)))) sets pipe"

definition redisExecute :: "'r redis \<Rightarrow> redis_command list \<Rightarrow> ('r RedisPersistence, unit) pyM" where
  "redisExecute rd pipe s = (case rd_execute rd pipe (rp_redis s) of (answer, r) \<Rightarrow> (answer, s\<lparr>rp_redis := r\<rparr>))"

definition falsy :: "stored option \<Rightarrow> bool" where
  "falsy c \<longleftrightarrow> c = None \<or> c = Some (Bytes []) \<or> c = Some (Members {})"

definition cacheAdd1 :: "KeyType \<Rightarrow> SetValue \<Rightarrow> ('r RedisPersistence, unit) pyM" where
  "cacheAdd1 key v =
     bindM (gets (\<lambda>s. rp_cache s key)) (\<lambda>cur.
       case cur of Some (Members m) \<Rightarrow> cachePut key (Some (Members (insert v m))) | _ \<Rightarrow> raise AttributeError)"

definition cacheAdds :: "pyenv \<Rightarrow> KeyType \<times> SetValue set \<Rightarrow> KeyType list \<Rightarrow> ('r RedisPersistence, KeyType list) pyM" where
  "cacheAdds env = (\<lambda>(key, to_add) new_sets.
     if to_add = {} then ret new_sets
     else
       bindM (gets (\<lambda>s. falsy (rp_cache s key))) (\<lambda>isnew.
       thenM (if isnew then thenM (cachePut key (Some (Members {}))) (assertM (key \<notin> set new_sets)) else ret ())
       (thenM (forM (iterV env to_add) (cacheAdd1 key))
         (ret (if isnew then new_sets @ [key] else new_sets)))))"

definition cacheRemove1 :: "KeyType \<Rightarrow> SetValue \<Rightarrow> ('r RedisPersistence, unit) pyM" where
  "cacheRemove1 key v =
     bindM (gets (\<lambda>s. rp_cache s key)) (\<lambda>cur.
       case cur of
         Some (Members m) \<Rightarrow> if v \<in> m then cachePut key (Some (Members (m - {v}))) else raise KeyError
       | _ \<Rightarrow> raise AttributeError)"

definition cacheRemoves :: "pyenv \<Rightarrow> KeyType \<times> SetValue set \<Rightarrow> KeyType list \<Rightarrow> ('r RedisPersistence, KeyType list) pyM" where
  "cacheRemoves env = (\<lambda>(key, to_remove) dropped_sets.
     if to_remove = {} then ret dropped_sets
     else
       bindM (gets (\<lambda>s. \<not> falsy (rp_cache s key))) (\<lambda>present.
       thenM (assertM present)
       (thenM (forM (iterV env to_remove) (cacheRemove1 key))
       (bindM (gets (\<lambda>s. falsy (rp_cache s key))) (\<lambda>gone.
         if gone then thenM (cachePut key None) (ret (dropped_sets @ [key])) else ret dropped_sets)))))"

definition cacheKv :: "KeyType \<times> bytes option \<Rightarrow> ('r RedisPersistence, unit) pyM" where
  "cacheKv = (\<lambda>(key, v). cachePut key (map_option Bytes v))"

definition redis_setSeveral ::
  "'r redis \<Rightarrow> wire \<Rightarrow> nat \<Rightarrow> pyenv \<Rightarrow> (KeyType \<times> bytes option) list \<Rightarrow> (KeyType \<times> SetValue set) list
     \<Rightarrow> (KeyType \<times> SetValue set) list \<Rightarrow> ('r RedisPersistence, KeyType list \<times> KeyType list) pyM" where
  "redis_setSeveral rd w fuel env kvs setAdds setRemoves =
     bindM (pipeSets rd w fuel env SADD setAdds (map (kvCommand w) kvs)) (\<lambda>pipe.
     bindM (pipeSets rd w fuel env SREM setRemoves pipe) (\<lambda>pipe.
     thenM (redisExecute rd pipe)
     (thenM (forM kvs cacheKv)
     (bindM (foldMl (cacheAdds env) setAdds []) (\<lambda>new_sets.
      bindM (foldMl (cacheRemoves env) setRemoves []) (\<lambda>dropped_sets.
      ret (new_sets, dropped_sets)))))))"

definition redis_set :: "'r redis \<Rightarrow> wire \<Rightarrow> KeyType \<Rightarrow> bytes option \<Rightarrow> ('r RedisPersistence, unit) pyM" where
  "redis_set rd w key v = thenM (redisExecute rd [kvCommand w (key, v)]) (cacheKv (key, v))"

definition redis_exists :: "'r redis \<Rightarrow> wire \<Rightarrow> KeyType \<Rightarrow> ('r RedisPersistence, bool) pyM" where
  "redis_exists rd w key =
     bindM (gets (\<lambda>s. rp_cache s key \<noteq> None)) (\<lambda>cached.
       if cached then ret True
       else bindM (gets (\<lambda>s. rd_exists rd (ser_key w key) (rp_redis s))) (\<lambda>answer.
         case answer of Inl e \<Rightarrow> raise e | Inr b \<Rightarrow> ret b))"

definition redis_delete :: "'r redis \<Rightarrow> wire \<Rightarrow> KeyType \<Rightarrow> ('r RedisPersistence, unit) pyM" where
  "redis_delete rd w key = thenM (cachePut key None) (redisExecute rd [DELETE (ser_key w key)])"

section \<open>What redis does\<close>

text \<open>The effect of a command on the contents of the database; \<open>None\<close> is an operation against a key
  holding the wrong kind of value.\<close>

fun applyCommand :: "redis_command \<Rightarrow> (bytes \<rightharpoonup> redis_value) \<Rightarrow> (bytes \<rightharpoonup> redis_value) option" where
  "applyCommand (DELETE k) c = Some (c(k := None))"
| "applyCommand (SETVAL k v) c = Some (c(k \<mapsto> RStr v))"
| "applyCommand (SADD k v) c =
     (case c k of None \<Rightarrow> Some (c(k \<mapsto> RSet {v})) | Some (RSet m) \<Rightarrow> Some (c(k \<mapsto> RSet (insert v m))) | Some (RStr _) \<Rightarrow> None)"
| "applyCommand (SREM k v) c =
     (case c k of None \<Rightarrow> Some c
      | Some (RSet m) \<Rightarrow> Some (c(k := if m - {v} = {} then None else Some (RSet (m - {v}))))
      | Some (RStr _) \<Rightarrow> None)"

fun applyCommands :: "redis_command list \<Rightarrow> (bytes \<rightharpoonup> redis_value) \<Rightarrow> (bytes \<rightharpoonup> redis_value) option" where
  "applyCommands [] c = Some c"
| "applyCommands (x # xs) c = (case applyCommand x c of None \<Rightarrow> None | Some c' \<Rightarrow> applyCommands xs c')"

text \<open>\<open>contents\<close> are the contents of the database in a state of it, \<open>loading\<close> the number of seconds for which it
  still refuses commands.\<close>

definition redis_ok :: "'r redis \<Rightarrow> ('r \<Rightarrow> bytes \<rightharpoonup> redis_value) \<Rightarrow> ('r \<Rightarrow> nat) \<Rightarrow> bool" where
  "redis_ok rd contents loading \<longleftrightarrow>
     (\<forall>r. loading r = 0 \<longrightarrow>
        (\<forall>k. rd_get rd k r = (case contents r k of None \<Rightarrow> Inr None | Some (RStr b) \<Rightarrow> Inr (Some b) | Some (RSet _) \<Rightarrow> Inl GenericException)) \<and>
        (\<forall>ks. rd_mget rd ks r = Inr (map (\<lambda>k. case contents r k of Some (RStr b) \<Rightarrow> Some b | _ \<Rightarrow> None) ks)) \<and>
        (\<forall>k. rd_smembers rd k r = (case contents r k of None \<Rightarrow> Inr {} | Some (RSet m) \<Rightarrow> Inr m | Some (RStr _) \<Rightarrow> Inl GenericException)) \<and>
        (\<forall>k. rd_exists rd k r = Inr (contents r k \<noteq> None)) \<and>
        (\<forall>cs c. applyCommands cs (contents r) = Some c \<longrightarrow>
           (\<exists>r'. rd_execute rd cs r = (Inr (), r') \<and> contents r' = c \<and> loading r' = 0))) \<and>
     (\<forall>r. loading r > 0 \<longrightarrow>
        (\<forall>k. rd_get rd k r = Inl BusyLoadingError) \<and> (\<forall>ks. rd_mget rd ks r = Inl BusyLoadingError) \<and>
        (\<forall>k. rd_smembers rd k r = Inl BusyLoadingError) \<and>
        loading (rd_sleep rd r) = loading r - 1 \<and> contents (rd_sleep rd r) = contents r)"

definition wire_ok :: "wire \<Rightarrow> bool" where
  "wire_ok w \<longleftrightarrow> (\<forall>k. deser_key w (ser_key w k) = Some k) \<and> (\<forall>v. deser_sv w (ser_sv w v) = Some v)"

lemma wire_inj: "wire_ok w \<Longrightarrow> ser_key w j = ser_key w k \<longleftrightarrow> j = k" "wire_ok w \<Longrightarrow> ser_sv w x = ser_sv w y \<longleftrightarrow> x = y"
  unfolding wire_ok_def by (metis option.inject)+

section \<open>The database as a store\<close>

text \<open>\<open>wired w c st\<close>: the contents \<open>c\<close> represent the store \<open>st\<close>.\<close>

fun onWire :: "wire \<Rightarrow> stored \<Rightarrow> redis_value" where
  "onWire w (Bytes b) = RStr b"
| "onWire w (Members m) = RSet (ser_sv w ` m)"

definition wired :: "wire \<Rightarrow> (bytes \<rightharpoonup> redis_value) \<Rightarrow> (KeyType \<rightharpoonup> stored) \<Rightarrow> bool" where
  "wired w c st \<longleftrightarrow> (\<forall>k. c (ser_key w k) = map_option (onWire w) (st k))"

definition typed :: "(KeyType \<rightharpoonup> stored) \<Rightarrow> bool" where
  "typed st \<longleftrightarrow> (\<forall>k. case st k of None \<Rightarrow> True | Some (Bytes b) \<Rightarrow> value_key k | Some (Members m) \<Rightarrow> set_key k \<and> m \<noteq> {} \<and> finite m)"

definition bytesAt :: "(KeyType \<rightharpoonup> stored) \<Rightarrow> KeyType \<Rightarrow> bytes option" where
  "bytesAt st k = (case st k of Some (Bytes b) \<Rightarrow> Some b | _ \<Rightarrow> None)"

definition membersAt :: "(KeyType \<rightharpoonup> stored) \<Rightarrow> KeyType \<Rightarrow> SetValue set" where
  "membersAt st k = (case st k of Some (Members m) \<Rightarrow> m | _ \<Rightarrow> {})"

definition mkSet :: "SetValue set \<Rightarrow> stored option" where
  "mkSet m = (if m = {} then None else Some (Members m))"

lemma typed_set: "typed st \<Longrightarrow> set_key k \<Longrightarrow> st k = mkSet (membersAt st k)"
  unfolding typed_def by (drule spec[of _ k]) (auto simp: mkSet_def membersAt_def set_key_def split: option.splits stored.splits)

lemma typed_val: "typed st \<Longrightarrow> value_key k \<Longrightarrow> st k = map_option Bytes (bytesAt st k)"
  unfolding typed_def by (drule spec[of _ k]) (auto simp: bytesAt_def set_key_def split: option.splits stored.splits)

text \<open>The effect of a batch on the store.\<close>

definition putVal :: "KeyType \<times> bytes option \<Rightarrow> (KeyType \<rightharpoonup> stored) \<Rightarrow> KeyType \<rightharpoonup> stored" where
  "putVal = (\<lambda>(k, v) st. st(k := map_option Bytes v))"

definition addSet :: "KeyType \<times> SetValue set \<Rightarrow> (KeyType \<rightharpoonup> stored) \<Rightarrow> KeyType \<rightharpoonup> stored" where
  "addSet = (\<lambda>(k, m) st. st(k := mkSet (membersAt st k \<union> m)))"

definition remSet :: "KeyType \<times> SetValue set \<Rightarrow> (KeyType \<rightharpoonup> stored) \<Rightarrow> KeyType \<rightharpoonup> stored" where
  "remSet = (\<lambda>(k, m) st. st(k := mkSet (membersAt st k - m)))"

lemma typed_putVal: "typed st \<Longrightarrow> value_key (fst p) \<Longrightarrow> typed (putVal p st)"
  by (cases p) (auto simp: typed_def putVal_def split: option.splits)

lemma finite_membersAt: "typed st \<Longrightarrow> finite (membersAt st k)"
  unfolding typed_def by (drule spec[of _ k]) (auto simp: membersAt_def split: option.splits stored.splits)

lemma typed_addSet: "typed st \<Longrightarrow> set_key (fst p) \<Longrightarrow> finite (snd p) \<Longrightarrow> typed (addSet p st)"
  using finite_membersAt[of st "fst p"] by (cases p) (auto simp: typed_def addSet_def mkSet_def)

lemma typed_remSet: "typed st \<Longrightarrow> set_key (fst p) \<Longrightarrow> typed (remSet p st)"
  using finite_membersAt[of st "fst p"] by (cases p) (auto simp: typed_def remSet_def mkSet_def)

lemma typed_folds:
  "typed st \<Longrightarrow> \<forall>(k, v) \<in> set kvs. value_key k \<Longrightarrow> typed (fold putVal kvs st)"
  "typed st \<Longrightarrow> \<forall>(k, m) \<in> set adds. set_key k \<and> finite m \<Longrightarrow> typed (fold addSet adds st)"
  "typed st \<Longrightarrow> \<forall>(k, m) \<in> set removes. set_key k \<Longrightarrow> typed (fold remSet removes st)"
proof -
  show "typed st \<Longrightarrow> \<forall>(k, v) \<in> set kvs. value_key k \<Longrightarrow> typed (fold putVal kvs st)"
    by (induction kvs arbitrary: st) (auto intro!: typed_putVal simp: split_beta)
  show "typed st \<Longrightarrow> \<forall>(k, m) \<in> set adds. set_key k \<and> finite m \<Longrightarrow> typed (fold addSet adds st)"
    by (induction adds arbitrary: st) (auto intro!: typed_addSet simp: split_beta)
  show "typed st \<Longrightarrow> \<forall>(k, m) \<in> set removes. set_key k \<Longrightarrow> typed (fold remSet removes st)"
    by (induction removes arbitrary: st) (auto intro!: typed_remSet simp: split_beta)
qed

lemma bytesAt_puts:
  "dict_ok kvs \<Longrightarrow> bytesAt (fold putVal kvs st) k = (case map_of kvs k of Some v \<Rightarrow> v | None \<Rightarrow> bytesAt st k)"
proof (induction kvs arbitrary: st)
  case (Cons p kvs)
  obtain j v where p: "p = (j, v)" by fastforce
  with Cons.prems have "map_of kvs j = None" by (simp add: map_of_eq_None_iff)
  with p Cons show ?case by (auto simp: putVal_def bytesAt_def split: option.splits)
qed (simp add: bytesAt_def)

lemma membersAt_puts:
  "typed st \<Longrightarrow> \<forall>(k, v) \<in> set kvs. value_key k \<Longrightarrow> membersAt (fold putVal kvs st) k = membersAt st k"
proof (induction kvs arbitrary: st)
  case (Cons p kvs)
  obtain j v where p: "p = (j, v)" by fastforce
  have "membersAt (putVal p st) k = membersAt st k"
    using Cons.prems typed_val[of st j] by (auto simp: p putVal_def membersAt_def split: option.splits)
  with Cons typed_putVal[of st p] show ?case by (simp add: split_beta)
qed simp

lemma membersAt_mkSet: "membersAt (st(j := mkSet m)) k = (if k = j then m else membersAt st k)"
  by (simp add: membersAt_def mkSet_def)

lemma membersAt_adds:
  "dict_ok adds \<Longrightarrow> membersAt (fold addSet adds st) k = membersAt st k \<union> set_at (map_of adds) k"
proof (induction adds arbitrary: st)
  case (Cons p adds)
  obtain j m where p: "p = (j, m)" by fastforce
  with Cons.prems have "set_at (map_of adds) j = {}" by (simp add: set_at_map_of_fresh)
  moreover have "membersAt (addSet p st) k = (if k = j then membersAt st k \<union> m else membersAt st k)"
    by (simp add: p addSet_def membersAt_mkSet del: fun_upd_apply)
  ultimately show ?case using Cons by (simp add: p del: fun_upd_apply)
qed simp

lemma membersAt_rems:
  "dict_ok removes \<Longrightarrow> membersAt (fold remSet removes st) k = membersAt st k - set_at (map_of removes) k"
proof (induction removes arbitrary: st)
  case (Cons p removes)
  obtain j m where p: "p = (j, m)" by fastforce
  with Cons.prems have "set_at (map_of removes) j = {}" by (simp add: set_at_map_of_fresh)
  moreover have "membersAt (remSet p st) k = (if k = j then membersAt st k - m else membersAt st k)"
    by (simp add: p remSet_def membersAt_mkSet del: fun_upd_apply)
  ultimately show ?case using Cons by (simp add: p del: fun_upd_apply)
qed simp

lemma bytesAt_sets:
  assumes "typed st"
  shows "\<forall>(k, m) \<in> set adds. set_key k \<and> finite m \<Longrightarrow> bytesAt (fold addSet adds st) = bytesAt st"
    "\<forall>(k, m) \<in> set removes. set_key k \<Longrightarrow> bytesAt (fold remSet removes st) = bytesAt st"
proof -
  have one: "bytesAt (st(k := mkSet m)) = bytesAt st" if "typed st" "set_key k" for st k m
    using typed_set[OF that] by (auto simp: fun_eq_iff bytesAt_def mkSet_def)
  show "\<forall>(k, m) \<in> set adds. set_key k \<and> finite m \<Longrightarrow> bytesAt (fold addSet adds st) = bytesAt st"
    using assms
  proof (induction adds arbitrary: st)
    case (Cons p adds)
    have "bytesAt (addSet p st) = bytesAt st"
      using Cons.prems one[of st "fst p"] by (simp add: split_beta addSet_def del: fun_upd_apply)
    with Cons typed_addSet[of st p] show ?case by (simp add: split_beta)
  qed simp
  show "\<forall>(k, m) \<in> set removes. set_key k \<Longrightarrow> bytesAt (fold remSet removes st) = bytesAt st"
    using assms
  proof (induction removes arbitrary: st)
    case (Cons p removes)
    have "bytesAt (remSet p st) = bytesAt st"
      using Cons.prems one[of st "fst p"] by (simp add: split_beta remSet_def del: fun_upd_apply)
    with Cons typed_remSet[of st p] show ?case by (simp add: split_beta)
  qed simp
qed

section \<open>The commands of a batch\<close>

lemma applyCommands_append:
  "applyCommands (xs @ ys) c = (case applyCommands xs c of None \<Rightarrow> None | Some c' \<Rightarrow> applyCommands ys c')"
  by (induction xs arbitrary: c) (simp_all split: option.splits)

lemma run_kvs:
  assumes w: "wire_ok w"
  shows "wired w c st \<Longrightarrow> \<exists>c'. applyCommands (map (kvCommand w) kvs) c = Some c' \<and> wired w c' (fold putVal kvs st)"
proof (induction kvs arbitrary: c st)
  case (Cons p kvs)
  obtain k v where p: "p = (k, v)" by fastforce
  let ?c = "c(ser_key w k := map_option RStr v)"
  have "wired w ?c (putVal p st)"
    using Cons.prems by (simp add: wired_def p putVal_def wire_inj[OF w] option.map_comp comp_def)
  moreover have "applyCommand (kvCommand w p) c = Some ?c" by (cases v) (simp_all add: p)
  ultimately show ?case using Cons.IH by simp
qed simp

lemma addSet_insert: "addSet (k, insert v m) st = addSet (k, m) (addSet (k, {v}) st)"
  by (auto simp: addSet_def membersAt_def mkSet_def fun_eq_iff)

lemma remSet_insert: "remSet (k, insert v m) st = remSet (k, m) (remSet (k, {v}) st)"
proof -
  have "membersAt (remSet (k, {v}) st) k = membersAt st k - {v}" by (simp add: remSet_def membersAt_mkSet del: fun_upd_apply)
  moreover have "membersAt st k - insert v m = membersAt st k - {v} - m" by blast
  ultimately show ?thesis by (simp add: remSet_def del: fun_upd_apply)
qed

lemma set_nothing: "typed st \<Longrightarrow> set_key k \<Longrightarrow> addSet (k, {}) st = st \<and> remSet (k, {}) st = st"
  using typed_set[of st k] by (simp add: addSet_def remSet_def fun_upd_idem)

lemma run_sadd1:
  assumes "wire_ok w" "wired w c st" "typed st" "set_key k"
  shows "\<exists>c'. applyCommand (SADD (ser_key w k) (ser_sv w v)) c = Some c' \<and> wired w c' (addSet (k, {v}) st)"
proof -
  have "c (ser_key w k) = (if membersAt st k = {} then None else Some (RSet (ser_sv w ` membersAt st k)))"
    using assms(2) typed_set[OF assms(3,4)] by (simp add: wired_def mkSet_def)
  with assms(1,2) show ?thesis by (auto simp: wired_def addSet_def mkSet_def wire_inj)
qed

lemma run_srem1:
  assumes "wire_ok w" "wired w c st" "typed st" "set_key k"
  shows "\<exists>c'. applyCommand (SREM (ser_key w k) (ser_sv w v)) c = Some c' \<and> wired w c' (remSet (k, {v}) st)"
proof -
  have c: "c (ser_key w k) = (if membersAt st k = {} then None else Some (RSet (ser_sv w ` membersAt st k)))"
    using assms(2) typed_set[OF assms(3,4)] by (simp add: wired_def mkSet_def)
  have i: "ser_sv w ` membersAt st k - {ser_sv w v} = ser_sv w ` (membersAt st k - {v})"
    using wire_inj(2)[OF assms(1)] by auto
  show ?thesis
  proof (cases "membersAt st k = {}")
    case True
    with c assms set_nothing[OF assms(3,4)] show ?thesis by (simp add: remSet_def)
  next
    case False
    then have "applyCommand (SREM (ser_key w k) (ser_sv w v)) c =
        Some (c(ser_key w k := map_option (onWire w) (mkSet (membersAt st k - {v}))))"
      by (simp add: c i mkSet_def)
    with assms(1,2) show ?thesis by (simp add: wired_def remSet_def wire_inj)
  qed
qed

lemma run_sadds:
  assumes w: "wire_ok w" and k: "set_key k"
  shows "wired w c st \<Longrightarrow> typed st \<Longrightarrow>
    \<exists>c'. applyCommands (map (\<lambda>v. SADD (ser_key w k) (ser_sv w v)) vs) c = Some c' \<and> wired w c' (addSet (k, set vs) st)"
proof (induction vs arbitrary: c st)
  case Nil
  then show ?case using set_nothing[OF _ k] by simp
next
  case (Cons v vs)
  obtain c' where c': "applyCommand (SADD (ser_key w k) (ser_sv w v)) c = Some c'" "wired w c' (addSet (k, {v}) st)"
    using run_sadd1[OF w Cons.prems k] by blast
  have "typed (addSet (k, {v}) st)" using Cons.prems k by (intro typed_addSet) auto
  with Cons.IH[OF c'(2)] c'(1) show ?case by (simp add: addSet_insert[of k v "set vs" st])
qed

lemma run_srems:
  assumes w: "wire_ok w" and k: "set_key k"
  shows "wired w c st \<Longrightarrow> typed st \<Longrightarrow>
    \<exists>c'. applyCommands (map (\<lambda>v. SREM (ser_key w k) (ser_sv w v)) vs) c = Some c' \<and> wired w c' (remSet (k, set vs) st)"
proof (induction vs arbitrary: c st)
  case Nil
  then show ?case using set_nothing[OF _ k] by simp
next
  case (Cons v vs)
  obtain c' where c': "applyCommand (SREM (ser_key w k) (ser_sv w v)) c = Some c'" "wired w c' (remSet (k, {v}) st)"
    using run_srem1[OF w Cons.prems k] by blast
  have "typed (remSet (k, {v}) st)" using Cons.prems k by (intro typed_remSet) auto
  with Cons.IH[OF c'(2)] c'(1) show ?case by (simp add: remSet_insert[of k v "set vs" st])
qed

definition setCommands :: "wire \<Rightarrow> pyenv \<Rightarrow> (bytes \<Rightarrow> bytes \<Rightarrow> redis_command) \<Rightarrow> (KeyType \<times> SetValue set) list \<Rightarrow> redis_command list" where
  "setCommands w env command sets = concat (map (\<lambda>(k, m). map (\<lambda>v. command (ser_key w k) (ser_sv w v)) (iterV env m)) sets)"

lemma run_set_commands:
  assumes w: "wire_ok w" and it: "iter_ok env"
  shows "wired w c st \<Longrightarrow> typed st \<Longrightarrow> \<forall>(k, m) \<in> set adds. set_key k \<and> finite m \<Longrightarrow>
      \<exists>c'. applyCommands (setCommands w env SADD adds) c = Some c' \<and> wired w c' (fold addSet adds st)"
    and "wired w c st \<Longrightarrow> typed st \<Longrightarrow> \<forall>(k, m) \<in> set removes. set_key k \<and> finite m \<Longrightarrow>
      \<exists>c'. applyCommands (setCommands w env SREM removes) c = Some c' \<and> wired w c' (fold remSet removes st)"
proof -
  show "wired w c st \<Longrightarrow> typed st \<Longrightarrow> \<forall>(k, m) \<in> set adds. set_key k \<and> finite m \<Longrightarrow>
      \<exists>c'. applyCommands (setCommands w env SADD adds) c = Some c' \<and> wired w c' (fold addSet adds st)"
  proof (induction adds arbitrary: c st)
    case (Cons p adds)
    obtain k m where p: "p = (k, m)" by fastforce
    have k: "set_key k" "finite m" using Cons.prems(3) p by auto
    obtain c' where c': "applyCommands (map (\<lambda>v. SADD (ser_key w k) (ser_sv w v)) (iterV env m)) c = Some c'" "wired w c' (addSet p st)"
      using run_sadds[OF w k(1) Cons.prems(1,2), of "iterV env m"] it k(2) p by auto
    with Cons.IH[OF c'(2)] Cons.prems typed_addSet[of st p] k show ?case by (simp add: setCommands_def p applyCommands_append)
  qed (simp add: setCommands_def)
  show "wired w c st \<Longrightarrow> typed st \<Longrightarrow> \<forall>(k, m) \<in> set removes. set_key k \<and> finite m \<Longrightarrow>
      \<exists>c'. applyCommands (setCommands w env SREM removes) c = Some c' \<and> wired w c' (fold remSet removes st)"
  proof (induction removes arbitrary: c st)
    case (Cons p removes)
    obtain k m where p: "p = (k, m)" by fastforce
    have k: "set_key k" "finite m" using Cons.prems(3) p by auto
    obtain c' where c': "applyCommands (map (\<lambda>v. SREM (ser_key w k) (ser_sv w v)) (iterV env m)) c = Some c'" "wired w c' (remSet p st)"
      using run_srems[OF w k(1) Cons.prems(1,2), of "iterV env m"] it k(2) p by auto
    with Cons.IH[OF c'(2)] Cons.prems typed_remSet[of st p] k show ?case by (simp add: setCommands_def p applyCommands_append)
  qed (simp add: setCommands_def)
qed

section \<open>The cache\<close>

text \<open>\<open>backed\<close>: the database represents the store \<open>st\<close> and the cache holds part of it.\<close>

definition backed :: "('r \<Rightarrow> bytes \<rightharpoonup> redis_value) \<Rightarrow> wire \<Rightarrow> 'r RedisPersistence \<Rightarrow> (KeyType \<rightharpoonup> stored) \<Rightarrow> bool" where
  "backed contents w s st \<longleftrightarrow> typed st \<and> wired w (contents (rp_redis s)) st \<and> rp_cache s \<subseteq>\<^sub>m st"

lemma backed_cached: "backed contents w s st \<Longrightarrow> rp_cache s k = Some x \<Longrightarrow> st k = Some x"
  unfolding backed_def map_le_def by (metis domI)

lemma backed_contents: "backed contents w s st \<Longrightarrow> contents (rp_redis s) (ser_key w k) = map_option (onWire w) (st k)"
  by (simp add: backed_def wired_def)

lemma backed_put: "backed contents w s st \<Longrightarrow> st k = v \<Longrightarrow> backed contents w (s\<lparr>rp_cache := (rp_cache s)(k := v)\<rparr>) st"
  by (auto simp: backed_def map_le_def)

text \<open>Waiting for redis: each round sleeps once, and \<open>loading\<close> rounds are enough.\<close>

lemma retryLoading_run:
  assumes ok: "redis_ok rd contents loading"
    and busy: "\<And>r. loading r > 0 \<Longrightarrow> call r = Inl BusyLoadingError"
    and ready: "\<And>r. loading r = 0 \<Longrightarrow> contents r = contents (rp_redis s) \<Longrightarrow> call r = Inr a"
    and fuel: "loading (rp_redis s) < fuel"
  shows "\<exists>r. retryLoading rd fuel call s = (Inr a, s\<lparr>rp_redis := r\<rparr>) \<and> loading r = 0 \<and> contents r = contents (rp_redis s)"
  using ready fuel
proof (induction fuel arbitrary: s)
  case (Suc fuel)
  show ?case
  proof (cases "loading (rp_redis s) = 0")
    case True
    with Suc.prems(1)[of "rp_redis s"] show ?thesis by (intro exI[of _ "rp_redis s"]) simp
  next
    case False
    let ?s = "s\<lparr>rp_redis := rd_sleep rd (rp_redis s)\<rparr>"
    have sleep: "loading (rp_redis ?s) = loading (rp_redis s) - 1" "contents (rp_redis ?s) = contents (rp_redis s)"
      using ok False by (auto simp: redis_ok_def)
    have "retryLoading rd (Suc fuel) call s = retryLoading rd fuel call ?s" using busy False by simp
    with Suc.IH[of ?s] Suc.prems sleep False show ?thesis by auto
  qed
qed simp

lemma redis_answers:
  assumes "redis_ok rd contents loading"
  shows "loading r > 0 \<Longrightarrow> rd_get rd k r = Inl BusyLoadingError \<and> rd_smembers rd k r = Inl BusyLoadingError"
    "loading r = 0 \<Longrightarrow> contents r k = None \<Longrightarrow> rd_get rd k r = Inr None \<and> rd_smembers rd k r = Inr {}"
    "loading r = 0 \<Longrightarrow> contents r k = Some (RStr b) \<Longrightarrow> rd_get rd k r = Inr (Some b)"
    "loading r = 0 \<Longrightarrow> contents r k = Some (RSet m) \<Longrightarrow> rd_smembers rd k r = Inr m"
  using assms by (simp_all add: redis_ok_def)

lemma backed_redis: "backed contents w s st \<Longrightarrow> contents r = contents (rp_redis s) \<Longrightarrow> backed contents w (s\<lparr>rp_redis := r\<rparr>) st"
  by (simp add: backed_def)

lemma redis_get_run:
  assumes ok: "redis_ok rd contents loading" and b: "backed contents w s st" and k: "value_key k"
    and fuel: "loading (rp_redis s) < fuel"
  shows "\<exists>s'. redis_get rd w fuel k s = (Inr (bytesAt st k), s') \<and> backed contents w s' st \<and>
    contents (rp_redis s') = contents (rp_redis s) \<and> loading (rp_redis s') \<le> loading (rp_redis s) \<and>
    (rp_cache s k = None \<longrightarrow> loading (rp_redis s') = 0)"
proof (cases "rp_cache s k")
  case (Some x)
  from backed_cached[OF b Some] typed_val[of st k] b k obtain y where "x = Bytes y" "bytesAt st k = Some y"
    by (cases "bytesAt st k") (auto simp: backed_def)
  with Some b show ?thesis by (simp add: redis_get_def)
next
  case None
  have st: "st k = map_option Bytes (bytesAt st k)" using typed_val[of st k] b k by (simp add: backed_def)
  have c: "contents (rp_redis s) (ser_key w k) = map_option RStr (bytesAt st k)"
    using backed_contents[OF b, of k] by (subst (asm) st) (simp add: option.map_comp comp_def)
  have "\<exists>r. retryLoading rd fuel (rd_get rd (ser_key w k)) s = (Inr (bytesAt st k), s\<lparr>rp_redis := r\<rparr>) \<and> loading r = 0 \<and>
      contents r = contents (rp_redis s)"
    using fuel redis_answers[OF ok, of _ "ser_key w k"] c by (intro retryLoading_run[OF ok]) (cases "bytesAt st k"; simp)+
  then obtain r where r: "retryLoading rd fuel (rd_get rd (ser_key w k)) s = (Inr (bytesAt st k), s\<lparr>rp_redis := r\<rparr>)"
      "loading r = 0" "contents r = contents (rp_redis s)" by blast
  note b' = backed_redis[OF b r(3)]
  show ?thesis
  proof (cases "bytesAt st k")
    case None': None
    with None r b' show ?thesis by (simp add: redis_get_def)
  next
    case (Some y)
    have "backed contents w (s\<lparr>rp_redis := r, rp_cache := (rp_cache s)(k \<mapsto> Bytes y)\<rparr>) st"
      using backed_put[OF b', of k "Some (Bytes y)"] st Some by simp
    with None r Some show ?thesis by (simp add: redis_get_def cachePut_def)
  qed
qed

lemma redis_getSetMembers_run:
  assumes ok: "redis_ok rd contents loading" and w: "wire_ok w" and b: "backed contents w s st" and k: "set_key k"
    and fuel: "loading (rp_redis s) < fuel"
  shows "\<exists>s'. redis_getSetMembers rd w fuel k s = (Inr (membersAt st k), s') \<and> backed contents w s' st \<and>
    contents (rp_redis s') = contents (rp_redis s) \<and> loading (rp_redis s') \<le> loading (rp_redis s) \<and>
    rp_cache s' k = st k \<and> rp_cache s \<subseteq>\<^sub>m rp_cache s'"
proof (cases "rp_cache s k")
  case (Some x)
  from backed_cached[OF b Some] typed_set[of st k] b k have "x = Members (membersAt st k)" "st k = Some x"
    by (auto simp: backed_def mkSet_def split: if_splits)
  with Some b show ?thesis by (simp add: redis_getSetMembers_def)
next
  case None
  let ?m = "membersAt st k"
  have st: "st k = mkSet ?m" using typed_set[of st k] b k by (simp add: backed_def)
  have c: "contents (rp_redis s) (ser_key w k) = (if ?m = {} then None else Some (RSet (ser_sv w ` ?m)))"
    using backed_contents[OF b, of k] by (subst (asm) st) (simp add: mkSet_def)
  have "\<exists>r. retryLoading rd fuel (rd_smembers rd (ser_key w k)) s = (Inr (ser_sv w ` ?m), s\<lparr>rp_redis := r\<rparr>) \<and> loading r = 0 \<and>
      contents r = contents (rp_redis s)"
    using fuel redis_answers[OF ok, of _ "ser_key w k"] c by (intro retryLoading_run[OF ok]) (cases "?m = {}"; simp)+
  then obtain r where r: "retryLoading rd fuel (rd_smembers rd (ser_key w k)) s = (Inr (ser_sv w ` ?m), s\<lparr>rp_redis := r\<rparr>)"
      "loading r = 0" "contents r = contents (rp_redis s)" by blast
  note b' = backed_redis[OF b r(3)]
  have decode: "deser_sv w (ser_sv w v) = Some v" for v using w by (simp add: wire_ok_def)
  show ?thesis
  proof (cases "?m = {}")
    case True
    with None r b' st show ?thesis by (simp add: redis_getSetMembers_def mkSet_def)
  next
    case False
    have "backed contents w (s\<lparr>rp_redis := r, rp_cache := (rp_cache s)(k \<mapsto> Members ?m)\<rparr>) st"
      using backed_put[OF b', of k "Some (Members ?m)"] st False by (simp add: mkSet_def)
    moreover have "rp_cache s \<subseteq>\<^sub>m (rp_cache s)(k \<mapsto> Members ?m)" using None by (auto simp: map_le_def)
    ultimately show ?thesis using None r False st
      by (simp add: redis_getSetMembers_def cachePut_def decode image_image mkSet_def Let_def)
  qed
qed

text \<open>Building the pipeline loads the sets it touches.\<close>

lemma loadUncached_run:
  assumes "redis_ok rd contents loading" "wire_ok w" "backed contents w s st" "set_key k" "loading (rp_redis s) < fuel"
  shows "\<exists>s'. loadUncached rd w fuel k s = (Inr (), s') \<and> backed contents w s' st \<and>
    contents (rp_redis s') = contents (rp_redis s) \<and> loading (rp_redis s') \<le> loading (rp_redis s) \<and>
    rp_cache s' k = st k \<and> rp_cache s \<subseteq>\<^sub>m rp_cache s'"
proof (cases "rp_cache s k")
  case None
  with redis_getSetMembers_run[OF assms] show ?thesis by (auto simp: loadUncached_def)
next
  case (Some x)
  with backed_cached[OF assms(3) this] assms(3) show ?thesis by (simp add: loadUncached_def)
qed

lemma pipeSets_run:
  assumes ok: "redis_ok rd contents loading" and w: "wire_ok w" and fuel: "loading (rp_redis s) < fuel"
  shows "backed contents w s st \<Longrightarrow> \<forall>(k, m) \<in> set sets. set_key k \<Longrightarrow>
    \<exists>s'. pipeSets rd w fuel env command sets pipe s = (Inr (pipe @ setCommands w env command sets), s') \<and>
      backed contents w s' st \<and> contents (rp_redis s') = contents (rp_redis s) \<and>
      loading (rp_redis s') \<le> loading (rp_redis s) \<and>
      rp_cache s \<subseteq>\<^sub>m rp_cache s' \<and> (\<forall>k \<in> fst ` set sets. rp_cache s' k = st k)"
  using fuel
proof (induction sets arbitrary: s pipe)
  case Nil
  then show ?case by (simp add: pipeSets_def setCommands_def)
next
  case (Cons p sets)
  obtain k m where p: "p = (k, m)" by fastforce
  have k: "set_key k" using Cons.prems(2) p by simp
  obtain s1 where s1: "loadUncached rd w fuel k s = (Inr (), s1)" "backed contents w s1 st"
      "contents (rp_redis s1) = contents (rp_redis s)" "loading (rp_redis s1) \<le> loading (rp_redis s)"
      "rp_cache s1 k = st k" "rp_cache s \<subseteq>\<^sub>m rp_cache s1"
    using loadUncached_run[OF ok w Cons.prems(1) k Cons.prems(3)] by blast
  let ?pipe = "pipe @ map (\<lambda>v. command (ser_key w k) (ser_sv w v)) (iterV env m)"
  have "\<forall>(k, m) \<in> set sets. set_key k" "loading (rp_redis s1) < fuel" using Cons.prems(2,3) s1(4) by auto
  from Cons.IH[OF s1(2) this, of ?pipe] obtain s' where
    s': "pipeSets rd w fuel env command sets ?pipe s1 = (Inr (?pipe @ setCommands w env command sets), s')"
      "backed contents w s' st" "contents (rp_redis s') = contents (rp_redis s1)" "loading (rp_redis s') \<le> loading (rp_redis s1)"
      "rp_cache s1 \<subseteq>\<^sub>m rp_cache s'" "\<forall>k \<in> fst ` set sets. rp_cache s' k = st k" by blast
  have "rp_cache s' k = st k"
  proof (cases "st k")
    case None
    then show ?thesis using s'(2) backed_cached[OF s'(2), of k] by (cases "rp_cache s' k") auto
  next
    case (Some x)
    then show ?thesis using s1(5) s'(5) unfolding map_le_def by (metis domI)
  qed
  moreover have "pipeSets rd w fuel env command (p # sets) pipe s = pipeSets rd w fuel env command sets ?pipe s1"
    by (simp add: pipeSets_def p s1(1))
  moreover have "rp_cache s \<subseteq>\<^sub>m rp_cache s'" using s1(6) s'(5) by (rule map_le_trans)
  ultimately show ?case using s' s1(3,4) by (simp add: setCommands_def p)
qed

section \<open>Updating the cache\<close>

text \<open>After the pipeline the cache goes through the same changes as the database. \<open>on K\<close>: the cache holds part of
  the store, and all of it at the keys \<open>K\<close> the batch touches.\<close>

definition cache_of :: "KeyType set \<Rightarrow> (KeyType \<rightharpoonup> stored) \<Rightarrow> 'r RedisPersistence \<Rightarrow> bool" where
  "cache_of K st s \<longleftrightarrow> rp_cache s \<subseteq>\<^sub>m st \<and> (\<forall>k \<in> K. rp_cache s k = st k)"

lemma cache_of_upd: "cache_of K st s \<Longrightarrow> cache_of K (st(k := v)) (s\<lparr>rp_cache := (rp_cache s)(k := v)\<rparr>)"
  by (auto simp: cache_of_def map_le_def)

lemma cache_kvs_run:
  "cache_of K st s \<Longrightarrow> \<exists>s'. forM kvs cacheKv s = (Inr (), s') \<and> rp_redis s' = rp_redis s \<and> cache_of K (fold putVal kvs st) s'"
proof (induction kvs arbitrary: s st)
  case (Cons p kvs)
  obtain k v where p: "p = (k, v)" by fastforce
  let ?s = "s\<lparr>rp_cache := (rp_cache s)(k := map_option Bytes v)\<rparr>"
  have "cache_of K (putVal p st) ?s" using cache_of_upd[OF Cons.prems] by (simp add: p putVal_def del: fun_upd_apply)
  from Cons.IH[OF this] show ?case by (auto simp: p cacheKv_def cachePut_def)
qed simp

lemma cache_adds1:
  "rp_cache s k = Some (Members m) \<Longrightarrow>
     forM vs (cacheAdd1 k) s = (Inr (), s\<lparr>rp_cache := (rp_cache s)(k \<mapsto> Members (m \<union> set vs))\<rparr>)"
proof (induction vs arbitrary: s m)
  case Nil
  then show ?case by (simp add: fun_upd_idem)
next
  case (Cons v vs)
  let ?s = "s\<lparr>rp_cache := (rp_cache s)(k \<mapsto> Members (insert v m))\<rparr>"
  have "cacheAdd1 k v s = (Inr (), ?s)" using Cons.prems by (simp add: cacheAdd1_def cachePut_def)
  then show ?case using Cons.IH[of ?s "insert v m"] by (simp add: fun_upd_def cong: if_cong)
qed

lemma cache_removes1:
  "rp_cache s k = Some (Members m) \<Longrightarrow> set vs \<subseteq> m \<Longrightarrow> distinct vs \<Longrightarrow>
     forM vs (cacheRemove1 k) s = (Inr (), s\<lparr>rp_cache := (rp_cache s)(k \<mapsto> Members (m - set vs))\<rparr>)"
proof (induction vs arbitrary: s m)
  case Nil
  then show ?case by (simp add: fun_upd_idem)
next
  case (Cons v vs)
  let ?s = "s\<lparr>rp_cache := (rp_cache s)(k \<mapsto> Members (m - {v}))\<rparr>"
  have "cacheRemove1 k v s = (Inr (), ?s)" using Cons.prems by (simp add: cacheRemove1_def cachePut_def)
  moreover have "m - {v} - set vs = m - insert v (set vs)" by blast
  ultimately show ?case using Cons.IH[of ?s "m - {v}"] Cons.prems by (auto simp: fun_upd_def cong: if_cong)
qed

lemma cache_add_run:
  assumes it: "iter_ok env" and st: "typed st" and c: "cache_of K st s" and k: "k \<in> K" "set_key k" "finite m" "m \<noteq> {}"
    and new: "membersAt st k = {} \<Longrightarrow> k \<notin> set ns"
  shows "cacheAdds env (k, m) ns s = (Inr (if membersAt st k = {} then ns @ [k] else ns),
    s\<lparr>rp_cache := (rp_cache s)(k := mkSet (membersAt st k \<union> m))\<rparr>)"
proof -
  have cur: "rp_cache s k = mkSet (membersAt st k)" using typed_set[OF st k(2)] c k(1) by (simp add: cache_of_def)
  show ?thesis
  proof (cases "membersAt st k = {}")
    case True
    let ?s = "s\<lparr>rp_cache := (rp_cache s)(k \<mapsto> Members {})\<rparr>"
    have "forM (iterV env m) (cacheAdd1 k) ?s = (Inr (), s\<lparr>rp_cache := (rp_cache s)(k \<mapsto> Members m)\<rparr>)"
      using cache_adds1[of ?s k "{}" "iterV env m"] it k(3) by simp
    with True cur new k(4) show ?thesis by (simp add: cacheAdds_def cachePut_def falsy_def mkSet_def)
  next
    case False
    have "forM (iterV env m) (cacheAdd1 k) s = (Inr (), s\<lparr>rp_cache := (rp_cache s)(k \<mapsto> Members (membersAt st k \<union> m))\<rparr>)"
      using cache_adds1[of s k "membersAt st k" "iterV env m"] it k(3) False cur by (simp add: mkSet_def)
    with False cur k(4) show ?thesis by (simp add: cacheAdds_def falsy_def mkSet_def)
  qed
qed

lemma cache_remove_run:
  assumes it: "iter_ok env" and st: "typed st" and c: "cache_of K st s" and k: "k \<in> K" "set_key k" "finite m" "m \<noteq> {}"
    and sub: "m \<subseteq> membersAt st k"
  shows "cacheRemoves env (k, m) ds s = (Inr (if membersAt st k - m = {} then ds @ [k] else ds),
    s\<lparr>rp_cache := (rp_cache s)(k := mkSet (membersAt st k - m))\<rparr>)"
proof -
  have cur: "rp_cache s k = Some (Members (membersAt st k))" and ne: "membersAt st k \<noteq> {}"
    using typed_set[OF st k(2)] c k(1,4) sub by (auto simp: cache_of_def mkSet_def)
  have "forM (iterV env m) (cacheRemove1 k) s = (Inr (), s\<lparr>rp_cache := (rp_cache s)(k \<mapsto> Members (membersAt st k - m))\<rparr>)"
    using cache_removes1[OF cur, of "iterV env m"] it k(3) sub by simp
  with cur ne k(4) show ?thesis by (simp add: cacheRemoves_def cachePut_def falsy_def mkSet_def)
qed

lemma cache_adds_run:
  assumes it: "iter_ok env"
  shows "typed st \<Longrightarrow> cache_of K st s \<Longrightarrow> dict_ok adds \<Longrightarrow> set ns \<inter> fst ` set adds = {} \<Longrightarrow>
    \<forall>(k, m) \<in> set adds. k \<in> K \<and> set_key k \<and> finite m \<and> m \<noteq> {} \<Longrightarrow>
    \<exists>s'. foldMl (cacheAdds env) adds ns s = (Inr (ns @ filter (\<lambda>k. membersAt st k = {}) (map fst adds)), s') \<and>
      rp_redis s' = rp_redis s \<and> cache_of K (fold addSet adds st) s'"
proof (induction adds arbitrary: s st ns)
  case (Cons p adds)
  obtain k m where p: "p = (k, m)" by fastforce
  have k: "k \<in> K" "set_key k" "finite m" "m \<noteq> {}" using Cons.prems(5) p by auto
  let ?s = "s\<lparr>rp_cache := (rp_cache s)(k := mkSet (membersAt st k \<union> m))\<rparr>"
  let ?ns = "if membersAt st k = {} then ns @ [k] else ns"
  have one: "cacheAdds env p ns s = (Inr ?ns, ?s)"
    unfolding p using Cons.prems p by (intro cache_add_run[OF it _ _ k]) auto
  have c: "cache_of K (addSet p st) ?s" using cache_of_upd[OF Cons.prems(2)] by (simp add: p addSet_def del: fun_upd_apply)
  have t: "typed (addSet p st)" using Cons.prems(1) k p by (intro typed_addSet) auto
  have other: "membersAt (addSet p st) j = membersAt st j" if "j \<in> fst ` set adds" for j
    using that Cons.prems(3) p by (auto simp: addSet_def membersAt_mkSet simp del: fun_upd_apply)
  have f: "filter (\<lambda>k. membersAt (addSet p st) k = {}) (map fst adds) = filter (\<lambda>k. membersAt st k = {}) (map fst adds)"
    using other by (intro filter_cong) auto
  have disj: "set ?ns \<inter> fst ` set adds = {}" using Cons.prems(3,4) p by auto
  have "dict_ok adds" "\<forall>(k, m) \<in> set adds. k \<in> K \<and> set_key k \<and> finite m \<and> m \<noteq> {}" using Cons.prems(3,5) by auto
  from Cons.IH[OF t c this(1) disj this(2)] obtain s' where
    s': "foldMl (cacheAdds env) adds ?ns ?s = (Inr (?ns @ filter (\<lambda>k. membersAt st k = {}) (map fst adds)), s')"
      "rp_redis s' = rp_redis s" "cache_of K (fold addSet adds (addSet p st)) s'" unfolding f by auto
  have "foldMl (cacheAdds env) (p # adds) ns s = foldMl (cacheAdds env) adds ?ns ?s" by (simp add: one)
  moreover have "fst p = k" by (simp add: p)
  ultimately show ?case using s' by (intro exI[of _ s']) simp
qed simp

lemma cache_removes_run:
  assumes it: "iter_ok env"
  shows "typed st \<Longrightarrow> cache_of K st s \<Longrightarrow> dict_ok removes \<Longrightarrow>
    \<forall>(k, m) \<in> set removes. k \<in> K \<and> set_key k \<and> finite m \<and> m \<noteq> {} \<and> m \<subseteq> membersAt st k \<Longrightarrow>
    \<exists>s' ds'. foldMl (cacheRemoves env) removes ds s = (Inr (ds @ ds'), s') \<and>
      set ds' = {k \<in> fst ` set removes. membersAt (fold remSet removes st) k = {}} \<and>
      rp_redis s' = rp_redis s \<and> cache_of K (fold remSet removes st) s'"
proof (induction removes arbitrary: s st ds)
  case (Cons p removes)
  obtain k m where p: "p = (k, m)" by fastforce
  have k: "k \<in> K" "set_key k" "finite m" "m \<noteq> {}" "m \<subseteq> membersAt st k" using Cons.prems(4) p by auto
  let ?s = "s\<lparr>rp_cache := (rp_cache s)(k := mkSet (membersAt st k - m))\<rparr>"
  let ?ds = "if membersAt st k - m = {} then ds @ [k] else ds"
  have one: "cacheRemoves env p ds s = (Inr ?ds, ?s)"
    unfolding p using Cons.prems(1,2) k(5) by (intro cache_remove_run[OF it _ _ k(1-4)]) auto
  have c: "cache_of K (remSet p st) ?s" using cache_of_upd[OF Cons.prems(2)] by (simp add: p remSet_def del: fun_upd_apply)
  have t: "typed (remSet p st)" using Cons.prems(1) k p by (intro typed_remSet) auto
  have d: "dict_ok removes" "k \<notin> fst ` set removes" using Cons.prems(3) p by auto
  have other: "membersAt (remSet p st) j = (if j = k then membersAt st k - m else membersAt st j)" for j
    by (simp add: p remSet_def membersAt_mkSet del: fun_upd_apply)
  have "\<forall>(k, m) \<in> set removes. k \<in> K \<and> set_key k \<and> finite m \<and> m \<noteq> {} \<and> m \<subseteq> membersAt (remSet p st) k"
  proof (intro ballI, clarify)
    fix j n assume j: "(j, n) \<in> set removes"
    then have "j \<noteq> k" using d(2) by force
    with j Cons.prems(4) show "j \<in> K \<and> set_key j \<and> finite n \<and> n \<noteq> {} \<and> n \<subseteq> membersAt (remSet p st) j"
      by (auto simp: other)
  qed
  from Cons.IH[OF t c d(1) this, of ?ds] obtain s' ds' where
    s': "foldMl (cacheRemoves env) removes ?ds ?s = (Inr (?ds @ ds'), s')" "rp_redis s' = rp_redis s"
      "set ds' = {k \<in> fst ` set removes. membersAt (fold remSet removes (remSet p st)) k = {}}"
      "cache_of K (fold remSet removes (remSet p st)) s'" by auto
  have "membersAt (fold remSet removes (remSet p st)) k = membersAt st k - m"
    using d by (simp add: membersAt_rems other set_at_map_of_fresh)
  with s' d(2) one show ?case
    by (intro exI[of _ s'] exI[of _ "(if membersAt st k - m = {} then [k] else []) @ ds'"]) (auto simp: p)
qed simp

section \<open>Second provider of the store contract\<close>

definition redis_inv :: "'r redis \<Rightarrow> ('r \<Rightarrow> bytes \<rightharpoonup> redis_value) \<Rightarrow> ('r \<Rightarrow> nat) \<Rightarrow> wire \<Rightarrow> nat \<Rightarrow> pyenv \<Rightarrow> 'r RedisPersistence \<Rightarrow> bool" where
  "redis_inv rd contents loading w fuel env s \<longleftrightarrow>
     redis_ok rd contents loading \<and> wire_ok w \<and> iter_ok env \<and> 0 < fuel \<and> loading (rp_redis s) = 0 \<and> (\<exists>st. backed contents w s st)"

definition redis_vals :: "('r \<Rightarrow> bytes \<rightharpoonup> redis_value) \<Rightarrow> wire \<Rightarrow> 'r RedisPersistence \<Rightarrow> KeyType \<Rightarrow> bytes option" where
  "redis_vals contents w s k = (case contents (rp_redis s) (ser_key w k) of Some (RStr b) \<Rightarrow> Some b | _ \<Rightarrow> None)"

definition redis_sets :: "('r \<Rightarrow> bytes \<rightharpoonup> redis_value) \<Rightarrow> wire \<Rightarrow> 'r RedisPersistence \<Rightarrow> KeyType \<Rightarrow> SetValue set" where
  "redis_sets contents w s k = (case contents (rp_redis s) (ser_key w k) of Some (RSet m) \<Rightarrow> {v. ser_sv w v \<in> m} | _ \<Rightarrow> {})"

lemma redis_views:
  assumes "wire_ok w" "backed contents w s st"
  shows "redis_vals contents w s = bytesAt st" "redis_sets contents w s = membersAt st"
proof -
  note c = backed_contents[OF assms(2)]
  show "redis_vals contents w s = bytesAt st"
    by (rule ext) (simp add: redis_vals_def c bytesAt_def split: option.splits stored.splits)
  have "{v. ser_sv w v \<in> ser_sv w ` m} = m" for m using wire_inj(2)[OF assms(1)] by auto
  then show "redis_sets contents w s = membersAt st"
    by (intro ext) (simp add: redis_sets_def c membersAt_def split: option.splits stored.splits)
qed

lemma batch_subset: "batch_ok S kvs adds removes \<Longrightarrow> (k, m) \<in> set removes \<Longrightarrow> m \<subseteq> S k \<union> set_at (map_of adds) k"
  by (auto simp: batch_ok_def)

definition afterBatch :: "(KeyType \<times> bytes option) list \<Rightarrow> (KeyType \<times> SetValue set) list \<Rightarrow> (KeyType \<times> SetValue set) list
    \<Rightarrow> (KeyType \<rightharpoonup> stored) \<Rightarrow> KeyType \<rightharpoonup> stored" where
  "afterBatch kvs adds removes st = fold remSet removes (fold addSet adds (fold putVal kvs st))"

lemma batch_typed:
  assumes "typed st" "batch_ok (membersAt st) kvs adds removes"
  shows "typed (fold putVal kvs st)" "typed (fold addSet adds (fold putVal kvs st))" "typed (afterBatch kvs adds removes st)"
proof -
  show 1: "typed (fold putVal kvs st)" using assms by (intro typed_folds) (auto simp: batch_ok_def)
  show 2: "typed (fold addSet adds (fold putVal kvs st))" using assms(2) by (intro typed_folds 1) (auto simp: batch_ok_def)
  show "typed (afterBatch kvs adds removes st)"
    unfolding afterBatch_def using assms(2) by (intro typed_folds 2) (auto simp: batch_ok_def)
qed

text \<open>What the pipeline of a batch does to the database.\<close>

lemma batch_commands:
  assumes w: "wire_ok w" and it: "iter_ok env" and st: "typed st" and b: "batch_ok (membersAt st) kvs adds removes"
    and c: "wired w c st"
  shows "\<exists>c'. applyCommands (map (kvCommand w) kvs @ setCommands w env SADD adds @ setCommands w env SREM removes) c = Some c' \<and>
    wired w c' (afterBatch kvs adds removes st)"
proof -
  note t = batch_typed[OF st b]
  obtain c1 where c1: "applyCommands (map (kvCommand w) kvs) c = Some c1" "wired w c1 (fold putVal kvs st)"
    using run_kvs[OF w c] by blast
  have "\<forall>(k, m) \<in> set adds. set_key k \<and> finite m" "\<forall>(k, m) \<in> set removes. set_key k \<and> finite m"
    using b by (auto simp: batch_ok_def)
  note sets = this
  obtain c2 where c2: "applyCommands (setCommands w env SADD adds) c1 = Some c2" "wired w c2 (fold addSet adds (fold putVal kvs st))"
    using run_set_commands(1)[OF w it c1(2) t(1) sets(1)] by blast
  show ?thesis
    using run_set_commands(2)[OF w it c2(2) t(2) sets(2)] c1(1) c2(1)
    by (auto simp: applyCommands_append afterBatch_def)
qed

text \<open>What the second half of \<open>setSeveral\<close> does to the cache.\<close>

lemma batch_cache:
  assumes it: "iter_ok env" and st: "typed st" and b: "batch_ok (membersAt st) kvs adds removes"
    and c: "cache_of (fst ` set adds \<union> fst ` set removes) st s"
  shows "\<exists>s1 s2 s' dr. forM kvs cacheKv s = (Inr (), s1) \<and>
    foldMl (cacheAdds env) adds [] s1 = (Inr (filter (\<lambda>k. membersAt st k = {}) (map fst adds)), s2) \<and>
    foldMl (cacheRemoves env) removes [] s2 = (Inr dr, s') \<and>
    set dr = {k \<in> fst ` set removes. membersAt (afterBatch kvs adds removes st) k = {}} \<and>
    rp_redis s' = rp_redis s \<and> rp_cache s' \<subseteq>\<^sub>m afterBatch kvs adds removes st"
proof -
  let ?K = "fst ` set adds \<union> fst ` set removes"
  note t = batch_typed[OF st b]
  have kv: "\<forall>(k, v) \<in> set kvs. value_key k" using b by (auto simp: batch_ok_def)
  note m1 = membersAt_puts[OF st kv]
  obtain s1 where s1: "forM kvs cacheKv s = (Inr (), s1)" "rp_redis s1 = rp_redis s" "cache_of ?K (fold putVal kvs st) s1"
    using cache_kvs_run[OF c] by blast
  have "dict_ok adds" using b by (simp add: batch_ok_def)
  moreover have "\<forall>(k, m) \<in> set adds. k \<in> ?K \<and> set_key k \<and> finite m \<and> m \<noteq> {}"
  proof (intro ballI, clarify)
    fix k m assume k: "(k, m) \<in> set adds"
    then have "k \<in> ?K" by force
    moreover have "set_key k \<and> finite m \<and> m \<noteq> {}" using b k unfolding batch_ok_def by blast
    ultimately show "k \<in> ?K \<and> set_key k \<and> finite m \<and> m \<noteq> {}" by simp
  qed
  ultimately have adds: "dict_ok adds" "\<forall>(k, m) \<in> set adds. k \<in> ?K \<and> set_key k \<and> finite m \<and> m \<noteq> {}" .
  with cache_adds_run[OF it t(1) s1(3) adds(1) _ adds(2), of "[]"] obtain s2 where
    s2: "foldMl (cacheAdds env) adds [] s1 = (Inr (filter (\<lambda>k. membersAt st k = {}) (map fst adds)), s2)"
      "rp_redis s2 = rp_redis s1" "cache_of ?K (fold addSet adds (fold putVal kvs st)) s2"
    by (auto simp: m1)
  have r: "dict_ok removes" "dict_ok adds" using b by (simp_all add: batch_ok_def)
  have "\<forall>(k, m) \<in> set removes. k \<in> ?K \<and> set_key k \<and> finite m \<and> m \<noteq> {} \<and>
      m \<subseteq> membersAt (fold addSet adds (fold putVal kvs st)) k"
  proof (intro ballI, clarify)
    fix k m assume "(k, m) \<in> set removes"
    note k = this
    have "set_key k \<and> finite m \<and> m \<noteq> {}" using b k unfolding batch_ok_def by blast
    moreover have "m \<subseteq> membersAt (fold addSet adds (fold putVal kvs st)) k"
      using batch_subset[OF b k] by (simp add: membersAt_adds[OF r(2)] m1)
    moreover have "k \<in> ?K" using k by force
    ultimately show "k \<in> ?K \<and> set_key k \<and> finite m \<and> m \<noteq> {} \<and> m \<subseteq> membersAt (fold addSet adds (fold putVal kvs st)) k"
      by simp
  qed
  from cache_removes_run[OF it t(2) s2(3) r(1) this, of "[]"] s1 s2 show ?thesis
    unfolding afterBatch_def cache_of_def by auto
qed

lemma redis_setSeveral_run:
  assumes inv: "redis_ok rd contents loading" "wire_ok w" "iter_ok env" "0 < fuel" "loading (rp_redis s) = 0"
    and s: "backed contents w s st" and b: "batch_ok (membersAt st) kvs adds removes"
  shows "\<exists>s' dr. redis_setSeveral rd w fuel env kvs adds removes s =
      (Inr (filter (\<lambda>k. membersAt st k = {}) (map fst adds), dr), s') \<and>
    set dr = {k \<in> fst ` set removes. membersAt (afterBatch kvs adds removes st) k = {}} \<and>
    loading (rp_redis s') = 0 \<and> backed contents w s' (afterBatch kvs adds removes st)"
proof -
  have st: "typed st" using s by (simp add: backed_def)
  have keys: "\<forall>(k, m) \<in> set adds. set_key k" "\<forall>(k, m) \<in> set removes. set_key k" using b by (auto simp: batch_ok_def)
  let ?kv = "map (kvCommand w) kvs" and ?A = "setCommands w env SADD adds" and ?R = "setCommands w env SREM removes"
  have fuel: "loading (rp_redis s) < fuel" using inv(4,5) by simp
  obtain s1 where s1: "pipeSets rd w fuel env SADD adds ?kv s = (Inr (?kv @ ?A), s1)" "backed contents w s1 st"
      "loading (rp_redis s1) = 0" "\<forall>k \<in> fst ` set adds. rp_cache s1 k = st k"
    using pipeSets_run[OF inv(1,2) fuel s keys(1), of env SADD ?kv] inv(5) by auto
  have fuel1: "loading (rp_redis s1) < fuel" using inv(4) s1(3) by simp
  obtain s2 where s2: "pipeSets rd w fuel env SREM removes (?kv @ ?A) s1 = (Inr ((?kv @ ?A) @ ?R), s2)" "backed contents w s2 st"
      "loading (rp_redis s2) = 0" "\<forall>k \<in> fst ` set removes. rp_cache s2 k = st k" "rp_cache s1 \<subseteq>\<^sub>m rp_cache s2"
    using pipeSets_run[OF inv(1,2) fuel1 s1(2) keys(2), of env SREM "?kv @ ?A"] s1(3) by auto
  have le: "rp_cache s2 \<subseteq>\<^sub>m st" using s2(2) by (simp add: backed_def)
  have "rp_cache s2 k = st k" if "k \<in> fst ` set adds" for k
    using s1(4) s2(5) le that unfolding map_le_def by (metis domIff option.distinct(1))
  with s2(4) le have cache: "cache_of (fst ` set adds \<union> fst ` set removes) st s2" by (auto simp: cache_of_def)
  obtain c' where c': "applyCommands ((?kv @ ?A) @ ?R) (contents (rp_redis s2)) = Some c'" "wired w c' (afterBatch kvs adds removes st)"
    using batch_commands[OF inv(2,3) st b, of "contents (rp_redis s2)"] s2(2) by (auto simp: backed_def)
  obtain r where r: "rd_execute rd ((?kv @ ?A) @ ?R) (rp_redis s2) = (Inr (), r)" "contents r = c'" "loading r = 0"
    using inv(1) c'(1) s2(3) unfolding redis_ok_def by blast
  let ?s = "s2\<lparr>rp_redis := r\<rparr>"
  have ex: "redisExecute rd ((?kv @ ?A) @ ?R) s2 = (Inr (), ?s)" unfolding redisExecute_def r(1) by simp
  have "cache_of (fst ` set adds \<union> fst ` set removes) st ?s" using cache by (simp add: cache_of_def)
  from batch_cache[OF inv(3) st b this] obtain s3 s4 s' dr where
    f: "forM kvs cacheKv ?s = (Inr (), s3)"
      "foldMl (cacheAdds env) adds [] s3 = (Inr (filter (\<lambda>k. membersAt st k = {}) (map fst adds)), s4)"
      "foldMl (cacheRemoves env) removes [] s4 = (Inr dr, s')"
      "set dr = {k \<in> fst ` set removes. membersAt (afterBatch kvs adds removes st) k = {}}"
      "rp_redis s' = r" "rp_cache s' \<subseteq>\<^sub>m afterBatch kvs adds removes st" by auto
  have "redis_setSeveral rd w fuel env kvs adds removes s = (Inr (filter (\<lambda>k. membersAt st k = {}) (map fst adds), dr), s')"
    using f(1-3) by (simp add: redis_setSeveral_def s1(1) s2(1) ex del: append_assoc)
  with f r(2,3) c'(2) batch_typed(3)[OF st b] show ?thesis by (simp add: backed_def)
qed

interpretation redis: kv_persistence "redis_inv rd contents loading w fuel env" "redis_vals contents w" "redis_sets contents w"
    "redis_get rd w fuel" "redis_getSetMembers rd w fuel" "redis_setSeveral rd w fuel env"
  for rd :: "'r redis" and contents loading w fuel env
proof
  fix s :: "'r RedisPersistence" and k
  assume inv: "redis_inv rd contents loading w fuel env s"
  then obtain st where st: "backed contents w s st" by (auto simp: redis_inv_def)
  from inv have ok: "redis_ok rd contents loading" "wire_ok w" "loading (rp_redis s) < fuel" "loading (rp_redis s) = 0"
    by (auto simp: redis_inv_def)
  note views = redis_views[OF ok(2)]
  have stays: "redis_inv rd contents loading w fuel env s' \<and> redis_vals contents w s' = redis_vals contents w s \<and>
      redis_sets contents w s' = redis_sets contents w s"
    if "backed contents w s' st" "loading (rp_redis s') \<le> loading (rp_redis s)" for s'
    unfolding views(1)[OF that(1)] views(2)[OF that(1)] views(1)[OF st] views(2)[OF st]
    using inv that ok(4) by (auto simp: redis_inv_def)
  show "\<exists>s'. redis_get rd w fuel k s = (Inr (redis_vals contents w s k), s') \<and> redis_inv rd contents loading w fuel env s' \<and>
      redis_vals contents w s' = redis_vals contents w s \<and> redis_sets contents w s' = redis_sets contents w s" if "value_key k"
    using redis_get_run[OF ok(1) st that ok(3)] unfolding views(1)[OF st] by (metis stays views(1)[OF st])
  show "\<exists>s'. redis_getSetMembers rd w fuel k s = (Inr (redis_sets contents w s k), s') \<and> redis_inv rd contents loading w fuel env s' \<and>
      redis_vals contents w s' = redis_vals contents w s \<and> redis_sets contents w s' = redis_sets contents w s" if "set_key k"
    using redis_getSetMembers_run[OF ok(1,2) st that ok(3)] unfolding views(2)[OF st] by (metis stays views(2)[OF st])
next
  fix s :: "'r RedisPersistence" and kvs adds removes
  assume inv: "redis_inv rd contents loading w fuel env s" and b: "batch_ok (redis_sets contents w s) kvs adds removes"
  then obtain st where st: "backed contents w s st" by (auto simp: redis_inv_def)
  from inv have ok: "redis_ok rd contents loading" "wire_ok w" "iter_ok env" "0 < fuel" "loading (rp_redis s) = 0"
    by (auto simp: redis_inv_def)
  note views = redis_views[OF ok(2)]
  have b': "batch_ok (membersAt st) kvs adds removes" using b views(2)[OF st] by simp
  have d: "dict_ok kvs" "dict_ok adds" "dict_ok removes" "\<forall>(k, v) \<in> set kvs. value_key k"
      "\<forall>(k, m) \<in> set adds. set_key k \<and> finite m" "\<forall>(k, m) \<in> set removes. set_key k"
    using b' by (auto simp: batch_ok_def)
  have ty: "typed st" using st by (simp add: backed_def)
  note t = batch_typed[OF ty b']
  have vals: "bytesAt (afterBatch kvs adds removes st) k = (case map_of kvs k of Some v \<Rightarrow> v | None \<Rightarrow> bytesAt st k)" for k
    unfolding afterBatch_def bytesAt_sets(2)[OF t(2) d(6)] bytesAt_sets(1)[OF t(1) d(5)] by (rule bytesAt_puts[OF d(1)])
  have sets: "membersAt (afterBatch kvs adds removes st) k = (membersAt st k \<union> set_at (map_of adds) k) - set_at (map_of removes) k" for k
    unfolding afterBatch_def membersAt_rems[OF d(3)] membersAt_adds[OF d(2)] membersAt_puts[OF ty d(4)] ..
  from redis_setSeveral_run[OF ok st b'] obtain s' dr where
    s': "redis_setSeveral rd w fuel env kvs adds removes s = (Inr (filter (\<lambda>k. membersAt st k = {}) (map fst adds), dr), s')"
      "set dr = {k \<in> fst ` set removes. membersAt (afterBatch kvs adds removes st) k = {}}"
      "loading (rp_redis s') = 0" "backed contents w s' (afterBatch kvs adds removes st)" by blast
  have "redis_inv rd contents loading w fuel env s'" using ok s'(3,4) by (auto simp: redis_inv_def)
  then show "\<exists>s' nw dr. redis_setSeveral rd w fuel env kvs adds removes s = (Inr (nw, dr), s') \<and>
      redis_inv rd contents loading w fuel env s' \<and>
      (\<forall>k. redis_vals contents w s' k = (case map_of kvs k of Some v \<Rightarrow> v | None \<Rightarrow> redis_vals contents w s k)) \<and>
      (\<forall>k. redis_sets contents w s' k = (redis_sets contents w s k \<union> set_at (map_of adds) k) - set_at (map_of removes) k) \<and>
      set nw = {k \<in> fst ` set adds. redis_sets contents w s k = {}} \<and>
      set dr = {k \<in> fst ` set removes. redis_sets contents w s' k = {}}"
  proof (intro exI conjI)
    show "redis_setSeveral rd w fuel env kvs adds removes s = (Inr (filter (\<lambda>k. membersAt st k = {}) (map fst adds), dr), s')"
      by (rule s'(1))
    show "\<forall>k. redis_vals contents w s' k = (case map_of kvs k of Some v \<Rightarrow> v | None \<Rightarrow> redis_vals contents w s k)"
      unfolding views(1)[OF s'(4)] views(1)[OF st] using vals by simp
    show "\<forall>k. redis_sets contents w s' k = (redis_sets contents w s k \<union> set_at (map_of adds) k) - set_at (map_of removes) k"
      unfolding views(2)[OF s'(4)] views(2)[OF st] using sets by simp
    show "set (filter (\<lambda>k. membersAt st k = {}) (map fst adds)) = {k \<in> fst ` set adds. redis_sets contents w s k = {}}"
      unfolding views(2)[OF st] by auto
    show "set dr = {k \<in> fst ` set removes. redis_sets contents w s' k = {}}"
      unfolding views(2)[OF s'(4)] by (rule s'(2))
  qed
qed

text \<open>A process that starts again has an empty cache and the same database.\<close>

lemma redis_restart:
  assumes "redis_inv rd contents loading w fuel env s"
  shows "redis_inv rd contents loading w fuel env (s\<lparr>rp_cache := Map.empty\<rparr>)"
    "redis_vals contents w (s\<lparr>rp_cache := Map.empty\<rparr>) = redis_vals contents w s"
    "redis_sets contents w (s\<lparr>rp_cache := Map.empty\<rparr>) = redis_sets contents w s"
  using assms by (auto simp: redis_inv_def backed_def redis_vals_def redis_sets_def fun_eq_iff)

lemma value_key_sets:
  assumes "value_key k"
  shows "redis_inv rd contents loading w fuel env s \<Longrightarrow> redis_sets contents w s k = {}" "mem_inv env m \<Longrightarrow> set_of m k = {}"
proof -
  show "mem_inv env m \<Longrightarrow> set_of m k = {}"
    using assms by (auto simp: mem_inv_def set_of_def cell_ok_def set_key_def dest!: kv_okD[of env m k] split: option.splits stored.splits)
  assume inv: "redis_inv rd contents loading w fuel env s"
  then obtain st where st: "backed contents w s st" "wire_ok w" by (auto simp: redis_inv_def)
  then have "typed st" by (simp add: backed_def)
  from typed_val[OF this assms] redis_views(2)[OF st(2,1)] show "redis_sets contents w s k = {}"
    by (simp add: membersAt_def split: option.splits stored.splits)
qed

section \<open>The other operations\<close>

lemma cacheAnswers_run:
  assumes w: "wire_ok w"
  shows "backed contents w s st \<Longrightarrow> \<forall>k \<in> set ks. value_key k \<Longrightarrow>
    \<exists>s'. cacheAnswers w (map (ser_key w) ks) (map (bytesAt st) ks) s = (Inr (), s') \<and> backed contents w s' st \<and>
      rp_cache s \<subseteq>\<^sub>m rp_cache s' \<and> (\<forall>k \<in> set ks. rp_cache s' k = st k)"
proof (induction ks arbitrary: s)
  case (Cons k ks)
  have st: "st k = map_option Bytes (bytesAt st k)" using Cons.prems typed_val[of st k] by (auto simp: backed_def)
  let ?s = "if st k = None then s else s\<lparr>rp_cache := (rp_cache s)(k := st k)\<rparr>"
  have b: "backed contents w ?s st" using Cons.prems backed_put[of contents w s st k] by simp
  from Cons.IH[OF this] Cons.prems obtain s' where
    s': "cacheAnswers w (map (ser_key w) ks) (map (bytesAt st) ks) ?s = (Inr (), s')" "backed contents w s' st"
      "rp_cache ?s \<subseteq>\<^sub>m rp_cache s'" "\<forall>k \<in> set ks. rp_cache s' k = st k" by auto
  have one: "cacheAnswers w (map (ser_key w) (k # ks)) (map (bytesAt st) (k # ks)) s
      = cacheAnswers w (map (ser_key w) ks) (map (bytesAt st) ks) ?s"
    using w st by (cases "bytesAt st k") (simp_all add: wire_ok_def cachePut_def)
  have le: "rp_cache s \<subseteq>\<^sub>m rp_cache ?s"
    using backed_cached[OF Cons.prems(1)] by (auto simp: map_le_def)
  have "rp_cache s' k = st k"
  proof (cases "st k")
    case None
    then show ?thesis using backed_cached[OF s'(2), of k] by (cases "rp_cache s' k") auto
  next
    case (Some x)
    then have "rp_cache ?s k = Some x" by simp
    with Some s'(3) show ?thesis unfolding map_le_def by (metis domI)
  qed
  with s' map_le_trans[OF le s'(3)] one show ?case by simp
qed simp

text \<open>\<open>getSeveral\<close> answers what the database holds, whatever is cached already.\<close>

lemma redis_getSeveral_run:
  assumes ok: "redis_ok rd contents loading" and w: "wire_ok w" and s: "backed contents w s st"
    and ks: "\<forall>k \<in> set ks. value_key k" and fuel: "loading (rp_redis s) < fuel"
  shows "\<exists>s'. redis_getSeveral rd w fuel ks s = (Inr (map st ks), s') \<and> backed contents w s' st"
proof -
  let ?n = "filter (\<lambda>k. rp_cache s k = None) ks"
  have cached: "rp_cache s k = st k" if "k \<in> set ks" "k \<notin> set ?n" for k
    using that backed_cached[OF s, of k] by (cases "rp_cache s k") auto
  show ?thesis
  proof (cases "?n = []")
    case True
    have "map (rp_cache s) ks = map st ks"
      by (rule map_cong[OF refl], rule cached) (simp_all add: True del: set_filter)
    with True s show ?thesis by (simp add: redis_getSeveral_def)
  next
    case False
    have vals: "(case contents (rp_redis s) (ser_key w k) of Some (RStr b) \<Rightarrow> Some b | _ \<Rightarrow> None) = bytesAt st k" for k
      using backed_contents[OF s, of k] by (simp add: bytesAt_def split: option.splits stored.splits)
    have busy: "rd_mget rd (map (ser_key w) ?n) r = Inl BusyLoadingError" if "loading r > 0" for r
      using ok that unfolding redis_ok_def by blast
    have ready: "rd_mget rd (map (ser_key w) ?n) r = Inr (map (bytesAt st) ?n)"
      if "loading r = 0" "contents r = contents (rp_redis s)" for r
    proof -
      have "rd_mget rd ks r = Inr (map (\<lambda>k. case contents r k of Some (RStr b) \<Rightarrow> Some b | _ \<Rightarrow> None) ks)" for ks
        using ok that(1) unfolding redis_ok_def by blast
      then show ?thesis by (simp add: that(2) vals comp_def)
    qed
    obtain r where r: "retryLoading rd fuel (rd_mget rd (map (ser_key w) ?n)) s = (Inr (map (bytesAt st) ?n), s\<lparr>rp_redis := r\<rparr>)"
        "contents r = contents (rp_redis s)"
      using retryLoading_run[where call = "rd_mget rd (map (ser_key w) ?n)", OF ok busy ready fuel] by blast
    have "\<forall>k \<in> set ?n. value_key k" using ks by auto
    from cacheAnswers_run[OF w backed_redis[OF s r(2)] this] obtain s' where
      s': "cacheAnswers w (map (ser_key w) ?n) (map (bytesAt st) ?n) (s\<lparr>rp_redis := r\<rparr>) = (Inr (), s')" "backed contents w s' st"
        "rp_cache s \<subseteq>\<^sub>m rp_cache s'" "\<forall>k \<in> set ?n. rp_cache s' k = st k" by auto
    have "rp_cache s' k = st k" if k: "k \<in> set ks" for k
    proof (cases "k \<in> set ?n")
      case True then show ?thesis using s'(4) by blast
    next
      case False
      then obtain x where "rp_cache s k = Some x" using k by auto
      with s'(3) cached[OF k False] show ?thesis unfolding map_le_def by (metis domI)
    qed
    then have "map (rp_cache s') ks = map st ks" by (rule map_cong[OF refl])
    with False r s' show ?thesis by (simp add: redis_getSeveral_def)
  qed
qed

lemma execute_kv:
  assumes ok: "redis_ok rd contents loading" and w: "wire_ok w" and s: "backed contents w s st" and l: "loading (rp_redis s) = 0"
  shows "\<exists>r. redisExecute rd [kvCommand w (k, v)] s = (Inr (), s\<lparr>rp_redis := r\<rparr>) \<and> loading r = 0 \<and> wired w (contents r) (st(k := map_option Bytes v))"
proof -
  have "wired w (contents (rp_redis s)) st" using s by (simp add: backed_def)
  from run_kvs[OF w this, of "[(k, v)]"] obtain c where
    c: "applyCommands [kvCommand w (k, v)] (contents (rp_redis s)) = Some c" "wired w c (st(k := map_option Bytes v))"
    by (auto simp: putVal_def simp del: applyCommands.simps fun_upd_apply)
  obtain r where "rd_execute rd [kvCommand w (k, v)] (rp_redis s) = (Inr (), r)" "contents r = c" "loading r = 0"
    using ok l c(1) unfolding redis_ok_def by blast
  with c(2) show ?thesis by (auto simp: redisExecute_def simp del: fun_upd_apply)
qed

lemma redis_set_run:
  assumes "redis_ok rd contents loading" and "wire_ok w" and s: "backed contents w s st" and "loading (rp_redis s) = 0"
    and k: "value_key k"
  shows "\<exists>s'. redis_set rd w k v s = (Inr (), s') \<and> backed contents w s' (st(k := map_option Bytes v))"
proof -
  obtain r where r: "redisExecute rd [kvCommand w (k, v)] s = (Inr (), s\<lparr>rp_redis := r\<rparr>)" "wired w (contents r) (st(k := map_option Bytes v))"
    using execute_kv[OF assms(1-4)] by blast
  have "typed (st(k := map_option Bytes v))"
    using typed_putVal[of st "(k, v)"] s k by (simp add: backed_def putVal_def del: fun_upd_apply)
  moreover have "(rp_cache s)(k := map_option Bytes v) \<subseteq>\<^sub>m st(k := map_option Bytes v)"
    using s by (auto simp: backed_def map_le_def)
  ultimately show ?thesis using r
    by (simp add: redis_set_def cacheKv_def cachePut_def backed_def del: fun_upd_apply)
qed

lemma redis_delete_run:
  assumes "redis_ok rd contents loading" and "wire_ok w" and s: "backed contents w s st" and "loading (rp_redis s) = 0"
  shows "\<exists>s'. redis_delete rd w k s = (Inr (), s') \<and> backed contents w s' (st(k := None))"
proof -
  let ?s = "s\<lparr>rp_cache := (rp_cache s)(k := None)\<rparr>"
  have b: "backed contents w ?s st" using s by (auto simp: backed_def map_le_def)
  obtain r where r: "redisExecute rd [kvCommand w (k, None)] ?s = (Inr (), ?s\<lparr>rp_redis := r\<rparr>)" "wired w (contents r) (st(k := None))"
    using execute_kv[OF assms(1,2) b, of k None] assms(4) by (auto simp del: fun_upd_apply)
  have "typed (st(k := None))" using s by (simp add: backed_def typed_def)
  moreover have "(rp_cache s)(k := None) \<subseteq>\<^sub>m st(k := None)" using s by (auto simp: backed_def map_le_def)
  ultimately show ?thesis using r by (simp add: redis_delete_def cachePut_def backed_def del: fun_upd_apply)
qed

lemma redis_exists_run:
  assumes "redis_ok rd contents loading" and s: "backed contents w s st" and "loading (rp_redis s) = 0"
  shows "redis_exists rd w k s = (Inr (st k \<noteq> None), s)"
  using assms backed_cached[OF s, of k] backed_contents[OF s, of k]
  by (cases "rp_cache s k") (auto simp: redis_exists_def redis_ok_def)

section \<open>A concrete redis\<close>

definition demo_redis :: "(nat \<times> (bytes \<rightharpoonup> redis_value)) redis" where
  "demo_redis = \<lparr>
     rd_get = (\<lambda>k (n, c). if n > 0 then Inl BusyLoadingError
       else case c k of None \<Rightarrow> Inr None | Some (RStr b) \<Rightarrow> Inr (Some b) | Some (RSet _) \<Rightarrow> Inl GenericException),
     rd_mget = (\<lambda>ks (n, c). if n > 0 then Inl BusyLoadingError
       else Inr (map (\<lambda>k. case c k of Some (RStr b) \<Rightarrow> Some b | _ \<Rightarrow> None) ks)),
     rd_smembers = (\<lambda>k (n, c). if n > 0 then Inl BusyLoadingError
       else case c k of None \<Rightarrow> Inr {} | Some (RSet m) \<Rightarrow> Inr m | Some (RStr _) \<Rightarrow> Inl GenericException),
     rd_exists = (\<lambda>k (n, c). if n > 0 then Inl BusyLoadingError else Inr (c k \<noteq> None)),
     rd_execute = (\<lambda>cs (n, c). if n > 0 then (Inl BusyLoadingError, n, c)
       else case applyCommands cs c of None \<Rightarrow> (Inl GenericException, n, c) | Some c' \<Rightarrow> (Inr (), n, c')),
     rd_sleep = (\<lambda>(n, c). (n - 1, c))\<rparr>"

lemma redis_ok_demo: "redis_ok demo_redis snd fst"
  unfolding redis_ok_def by (simp add: demo_redis_def)

text \<open>A prefix code for integers, and with it for keys and set members.\<close>

definition encInt :: "int \<Rightarrow> bytes" where
  "encInt n = (if n < 0 then 1 else 0) # replicate (nat \<bar>n\<bar>) 1 @ [0]"

fun decInt :: "bytes \<Rightarrow> (int \<times> bytes) option" where
  "decInt [] = None"
| "decInt (b # r) = (let k = length (takeWhile (\<lambda>x. x = 1) r)
     in Some (if b = 1 then - int k else int k, drop (Suc k) r))"

lemma decInt_encInt [simp]: "decInt (encInt n @ r) = Some (n, r)"
proof -
  have "takeWhile (\<lambda>x. x = 1) (replicate k (1::byte) @ 0 # r) = replicate k 1" for k
    by (induction k) simp_all
  then show ?thesis by (simp add: encInt_def Let_def)
qed

fun demo_ser_key :: "KeyType \<Rightarrow> bytes" where
  "demo_ser_key (KObj i) = 0 # encInt (objId i) @ encInt (fieldId i) @ [if isIndexValue i then 1 else 0]"
| "demo_ser_key (KIx i) = 1 # encInt (ixFieldId i) @ indexValue i"
| "demo_ser_key (KFld f) = 2 # encInt f"
| "demo_ser_key (KStr s) = 3 # map (\<lambda>c. of_nat (of_char c)) s"

definition demo_deser_key :: "bytes \<Rightarrow> KeyType option" where
  "demo_deser_key b = (case b of [] \<Rightarrow> None
     | t # r \<Rightarrow>
         if t = 3 then Some (KStr (map (\<lambda>x. char_of (unat x)) r))
         else case decInt r of None \<Rightarrow> None
           | Some (n, r') \<Rightarrow>
               if t = 2 then Some (KFld n)
               else if t = 1 then Some (KIx (IndexId n r'))
               else (case decInt r' of None \<Rightarrow> None | Some (f, r'') \<Rightarrow> Some (KObj (ObjectFieldId n f (r'' = [1])))))"

fun demo_ser_sv :: "SetValue \<Rightarrow> bytes" where
  "demo_ser_sv (SVInt i) = 0 # encInt i"
| "demo_ser_sv (SVBytes b) = 1 # b"

definition demo_deser_sv :: "bytes \<Rightarrow> SetValue option" where
  "demo_deser_sv b = (case b of [] \<Rightarrow> None
     | t # r \<Rightarrow> if t = 1 then Some (SVBytes r) else map_option (\<lambda>(n, _). SVInt n) (decInt r))"

definition demo_wire :: wire where
  "demo_wire = \<lparr>ser_key = demo_ser_key, deser_key = demo_deser_key, ser_sv = demo_ser_sv, deser_sv = demo_deser_sv\<rparr>"

lemma decInt_encInt_alone [simp]: "decInt (encInt n) = Some (n, [])"
  using decInt_encInt[of n "[]"] by simp

lemma char_byte: "char_of (unat (of_nat (of_char c) :: byte)) = c"
proof -
  have "of_char c < (256 :: nat)" using rangeI[of "of_char :: char \<Rightarrow> nat" c] unfolding range_nat_of_char by simp
  then have "unat (of_nat (of_char c) :: byte) = of_char c" by (simp add: unat_of_nat)
  then show ?thesis by simp
qed

lemma wire_ok_demo: "wire_ok demo_wire"
proof -
  have "demo_deser_key (demo_ser_key k) = Some k" for k
    by (cases k) (auto simp: demo_deser_key_def comp_def char_byte intro: ObjectFieldId.expand)
  moreover have "demo_deser_sv (demo_ser_sv v) = Some v" for v
    by (cases v) (simp_all add: demo_deser_sv_def)
  ultimately show ?thesis by (simp add: wire_ok_def demo_wire_def)
qed

definition demo_store :: "(nat \<times> (bytes \<rightharpoonup> redis_value)) RedisPersistence" where
  "demo_store = \<lparr>rp_redis = (0, Map.empty), rp_cache = Map.empty\<rparr>"

lemma backed_demo: "backed snd demo_wire \<lparr>rp_redis = (n, Map.empty), rp_cache = Map.empty\<rparr> Map.empty"
  by (simp add: backed_def typed_def wired_def)

lemma demo_store_empty:
  "redis_inv demo_redis snd fst demo_wire 1 demo_env demo_store" "mem_inv demo_env newInMemoryPersistence"
  "redis_vals snd demo_wire demo_store = val_of demo_env newInMemoryPersistence"
  "redis_sets snd demo_wire demo_store = set_of newInMemoryPersistence"
proof -
  show "redis_inv demo_redis snd fst demo_wire 1 demo_env demo_store"
    using redis_ok_demo wire_ok_demo backed_demo[of 0] by (auto simp: redis_inv_def demo_store_def)
  show "mem_inv demo_env newInMemoryPersistence"
    by (simp add: mem_inv_def kv_ok_def cell_ok_def newInMemoryPersistence_def)
  show "redis_vals snd demo_wire demo_store = val_of demo_env newInMemoryPersistence"
    by (rule ext) (simp add: redis_vals_def demo_store_def val_of_def newInMemoryPersistence_def)
  show "redis_sets snd demo_wire demo_store = set_of newInMemoryPersistence"
    by (rule ext) (simp add: redis_sets_def demo_store_def set_of_def newInMemoryPersistence_def)
qed

section \<open>The properties\<close>

text \<open>C31. The production store and the in-memory store are interchangeable for the server. If redis behaves as
  documented, both stores hold the same values and sets, and the server stores the same acceptable
  transaction in both, then both store phases succeed, and afterwards both hold the same again; and
  what a server reads from redis after a restart, when nothing is cached, is what the in-memory store
  answers, for values and for sets.\<close>

theorem redis_matches_memory:
  assumes r: "redis_inv rd contents loading w fuel env s" and m: "mem_inv env m"
    and same: "redis_vals contents w s = val_of env m" "redis_sets contents w s = set_of m"
    and meta: "meta_ok (set_of m)" and batch: "batch_ok (set_of m) kvs (idSets A) (idSets R)"
  shows "\<exists>s' m'. storeTransaction (redis_setSeveral rd w fuel env) kvs A R s = (Inr (), s') \<and>
    storeTransaction (setSeveral env) kvs A R m = (Inr (), m') \<and>
    redis_inv rd contents loading w fuel env s' \<and> mem_inv env m' \<and>
    redis_vals contents w s' = val_of env m' \<and> redis_sets contents w s' = set_of m' \<and>
    (\<forall>k. value_key k \<longrightarrow> fst (redis_get rd w fuel k (s'\<lparr>rp_cache := Map.empty\<rparr>)) = fst (kv_get env k m')) \<and>
    (\<forall>k. set_key k \<longrightarrow> fst (redis_getSetMembers rd w fuel k (s'\<lparr>rp_cache := Map.empty\<rparr>)) = fst (getSetMembers k m'))"
proof -
  obtain s' where s': "storeTransaction (redis_setSeveral rd w fuel env) kvs A R s = (Inr (), s')" "redis_inv rd contents loading w fuel env s'"
      "\<forall>k. redis_vals contents w s' k = (case map_of kvs k of Some v \<Rightarrow> v | None \<Rightarrow> redis_vals contents w s k)"
      "\<forall>i. redis_sets contents w s' (KIx i) = (redis_sets contents w s (KIx i) \<union> SVInt ` set_at (map_of A) i) - SVInt ` set_at (map_of R) i"
      "meta_ok (redis_sets contents w s')"
    using redis.storeTransaction_law[OF r, of kvs A R] meta batch same(2) by auto
  obtain m' where m': "storeTransaction (setSeveral env) kvs A R m = (Inr (), m')" "mem_inv env m'"
      "\<forall>k. val_of env m' k = (case map_of kvs k of Some v \<Rightarrow> v | None \<Rightarrow> val_of env m k)"
      "\<forall>i. set_of m' (KIx i) = (set_of m (KIx i) \<union> SVInt ` set_at (map_of A) i) - SVInt ` set_at (map_of R) i" "meta_ok (set_of m')"
    using mem.storeTransaction_law[OF m meta batch] by auto
  have vals: "redis_vals contents w s' = val_of env m'" using s'(3) m'(3) same(1) by (auto simp: fun_eq_iff split: option.splits)
  have ix: "redis_sets contents w s' (KIx i) = set_of m' (KIx i)" for i using s'(4) m'(4) same(2) by simp
  have "redis_sets contents w s' (KFld f) = set_of m' (KFld f)" for f
    using s'(5) m'(5) unfolding meta_ok_def ix by (intro set_eqI) simp
  with ix have sets: "redis_sets contents w s' k = set_of m' k" for k
    using value_key_sets(1)[OF _ s'(2), of k] value_key_sets(2)[OF _ m'(2), of k] by (cases k) (simp_all add: value_key_def)
  note restart = redis_restart[OF s'(2)]
  have "fst (redis_get rd w fuel k (s'\<lparr>rp_cache := Map.empty\<rparr>)) = fst (kv_get env k m')" if "value_key k" for k
    using redis.get_law[OF restart(1) that] mem.get_law[OF m'(2) that] vals restart(2) by auto
  moreover have "fst (redis_getSetMembers rd w fuel k (s'\<lparr>rp_cache := Map.empty\<rparr>)) = fst (getSetMembers k m')" if "set_key k" for k
    using redis.members_law[OF restart(1) that] mem.members_law[OF m'(2) that] sets restart(3) by auto
  ultimately show ?thesis using s'(1,2) m'(1,2) vals sets by blast
qed

theorem redis_matches_memory_witness:
  "\<exists>s' m'. storeTransaction (redis_setSeveral demo_redis demo_wire 1 demo_env) [(KStr ''types'', Some [7])] [(IndexId 3 [1], {5})] [] demo_store = (Inr (), s') \<and>
    storeTransaction (setSeveral demo_env) [(KStr ''types'', Some [7])] [(IndexId 3 [1], {5})] [] newInMemoryPersistence = (Inr (), m') \<and>
    fst (redis_get demo_redis demo_wire 1 (KStr ''types'') (s'\<lparr>rp_cache := Map.empty\<rparr>)) = fst (kv_get demo_env (KStr ''types'') m')"
proof -
  have empty: "set_of newInMemoryPersistence k = {}" for k by (simp add: set_of_def newInMemoryPersistence_def)
  have batch: "batch_ok (set_of newInMemoryPersistence) [(KStr ''types'', Some [7])] (idSets [(IndexId 3 [1], {5})]) (idSets [])"
    by (simp add: batch_ok_def idSets_def set_key_def value_key_def empty)
  have meta: "meta_ok (set_of newInMemoryPersistence)" by (simp add: meta_ok_def empty)
  have k: "value_key (KStr ''types'')" by (simp add: value_key_def)
  show ?thesis
    using redis_matches_memory[OF demo_store_empty meta batch] k by blast
qed

text \<open>C40. Reading waits for redis to load and then returns. If the database needs \<open>n\<close> more seconds to load, a read
  of a key that is not cached tries \<open>n + 1\<close> times, returns what the database holds and raises nothing; with
  fewer tries it has not returned yet.\<close>

theorem redis_get_returns:
  assumes "redis_ok rd contents loading" and "backed contents w s st" and "value_key k" and "rp_cache s k = None"
  shows "(if loading (rp_redis s) < fuel
    then fst (redis_get rd w fuel k s) = Inr (redis_vals contents w s k) \<and> loading (rp_redis (snd (redis_get rd w fuel k s))) = 0
    else fst (redis_get rd w fuel k s) = Inl NotReturned)"
proof -
  have vals: "redis_vals contents w s k = bytesAt st k"
    using backed_contents[OF assms(2), of k] by (simp add: redis_vals_def bytesAt_def split: option.splits stored.splits)
  have "fst (retryLoading rd fuel (rd_get rd (ser_key w k)) s) = Inl NotReturned" if "fuel \<le> loading (rp_redis s)"
    using that
  proof (induction fuel arbitrary: s)
    case (Suc fuel)
    then have "loading (rp_redis s) > 0" by simp
    with assms(1) have "rd_get rd (ser_key w k) (rp_redis s) = Inl BusyLoadingError"
        "loading (rd_sleep rd (rp_redis s)) = loading (rp_redis s) - 1" by (auto simp: redis_ok_def)
    with Suc.IH[of "s\<lparr>rp_redis := rd_sleep rd (rp_redis s)\<rparr>"] Suc.prems show ?case by simp
  qed simp
  then have "fst (redis_get rd w fuel k s) = Inl NotReturned" if "fuel \<le> loading (rp_redis s)"
    using that assms(4) by (auto simp: redis_get_def bindM_def split: prod.splits sum.splits)
  moreover have "fst (redis_get rd w fuel k s) = Inr (redis_vals contents w s k) \<and> loading (rp_redis (snd (redis_get rd w fuel k s))) = 0"
    if "loading (rp_redis s) < fuel"
    using redis_get_run[OF assms(1-3) that] assms(4) vals by auto
  ultimately show ?thesis by simp
qed

theorem redis_get_returns_witness:
  "fst (redis_get demo_redis demo_wire 3 (KStr ''types'') \<lparr>rp_redis = (2, Map.empty), rp_cache = Map.empty\<rparr>) = Inr None \<and>
   fst (redis_get demo_redis demo_wire 2 (KStr ''types'') \<lparr>rp_redis = (2, Map.empty), rp_cache = Map.empty\<rparr>) = Inl NotReturned"
proof -
  let ?s = "\<lparr>rp_redis = (2, Map.empty), rp_cache = Map.empty\<rparr> :: (nat \<times> (bytes \<rightharpoonup> redis_value)) RedisPersistence"
  have k: "value_key (KStr ''types'')" "rp_cache ?s (KStr ''types'') = None" by (simp_all add: value_key_def)
  have v: "redis_vals snd demo_wire ?s (KStr ''types'') = None" by (simp add: redis_vals_def)
  show ?thesis
    using redis_get_returns[OF redis_ok_demo backed_demo k, of 3] redis_get_returns[OF redis_ok_demo backed_demo k, of 2] v by simp
qed

end
