(* ===== verification/Message_Buffer.thy ===== *)
theory Message_Buffer
  imports Prelude
begin

text \<open>
  The framing of the message bus (\<open>message_bus.py\<close>, class \<open>MessageBuffer\<close>): every message
  goes over the socket as its length, its bytes and, if the size check is on, its length again.
  The receiving buffer is fed whatever pieces the socket delivers.

  \<open>struct.pack("i", n)\<close> is modelled on the platforms the program runs on: four bytes, least
  significant first, in two's complement; a number that does not fit raises \<open>struct.error\<close>.
  Slices keep Python's treatment of negative bounds, because the length field is signed.
\<close>

section \<open>Model\<close>

definition MESSAGE_LEN_BYTES :: int where
  "MESSAGE_LEN_BYTES = 4"

fun packWord :: "nat \<Rightarrow> nat \<Rightarrow> bytes" where
  "packWord 0 m = []"
| "packWord (Suc k) m = word_of_nat (m mod 256) # packWord k (m div 256)"

fun unpackWord :: "bytes \<Rightarrow> nat" where
  "unpackWord [] = 0"
| "unpackWord (b # bs) = unat b + 256 * unpackWord bs"

definition structPack :: "int \<Rightarrow> py_error + bytes" where
  "structPack n = (if - (2 ^ 31) \<le> n \<and> n < 2 ^ 31 then Inr (packWord 4 (nat (n mod 2 ^ 32))) else Inl StructError)"

definition structUnpack :: "bytes \<Rightarrow> py_error + int" where
  "structUnpack bs = (if length bs \<noteq> 4 then Inl StructError
     else let m = int (unpackWord bs) in Inr (if m < 2 ^ 31 then m else m - 2 ^ 32))"

record MessageBuffer =
  mb_buffer :: bytes
  mb_messagesEver :: nat
  mb_extraMessageSizeCheck :: bool
  mb_curMessageLen :: "int option"

definition newMessageBuffer :: "bool \<Rightarrow> MessageBuffer" where
  "newMessageBuffer extra = \<lparr>mb_buffer = [], mb_messagesEver = 0, mb_extraMessageSizeCheck = extra, mb_curMessageLen = None\<rparr>"

definition pendingBytecount :: "MessageBuffer \<Rightarrow> nat" where
  "pendingBytecount mb = length (mb_buffer mb)"

definition encode :: "bytes \<Rightarrow> bool \<Rightarrow> py_error + bytes" where
  "encode bs extra = (case structPack (int (length bs)) of
       Inl e \<Rightarrow> Inl e
     | Inr p \<Rightarrow> Inr (p @ bs @ (if extra then p else [])))"

text \<open>The first half of an iteration: read a length if none is pending.\<close>

definition readLength :: "MessageBuffer \<Rightarrow> MessageBuffer" where
  "readLength mb =
     (if mb_curMessageLen mb = None \<and> int (length (mb_buffer mb)) \<ge> MESSAGE_LEN_BYTES
      then case structUnpack (take 4 (mb_buffer mb)) of
             Inl e \<Rightarrow> mb
           | Inr n \<Rightarrow> mb\<lparr>mb_curMessageLen := Some n, mb_buffer := drop 4 (mb_buffer mb)\<rparr>
      else mb)"

text \<open>The body of the \<open>while\<close> loop returns the messages, goes round again, or raises.\<close>

datatype step_result = Return | Again bytes | Raise py_error

definition takeMessage :: "MessageBuffer \<Rightarrow> step_result \<times> MessageBuffer" where
  "takeMessage mb =
     (case mb_curMessageLen mb of
        None \<Rightarrow> (Return, mb)
      | Some n \<Rightarrow>
          (let buf = mb_buffer mb in
           if mb_extraMessageSizeCheck mb then
             (if int (length buf) \<ge> n + MESSAGE_LEN_BYTES then
                (let counted = mb\<lparr>mb_messagesEver := mb_messagesEver mb + 1\<rparr> in
                 case structUnpack (pySlice n (n + MESSAGE_LEN_BYTES) buf) of
                   Inl e \<Rightarrow> (Raise e, counted)
                 | Inr sizeCheck \<Rightarrow>
                     (let mb' = counted\<lparr>mb_buffer := drop (pyIndex (n + MESSAGE_LEN_BYTES) buf) buf,
                                        mb_curMessageLen := None\<rparr>
                      in if sizeCheck \<noteq> n then (Raise CorruptMessageStream, mb')
                         else (Again (take (pyIndex n buf) buf), mb')))
              else (Return, mb))
           else
             (if int (length buf) \<ge> n then
                (Again (take (pyIndex n buf) buf),
                 mb\<lparr>mb_messagesEver := mb_messagesEver mb + 1, mb_buffer := drop (pyIndex n buf) buf,
                    mb_curMessageLen := None\<rparr>)
              else (Return, mb))))"

function readMessages :: "MessageBuffer \<Rightarrow> bytes list \<Rightarrow> (py_error + bytes list) \<times> MessageBuffer" where
  "readMessages mb messages =
     (case takeMessage (readLength mb) of
        (Return, mb') \<Rightarrow> (Inr messages, mb')
      | (Raise e, mb') \<Rightarrow> (Inl e, mb')
      | (Again m, mb') \<Rightarrow> readMessages mb' (messages @ [m]))"
  by pat_completeness auto

definition bufferWrite :: "bytes \<Rightarrow> MessageBuffer \<Rightarrow> (py_error + bytes list) \<times> MessageBuffer" where
  "bufferWrite bytesToWrite mb = readMessages (mb\<lparr>mb_buffer := mb_buffer mb @ bytesToWrite\<rparr>) []"

section \<open>Termination\<close>

text \<open>A round that continues has either consumed a length field or finished a message whose length
  was already known.\<close>

definition work :: "MessageBuffer \<Rightarrow> nat" where
  "work mb = 2 * length (mb_buffer mb) + (if mb_curMessageLen mb = None then 0 else 1)"

lemma again_decreases: "takeMessage (readLength mb) = (Again m, mb') \<Longrightarrow> work mb' < work mb"
proof -
  assume again: "takeMessage (readLength mb) = (Again m, mb')"
  let ?r = "readLength mb"
  have "mb_curMessageLen ?r \<noteq> None" using again by (auto simp: takeMessage_def split: option.splits)
  moreover have "mb_curMessageLen mb' = None \<and> length (mb_buffer mb') \<le> length (mb_buffer ?r)"
    using again by (auto simp: takeMessage_def Let_def split: option.splits if_splits sum.splits)
  moreover have "mb_curMessageLen mb = None \<Longrightarrow> mb_curMessageLen ?r \<noteq> None \<Longrightarrow>
      length (mb_buffer ?r) < length (mb_buffer mb)"
    by (auto simp: readLength_def MESSAGE_LEN_BYTES_def split: sum.splits if_splits)
  moreover have "mb_curMessageLen mb \<noteq> None \<Longrightarrow> ?r = mb" by (auto simp: readLength_def)
  ultimately show ?thesis by (cases "mb_curMessageLen mb") (auto simp: work_def)
qed

termination readMessages
  by (relation "measure (\<lambda>(mb, _). work mb)") (auto dest: again_decreases[OF sym])

declare readMessages.simps [simp del]

section \<open>The length field\<close>

lemma length_packWord [simp]: "length (packWord k m) = k"
  by (induction k arbitrary: m) auto

lemma unpack_pack: "m < 256 ^ k \<Longrightarrow> unpackWord (packWord k m) = m"
proof (induction k arbitrary: m)
  case (Suc k)
  have "m div 256 < 256 ^ k" using Suc.prems by (simp add: less_mult_imp_div_less mult.commute)
  moreover have "unat (word_of_nat (m mod 256) :: byte) = m mod 256"
    by (simp add: unat_of_nat take_bit_eq_mod)
  ultimately show ?case using Suc.IH by simp
qed simp

lemma structUnpack_structPack: "structPack n = Inr p \<Longrightarrow> structUnpack p = Inr n \<and> length p = 4"
proof -
  assume p: "structPack n = Inr p"
  then have n: "- (2 ^ 31) \<le> n" "n < 2 ^ 31" and eq: "p = packWord 4 (nat (n mod 2 ^ 32))"
    by (auto simp: structPack_def split: if_splits)
  have "nat (n mod 2 ^ 32) < 256 ^ 4" by (simp add: nat_less_iff)
  then have "int (unpackWord p) = n mod 2 ^ 32" by (simp add: eq unpack_pack)
  moreover have "n mod 2 ^ 32 = (if n < 0 then n + 2 ^ 32 else n)"
  proof (cases "n < 0")
    case True
    have "(n + 2 ^ 32) mod 2 ^ 32 = n + 2 ^ 32" using True n by (intro mod_pos_pos_trivial) auto
    with True show ?thesis by simp
  next
    case False
    then have "n mod 2 ^ 32 = n" using n by (intro mod_pos_pos_trivial) auto
    with False show ?thesis by simp
  qed
  ultimately show ?thesis using n by (auto simp: structUnpack_def Let_def eq)
qed

section \<open>Frames\<close>

definition fits :: "bytes \<Rightarrow> bool" where
  "fits m \<longleftrightarrow> length m < 2 ^ 31"

definition lengthField :: "bytes \<Rightarrow> bytes" where
  "lengthField m = packWord 4 (length m)"

definition trailer :: "bool \<Rightarrow> bytes \<Rightarrow> bytes" where
  "trailer extra m = (if extra then lengthField m else [])"

definition frame :: "bool \<Rightarrow> bytes \<Rightarrow> bytes" where
  "frame extra m = lengthField m @ m @ trailer extra m"

lemma length_lengthField [simp]: "length (lengthField m) = 4"
  by (simp add: lengthField_def)

lemma pack_length: "fits m \<Longrightarrow> structPack (int (length m)) = Inr (lengthField m)"
proof -
  assume "fits m"
  then have "int (length m) < 2 ^ 31" by (simp add: fits_def)
  moreover from this have "int (length m) mod 2 ^ 32 = int (length m)" by (intro mod_pos_pos_trivial) auto
  ultimately show ?thesis by (simp add: structPack_def lengthField_def)
qed

lemma unpack_length: "fits m \<Longrightarrow> structUnpack (lengthField m) = Inr (int (length m))"
  using structUnpack_structPack[OF pack_length] by blast

lemma encode_frame: "fits m \<Longrightarrow> encode m extra = Inr (frame extra m)"
  by (simp add: encode_def pack_length frame_def trailer_def)

section \<open>Reading a stream of frames\<close>

text \<open>The bytes received and not yet turned into messages, the length field included.\<close>

definition undecoded :: "MessageBuffer \<Rightarrow> bytes" where
  "undecoded mb = (case mb_curMessageLen mb of None \<Rightarrow> mb_buffer mb | Some n \<Rightarrow> packWord 4 (nat n) @ mb_buffer mb)"

definition sane :: "MessageBuffer \<Rightarrow> bool" where
  "sane mb \<longleftrightarrow> (\<forall>n. mb_curMessageLen mb = Some n \<longrightarrow> 0 \<le> n \<and> n < 2 ^ 31)"

lemma pack_eq:
  assumes "packWord 4 a = lengthField m" and "a < 2 ^ 31" and "fits m"
  shows "a = length m"
proof -
  have le: "(2::nat) ^ 31 \<le> 256 ^ 4" by simp
  have "length m < 2 ^ 31" using assms(3) by (simp only: fits_def)
  then have "unpackWord (lengthField m) = length m"
    unfolding lengthField_def using le by (rule unpack_pack[OF less_le_trans])
  moreover have "unpackWord (packWord 4 a) = a"
    using assms(2) le by (rule unpack_pack[OF less_le_trans])
  ultimately show ?thesis by (simp only: assms(1))
qed

text \<open>After the first half of a round on a stream that starts with the frame of \<open>m\<close>.\<close>

lemma readLength_frame:
  assumes "undecoded mb @ rest = frame x m @ tail" and "fits m" and "sane mb"
  shows "if length (undecoded mb) < 4 then readLength mb = mb \<and> mb_curMessageLen mb = None
    else readLength mb = mb\<lparr>mb_curMessageLen := Some (int (length m)), mb_buffer := drop 4 (undecoded mb)\<rparr>"
proof (cases "mb_curMessageLen mb")
  case None
  then have u: "undecoded mb = mb_buffer mb" by (simp add: undecoded_def)
  have "take 4 (mb_buffer mb) = lengthField m" if "4 \<le> length (mb_buffer mb)"
  proof -
    have "take 4 (mb_buffer mb @ rest) = take 4 (frame x m @ tail)" using assms(1) u by simp
    with that show ?thesis by (simp add: frame_def)
  qed
  with None u show ?thesis
    by (auto simp: readLength_def MESSAGE_LEN_BYTES_def unpack_length[OF assms(2)])
next
  case (Some n)
  then have u: "undecoded mb = packWord 4 (nat n) @ mb_buffer mb" by (simp add: undecoded_def)
  have "take 4 (undecoded mb @ rest) = take 4 (frame x m @ tail)" using assms(1) by simp
  then have "packWord 4 (nat n) = lengthField m" by (simp add: u frame_def)
  with assms(2,3) Some have "nat n = length m" by (intro pack_eq) (auto simp: sane_def nat_less_iff)
  with Some assms(3) have "n = int (length m)" by (auto simp: sane_def)
  then show ?thesis using Some u by (simp add: readLength_def)
qed

text \<open>The second half, with the length known.\<close>

lemma takeMessage_frame:
  assumes "mb_buffer mb @ rest = m @ trailer (mb_extraMessageSizeCheck mb) m @ tail" and "fits m"
    and "mb_curMessageLen mb = Some (int (length m))"
  shows "takeMessage mb =
    (let k = length m + length (trailer (mb_extraMessageSizeCheck mb) m) in
     if length (mb_buffer mb) < k then (Return, mb)
     else (Again m, mb\<lparr>mb_messagesEver := mb_messagesEver mb + 1, mb_buffer := drop k (mb_buffer mb), mb_curMessageLen := None\<rparr>))"
proof (cases "length (mb_buffer mb) < length m + length (trailer (mb_extraMessageSizeCheck mb) m)")
  case True
  then show ?thesis
    using assms(3) by (cases "mb_extraMessageSizeCheck mb")
      (auto simp: takeMessage_def trailer_def MESSAGE_LEN_BYTES_def Let_def)
next
  case False
  let ?buf = "mb_buffer mb" and ?t = "trailer (mb_extraMessageSizeCheck mb) m"
  have pre: "take (length m + length ?t) ?buf = m @ ?t"
  proof -
    have "take (length m + length ?t) (?buf @ rest) = m @ ?t" by (simp add: assms(1))
    with False show ?thesis by simp
  qed
  have m: "take (length m) ?buf = m"
  proof -
    have "take (length m) (take (length m + length ?t) ?buf) = take (length m) (m @ ?t)" by (simp only: pre)
    then show ?thesis by simp
  qed
  have t: "take (length ?t) (drop (length m) ?buf) = ?t"
  proof -
    have "drop (length m) (take (length m + length ?t) ?buf) = drop (length m) (m @ ?t)" by (simp only: pre)
    then show ?thesis by (simp add: drop_take)
  qed
  have ix: "pyIndex (int (length m)) ?buf = length m" "pyIndex (int (length m) + 4) ?buf = length m + 4 \<or> length ?t = 0"
    using False by (auto simp: pyIndex_def trailer_def split: if_splits)
  show ?thesis
  proof (cases "mb_extraMessageSizeCheck mb")
    case True
    then have lt: "?t = lengthField m" by (simp add: trailer_def)
    with ix have ix4: "pyIndex (int (length m) + 4) ?buf = length m + 4" by simp
    have "pySlice (int (length m)) (int (length m) + 4) ?buf = lengthField m"
      using t lt by (simp add: pySlice_def ix ix4)
    with False True lt m ix ix4 assms(2,3) show ?thesis
      by (simp add: takeMessage_def MESSAGE_LEN_BYTES_def Let_def unpack_length)
  next
    case no: False
    with False m ix assms(3) show ?thesis by (simp add: takeMessage_def Let_def trailer_def)
  qed
qed

text \<open>What the loop leaves: the messages whose frames are complete are delivered, the rest waits.\<close>

definition waiting_for :: "bool \<Rightarrow> MessageBuffer \<Rightarrow> bytes \<Rightarrow> bytes list \<Rightarrow> bool" where
  "waiting_for x mb rest todo \<longleftrightarrow> sane mb \<and> mb_extraMessageSizeCheck mb = x \<and>
     undecoded mb @ rest = concat (map (frame x) todo) \<and>
     (case todo of [] \<Rightarrow> True | m # _ \<Rightarrow> length (undecoded mb) < length (frame x m))"

lemma readMessages_frames:
  "undecoded mb @ rest = concat (map (frame x) msgs) \<Longrightarrow> \<forall>m \<in> set msgs. fits m \<Longrightarrow> sane mb \<Longrightarrow>
   mb_extraMessageSizeCheck mb = x \<Longrightarrow>
   \<exists>got todo mb'. msgs = got @ todo \<and> readMessages mb acc = (Inr (acc @ got), mb') \<and> waiting_for x mb' rest todo"
proof (induction msgs arbitrary: mb acc)
  case Nil
  then have "mb_curMessageLen mb = None" "mb_buffer mb = []"
    by (auto simp: undecoded_def split: option.splits dest: arg_cong[where f = length])
  then have "readMessages mb acc = (Inr acc, mb)"
    by (subst readMessages.simps) (simp add: readLength_def takeMessage_def MESSAGE_LEN_BYTES_def)
  with Nil show ?case by (auto simp: waiting_for_def)
next
  case (Cons m msgs)
  let ?more = "concat (map (frame x) msgs)" and ?r = "readLength mb"
  have stream: "undecoded mb @ rest = frame x m @ ?more" and fit: "fits m" using Cons.prems by simp_all
  note len = readLength_frame[OF stream fit Cons.prems(3)]
  show ?case
  proof (cases "length (undecoded mb) < length (frame x m)")
    case True
    have "takeMessage ?r = (Return, ?r) \<and> undecoded ?r = undecoded mb \<and> sane ?r \<and> mb_extraMessageSizeCheck ?r = x"
    proof (cases "length (undecoded mb) < 4")
      case True
      with len have "?r = mb" "mb_curMessageLen mb = None" by simp_all
      then show ?thesis using Cons.prems by (simp add: takeMessage_def)
    next
      case False
      with len have r: "?r = mb\<lparr>mb_curMessageLen := Some (int (length m)), mb_buffer := drop 4 (undecoded mb)\<rparr>" by simp
      have u4: "take 4 (undecoded mb) = lengthField m" "drop 4 (undecoded mb) @ rest = m @ trailer x m @ ?more"
        using False arg_cong[OF stream, of "take 4"] arg_cong[OF stream, of "drop 4"] by (simp_all add: frame_def)
      then have "undecoded ?r = undecoded mb"
        using append_take_drop_id[of 4 "undecoded mb"] by (simp add: undecoded_def r lengthField_def)
      moreover have "takeMessage ?r = (Return, ?r)"
        using takeMessage_frame[of ?r rest m ?more] u4 fit Cons.prems(4) True False
        unfolding r by (simp add: frame_def Let_def)
      ultimately show ?thesis using Cons.prems(4) fit by (simp add: r sane_def fits_def)
    qed
    then have "readMessages mb acc = (Inr acc, ?r) \<and> waiting_for x ?r rest (m # msgs)"
      using True Cons.prems(1) by (subst readMessages.simps) (simp add: waiting_for_def)
    then show ?thesis by (intro exI[of _ "[]"] exI[of _ "m # msgs"]) auto
  next
    case False
    then have r: "?r = mb\<lparr>mb_curMessageLen := Some (int (length m)), mb_buffer := drop 4 (undecoded mb)\<rparr>"
      using len by (simp add: frame_def split: if_splits)
    have u4: "drop 4 (undecoded mb) @ rest = m @ trailer x m @ ?more"
      using False arg_cong[OF stream, of "drop 4"] by (simp add: frame_def)
    let ?k = "length m + length (trailer x m)"
    let ?n = "?r\<lparr>mb_messagesEver := mb_messagesEver ?r + 1, mb_buffer := drop ?k (mb_buffer ?r), mb_curMessageLen := None\<rparr>"
    have again: "takeMessage ?r = (Again m, ?n)"
      using takeMessage_frame[of ?r rest m ?more] u4 fit Cons.prems(4) False
      unfolding r by (simp add: frame_def Let_def)
    have "undecoded ?n @ rest = ?more"
      using False arg_cong[OF u4, of "drop ?k"] by (simp add: undecoded_def r frame_def)
    then obtain got todo mb' where IH: "msgs = got @ todo"
      "readMessages ?n (acc @ [m]) = (Inr (acc @ [m] @ got), mb')" "waiting_for x mb' rest todo"
      using Cons.IH[of ?n "acc @ [m]"] Cons.prems by (auto simp: sane_def r)
    have "readMessages mb acc = (Inr (acc @ m # got), mb')"
      using again IH(2) by (subst readMessages.simps) simp
    with IH show ?thesis by (intro exI[of _ "m # got"] exI[of _ todo]) auto
  qed
qed

section \<open>Successive reads\<close>

text \<open>The socket loop hands every piece it receives to \<open>write\<close> and passes the messages on; the first
  exception ends the connection.\<close>

fun writeAll :: "bytes list \<Rightarrow> MessageBuffer \<Rightarrow> (py_error + bytes list) \<times> MessageBuffer" where
  "writeAll [] mb = (Inr [], mb)"
| "writeAll (c # cs) mb =
     (case bufferWrite c mb of
        (Inl e, mb') \<Rightarrow> (Inl e, mb')
      | (Inr ms, mb') \<Rightarrow>
          (case writeAll cs mb' of
             (Inl e, mb'') \<Rightarrow> (Inl e, mb'')
           | (Inr ms', mb'') \<Rightarrow> (Inr (ms @ ms'), mb'')))"

text \<open>The messages whose frames lie within the first \<open>k\<close> bytes of the stream.\<close>

fun arrived :: "bool \<Rightarrow> nat \<Rightarrow> bytes list \<Rightarrow> bytes list" where
  "arrived x k [] = []"
| "arrived x k (m # ms) = (if length (frame x m) \<le> k then m # arrived x (k - length (frame x m)) ms else [])"

lemma arrived_got:
  assumes "case todo of [] \<Rightarrow> True | m # _ \<Rightarrow> k < length (frame x m)"
  shows "arrived x (length (concat (map (frame x) got)) + k) (got @ todo) = got"
  using assms by (induction got) (auto split: list.splits)

lemma arrived_all: "arrived x (length (concat (map (frame x) msgs))) msgs = msgs"
  using arrived_got[where todo = "[]" and k = 0 and got = msgs] by simp

lemma undecoded_extend: "undecoded (mb\<lparr>mb_buffer := mb_buffer mb @ c\<rparr>) = undecoded mb @ c"
  by (simp add: undecoded_def split: option.splits)

lemma bufferWrite_frames:
  assumes "waiting_for x mb (c @ rest) msgs" and "\<forall>m \<in> set msgs. fits m"
  obtains got todo mb' where "msgs = got @ todo" "bufferWrite c mb = (Inr got, mb')" "waiting_for x mb' rest todo"
proof -
  let ?mb = "mb\<lparr>mb_buffer := mb_buffer mb @ c\<rparr>"
  have "undecoded ?mb @ rest = concat (map (frame x) msgs)" "sane ?mb" "mb_extraMessageSizeCheck ?mb = x"
    using assms(1) by (auto simp: waiting_for_def undecoded_extend sane_def)
  from readMessages_frames[OF this(1) assms(2) this(2,3), of "[]"] that show thesis
    by (auto simp: bufferWrite_def)
qed

lemma writeAll_frames:
  "waiting_for x mb (concat cs @ rest) msgs \<Longrightarrow> \<forall>m \<in> set msgs. fits m \<Longrightarrow>
   \<exists>got todo mb'. msgs = got @ todo \<and> writeAll cs mb = (Inr got, mb') \<and> waiting_for x mb' rest todo"
proof (induction cs arbitrary: mb msgs)
  case (Cons c cs)
  then have "waiting_for x mb (c @ (concat cs @ rest)) msgs" by simp
  then obtain got todo mb' where 1: "msgs = got @ todo" "bufferWrite c mb = (Inr got, mb')"
    "waiting_for x mb' (concat cs @ rest) todo"
    using Cons.prems(2) by (rule bufferWrite_frames)
  with Cons.prems(2) Cons.IH[of mb' todo] obtain got' todo' mb'' where
    "todo = got' @ todo'" "writeAll cs mb' = (Inr got', mb'')" "waiting_for x mb'' rest todo'" by auto
  with 1 show ?case by (intro exI[of _ "got @ got'"] exI[of _ todo']) auto
qed auto

lemma waiting_for_new:
  assumes "bs = concat (map (frame x) msgs)"
  shows "waiting_for x (newMessageBuffer x) bs msgs"
  using assms by (auto simp: waiting_for_def newMessageBuffer_def undecoded_def sane_def frame_def split: list.splits)

text \<open>C13. The framing round-trips and never holds a complete message back. Encode messages, each
  shorter than \<open>2 ^ 31\<close> bytes, concatenate the frames, cut any received prefix of that stream into pieces
  in any way, and feed the pieces to a fresh buffer: no exception is raised, the messages delivered
  are exactly those whose frames have fully arrived, unchanged and in order, and when the whole
  stream has arrived that is every message, with nothing left in the buffer.\<close>

theorem messages_round_trip:
  assumes "\<forall>m \<in> set msgs. length m < 2 ^ 31"
    and "list_all2 (\<lambda>m f. encode m extra = Inr f) msgs frames"
    and "concat pieces @ rest = concat frames"
  shows "fst (writeAll pieces (newMessageBuffer extra)) = Inr (arrived extra (length (concat pieces)) msgs)
    \<and> (rest = [] \<longrightarrow> arrived extra (length (concat pieces)) msgs = msgs
        \<and> pendingBytecount (snd (writeAll pieces (newMessageBuffer extra))) = 0)"
proof -
  have fit: "\<forall>m \<in> set msgs. fits m" using assms(1) by (simp add: fits_def)
  from assms(2) fit have frames: "frames = map (frame extra) msgs"
    by (induction rule: list_all2_induct) (auto simp: encode_frame)
  with assms(3) have "waiting_for extra (newMessageBuffer extra) (concat pieces @ rest) msgs"
    by (intro waiting_for_new) simp
  from writeAll_frames[OF this fit] obtain got todo mb' where
    w: "msgs = got @ todo" "writeAll pieces (newMessageBuffer extra) = (Inr got, mb')" "waiting_for extra mb' rest todo"
    by blast
  let ?u = "length (undecoded mb')"
  have "length (concat pieces) + length rest = length (concat (map (frame extra) got)) + (?u + length rest)"
  proof -
    have "undecoded mb' @ rest = concat (map (frame extra) todo)" using w(3) by (simp add: waiting_for_def)
    then have "?u + length rest = length (concat (map (frame extra) todo))" by (metis length_append)
    then show ?thesis using arg_cong[OF assms(3), of length] by (simp add: frames w(1))
  qed
  then have len: "length (concat pieces) = length (concat (map (frame extra) got)) + ?u" by simp
  have arr: "arrived extra (length (concat pieces)) msgs = got"
    unfolding len w(1) using w(3) by (intro arrived_got) (auto simp: waiting_for_def split: list.splits)
  have "todo = [] \<and> pendingBytecount mb' = 0" if "rest = []"
  proof -
    have "todo = []" using w(3) that by (cases todo) (auto simp: waiting_for_def)
    with w(3) that show ?thesis by (auto simp: waiting_for_def undecoded_def pendingBytecount_def split: option.splits)
  qed
  with w arr show ?thesis by auto
qed

theorem messages_round_trip_witness:
  "fst (writeAll [[2, 0, 0], [0, 7, 8, 2, 0, 0, 0, 0], [0, 0, 0, 0, 0, 0, 0]] (newMessageBuffer True)) = Inr [[7, 8], []]
   \<and> list_all2 (\<lambda>m f. encode m True = Inr f) [[7, 8], []] [[2, 0, 0, 0, 7, 8, 2, 0, 0, 0], [0, 0, 0, 0, 0, 0, 0, 0]]"
proof -
  let ?p = "[[2, 0, 0], [0, 7, 8, 2, 0, 0, 0, 0], [0, 0, 0, 0, 0, 0, 0]] :: bytes list"
    and ?m = "[[7, 8], []] :: bytes list"
    and ?f = "[[2, 0, 0, 0, 7, 8, 2, 0, 0, 0], [0, 0, 0, 0, 0, 0, 0, 0]] :: bytes list"
  have a: "\<forall>m \<in> set ?m. length m < 2 ^ 31" by simp
  have b: "list_all2 (\<lambda>m f. encode m True = Inr f) ?m ?f" by code_simp
  have c: "concat ?p @ [] = concat ?f" by simp
  from messages_round_trip[OF a b c] a b show ?thesis by auto
qed

section \<open>Corrupt streams\<close>

lemma readMessages_prefix:
  "mb_curMessageLen mb = None \<Longrightarrow> mb_buffer mb = concat (map (frame (mb_extraMessageSizeCheck mb)) msgs) @ tail \<Longrightarrow>
   \<forall>m \<in> set msgs. fits m \<Longrightarrow>
   readMessages mb acc = readMessages (mb\<lparr>mb_buffer := tail, mb_messagesEver := mb_messagesEver mb + length msgs\<rparr>) (acc @ msgs)"
proof (induction msgs arbitrary: mb acc)
  case Nil
  then have "mb\<lparr>mb_buffer := tail, mb_messagesEver := mb_messagesEver mb + 0\<rparr> = mb" by (cases mb) simp
  then show ?case by simp
next
  case (Cons m msgs)
  let ?x = "mb_extraMessageSizeCheck mb"
  let ?tail = "concat (map (frame ?x) msgs) @ tail"
  let ?n = "mb\<lparr>mb_messagesEver := mb_messagesEver mb + 1, mb_buffer := ?tail\<rparr>"
  have fit: "fits m" and u: "undecoded mb = mb_buffer mb" and buf: "mb_buffer mb = frame ?x m @ ?tail"
    using Cons.prems by (simp_all add: undecoded_def)
  have "undecoded mb @ [] = frame ?x m @ ?tail" "sane mb" using Cons.prems(1) buf u by (simp_all add: sane_def)
  from readLength_frame[OF this(1) fit this(2)]
  have r: "readLength mb = mb\<lparr>mb_curMessageLen := Some (int (length m)), mb_buffer := m @ trailer ?x m @ ?tail\<rparr>"
    using buf u by (simp add: frame_def)
  have "takeMessage (readLength mb) = (Again m, ?n)"
    using takeMessage_frame[of "readLength mb" "[]" m ?tail] fit Cons.prems(1) unfolding r by (simp add: Let_def)
  then have "readMessages mb acc = readMessages ?n (acc @ [m])" by (subst readMessages.simps) simp
  then show ?case using Cons.IH[of ?n "acc @ [m]"] Cons.prems by simp
qed

lemma takeMessage_corrupt:
  assumes "mb_extraMessageSizeCheck mb" and "mb_curMessageLen mb = Some (int (length m))"
    and "mb_buffer mb = m @ bad @ tail" and "structUnpack bad = Inr k" and "k \<noteq> int (length m)"
  shows "\<exists>mb'. takeMessage mb = (Raise CorruptMessageStream, mb')"
proof -
  have len: "length bad = 4" using assms(4) by (simp add: structUnpack_def split: if_splits)
  have ix: "pyIndex (int (length m)) (mb_buffer mb) = length m" "pyIndex (int (length m) + 4) (mb_buffer mb) = length m + 4"
    by (simp_all add: pyIndex_def assms(3) len)
  have "pySlice (int (length m)) (int (length m) + 4) (mb_buffer mb) = bad"
    unfolding pySlice_def ix by (simp add: assms(3) len)
  with assms len show ?thesis by (simp add: takeMessage_def MESSAGE_LEN_BYTES_def Let_def)
qed

text \<open>C14. With the size check on, a frame whose trailing length differs from its leading one is
  detected: whatever well-formed frames come before it and whatever follows it in the same read,
  \<open>write\<close> raises \<open>CorruptMessageStream\<close>. None of the messages of that read is delivered, not even the
  intact ones before the corrupt frame.\<close>

theorem corrupt_trailer_detected:
  assumes "\<forall>m \<in> set msgs. length m < 2 ^ 31" and "length m < 2 ^ 31"
    and "list_all2 (\<lambda>m f. encode m True = Inr f) msgs frames"
    and "structPack (int (length m)) = Inr len" and "structUnpack bad = Inr k" and "k \<noteq> int (length m)"
  shows "fst (bufferWrite (concat frames @ len @ m @ bad @ tail) (newMessageBuffer True)) = Inl CorruptMessageStream"
proof -
  have fit: "\<forall>m \<in> set msgs. fits m" "fits m" using assms(1,2) by (simp_all add: fits_def)
  from assms(3) fit have frames: "frames = map (frame True) msgs"
    by (induction rule: list_all2_induct) (auto simp: encode_frame)
  let ?mb = "(newMessageBuffer True)\<lparr>mb_buffer := len @ m @ bad @ tail, mb_messagesEver := length msgs\<rparr>"
  have len: "len = lengthField m" using assms(4) pack_length[OF fit(2)] by simp
  let ?r = "?mb\<lparr>mb_curMessageLen := Some (int (length m)), mb_buffer := m @ bad @ tail\<rparr>"
  have "readLength ?mb = ?r"
    by (simp add: readLength_def newMessageBuffer_def MESSAGE_LEN_BYTES_def len unpack_length[OF fit(2)])
  moreover obtain mb' where "takeMessage ?r = (Raise CorruptMessageStream, mb')"
    using takeMessage_corrupt[of ?r m bad tail k] assms(5,6) by (auto simp: newMessageBuffer_def)
  ultimately have "fst (readMessages ?mb msgs) = Inl CorruptMessageStream" by (subst readMessages.simps) simp
  moreover have "bufferWrite (concat frames @ len @ m @ bad @ tail) (newMessageBuffer True) = readMessages ?mb msgs"
    unfolding bufferWrite_def frames by (subst readMessages_prefix[where msgs = msgs and tail = "len @ m @ bad @ tail"])
      (simp_all add: newMessageBuffer_def fit)
  ultimately show ?thesis by simp
qed

theorem corrupt_trailer_detected_witness:
  "fst (bufferWrite (concat [[1, 0, 0, 0, 9, 1, 0, 0, 0]] @ [2, 0, 0, 0] @ [7, 8] @ [3, 0, 0, 0] @ [5]) (newMessageBuffer True))
     = Inl CorruptMessageStream"
proof -
  have a: "\<forall>m \<in> set [[9] :: bytes]. length m < 2 ^ 31" by simp
  have b: "length ([7, 8] :: bytes) < 2 ^ 31" by simp
  have c: "list_all2 (\<lambda>m f. encode m True = Inr f) [[9]] [[1, 0, 0, 0, 9, 1, 0, 0, 0]]" by code_simp
  have d: "structPack (int (length ([7, 8] :: bytes))) = Inr [2, 0, 0, 0]" by code_simp
  have e: "structUnpack [3, 0, 0, 0] = Inr 3" by code_simp
  have f: "(3::int) \<noteq> int (length ([7, 8] :: bytes))" by simp
  from corrupt_trailer_detected[OF a b c d e f] show ?thesis .
qed

text \<open>A negative leading length is not reported as \<open>CorruptMessageStream\<close>, the only exception the socket
  loop treats as a broken stream: here the trailing slice is too short and \<open>struct.unpack\<close> raises.\<close>

lemma negative_length_raises_struct_error:
  "fst (bufferWrite [255, 255, 255, 255, 0, 0, 0] (newMessageBuffer True)) = Inl StructError"
  unfolding bufferWrite_def newMessageBuffer_def
  by (subst readMessages.simps)
    (simp add: readLength_def takeMessage_def structUnpack_def pySlice_def pyIndex_def MESSAGE_LEN_BYTES_def)

end
