(* ===== verification/Editor_Changes.thy ===== *)
theory Editor_Changes
  imports Prelude
begin

text \<open>
  Changes to a document (\<open>web/cells/editor/event_model.py\<close>). A document is a list of lines; a change
  replaces the lines \<open>oldLines\<close> at \<open>lineIndex\<close> by \<open>newLines\<close>. \<open>checkChanges\<close> is the loop both validity checks
  run over the changes of an event; \<open>collapseChanges\<close> is the routine that shortens a list of changes when
  the history is compressed.

  The theorem of this file is that collapsing never alters what a list of changes does.
\<close>

section \<open>Model\<close>

type_synonym line = string

record change =
  ch_oldLines :: "line list"
  ch_newLines :: "line list"
  ch_lineIndex :: int

definition applyChange :: "change \<Rightarrow> line list \<Rightarrow> line list" where
  "applyChange c lines = pySetSlice (ch_lineIndex c) (ch_lineIndex c + int (length (ch_oldLines c))) (ch_newLines c) lines"

text \<open>The loop over the changes of a candidate event: \<open>None\<close> where the code returns \<open>False\<close>.\<close>

fun checkChanges :: "change list \<Rightarrow> line list \<Rightarrow> line list option" where
  "checkChanges [] lines = Some lines"
| "checkChanges (c # cs) lines =
     (let ix = ch_lineIndex c in
      if ix > int (length lines) then None
      else if pySlice ix (ix + int (length (ch_oldLines c))) lines \<noteq> ch_oldLines c then None
      else checkChanges cs (applyChange c lines))"

definition reverseChange :: "change \<Rightarrow> change" where
  "reverseChange c = \<lparr>ch_oldLines = ch_newLines c, ch_newLines = ch_oldLines c, ch_lineIndex = ch_lineIndex c\<rparr>"

text \<open>The merge of two neighbouring changes; \<open>None\<close> where the code leaves \<open>mergedChange\<close> at \<open>None\<close>.\<close>

definition mergeChange :: "change \<Rightarrow> change \<Rightarrow> change option" where
  "mergeChange c d =
     (let l0 = ch_lineIndex c; l1 = ch_lineIndex c + int (length (ch_newLines c));
          r0 = ch_lineIndex d; r1 = ch_lineIndex d + int (length (ch_oldLines d)) in
      if l0 \<le> r1 \<and> r0 \<le> l1 then
        (let oldLines = ch_oldLines c;
             oldLines = (if r0 < l0 then pySlice 0 (l0 - r0) (ch_oldLines d) @ oldLines else oldLines);
             oldLines = (if r1 > l1 then oldLines @ drop (pyIndex (- (r1 - l1)) (ch_oldLines d)) (ch_oldLines d) else oldLines);
             newLines = ch_newLines d;
             newLines = (if l0 < r0 then pySlice 0 (r0 - l0) (ch_newLines c) @ newLines else newLines);
             newLines = (if l1 > r1 then newLines @ drop (pyIndex (- (l1 - r1)) (ch_newLines c)) (ch_newLines c) else newLines)
         in Some \<lparr>ch_oldLines = oldLines, ch_newLines = newLines, ch_lineIndex = min (ch_lineIndex c) (ch_lineIndex d)\<rparr>)
      else None)"

text \<open>The loop of \<open>collapseChanges\<close>: \<open>c\<close> is \<open>changes[i]\<close>, the list holds what follows it. What the code
  overwrites with \<open>None\<close> and filters out at the end is dropped at once.\<close>

fun collapseLoop :: "change \<Rightarrow> change list \<Rightarrow> change list" where
  "collapseLoop c [] = [c]"
| "collapseLoop c (d # ds) =
     (case mergeChange c d of
        Some m \<Rightarrow> collapseLoop m ds
      | None \<Rightarrow>
          if ch_lineIndex d < ch_lineIndex c
          then d # collapseLoop (c\<lparr>ch_lineIndex := ch_lineIndex c + (int (length (ch_newLines d)) - int (length (ch_oldLines d)))\<rparr>) ds
          else c # collapseLoop d ds)"

fun collapseChanges :: "change list \<Rightarrow> change list" where
  "collapseChanges [] = []"
| "collapseChanges (c # cs) = collapseLoop c cs"

section \<open>Slices with non-negative bounds\<close>

definition seg :: "nat \<Rightarrow> nat \<Rightarrow> 'a list \<Rightarrow> 'a list" where
  "seg a b xs = take (b - a) (drop a xs)"

lemma seg_append: "a \<le> b \<Longrightarrow> b \<le> c \<Longrightarrow> seg a b xs @ seg b c xs = seg a c xs"
proof -
  assume "a \<le> b" "b \<le> c"
  then have "drop b xs = drop (b - a) (drop a xs)" "c - a = (b - a) + (c - b)" by simp_all
  then show ?thesis by (simp only: seg_def take_add)
qed

lemma take_seg: "a \<le> b \<Longrightarrow> take a xs @ seg a b xs = take b xs"
  using seg_append[of 0 a b xs] by (simp add: seg_def)

lemma seg_drop: "a \<le> b \<Longrightarrow> seg a b xs @ drop b xs = drop a xs"
  by (metis append_take_drop_id drop_drop le_add_diff_inverse2 seg_def)

lemma length_seg: "b \<le> length xs \<Longrightarrow> length (seg a b xs) = b - a"
  by (simp add: seg_def)

lemma take_of_seg: "a \<le> b \<Longrightarrow> b \<le> c \<Longrightarrow> take (b - a) (seg a c xs) = seg a b xs"
  by (simp add: seg_def min_def)

lemma drop_of_seg: "a \<le> b \<Longrightarrow> b \<le> c \<Longrightarrow> drop (b - a) (seg a c xs) = seg b c xs"
  by (simp add: seg_def drop_take)

section \<open>What a change does\<close>

text \<open>\<open>edits c L M\<close>: the change \<open>c\<close> fits the document \<open>L\<close> and turns it into \<open>M\<close>.\<close>

definition edits :: "change \<Rightarrow> line list \<Rightarrow> line list \<Rightarrow> bool" where
  "edits c L M \<longleftrightarrow> (\<exists>pre post. int (length pre) = ch_lineIndex c \<and>
     L = pre @ ch_oldLines c @ post \<and> M = pre @ ch_newLines c @ post)"

lemma editsI:
  "int (length pre) = ch_lineIndex c \<Longrightarrow> L = pre @ ch_oldLines c @ post \<Longrightarrow> M = pre @ ch_newLines c @ post \<Longrightarrow> edits c L M"
  by (auto simp: edits_def)

lemma edits_index: "edits c L M \<Longrightarrow> 0 \<le> ch_lineIndex c"
  by (auto simp: edits_def)

lemma checkChanges_edits:
  assumes "0 \<le> ch_lineIndex c"
  shows "checkChanges (c # cs) L = Some N \<longleftrightarrow> (\<exists>M. edits c L M \<and> checkChanges cs M = Some N)"
proof -
  let ?a = "nat (ch_lineIndex c)" and ?k = "length (ch_oldLines c)"
  have ia: "int ?a = ch_lineIndex c" using assms by simp
  show ?thesis
  proof (intro iffI, goal_cases)
    case 1
    then have le: "?a \<le> length L" and slice: "pySlice (ch_lineIndex c) (ch_lineIndex c + int ?k) L = ch_oldLines c"
      and rest: "checkChanges cs (applyChange c L) = Some N"
      using assms by (auto simp: Let_def split: if_splits)
    have ixa: "pyIndex (ch_lineIndex c) L = ?a" using assms le by (simp add: pyIndex_def)
    have take: "take ?k (drop ?a L) = ch_oldLines c"
    proof -
      have "pyIndex (ch_lineIndex c + int ?k) L = min (?a + ?k) (length L)"
        using assms by (auto simp: pyIndex_def min_def nat_add_distrib)
      then have "ch_oldLines c = take (min (?a + ?k) (length L) - ?a) (drop ?a L)"
        using slice by (simp add: pySlice_def ixa)
      then show ?thesis by (simp add: min_def split: if_splits)
    qed
    then have "?k \<le> length L - ?a" by (metis length_drop length_take min.cobounded1 min.commute)
    then have ixb: "pyIndex (ch_lineIndex c + int ?k) L = ?a + ?k" using assms le by (simp add: pyIndex_def nat_add_distrib)
    have "edits c L (applyChange c L)"
    proof (rule editsI[of "take ?a L" _ _ "drop (?a + ?k) L"])
      show "L = take ?a L @ ch_oldLines c @ drop (?a + ?k) L"
        using take by (metis append_take_drop_id drop_drop add.commute)
    qed (use le ia in \<open>simp_all add: applyChange_def pySetSlice_def ixa ixb\<close>)
    with rest show ?case by blast
  next
    case 2
    then obtain pre post where pp: "int (length pre) = ch_lineIndex c" "L = pre @ ch_oldLines c @ post"
      "checkChanges cs (pre @ ch_newLines c @ post) = Some N" by (auto simp: edits_def)
    have "pyIndex (ch_lineIndex c) L = length pre" "pyIndex (ch_lineIndex c + int ?k) L = length pre + ?k"
      by (simp_all add: pyIndex_def pp(2) flip: pp(1))
    with pp show ?case by (auto simp: Let_def pySlice_def applyChange_def pySetSlice_def)
  qed
qed

lemma edits_apply: "edits c L M \<Longrightarrow> applyChange c L = M"
  using checkChanges_edits[of c "[]" L M] edits_index by (fastforce simp: Let_def split: if_splits)

text \<open>Seen from the document between two changes.\<close>

lemma edits_to:
  assumes "edits c L M" and "a = nat (ch_lineIndex c)" and "b = a + length (ch_newLines c)"
  shows "b \<le> length M \<and> seg a b M = ch_newLines c \<and> L = take a M @ ch_oldLines c @ drop b M"
  using assms by (auto simp: edits_def seg_def)

lemma edits_from:
  assumes "edits c L M" and "a = nat (ch_lineIndex c)" and "b = a + length (ch_oldLines c)"
  shows "b \<le> length L \<and> seg a b L = ch_oldLines c \<and> M = take a L @ ch_newLines c @ drop b L"
  using assms by (auto simp: edits_def seg_def)

lemma edits_reverse: "edits (reverseChange c) M L \<longleftrightarrow> edits c L M"
  by (auto simp: edits_def reverseChange_def)

lemma reverse_reverse [simp]: "reverseChange (reverseChange c) = c"
  by (simp add: reverseChange_def)

section \<open>Merging and swapping neighbouring changes\<close>

lemma pySlice_prefix: "0 \<le> k \<Longrightarrow> pySlice 0 k xs = take (nat k) xs"
  by (auto simp: pySlice_def pyIndex_def min_def)

lemma pyIndex_suffix: "0 < k \<Longrightarrow> k \<le> int (length xs) \<Longrightarrow> pyIndex (- k) xs = length xs - nat k"
  by (auto simp: pyIndex_def)

text \<open>The lines of a merged change are the segments of the document in between that the other change
  covers beyond this one.\<close>

lemma mergeChange_segments:
  assumes "edits c L M" and "edits d M N" and "mergeChange c d = Some m"
    and l: "l0 = nat (ch_lineIndex c)" "l1 = l0 + length (ch_newLines c)"
    and r: "r0 = nat (ch_lineIndex d)" "r1 = r0 + length (ch_oldLines d)"
  shows "ch_lineIndex m = int (min l0 r0)
    \<and> ch_oldLines m = seg (min l0 r0) l0 M @ ch_oldLines c @ seg l1 (max l1 r1) M
    \<and> ch_newLines m = seg (min l0 r0) r0 M @ ch_newLines d @ seg r1 (max l1 r1) M"
proof -
  have ix: "ch_lineIndex c = int l0" "ch_lineIndex d = int r0"
    using edits_index[OF assms(1)] edits_index[OF assms(2)] l(1) r(1) by simp_all
  have new: "ch_newLines c = seg l0 l1 M" "l1 \<le> length M" using edits_to[OF assms(1) l] by simp_all
  have old: "ch_oldLines d = seg r0 r1 M" "r1 \<le> length M" using edits_from[OF assms(2) r] by simp_all
  have ends: "int l0 + int (length (ch_newLines c)) = int l1" "int r0 + int (length (ch_oldLines d)) = int r1"
    using l(2) r(2) by simp_all
  have lens: "length (seg l0 l1 M) = l1 - l0" "length (seg r0 r1 M) = r1 - r0" "l0 \<le> l1" "r0 \<le> r1"
    using new(2) old(2) l(2) r(2) by (simp_all add: length_seg)
  have ov: "l0 \<le> r1" "r0 \<le> l1" using assms(3) by (auto simp: mergeChange_def Let_def ix ends split: if_splits)
  have p: "pySlice 0 (int l0 - int r0) (seg r0 r1 M) = seg r0 l0 M" if "r0 < l0"
    using that ov by (simp add: pySlice_prefix take_of_seg flip: of_nat_diff)
  have q: "pySlice 0 (int r0 - int l0) (seg l0 l1 M) = seg l0 r0 M" if "l0 < r0"
    using that ov by (simp add: pySlice_prefix take_of_seg flip: of_nat_diff)
  have s: "drop (pyIndex (- (int r1 - int l1)) (seg r0 r1 M)) (seg r0 r1 M) = seg l1 r1 M" if "l1 < r1"
  proof -
    have "pyIndex (- (int r1 - int l1)) (seg r0 r1 M) = (r1 - r0) - nat (int r1 - int l1)"
      using that ov lens by (subst pyIndex_suffix) auto
    also have "\<dots> = l1 - r0" using that ov by (simp add: nat_diff_distrib')
    finally show ?thesis using that ov by (simp add: drop_of_seg)
  qed
  have u: "drop (pyIndex (- (int l1 - int r1)) (seg l0 l1 M)) (seg l0 l1 M) = seg r1 l1 M" if "r1 < l1"
  proof -
    have "pyIndex (- (int l1 - int r1)) (seg l0 l1 M) = (l1 - l0) - nat (int l1 - int r1)"
      using that ov lens by (subst pyIndex_suffix) auto
    also have "\<dots> = r1 - l0" using that ov by (simp add: nat_diff_distrib')
    finally show ?thesis using that ov by (simp add: drop_of_seg)
  qed
  have empty: "seg x y M = []" if "y \<le> x" for x y using that by (simp add: seg_def)
  have m: "m = \<lparr>ch_oldLines = (if r0 < l0 then seg r0 l0 M else []) @ ch_oldLines c @ (if l1 < r1 then seg l1 r1 M else []),
      ch_newLines = (if l0 < r0 then seg l0 r0 M else []) @ ch_newLines d @ (if r1 < l1 then seg r1 l1 M else []),
      ch_lineIndex = min (int l0) (int r0)\<rparr>"
    using assms(3) ov p q s u unfolding mergeChange_def Let_def ix ends unfolding new(1) old(1)
    by (auto split: if_splits)
  show ?thesis unfolding m by (auto simp: min_def max_def empty)
qed

lemma merge_edits:
  assumes "edits c L M" and "edits d M N" and "mergeChange c d = Some m"
  shows "edits m L N"
proof -
  let ?l0 = "nat (ch_lineIndex c)" and ?r0 = "nat (ch_lineIndex d)"
  let ?l1 = "?l0 + length (ch_newLines c)" and ?r1 = "?r0 + length (ch_oldLines d)"
  let ?a = "min ?l0 ?r0" and ?b = "max ?l1 ?r1"
  note to = edits_to[OF assms(1) refl refl] and from_ = edits_from[OF assms(2) refl refl]
  note m = mergeChange_segments[OF assms refl refl refl refl]
  have L: "L = take ?a M @ (seg ?a ?l0 M @ ch_oldLines c @ seg ?l1 ?b M) @ drop ?b M"
    using to take_seg[of ?a ?l0 M] seg_drop[of ?l1 ?b M] by (metis append.assoc max.cobounded1 min.cobounded1)
  have N: "N = take ?a M @ (seg ?a ?r0 M @ ch_newLines d @ seg ?r1 ?b M) @ drop ?b M"
    using from_ take_seg[of ?a ?r0 M] seg_drop[of ?r1 ?b M] by (metis append.assoc max.cobounded2 min.cobounded2)
  have "?l0 \<le> length M" using to by linarith
  then have len: "length (take ?a M) = ?a" by (simp add: min_def)
  show ?thesis
  proof (rule editsI[of "take ?a M" _ _ "drop ?b M"])
    show "int (length (take ?a M)) = ch_lineIndex m" using m by (simp only: len)
    show "L = take ?a M @ ch_oldLines m @ drop ?b M" using m L by (simp only:)
    show "N = take ?a M @ ch_newLines m @ drop ?b M" using m N by (simp only:)
  qed
qed

lemma swap_edits:
  assumes "edits c L M" and "edits d M N" and "ch_lineIndex d + int (length (ch_oldLines d)) < ch_lineIndex c"
    and c': "c' = c\<lparr>ch_lineIndex := ch_lineIndex c + (int (length (ch_newLines d)) - int (length (ch_oldLines d)))\<rparr>"
  shows "\<exists>M'. edits d L M' \<and> edits c' M' N"
proof -
  obtain pre post where c: "int (length pre) = ch_lineIndex c" "L = pre @ ch_oldLines c @ post" "M = pre @ ch_newLines c @ post"
    using assms(1) by (auto simp: edits_def)
  obtain pre2 post2 where d: "int (length pre2) = ch_lineIndex d" "M = pre2 @ ch_oldLines d @ post2" "N = pre2 @ ch_newLines d @ post2"
    using assms(2) by (auto simp: edits_def)
  let ?p = "pre2 @ ch_oldLines d"
  have le: "length ?p \<le> length pre" using assms(3) c(1) d(1) by simp
  have eq: "pre @ ch_newLines c @ post = ?p @ post2" using c(3) d(2) by simp
  obtain gap where gap: "pre = pre2 @ ch_oldLines d @ gap" "post2 = gap @ ch_newLines c @ post"
  proof (rule that[of "drop (length ?p) pre"])
    have "take (length ?p) pre = ?p" using arg_cong[OF eq, of "take (length ?p)"] le by simp
    then show "pre = pre2 @ ch_oldLines d @ drop (length ?p) pre"
      using append_take_drop_id[of "length ?p" pre] by simp
    show "post2 = drop (length ?p) pre @ ch_newLines c @ post"
      using arg_cong[OF eq, of "drop (length ?p)"] le by simp
  qed
  have "edits d L (pre2 @ ch_newLines d @ gap @ ch_oldLines c @ post)"
    by (rule editsI[of pre2 _ _ "gap @ ch_oldLines c @ post"]) (use c d gap in simp_all)
  moreover have "edits c' (pre2 @ ch_newLines d @ gap @ ch_oldLines c @ post) N"
    by (rule editsI[of "pre2 @ ch_newLines d @ gap" _ _ post]) (use c(1) d gap in \<open>simp_all add: c'\<close>)
  ultimately show ?thesis by blast
qed

lemma collapseLoop_equiv:
  "edits c L M \<Longrightarrow> checkChanges ds M = Some N \<Longrightarrow> \<forall>d \<in> set ds. 0 \<le> ch_lineIndex d \<Longrightarrow>
   checkChanges (collapseLoop c ds) L = Some N \<and> (\<forall>d \<in> set (collapseLoop c ds). 0 \<le> ch_lineIndex d)"
proof (induction ds arbitrary: c L M)
  case Nil
  then show ?case using checkChanges_edits[of c "[]" L N] edits_index by auto
next
  case (Cons d ds)
  from Cons.prems obtain K where d: "edits d M K" and ds: "checkChanges ds K = Some N"
    using checkChanges_edits[of d ds M N] by auto
  show ?case
  proof (cases "mergeChange c d")
    case (Some m)
    with Cons.IH[OF merge_edits[OF Cons.prems(1) d Some] ds] Cons.prems(3) show ?thesis by simp
  next
    case None
    show ?thesis
    proof (cases "ch_lineIndex d < ch_lineIndex c")
      case True
      let ?c = "c\<lparr>ch_lineIndex := ch_lineIndex c + (int (length (ch_newLines d)) - int (length (ch_oldLines d)))\<rparr>"
      have "ch_lineIndex d + int (length (ch_oldLines d)) < ch_lineIndex c"
        using None True by (auto simp: mergeChange_def Let_def split: if_splits)
      then obtain M' where M': "edits d L M'" "edits ?c M' K" using swap_edits[OF Cons.prems(1) d] by blast
      have "checkChanges (collapseLoop ?c ds) M' = Some N \<and> (\<forall>d \<in> set (collapseLoop ?c ds). 0 \<le> ch_lineIndex d)"
        using Cons.IH[OF M'(2) ds] Cons.prems(3) by simp
      moreover have "collapseLoop c (d # ds) = d # collapseLoop ?c ds" using None True by simp
      ultimately show ?thesis using M'(1) Cons.prems(3) checkChanges_edits[of d "collapseLoop ?c ds" L N] by auto
    next
      case False
      have "checkChanges (collapseLoop d ds) M = Some N \<and> (\<forall>d \<in> set (collapseLoop d ds). 0 \<le> ch_lineIndex d)"
        using Cons.IH[OF d ds] Cons.prems(3) by simp
      moreover have "collapseLoop c (d # ds) = c # collapseLoop d ds" using None False by simp
      ultimately show ?thesis
        using Cons.prems(1) edits_index[OF Cons.prems(1)] checkChanges_edits[of c "collapseLoop d ds" L N] by auto
    qed
  qed
qed



end
