(* ===== verification/Editor_Events.thy ===== *)
theory Editor_Events
  imports Complex_Main Editor_Changes
begin

text \<open>
  Events of the text editor (\<open>web/cells/editor/event_model.py\<close>): the checks on what a browser sends, the
  event itself, and the checks that an event fits the document it is meant for.

  What a browser sends is JSON, so the checks run on \<open>json\<close> values (a Python \<open>bool\<close> is an \<open>int\<close>, and is
  accepted as one). The rest of the code indexes checked events; it is modelled on the record \<open>event\<close>.
  \<open>eventDict\<close> is the dictionary an \<open>event\<close> record stands for and \<open>readEvent\<close> the field accesses.
  Timestamps are only compared, and are rationals.
\<close>

section \<open>JSON values\<close>

datatype json =
    JNone
  | JBool bool
  | JInt int
  | JFloat rat
  | JStr string
  | JList "json list"
  | JDict "(string \<times> json) list"

text \<open>The value under a key that is known to be present.\<close>

definition field :: "(string \<times> json) list \<Rightarrow> string \<Rightarrow> json" where
  "field d k = (case map_of d k of Some v \<Rightarrow> v | None \<Rightarrow> JNone)"

fun asInt :: "json \<Rightarrow> int option" where
  "asInt (JInt n) = Some n"
| "asInt (JBool b) = Some (of_bool b)"
| "asInt _ = None"

fun asNumber :: "json \<Rightarrow> rat option" where
  "asNumber (JFloat q) = Some q"
| "asNumber (JInt n) = Some (of_int n)"
| "asNumber (JBool b) = Some (of_bool b)"
| "asNumber _ = None"

fun asStr :: "json \<Rightarrow> string option" where
  "asStr (JStr s) = Some s"
| "asStr _ = None"

fun asStrOrNone :: "json \<Rightarrow> string option option" where
  "asStrOrNone (JStr s) = Some (Some s)"
| "asStrOrNone JNone = Some None"
| "asStrOrNone _ = None"

fun asList :: "json \<Rightarrow> json list option" where
  "asList (JList xs) = Some xs"
| "asList _ = None"

section \<open>The checks\<close>

definition newline :: char where
  "newline = CHR 0x0A"

definition isLine :: "json \<Rightarrow> bool" where
  "isLine j = (case j of JStr s \<Rightarrow> newline \<notin> set s | _ \<Rightarrow> False)"

definition isCoord :: "json \<Rightarrow> bool" where
  "isCoord j = (case asInt j of Some n \<Rightarrow> \<not> n < 0 | None \<Rightarrow> False)"

fun isValidChange :: "json \<Rightarrow> bool" where
  "isValidChange (JDict d) =
     (set (map fst d) = {''oldLines'', ''newLines'', ''lineIndex''} \<and>
      (case (asList (field d ''oldLines''), asList (field d ''newLines''), asInt (field d ''lineIndex'')) of
         (Some oldLines, Some newLines, Some lineIndex) \<Rightarrow> \<not> lineIndex < 0 \<and> list_all isLine (oldLines @ newLines)
       | _ \<Rightarrow> False))"
| "isValidChange _ = False"

fun isValidCursor :: "json \<Rightarrow> bool" where
  "isValidCursor (JDict d) =
     (set (map fst d) = {''pos'', ''tail'', ''desiredCol''} \<and>
      (case (asList (field d ''pos''), asList (field d ''tail'')) of
         (Some pos, Some tail) \<Rightarrow> length pos = 2 \<and> length tail = 2 \<and>
           list_all isCoord (pos @ tail @ [field d ''desiredCol''])
       | _ \<Rightarrow> False))"
| "isValidCursor _ = False"

definition REQUIRED_FIELDS :: "string list" where
  "REQUIRED_FIELDS = [''changes'', ''startCursors'', ''newCursors'', ''timestamp'', ''undoState'',
     ''editSessionId'', ''reason'', ''eventGuid'', ''priorEventGuid'', ''undoing'']"

definition listOf :: "(json \<Rightarrow> bool) \<Rightarrow> json \<Rightarrow> bool" where
  "listOf p j = (case asList j of Some xs \<Rightarrow> list_all p xs | None \<Rightarrow> False)"

fun isValidReason :: "json \<Rightarrow> bool" where
  "isValidReason (JStr s) = True"
| "isValidReason (JDict d) = list_all (\<lambda>(k, v). asStr v \<noteq> None) d"
| "isValidReason _ = False"

fun isValidEvent :: "json \<Rightarrow> bool" where
  "isValidEvent (JDict d) =
     (set (map fst d) = set REQUIRED_FIELDS \<and>
      listOf isValidChange (field d ''changes'') \<and>
      listOf isValidCursor (field d ''startCursors'') \<and>
      listOf isValidCursor (field d ''newCursors'') \<and>
      asNumber (field d ''timestamp'') \<noteq> None \<and>
      field d ''undoState'' \<in> {JNone, JStr ''undo'', JStr ''redo''} \<and>
      asStrOrNone (field d ''undoing'') \<noteq> None \<and>
      asStrOrNone (field d ''editSessionId'') \<noteq> None \<and>
      asStr (field d ''eventGuid'') \<noteq> None \<and>
      asStr (field d ''priorEventGuid'') \<noteq> None \<and>
      isValidReason (field d ''reason''))"
| "isValidEvent _ = False"

section \<open>Events\<close>

record cursor =
  cu_pos :: "int list"
  cu_tail :: "int list"
  cu_desiredCol :: int

datatype undo_state = Undo | Redo

datatype reason = Reason string | ReasonDict "(string \<times> string) list"

record event =
  ev_changes :: "change list"
  ev_startCursors :: "cursor list"
  ev_newCursors :: "cursor list"
  ev_timestamp :: rat
  ev_undoState :: "undo_state option"
  ev_editSessionId :: "string option"
  ev_priorEventGuid :: string
  ev_eventGuid :: string
  ev_reason :: reason
  ev_undoing :: "string option"

definition changeDict :: "change \<Rightarrow> json" where
  "changeDict c = JDict [(''oldLines'', JList (map JStr (ch_oldLines c))), (''newLines'', JList (map JStr (ch_newLines c))),
     (''lineIndex'', JInt (ch_lineIndex c))]"

definition cursorDict :: "cursor \<Rightarrow> json" where
  "cursorDict c = JDict [(''pos'', JList (map JInt (cu_pos c))), (''tail'', JList (map JInt (cu_tail c))),
     (''desiredCol'', JInt (cu_desiredCol c))]"

fun undoStateValue :: "undo_state option \<Rightarrow> json" where
  "undoStateValue None = JNone"
| "undoStateValue (Some Undo) = JStr ''undo''"
| "undoStateValue (Some Redo) = JStr ''redo''"

fun strOrNone :: "string option \<Rightarrow> json" where
  "strOrNone None = JNone"
| "strOrNone (Some s) = JStr s"

fun reasonValue :: "reason \<Rightarrow> json" where
  "reasonValue (Reason s) = JStr s"
| "reasonValue (ReasonDict d) = JDict (map (\<lambda>(k, v). (k, JStr v)) d)"

definition eventDict :: "event \<Rightarrow> json" where
  "eventDict e = JDict [
     (''changes'', JList (map changeDict (ev_changes e))),
     (''startCursors'', JList (map cursorDict (ev_startCursors e))),
     (''newCursors'', JList (map cursorDict (ev_newCursors e))),
     (''timestamp'', JFloat (ev_timestamp e)),
     (''undoState'', undoStateValue (ev_undoState e)),
     (''editSessionId'', strOrNone (ev_editSessionId e)),
     (''priorEventGuid'', JStr (ev_priorEventGuid e)),
     (''eventGuid'', JStr (ev_eventGuid e)),
     (''reason'', reasonValue (ev_reason e)),
     (''undoing'', strOrNone (ev_undoing e))]"

text \<open>The accesses \<open>event["changes"]\<close>, \<open>change["lineIndex"]\<close>, \<dots> and the types the code relies on; \<open>None\<close> if a key
  is missing or a value has the wrong type.\<close>

definition mapOpt :: "('a \<Rightarrow> 'b option) \<Rightarrow> 'a list \<Rightarrow> 'b list option" where
  "mapOpt f xs = those (map f xs)"

definition readList :: "(json \<Rightarrow> 'a option) \<Rightarrow> json \<Rightarrow> 'a list option" where
  "readList f j = Option.bind (asList j) (mapOpt f)"

fun readChange :: "json \<Rightarrow> change option" where
  "readChange (JDict d) =
     (case (readList asStr (field d ''oldLines''), readList asStr (field d ''newLines''), asInt (field d ''lineIndex'')) of
        (Some old, Some new, Some ix) \<Rightarrow> Some \<lparr>ch_oldLines = old, ch_newLines = new, ch_lineIndex = ix\<rparr>
      | _ \<Rightarrow> None)"
| "readChange _ = None"

fun readCursor :: "json \<Rightarrow> cursor option" where
  "readCursor (JDict d) =
     (case (readList asInt (field d ''pos''), readList asInt (field d ''tail''), asInt (field d ''desiredCol'')) of
        (Some p, Some t, Some c) \<Rightarrow> Some \<lparr>cu_pos = p, cu_tail = t, cu_desiredCol = c\<rparr>
      | _ \<Rightarrow> None)"
| "readCursor _ = None"

fun readUndoState :: "json \<Rightarrow> undo_state option option" where
  "readUndoState JNone = Some None"
| "readUndoState (JStr s) = (if s = ''undo'' then Some (Some Undo) else if s = ''redo'' then Some (Some Redo) else None)"
| "readUndoState _ = None"

fun readReason :: "json \<Rightarrow> reason option" where
  "readReason (JStr s) = Some (Reason s)"
| "readReason (JDict d) = map_option ReasonDict (mapOpt (\<lambda>(k, v). map_option (Pair k) (asStr v)) d)"
| "readReason _ = None"

fun readEvent :: "json \<Rightarrow> event option" where
  "readEvent (JDict d) =
     Option.bind (readList readChange (field d ''changes'')) (\<lambda>cs.
     Option.bind (readList readCursor (field d ''startCursors'')) (\<lambda>sc.
     Option.bind (readList readCursor (field d ''newCursors'')) (\<lambda>nc.
     Option.bind (asNumber (field d ''timestamp'')) (\<lambda>t.
     Option.bind (readUndoState (field d ''undoState'')) (\<lambda>us.
     Option.bind (asStrOrNone (field d ''editSessionId'')) (\<lambda>sid.
     Option.bind (asStr (field d ''priorEventGuid'')) (\<lambda>pg.
     Option.bind (asStr (field d ''eventGuid'')) (\<lambda>g.
     Option.bind (readReason (field d ''reason'')) (\<lambda>r.
     Option.bind (asStrOrNone (field d ''undoing'')) (\<lambda>u.
       Some \<lparr>ev_changes = cs, ev_startCursors = sc, ev_newCursors = nc, ev_timestamp = t, ev_undoState = us,
         ev_editSessionId = sid, ev_priorEventGuid = pg, ev_eventGuid = g, ev_reason = r, ev_undoing = u\<rparr>))))))))))"
| "readEvent _ = None"

section \<open>Events in the context of a document\<close>

definition applyEventsToLines :: "line list \<Rightarrow> event list \<Rightarrow> line list" where
  "applyEventsToLines lines events = fold (\<lambda>e. fold applyChange (ev_changes e)) events lines"

definition eventIsValidInContextOfLines :: "event \<Rightarrow> line list \<Rightarrow> string \<Rightarrow> event list \<Rightarrow> bool" where
  "eventIsValidInContextOfLines candidateEvent lines topEventGuid events =
     (isValidEvent (eventDict candidateEvent) \<and>
      ev_priorEventGuid candidateEvent = topEventGuid \<and>
      checkChanges (ev_changes candidateEvent) (applyEventsToLines lines events) \<noteq> None)"

fun validLoop :: "string set \<Rightarrow> string \<Rightarrow> line list \<Rightarrow> event list \<Rightarrow> bool" where
  "validLoop eventGuids topEventGuid lines [] = True"
| "validLoop eventGuids topEventGuid lines (e # es) =
     (if (case ev_undoing e of Some g \<Rightarrow> g \<noteq> [] \<and> g \<notin> eventGuids | None \<Rightarrow> False) then False
      else if ev_priorEventGuid e \<noteq> topEventGuid then False
      else case checkChanges (ev_changes e) lines of
             None \<Rightarrow> False
           | Some lines' \<Rightarrow> validLoop eventGuids (ev_eventGuid e) lines' es)"

definition eventsAreValidInContextOfLines :: "event list \<Rightarrow> line list \<Rightarrow> string \<Rightarrow> event list \<Rightarrow> bool" where
  "eventsAreValidInContextOfLines candidateEvents lines topEventGuid events =
     (if \<not> list_all (\<lambda>e. isValidEvent (eventDict e)) candidateEvents then False
      else if candidateEvents = [] then True
      else let eventGuids = set (map ev_eventGuid events @ map ev_eventGuid candidateEvents) in
        if topEventGuid \<in> set (map ev_eventGuid candidateEvents) then False
        else if card eventGuids \<noteq> length events + length candidateEvents then False
        else validLoop eventGuids topEventGuid (applyEventsToLines lines events) candidateEvents)"

section \<open>Grouping, collapsing and reversing events\<close>

definition strokeCat :: "string \<Rightarrow> string" where
  "strokeCat stroke = (if stroke = '' '' then ''space'' else if stroke = ''Enter'' then ''newline'' else ''char'')"

definition eventsAreInSameUndoStream :: "event \<Rightarrow> event \<Rightarrow> bool" where
  "eventsAreInSameUndoStream e1 e2 =
     (if ev_newCursors e1 \<noteq> ev_startCursors e2 then False
      else case (ev_reason e1, ev_reason e2) of
        (ReasonDict r1, ReasonDict r2) \<Rightarrow>
          (case (map_of r1 ''keystroke'', map_of r2 ''keystroke'') of
             (Some stroke1, Some stroke2) \<Rightarrow> strokeCat stroke1 = strokeCat stroke2
           | _ \<Rightarrow> False)
      | _ \<Rightarrow> False)"

definition oneLineChange :: "change \<Rightarrow> bool" where
  "oneLineChange c = (\<not> (length (ch_oldLines c) \<noteq> 1 \<or> length (ch_newLines c) \<noteq> 1))"

definition eventsAreOnSameLine :: "event \<Rightarrow> event \<Rightarrow> bool" where
  "eventsAreOnSameLine e1 e2 =
     (list_all oneLineChange (ev_changes e1) \<and> list_all oneLineChange (ev_changes e2) \<and>
      set (map ch_lineIndex (ev_changes e1)) = set (map ch_lineIndex (ev_changes e2)))"

definition collapseEvents :: "event \<Rightarrow> event \<Rightarrow> event" where
  "collapseEvents e1 e2 =
     \<lparr>ev_changes = collapseChanges (ev_changes e1 @ ev_changes e2),
      ev_startCursors = ev_startCursors e1, ev_newCursors = ev_newCursors e2,
      ev_timestamp = ev_timestamp e2, ev_undoState = ev_undoState e2, ev_editSessionId = ev_editSessionId e2,
      ev_priorEventGuid = ev_priorEventGuid e1, ev_eventGuid = ev_eventGuid e2,
      ev_reason = ev_reason e2, ev_undoing = ev_undoing e2\<rparr>"

text \<open>\<open>now\<close> and \<open>guid\<close> are the results of \<open>time.time()\<close> and \<open>uuid.uuid4()\<close>.\<close>

definition reverseEventForUndo :: "event \<Rightarrow> string option \<Rightarrow> string \<Rightarrow> rat \<Rightarrow> string \<Rightarrow> event" where
  "reverseEventForUndo e curEditSessionId priorEventGuid now guid =
     \<lparr>ev_changes = map reverseChange (rev (ev_changes e)),
      ev_startCursors = ev_newCursors e, ev_newCursors = ev_startCursors e,
      ev_timestamp = now, ev_undoState = Some (if ev_undoState e = Some Undo then Redo else Undo),
      ev_editSessionId = curEditSessionId, ev_priorEventGuid = priorEventGuid, ev_eventGuid = guid,
      ev_reason = ev_reason e, ev_undoing = Some (ev_eventGuid e)\<rparr>"

section \<open>Checked input is well typed\<close>

definition wfChange :: "change \<Rightarrow> bool" where
  "wfChange c \<longleftrightarrow> 0 \<le> ch_lineIndex c \<and> (\<forall>l \<in> set (ch_oldLines c @ ch_newLines c). newline \<notin> set l)"

definition wfCursor :: "cursor \<Rightarrow> bool" where
  "wfCursor c \<longleftrightarrow> length (cu_pos c) = 2 \<and> length (cu_tail c) = 2 \<and>
     (\<forall>n \<in> set (cu_pos c @ cu_tail c @ [cu_desiredCol c]). 0 \<le> n)"

definition wfEvent :: "event \<Rightarrow> bool" where
  "wfEvent e \<longleftrightarrow> (\<forall>c \<in> set (ev_changes e). wfChange c) \<and>
     (\<forall>c \<in> set (ev_startCursors e). wfCursor c) \<and> (\<forall>c \<in> set (ev_newCursors e). wfCursor c)"

lemma mapOpt_simps [simp]:
  "mapOpt f [] = Some []"
  "mapOpt f (x # xs) = (case f x of None \<Rightarrow> None | Some y \<Rightarrow> map_option ((#) y) (mapOpt f xs))"
  by (simp_all add: mapOpt_def split: option.splits)

lemma mapOpt_map [simp]: "(\<And>x. f (g x) = Some (h x)) \<Longrightarrow> mapOpt f (map g xs) = Some (map h xs)"
  by (induction xs) auto

lemma mapOpt_all:
  assumes "\<And>x. P x \<Longrightarrow> \<exists>y. f x = Some y \<and> Q y" and "list_all P xs"
  shows "\<exists>ys. mapOpt f xs = Some ys \<and> length ys = length xs \<and> (\<forall>y \<in> set ys. Q y)"
  using assms(2)
proof (induction xs)
  case (Cons x xs)
  moreover obtain y where "f x = Some y" "Q y" using Cons.prems assms(1) by auto
  ultimately show ?case by auto
qed simp

lemma readList_all:
  assumes "\<And>x. P x \<Longrightarrow> \<exists>y. f x = Some y \<and> Q y" and "listOf P j"
  shows "\<exists>ys. readList f j = Some ys \<and> (\<forall>y \<in> set ys. Q y)"
proof -
  obtain xs where "asList j = Some xs" "list_all P xs" using assms(2) by (auto simp: listOf_def split: option.splits)
  with mapOpt_all[of P f Q xs] assms(1) show ?thesis by (auto simp: readList_def)
qed

lemma isLine_read: "isLine j \<Longrightarrow> \<exists>s. asStr j = Some s \<and> newline \<notin> set s"
  by (cases j) (auto simp: isLine_def)

lemma isCoord_read: "isCoord j \<Longrightarrow> \<exists>n. asInt j = Some n \<and> 0 \<le> n"
  by (auto simp: isCoord_def split: option.splits)

lemma isLine_JStr [simp]: "isLine (JStr s) \<longleftrightarrow> newline \<notin> set s"
  by (simp add: isLine_def)

lemma isCoord_JInt [simp]: "isCoord (JInt n) \<longleftrightarrow> 0 \<le> n"
  by (auto simp: isCoord_def)

lemma mapOpt_lines:
  "list_all isLine xs \<Longrightarrow> \<exists>ys. mapOpt asStr xs = Some ys \<and> length ys = length xs \<and> (\<forall>s \<in> set ys. newline \<notin> set s)"
  by (rule mapOpt_all[where P = isLine]) (rule isLine_read)

lemma mapOpt_coords:
  "list_all isCoord xs \<Longrightarrow> \<exists>ys. mapOpt asInt xs = Some ys \<and> length ys = length xs \<and> (\<forall>n \<in> set ys. 0 \<le> n)"
  by (rule mapOpt_all[where P = isCoord]) (rule isCoord_read)

lemma valid_change_read:
  assumes "isValidChange j"
  shows "\<exists>c. readChange j = Some c \<and> wfChange c"
proof -
  obtain d old new ix where j: "j = JDict d" and f: "asList (field d ''oldLines'') = Some old"
    "asList (field d ''newLines'') = Some new" "asInt (field d ''lineIndex'') = Some ix" "0 \<le> ix" "list_all isLine old" "list_all isLine new"
    using assms by (cases j) (auto split: option.splits)
  from mapOpt_lines[OF f(5)] mapOpt_lines[OF f(6)] f j show ?thesis
    by (auto simp: readList_def wfChange_def)
qed

lemma valid_cursor_read:
  assumes "isValidCursor j"
  shows "\<exists>c. readCursor j = Some c \<and> wfCursor c"
proof -
  obtain d p t where j: "j = JDict d" and f: "asList (field d ''pos'') = Some p" "asList (field d ''tail'') = Some t"
    "list_all isCoord p" "list_all isCoord t" "length p = 2" "length t = 2" "isCoord (field d ''desiredCol'')"
    using assms by (cases j) (auto split: option.splits)
  from mapOpt_coords[OF f(3)] mapOpt_coords[OF f(4)] isCoord_read[OF f(7)] f j show ?thesis
    by (auto simp: readList_def wfCursor_def)
qed

lemma readList_changes: "listOf isValidChange j \<Longrightarrow> \<exists>cs. readList readChange j = Some cs \<and> (\<forall>c \<in> set cs. wfChange c)"
  by (rule readList_all[where P = isValidChange]) (rule valid_change_read)

lemma readList_cursors: "listOf isValidCursor j \<Longrightarrow> \<exists>cs. readList readCursor j = Some cs \<and> (\<forall>c \<in> set cs. wfCursor c)"
  by (rule readList_all[where P = isValidCursor]) (rule valid_cursor_read)

lemma valid_reason_read: "isValidReason j \<Longrightarrow> \<exists>r. readReason j = Some r"
proof (cases j)
  case (JDict d)
  let ?f = "\<lambda>(k, v). map_option (Pair k) (asStr v)"
  assume "isValidReason j"
  with JDict have "list_all (\<lambda>(k, v). asStr v \<noteq> None) d" by simp
  then have "\<exists>r. mapOpt ?f d = Some r" by (induction d) auto
  with JDict show ?thesis by auto
qed auto

lemma valid_undoState_read: "j \<in> {JNone, JStr ''undo'', JStr ''redo''} \<Longrightarrow> \<exists>u. readUndoState j = Some u"
  by auto

lemma changeDict_valid [simp]: "isValidChange (changeDict c) \<longleftrightarrow> wfChange c"
  by (auto simp: changeDict_def field_def wfChange_def list_all_iff ball_Un)

lemma cursorDict_valid [simp]: "isValidCursor (cursorDict c) \<longleftrightarrow> wfCursor c"
  by (auto simp: cursorDict_def field_def wfCursor_def list_all_iff ball_Un)

lemma undoStateValue_in: "undoStateValue u \<in> {JNone, JStr ''undo'', JStr ''redo''}"
  by (cases u rule: undoStateValue.cases) auto

lemma asStrOrNone_strOrNone [simp]: "asStrOrNone (strOrNone s) = Some s"
  by (cases s) auto

lemma reasonValue_valid [simp]: "isValidReason (reasonValue r)"
  by (cases r) (auto simp: list_all_iff)

lemma eventDict_valid [simp]: "isValidEvent (eventDict e) \<longleftrightarrow> wfEvent e"
proof -
  have keys: "set (map fst [(''changes'', a), (''startCursors'', b), (''newCursors'', c), (''timestamp'', t), (''undoState'', u),
     (''editSessionId'', s), (''priorEventGuid'', p), (''eventGuid'', g), (''reason'', r), (''undoing'', n)])
     = set REQUIRED_FIELDS" for a b c t u s p g r n :: json
    by (auto simp: REQUIRED_FIELDS_def)
  show ?thesis unfolding eventDict_def isValidEvent.simps keys
    using undoStateValue_in[of "ev_undoState e"]
    by (simp add: field_def listOf_def wfEvent_def list_all_iff)
qed

lemma readChange_dict [simp]: "readChange (changeDict c) = Some c"
  by (simp add: changeDict_def field_def readList_def mapOpt_map[where h = id])

lemma readCursor_dict [simp]: "readCursor (cursorDict c) = Some c"
  by (simp add: cursorDict_def field_def readList_def mapOpt_map[where h = id])

lemma readReason_value [simp]: "readReason (reasonValue r) = Some r"
  by (cases r) (auto simp: mapOpt_map[where h = id] split_def)

lemma readUndoState_value [simp]: "readUndoState (undoStateValue u) = Some u"
  by (cases u rule: undoStateValue.cases) auto

lemma readEvent_dict [simp]: "readEvent (eventDict e) = Some e"
  by (simp add: eventDict_def field_def readList_def mapOpt_map[where h = id])

lemma isValidEvent_readable: "isValidEvent ev \<Longrightarrow> \<exists>e. readEvent ev = Some e \<and> wfEvent e"
proof -
  assume valid: "isValidEvent ev"
  obtain d where j: "ev = JDict d" using valid by (cases ev) auto
  have v: "listOf isValidChange (field d ''changes'')" "listOf isValidCursor (field d ''startCursors'')"
    "listOf isValidCursor (field d ''newCursors'')" "asNumber (field d ''timestamp'') \<noteq> None"
    "field d ''undoState'' \<in> {JNone, JStr ''undo'', JStr ''redo''}" "asStrOrNone (field d ''undoing'') \<noteq> None"
    "asStrOrNone (field d ''editSessionId'') \<noteq> None" "asStr (field d ''eventGuid'') \<noteq> None"
    "asStr (field d ''priorEventGuid'') \<noteq> None" "isValidReason (field d ''reason'')"
    using valid j by simp_all
  from readList_changes[OF v(1)] readList_cursors[OF v(2)] readList_cursors[OF v(3)]
    v(4,6-9) valid_undoState_read[OF v(5)] valid_reason_read[OF v(10)] j
  show ?thesis by (auto simp: wfEvent_def)
qed


definition demo_json :: json where
  "demo_json = JDict [(''reason'', JDict [(''keystroke'', JStr ''a'')]), (''undoing'', JNone), (''eventGuid'', JStr ''g1''),
     (''priorEventGuid'', JStr ''g0''), (''timestamp'', JInt 5), (''undoState'', JNone), (''editSessionId'', JNone),
     (''changes'', JList [JDict [(''lineIndex'', JBool False), (''oldLines'', JList [JStr []]), (''newLines'', JList [JStr ''a''])]]),
     (''startCursors'', JList []), (''newCursors'', JList [JDict [(''pos'', JList [JInt 0, JInt 1]), (''tail'', JList [JInt 0, JInt 1]), (''desiredCol'', JInt 1)]])]"


end
