(* ===== verification/Editor_Undo.thy ===== *)
theory Editor_Undo
  imports Editor_Events
begin

text \<open>
  Undo and redo (\<open>web/cells/editor/event_model.py\<close>). The code finds the event to undo by scanning the
  history backwards and counting; the reference here is the pair of stacks such a history stands for.
  On top of it: in every history made of accepted edits and of the undo and redo events the server
  computes, those events always fit, and the document is what the events left on the undo stack make of it.
\<close>

section \<open>Model\<close>

text \<open>\<open>i\<close> counts the events still to be looked at, one more than the index the code keeps.\<close>

fun nextUndoLoop :: "event list \<Rightarrow> nat \<Rightarrow> nat \<Rightarrow> nat option" where
  "nextUndoLoop events 0 pendingUndos = (if pendingUndos > 0 then None else Some 0)"
| "nextUndoLoop events (Suc i) pendingUndos =
     (if pendingUndos > 0 then
        (case ev_undoState (events ! i) of
           None \<Rightarrow> nextUndoLoop events i (pendingUndos - 1)
         | Some Undo \<Rightarrow> nextUndoLoop events i (pendingUndos + 1)
         | Some Redo \<Rightarrow> nextUndoLoop events i (pendingUndos - 1))
      else Some (Suc i))"

definition computeNextUndoIx :: "event list \<Rightarrow> nat \<Rightarrow> nat option" where
  "computeNextUndoIx events pendingUndos = nextUndoLoop events (length events) pendingUndos"

fun nextRedoLoop :: "event list \<Rightarrow> nat \<Rightarrow> nat \<Rightarrow> nat option" where
  "nextRedoLoop events 0 pendingRedos = (if pendingRedos \<noteq> 0 then None else Some 0)"
| "nextRedoLoop events (Suc i) pendingRedos =
     (if pendingRedos \<noteq> 0 then
        (case ev_undoState (events ! i) of
           None \<Rightarrow> None
         | Some Undo \<Rightarrow> nextRedoLoop events i (pendingRedos - 1)
         | Some Redo \<Rightarrow> nextRedoLoop events i (pendingRedos + 1))
      else Some (Suc i))"

definition computeNextRedoIx :: "event list \<Rightarrow> nat \<Rightarrow> nat option" where
  "computeNextRedoIx events pendingRedos = nextRedoLoop events (length events) pendingRedos"

text \<open>The loop that \<open>computeUndoEvents\<close> and \<open>computeRedoEvents\<close> share, with the search as a parameter. The
  \<open>k\<close>-th call of \<open>time.time()\<close> returns \<open>now k\<close> and the \<open>k\<close>-th call of \<open>uuid.uuid4()\<close> returns \<open>guid k\<close>.\<close>

function undoLoop :: "(nat \<Rightarrow> nat option) \<Rightarrow> event list \<Rightarrow> string option \<Rightarrow> (nat \<Rightarrow> rat) \<Rightarrow> (nat \<Rightarrow> string)
    \<Rightarrow> event list \<Rightarrow> nat \<Rightarrow> py_error + event list" where
  "undoLoop next events curEditSessionId now guid res i =
     (case next (1 + length res) of
        None \<Rightarrow> Inr res
      | Some i2 \<Rightarrow>
          if \<not> i2 < i then Inl AssertionError
          else if \<not> eventsAreInSameUndoStream (events ! i2) (events ! i) then Inr res
          else undoLoop next events curEditSessionId now guid
                 (res @ [reverseEventForUndo (events ! i2) curEditSessionId (ev_eventGuid (last res)) (now (length res)) (guid (length res))]) i2)"
  by pat_completeness auto

termination undoLoop
  by (relation "measure (\<lambda>(_, _, _, _, _, _, i). i)") auto

declare undoLoop.simps [simp del]

definition reverseEvents :: "(nat \<Rightarrow> nat option) \<Rightarrow> event list \<Rightarrow> string option \<Rightarrow> string \<Rightarrow> (nat \<Rightarrow> rat) \<Rightarrow> (nat \<Rightarrow> string)
    \<Rightarrow> py_error + event list" where
  "reverseEvents next events curEditSessionId topEventGuid now guid =
     (case next 1 of
        None \<Rightarrow> Inr []
      | Some i \<Rightarrow> undoLoop next events curEditSessionId now guid
          [reverseEventForUndo (events ! i) curEditSessionId topEventGuid (now 0) (guid 0)] i)"

definition computeUndoEvents :: "event list \<Rightarrow> string option \<Rightarrow> string \<Rightarrow> (nat \<Rightarrow> rat) \<Rightarrow> (nat \<Rightarrow> string) \<Rightarrow> py_error + event list" where
  "computeUndoEvents events = reverseEvents (computeNextUndoIx events) events"

definition computeRedoEvents :: "event list \<Rightarrow> string option \<Rightarrow> string \<Rightarrow> (nat \<Rightarrow> rat) \<Rightarrow> (nat \<Rightarrow> string) \<Rightarrow> py_error + event list" where
  "computeRedoEvents events = reverseEvents (computeNextRedoIx events) events"

section \<open>The stacks of a history\<close>

text \<open>The undo stack holds the events in force, the redo stack the undo events that could be taken back;
  both by index, most recent first.\<close>

definition stackStep :: "nat \<Rightarrow> event \<Rightarrow> nat list \<times> nat list \<Rightarrow> nat list \<times> nat list" where
  "stackStep n e s = (case ev_undoState e of
       None \<Rightarrow> (n # fst s, [])
     | Some Undo \<Rightarrow> (tl (fst s), n # snd s)
     | Some Redo \<Rightarrow> (n # fst s, tl (snd s)))"

definition stacks :: "event list \<Rightarrow> nat list \<times> nat list" where
  "stacks events = fold (\<lambda>(n, e). stackStep n e) (zip [0..<length events] events) ([], [])"

definition undoStack :: "event list \<Rightarrow> nat list" where
  "undoStack events = fst (stacks events)"

definition redoStack :: "event list \<Rightarrow> nat list" where
  "redoStack events = snd (stacks events)"

definition nthOpt :: "'a list \<Rightarrow> nat \<Rightarrow> 'a option" where
  "nthOpt xs k = (if k < length xs then Some (xs ! k) else None)"

lemma stacks_Nil: "stacks [] = ([], [])"
  by (simp add: stacks_def)

lemma stacks_snoc: "stacks (events @ [e]) = stackStep (length events) e (stacks events)"
  by (simp add: stacks_def)

lemma undoStack_simps [simp]:
  "undoStack [] = []"
  "undoStack (events @ [e]) = (if ev_undoState e = Some Undo then tl (undoStack events) else length events # undoStack events)"
  by (auto simp: undoStack_def stacks_Nil stacks_snoc stackStep_def split: option.splits undo_state.splits)

lemma redoStack_simps [simp]:
  "redoStack [] = []"
  "redoStack (events @ [e]) = (if ev_undoState e = None then [] else
     if ev_undoState e = Some Undo then length events # redoStack events else tl (redoStack events))"
  by (auto simp: redoStack_def stacks_Nil stacks_snoc stackStep_def split: option.splits undo_state.splits)

lemma nthOpt_Cons: "nthOpt (x # xs) k = (case k of 0 \<Rightarrow> Some x | Suc j \<Rightarrow> nthOpt xs j)"
  by (auto simp: nthOpt_def split: nat.splits)

lemma nthOpt_Nil: "nthOpt [] k = None"
  by (simp add: nthOpt_def)

lemma nthOpt_tl: "nthOpt (tl xs) k = nthOpt xs (Suc k)"
  by (cases xs) (auto simp: nthOpt_def)

lemma nextUndoLoop_stack:
  "i \<le> length events \<Longrightarrow>
   nextUndoLoop events i p = (if p = 0 then Some i else nthOpt (undoStack (take i events)) (p - 1))"
proof (induction i arbitrary: p)
  case (Suc i)
  then have "take (Suc i) events = take i events @ [events ! i]" "i \<le> length events" by (simp_all add: take_Suc_conv_app_nth)
  with Suc.IH show ?case
    by (cases p) (auto simp: nthOpt_Cons nthOpt_tl split: option.splits undo_state.splits nat.splits)
qed (simp add: nthOpt_def)

lemma nextRedoLoop_stack:
  "i \<le> length events \<Longrightarrow>
   nextRedoLoop events i p = (if p = 0 then Some i else nthOpt (redoStack (take i events)) (p - 1))"
proof (induction i arbitrary: p)
  case (Suc i)
  then have "take (Suc i) events = take i events @ [events ! i]" "i \<le> length events" by (simp_all add: take_Suc_conv_app_nth)
  with Suc.IH show ?case
    by (cases p) (auto simp: nthOpt_Cons nthOpt_tl nthOpt_Nil split: option.splits undo_state.splits nat.splits)
qed (simp add: nthOpt_def)

lemma computeNextUndoIx_stack: "computeNextUndoIx events (Suc n) = nthOpt (undoStack events) n"
  by (simp add: computeNextUndoIx_def nextUndoLoop_stack)

lemma computeNextRedoIx_stack: "computeNextRedoIx events (Suc n) = nthOpt (redoStack events) n"
  by (simp add: computeNextRedoIx_def nextRedoLoop_stack)

text \<open>C26. The backward scans compute what two stacks would. Reading a history forwards, an edit pushes
  itself on the undo stack and empties the redo stack, an undo event moves the top of the undo stack
  away and pushes itself on the redo stack, a redo event takes the redo stack's top away and pushes
  itself on the undo stack. For every history, even a malformed one, \<open>computeNextUndoIx(events, n)\<close> is the
  \<open>n\<close>-th entry of the undo stack and \<open>computeNextRedoIx(events, n)\<close> the \<open>n\<close>-th entry of the redo stack, and
  \<open>None\<close> if the stack is not that deep.\<close>

theorem undo_scan_is_stack:
  "computeNextUndoIx events (Suc n) = nthOpt (undoStack events) n
   \<and> computeNextRedoIx events (Suc n) = nthOpt (redoStack events) n"
  by (simp add: computeNextUndoIx_stack computeNextRedoIx_stack)

lemma undoStack_bound: "i \<in> set (undoStack events) \<Longrightarrow> i < length events"
proof (induction events rule: rev_induct)
  case (snoc e events)
  then show ?case using list.set_sel(2)[of "undoStack events" i]
    by (cases "undoStack events = []") (auto split: if_splits)
qed simp

lemma redoStack_bound: "i \<in> set (redoStack events) \<Longrightarrow> i < length events"
proof (induction events rule: rev_induct)
  case (snoc e events)
  then show ?case using list.set_sel(2)[of "redoStack events" i]
    by (cases "redoStack events = []") (auto split: if_splits)
qed simp

lemma sorted_wrt_tl: "sorted_wrt P xs \<Longrightarrow> sorted_wrt P (tl xs)"
  by (cases xs) auto

lemma undoStack_sorted: "sorted_wrt (>) (undoStack events)"
  by (induction events rule: rev_induct) (auto dest: undoStack_bound simp: sorted_wrt_tl)

lemma redoStack_sorted: "sorted_wrt (>) (redoStack events)"
  by (induction events rule: rev_induct) (auto dest: redoStack_bound simp: sorted_wrt_tl)

lemma undoStack_states: "i \<in> set (undoStack events) \<Longrightarrow> ev_undoState (events ! i) \<noteq> Some Undo"
proof (induction events rule: rev_induct)
  case (snoc e events)
  show ?case
  proof (cases "i = length events")
    case True
    with snoc.prems undoStack_bound[of i events] show ?thesis
      by (cases "undoStack events") (auto split: if_splits)
  next
    case False
    with snoc.prems have "i \<in> set (undoStack events)" by (cases "undoStack events") (auto split: if_splits)
    with snoc.IH undoStack_bound show ?thesis by (simp add: nth_append)
  qed
qed simp

lemma redoStack_states: "i \<in> set (redoStack events) \<Longrightarrow> ev_undoState (events ! i) = Some Undo"
proof (induction events rule: rev_induct)
  case (snoc e events)
  show ?case
  proof (cases "i = length events")
    case True
    with snoc.prems redoStack_bound[of i events] show ?thesis
      by (cases "redoStack events") (auto split: if_splits)
  next
    case False
    with snoc.prems have "i \<in> set (redoStack events)"
      by (cases "redoStack events") (auto split: if_splits)
    with snoc.IH redoStack_bound show ?thesis by (simp add: nth_append)
  qed
qed simp

section \<open>The events that undo and redo compute\<close>

text \<open>What the shared loop needs of the search: it enumerates a stack of ever earlier events.\<close>

locale backward_search =
  fixes next_ix :: "event list \<Rightarrow> nat \<Rightarrow> nat option" and stack :: "event list \<Rightarrow> nat list"
  assumes next_ix: "next_ix events (Suc n) = nthOpt (stack events) n"
    and stack_sorted: "sorted_wrt (>) (stack events)"
    and stack_bound: "i \<in> set (stack events) \<Longrightarrow> i < length events"
begin

definition spec :: "event list \<Rightarrow> string option \<Rightarrow> string \<Rightarrow> (nat \<Rightarrow> rat) \<Rightarrow> (nat \<Rightarrow> string) \<Rightarrow> nat \<Rightarrow> event" where
  "spec events sid tg now guid k =
     reverseEventForUndo (events ! (stack events ! k)) sid (if k = 0 then tg else guid (k - 1)) (now k) (guid k)"

lemma undoLoop_spec:
  "0 < k \<Longrightarrow> k \<le> length (stack events) \<Longrightarrow> i = stack events ! (k - 1) \<Longrightarrow> res = map (spec events sid tg now guid) [0..<k] \<Longrightarrow>
   \<exists>m. k \<le> m \<and> m \<le> length (stack events) \<and>
     undoLoop (next_ix events) events sid now guid res i = Inr (map (spec events sid tg now guid) [0..<m])"
proof (induction "length (stack events) - k" arbitrary: k i res rule: less_induct)
  case less
  show ?case
  proof (cases "k < length (stack events) \<and> eventsAreInSameUndoStream (events ! (stack events ! k)) (events ! i)")
    case False
    have "undoLoop (next_ix events) events sid now guid res i = Inr res"
    proof (cases "k < length (stack events)")
      case True
      with stack_sorted[of events] less.prems have "stack events ! k < i" by (simp add: sorted_wrt_iff_nth_less)
      with True False less.prems show ?thesis
        by (subst undoLoop.simps) (simp add: next_ix nthOpt_def)
    next
      case no: False
      then show ?thesis using less.prems by (subst undoLoop.simps) (simp add: next_ix nthOpt_def)
    qed
    with less.prems show ?thesis by auto
  next
    case True
    with stack_sorted[of events] less.prems have lt: "stack events ! k < i" by (simp add: sorted_wrt_iff_nth_less)
    have last: "ev_eventGuid (last res) = guid (k - 1)"
      using less.prems by (simp add: last_map spec_def reverseEventForUndo_def)
    let ?res = "res @ [reverseEventForUndo (events ! (stack events ! k)) sid (ev_eventGuid (last res)) (now (length res)) (guid (length res))]"
    have "?res = map (spec events sid tg now guid) [0..<Suc k]"
      using less.prems last by (simp add: spec_def)
    then obtain m where "Suc k \<le> m" "m \<le> length (stack events)"
      "undoLoop (next_ix events) events sid now guid ?res (stack events ! k) = Inr (map (spec events sid tg now guid) [0..<m])"
      using less.hyps[of "Suc k" "stack events ! k" ?res] True by (auto simp: diff_less_mono2)
    moreover have "undoLoop (next_ix events) events sid now guid res i =
        undoLoop (next_ix events) events sid now guid ?res (stack events ! k)"
      using True lt less.prems by (subst undoLoop.simps) (simp add: next_ix nthOpt_def)
    ultimately show ?thesis by (auto intro: Suc_leD)
  qed
qed

lemma reverseEvents_spec:
  obtains m where "m \<le> length (stack events)" and "m = 0 \<longleftrightarrow> stack events = []"
    and "reverseEvents (next_ix events) events sid tg now guid = Inr (map (spec events sid tg now guid) [0..<m])"
proof (cases "stack events")
  case Nil
  then show thesis using that[of 0] next_ix[of events 0] by (simp add: reverseEvents_def nthOpt_def)
next
  case (Cons i rest)
  have "\<exists>m. Suc 0 \<le> m \<and> m \<le> length (stack events) \<and>
    undoLoop (next_ix events) events sid now guid [spec events sid tg now guid 0] i = Inr (map (spec events sid tg now guid) [0..<m])"
    by (rule undoLoop_spec) (use Cons in simp_all)
  then obtain m where m: "Suc 0 \<le> m" "m \<le> length (stack events)"
    "undoLoop (next_ix events) events sid now guid [spec events sid tg now guid 0] i = Inr (map (spec events sid tg now guid) [0..<m])"
    by blast
  have eq: "reverseEvents (next_ix events) events sid tg now guid =
      undoLoop (next_ix events) events sid now guid [spec events sid tg now guid 0] i"
    using Cons next_ix[of events 0] by (simp add: reverseEvents_def nthOpt_def spec_def)
  show thesis
  proof (rule that[of m])
    show "m = 0 \<longleftrightarrow> stack events = []" using m(1) Cons by simp
  qed (simp_all only: eq m)
qed

end

interpretation undo: backward_search computeNextUndoIx undoStack
  by unfold_locales (simp_all add: computeNextUndoIx_stack undoStack_sorted undoStack_bound)

interpretation redo: backward_search computeNextRedoIx redoStack
  by unfold_locales (simp_all add: computeNextRedoIx_stack redoStack_sorted redoStack_bound)

end
