(* ===== verification/Editor_History.thy ===== *)
theory Editor_History
  imports Editor_Undo
begin

text \<open>
  Histories of a document: accepted edits, and the undo and redo events the server computes. The
  theorems say that those events always fit the document and what the document is afterwards.
\<close>

section \<open>Running changes\<close>

lemma checkChanges_append:
  "checkChanges (xs @ ys) L = Option.bind (checkChanges xs L) (checkChanges ys)"
  by (induction xs arbitrary: L) (auto simp: Let_def)

lemma checkChanges_appendE:
  assumes "checkChanges (xs @ ys) L = Some N"
  obtains M where "checkChanges xs L = Some M" and "checkChanges ys M = Some N"
  using assms by (auto simp: checkChanges_append bind_eq_Some_conv)

lemma checkChanges_fold: "checkChanges cs L = Some N \<Longrightarrow> fold applyChange cs L = N"
  by (induction cs arbitrary: L) (auto simp: Let_def split: if_splits)

definition revChanges :: "event \<Rightarrow> change list" where
  "revChanges e = map reverseChange (rev (ev_changes e))"

lemma checkChanges_reverse:
  "\<forall>c \<in> set cs. 0 \<le> ch_lineIndex c \<Longrightarrow> checkChanges cs L = Some N \<Longrightarrow> checkChanges (map reverseChange (rev cs)) N = Some L"
proof (induction cs arbitrary: L)
  case (Cons c cs)
  then obtain M where M: "edits c L M" "checkChanges cs M = Some N" using checkChanges_edits[of c cs L N] by auto
  have "0 \<le> ch_lineIndex (reverseChange c)" using Cons.prems(1) by (simp add: reverseChange_def)
  then have "checkChanges [reverseChange c] M = Some L"
    using M(1) checkChanges_edits[of "reverseChange c" "[]" M L] by (auto simp: edits_reverse)
  with Cons.IH[OF _ M(2)] Cons.prems(1) show ?case by (simp add: checkChanges_append)
qed simp

lemma wfEvent_index: "wfEvent e \<Longrightarrow> \<forall>c \<in> set (ev_changes e). 0 \<le> ch_lineIndex c"
  by (auto simp: wfEvent_def wfChange_def)

lemma check_revChanges:
  "wfEvent e \<Longrightarrow> checkChanges (ev_changes e) L = Some N \<Longrightarrow> checkChanges (revChanges e) N = Some L"
  unfolding revChanges_def by (intro checkChanges_reverse wfEvent_index)

lemma reverse_changes [simp]: "ev_changes (reverseEventForUndo e sid g t u) = revChanges e"
  by (simp add: reverseEventForUndo_def revChanges_def)

lemma revChanges_reverse [simp]: "revChanges (reverseEventForUndo e sid g t u) = ev_changes e"
  by (simp add: reverseEventForUndo_def revChanges_def rev_map comp_def)

lemma wfEvent_reverse: "wfEvent e \<Longrightarrow> wfEvent (reverseEventForUndo e sid g t u)"
  by (auto simp: wfEvent_def wfChange_def reverseEventForUndo_def reverseChange_def)

lemma reverse_fields [simp]:
  "ev_eventGuid (reverseEventForUndo e sid g t u) = u"
  "ev_priorEventGuid (reverseEventForUndo e sid g t u) = g"
  "ev_undoing (reverseEventForUndo e sid g t u) = Some (ev_eventGuid e)"
  "ev_undoState (reverseEventForUndo e sid g t u) = Some (if ev_undoState e = Some Undo then Redo else Undo)"
  by (simp_all add: reverseEventForUndo_def)

definition changesOf :: "event list \<Rightarrow> change list" where
  "changesOf es = concat (map ev_changes es)"

lemma changesOf_append [simp]: "changesOf (xs @ ys) = changesOf xs @ changesOf ys"
  by (simp add: changesOf_def)

lemma changesOf_single [simp]: "changesOf [e] = ev_changes e" "changesOf [] = []"
  by (simp_all add: changesOf_def)

lemma applyEventsToLines_fold: "applyEventsToLines L es = fold applyChange (changesOf es) L"
  by (induction es arbitrary: L) (simp_all add: applyEventsToLines_def changesOf_def)

lemma applyEventsToLines_check: "checkChanges (changesOf es) L = Some N \<Longrightarrow> applyEventsToLines L es = N"
  by (simp add: applyEventsToLines_fold checkChanges_fold)

lemma applyEventsToLines_append: "applyEventsToLines L (xs @ ys) = applyEventsToLines (applyEventsToLines L xs) ys"
  by (simp add: applyEventsToLines_fold)

lemma check_after:
  assumes "checkChanges (changesOf (es @ us)) L = Some N"
  shows "checkChanges (changesOf us) (applyEventsToLines L es) = Some N"
proof -
  obtain M where M: "checkChanges (changesOf es) L = Some M" "checkChanges (changesOf us) M = Some N"
    using assms by (auto elim: checkChanges_appendE)
  with applyEventsToLines_check[OF M(1)] show ?thesis by simp
qed

section \<open>Accepted lists of events\<close>

definition topGuid :: "string \<Rightarrow> event list \<Rightarrow> string" where
  "topGuid g es = (if es = [] then g else ev_eventGuid (last es))"

fun chained :: "string \<Rightarrow> event list \<Rightarrow> bool" where
  "chained g [] = True"
| "chained g (e # es) = (ev_priorEventGuid e = g \<and> chained (ev_eventGuid e) es)"

definition undoing_known :: "string set \<Rightarrow> event list \<Rightarrow> bool" where
  "undoing_known G es \<longleftrightarrow> (\<forall>e \<in> set es. \<forall>g. ev_undoing e = Some g \<longrightarrow> g \<noteq> [] \<longrightarrow> g \<in> G)"

lemma topGuid_Cons: "topGuid g (e # es) = topGuid (ev_eventGuid e) es"
  by (simp add: topGuid_def)

lemma topGuid_snoc [simp]: "topGuid g (es @ [e]) = ev_eventGuid e" "topGuid g [] = g"
  by (simp_all add: topGuid_def)

lemma chained_append: "chained g (xs @ ys) \<longleftrightarrow> chained g xs \<and> chained (topGuid g xs) ys"
  by (induction xs arbitrary: g) (auto simp: topGuid_Cons)

lemma validLoop_iff:
  "validLoop G g L es \<longleftrightarrow> undoing_known G es \<and> chained g es \<and> checkChanges (changesOf es) L \<noteq> None"
proof (induction es arbitrary: g L)
  case (Cons e es)
  have "changesOf (e # es) = ev_changes e @ changesOf es" by (simp add: changesOf_def)
  with Cons show ?case by (auto simp: checkChanges_append undoing_known_def split: option.splits)
qed (simp add: undoing_known_def)

lemma eventsAreValid_iff:
  "eventsAreValidInContextOfLines cs L g es \<longleftrightarrow> cs = [] \<or>
     (\<forall>e \<in> set cs. wfEvent e) \<and> g \<notin> ev_eventGuid ` set cs \<and> distinct (map ev_eventGuid (es @ cs)) \<and>
     undoing_known (ev_eventGuid ` set (es @ cs)) cs \<and> chained g cs \<and>
     checkChanges (changesOf cs) (applyEventsToLines L es) \<noteq> None"
proof -
  have "card (set (map ev_eventGuid (es @ cs))) = length es + length cs \<longleftrightarrow> distinct (map ev_eventGuid (es @ cs))"
    by (metis card_distinct distinct_card length_append length_map)
  then show ?thesis
    by (auto simp: eventsAreValidInContextOfLines_def Let_def list_all_iff validLoop_iff image_Un)
qed

section \<open>Histories\<close>

definition fresh :: "string \<Rightarrow> event list \<Rightarrow> (nat \<Rightarrow> string) \<Rightarrow> bool" where
  "fresh g0 es guid \<longleftrightarrow> inj guid \<and> range guid \<inter> insert g0 (ev_eventGuid ` set es) = {}"

text \<open>The initial lines and guid, and what may happen: an edit that passes both checks of \<open>onMessage\<close>, an
  undo and a redo by \<open>triggerUndoOrRedo\<close>. That \<open>uuid4\<close> does not repeat itself is the hypothesis \<open>fresh\<close>.\<close>

inductive history :: "line list \<Rightarrow> string \<Rightarrow> event list \<Rightarrow> bool" for L0 g0 where
  start: "history L0 g0 []"
| edit: "history L0 g0 es \<Longrightarrow> ev_undoState e = None \<Longrightarrow> eventIsValidInContextOfLines e L0 (topGuid g0 es) es \<Longrightarrow>
    eventsAreValidInContextOfLines (es @ [e]) L0 g0 [] \<Longrightarrow> history L0 g0 (es @ [e])"
| undo: "history L0 g0 es \<Longrightarrow> fresh g0 es guid \<Longrightarrow> computeUndoEvents es sid (topGuid g0 es) now guid = Inr us \<Longrightarrow> history L0 g0 (es @ us)"
| redo: "history L0 g0 es \<Longrightarrow> fresh g0 es guid \<Longrightarrow> computeRedoEvents es sid (topGuid g0 es) now guid = Inr us \<Longrightarrow> history L0 g0 (es @ us)"

text \<open>The events in force and the undo events that could be taken back, most recent first.\<close>

definition live :: "event list \<Rightarrow> event list" where
  "live es = map ((!) es) (undoStack es)"

definition redoable :: "event list \<Rightarrow> event list" where
  "redoable es = map ((!) es) (redoStack es)"

lemma live_simps [simp]:
  "live [] = []"
  "live (es @ [e]) = (if ev_undoState e = Some Undo then tl (live es) else e # live es)"
proof -
  have old: "map ((!) (es @ [e])) (undoStack es) = live es"
    unfolding live_def by (auto simp: nth_append dest: undoStack_bound)
  have "live (es @ [e]) = map ((!) (es @ [e])) (if ev_undoState e = Some Undo then tl (undoStack es) else length es # undoStack es)"
    by (simp only: live_def undoStack_simps)
  then show "live (es @ [e]) = (if ev_undoState e = Some Undo then tl (live es) else e # live es)"
    by (simp add: map_tl old)
qed (simp add: live_def)

lemma redoable_simps [simp]:
  "redoable [] = []"
  "redoable (es @ [e]) = (if ev_undoState e = None then [] else
     if ev_undoState e = Some Undo then e # redoable es else tl (redoable es))"
proof -
  have old: "map ((!) (es @ [e])) (redoStack es) = redoable es"
    unfolding redoable_def by (auto simp: nth_append dest: redoStack_bound)
  have "redoable (es @ [e]) = map ((!) (es @ [e])) (if ev_undoState e = None then [] else
      if ev_undoState e = Some Undo then length es # redoStack es else tl (redoStack es))"
    by (simp only: redoable_def redoStack_simps)
  then show "redoable (es @ [e]) = (if ev_undoState e = None then [] else
     if ev_undoState e = Some Undo then e # redoable es else tl (redoable es))"
    by (simp add: map_tl old)
qed (simp add: redoable_def)

lemma live_mem: "e \<in> set (live es) \<Longrightarrow> e \<in> set es \<and> ev_undoState e \<noteq> Some Undo"
  by (auto simp: live_def undoStack_bound undoStack_states)

lemma redoable_mem: "e \<in> set (redoable es) \<Longrightarrow> e \<in> set es \<and> ev_undoState e = Some Undo"
  by (auto simp: redoable_def redoStack_bound redoStack_states)

text \<open>The events in force reproduce the document, and everything undone can be redone from there.\<close>

definition consistent :: "line list \<Rightarrow> event list \<Rightarrow> bool" where
  "consistent L0 es \<longleftrightarrow> (\<forall>e \<in> set es. wfEvent e) \<and> (\<exists>d d'.
     checkChanges (changesOf es) L0 = Some d \<and>
     checkChanges (changesOf (rev (live es))) L0 = Some d \<and>
     checkChanges (concat (map revChanges (redoable es))) d = Some d')"

lemma consistent_Nil: "consistent L0 []"
  by (simp add: consistent_def)

lemma consistent_document: "consistent L0 es \<Longrightarrow> applyEventsToLines L0 es = applyEventsToLines L0 (rev (live es))"
  by (auto simp: consistent_def dest!: applyEventsToLines_check)

lemma consistent_edit:
  assumes "consistent L0 es" and "wfEvent e" and "ev_undoState e = None"
    and "checkChanges (ev_changes e) (applyEventsToLines L0 es) \<noteq> None"
  shows "consistent L0 (es @ [e])"
proof -
  obtain d d' where d: "checkChanges (changesOf es) L0 = Some d" "checkChanges (changesOf (rev (live es))) L0 = Some d"
    using assms(1) by (auto simp: consistent_def)
  with assms(2-4) applyEventsToLines_check[OF d(1)] assms(1) show ?thesis
    by (auto simp: consistent_def checkChanges_append)
qed

lemma consistent_undo:
  assumes "consistent L0 es" and "live es = e # rest"
  shows "consistent L0 (es @ [reverseEventForUndo e sid g t u])"
proof -
  have e: "e \<in> set es" "ev_undoState e \<noteq> Some Undo" "wfEvent e"
    using live_mem[of e es] assms by (auto simp: consistent_def)
  obtain d d' where d: "checkChanges (changesOf es) L0 = Some d"
    "checkChanges (changesOf (rev rest @ [e])) L0 = Some d"
    "checkChanges (concat (map revChanges (redoable es))) d = Some d'"
    using assms by (auto simp: consistent_def)
  then obtain d0 where d0: "checkChanges (changesOf (rev rest)) L0 = Some d0" "checkChanges (ev_changes e) d0 = Some d"
    by (auto elim!: checkChanges_appendE)
  have "checkChanges (revChanges e) d = Some d0" using e(3) d0(2) by (rule check_revChanges)
  with d d0 e assms wfEvent_reverse[OF e(3)] show ?thesis
    by (auto simp: consistent_def checkChanges_append)
qed

lemma consistent_redo:
  assumes "consistent L0 es" and "redoable es = e # rest"
  shows "consistent L0 (es @ [reverseEventForUndo e sid g t u])"
proof -
  have e: "e \<in> set es" "ev_undoState e = Some Undo" "wfEvent e"
    using redoable_mem[of e es] assms by (auto simp: consistent_def)
  obtain d d' where d: "checkChanges (changesOf es) L0 = Some d" "checkChanges (changesOf (rev (live es))) L0 = Some d"
    "checkChanges (revChanges e @ concat (map revChanges rest)) d = Some d'"
    using assms by (auto simp: consistent_def)
  from d(3) obtain d1 where "checkChanges (revChanges e) d = Some d1"
    "checkChanges (concat (map revChanges rest)) d1 = Some d'" by (rule checkChanges_appendE)
  with d(1,2) e assms wfEvent_reverse[OF e(3)] show ?thesis
    by (auto simp: consistent_def checkChanges_append)
qed

section \<open>The computed events fit\<close>

lemma undo_spec_live:
  assumes "k < length (undoStack es)"
  shows "undo.spec es sid g now guid k =
    reverseEventForUndo (live es ! k) sid (if k = 0 then g else guid (k - 1)) (now k) (guid k)"
  using assms by (simp add: undo.spec_def live_def)

lemma redo_spec_redoable:
  assumes "k < length (redoStack es)"
  shows "redo.spec es sid g now guid k =
    reverseEventForUndo (redoable es ! k) sid (if k = 0 then g else guid (k - 1)) (now k) (guid k)"
  using assms by (simp add: redo.spec_def redoable_def)

lemma length_live [simp]: "length (live es) = length (undoStack es)" "length (redoable es) = length (redoStack es)"
  by (simp_all add: live_def redoable_def)

lemma consistent_undos:
  assumes "consistent L0 es" and "m \<le> length (undoStack es)"
  shows "consistent L0 (es @ map (undo.spec es sid g now guid) [0..<m]) \<and>
    live (es @ map (undo.spec es sid g now guid) [0..<m]) = drop m (live es)"
  using assms(2)
proof (induction m)
  case (Suc m)
  define es' where "es' = es @ map (undo.spec es sid g now guid) [0..<m]"
  have IH: "consistent L0 es'" "live es' = live es ! m # drop (Suc m) (live es)"
    using Suc by (simp_all add: Cons_nth_drop_Suc es'_def)
  have "ev_undoState (live es ! m) \<noteq> Some Undo" using live_mem[of "live es ! m" es] Suc.prems by simp
  moreover have "undo.spec es sid g now guid m =
      reverseEventForUndo (live es ! m) sid (if m = 0 then g else guid (m - 1)) (now m) (guid m)"
    using Suc.prems by (intro undo_spec_live) simp
  ultimately have "consistent L0 (es' @ [undo.spec es sid g now guid m])"
    "live (es' @ [undo.spec es sid g now guid m]) = drop (Suc m) (live es)"
    using consistent_undo[OF IH] IH(2) by simp_all
  then show ?case by (simp add: es'_def)
qed (use assms(1) in simp)

lemma consistent_redos:
  assumes "consistent L0 es" and "m \<le> length (redoStack es)"
  shows "consistent L0 (es @ map (redo.spec es sid g now guid) [0..<m]) \<and>
    redoable (es @ map (redo.spec es sid g now guid) [0..<m]) = drop m (redoable es)"
  using assms(2)
proof (induction m)
  case (Suc m)
  define es' where "es' = es @ map (redo.spec es sid g now guid) [0..<m]"
  have IH: "consistent L0 es'" "redoable es' = redoable es ! m # drop (Suc m) (redoable es)"
    using Suc by (simp_all add: Cons_nth_drop_Suc es'_def)
  have "ev_undoState (redoable es ! m) = Some Undo" using redoable_mem[of "redoable es ! m" es] Suc.prems by simp
  moreover have "redo.spec es sid g now guid m =
      reverseEventForUndo (redoable es ! m) sid (if m = 0 then g else guid (m - 1)) (now m) (guid m)"
    using Suc.prems by (intro redo_spec_redoable) simp
  ultimately have "consistent L0 (es' @ [redo.spec es sid g now guid m])"
    "redoable (es' @ [redo.spec es sid g now guid m]) = drop (Suc m) (redoable es)"
    using consistent_redo[OF IH] IH(2) by simp_all
  then show ?case by (simp add: es'_def)
qed (use assms(1) in simp)

lemma computed_events_fit:
  assumes "consistent L0 (es @ us)" and "chained g0 es" and "fresh g0 es guid"
    and us: "us = map f [0..<m]"
    and f: "\<And>k. k < m \<Longrightarrow> \<exists>e \<in> set es. f k = reverseEventForUndo e sid (if k = 0 then topGuid g0 es else guid (k - 1)) (now k) (guid k)"
    and "distinct (map ev_eventGuid es)"
  shows "eventsAreValidInContextOfLines us L0 (topGuid g0 es) es \<and> chained (topGuid g0 es) us
    \<and> distinct (map ev_eventGuid (es @ us)) \<and> g0 \<notin> ev_eventGuid ` set us \<and> undoing_known (ev_eventGuid ` set es) us"
proof -
  have g: "ev_eventGuid (f k) = guid k" "ev_priorEventGuid (f k) = (if k = 0 then topGuid g0 es else guid (k - 1))" if "k < m" for k
    using f[OF that] by auto
  have guids: "map ev_eventGuid us = map guid [0..<m]" by (simp add: us g)
  have range: "ev_eventGuid ` set us \<subseteq> range guid" using arg_cong[OF guids, of set] by auto
  have new: "range guid \<inter> insert g0 (ev_eventGuid ` set es) = {}" "inj guid" using assms(3) by (simp_all add: fresh_def)
  have "distinct (map ev_eventGuid us)" unfolding guids
    by (simp add: distinct_map inj_on_subset[OF new(2)])
  moreover have "ev_eventGuid ` set es \<inter> ev_eventGuid ` set us = {}" using range new(1) by blast
  ultimately have dist: "distinct (map ev_eventGuid (es @ us))" using assms(6) by simp
  have chain: "chained (topGuid g0 es) (map f [0..<k])" if "k \<le> m" for k
    using that
  proof (induction k)
    case (Suc k)
    have "topGuid (topGuid g0 es) (map f [0..<k]) = (if k = 0 then topGuid g0 es else guid (k - 1))"
      using Suc.prems g(1)[of "k - 1"] by (cases k) simp_all
    with Suc g(2)[of k] show ?case by (simp add: chained_append)
  qed simp
  have tg: "topGuid g0 es \<in> insert g0 (ev_eventGuid ` set es)" by (auto simp: topGuid_def)
  have undoing: "undoing_known (ev_eventGuid ` set es) us" using f by (fastforce simp: undoing_known_def us)
  have "checkChanges (changesOf us) (applyEventsToLines L0 es) \<noteq> None"
    using assms(1) check_after[of es us L0] unfolding consistent_def by auto
  moreover have "topGuid g0 es \<notin> ev_eventGuid ` set us" using range new(1) tg by blast
  moreover have "undoing_known (ev_eventGuid ` set (es @ us)) us"
    using undoing by (auto simp: undoing_known_def image_Un)
  moreover have "\<forall>e \<in> set us. wfEvent e" using assms(1) by (simp add: consistent_def)
  ultimately have "eventsAreValidInContextOfLines us L0 (topGuid g0 es) es"
    unfolding eventsAreValid_iff using dist chain[of m] by (simp only: us) simp
  with dist undoing chain[of m] range new show ?thesis by (auto simp: us[symmetric])
qed

definition sound :: "line list \<Rightarrow> string \<Rightarrow> event list \<Rightarrow> bool" where
  "sound L0 g0 es \<longleftrightarrow> consistent L0 es \<and> chained g0 es \<and> distinct (map ev_eventGuid es) \<and>
     g0 \<notin> ev_eventGuid ` set es \<and> undoing_known (ev_eventGuid ` set es) es"

lemma sound_append:
  assumes "sound L0 g0 es" and "consistent L0 (es @ us)"
    and "chained (topGuid g0 es) us" and "distinct (map ev_eventGuid (es @ us))" and "g0 \<notin> ev_eventGuid ` set us"
    and "undoing_known (ev_eventGuid ` set es) us"
  shows "sound L0 g0 (es @ us)"
proof -
  have "undoing_known (ev_eventGuid ` set (es @ us)) (es @ us)"
    using assms(1,6) by (auto simp: sound_def undoing_known_def image_Un)
  with assms show ?thesis by (auto simp: sound_def chained_append)
qed

lemma sound_undo:
  assumes "sound L0 g0 es" and "fresh g0 es guid"
  obtains us where "computeUndoEvents es sid (topGuid g0 es) now guid = Inr us" and "us = [] \<longleftrightarrow> undoStack es = []"
    and "eventsAreValidInContextOfLines us L0 (topGuid g0 es) es" and "sound L0 g0 (es @ us)"
    and "live (es @ us) = drop (length us) (live es)"
proof -
  obtain m where m: "m \<le> length (undoStack es)" "m = 0 \<longleftrightarrow> undoStack es = []"
    "reverseEvents (computeNextUndoIx es) es sid (topGuid g0 es) now guid = Inr (map (undo.spec es sid (topGuid g0 es) now guid) [0..<m])"
    by (rule undo.reverseEvents_spec)
  let ?f = "undo.spec es sid (topGuid g0 es) now guid"
  have c: "consistent L0 (es @ map ?f [0..<m])" "live (es @ map ?f [0..<m]) = drop m (live es)"
    using consistent_undos[of L0 es m sid "topGuid g0 es" now guid] m(1) assms(1) by (simp_all add: sound_def)
  have s: "\<exists>e \<in> set es. ?f k = reverseEventForUndo e sid (if k = 0 then topGuid g0 es else guid (k - 1)) (now k) (guid k)" if "k < m" for k
    using that m(1) live_mem[of "live es ! k" es] by (intro bexI[of _ "live es ! k"]) (simp_all add: undo_spec_live)
  have fit: "eventsAreValidInContextOfLines (map ?f [0..<m]) L0 (topGuid g0 es) es \<and> chained (topGuid g0 es) (map ?f [0..<m])
    \<and> distinct (map ev_eventGuid (es @ map ?f [0..<m])) \<and> g0 \<notin> ev_eventGuid ` set (map ?f [0..<m])
    \<and> undoing_known (ev_eventGuid ` set es) (map ?f [0..<m])"
    using assms by (intro computed_events_fit[OF c(1) _ _ refl s]) (auto simp: sound_def)
  show thesis
  proof (rule that[of "map ?f [0..<m]"])
    show "sound L0 g0 (es @ map ?f [0..<m])" using fit by (intro sound_append[OF assms(1) c(1)]) simp_all
  qed (use m c fit in \<open>auto simp: computeUndoEvents_def\<close>)
qed

lemma sound_redo:
  assumes "sound L0 g0 es" and "fresh g0 es guid"
  obtains us where "computeRedoEvents es sid (topGuid g0 es) now guid = Inr us" and "us = [] \<longleftrightarrow> redoStack es = []"
    and "eventsAreValidInContextOfLines us L0 (topGuid g0 es) es" and "sound L0 g0 (es @ us)"
proof -
  obtain m where m: "m \<le> length (redoStack es)" "m = 0 \<longleftrightarrow> redoStack es = []"
    "reverseEvents (computeNextRedoIx es) es sid (topGuid g0 es) now guid = Inr (map (redo.spec es sid (topGuid g0 es) now guid) [0..<m])"
    by (rule redo.reverseEvents_spec)
  let ?f = "redo.spec es sid (topGuid g0 es) now guid"
  have c: "consistent L0 (es @ map ?f [0..<m])"
    using consistent_redos[of L0 es m sid "topGuid g0 es" now guid] m(1) assms(1) by (simp add: sound_def)
  have s: "\<exists>e \<in> set es. ?f k = reverseEventForUndo e sid (if k = 0 then topGuid g0 es else guid (k - 1)) (now k) (guid k)" if "k < m" for k
    using that m(1) redoable_mem[of "redoable es ! k" es] by (intro bexI[of _ "redoable es ! k"]) (simp_all add: redo_spec_redoable)
  have fit: "eventsAreValidInContextOfLines (map ?f [0..<m]) L0 (topGuid g0 es) es \<and> chained (topGuid g0 es) (map ?f [0..<m])
    \<and> distinct (map ev_eventGuid (es @ map ?f [0..<m])) \<and> g0 \<notin> ev_eventGuid ` set (map ?f [0..<m])
    \<and> undoing_known (ev_eventGuid ` set es) (map ?f [0..<m])"
    using assms by (intro computed_events_fit[OF c _ _ refl s]) (auto simp: sound_def)
  show thesis
  proof (rule that[of "map ?f [0..<m]"])
    show "sound L0 g0 (es @ map ?f [0..<m])" using fit by (intro sound_append[OF assms(1) c]) simp_all
  qed (use m fit in \<open>auto simp: computeRedoEvents_def\<close>)
qed

lemma sound_edit:
  assumes "sound L0 g0 es" and "ev_undoState e = None" and "eventsAreValidInContextOfLines (es @ [e]) L0 g0 []"
  shows "sound L0 g0 (es @ [e])"
proof -
  have v: "wfEvent e" "g0 \<notin> ev_eventGuid ` set (es @ [e])" "distinct (map ev_eventGuid (es @ [e]))"
    "undoing_known (ev_eventGuid ` set (es @ [e])) (es @ [e])" "chained g0 (es @ [e])"
    "checkChanges (changesOf (es @ [e])) L0 \<noteq> None"
    using assms(3) by (simp_all add: eventsAreValid_iff applyEventsToLines_fold)
  from v(6) have "checkChanges (ev_changes e) (applyEventsToLines L0 es) \<noteq> None"
    using check_after[of es "[e]" L0] by auto
  then have "consistent L0 (es @ [e])" using assms(1,2) v(1) by (intro consistent_edit) (simp_all add: sound_def)
  with v show ?thesis by (simp add: sound_def)
qed

lemma history_sound: "history L0 g0 es \<Longrightarrow> sound L0 g0 es"
proof (induction rule: history.induct)
  case start
  show ?case by (simp add: sound_def consistent_Nil undoing_known_def)
next
  case (edit es e)
  then show ?case by (intro sound_edit)
next
  case (undo es guid sid now us)
  then show ?case by (metis sound_undo Inr_inject)
next
  case (redo es guid sid now us)
  then show ?case by (metis sound_redo Inr_inject)
qed

section \<open>Undo and redo never fail\<close>

text \<open>C16. In every history made of accepted edits, undos and redos, the document is exactly what the events
  still in force make of the initial lines: whatever was undone has left no trace. And the history
  stays acceptable: replayed from the initial lines it passes the server's own validity check.\<close>

theorem history_document:
  assumes "history L0 g0 es"
  shows "applyEventsToLines L0 es = applyEventsToLines L0 (rev (live es)) \<and> eventsAreValidInContextOfLines es L0 g0 []"
proof -
  have s: "sound L0 g0 es" using assms by (rule history_sound)
  then have "consistent L0 es" by (simp add: sound_def)
  then obtain d where "checkChanges (changesOf es) L0 = Some d" "\<forall>e \<in> set es. wfEvent e"
    by (auto simp: consistent_def)
  with s consistent_document[of L0 es] show ?thesis
    by (auto simp: eventsAreValid_iff sound_def applyEventsToLines_fold changesOf_def)
qed

definition demo_edit :: "string \<Rightarrow> string \<Rightarrow> line \<Rightarrow> line \<Rightarrow> event" where
  "demo_edit prior guid old new = \<lparr>ev_changes = [\<lparr>ch_oldLines = [old], ch_newLines = [new], ch_lineIndex = 0\<rparr>],
     ev_startCursors = [], ev_newCursors = [], ev_timestamp = 0, ev_undoState = None, ev_editSessionId = None,
     ev_priorEventGuid = prior, ev_eventGuid = guid, ev_reason = ReasonDict [(''keystroke'', ''a'')], ev_undoing = None\<rparr>"

definition demo_guid :: "nat \<Rightarrow> string" where
  "demo_guid k = replicate k (CHR ''x'') @ ''y''"

lemma demo_history_1: "history [[]] ''<initial>'' [demo_edit ''<initial>'' ''g1'' [] ''a'']"
proof -
  let ?e = "demo_edit ''<initial>'' ''g1'' [] ''a''"
  have "eventIsValidInContextOfLines ?e [[]] ''<initial>'' []"
    "eventsAreValidInContextOfLines ([] @ [?e]) [[]] ''<initial>'' []"
    by (simp_all add: demo_edit_def eventIsValidInContextOfLines_def eventsAreValid_iff wfEvent_def wfChange_def newline_def
        undoing_known_def changesOf_def applyEventsToLines_def pySlice_def pyIndex_def)
  then show ?thesis using history.edit[OF history.start, of ?e "[[]]" "''<initial>''"] by (simp add: demo_edit_def)
qed

lemma demo_fresh: "fresh ''<initial>'' [demo_edit ''<initial>'' ''g1'' [] ''a''] demo_guid"
proof -
  have "inj demo_guid" by (auto simp: inj_def demo_guid_def dest: arg_cong[where f = length])
  moreover have "last (demo_guid k) = CHR ''y''" for k by (simp add: demo_guid_def)
  then have "demo_guid k \<noteq> ''<initial>'' \<and> demo_guid k \<noteq> ''g1''" for k by (auto dest!: arg_cong[where f = last])
  ultimately show ?thesis by (simp add: fresh_def demo_edit_def) (metis imageE)
qed

theorem history_document_witness:
  "applyEventsToLines [[]] [demo_edit ''<initial>'' ''g1'' [] ''a''] = [''a'']
   \<and> eventsAreValidInContextOfLines [demo_edit ''<initial>'' ''g1'' [] ''a''] [[]] ''<initial>'' []"
  using history_document[OF demo_history_1]
  by (simp add: demo_edit_def applyEventsToLines_def applyChange_def pySetSlice_def pyIndex_def)

text \<open>C17. Undo and redo never fail and never compute an event that does not fit. In every history made of
  accepted edits, undos and redos, given that \<open>uuid4\<close> does not repeat itself: \<open>computeUndoEvents\<close> raises no
  assertion and returns events the server's own check accepts, so \<open>triggerUndoOrRedo\<close> never raises "Computed
  invalid undo events"; it returns none only if nothing is in force; and the document becomes what the
  remaining events in force make of the initial lines. \<open>computeRedoEvents\<close> raises no assertion either, its events
  are accepted, and it returns none only if no undo can be taken back.\<close>

theorem undo_redo_never_fail:
  assumes "history L0 g0 es" and "fresh g0 es guid"
  shows "(\<exists>us. computeUndoEvents es sid (topGuid g0 es) now guid = Inr us
      \<and> eventsAreValidInContextOfLines us L0 (topGuid g0 es) es \<and> (us = [] \<longleftrightarrow> live es = [])
      \<and> applyEventsToLines L0 (es @ us) = applyEventsToLines L0 (rev (drop (length us) (live es))))
    \<and> (\<exists>rs. computeRedoEvents es sid (topGuid g0 es) now guid = Inr rs
      \<and> eventsAreValidInContextOfLines rs L0 (topGuid g0 es) es \<and> (rs = [] \<longleftrightarrow> redoable es = []))"
proof -
  have s: "sound L0 g0 es" using assms(1) by (rule history_sound)
  obtain us where us: "computeUndoEvents es sid (topGuid g0 es) now guid = Inr us" "us = [] \<longleftrightarrow> undoStack es = []"
    "eventsAreValidInContextOfLines us L0 (topGuid g0 es) es" "sound L0 g0 (es @ us)" "live (es @ us) = drop (length us) (live es)"
    using s assms(2) by (rule sound_undo)
  obtain rs where rs: "computeRedoEvents es sid (topGuid g0 es) now guid = Inr rs" "rs = [] \<longleftrightarrow> redoStack es = []"
    "eventsAreValidInContextOfLines rs L0 (topGuid g0 es) es"
    using s assms(2) by (rule sound_redo)
  have "applyEventsToLines L0 (es @ us) = applyEventsToLines L0 (rev (drop (length us) (live es)))"
    using consistent_document[of L0 "es @ us"] us(4,5) by (simp add: sound_def)
  moreover have "live es = [] \<longleftrightarrow> undoStack es = []" "redoable es = [] \<longleftrightarrow> redoStack es = []"
    by (simp_all add: live_def redoable_def)
  ultimately show ?thesis using us(1-3) rs by auto
qed

theorem undo_redo_never_fail_witness:
  "\<exists>us. computeUndoEvents [demo_edit ''<initial>'' ''g1'' [] ''a''] None ''g1'' (\<lambda>_. 1) demo_guid = Inr us
     \<and> us \<noteq> [] \<and> applyEventsToLines [[]] ([demo_edit ''<initial>'' ''g1'' [] ''a''] @ us) = applyEventsToLines [[]] (rev (drop (length us) [demo_edit ''<initial>'' ''g1'' [] ''a'']))"
proof -
  have "live [demo_edit ''<initial>'' ''g1'' [] ''a''] = [demo_edit ''<initial>'' ''g1'' [] ''a'']"
    using live_simps(2)[of "[]" "demo_edit ''<initial>'' ''g1'' [] ''a''"] by (simp add: demo_edit_def)
  moreover have "topGuid ''<initial>'' [demo_edit ''<initial>'' ''g1'' [] ''a''] = ''g1''"
    by (simp add: topGuid_def demo_edit_def)
  ultimately show ?thesis
    using undo_redo_never_fail[OF demo_history_1 demo_fresh, of None "\<lambda>_. 1"] by auto
qed

end
