(* ===== verification/Editor_Delta.thy ===== *)
theory Editor_Delta
  imports Editor_History
begin

text \<open>
  Text and events (\<open>web/cells/editor/event_model.py\<close>): a document as one string, and the event that turns
  one text into another, which the server computes when a program sets the contents of an editor.
\<close>

section \<open>Model\<close>

text \<open>\<open>s.split("\n")\<close> and \<open>"\n".join(lines)\<close>.\<close>

fun splitLines :: "string \<Rightarrow> line list" where
  "splitLines [] = [[]]"
| "splitLines (c # s) = (if c = newline then [] # splitLines s else
     (case splitLines s of [] \<Rightarrow> [[c]] | l # ls \<Rightarrow> (c # l) # ls))"

fun joinLines :: "line list \<Rightarrow> string" where
  "joinLines [] = []"
| "joinLines [l] = l"
| "joinLines (l # ls) = l @ newline # joinLines ls"

definition computeStateFromEvents :: "line list \<Rightarrow> event list \<Rightarrow> string" where
  "computeStateFromEvents lines events = joinLines (applyEventsToLines lines events)"

function prefixLoop :: "line list \<Rightarrow> line list \<Rightarrow> nat \<Rightarrow> nat" where
  "prefixLoop cur new i =
     (if i < length cur \<and> i < length new then
        (if cur ! i = new ! i then prefixLoop cur new (i + 1) else i)
      else i)"
  by pat_completeness auto

termination prefixLoop
  by (relation "measure (\<lambda>(cur, _, i). length cur - i)") auto

function suffixLoop :: "line list \<Rightarrow> line list \<Rightarrow> nat \<Rightarrow> nat \<Rightarrow> nat" where
  "suffixLoop cur new i j =
     (if j < length cur \<and> j < length new \<and> i + j < length cur \<and> i + j < length new then
        (if cur ! (length cur - 1 - j) = new ! (length new - 1 - j) then suffixLoop cur new i (j + 1) else j)
      else j)"
  by pat_completeness auto

termination suffixLoop
  by (relation "measure (\<lambda>(cur, _, _, j). length cur - j)") auto

declare prefixLoop.simps [simp del] suffixLoop.simps [simp del]

definition deltaCursor :: "nat \<Rightarrow> nat \<Rightarrow> nat \<Rightarrow> cursor" where
  "deltaCursor len i j = \<lparr>cu_pos = [min (max (int len - int j) 0) (int len - 1), 0],
     cu_tail = [min (int i) (int len - 1), 0], cu_desiredCol = 0\<rparr>"

definition computeDeltaEvent :: "string \<Rightarrow> string \<Rightarrow> reason \<Rightarrow> string \<Rightarrow> rat \<Rightarrow> string \<Rightarrow> event option" where
  "computeDeltaEvent curText newText reason topEventGuid now guid =
     (let curContents = splitLines curText; newContents = splitLines newText in
      if curContents = newContents then None
      else
        (let i = prefixLoop curContents newContents 0; j = suffixLoop curContents newContents i 0 in
         Some \<lparr>ev_changes = [\<lparr>ch_oldLines = pySlice (int i) (int (length curContents) - int j) curContents,
                              ch_newLines = pySlice (int i) (int (length newContents) - int j) newContents,
                              ch_lineIndex = int i\<rparr>],
           ev_startCursors = [deltaCursor (length curContents) i j],
           ev_newCursors = [deltaCursor (length newContents) i j],
           ev_timestamp = now, ev_undoState = None, ev_editSessionId = None,
           ev_priorEventGuid = topEventGuid, ev_eventGuid = guid, ev_reason = reason, ev_undoing = None\<rparr>))"

section \<open>Splitting and joining\<close>

lemma splitLines_ne [simp]: "splitLines s \<noteq> []"
  by (induction s) (auto split: list.splits)

lemma joinLines_Cons: "joinLines (l # ls) = (if ls = [] then l else l @ newline # joinLines ls)"
  by (cases ls) simp_all

lemma joinLines_splitLines [simp]: "joinLines (splitLines s) = s"
  by (induction s) (auto simp: joinLines_Cons split: list.splits)

lemma splitLines_no_newline: "l \<in> set (splitLines s) \<Longrightarrow> newline \<notin> set l"
  by (induction s arbitrary: l) (fastforce split: if_splits list.splits)+

lemma splitLines_line: "newline \<notin> set l \<Longrightarrow> splitLines (l @ rest) = (l @ hd (splitLines rest)) # tl (splitLines rest)"
  by (induction l) (auto split: list.splits)

lemma splitLines_joinLines: "ls \<noteq> [] \<Longrightarrow> \<forall>l \<in> set ls. newline \<notin> set l \<Longrightarrow> splitLines (joinLines ls) = ls"
proof (induction ls)
  case (Cons l ls)
  then show ?case using splitLines_line[of l "[]"] splitLines_line[of l "newline # joinLines ls"]
    by (cases "ls = []") (auto simp: joinLines_Cons)
qed simp

section \<open>The event between two texts\<close>

lemma prefixLoop_spec:
  "i \<le> length cur \<Longrightarrow> i \<le> length new \<Longrightarrow> take i cur = take i new \<Longrightarrow>
   (let k = prefixLoop cur new i in k \<le> length cur \<and> k \<le> length new \<and> take k cur = take k new)"
proof (induction cur new i rule: prefixLoop.induct)
  case (1 cur new i)
  show ?case
  proof (cases "i < length cur \<and> i < length new \<and> cur ! i = new ! i")
    case True
    then have "take (i + 1) cur = take (i + 1) new" using 1(4) by (simp add: take_Suc_conv_app_nth)
    with True 1(1) have "let k = prefixLoop cur new (i + 1) in k \<le> length cur \<and> k \<le> length new \<and> take k cur = take k new"
      by auto
    moreover have "prefixLoop cur new i = prefixLoop cur new (i + 1)" using True by (subst prefixLoop.simps) simp
    ultimately show ?thesis by simp
  next
    case False
    then have "prefixLoop cur new i = i" by (subst prefixLoop.simps) auto
    with 1 show ?thesis by simp
  qed
qed

lemma suffixLoop_spec:
  "i + j \<le> length cur \<Longrightarrow> i + j \<le> length new \<Longrightarrow> drop (length cur - j) cur = drop (length new - j) new \<Longrightarrow>
   (let k = suffixLoop cur new i j in i + k \<le> length cur \<and> i + k \<le> length new \<and>
      drop (length cur - k) cur = drop (length new - k) new)"
proof (induction cur new i j rule: suffixLoop.induct)
  case (1 cur new i j)
  show ?case
  proof (cases "i + j < length cur \<and> i + j < length new \<and> cur ! (length cur - 1 - j) = new ! (length new - 1 - j)")
    case True
    have "drop (length xs - (j + 1)) xs = xs ! (length xs - 1 - j) # drop (length xs - j) xs" if "j < length xs" for xs :: "line list"
      using that Cons_nth_drop_Suc[of "length xs - 1 - j" xs] by (simp add: Suc_diff_Suc)
    with True 1(4) have "drop (length cur - (j + 1)) cur = drop (length new - (j + 1)) new" by simp
    with True 1(1) have "let k = suffixLoop cur new i (j + 1) in i + k \<le> length cur \<and> i + k \<le> length new \<and>
      drop (length cur - k) cur = drop (length new - k) new" by auto
    moreover have "suffixLoop cur new i j = suffixLoop cur new i (j + 1)" using True by (subst suffixLoop.simps) simp
    ultimately show ?thesis by simp
  next
    case False
    then have "suffixLoop cur new i j = j" by (subst suffixLoop.simps) auto
    with 1 show ?thesis by simp
  qed
qed

lemma pySlice_seg: "a \<le> length xs \<Longrightarrow> a + j \<le> length xs \<Longrightarrow> pySlice (int a) (int (length xs) - int j) xs = seg a (length xs - j) xs"
  by (simp add: pySlice_def pyIndex_def seg_def nat_diff_distrib' flip: of_nat_diff)

lemma wfCursor_delta: "0 < len \<Longrightarrow> wfCursor (deltaCursor len i j)"
  by (auto simp: wfCursor_def deltaCursor_def)

lemma seg_subset: "set (seg a b xs) \<subseteq> set xs"
  unfolding seg_def by (meson set_drop_subset set_take_subset subset_trans)

text \<open>If the texts are equal there is no event. Otherwise the event is well formed, it fits every document whose
  text is the old one, and applying it gives a document whose text is the new one.\<close>

lemma delta_event_correct:
  "(computeDeltaEvent curText newText reason g now guid = None \<longleftrightarrow> curText = newText)
   \<and> (\<forall>e L es. computeDeltaEvent curText newText reason g now guid = Some e \<longrightarrow> applyEventsToLines L es = splitLines curText \<longrightarrow>
        eventIsValidInContextOfLines e L g es \<and> computeStateFromEvents L (es @ [e]) = newText
        \<and> ev_undoState e = None \<and> ev_eventGuid e = guid)"
proof -
  let ?cur = "splitLines curText" and ?new = "splitLines newText"
  define i where "i = prefixLoop ?cur ?new 0"
  define j where "j = suffixLoop ?cur ?new i 0"
  have pre: "i \<le> length ?cur" "i \<le> length ?new" "take i ?cur = take i ?new"
    using prefixLoop_spec[of 0 ?cur ?new] by (simp_all add: Let_def flip: i_def)
  have suf: "i + j \<le> length ?cur" "i + j \<le> length ?new" "drop (length ?cur - j) ?cur = drop (length ?new - j) ?new"
    using suffixLoop_spec[of i 0 ?cur ?new] pre(1,2) by (simp_all add: Let_def flip: j_def)
  let ?c = "\<lparr>ch_oldLines = seg i (length ?cur - j) ?cur, ch_newLines = seg i (length ?new - j) ?new, ch_lineIndex = int i\<rparr>"
  have split: "take i xs @ seg i (length xs - j) xs @ drop (length xs - j) xs = xs" if "i + j \<le> length xs" for xs :: "line list"
    using that by (metis add_le_imp_le_diff append_take_drop_id seg_drop)
  have "edits ?c ?cur ?new"
    by (rule editsI[of "take i ?cur" _ _ "drop (length ?cur - j) ?cur"])
      (use pre suf split[of ?cur] split[of ?new] in \<open>simp_all add: min_def\<close>)
  then have check: "checkChanges [?c] ?cur = Some ?new" using checkChanges_edits[of ?c "[]" ?cur ?new] by simp
  have lines: "newline \<notin> set l" if "l \<in> set (seg a b (splitLines s))" for l a b s
    using that seg_subset[of a b "splitLines s"] splitLines_no_newline[of l s] by blast
  show ?thesis
  proof (intro conjI allI impI iffI)
    assume "computeDeltaEvent curText newText reason g now guid = None"
    then have "?cur = ?new" by (simp add: computeDeltaEvent_def Let_def split: if_splits)
    then show "curText = newText" by (metis joinLines_splitLines)
  next
    fix e L es assume e: "computeDeltaEvent curText newText reason g now guid = Some e" and L: "applyEventsToLines L es = ?cur"
    have ev: "ev_changes e = [?c]" "ev_startCursors e = [deltaCursor (length ?cur) i j]" "ev_newCursors e = [deltaCursor (length ?new) i j]"
      "ev_priorEventGuid e = g" "ev_undoState e = None" "ev_eventGuid e = guid"
      using e pre suf by (auto simp: computeDeltaEvent_def Let_def pySlice_seg i_def[symmetric] j_def[symmetric] split: if_splits)
    have "wfEvent e" using lines by (auto simp: wfEvent_def ev wfChange_def wfCursor_delta)
    then show "eventIsValidInContextOfLines e L g es" using check by (simp add: eventIsValidInContextOfLines_def ev L)
    have "applyEventsToLines L (es @ [e]) = ?new"
      using check by (simp add: applyEventsToLines_append L applyEventsToLines_check ev)
    then show "computeStateFromEvents L (es @ [e]) = newText" by (simp add: computeStateFromEvents_def)
    show "ev_undoState e = None" "ev_eventGuid e = guid" by (simp_all add: ev)
  qed (simp add: computeDeltaEvent_def)
qed

end
