(* ===== verification/Editor_Compress.thy ===== *)
theory Editor_Compress
  imports Editor_Delta
begin

text \<open>
  Compressing the history of a document (\<open>web/cells/editor/event_model.py\<close>, \<open>compressState\<close> and what it
  calls). The cache of intermediate documents, the removal of undone stretches, the search for the first
  event an undo refers to, and the loop that merges neighbouring events and folds old ones into the lines.

  A dictionary that is only looked up is a map. Python's \<open>list.pop\<close> on an empty list raises \<open>IndexError\<close>,
  here \<open>GenericException\<close>. Where the code overwrites the \<open>undoing\<close> entry of an event dictionary it shares with
  its argument, the model changes the result only.
\<close>

section \<open>Model: the cache of documents\<close>

record EventStateCache =
  sc_lines :: "line list"
  sc_events :: "event list"
  sc_cache :: "nat \<rightharpoonup> line list"

definition newEventStateCache :: "line list \<Rightarrow> event list \<Rightarrow> EventStateCache" where
  "newEventStateCache lines events = \<lparr>sc_lines = lines, sc_events = events, sc_cache = Map.empty\<rparr>"

text \<open>The first power of ten, from \<open>pw\<close> on and up to \<open>i\<close>, that does not divide \<open>i\<close>. The search starts
  at 10; the test for 0 only makes the function total.\<close>

function findPower :: "nat \<Rightarrow> nat \<Rightarrow> nat option" where
  "findPower i pw =
     (if pw = 0 \<or> pw > i then None
      else if i mod pw \<noteq> 0 then Some pw
      else findPower i (pw * 10))"
  by pat_completeness auto

termination findPower
  by (relation "measure (\<lambda>(i, pw). Suc i - pw)") auto

declare findPower.simps [simp del]

lemma findPower_mod: "findPower i pw = Some p \<Longrightarrow> i mod p \<noteq> 0 \<and> p \<le> i"
  by (induction i pw rule: findPower.induct) (subst (asm) findPower.simps, auto split: if_splits)

function cacheGet :: "nat \<Rightarrow> EventStateCache \<Rightarrow> line list \<times> EventStateCache" where
  "cacheGet i sc =
     (case sc_cache sc i of
        Some r \<Rightarrow> (r, sc)
      | None \<Rightarrow>
          (case findPower i 10 of
             Some pw \<Rightarrow>
               (let start = i - i mod pw; (prior, sc') = cacheGet start sc;
                    r = applyEventsToLines prior (drop start (take i (sc_events sc)))
                in (r, sc'\<lparr>sc_cache := (sc_cache sc')(i \<mapsto> r)\<rparr>))
           | None \<Rightarrow>
               (let r = applyEventsToLines (sc_lines sc) (take i (sc_events sc))
                in (r, sc\<lparr>sc_cache := (sc_cache sc)(i \<mapsto> r)\<rparr>))))"
  by pat_completeness auto

termination cacheGet
  by (relation "measure fst") (auto dest!: findPower_mod intro!: diff_less intro: gr0I)

declare cacheGet.simps [simp del]

definition cacheItem :: "nat \<Rightarrow> EventStateCache \<Rightarrow> (py_error + line list) \<times> EventStateCache" where
  "cacheItem i sc = (if i \<le> length (sc_events sc) then (case cacheGet i sc of (r, sc') \<Rightarrow> (Inr r, sc')) else (Inl AssertionError, sc))"

section \<open>Model: removing what was undone\<close>

definition duplicateEventWithPriorEventGuid :: "event \<Rightarrow> string \<Rightarrow> event" where
  "duplicateEventWithPriorEventGuid e priorEventGuid = e\<lparr>ev_priorEventGuid := priorEventGuid\<rparr>"

definition guidToIx :: "event list \<Rightarrow> string \<rightharpoonup> int" where
  "guidToIx events = (fold (\<lambda>(i, e) d. d(ev_eventGuid e \<mapsto> int i)) (zip [0..<length events] events) Map.empty)
     (ev_priorEventGuid (hd events) \<mapsto> (-1))"

fun transitionsLoop :: "string \<Rightarrow> (string \<rightharpoonup> string \<times> string) \<Rightarrow> event list \<Rightarrow> py_error + (string \<rightharpoonup> string \<times> string)" where
  "transitionsLoop curState d [] = Inr d"
| "transitionsLoop curState d (e # es) =
     (case ev_undoState e of
        None \<Rightarrow> transitionsLoop (ev_eventGuid e) (d(ev_eventGuid e \<mapsto> (curState, ev_eventGuid e))) es
      | Some _ \<Rightarrow>
          (case Option.bind (ev_undoing e) d of
             None \<Rightarrow> Inl KeyError
           | Some (a, b) \<Rightarrow> transitionsLoop a (d(ev_eventGuid e \<mapsto> (b, a))) es))"

definition computeBaseEventIxFor :: "event list \<Rightarrow> (string \<rightharpoonup> string \<times> string) \<Rightarrow> nat \<Rightarrow> int option" where
  "computeBaseEventIxFor events transitions ix =
     Option.bind (transitions (ev_eventGuid (events ! ix))) (\<lambda>t. guidToIx events (snd t))"

text \<open>The stretches to remove, first one last.\<close>

fun stretchesLoop :: "event list \<Rightarrow> (string \<rightharpoonup> string \<times> string) \<Rightarrow> rat option \<Rightarrow> bool \<Rightarrow> (int \<times> int) list \<Rightarrow> nat list
    \<Rightarrow> py_error + (int \<times> int) list" where
  "stretchesLoop events transitions maxTimestamp triggered acc [] = Inr acc"
| "stretchesLoop events transitions maxTimestamp triggered acc (ix # ixs) =
     (let e = events ! ix in
      if (case maxTimestamp of Some t \<Rightarrow> ev_timestamp e > t | None \<Rightarrow> False) \<or> triggered
      then stretchesLoop events transitions maxTimestamp True acc ixs
      else if ev_undoState e = None \<and> ev_undoState (events ! (ix - 1)) \<noteq> None then
        (case computeBaseEventIxFor events transitions (ix - 1) of
           None \<Rightarrow> Inl KeyError
         | Some baseEventIx \<Rightarrow>
             stretchesLoop events transitions maxTimestamp triggered
               ((baseEventIx + 1, int ix) # dropWhile (\<lambda>r. baseEventIx + 1 \<le> fst r) acc) ixs)
      else stretchesLoop events transitions maxTimestamp triggered acc ixs)"

definition relinkUndoing :: "string set \<Rightarrow> (string \<rightharpoonup> string \<times> string) \<Rightarrow> event \<Rightarrow> py_error + event" where
  "relinkUndoing excised transitions e =
     (case ev_undoing e of
        Some g \<Rightarrow> if g \<in> excised
          then (case transitions g of None \<Rightarrow> Inl KeyError | Some t \<Rightarrow> Inr (e\<lparr>ev_undoing := Some (snd t)\<rparr>))
          else Inr e
      | None \<Rightarrow> Inr e)"

fun relinkAll :: "string set \<Rightarrow> (string \<rightharpoonup> string \<times> string) \<Rightarrow> event list \<Rightarrow> py_error + event list" where
  "relinkAll excised transitions [] = Inr []"
| "relinkAll excised transitions (e # es) =
     (case relinkUndoing excised transitions e of
        Inl err \<Rightarrow> Inl err
      | Inr e' \<Rightarrow> (case relinkAll excised transitions es of Inl err \<Rightarrow> Inl err | Inr es' \<Rightarrow> Inr (e' # es')))"

fun removeLoop :: "event list \<Rightarrow> (string \<rightharpoonup> string \<times> string) \<Rightarrow> EventStateCache \<Rightarrow> string set \<Rightarrow> event list \<Rightarrow> (int \<times> int) list
    \<Rightarrow> py_error + event list" where
  "removeLoop events transitions sc excised outEvents [] = Inr outEvents"
| "removeLoop events transitions sc excised outEvents ((startIx, stopIx) # rest) =
     (if startIx < 0 then Inl AssertionError else
      let s = nat startIx; t = nat stopIx in
      case cacheItem s sc of (Inl err, _) \<Rightarrow> Inl err | (Inr a, sc1) \<Rightarrow>
      case cacheItem t sc1 of (Inl err, _) \<Rightarrow> Inl err | (Inr b, sc2) \<Rightarrow>
        if a \<noteq> b then Inl AssertionError
        else
          (let prior = (if s > 0 then ev_eventGuid (outEvents ! (s - 1)) else ev_priorEventGuid (hd events));
               out1 = outEvents[t := duplicateEventWithPriorEventGuid (outEvents ! t) prior];
               excised' = excised \<union> ev_eventGuid ` set (take (t - s) (drop s out1));
               out2 = take s out1 @ drop (max s t) out1
           in case relinkAll excised' transitions (drop s out2) of
                Inl err \<Rightarrow> Inl err
              | Inr es \<Rightarrow> removeLoop events transitions sc2 excised' (take s out2 @ es) rest))"

definition compressAwayUnreachableEvents :: "line list \<Rightarrow> event list \<Rightarrow> rat option \<Rightarrow> py_error + event list" where
  "compressAwayUnreachableEvents lines events maxTimestamp =
     (if events = [] then Inr events
      else case transitionsLoop (ev_priorEventGuid (hd events)) Map.empty events of
        Inl err \<Rightarrow> Inl err
      | Inr transitions \<Rightarrow>
          (case stretchesLoop events transitions maxTimestamp False [] [1..<length events] of
             Inl err \<Rightarrow> Inl err
           | Inr [] \<Rightarrow> Inr events
           | Inr stretches \<Rightarrow> removeLoop events transitions (newEventStateCache lines events) {} events stretches))"

fun lowestLoop :: "nat list \<Rightarrow> nat list \<Rightarrow> nat \<Rightarrow> (nat \<times> event) list \<Rightarrow> py_error + nat" where
  "lowestLoop currentEventStack currentRedoStack minReffedIx [] = Inr minReffedIx"
| "lowestLoop currentEventStack currentRedoStack minReffedIx ((eventIx, e) # es) =
     (case ev_undoState e of
        None \<Rightarrow> lowestLoop (eventIx # currentEventStack) [] minReffedIx es
      | Some Undo \<Rightarrow>
          (case currentEventStack of
             [] \<Rightarrow> Inl GenericException
           | u # us \<Rightarrow> lowestLoop us (u # currentRedoStack) (min minReffedIx u) es)
      | Some Redo \<Rightarrow>
          (case currentRedoStack of
             [] \<Rightarrow> Inl GenericException
           | r # rs \<Rightarrow> lowestLoop (r # currentEventStack) rs minReffedIx es))"

definition computeLowestEventIxReferencedByUndoEvents :: "event list \<Rightarrow> py_error + nat" where
  "computeLowestEventIxReferencedByUndoEvents events =
     (if events = [] then Inr 0
      else if ev_undoState (hd events) \<noteq> None then Inl AssertionError
      else lowestLoop [] [] (length events) (zip [0..<length events] events))"

section \<open>Model: merging and folding\<close>

definition resetUndoState :: "event list \<Rightarrow> event list" where
  "resetUndoState events = map (\<lambda>e. e\<lparr>ev_undoState := None, ev_undoing := None\<rparr>) events"

fun timestampLoop :: "event list \<Rightarrow> rat \<Rightarrow> nat \<Rightarrow> nat \<Rightarrow> nat" where
  "timestampLoop events maxTimestamp i 0 = i"
| "timestampLoop events maxTimestamp i (Suc n) =
     (if ev_timestamp (events ! i) \<ge> maxTimestamp then i else timestampLoop events maxTimestamp (i + 1) n)"

fun streamLoop :: "event list \<Rightarrow> nat \<Rightarrow> nat" where
  "streamLoop events 0 = 0"
| "streamLoop events (Suc i) =
     (if Suc i + 1 < length events \<and> eventsAreInSameUndoStream (events ! Suc i) (events ! (Suc i + 1))
      then streamLoop events i else Suc i)"

text \<open>The merging loop; it returns the list with the holes it leaves and the index it stops at.\<close>

fun mergeLoop :: "nat \<Rightarrow> nat \<Rightarrow> event option list \<Rightarrow> nat \<Rightarrow> nat \<Rightarrow> py_error + event option list \<times> nat" where
  "mergeLoop maxWordUndos maxLineUndos events eventsKept 0 = Inr (events, 0)"
| "mergeLoop maxWordUndos maxLineUndos events eventsKept (Suc i) =
     (if eventsKept < maxLineUndos then
        (case (events ! i, events ! Suc i) of
           (Some a, Some b) \<Rightarrow>
             (if eventsAreInSameUndoStream a b \<or> (eventsAreOnSameLine a b \<and> eventsKept > maxWordUndos)
              then mergeLoop maxWordUndos maxLineUndos (events[i := Some (collapseEvents a b), Suc i := None]) eventsKept i
              else mergeLoop maxWordUndos maxLineUndos events (eventsKept + 1) i)
         | _ \<Rightarrow> Inl TypeError)
      else Inr (events, Suc i))"

record editor_state =
  ed_lines :: "line list"
  ed_topEventGuid :: string
  ed_events :: "event list"

definition present :: "'a option list \<Rightarrow> 'a list" where
  "present xs = map the (filter (\<lambda>x. x \<noteq> None) xs)"

text \<open>From the merged list on: fold what lies below \<open>i\<close> into the lines, and the final assertions.\<close>

definition finishCompress :: "editor_state \<Rightarrow> line list \<Rightarrow> string \<Rightarrow> event option list \<Rightarrow> nat \<Rightarrow> py_error + editor_state \<times> string option" where
  "finishCompress state lines maxIxGuid merged i =
     (let lines = (if i > 0 then splitLines (computeStateFromEvents lines (present (take i merged))) else lines);
          events = present (if i > 0 then drop i merged else merged)
      in if events = [] then Inl GenericException
         else if \<not> eventsAreValidInContextOfLines events lines (ev_priorEventGuid (hd events)) [] then Inl AssertionError
         else if computeStateFromEvents (ed_lines state) (ed_events state) \<noteq> computeStateFromEvents lines events then Inl AssertionError
         else if \<not> (maxIxGuid = ev_priorEventGuid (hd events) \<or> maxIxGuid \<in> ev_eventGuid ` set events) then Inl AssertionError
         else Inr (\<lparr>ed_lines = lines, ed_topEventGuid = ev_eventGuid (last events), ed_events = events\<rparr>, Some maxIxGuid))"

text \<open>From the pruned history on. The index the code computes can be \<open>-1\<close>; it then changes nothing.\<close>

definition compressPruned :: "editor_state \<Rightarrow> rat option \<Rightarrow> nat \<Rightarrow> nat \<Rightarrow> event list \<Rightarrow> py_error + editor_state \<times> string option" where
  "compressPruned state maxTimestamp maxWordUndos maxLineUndos events =
     (if events = [] then Inl GenericException else
      case computeLowestEventIxReferencedByUndoEvents events of
        Inl err \<Rightarrow> Inl err
      | Inr maxIxModifiable \<Rightarrow>
          (let i0 = (case maxTimestamp of
                 Some t \<Rightarrow> int (timestampLoop events t 0 (maxIxModifiable - 1))
               | None \<Rightarrow> int maxIxModifiable - 1);
               i = (if i0 > 0 then int (streamLoop events (nat i0)) else i0);
               maxIxGuid = (if i \<ge> 0 then ev_eventGuid (events ! nat i) else ev_priorEventGuid (hd events))
           in case mergeLoop maxWordUndos maxLineUndos (map Some events) 0 (nat i) of
                Inl err \<Rightarrow> Inl err
              | Inr (merged, stop) \<Rightarrow> finishCompress state (ed_lines state) maxIxGuid merged stop))"

definition compressState :: "editor_state \<Rightarrow> rat option \<Rightarrow> nat \<Rightarrow> nat \<Rightarrow> py_error + editor_state \<times> string option" where
  "compressState state maxTimestamp maxWordUndos maxLineUndos =
     (let events = ed_events state in
      if events = [] then Inr (state, None)
      else
        (let valid = eventsAreValidInContextOfLines events (ed_lines state) (ev_priorEventGuid (hd events)) [];
             events' = (if valid then events else resetUndoState events)
         in if \<not> valid \<and> \<not> eventsAreValidInContextOfLines events' (ed_lines state) (ev_priorEventGuid (hd events')) [] then Inl AssertionError
            else case compressAwayUnreachableEvents (ed_lines state) events' maxTimestamp of
              Inl err \<Rightarrow> Inl err
            | Inr pruned \<Rightarrow> compressPruned state maxTimestamp maxWordUndos maxLineUndos pruned))"

definition COMPRESS_EVERY_N_EDITS :: nat where
  "COMPRESS_EVERY_N_EDITS = 100"

definition COMPRESS_MIN_AGE_SECONDS :: rat where
  "COMPRESS_MIN_AGE_SECONDS = 10"

definition COMPRESS_MAX_WORD_UNDOS :: nat where
  "COMPRESS_MAX_WORD_UNDOS = 1000"

definition COMPRESS_MAX_LINE_UNDOS :: nat where
  "COMPRESS_MAX_LINE_UNDOS = 10000"

section \<open>The cache is transparent\<close>

definition cache_ok :: "EventStateCache \<Rightarrow> bool" where
  "cache_ok sc \<longleftrightarrow> (\<forall>i r. sc_cache sc i = Some r \<longrightarrow> r = applyEventsToLines (sc_lines sc) (take i (sc_events sc)))"

lemma cacheGet_ok:
  "cache_ok sc \<Longrightarrow> cacheGet i sc = (r, sc') \<Longrightarrow>
   r = applyEventsToLines (sc_lines sc) (take i (sc_events sc)) \<and> cache_ok sc' \<and>
   sc_lines sc' = sc_lines sc \<and> sc_events sc' = sc_events sc"
proof (induction i sc arbitrary: r sc' rule: cacheGet.induct)
  case (1 i sc)
  show ?case
  proof (cases "sc_cache sc i")
    case None
    show ?thesis
    proof (cases "findPower i 10")
      case (Some pw)
      let ?start = "i - i mod pw"
      obtain prior sc1 where rec: "cacheGet ?start sc = (prior, sc1)" by fastforce
      have IH: "prior = applyEventsToLines (sc_lines sc) (take ?start (sc_events sc))" "cache_ok sc1"
        "sc_lines sc1 = sc_lines sc" "sc_events sc1 = sc_events sc"
        using 1(1)[OF None Some refl 1(2) rec] by simp_all
      have "take i (sc_events sc) = take ?start (take i (sc_events sc)) @ drop ?start (take i (sc_events sc))"
        by (simp only: append_take_drop_id)
      then have "take i (sc_events sc) = take ?start (sc_events sc) @ drop ?start (take i (sc_events sc))" by simp
      then have "applyEventsToLines prior (drop ?start (take i (sc_events sc))) = applyEventsToLines (sc_lines sc) (take i (sc_events sc))"
        unfolding IH(1) by (metis applyEventsToLines_append)
      with 1(3) None Some rec IH show ?thesis by (subst (asm) cacheGet.simps) (auto simp: Let_def cache_ok_def split: if_splits)
    next
      case no: None
      with 1(2,3) None show ?thesis by (subst (asm) cacheGet.simps) (auto simp: Let_def cache_ok_def split: if_splits)
    qed
  next
    case (Some q)
    with 1(2,3) show ?thesis by (subst (asm) cacheGet.simps) (auto simp: cache_ok_def)
  qed
qed

lemma cacheItem_ok:
  assumes "cache_ok sc"
  shows "\<exists>sc'. cacheItem i sc = ((if i \<le> length (sc_events sc) then Inr (applyEventsToLines (sc_lines sc) (take i (sc_events sc)))
      else Inl AssertionError), sc') \<and> cache_ok sc' \<and> sc_lines sc' = sc_lines sc \<and> sc_events sc' = sc_events sc"
  using assms cacheGet_ok[OF assms] by (cases "cacheGet i sc") (auto simp: cacheItem_def)

fun cacheItems :: "nat list \<Rightarrow> EventStateCache \<Rightarrow> (py_error + line list) list" where
  "cacheItems [] sc = []"
| "cacheItems (i # ixs) sc = (case cacheItem i sc of (r, sc') \<Rightarrow> r # cacheItems ixs sc')"

lemma cacheItems_ok:
  "cache_ok sc \<Longrightarrow> cacheItems ixs sc = map (\<lambda>i. if i \<le> length (sc_events sc)
     then Inr (applyEventsToLines (sc_lines sc) (take i (sc_events sc))) else Inl AssertionError) ixs"
proof (induction ixs arbitrary: sc)
  case (Cons i ixs)
  with cacheItem_ok[OF Cons.prems, of i] show ?case by auto
qed simp

text \<open>C29. The cache of intermediate documents is transparent: starting from a fresh one, whatever sequence of
  indices is asked for, each answer is the document obtained by applying the first \<open>i\<close> events to the lines,
  and an index beyond the end fails the assertion.\<close>

theorem cache_is_transparent:
  "cacheItems ixs (newEventStateCache lines events) =
     map (\<lambda>i. if i \<le> length events then Inr (applyEventsToLines lines (take i events)) else Inl AssertionError) ixs"
  using cacheItems_ok[of "newEventStateCache lines events" ixs] by (simp add: newEventStateCache_def cache_ok_def)

section \<open>Histories without undo\<close>

text \<open>\<open>good L g d es\<close>: the events are accepted on top of \<open>L\<close> with prior guid \<open>g\<close>, lead to \<open>d\<close>, and none of them is
  an undo or a redo.\<close>

definition good :: "line list \<Rightarrow> string \<Rightarrow> line list \<Rightarrow> event list \<Rightarrow> bool" where
  "good L g d es \<longleftrightarrow> (\<forall>e \<in> set es. wfEvent e \<and> ev_undoState e = None \<and> ev_undoing e = None) \<and> chained g es \<and>
     distinct (g # map ev_eventGuid es) \<and> checkChanges (changesOf es) L = Some d"

lemma good_valid: "good L g d es \<Longrightarrow> eventsAreValidInContextOfLines es L g [] \<and> applyEventsToLines L es = d"
  by (auto simp: good_def eventsAreValid_iff undoing_known_def checkChanges_fold applyEventsToLines_fold)

lemma good_iff:
  assumes "\<forall>e \<in> set es. ev_undoState e = None \<and> ev_undoing e = None" and "es \<noteq> []"
  shows "eventsAreValidInContextOfLines es L g [] \<longleftrightarrow> (\<exists>d. good L g d es)"
  using assms by (auto simp: good_def eventsAreValid_iff undoing_known_def applyEventsToLines_fold changesOf_def)

definition linesOf :: "change \<Rightarrow> line set" where
  "linesOf c = set (ch_oldLines c) \<union> set (ch_newLines c)"

lemma linesOf_merge:
  assumes "mergeChange c d = Some m"
  shows "linesOf m \<subseteq> linesOf c \<union> linesOf d"
proof -
  have slice: "set (pySlice a b xs) \<subseteq> set xs" for a b and xs :: "line list"
    unfolding pySlice_def by (meson set_drop_subset set_take_subset subset_trans)
  show ?thesis using assms unfolding mergeChange_def Let_def linesOf_def
    by (auto split: if_splits dest!: subsetD[OF slice] in_set_dropD)
qed

lemma linesOf_collapseLoop: "\<Union> (linesOf ` set (collapseLoop c ds)) \<subseteq> \<Union> (linesOf ` set (c # ds))"
proof (induction c ds rule: collapseLoop.induct)
  case (2 c d ds)
  show ?case
  proof (cases "mergeChange c d")
    case (Some m)
    with 2(3)[OF Some] linesOf_merge[OF Some] show ?thesis by auto
  next
    case None
    have "linesOf (c\<lparr>ch_lineIndex := k\<rparr>) = linesOf c" for k by (simp add: linesOf_def)
    with None 2(1,2)[OF None] show ?thesis by auto
  qed
qed simp

lemma linesOf_collapse: "\<Union> (linesOf ` set (collapseChanges cs)) \<subseteq> \<Union> (linesOf ` set cs)"
  using linesOf_collapseLoop by (cases cs) auto

lemma wfChange_linesOf: "wfChange c \<longleftrightarrow> 0 \<le> ch_lineIndex c \<and> (\<forall>l \<in> linesOf c. newline \<notin> set l)"
  by (auto simp: wfChange_def linesOf_def)

lemma collapse_changes_equiv:
  assumes "\<forall>c \<in> set cs. 0 \<le> ch_lineIndex c" and "checkChanges cs L = Some N"
  shows "checkChanges (collapseChanges cs) L = Some N \<and> (\<forall>c \<in> set (collapseChanges cs). 0 \<le> ch_lineIndex c)"
proof (cases cs)
  case (Cons c ds)
  then obtain M where "edits c L M" "checkChanges ds M = Some N"
    using assms checkChanges_edits[of c ds L N] by auto
  from collapseLoop_equiv[OF this] Cons assms(1) show ?thesis by simp
qed (use assms in simp)

lemma changesOf_Cons: "changesOf (e # es) = ev_changes e @ changesOf es"
  by (simp add: changesOf_def)

lemma topGuid_mem: "topGuid g xs \<in> insert g (ev_eventGuid ` set xs)"
  by (simp add: topGuid_def)

lemma good_split:
  assumes "good L g d (xs @ ys)"
  obtains m where "good L g m xs" and "good m (topGuid g xs) d ys"
proof -
  obtain m where "checkChanges (changesOf xs) L = Some m" "checkChanges (changesOf ys) m = Some d"
    using assms by (auto simp: good_def elim: checkChanges_appendE)
  moreover have "topGuid g xs \<notin> ev_eventGuid ` set ys"
    using topGuid_mem[of g xs] assms by (auto simp: good_def)
  ultimately show thesis using assms by (intro that[of m]) (auto simp: good_def chained_append)
qed

lemma good_join:
  assumes "good L g m xs" and "good m (topGuid g xs) d ys" and "distinct (g # map ev_eventGuid (xs @ ys))"
  shows "good L g d (xs @ ys)"
  using assms by (auto simp: good_def chained_append checkChanges_append)

lemma good_two:
  assumes "good L g d [a, b]"
  shows "good L g d [collapseEvents a b]"
proof -
  let ?cs = "ev_changes a @ ev_changes b"
  have wf: "wfEvent a" "wfEvent b" and c: "checkChanges ?cs L = Some d" using assms by (simp_all add: good_def changesOf_def)
  have "checkChanges (collapseChanges ?cs) L = Some d \<and> (\<forall>c \<in> set (collapseChanges ?cs). 0 \<le> ch_lineIndex c)"
    using wf wfEvent_index by (intro collapse_changes_equiv[OF _ c]) auto
  moreover have "\<forall>c \<in> set (collapseChanges ?cs). \<forall>l \<in> linesOf c. newline \<notin> set l"
    using linesOf_collapse[of ?cs] wf by (fastforce simp: wfEvent_def wfChange_linesOf)
  ultimately show ?thesis
    using assms wf by (auto simp: good_def collapseEvents_def wfEvent_def wfChange_linesOf changesOf_def)
qed

lemma good_collapse:
  assumes "good L g d (xs @ a # b # ys)"
  shows "good L g d (xs @ collapseEvents a b # ys)"
proof -
  have dist: "distinct (g # map ev_eventGuid (xs @ a # b # ys))" using assms by (simp add: good_def)
  have guid: "ev_eventGuid (collapseEvents a b) = ev_eventGuid b" by (simp add: collapseEvents_def)
  from assms obtain m where m: "good L g m xs" "good m (topGuid g xs) d ([a, b] @ ys)"
    using good_split[of L g d xs "[a, b] @ ys"] by auto
  from m(2) obtain n where n: "good m (topGuid g xs) n [a, b]" "good n (topGuid (topGuid g xs) [a, b]) d ys"
    by (rule good_split)
  have tg: "topGuid g xs \<noteq> ev_eventGuid b" "topGuid g xs \<notin> ev_eventGuid ` set ys" "ev_eventGuid b \<notin> ev_eventGuid ` set ys"
  proof -
    have "g \<noteq> ev_eventGuid b" "ev_eventGuid b \<notin> ev_eventGuid ` set xs" "g \<notin> ev_eventGuid ` set ys"
      "ev_eventGuid ` set xs \<inter> ev_eventGuid ` set ys = {}" using dist by auto
    then have "y \<noteq> ev_eventGuid b \<and> y \<notin> ev_eventGuid ` set ys" if "y \<in> insert g (ev_eventGuid ` set xs)" for y
      using that by blast
    from this[OF topGuid_mem] show "topGuid g xs \<noteq> ev_eventGuid b" "topGuid g xs \<notin> ev_eventGuid ` set ys" by simp_all
  qed (use dist in simp)
  have "good m (topGuid g xs) d ([collapseEvents a b] @ ys)"
  proof (rule good_join[OF good_two[OF n(1)]])
    show "good n (topGuid (topGuid g xs) [collapseEvents a b]) d ys" using n(2) by (simp add: topGuid_def guid)
    show "distinct (topGuid g xs # map ev_eventGuid ([collapseEvents a b] @ ys))" using tg dist guid by simp
  qed
  then have "good L g d (xs @ [collapseEvents a b] @ ys)"
    by (rule good_join[OF m(1)]) (use dist guid in auto)
  then show ?thesis by simp
qed

lemma present_simps [simp]:
  "present [] = []" "present (Some x # r) = x # present r" "present (None # r) = present r"
  "present (map Some xs) = xs" "present (r @ s) = present r @ present s"
  by (simp_all add: present_def filter_map comp_def)

lemma mergeLoop_good:
  "good L g d (xs @ c # present rest) \<Longrightarrow> length xs = i \<Longrightarrow>
   \<exists>c' rest' stop. mergeLoop mw ml (map Some xs @ Some c # rest) kept i = Inr (map Some (take stop xs) @ Some c' # rest', stop)
     \<and> stop \<le> i \<and> good L g d (take stop xs @ c' # present rest') \<and> length (present rest') + stop \<le> length (present rest) + i
     \<and> ev_eventGuid (last (c' # present rest')) = ev_eventGuid (last (c # present rest))
     \<and> ev_eventGuid ` set (c # present rest) \<subseteq> ev_eventGuid ` set (c' # present rest')"
proof (induction i arbitrary: xs c rest kept)
  case 0
  then show ?case by auto
next
  case (Suc i)
  then obtain ys a where xs: "xs = ys @ [a]" and len: "length ys = i" by (cases xs rule: rev_cases) auto
  let ?evs = "map Some xs @ Some c # rest"
  have nth: "?evs ! i = Some a" "?evs ! Suc i = Some c" using len by (simp_all add: xs nth_append)
  show ?case
  proof (cases "kept < ml")
    case False
    then have "mergeLoop mw ml ?evs kept (Suc i) = Inr (map Some (take (Suc i) xs) @ Some c # rest, Suc i)"
      using Suc.prems(2) by simp
    with Suc.prems show ?thesis by (intro exI[of _ c] exI[of _ rest] exI[of _ "Suc i"]) simp
  next
    case True
    show ?thesis
    proof (cases "eventsAreInSameUndoStream a c \<or> (eventsAreOnSameLine a c \<and> kept > mw)")
      case merge: True
      have upd: "?evs[i := Some (collapseEvents a c), Suc i := None] = map Some ys @ Some (collapseEvents a c) # None # rest"
        using len by (simp add: xs list_update_append)
      have step: "mergeLoop mw ml ?evs kept (Suc i) =
          mergeLoop mw ml (map Some ys @ Some (collapseEvents a c) # None # rest) kept i"
        using True merge nth by (simp add: upd)
      have "good L g d (ys @ collapseEvents a c # present (None # rest))"
        using good_collapse[of L g d ys a c "present rest"] Suc.prems(1) by (simp add: xs)
      from Suc.IH[OF this len, of kept] obtain c' rest' stop where IH:
        "mergeLoop mw ml (map Some ys @ Some (collapseEvents a c) # None # rest) kept i = Inr (map Some (take stop ys) @ Some c' # rest', stop)"
        "stop \<le> i" "good L g d (take stop ys @ c' # present rest')" "length (present rest') + stop \<le> length (present rest) + i"
        "ev_eventGuid (last (c' # present rest')) = ev_eventGuid (last (collapseEvents a c # present rest))"
        "ev_eventGuid ` set (collapseEvents a c # present rest) \<subseteq> ev_eventGuid ` set (c' # present rest')" by auto
      have "take stop xs = take stop ys" using IH(2) len by (simp add: xs)
      moreover have "ev_eventGuid (collapseEvents a c) = ev_eventGuid c" by (simp add: collapseEvents_def)
      ultimately show ?thesis using IH step
        by (intro exI[of _ c'] exI[of _ rest'] exI[of _ stop]) (auto split: if_splits)
    next
      case keep: False
      have step: "mergeLoop mw ml ?evs kept (Suc i) = mergeLoop mw ml (map Some ys @ Some a # Some c # rest) (kept + 1) i"
        using True keep nth by (auto simp: xs)
      have "good L g d (ys @ a # present (Some c # rest))" using Suc.prems(1) by (simp add: xs)
      from Suc.IH[OF this len, of "kept + 1"] obtain c' rest' stop where IH:
        "mergeLoop mw ml (map Some ys @ Some a # Some c # rest) (kept + 1) i = Inr (map Some (take stop ys) @ Some c' # rest', stop)"
        "stop \<le> i" "good L g d (take stop ys @ c' # present rest')" "length (present rest') + stop \<le> Suc (length (present rest)) + i"
        "ev_eventGuid (last (c' # present rest')) = ev_eventGuid (last (a # c # present rest))"
        "ev_eventGuid ` set (a # c # present rest) \<subseteq> ev_eventGuid ` set (c' # present rest')" by auto
      have tk: "take stop xs = take stop ys" using IH(2) len by (simp add: xs)
      show ?thesis using IH step tk
        by (intro exI[of _ c'] exI[of _ rest'] exI[of _ stop]) (auto split: if_splits)
    qed
  qed
qed

lemma transitionsLoop_plain:
  "\<forall>e \<in> set es. ev_undoState e = None \<Longrightarrow> \<exists>d'. transitionsLoop cur d es = Inr d'"
  by (induction es arbitrary: cur d) auto

lemma stretchesLoop_plain:
  "\<forall>e \<in> set es. ev_undoState e = None \<Longrightarrow> \<forall>ix \<in> set ixs. 0 < ix \<and> ix < length es \<Longrightarrow> stretchesLoop es tr t b acc ixs = Inr acc"
proof (induction ixs arbitrary: b)
  case (Cons ix ixs)
  then have "ev_undoState (es ! (ix - 1)) = None" by auto
  with Cons show ?case by (auto simp: Let_def)
qed simp

lemma compressAway_plain:
  assumes "\<forall>e \<in> set es. ev_undoState e = None"
  shows "compressAwayUnreachableEvents L es t = Inr es"
proof -
  obtain d where "transitionsLoop (ev_priorEventGuid (hd es)) Map.empty es = Inr d"
    using transitionsLoop_plain[OF assms] by blast
  with stretchesLoop_plain[OF assms, of "[1..<length es]"] show ?thesis
    by (auto simp: compressAwayUnreachableEvents_def)
qed

lemma lowestLoop_plain: "\<forall>e \<in> snd ` set ies. ev_undoState e = None \<Longrightarrow> lowestLoop u r m ies = Inr m"
  by (induction ies arbitrary: u r) auto

lemma lowest_plain:
  assumes "\<forall>e \<in> set es. ev_undoState e = None"
  shows "computeLowestEventIxReferencedByUndoEvents es = Inr (length es)"
proof -
  have "\<forall>e \<in> snd ` set (zip [0..<length es] es). ev_undoState e = None" using assms by (auto dest: set_zip_rightD)
  with assms show ?thesis by (auto simp: computeLowestEventIxReferencedByUndoEvents_def lowestLoop_plain)
qed

lemma timestampLoop_bound: "timestampLoop es t i n \<le> i + n"
proof (induction n arbitrary: i)
  case (Suc n)
  show ?case using Suc.IH[of "i + 1"] by simp
qed simp

lemma streamLoop_bound: "streamLoop es i \<le> i"
  by (induction i) (auto intro: le_SucI)

lemma applyChange_lines: "set (applyChange c L) \<subseteq> set L \<union> linesOf c"
  using set_take_subset set_drop_subset by (fastforce simp: applyChange_def pySetSlice_def linesOf_def)

lemma applyEvents_no_newline:
  "\<forall>e \<in> set es. wfEvent e \<Longrightarrow> \<forall>l \<in> set L. newline \<notin> set l \<Longrightarrow> \<forall>l \<in> set (applyEventsToLines L es). newline \<notin> set l"
proof -
  have "\<forall>c \<in> set cs. wfChange c \<Longrightarrow> \<forall>l \<in> set L. newline \<notin> set l \<Longrightarrow> \<forall>l \<in> set (fold applyChange cs L). newline \<notin> set l" for cs L
  proof (induction cs arbitrary: L)
    case (Cons c cs)
    then have "\<forall>l \<in> set (applyChange c L). newline \<notin> set l"
      using applyChange_lines[of c L] by (auto simp: wfChange_linesOf)
    with Cons show ?case by simp
  qed simp
  moreover assume "\<forall>e \<in> set es. wfEvent e" "\<forall>l \<in> set L. newline \<notin> set l"
  moreover from this have "\<forall>c \<in> set (changesOf es). wfChange c" by (auto simp: changesOf_def wfEvent_def)
  ultimately show ?thesis unfolding applyEventsToLines_fold by blast
qed

lemma finishCompress_good:
  assumes "good (ed_lines st) g d (xs @ c # present rest)" and "applyEventsToLines (ed_lines st) (ed_events st) = d"
    and "\<forall>l \<in> set (ed_lines st). newline \<notin> set l" and "applyEventsToLines (ed_lines st) xs \<noteq> []"
    and "mg \<in> ev_eventGuid ` set (c # present rest)"
  shows "\<exists>L' g'. finishCompress st (ed_lines st) mg (map Some xs @ Some c # rest) (length xs) =
      Inr (\<lparr>ed_lines = L', ed_topEventGuid = ev_eventGuid (last (c # present rest)), ed_events = c # present rest\<rparr>, Some mg)
    \<and> good L' g' d (c # present rest) \<and> g' = ev_priorEventGuid c"
proof -
  obtain m where m: "good (ed_lines st) g m xs" "good m (topGuid g xs) d (c # present rest)"
    using assms(1) by (rule good_split)
  have am: "applyEventsToLines (ed_lines st) xs = m" using good_valid[OF m(1)] by simp
  have wf: "\<forall>e \<in> set xs. wfEvent e" using m(1) by (simp add: good_def)
  have "splitLines (joinLines m) = m"
    using assms(4) applyEvents_no_newline[OF wf assms(3)] unfolding am by (rule splitLines_joinLines)
  then have lines: "(if length xs > 0 then splitLines (computeStateFromEvents (ed_lines st) (present (take (length xs) (map Some xs @ Some c # rest)))) else ed_lines st) = m"
    using am by (auto simp: computeStateFromEvents_def applyEventsToLines_def)
  have events: "present (if length xs > 0 then drop (length xs) (map Some xs @ Some c # rest) else map Some xs @ Some c # rest) = c # present rest"
    by (cases xs) simp_all
  have prior: "ev_priorEventGuid c = topGuid g xs" using m(2) by (simp add: good_def)
  have fin: "finishCompress st (ed_lines st) mg (map Some xs @ Some c # rest) (length xs) =
      Inr (\<lparr>ed_lines = m, ed_topEventGuid = ev_eventGuid (last (c # present rest)), ed_events = c # present rest\<rparr>, Some mg)"
    unfolding finishCompress_def lines events Let_def
    using good_valid[OF m(2)] assms(2,5) prior by (simp add: computeStateFromEvents_def)
  show ?thesis
    using fin m(2) by (intro exI[of _ m] exI[of _ "topGuid g xs"]) (simp add: prior)
qed

text \<open>The index the merging starts from.\<close>

lemma compressPruned_start:
  assumes "es \<noteq> []" and "\<forall>e \<in> set es. ev_undoState e = None"
  obtains i where "i < length es" and "compressPruned st maxTimestamp mw ml es =
    (case mergeLoop mw ml (map Some es) 0 i of Inl err \<Rightarrow> Inl err
     | Inr (merged, stop) \<Rightarrow> finishCompress st (ed_lines st) (ev_eventGuid (es ! i)) merged stop)"
proof -
  define i0 where "i0 = (case maxTimestamp of Some t \<Rightarrow> int (timestampLoop es t 0 (length es - 1)) | None \<Rightarrow> int (length es) - 1)"
  define i where "i = (if i0 > 0 then int (streamLoop es (nat i0)) else i0)"
  have "0 \<le> i0 \<and> i0 < int (length es)"
  proof (cases maxTimestamp)
    case (Some t)
    then show ?thesis using assms(1) timestampLoop_bound[of es t 0 "length es - 1"] by (cases es) (simp_all add: i0_def)
  next
    case None
    then show ?thesis using assms(1) by (cases es) (simp_all add: i0_def)
  qed
  then have i: "0 \<le> i" "i < int (length es)" using streamLoop_bound[of es "nat i0"] by (auto simp: i_def)
  have "compressPruned st maxTimestamp mw ml es =
    (case mergeLoop mw ml (map Some es) 0 (nat i) of Inl err \<Rightarrow> Inl err
     | Inr (merged, stop) \<Rightarrow> finishCompress st (ed_lines st) (ev_eventGuid (es ! nat i)) merged stop)"
    unfolding compressPruned_def lowest_plain[OF assms(2)] sum.case Let_def i0_def[symmetric] i_def[symmetric]
    using assms(1) i(1) by simp
  with i show thesis by (intro that[of "nat i"]) auto
qed

text \<open>Merging and folding from there.\<close>

lemma merge_and_finish:
  assumes g: "good (ed_lines st) g d (ed_events st)" and i: "i < length (ed_events st)"
    and "\<forall>l \<in> set (ed_lines st). newline \<notin> set l"
    and "\<forall>k \<le> length (ed_events st). applyEventsToLines (ed_lines st) (take k (ed_events st)) \<noteq> []"
  shows "\<exists>L' c es'. (case mergeLoop mw ml (map Some (ed_events st)) 0 i of Inl err \<Rightarrow> Inl err
     | Inr (merged, stop) \<Rightarrow> finishCompress st (ed_lines st) (ev_eventGuid (ed_events st ! i)) merged stop) =
       Inr (\<lparr>ed_lines = L', ed_topEventGuid = ev_eventGuid (last (ed_events st)), ed_events = c # es'\<rparr>, Some (ev_eventGuid (ed_events st ! i)))
     \<and> good L' (ev_priorEventGuid c) d (c # es') \<and> Suc (length es') \<le> length (ed_events st)
     \<and> ev_eventGuid (ed_events st ! i) \<in> ev_eventGuid ` set (c # es')"
proof -
  let ?es = "ed_events st"
  let ?xs = "take i ?es" and ?c = "?es ! i" and ?ys = "drop (Suc i) ?es"
  have split: "?xs @ ?c # ?ys = ?es" using i by (rule id_take_nth_drop[symmetric])
  have opts: "map Some ?xs @ Some ?c # map Some ?ys = map Some ?es" using arg_cong[OF split, of "map Some"] by simp
  have "good (ed_lines st) g d (?xs @ ?c # present (map Some ?ys))" using g by (simp only: present_simps split)
  moreover have "length ?xs = i" using i by simp
  ultimately obtain c' rest' stop where ml:
    "mergeLoop mw ml (map Some ?xs @ Some ?c # map Some ?ys) 0 i = Inr (map Some (take stop ?xs) @ Some c' # rest', stop)"
    "stop \<le> i" "good (ed_lines st) g d (take stop ?xs @ c' # present rest')"
    "length (present rest') + stop \<le> length (present (map Some ?ys)) + i"
    "ev_eventGuid (last (c' # present rest')) = ev_eventGuid (last (?c # present (map Some ?ys)))"
    "ev_eventGuid ` set (?c # present (map Some ?ys)) \<subseteq> ev_eventGuid ` set (c' # present rest')"
    using mergeLoop_good by blast
  have tk: "take stop ?xs = take stop ?es" "length (take stop ?es) = stop" using ml(2) i by simp_all
  have mg: "ev_eventGuid ?c \<in> ev_eventGuid ` set (c' # present rest')" using ml(6) by auto
  have "stop \<le> length ?es" using ml(2) i by simp
  then have ne: "applyEventsToLines (ed_lines st) (take stop ?es) \<noteq> []" using assms(4) by blast
  have ad: "applyEventsToLines (ed_lines st) ?es = d" using good_valid[OF g] by simp
  from finishCompress_good[OF ml(3)[unfolded tk] ad assms(3) ne mg] obtain L' where fin:
    "finishCompress st (ed_lines st) (ev_eventGuid ?c) (map Some (take stop ?es) @ Some c' # rest') stop =
      Inr (\<lparr>ed_lines = L', ed_topEventGuid = ev_eventGuid (last (c' # present rest')), ed_events = c' # present rest'\<rparr>, Some (ev_eventGuid ?c))"
    "good L' (ev_priorEventGuid c') d (c' # present rest')" unfolding tk(2) by blast
  have "last (?c # ?ys) = last ?es" using arg_cong[OF split, of last] by simp
  with ml(5) have top: "ev_eventGuid (last (c' # present rest')) = ev_eventGuid (last ?es)" by simp
  show ?thesis
    using ml(1,4) fin mg i unfolding opts tk top by (intro exI[of _ L'] exI[of _ c'] exI[of _ "present rest'"]) auto
qed

text \<open>C15. Compressing the history never changes the document and never fails on plain histories. Take a state
  whose events are accepted on top of its lines, none of them an undo or a redo, whose lines contain no
  newline and whose document never runs out of lines. For every age limit and every limit on the number
  of undo steps \<open>compressState\<close> returns: none of its assertions fails. The new state has the same text and the
  same top guid, its events are accepted on top of its lines, there are no more of them than before, and
  the guid it guarantees to the browsers is the guid of one of them.\<close>

theorem compression_preserves_document:
  assumes "ed_events st \<noteq> []" and "\<forall>e \<in> set (ed_events st). ev_undoState e = None \<and> ev_undoing e = None"
    and "eventsAreValidInContextOfLines (ed_events st) (ed_lines st) (ev_priorEventGuid (hd (ed_events st))) []"
    and "\<forall>l \<in> set (ed_lines st). newline \<notin> set l"
    and "\<forall>k \<le> length (ed_events st). applyEventsToLines (ed_lines st) (take k (ed_events st)) \<noteq> []"
  shows "\<exists>st' mg. compressState st maxTimestamp maxWordUndos maxLineUndos = Inr (st', Some mg)
    \<and> computeStateFromEvents (ed_lines st') (ed_events st') = computeStateFromEvents (ed_lines st) (ed_events st)
    \<and> ed_topEventGuid st' = ev_eventGuid (last (ed_events st))
    \<and> eventsAreValidInContextOfLines (ed_events st') (ed_lines st') (ev_priorEventGuid (hd (ed_events st'))) []
    \<and> length (ed_events st') \<le> length (ed_events st) \<and> mg \<in> ev_eventGuid ` set (ed_events st')"
proof -
  let ?es = "ed_events st"
  obtain d where g: "good (ed_lines st) (ev_priorEventGuid (hd ?es)) d ?es" using assms(1-3) good_iff by blast
  have plain: "\<forall>e \<in> set ?es. ev_undoState e = None" using assms(2) by simp
  obtain i where i: "i < length ?es" "compressPruned st maxTimestamp maxWordUndos maxLineUndos ?es =
    (case mergeLoop maxWordUndos maxLineUndos (map Some ?es) 0 i of Inl err \<Rightarrow> Inl err
     | Inr (merged, stop) \<Rightarrow> finishCompress st (ed_lines st) (ev_eventGuid (?es ! i)) merged stop)"
    using assms(1) plain by (rule compressPruned_start)
  have start: "compressState st maxTimestamp maxWordUndos maxLineUndos = compressPruned st maxTimestamp maxWordUndos maxLineUndos ?es"
    using assms(1,3) compressAway_plain[OF plain] by (simp add: compressState_def Let_def)
  obtain L' c es' where r: "compressState st maxTimestamp maxWordUndos maxLineUndos =
       Inr (\<lparr>ed_lines = L', ed_topEventGuid = ev_eventGuid (last ?es), ed_events = c # es'\<rparr>, Some (ev_eventGuid (?es ! i)))"
     "good L' (ev_priorEventGuid c) d (c # es')" "Suc (length es') \<le> length ?es" "ev_eventGuid (?es ! i) \<in> ev_eventGuid ` set (c # es')"
    using merge_and_finish[OF g i(1) assms(4,5), of maxWordUndos maxLineUndos] unfolding start i(2) by blast
  then show ?thesis using good_valid[OF r(2)] good_valid[OF g] by (auto simp: computeStateFromEvents_def)
qed

definition demo_state :: editor_state where
  "demo_state = \<lparr>ed_lines = [[]], ed_topEventGuid = ''g2'',
     ed_events = [demo_edit ''<initial>'' ''g1'' [] ''a'', demo_edit ''g1'' ''g2'' ''a'' ''ab'']\<rparr>"

lemma demo_docs: "k \<le> 2 \<Longrightarrow> applyEventsToLines (ed_lines demo_state) (take k (ed_events demo_state)) \<noteq> []"
proof -
  assume "k \<le> 2"
  then have "k = 0 \<or> k = 1 \<or> k = 2" by linarith
  then show ?thesis
    by (auto simp: demo_state_def demo_edit_def applyEventsToLines_def applyChange_def pySetSlice_def pyIndex_def)
qed

theorem compression_preserves_document_witness:
  "\<exists>st' mg. compressState demo_state None 1000 10000 = Inr (st', Some mg)
    \<and> computeStateFromEvents (ed_lines st') (ed_events st') = ''ab''"
proof -
  have a: "ed_events demo_state \<noteq> []" "\<forall>e \<in> set (ed_events demo_state). ev_undoState e = None \<and> ev_undoing e = None"
    "\<forall>l \<in> set (ed_lines demo_state). newline \<notin> set l"
    by (simp_all add: demo_state_def demo_edit_def)
  have v: "eventsAreValidInContextOfLines (ed_events demo_state) (ed_lines demo_state) (ev_priorEventGuid (hd (ed_events demo_state))) []"
    by (simp add: demo_state_def demo_edit_def eventsAreValid_iff wfEvent_def wfChange_def newline_def
        undoing_known_def changesOf_def applyEventsToLines_def applyChange_def pySetSlice_def pySlice_def pyIndex_def)
  have k: "\<forall>k \<le> length (ed_events demo_state). applyEventsToLines (ed_lines demo_state) (take k (ed_events demo_state)) \<noteq> []"
    using demo_docs by (simp add: demo_state_def)
  have "computeStateFromEvents (ed_lines demo_state) (ed_events demo_state) = ''ab''"
    by (simp add: computeStateFromEvents_def demo_state_def demo_edit_def applyEventsToLines_def applyChange_def pySetSlice_def pyIndex_def)
  with compression_preserves_document[OF a(1,2) v a(3) k, of None 1000 10000] show ?thesis by auto
qed

text \<open>The hypothesis that the document never runs out of lines is needed: joining no lines and splitting the
  result gives one empty line, so folding events that leave the document without lines adds one. Here the
  first event removes the only line, the second one adds a line, and the final assertion fails.\<close>

definition demo_removal :: editor_state where
  "demo_removal = \<lparr>ed_lines = [[]], ed_topEventGuid = ''g2'',
     ed_events = [(demo_edit ''<initial>'' ''g1'' [] [])\<lparr>ev_changes := [\<lparr>ch_oldLines = [[]], ch_newLines = [], ch_lineIndex = 0\<rparr>]\<rparr>,
                  (demo_edit ''g1'' ''g2'' [] [])\<lparr>ev_changes := [\<lparr>ch_oldLines = [], ch_newLines = [''a''], ch_lineIndex = 0\<rparr>]\<rparr>]\<rparr>"

lemma folding_an_empty_document_fails:
  "eventsAreValidInContextOfLines (ed_events demo_removal) (ed_lines demo_removal) ''<initial>'' []
   \<and> compressState demo_removal None 0 0 = Inl AssertionError"
proof -
  have "eventsAreValidInContextOfLines (ed_events demo_removal) (ed_lines demo_removal) ''<initial>'' []"
    by (simp add: demo_removal_def demo_edit_def eventsAreValid_iff wfEvent_def wfChange_def newline_def
        undoing_known_def changesOf_def applyEventsToLines_def applyChange_def pySetSlice_def pySlice_def pyIndex_def)
  moreover have "compressState demo_removal None 0 0 = Inl AssertionError" by code_simp
  ultimately show ?thesis by simp
qed

end
