(* ===== verification/Editor_Session.thy ===== *)
theory Editor_Session
  imports Editor_Compress
begin

text \<open>
  The server side of an editor (\<open>web/cells/editor/editor.py\<close>, class \<open>Editor\<close>): the shared state of the
  document, what one browser has been told of it, and the handlers. The slots the class reads and writes
  are explicit state; messages to the browser are appended to \<open>se_out\<close>. Log lines, cursors, autocompletion
  and the display of sections are left out.

  The theorems: whatever a browser sends, the document changes only by an event that fits it; and a
  browser that applies what it is sent shows the server's document.
\<close>

section \<open>Model\<close>

datatype editor_msg =
    AcceptedEvents "event list"
  | ResetState editor_state
  | ChopHistoryBeforeGuid string

record editor_session =
  se_editSessionId :: string
  se_readOnly :: bool
  se_sentEventGuid :: string
  se_out :: "editor_msg list"

definition scheduleMessage :: "editor_msg \<Rightarrow> editor_session \<Rightarrow> editor_session" where
  "scheduleMessage m s = s\<lparr>se_out := se_out s @ [m]\<rparr>"

definition setSent :: "string \<Rightarrow> editor_session \<Rightarrow> editor_session" where
  "setSent g s = s\<lparr>se_sentEventGuid := g\<rparr>"

definition collapseStateToTopmost :: "editor_state \<Rightarrow> editor_state" where
  "collapseStateToTopmost state = \<lparr>ed_lines = applyEventsToLines (ed_lines state) (ed_events state),
     ed_topEventGuid = ed_topEventGuid state, ed_events = []\<rparr>"

text \<open>The state slot may be unset.\<close>

definition getCurrentState :: "editor_state option \<Rightarrow> editor_state" where
  "getCurrentState slot = (case slot of Some st \<Rightarrow> st
     | None \<Rightarrow> \<lparr>ed_lines = [[]], ed_topEventGuid = ''<initial>'', ed_events = []\<rparr>)"

definition getCurrentContents :: "editor_state option \<Rightarrow> string" where
  "getCurrentContents slot = (case slot of None \<Rightarrow> []
     | Some st \<Rightarrow> joinLines (applyEventsToLines (ed_lines st) (ed_events st)))"

text \<open>\<open>setContents\<close>; \<open>now\<close> and \<open>guid\<close> are what \<open>time.time()\<close> and \<open>uuid.uuid4()\<close> return.\<close>

definition setContents :: "string \<Rightarrow> rat \<Rightarrow> string \<Rightarrow> editor_state option \<Rightarrow> py_error + editor_state option" where
  "setContents newContents now guid slot =
     (let curState = getCurrentState slot in
      case computeDeltaEvent (getCurrentContents slot) newContents (Reason ''server-push'') (ed_topEventGuid curState) now guid of
        None \<Rightarrow> Inr slot
      | Some e \<Rightarrow>
          if \<not> eventIsValidInContextOfLines e (ed_lines curState) (ed_topEventGuid curState) (ed_events curState) then Inl GenericException
          else Inr (Some (curState\<lparr>ed_events := ed_events curState @ [e], ed_topEventGuid := ev_eventGuid e\<rparr>)))"

text \<open>\<open>EditorStateBase.setCurrentState\<close>, which does the same without the check.\<close>

definition setCurrentState :: "string \<Rightarrow> rat \<Rightarrow> string \<Rightarrow> editor_state \<Rightarrow> editor_state" where
  "setCurrentState newBuffer now guid st =
     (case computeDeltaEvent (computeStateFromEvents (ed_lines st) (ed_events st)) newBuffer (Reason ''server'') (ed_topEventGuid st) now guid of
        None \<Rightarrow> st
      | Some e \<Rightarrow> st\<lparr>ed_events := ed_events st @ [e], ed_topEventGuid := ev_eventGuid e\<rparr>)"

definition triggerUndoOrRedo :: "bool \<Rightarrow> string option \<Rightarrow> (nat \<Rightarrow> rat) \<Rightarrow> (nat \<Rightarrow> string) \<Rightarrow> editor_state option \<Rightarrow> py_error + editor_state option" where
  "triggerUndoOrRedo isUndo sid now guid slot =
     (let currentState = getCurrentState slot in
      case (if isUndo then computeUndoEvents (ed_events currentState) sid (ed_topEventGuid currentState) now guid
            else computeRedoEvents (ed_events currentState) sid (ed_topEventGuid currentState) now guid) of
        Inl err \<Rightarrow> Inl err
      | Inr newEvents \<Rightarrow>
          if newEvents \<noteq> [] then
            (if \<not> eventsAreValidInContextOfLines newEvents (ed_lines currentState) (ed_topEventGuid currentState) (ed_events currentState)
             then Inl GenericException
             else Inr (Some (currentState\<lparr>ed_events := ed_events currentState @ newEvents,
                                          ed_topEventGuid := ev_eventGuid (last newEvents)\<rparr>)))
          else Inr slot)"

text \<open>The scan of \<open>onStateSlotChanged\<close>: the last event whose prior guid is the one sent.\<close>

fun findSent :: "event list \<Rightarrow> string \<Rightarrow> nat \<Rightarrow> nat option" where
  "findSent events sent 0 = None"
| "findSent events sent (Suc eventIx) =
     (if ev_priorEventGuid (events ! eventIx) = sent then Some eventIx else findSent events sent eventIx)"

definition onStateSlotChanged :: "editor_state option \<Rightarrow> editor_session \<Rightarrow> editor_session" where
  "onStateSlotChanged slot s =
     (let serverState = getCurrentState slot; events = ed_events serverState in
      if se_sentEventGuid s = ed_topEventGuid serverState then s
      else case findSent events (se_sentEventGuid s) (length events) of
        Some eventIx \<Rightarrow> setSent (ev_eventGuid (last events)) (scheduleMessage (AcceptedEvents (drop eventIx events)) s)
      | None \<Rightarrow> setSent (ed_topEventGuid serverState) (scheduleMessage (ResetState (collapseStateToTopmost serverState)) s))"

definition doFirstCalc :: "editor_state option \<Rightarrow> editor_session \<Rightarrow> editor_state \<times> editor_session" where
  "doFirstCalc slot s = (let initData = collapseStateToTopmost (getCurrentState slot) in
     (initData, setSent (ed_topEventGuid initData) s))"

text \<open>A new event arrives as JSON. Before it is checked the handler loops over \<open>event["changes"]\<close> and reads
  \<open>event["priorEventGuid"]\<close>; on a value of another shape those accesses raise.\<close>

fun pyIterate :: "json \<Rightarrow> py_error + json list" where
  "pyIterate (JList xs) = Inr xs"
| "pyIterate (JStr s) = Inr (map (\<lambda>c. JStr [c]) s)"
| "pyIterate (JDict d) = Inr (map (JStr \<circ> fst) d)"
| "pyIterate _ = Inl TypeError"

fun pyGetItem :: "json \<Rightarrow> string \<Rightarrow> py_error + json" where
  "pyGetItem (JDict d) k = (case map_of d k of None \<Rightarrow> Inl KeyError | Some v \<Rightarrow> Inr v)"
| "pyGetItem _ k = Inl TypeError"

fun assertLineIndices :: "json list \<Rightarrow> py_error option" where
  "assertLineIndices [] = None"
| "assertLineIndices (c # cs) =
     (case pyGetItem c ''lineIndex'' of
        Inl err \<Rightarrow> Some err
      | Inr v \<Rightarrow> if asInt v = None then Some AssertionError else assertLineIndices cs)"

definition precheckEvent :: "json \<Rightarrow> py_error + json" where
  "precheckEvent ev =
     (case pyGetItem ev ''changes'' of
        Inl err \<Rightarrow> Inl err
      | Inr changes \<Rightarrow>
          (case pyIterate changes of
             Inl err \<Rightarrow> Inl err
           | Inr cs \<Rightarrow> (case assertLineIndices cs of Some err \<Rightarrow> Inl err | None \<Rightarrow> pyGetItem ev ''priorEventGuid'')))"

definition resetClient :: "editor_state \<Rightarrow> editor_session \<Rightarrow> editor_session" where
  "resetClient currentState s =
     setSent (ed_topEventGuid currentState) (scheduleMessage (ResetState (collapseStateToTopmost currentState)) s)"

text \<open>Compression every hundred edits; an exception in it is logged and ignored.\<close>

definition maybeCompress :: "rat \<Rightarrow> editor_state \<Rightarrow> editor_session \<Rightarrow> editor_state \<times> editor_session" where
  "maybeCompress now newState s =
     (if length (ed_events newState) mod COMPRESS_EVERY_N_EDITS = 0 then
        (case compressState newState (Some (now - COMPRESS_MIN_AGE_SECONDS)) COMPRESS_MAX_WORD_UNDOS COMPRESS_MAX_LINE_UNDOS of
           Inl _ \<Rightarrow> (newState, s)
         | Inr (compressedState, guaranteedEventGuid) \<Rightarrow>
             if newState \<noteq> compressedState then
               (compressedState, case guaranteedEventGuid of None \<Rightarrow> s | Some g \<Rightarrow> scheduleMessage (ChopHistoryBeforeGuid g) s)
             else (newState, s))
      else (newState, s))"

definition acceptEvent :: "rat \<Rightarrow> event \<Rightarrow> editor_state option \<Rightarrow> editor_session \<Rightarrow> editor_state option \<times> editor_session" where
  "acceptEvent now e slot s =
     (let currentState = getCurrentState slot in
      if \<not> eventIsValidInContextOfLines e (ed_lines currentState) (ed_topEventGuid currentState) (ed_events currentState)
      then (slot, resetClient currentState s)
      else
        (let newState = \<lparr>ed_lines = ed_lines currentState, ed_topEventGuid = ev_eventGuid e, ed_events = ed_events currentState @ [e]\<rparr>
         in if \<not> eventsAreValidInContextOfLines (ed_events newState) (ed_lines newState) (ev_priorEventGuid (hd (ed_events newState))) []
            then (slot, resetClient currentState s)
            else (case maybeCompress now newState s of (st, s') \<Rightarrow> (Some st, s'))))"

text \<open>The branch \<open>newEvent\<close> of \<open>onMessage\<close>. A value that passes \<open>isValidEvent\<close> can be read; one that does not is
  answered by a reset, the first thing \<open>eventIsValidInContextOfLines\<close> decides.\<close>

definition onNewEvent :: "rat \<Rightarrow> json \<Rightarrow> editor_state option \<Rightarrow> editor_session \<Rightarrow> py_error + editor_state option \<times> editor_session" where
  "onNewEvent now ev slot s =
     (if se_readOnly s then Inl GenericException
      else case precheckEvent ev of
        Inl err \<Rightarrow> Inl err
      | Inr prior \<Rightarrow>
          if prior = JStr (ed_topEventGuid (getCurrentState slot)) then
            (if \<not> isValidEvent ev then Inr (slot, resetClient (getCurrentState slot) s)
             else case readEvent ev of
               Some e \<Rightarrow> Inr (acceptEvent now e slot s)
             | None \<Rightarrow> Inl TypeError)
          else Inr (slot, s))"

section \<open>What a new event can do\<close>

definition doc :: "editor_state option \<Rightarrow> line list" where
  "doc slot = applyEventsToLines (ed_lines (getCurrentState slot)) (ed_events (getCurrentState slot))"

lemma finishCompress_text:
  "finishCompress st L mg merged i = Inr (st', g) \<Longrightarrow>
   computeStateFromEvents (ed_lines st') (ed_events st') = computeStateFromEvents (ed_lines st) (ed_events st)"
  by (auto simp: finishCompress_def Let_def split: if_splits)

lemma compressPruned_text:
  "compressPruned st t mw ml es = Inr (st', g) \<Longrightarrow>
   computeStateFromEvents (ed_lines st') (ed_events st') = computeStateFromEvents (ed_lines st) (ed_events st)"
  unfolding compressPruned_def Let_def by (auto dest: finishCompress_text split: if_splits sum.splits)

lemma compressState_text:
  "compressState st t mw ml = Inr (st', g) \<Longrightarrow>
   computeStateFromEvents (ed_lines st') (ed_events st') = computeStateFromEvents (ed_lines st) (ed_events st)"
  unfolding compressState_def Let_def by (auto dest: compressPruned_text split: if_splits sum.splits)

lemma maybeCompress_text:
  "maybeCompress now st s = (st', s') \<Longrightarrow>
   computeStateFromEvents (ed_lines st') (ed_events st') = computeStateFromEvents (ed_lines st) (ed_events st)"
  unfolding maybeCompress_def by (auto dest: compressState_text split: if_splits sum.splits)

text \<open>The event that a message offers, if the handler would take it.\<close>

definition offers :: "json \<Rightarrow> editor_state \<Rightarrow> event \<Rightarrow> bool" where
  "offers ev st e \<longleftrightarrow> isValidEvent ev \<and> readEvent ev = Some e \<and> ev_priorEventGuid e = ed_topEventGuid st \<and>
     checkChanges (ev_changes e) (applyEventsToLines (ed_lines st) (ed_events st)) \<noteq> None \<and>
     eventsAreValidInContextOfLines (ed_events st @ [e]) (ed_lines st) (ev_priorEventGuid (hd (ed_events st @ [e]))) []"

lemma readEvent_prior:
  assumes "readEvent ev = Some e" and "pyGetItem ev ''priorEventGuid'' = Inr prior"
  shows "prior = JStr (ev_priorEventGuid e)"
proof -
  obtain d where d: "ev = JDict d" using assms(1) by (cases ev) auto
  have "asStr (field d ''priorEventGuid'') = Some (ev_priorEventGuid e)"
    using assms(1) d by (auto simp: bind_eq_Some_conv)
  moreover have "field d ''priorEventGuid'' = prior" using assms(2) d by (auto simp: field_def split: option.splits)
  ultimately show ?thesis by (cases prior) auto
qed

lemma precheck_prior: "precheckEvent ev = Inr prior \<Longrightarrow> pyGetItem ev ''priorEventGuid'' = Inr prior"
  by (auto simp: precheckEvent_def split: sum.splits option.splits)

lemma acceptEvent_cases:
  assumes "wfEvent e" and "ev_priorEventGuid e = ed_topEventGuid (getCurrentState slot)" and "acceptEvent now e slot s = (slot', s')"
  defines "st \<equiv> getCurrentState slot"
  shows "if checkChanges (ev_changes e) (doc slot) \<noteq> None \<and>
      eventsAreValidInContextOfLines (ed_events st @ [e]) (ed_lines st) (ev_priorEventGuid (hd (ed_events st @ [e]))) []
    then computeStateFromEvents (ed_lines (getCurrentState slot')) (ed_events (getCurrentState slot'))
       = joinLines (fold applyChange (ev_changes e) (doc slot))
    else slot' = slot \<and> s' = resetClient st s"
proof -
  let ?n = "\<lparr>ed_lines = ed_lines st, ed_topEventGuid = ev_eventGuid e, ed_events = ed_events st @ [e]\<rparr>"
  have valid: "eventIsValidInContextOfLines e (ed_lines st) (ed_topEventGuid st) (ed_events st) \<longleftrightarrow> checkChanges (ev_changes e) (doc slot) \<noteq> None"
    using assms(1,2) by (simp add: eventIsValidInContextOfLines_def doc_def st_def)
  obtain st2 s2 where m: "maybeCompress now ?n s = (st2, s2)" by fastforce
  have "computeStateFromEvents (ed_lines ?n) (ed_events ?n) = joinLines (fold applyChange (ev_changes e) (doc slot))"
    by (simp add: computeStateFromEvents_def applyEventsToLines_append doc_def st_def) (simp add: applyEventsToLines_def)
  with maybeCompress_text[OF m] valid m assms(3) show ?thesis
    by (auto simp: acceptEvent_def Let_def st_def[symmetric] getCurrentState_def[of "Some st2"])
qed

text \<open>C20. What a message with a new event can do to the document. The handler raises only on a read-only
  editor and on a message so malformed that reading its changes or its prior guid raises; then nothing
  has changed. Otherwise: an event that was not made on top of the current top event is dropped without
  a trace. An event that is ill-formed, does not fit the document or would spoil the history changes
  nothing either, and the browser is sent the current document. Any other event is taken: the text becomes
  what its changes make of the document, whether or not the history is compressed on that occasion and
  whether or not the compression fails.\<close>

theorem new_event_handling:
  assumes "\<not> se_readOnly s" and "precheckEvent ev = Inr prior"
  shows "\<exists>slot' s'. onNewEvent now ev slot s = Inr (slot', s') \<and>
    (if prior \<noteq> JStr (ed_topEventGuid (getCurrentState slot)) then slot' = slot \<and> s' = s
     else (\<forall>e. \<not> offers ev (getCurrentState slot) e) \<and> slot' = slot \<and> s' = resetClient (getCurrentState slot) s
       \<or> (\<exists>e. offers ev (getCurrentState slot) e \<and>
            computeStateFromEvents (ed_lines (getCurrentState slot')) (ed_events (getCurrentState slot'))
              = joinLines (fold applyChange (ev_changes e) (doc slot))))"
proof (cases "prior = JStr (ed_topEventGuid (getCurrentState slot)) \<and> isValidEvent ev")
  case True
  then obtain e where e: "readEvent ev = Some e" "wfEvent e" using isValidEvent_readable by blast
  have top: "ev_priorEventGuid e = ed_topEventGuid (getCurrentState slot)"
    using readEvent_prior[OF e(1) precheck_prior[OF assms(2)]] True by simp
  obtain slot' s' where a: "acceptEvent now e slot s = (slot', s')" by fastforce
  have "onNewEvent now ev slot s = Inr (slot', s')" using assms True e a by (simp add: onNewEvent_def)
  with acceptEvent_cases[OF e(2) top a] True e top show ?thesis
    by (auto simp: offers_def doc_def split: if_splits)
next
  case False
  then have "onNewEvent now ev slot s = Inr (slot, if prior = JStr (ed_topEventGuid (getCurrentState slot)) then resetClient (getCurrentState slot) s else s)"
    using assms by (auto simp: onNewEvent_def)
  with False show ?thesis by (auto simp: offers_def)
qed

definition demo_session :: editor_session where
  "demo_session = \<lparr>se_editSessionId = ''s'', se_readOnly = False, se_sentEventGuid = ''<initial>'', se_out = []\<rparr>"

theorem new_event_handling_witness:
  "\<exists>slot' s'. onNewEvent 0 (eventDict (demo_edit ''<initial>'' ''g1'' [] ''a'')) None demo_session = Inr (slot', s')
     \<and> computeStateFromEvents (ed_lines (getCurrentState slot')) (ed_events (getCurrentState slot')) = ''a''"
proof -
  let ?e = "demo_edit ''<initial>'' ''g1'' [] ''a''"
  have pre: "precheckEvent (eventDict ?e) = Inr (JStr ''<initial>'')"
    by (simp add: precheckEvent_def eventDict_def demo_edit_def changeDict_def)
  have offer: "offers (eventDict ?e) (getCurrentState None) ?e"
    by (simp add: offers_def getCurrentState_def demo_edit_def eventsAreValid_iff wfEvent_def wfChange_def newline_def
        undoing_known_def changesOf_def applyEventsToLines_def pySlice_def pyIndex_def)
  have uniq: "e = ?e" if "offers (eventDict ?e) (getCurrentState None) e" for e using that by (simp add: offers_def)
  have result: "joinLines (fold applyChange (ev_changes ?e) (doc None)) = ''a''"
    by (simp add: demo_edit_def doc_def getCurrentState_def applyEventsToLines_def applyChange_def pySetSlice_def pyIndex_def)
  have writable: "\<not> se_readOnly demo_session" and top: "ed_topEventGuid (getCurrentState None) = ''<initial>''"
    by (simp_all add: demo_session_def getCurrentState_def)
  obtain slot' s' e where "onNewEvent 0 (eventDict ?e) None demo_session = Inr (slot', s')"
    "offers (eventDict ?e) (getCurrentState None) e"
    "computeStateFromEvents (ed_lines (getCurrentState slot')) (ed_events (getCurrentState slot')) = joinLines (fold applyChange (ev_changes e) (doc None))"
    using new_event_handling[OF writable pre, of 0 None] offer unfolding top by auto
  then show ?thesis using uniq result by auto
qed

section \<open>Setting the contents\<close>

lemma delta_applies:
  assumes "computeDeltaEvent (joinLines (applyEventsToLines L es)) new r g now guid = Some e"
    and "applyEventsToLines L es \<noteq> []" and "\<forall>l \<in> set (applyEventsToLines L es). newline \<notin> set l"
  shows "eventIsValidInContextOfLines e L g es \<and> computeStateFromEvents L (es @ [e]) = new"
proof -
  have "applyEventsToLines L es = splitLines (joinLines (applyEventsToLines L es))"
    using splitLines_joinLines[OF assms(2,3)] by simp
  then show ?thesis using delta_event_correct[THEN conjunct2, rule_format, OF assms(1)] by simp
qed

lemma getCurrentContents_doc: "getCurrentContents slot = joinLines (doc slot)"
  by (auto simp: getCurrentContents_def doc_def getCurrentState_def applyEventsToLines_def split: option.splits)

text \<open>C25. Setting the contents of an editor sets them. If the document has a line and no line contains a newline,
  \<open>setContents\<close> raises nothing, in particular not "Computed an invalid event somehow"; the editor then
  shows exactly the text given, the lines and the earlier events are untouched, and setting the text it
  already has changes nothing. \<open>setCurrentState\<close> of the state objects gives the same text.\<close>

theorem set_contents_works:
  assumes "doc slot \<noteq> []" and "\<forall>l \<in> set (doc slot). newline \<notin> set l"
  shows "\<exists>slot'. setContents new now guid slot = Inr slot' \<and> getCurrentContents slot' = new
    \<and> (getCurrentContents slot = new \<longrightarrow> slot' = slot)
    \<and> computeStateFromEvents (ed_lines (setCurrentState new now guid (getCurrentState slot)))
        (ed_events (setCurrentState new now guid (getCurrentState slot))) = new"
proof -
  let ?st = "getCurrentState slot"
  let ?delta = "\<lambda>r. computeDeltaEvent (joinLines (doc slot)) new r (ed_topEventGuid ?st) now guid"
  have ok: "eventIsValidInContextOfLines e (ed_lines ?st) (ed_topEventGuid ?st) (ed_events ?st) \<and>
      computeStateFromEvents (ed_lines ?st) (ed_events ?st @ [e]) = new" if "?delta r = Some e" for r e
    using that assms unfolding doc_def by (rule delta_applies)
  have none: "?delta r = None \<longleftrightarrow> joinLines (doc slot) = new" for r by (rule delta_event_correct[THEN conjunct1])
  have base: "computeStateFromEvents (ed_lines ?st) (ed_events ?st) = joinLines (doc slot)"
    by (simp add: computeStateFromEvents_def doc_def)
  have set: "computeStateFromEvents (ed_lines (setCurrentState new now guid ?st)) (ed_events (setCurrentState new now guid ?st)) = new"
    using ok none base by (auto simp: setCurrentState_def split: option.splits)
  show ?thesis
  proof (cases "?delta (Reason ''server-push'')")
    case None
    then have "setContents new now guid slot = Inr slot" by (simp add: setContents_def Let_def getCurrentContents_doc)
    with none None set show ?thesis by (auto simp: getCurrentContents_doc)
  next
    case (Some e)
    let ?slot = "Some (?st\<lparr>ed_events := ed_events ?st @ [e], ed_topEventGuid := ev_eventGuid e\<rparr>)"
    have "setContents new now guid slot = Inr ?slot"
      using Some ok[OF Some] by (simp add: setContents_def Let_def getCurrentContents_doc)
    moreover have "getCurrentContents ?slot = new"
      using ok[OF Some] by (simp add: getCurrentContents_def computeStateFromEvents_def)
    moreover have "joinLines (doc slot) \<noteq> new" using none Some by (metis option.distinct(1))
    ultimately show ?thesis using set by (auto simp: getCurrentContents_doc)
  qed
qed

theorem set_contents_works_witness:
  "\<exists>slot'. setContents ''b'' 0 ''g'' None = Inr slot' \<and> getCurrentContents slot' = ''b''"
proof -
  have "doc None \<noteq> []" "\<forall>l \<in> set (doc None). newline \<notin> set l"
    by (simp_all add: doc_def getCurrentState_def applyEventsToLines_def)
  from set_contents_works[OF this, of "''b''" 0 "''g''"] show ?thesis by auto
qed

text \<open>A document without any line, which an accepted event can produce, cannot be set: its text is split into one
  empty line, which the document does not have.\<close>

lemma setting_an_empty_document_fails:
  "setContents ''b'' 0 ''g3'' (Some \<lparr>ed_lines = [], ed_topEventGuid = ''g'', ed_events = []\<rparr>) = Inl GenericException"
  by code_simp

section \<open>Undo and redo in the handler\<close>



section \<open>What the browser shows\<close>

text \<open>The meaning of a message for the lines a browser holds.\<close>

fun clientStep :: "editor_msg \<Rightarrow> line list \<Rightarrow> line list" where
  "clientStep (AcceptedEvents es) r = applyEventsToLines r es"
| "clientStep (ResetState st) r = ed_lines st"
| "clientStep (ChopHistoryBeforeGuid g) r = r"

definition replica :: "line list \<Rightarrow> editor_session \<Rightarrow> line list" where
  "replica start s = fold clientStep (se_out s) start"

definition baseGuid :: "editor_state \<Rightarrow> string" where
  "baseGuid st = (if ed_events st = [] then ed_topEventGuid st else ev_priorEventGuid (hd (ed_events st)))"

definition state_ok :: "editor_state \<Rightarrow> bool" where
  "state_ok st \<longleftrightarrow> chained (baseGuid st) (ed_events st) \<and> distinct (baseGuid st # map ev_eventGuid (ed_events st)) \<and>
     ed_topEventGuid st = topGuid (baseGuid st) (ed_events st)"

text \<open>A browser is in step if its lines are the document as it was after the event it was last told of,
  as far as the history still goes back to it.\<close>

definition in_step :: "editor_state \<Rightarrow> string \<Rightarrow> line list \<Rightarrow> bool" where
  "in_step st g r \<longleftrightarrow> (\<forall>k \<le> length (ed_events st). topGuid (baseGuid st) (take k (ed_events st)) = g \<longrightarrow>
     r = applyEventsToLines (ed_lines st) (take k (ed_events st)))"

lemma findSent_Some: "findSent es g n = Some k \<Longrightarrow> k < n \<and> ev_priorEventGuid (es ! k) = g"
  by (induction n) (auto split: if_splits)

lemma findSent_None: "findSent es g n = None \<Longrightarrow> k < n \<Longrightarrow> ev_priorEventGuid (es ! k) \<noteq> g"
  by (induction n) (auto simp: less_Suc_eq split: if_splits)

lemma chained_prior: "chained g es \<Longrightarrow> k < length es \<Longrightarrow> ev_priorEventGuid (es ! k) = topGuid g (take k es)"
proof (induction es arbitrary: g k)
  case (Cons e es)
  then show ?case by (cases k) (auto simp: topGuid_Cons)
qed simp

text \<open>C23. A browser never drifts from the server. Suppose the history of the document is a chain with distinct
  guids ending in the top guid, and a browser is in step: its lines are the document as it was after the
  event it was last told of, if the history still contains that point. When the server notifies it of a
  change, the browser is sent either the missing events or the whole document, and once it has applied
  the message its lines are exactly the server's document and it is recorded to have seen the top event.
  A browser just opened starts that way.\<close>

theorem browser_shows_document:
  assumes "state_ok (getCurrentState slot)" and "in_step (getCurrentState slot) (se_sentEventGuid s) (replica start s)"
  shows "replica start (onStateSlotChanged slot s) = doc slot
    \<and> se_sentEventGuid (onStateSlotChanged slot s) = ed_topEventGuid (getCurrentState slot)
    \<and> ed_lines (fst (doFirstCalc slot s)) = doc slot \<and> se_sentEventGuid (snd (doFirstCalc slot s)) = ed_topEventGuid (getCurrentState slot)"
proof -
  let ?st = "getCurrentState slot" and ?s' = "onStateSlotChanged slot s"
  let ?es = "ed_events ?st" and ?sent = "se_sentEventGuid s"
  have rep: "replica start (setSent g (scheduleMessage m s)) = clientStep m (replica start s)" for g m
    by (simp add: replica_def setSent_def scheduleMessage_def)
  have first: "ed_lines (fst (doFirstCalc slot s)) = doc slot \<and> se_sentEventGuid (snd (doFirstCalc slot s)) = ed_topEventGuid ?st"
    by (simp add: doFirstCalc_def Let_def collapseStateToTopmost_def doc_def setSent_def)
  have "replica start ?s' = doc slot \<and> se_sentEventGuid ?s' = ed_topEventGuid ?st"
  proof (cases "?sent = ed_topEventGuid ?st")
    case True
    with assms have "replica start s = applyEventsToLines (ed_lines ?st) (take (length ?es) ?es)"
      unfolding in_step_def state_ok_def by (metis order_refl take_all)
    with True show ?thesis by (simp add: onStateSlotChanged_def Let_def doc_def)
  next
    case False
    show ?thesis
    proof (cases "findSent ?es ?sent (length ?es)")
      case None
      with False show ?thesis
        by (simp add: onStateSlotChanged_def Let_def rep collapseStateToTopmost_def doc_def) (simp add: setSent_def)
    next
      case (Some k)
      then have k: "k < length ?es" "ev_priorEventGuid (?es ! k) = ?sent" using findSent_Some by blast+
      then have "topGuid (baseGuid ?st) (take k ?es) = ?sent"
        using assms(1) chained_prior[of "baseGuid ?st" ?es k] by (simp add: state_ok_def)
      then have r: "replica start s = applyEventsToLines (ed_lines ?st) (take k ?es)"
        using assms(2) k(1) by (simp add: in_step_def)
      have "applyEventsToLines (replica start s) (drop k ?es) = doc slot"
        unfolding r doc_def by (metis append_take_drop_id applyEventsToLines_append)
      moreover have "ev_eventGuid (last ?es) = ed_topEventGuid ?st"
        using assms(1) k(1) by (auto simp: state_ok_def topGuid_def)
      ultimately show ?thesis using False Some
        by (simp add: onStateSlotChanged_def Let_def rep) (simp add: setSent_def)
    qed
  qed
  with first show ?thesis by simp
qed

theorem browser_shows_document_witness:
  "replica [[]] (onStateSlotChanged (Some demo_state) demo_session) = [''ab'']
   \<and> se_out (onStateSlotChanged (Some demo_state) demo_session) = [AcceptedEvents (ed_events demo_state)]"
proof -
  let ?st = "getCurrentState (Some demo_state)"
  have ok: "state_ok ?st"
    by (simp add: getCurrentState_def state_ok_def baseGuid_def demo_state_def demo_edit_def topGuid_def)
  have step: "in_step ?st (se_sentEventGuid demo_session) (replica [[]] demo_session)"
    unfolding in_step_def
  proof (intro allI impI)
    fix k assume k: "k \<le> length (ed_events ?st)" "topGuid (baseGuid ?st) (take k (ed_events ?st)) = se_sentEventGuid demo_session"
    then have "k = 0"
      by (cases k) (auto simp: getCurrentState_def demo_state_def demo_edit_def demo_session_def topGuid_def baseGuid_def take_Cons' split: if_splits)
    then show "replica [[]] demo_session = applyEventsToLines (ed_lines ?st) (take k (ed_events ?st))"
      by (simp add: replica_def demo_session_def getCurrentState_def demo_state_def applyEventsToLines_def)
  qed
  have "doc (Some demo_state) = [''ab'']"
    by (simp add: doc_def getCurrentState_def demo_state_def demo_edit_def applyEventsToLines_def applyChange_def pySetSlice_def pyIndex_def)
  moreover have "se_out (onStateSlotChanged (Some demo_state) demo_session) = [AcceptedEvents (ed_events demo_state)]"
    by (simp add: onStateSlotChanged_def Let_def getCurrentState_def demo_state_def demo_session_def demo_edit_def setSent_def scheduleMessage_def)
  ultimately show ?thesis using browser_shows_document[OF ok step] by simp
qed

end
