(* ===== verification/Byte_Queue.thy ===== *)
theory Byte_Queue
  imports Prelude
begin

text \<open>
  \<open>BytecountLimitedQueue\<close> (\<open>bytecount_limited_queue.py\<close>): a queue that makes writers wait while more than a
  given number of bytes is pending. The operations are the critical sections of the code; threads are
  explicit: writers that sleep on the condition, writers that have been notified and have to look
  again, readers that have taken a message off the underlying queue and have not yet corrected the byte
  count, and callers of \<open>setMaxBytes\<close> between the assignment, which is not under the lock, and the
  notification. The step relation interleaves them in every order.
\<close>

section \<open>Model\<close>

record 'm BytecountLimitedQueue =
  bq_queue :: "'m list"
  bq_totalBytes :: int
  bq_maxBytes :: "int option"

text \<open>The constructor takes a limit and does not use it.\<close>

definition newBytecountLimitedQueue :: "int option \<Rightarrow> 'm BytecountLimitedQueue" where
  "newBytecountLimitedQueue maxBytes = \<lparr>bq_queue = [], bq_totalBytes = 0, bq_maxBytes = None\<rparr>"

definition pendingCount :: "'m BytecountLimitedQueue \<Rightarrow> nat" where
  "pendingCount q = length (bq_queue q)"

definition isBlocked :: "'m BytecountLimitedQueue \<Rightarrow> bool" where
  "isBlocked q = (case bq_maxBytes q of None \<Rightarrow> False | Some m \<Rightarrow> bq_totalBytes q \<ge> m)"

definition pushMessage :: "('m \<Rightarrow> nat) \<Rightarrow> 'm \<Rightarrow> 'm BytecountLimitedQueue \<Rightarrow> 'm BytecountLimitedQueue" where
  "pushMessage len msg q = q\<lparr>bq_totalBytes := bq_totalBytes q + int (len msg), bq_queue := bq_queue q @ [msg]\<rparr>"

text \<open>One pass through the critical section of \<open>put\<close>: it pushes, goes to sleep on the condition, or raises \<open>Full\<close>.\<close>

datatype 'm put_result = Pushed "'m BytecountLimitedQueue" | Sleeps | Full

definition bqPut :: "('m \<Rightarrow> nat) \<Rightarrow> 'm \<Rightarrow> bool \<Rightarrow> bool \<Rightarrow> 'm BytecountLimitedQueue \<Rightarrow> 'm put_result" where
  "bqPut len msg block allowWriteWhileOverLimit q =
     (if \<not> allowWriteWhileOverLimit \<and> block \<and> isBlocked q then Sleeps
      else if \<not> allowWriteWhileOverLimit \<and> \<not> block \<and> isBlocked q then Full
      else Pushed (pushMessage len msg q))"

text \<open>\<open>get\<close>: first the underlying queue, then the byte count; the second part says whether it notifies.\<close>

definition getTake :: "'m BytecountLimitedQueue \<Rightarrow> ('m \<times> 'm BytecountLimitedQueue) option" where
  "getTake q = (case bq_queue q of [] \<Rightarrow> None | m # ms \<Rightarrow> Some (m, q\<lparr>bq_queue := ms\<rparr>))"

definition getFinish :: "('m \<Rightarrow> nat) \<Rightarrow> 'm \<Rightarrow> 'm BytecountLimitedQueue \<Rightarrow> bool \<times> 'm BytecountLimitedQueue" where
  "getFinish len msg q =
     (let q' = q\<lparr>bq_totalBytes := bq_totalBytes q - int (len msg)\<rparr> in (isBlocked q \<noteq> isBlocked q', q'))"

definition assignMaxBytes :: "int option \<Rightarrow> 'm BytecountLimitedQueue \<Rightarrow> 'm BytecountLimitedQueue" where
  "assignMaxBytes bytecount q = q\<lparr>bq_maxBytes := bytecount\<rparr>"

section \<open>Threads\<close>

record 'm queue_state =
  qs_queue :: "'m BytecountLimitedQueue"
  qs_sleeping :: "'m list"
  qs_notified :: "'m list"
  qs_taken :: "'m list"
  qs_notifying :: nat
  qs_pushed :: "'m list"
  qs_delivered :: "'m list"

definition initial_queue :: "int option \<Rightarrow> 'm queue_state" where
  "initial_queue maxBytes = \<lparr>qs_queue = newBytecountLimitedQueue maxBytes, qs_sleeping = [], qs_notified = [], qs_taken = [],
     qs_notifying = 0, qs_pushed = [], qs_delivered = []\<rparr>"

definition notify_all :: "'m queue_state \<Rightarrow> 'm queue_state" where
  "notify_all s = s\<lparr>qs_notified := qs_notified s @ qs_sleeping s, qs_sleeping := []\<rparr>"

inductive queue_step :: "('m \<Rightarrow> nat) \<Rightarrow> 'm queue_state \<Rightarrow> 'm queue_state \<Rightarrow> bool" for len where
  put_pushes: "bqPut len m block allow (qs_queue s) = Pushed q \<Longrightarrow>
    queue_step len s (s\<lparr>qs_queue := q, qs_pushed := qs_pushed s @ [m]\<rparr>)"
| put_sleeps: "bqPut len m block allow (qs_queue s) = Sleeps \<Longrightarrow>
    queue_step len s (s\<lparr>qs_sleeping := qs_sleeping s @ [m]\<rparr>)"
| put_full: "bqPut len m block allow (qs_queue s) = Full \<Longrightarrow> queue_step len s s"
| wakes_pushes: "qs_notified s = xs @ m # ys \<Longrightarrow> bqPut len m True False (qs_queue s) = Pushed q \<Longrightarrow>
    queue_step len s (s\<lparr>qs_queue := q, qs_notified := xs @ ys, qs_pushed := qs_pushed s @ [m]\<rparr>)"
| wakes_sleeps: "qs_notified s = xs @ m # ys \<Longrightarrow> bqPut len m True False (qs_queue s) = Sleeps \<Longrightarrow>
    queue_step len s (s\<lparr>qs_notified := xs @ ys, qs_sleeping := qs_sleeping s @ [m]\<rparr>)"
| takes: "getTake (qs_queue s) = Some (m, q) \<Longrightarrow>
    queue_step len s (s\<lparr>qs_queue := q, qs_taken := qs_taken s @ [m], qs_delivered := qs_delivered s @ [m]\<rparr>)"
| finishes: "qs_taken s = xs @ m # ys \<Longrightarrow> getFinish len m (qs_queue s) = (notify, q) \<Longrightarrow>
    queue_step len s (let t = s\<lparr>qs_queue := q, qs_taken := xs @ ys\<rparr> in if notify then notify_all t else t)"
| assigns: "queue_step len s (s\<lparr>qs_queue := assignMaxBytes b (qs_queue s), qs_notifying := qs_notifying s + 1\<rparr>)"
| notifies: "qs_notifying s = Suc n \<Longrightarrow> queue_step len s ((notify_all s)\<lparr>qs_notifying := n\<rparr>)"

section \<open>The invariant\<close>

definition accounted :: "('m \<Rightarrow> nat) \<Rightarrow> 'm queue_state \<Rightarrow> bool" where
  "accounted len s \<longleftrightarrow> bq_totalBytes (qs_queue s) = int (sum_list (map len (bq_queue (qs_queue s) @ qs_taken s)))"

definition nobody_forgotten :: "'m queue_state \<Rightarrow> bool" where
  "nobody_forgotten s \<longleftrightarrow> qs_sleeping s = [] \<or> isBlocked (qs_queue s) \<or> qs_notifying s > 0"

definition in_order :: "'m queue_state \<Rightarrow> bool" where
  "in_order s \<longleftrightarrow> qs_pushed s = qs_delivered s @ bq_queue (qs_queue s)"

lemma bqPut_Pushed: "bqPut len m block allow q = Pushed q' \<Longrightarrow> q' = pushMessage len m q"
  by (auto simp: bqPut_def split: if_splits)

lemma bqPut_Sleeps: "bqPut len m block allow q = Sleeps \<Longrightarrow> isBlocked q"
  by (auto simp: bqPut_def split: if_splits)

lemma push_blocked: "isBlocked q \<Longrightarrow> isBlocked (pushMessage len m q)"
  by (auto simp: isBlocked_def pushMessage_def split: option.splits)

lemma step_accounted: "queue_step len s t \<Longrightarrow> accounted len s \<Longrightarrow> accounted len t"
  by (induction rule: queue_step.induct)
    (auto dest!: bqPut_Pushed simp: accounted_def pushMessage_def getTake_def getFinish_def assignMaxBytes_def notify_all_def Let_def
      split: list.splits if_splits)

lemma step_nobody_forgotten: "queue_step len s t \<Longrightarrow> nobody_forgotten s \<Longrightarrow> nobody_forgotten t"
proof (induction rule: queue_step.induct)
  case (takes s m q)
  then show ?case by (auto simp: nobody_forgotten_def getTake_def isBlocked_def split: list.splits option.splits)
next
  case (finishes s xs m ys notify q)
  then show ?case by (auto simp: nobody_forgotten_def getFinish_def notify_all_def Let_def)
qed (auto dest!: bqPut_Pushed bqPut_Sleeps simp: nobody_forgotten_def push_blocked notify_all_def)

lemma step_in_order: "queue_step len s t \<Longrightarrow> in_order s \<Longrightarrow> in_order t"
  by (induction rule: queue_step.induct)
    (auto dest!: bqPut_Pushed simp: in_order_def pushMessage_def getTake_def getFinish_def assignMaxBytes_def notify_all_def Let_def
      split: list.splits if_splits)

text \<open>C22. However writers, readers and changes of the limit interleave, in every state the queue can reach: the
  byte count is the size of what is pending plus what readers have taken and not yet subtracted; no
  writer is forgotten, that is, whenever one sleeps the queue is over its limit or a notification is on
  its way; and messages are delivered in the order they were pushed, none lost, none twice. The limit given
  to the constructor plays no role.\<close>

theorem byte_queue_invariant:
  assumes "(queue_step len)\<^sup>*\<^sup>* (initial_queue maxBytes) s"
  shows "bq_totalBytes (qs_queue s) = int (sum_list (map len (bq_queue (qs_queue s) @ qs_taken s)))
    \<and> (qs_sleeping s \<noteq> [] \<longrightarrow> isBlocked (qs_queue s) \<or> qs_notifying s > 0)
    \<and> qs_pushed s = qs_delivered s @ bq_queue (qs_queue s)"
proof -
  have "accounted len s \<and> nobody_forgotten s \<and> in_order s"
    using assms
  proof (induction rule: rtranclp_induct)
    case base
    show ?case
      by (simp add: accounted_def nobody_forgotten_def in_order_def initial_queue_def newBytecountLimitedQueue_def)
  next
    case (step s t)
    then show ?case by (blast intro: step_accounted step_nobody_forgotten step_in_order)
  qed
  then show ?thesis by (auto simp: accounted_def nobody_forgotten_def in_order_def)
qed

theorem byte_queue_invariant_witness:
  "\<exists>s. (queue_step length)\<^sup>*\<^sup>* (initial_queue (Some 1)) s \<and> qs_pushed s = [''abc''] \<and> bq_totalBytes (qs_queue s) = 3
     \<and> qs_pushed s = qs_delivered s @ bq_queue (qs_queue s)"
proof -
  let ?i = "initial_queue (Some 1) :: string queue_state"
  let ?s = "?i\<lparr>qs_queue := pushMessage length ''abc'' (qs_queue ?i), qs_pushed := qs_pushed ?i @ [''abc'']\<rparr>"
  have "queue_step length ?i ?s"
    by (rule queue_step.put_pushes[where block = True and allow = False])
      (simp add: bqPut_def initial_queue_def newBytecountLimitedQueue_def isBlocked_def)
  then have r: "(queue_step length)\<^sup>*\<^sup>* ?i ?s" by simp
  have "qs_pushed ?s = [''abc'']" "bq_totalBytes (qs_queue ?s) = 3"
    by (simp_all add: initial_queue_def newBytecountLimitedQueue_def pushMessage_def)
  with r byte_queue_invariant[OF r] show ?thesis by blast
qed

end
