(* ===== verification/Client_Transaction.thy ===== *)
theory Client_Transaction
  imports Server_State
begin

text \<open>
  Committing a transaction from a client (\<open>database_connection.py\<close>, \<open>DatabaseConnection._createTransaction\<close> and
  the fate of its callback). A large transaction goes to the server in pieces, which the server's
  \<open>handleTransactionData\<close> puts together again; the callback is called when the result arrives or the
  connection goes down.

  Iterating over a Python set gives its elements in some order: the sets of a transaction are given here
  as lists. \<open>computePrerequisites\<close> of the code builds a dictionary, drops it and returns an empty one, so
  the prerequisites are empty. A callback is identified by a number and calling it is recorded.
\<close>

section \<open>Model: splitting a transaction\<close>

definition MAX_KEYS :: nat where
  "MAX_KEYS = 10000"

definition MAX_SET_ENTRIES :: nat where
  "MAX_SET_ENTRIES = 100000"

text \<open>Each loop returns the pieces it sends and what is left for the final message.\<close>

fun writeLoop :: "nat \<Rightarrow> ('k \<times> 'v) list \<Rightarrow> ('k \<times> 'v) list \<Rightarrow> ('k \<times> 'v) list list \<times> ('k \<times> 'v) list" where
  "writeLoop lim out [] = ([], out)"
| "writeLoop lim out ((k, v) # kvs) =
     (let out' = AList.update k v out in
      if length out' > lim then (case writeLoop lim [] kvs of (cs, rest) \<Rightarrow> (out' # cs, rest))
      else writeLoop lim out' kvs)"

fun setLoop :: "nat \<Rightarrow> nat \<Rightarrow> ('k \<times> 'v list) list \<Rightarrow> nat \<Rightarrow> ('k \<times> 'v list) list \<Rightarrow> ('k \<times> 'v list) list list \<times> ('k \<times> 'v list) list" where
  "setLoop lim limCt out ct [] = ([], out)"
| "setLoop lim limCt out ct ((k, v) # kvs) =
     (let out' = AList.update k v out; ct' = ct + length v in
      if length out' > lim \<or> ct' > limCt then (case setLoop lim limCt [] 0 kvs of (cs, rest) \<Rightarrow> (out' # cs, rest))
      else setLoop lim limCt out' ct' kvs)"

function versionLoop :: "nat \<Rightarrow> 'a list \<Rightarrow> 'a list list \<times> 'a list" where
  "versionLoop lim ks =
     (if lim > 0 \<and> length ks > lim then (case versionLoop lim (drop lim ks) of (cs, rest) \<Rightarrow> (take lim ks # cs, rest))
      else ([], ks))"
  by pat_completeness auto

termination versionLoop
  by (relation "measure (\<lambda>(lim, ks). length ks)") auto

declare versionLoop.simps [simp del]

definition emptyData :: "int \<Rightarrow> transaction_data" where
  "emptyData guid = \<lparr>tx_writes = [], tx_set_adds = [], tx_set_removes = [], tx_key_versions = [], tx_index_versions = [],
     tx_guid = guid, tx_prerequisites = []\<rparr>"

definition transactionMessages :: "write_dict \<Rightarrow> (IndexId \<times> ObjectId list) list \<Rightarrow> (IndexId \<times> ObjectId list) list
    \<Rightarrow> ObjectFieldId list \<Rightarrow> IndexId list \<Rightarrow> int \<Rightarrow> int \<Rightarrow> bool \<Rightarrow> ClientToServer list" where
  "transactionMessages key_value set_adds set_removes key_versions index_versions as_of guid nolog =
     (let (ws, out_writes) = writeLoop MAX_KEYS [] key_value;
          (as, out_set_adds) = setLoop MAX_KEYS MAX_SET_ENTRIES [] 0 set_adds;
          (rs, out_set_removes) = setLoop MAX_KEYS MAX_SET_ENTRIES [] 0 set_removes;
          (ks, out_keys) = versionLoop MAX_KEYS key_versions;
          (xs, out_indices) = versionLoop MAX_KEYS index_versions;
          d = emptyData guid
      in concat (map (\<lambda>w. [TransactionData (d\<lparr>tx_writes := w\<rparr>), Heartbeat]) ws)
       @ concat (map (\<lambda>a. [TransactionData (d\<lparr>tx_set_adds := a\<rparr>), Heartbeat]) as)
       @ concat (map (\<lambda>r. [TransactionData (d\<lparr>tx_set_removes := r\<rparr>), Heartbeat]) rs)
       @ concat (map (\<lambda>k. [TransactionData (d\<lparr>tx_key_versions := k\<rparr>), Heartbeat]) ks)
       @ map (\<lambda>x. TransactionData (d\<lparr>tx_index_versions := x\<rparr>)) xs
       @ [TransactionData (d\<lparr>tx_writes := out_writes, tx_set_adds := out_set_adds, tx_set_removes := out_set_removes,
            tx_key_versions := out_keys, tx_index_versions := out_indices\<rparr>),
          CompleteTransaction as_of guid nolog])"

section \<open>Model: the connection\<close>

datatype TransactionResult = Success | RevisionConflict | ServerException | Disconnected

record client_conn =
  dc_next_identity :: int
  dc_disconnected :: bool
  dc_transaction_callbacks :: "int \<rightharpoonup> nat"
  dc_sent :: "ClientToServer list"
  dc_called :: "(nat \<times> TransactionResult) list"

definition createTransaction :: "write_dict \<Rightarrow> (IndexId \<times> ObjectId list) list \<Rightarrow> (IndexId \<times> ObjectId list) list
    \<Rightarrow> ObjectFieldId list \<Rightarrow> IndexId list \<Rightarrow> int \<Rightarrow> nat \<Rightarrow> bool \<Rightarrow> client_conn \<Rightarrow> client_conn" where
  "createTransaction key_value set_adds set_removes key_versions index_versions as_of callback nolog c =
     (let guid = dc_next_identity c; c = c\<lparr>dc_next_identity := guid + 1\<rparr> in
      if dc_disconnected c then c\<lparr>dc_called := dc_called c @ [(callback, Disconnected)]\<rparr>
      else c\<lparr>dc_transaction_callbacks := (dc_transaction_callbacks c)(guid \<mapsto> callback),
             dc_sent := dc_sent c @ transactionMessages key_value set_adds set_removes key_versions index_versions as_of guid nolog\<rparr>)"

text \<open>A result for an unknown transaction raises inside the \<open>try\<close> and is logged.\<close>

definition onTransactionResult :: "int \<Rightarrow> bool \<Rightarrow> bool \<Rightarrow> client_conn \<Rightarrow> client_conn" where
  "onTransactionResult guid success isException c =
     (case dc_transaction_callbacks c guid of
        None \<Rightarrow> c
      | Some callback \<Rightarrow>
          c\<lparr>dc_transaction_callbacks := (dc_transaction_callbacks c)(guid := None),
            dc_called := dc_called c @ [(callback, if success then Success else if \<not> isException then RevisionConflict else ServerException)]\<rparr>)"

text \<open>\<open>_onDisconnected\<close>, the part about transactions; \<open>order\<close> is the order of the dictionary's values.\<close>

definition onDisconnected :: "nat list \<Rightarrow> client_conn \<Rightarrow> client_conn" where
  "onDisconnected order c = c\<lparr>dc_disconnected := True, dc_called := dc_called c @ map (\<lambda>q. (q, Disconnected)) order,
     dc_transaction_callbacks := Map.empty\<rparr>"

section \<open>The pieces\<close>

lemma update_fresh_append: "k \<notin> fst ` set d \<Longrightarrow> AList.update k v d = d @ [(k, v)]"
  by (induction d) auto

lemma writeLoop_pieces:
  "dict_ok (out @ kvs) \<Longrightarrow> length out \<le> lim \<Longrightarrow> writeLoop lim out kvs = (cs, rest) \<Longrightarrow>
   concat cs @ rest = out @ kvs \<and> (\<forall>c \<in> set (rest # cs). length c \<le> Suc lim)"
proof (induction kvs arbitrary: out cs)
  case (Cons kv kvs)
  obtain k v where kv: "kv = (k, v)" by fastforce
  have upd: "AList.update k v out = out @ [(k, v)]" using Cons.prems(1) kv by (intro update_fresh_append) auto
  show ?case
  proof (cases "length (out @ [(k, v)]) > lim")
    case True
    then obtain cs' where cs: "writeLoop lim [] kvs = (cs', rest)" "cs = (out @ [(k, v)]) # cs'"
      using Cons.prems(3) by (auto simp: kv upd Let_def split: prod.splits)
    have "dict_ok ([] @ kvs)" "length ([] :: ('a \<times> 'b) list) \<le> lim" using Cons.prems(1) by simp_all
    from Cons.IH[OF this cs(1)] cs Cons.prems(2) show ?thesis by (simp add: kv)
  next
    case False
    then have rec: "writeLoop lim (out @ [(k, v)]) kvs = (cs, rest)" using Cons.prems(3) by (simp add: kv upd Let_def)
    have "dict_ok ((out @ [(k, v)]) @ kvs)" "length (out @ [(k, v)]) \<le> lim" using Cons.prems(1) kv False by simp_all
    from Cons.IH[OF this rec] show ?thesis by (simp add: kv)
  qed
qed auto

definition entries :: "('k \<times> 'v list) list \<Rightarrow> nat" where
  "entries d = sum_list (map (\<lambda>(k, v). length v) d)"

lemma entries_append [simp]: "entries (d @ e) = entries d + entries e" "entries [] = 0" "entries [(k, v)] = length v"
  by (simp_all add: entries_def)

text \<open>A piece is sent as soon as it is over a limit, so all of it but its last entry is within both.\<close>

definition piece_ok :: "nat \<Rightarrow> nat \<Rightarrow> ('k \<times> 'v list) list \<Rightarrow> bool" where
  "piece_ok lim limCt d \<longleftrightarrow> length d \<le> Suc lim \<and> entries (butlast d) \<le> limCt"

lemma entries_butlast: "entries (butlast d) \<le> entries d"
  by (cases d rule: rev_cases) (auto simp: entries_def)

lemma setLoop_pieces:
  "dict_ok (out @ kvs) \<Longrightarrow> length out \<le> lim \<Longrightarrow> ct = entries out \<Longrightarrow> ct \<le> limCt \<Longrightarrow> setLoop lim limCt out ct kvs = (cs, rest) \<Longrightarrow>
   concat cs @ rest = out @ kvs \<and> (\<forall>c \<in> set (rest # cs). piece_ok lim limCt c)"
proof (induction kvs arbitrary: out ct cs)
  case Nil
  then show ?case using entries_butlast[of out] by (auto simp: piece_ok_def)
next
  case (Cons kv kvs)
  obtain k v where kv: "kv = (k, v)" by fastforce
  have upd: "AList.update k v out = out @ [(k, v)]" using Cons.prems(1) kv by (intro update_fresh_append) auto
  show ?case
  proof (cases "length (out @ [(k, v)]) > lim \<or> ct + length v > limCt")
    case True
    then obtain cs' where cs: "setLoop lim limCt [] 0 kvs = (cs', rest)" "cs = (out @ [(k, v)]) # cs'"
      using Cons.prems(5) by (auto simp: kv upd Let_def split: prod.splits)
    have "dict_ok ([] @ kvs)" using Cons.prems(1) by simp
    from Cons.IH[OF this _ _ _ cs(1)] cs Cons.prems(2-4) show ?thesis by (simp add: kv piece_ok_def)
  next
    case False
    then have rec: "setLoop lim limCt (out @ [(k, v)]) (ct + length v) kvs = (cs, rest)"
      using Cons.prems(5) by (simp add: kv upd Let_def)
    have "dict_ok ((out @ [(k, v)]) @ kvs)" using Cons.prems(1) kv by simp
    from Cons.IH[OF this _ _ _ rec] Cons.prems(2-4) False show ?thesis by (simp add: kv)
  qed
qed

lemma versionLoop_pieces:
  "0 < lim \<Longrightarrow> versionLoop lim ks = (cs, rest) \<Longrightarrow> concat cs @ rest = ks \<and> (\<forall>c \<in> set (rest # cs). length c \<le> lim)"
proof (induction lim ks arbitrary: cs rule: versionLoop.induct)
  case (1 lim ks)
  show ?case
  proof (cases "length ks > lim")
    case True
    then obtain cs' where cs: "versionLoop lim (drop lim ks) = (cs', rest)" "cs = take lim ks # cs'"
      using 1(2,3) by (subst (asm) (2) versionLoop.simps) (auto split: prod.splits)
    from 1(1)[OF _ 1(2) cs(1)] True 1(2) cs show ?thesis by simp
  next
    case False
    then show ?thesis using 1(3) by (subst (asm) versionLoop.simps) auto
  qed
qed

section \<open>Putting the pieces together\<close>

text \<open>What the server's channel does with the messages; only \<open>TransactionData\<close> touches pending transactions.\<close>

definition receiveData :: "ClientToServer list \<Rightarrow> ConnectedChannel \<Rightarrow> ConnectedChannel" where
  "receiveData msgs cc = fold (\<lambda>m cc. case m of TransactionData d \<Rightarrow> handleTransactionData d cc | _ \<Rightarrow> cc) msgs cc"

definition dataOf :: "ClientToServer list \<Rightarrow> transaction_data list" where
  "dataOf msgs = concat (map (\<lambda>m. case m of TransactionData d \<Rightarrow> [d] | _ \<Rightarrow> []) msgs)"

lemma dataOf_simps [simp]:
  "dataOf [] = []" "dataOf (TransactionData d # ms) = d # dataOf ms" "dataOf (Heartbeat # ms) = dataOf ms"
  "dataOf (CompleteTransaction a g n # ms) = dataOf ms" "dataOf (xs @ ys) = dataOf xs @ dataOf ys"
  by (simp_all add: dataOf_def)

lemma dataOf_pairs: "dataOf (concat (map (\<lambda>x. [TransactionData (f x), Heartbeat]) xs)) = map f xs"
  by (induction xs) simp_all

lemma dataOf_map: "dataOf (map (\<lambda>x. TransactionData (f x)) xs) = map f xs"
  by (induction xs) simp_all

lemma receiveData_data: "receiveData msgs cc = fold handleTransactionData (dataOf msgs) cc"
  unfolding receiveData_def
proof (induction msgs arbitrary: cc)
  case (Cons m msgs)
  then show ?case by (cases m) (simp_all add: dataOf_def)
qed simp

lemma fold_handle:
  "\<forall>d \<in> set ds. tx_guid d = g \<Longrightarrow> cc_pendingTransactions cc g = Some p \<Longrightarrow>
   fold handleTransactionData ds cc = cc\<lparr>cc_pendingTransactions := (cc_pendingTransactions cc)(g \<mapsto> fold accumulate ds p)\<rparr>"
proof (induction ds arbitrary: cc p)
  case Nil
  then show ?case by (cases cc) (auto simp: fun_upd_idem)
next
  case (Cons d ds)
  let ?cc = "cc\<lparr>cc_pendingTransactions := (cc_pendingTransactions cc)(g \<mapsto> accumulate d p)\<rparr>"
  have h: "handleTransactionData d cc = ?cc" using Cons.prems by (simp add: handleTransactionData_def Let_def)
  have "fold handleTransactionData ds ?cc =
      ?cc\<lparr>cc_pendingTransactions := (cc_pendingTransactions ?cc)(g \<mapsto> fold accumulate ds (accumulate d p))\<rparr>"
    by (rule Cons.IH) (use Cons.prems in simp_all)
  also have "\<dots> = cc\<lparr>cc_pendingTransactions := (cc_pendingTransactions cc)(g \<mapsto> fold accumulate ds (accumulate d p))\<rparr>"
    by (cases cc) (simp del: fun_upd_apply)
  finally show ?case by (simp only: fold_simps h)
qed

lemma fold_handle_new:
  assumes "\<forall>d \<in> set ds. tx_guid d = g" and "cc_pendingTransactions cc g = None" and "ds \<noteq> []"
  shows "extractTransactionData g (fold handleTransactionData ds cc) = (Inr (fold accumulate ds emptyPending), cc)"
proof -
  obtain d ds' where ds: "ds = d # ds'" using assms(3) by (cases ds) auto
  let ?cc = "cc\<lparr>cc_pendingTransactions := (cc_pendingTransactions cc)(g \<mapsto> accumulate d emptyPending)\<rparr>"
  have "handleTransactionData d cc = ?cc" using assms ds by (simp add: handleTransactionData_def Let_def)
  then have "fold handleTransactionData ds cc = cc\<lparr>cc_pendingTransactions := (cc_pendingTransactions cc)(g \<mapsto> fold accumulate ds emptyPending)\<rparr>"
    using fold_handle[of ds' g ?cc "accumulate d emptyPending"] assms(1) ds by simp
  then show ?thesis using assms(2) by (cases cc) (auto simp: extractTransactionData_def fun_upd_idem)
qed

lemma nonemptySets_append: "nonemptySets (d @ e) = nonemptySets d @ nonemptySets e" "nonemptySets [] = []"
  by (simp_all add: nonemptySets_def)

lemma accumulate_writes:
  "dict_ok (pt_writes p @ concat ws) \<Longrightarrow>
   fold accumulate (map (\<lambda>w. (emptyData g)\<lparr>tx_writes := w\<rparr>) ws) p = p\<lparr>pt_writes := pt_writes p @ concat ws\<rparr>"
proof (induction ws arbitrary: p)
  case (Cons w ws)
  have "dict_update (pt_writes p) w = pt_writes p @ w" using Cons.prems by (intro dict_update_append) auto
  then have "accumulate ((emptyData g)\<lparr>tx_writes := w\<rparr>) p = p\<lparr>pt_writes := pt_writes p @ w\<rparr>"
    by (simp add: accumulate_def emptyData_def nonemptySets_append)
  with Cons.IH[of "p\<lparr>pt_writes := pt_writes p @ w\<rparr>"] Cons.prems show ?case by simp
qed simp

lemma accumulate_adds:
  "dict_ok (pt_set_adds p @ nonemptySets (concat as)) \<Longrightarrow>
   fold accumulate (map (\<lambda>a. (emptyData g)\<lparr>tx_set_adds := a\<rparr>) as) p = p\<lparr>pt_set_adds := pt_set_adds p @ nonemptySets (concat as)\<rparr>"
proof (induction as arbitrary: p)
  case (Cons a as)
  have "dict_update (pt_set_adds p) (nonemptySets a) = pt_set_adds p @ nonemptySets a"
    using Cons.prems by (intro dict_update_append) (auto simp: nonemptySets_append)
  then have "accumulate ((emptyData g)\<lparr>tx_set_adds := a\<rparr>) p = p\<lparr>pt_set_adds := pt_set_adds p @ nonemptySets a\<rparr>"
    by (simp add: accumulate_def emptyData_def nonemptySets_append)
  with Cons.IH[of "p\<lparr>pt_set_adds := pt_set_adds p @ nonemptySets a\<rparr>"] Cons.prems show ?case by (simp add: nonemptySets_append)
qed (simp add: nonemptySets_append)

lemma accumulate_removes:
  "dict_ok (pt_set_removes p @ nonemptySets (concat as)) \<Longrightarrow>
   fold accumulate (map (\<lambda>a. (emptyData g)\<lparr>tx_set_removes := a\<rparr>) as) p = p\<lparr>pt_set_removes := pt_set_removes p @ nonemptySets (concat as)\<rparr>"
proof (induction as arbitrary: p)
  case (Cons a as)
  have "dict_update (pt_set_removes p) (nonemptySets a) = pt_set_removes p @ nonemptySets a"
    using Cons.prems by (intro dict_update_append) (auto simp: nonemptySets_append)
  then have "accumulate ((emptyData g)\<lparr>tx_set_removes := a\<rparr>) p = p\<lparr>pt_set_removes := pt_set_removes p @ nonemptySets a\<rparr>"
    by (simp add: accumulate_def emptyData_def nonemptySets_append)
  with Cons.IH[of "p\<lparr>pt_set_removes := pt_set_removes p @ nonemptySets a\<rparr>"] Cons.prems show ?case by (simp add: nonemptySets_append)
qed (simp add: nonemptySets_append)

lemma accumulate_versions:
  "fold accumulate (map (\<lambda>k. (emptyData g)\<lparr>tx_key_versions := k\<rparr>) ks) p = p\<lparr>pt_key_versions := pt_key_versions p \<union> set (concat ks)\<rparr>"
  "fold accumulate (map (\<lambda>x. (emptyData g)\<lparr>tx_index_versions := x\<rparr>) xs) p = p\<lparr>pt_index_versions := pt_index_versions p \<union> set (concat xs)\<rparr>"
  by (induction ks arbitrary: p) (simp_all add: accumulate_def emptyData_def nonemptySets_append Un_assoc,
      induction xs arbitrary: p, simp_all add: accumulate_def emptyData_def nonemptySets_append Un_assoc)

lemma transactionMessages_data:
  assumes "writeLoop MAX_KEYS [] kv = (ws, out_writes)" and "setLoop MAX_KEYS MAX_SET_ENTRIES [] 0 adds = (as, out_adds)"
    and "setLoop MAX_KEYS MAX_SET_ENTRIES [] 0 removes = (rs, out_removes)"
    and "versionLoop MAX_KEYS keys = (ks, out_keys)" and "versionLoop MAX_KEYS indices = (xs, out_indices)"
  shows "dataOf (transactionMessages kv adds removes keys indices as_of g nolog) =
    map (\<lambda>w. (emptyData g)\<lparr>tx_writes := w\<rparr>) ws @ map (\<lambda>a. (emptyData g)\<lparr>tx_set_adds := a\<rparr>) as
    @ map (\<lambda>r. (emptyData g)\<lparr>tx_set_removes := r\<rparr>) rs @ map (\<lambda>k. (emptyData g)\<lparr>tx_key_versions := k\<rparr>) ks
    @ map (\<lambda>x. (emptyData g)\<lparr>tx_index_versions := x\<rparr>) xs
    @ [(emptyData g)\<lparr>tx_writes := out_writes, tx_set_adds := out_adds, tx_set_removes := out_removes,
         tx_key_versions := out_keys, tx_index_versions := out_indices\<rparr>]"
  by (simp add: transactionMessages_def assms Let_def dataOf_pairs dataOf_map)

lemma accumulate_all:
  assumes "dict_ok (concat ws @ out_writes)" and "dict_ok (concat as @ out_adds)" and "dict_ok (concat rs @ out_removes)"
  shows "fold accumulate (map (\<lambda>w. (emptyData g)\<lparr>tx_writes := w\<rparr>) ws @ map (\<lambda>a. (emptyData g)\<lparr>tx_set_adds := a\<rparr>) as
    @ map (\<lambda>r. (emptyData g)\<lparr>tx_set_removes := r\<rparr>) rs @ map (\<lambda>k. (emptyData g)\<lparr>tx_key_versions := k\<rparr>) ks
    @ map (\<lambda>x. (emptyData g)\<lparr>tx_index_versions := x\<rparr>) xs
    @ [(emptyData g)\<lparr>tx_writes := out_writes, tx_set_adds := out_adds, tx_set_removes := out_removes,
         tx_key_versions := out_keys, tx_index_versions := out_indices\<rparr>]) emptyPending =
    \<lparr>pt_writes = concat ws @ out_writes, pt_prerequisites = [], pt_set_adds = nonemptySets (concat as @ out_adds),
     pt_set_removes = nonemptySets (concat rs @ out_removes), pt_key_versions = set (concat ks @ out_keys),
     pt_index_versions = set (concat xs @ out_indices)\<rparr>"
proof -
  have ok: "dict_ok (nonemptySets (concat as) @ nonemptySets out_adds)" "dict_ok (nonemptySets (concat rs) @ nonemptySets out_removes)"
    using dict_ok_nonemptySets[OF assms(2)] dict_ok_nonemptySets[OF assms(3)] by (simp_all only: nonemptySets_append)
  then have ok': "dict_ok (nonemptySets (concat as))" "dict_ok (nonemptySets (concat rs))" by simp_all
  show ?thesis
    using assms(1) ok ok'
    by (simp add: accumulate_writes accumulate_adds accumulate_removes accumulate_versions emptyPending_def)
      (simp add: accumulate_def emptyData_def dict_update_append nonemptySets_append)
qed

text \<open>C18. Splitting a transaction and putting it together again loses nothing. Whatever its size, after the
  server's channel has received the messages of a transaction whose guid it is not yet collecting, the
  transaction it hands to the commit is the one the client had: the same writes in the same order, the
  same additions to and removals from index sets except empty ones, the same keys and indices to check;
  the channel is left as it was. The request to commit is the last message and is sent once.\<close>

theorem transaction_pieces_round_trip:
  assumes "dict_ok kv" and "dict_ok adds" and "dict_ok removes" and "cc_pendingTransactions cc g = None"
  shows "extractTransactionData g (receiveData (transactionMessages kv adds removes keys indices as_of g nolog) cc) =
      (Inr \<lparr>pt_writes = kv, pt_prerequisites = [], pt_set_adds = nonemptySets adds, pt_set_removes = nonemptySets removes,
            pt_key_versions = set keys, pt_index_versions = set indices\<rparr>, cc)
    \<and> (\<exists>ms. transactionMessages kv adds removes keys indices as_of g nolog = ms @ [CompleteTransaction as_of g nolog]
        \<and> CompleteTransaction as_of g nolog \<notin> set ms)"
proof -
  obtain ws out_writes where w: "writeLoop MAX_KEYS [] kv = (ws, out_writes)" by fastforce
  obtain as out_adds where a: "setLoop MAX_KEYS MAX_SET_ENTRIES [] 0 adds = (as, out_adds)" by fastforce
  obtain rs out_removes where r: "setLoop MAX_KEYS MAX_SET_ENTRIES [] 0 removes = (rs, out_removes)" by fastforce
  obtain ks out_keys where k: "versionLoop MAX_KEYS keys = (ks, out_keys)" by fastforce
  obtain xs out_indices where x: "versionLoop MAX_KEYS indices = (xs, out_indices)" by fastforce
  have lim: "0 < MAX_KEYS" by (simp add: MAX_KEYS_def)
  have cat: "concat ws @ out_writes = kv" "concat as @ out_adds = adds" "concat rs @ out_removes = removes"
    "concat ks @ out_keys = keys" "concat xs @ out_indices = indices"
    using writeLoop_pieces[OF _ _ w] setLoop_pieces[OF _ _ _ _ a] setLoop_pieces[OF _ _ _ _ r]
      versionLoop_pieces[OF lim k] versionLoop_pieces[OF lim x] assms by simp_all
  let ?msgs = "transactionMessages kv adds removes keys indices as_of g nolog"
  note d = transactionMessages_data[OF w a r k x, of as_of g nolog]
  have "extractTransactionData g (receiveData ?msgs cc) = (Inr (fold accumulate (dataOf ?msgs) emptyPending), cc)"
    unfolding receiveData_data by (rule fold_handle_new) (use assms(4) in \<open>auto simp: d emptyData_def\<close>)
  also have "fold accumulate (dataOf ?msgs) emptyPending = \<lparr>pt_writes = kv, pt_prerequisites = [], pt_set_adds = nonemptySets adds,
      pt_set_removes = nonemptySets removes, pt_key_versions = set keys, pt_index_versions = set indices\<rparr>"
    unfolding d by (subst accumulate_all) (simp_all only: cat assms)
  finally show ?thesis by (auto simp: transactionMessages_def w a r k x Let_def)
qed

theorem transaction_pieces_round_trip_witness:
  "fst (extractTransactionData 7 (receiveData (transactionMessages [] [(IndexId 1 [], [5, 6]), (IndexId 2 [], [])] [] [] [IndexId 1 []] 3 7 False)
      (newConnectedChannel 0 0 1)))
   = Inr \<lparr>pt_writes = [], pt_prerequisites = [], pt_set_adds = [(IndexId 1 [], {5, 6})], pt_set_removes = [],
          pt_key_versions = {}, pt_index_versions = {IndexId 1 []}\<rparr>"
  using transaction_pieces_round_trip[of "[]" "[(IndexId 1 [], [5, 6]), (IndexId 2 [], [])]" "[]" "newConnectedChannel 0 0 1" 7 "[]" "[IndexId 1 []]" 3 False]
  by (simp add: newConnectedChannel_def nonemptySets_def)

text \<open>C27. No message grows without bound. Every piece a transaction is sent in carries at most 10001 writes,
  10000 keys and 10000 indices to check, and at most 10001 index sets to add to and to remove from; of the
  members of those sets, all but the last set's are at most 100000.\<close>

theorem transaction_messages_bounded:
  assumes "dict_ok kv" and "dict_ok adds" and "dict_ok removes"
    and "TransactionData d \<in> set (transactionMessages kv adds removes keys indices as_of g nolog)"
  shows "length (tx_writes d) \<le> 10001 \<and> length (tx_key_versions d) \<le> 10000 \<and> length (tx_index_versions d) \<le> 10000
    \<and> length (tx_set_adds d) \<le> 10001 \<and> entries (butlast (tx_set_adds d)) \<le> 100000
    \<and> length (tx_set_removes d) \<le> 10001 \<and> entries (butlast (tx_set_removes d)) \<le> 100000"
proof -
  obtain ws out_writes where w: "writeLoop MAX_KEYS [] kv = (ws, out_writes)" by fastforce
  obtain as out_adds where a: "setLoop MAX_KEYS MAX_SET_ENTRIES [] 0 adds = (as, out_adds)" by fastforce
  obtain rs out_removes where r: "setLoop MAX_KEYS MAX_SET_ENTRIES [] 0 removes = (rs, out_removes)" by fastforce
  obtain ks out_keys where k: "versionLoop MAX_KEYS keys = (ks, out_keys)" by fastforce
  obtain xs out_indices where x: "versionLoop MAX_KEYS indices = (xs, out_indices)" by fastforce
  have lim: "0 < MAX_KEYS" by (simp add: MAX_KEYS_def)
  have b: "\<forall>c \<in> set (out_writes # ws). length c \<le> 10001" "\<forall>c \<in> set (out_adds # as). piece_ok 10000 100000 c"
    "\<forall>c \<in> set (out_removes # rs). piece_ok 10000 100000 c" "\<forall>c \<in> set (out_keys # ks). length c \<le> 10000"
    "\<forall>c \<in> set (out_indices # xs). length c \<le> 10000"
    using writeLoop_pieces[OF _ _ w] setLoop_pieces[OF _ _ _ _ a] setLoop_pieces[OF _ _ _ _ r]
      versionLoop_pieces[OF lim k] versionLoop_pieces[OF lim x] assms(1-3) by (simp_all add: MAX_KEYS_def MAX_SET_ENTRIES_def)
  have "d \<in> set (dataOf (transactionMessages kv adds removes keys indices as_of g nolog))"
    using assms(4) by (force simp: dataOf_def)
  then show ?thesis using b unfolding transactionMessages_data[OF w a r k x] by (auto simp: piece_ok_def emptyData_def)
qed

theorem transaction_messages_bounded_witness:
  "length (tx_key_versions (emptyData 7)) \<le> 10000"
proof -
  have "TransactionData (emptyData 7) \<in> set (transactionMessages [] [] [] [] [] 3 7 False)"
    by (simp add: transactionMessages_def versionLoop.simps Let_def emptyData_def)
  from transaction_messages_bounded[OF _ _ _ this] show ?thesis by simp
qed

section \<open>The fate of the callbacks\<close>

definition newClient :: "int \<Rightarrow> client_conn" where
  "newClient root = \<lparr>dc_next_identity = root, dc_disconnected = False, dc_transaction_callbacks = Map.empty, dc_sent = [], dc_called = []\<rparr>"

text \<open>What can happen to a connection, in any order; \<open>client_run S c\<close> lists the callbacks submitted so far.\<close>

inductive client_run :: "nat list \<Rightarrow> client_conn \<Rightarrow> bool" where
  start: "client_run [] (newClient root)"
| submit: "client_run S c \<Longrightarrow> q \<notin> set S \<Longrightarrow> client_run (S @ [q]) (createTransaction kv adds removes keys indices as_of q nolog c)"
| answered: "client_run S c \<Longrightarrow> client_run S (onTransactionResult g success isException c)"
| lost: "client_run S c \<Longrightarrow> distinct gs \<Longrightarrow> set gs = dom (dc_transaction_callbacks c) \<Longrightarrow>
    client_run S (onDisconnected (map (the \<circ> dc_transaction_callbacks c) gs) c)"

definition called :: "client_conn \<Rightarrow> nat list" where
  "called c = map fst (dc_called c)"

definition client_ok :: "nat list \<Rightarrow> client_conn \<Rightarrow> bool" where
  "client_ok S c \<longleftrightarrow> distinct (called c) \<and> set S = set (called c) \<union> ran (dc_transaction_callbacks c) \<and>
     set (called c) \<inter> ran (dc_transaction_callbacks c) = {} \<and> inj_on (dc_transaction_callbacks c) (dom (dc_transaction_callbacks c)) \<and>
     (\<forall>g \<in> dom (dc_transaction_callbacks c). g < dc_next_identity c) \<and>
     (dc_disconnected c \<longrightarrow> dc_transaction_callbacks c = Map.empty)"

lemma client_ok_submit:
  assumes "client_ok S c" and "q \<notin> set S"
  shows "client_ok (S @ [q]) (createTransaction kv adds removes keys indices as_of q nolog c)"
proof (cases "dc_disconnected c")
  case True
  with assms show ?thesis by (auto simp: client_ok_def createTransaction_def Let_def called_def)
next
  case False
  let ?m = "dc_transaction_callbacks c" and ?g = "dc_next_identity c"
  have new: "?m ?g = None" using assms(1) by (force simp: client_ok_def)
  then have ran: "ran (?m(?g \<mapsto> q)) = insert q (ran ?m)" by simp
  have "inj_on (?m(?g \<mapsto> q)) (dom (?m(?g \<mapsto> q)))"
    using assms new by (auto simp: client_ok_def inj_on_def ran_def)
  moreover have "\<forall>g \<in> dom (?m(?g \<mapsto> q)). g < ?g + 1"
  proof
    fix g assume "g \<in> dom (?m(?g \<mapsto> q))"
    then have "g = ?g \<or> g \<in> dom ?m" by auto
    moreover have "g < ?g" if "g \<in> dom ?m" using assms(1) that unfolding client_ok_def by blast
    ultimately show "g < ?g + 1" by linarith
  qed
  ultimately show ?thesis using False assms ran
    unfolding client_ok_def createTransaction_def Let_def called_def by simp
qed

lemma client_ok_answered:
  assumes "client_ok S c"
  shows "client_ok S (onTransactionResult g success isException c)"
proof (cases "dc_transaction_callbacks c g")
  case None
  with assms show ?thesis by (simp add: onTransactionResult_def)
next
  case (Some q)
  let ?m = "dc_transaction_callbacks c"
  have inj: "inj_on ?m (dom ?m)" using assms by (simp add: client_ok_def)
  have "ran (?m(g := None)) = ran ?m - {q}"
  proof (rule set_eqI)
    fix x show "x \<in> ran (?m(g := None)) \<longleftrightarrow> x \<in> ran ?m - {q}"
      using Some inj by (auto simp: ran_def inj_on_def) (metis domI, metis option.inject)
  qed
  moreover have "q \<in> ran ?m" using Some by (auto simp: ran_def)
  moreover have "inj_on (?m(g := None)) (dom (?m(g := None)))" using inj by (auto simp: inj_on_def)
  ultimately show ?thesis using assms Some
    by (auto simp: client_ok_def onTransactionResult_def called_def)
qed

lemma client_ok_lost:
  assumes "client_ok S c" and "distinct gs" and "set gs = dom (dc_transaction_callbacks c)"
  shows "client_ok S (onDisconnected (map (the \<circ> dc_transaction_callbacks c) gs) c)"
proof -
  let ?m = "dc_transaction_callbacks c"
  let ?qs = "map (the \<circ> ?m) gs"
  have set: "set ?qs = ran ?m" using assms(3) by (force simp: ran_def image_iff)
  have "inj_on (the \<circ> ?m) (set gs)"
    using assms(1,3) by (auto simp: client_ok_def inj_on_def dom_def)
  then have "distinct ?qs" using assms(2) by (simp add: distinct_map)
  with assms(1) set show ?thesis
    by (auto simp: client_ok_def onDisconnected_def called_def comp_def)
qed

text \<open>C19. Every commit is answered exactly once. However commits, results from the server (repeated or unknown ones
  included) and disconnections follow each other, no callback is called twice, every callback submitted
  either has been called or is still registered and not both, and once the connection has gone down every
  callback submitted, before or after, has been called.\<close>

theorem callbacks_called_exactly_once:
  assumes "client_run S c"
  shows "distinct (called c) \<and> set S = set (called c) \<union> ran (dc_transaction_callbacks c)
    \<and> set (called c) \<inter> ran (dc_transaction_callbacks c) = {} \<and> (dc_disconnected c \<longrightarrow> set (called c) = set S)"
proof -
  have "client_ok S c"
    using assms
  proof (induction rule: client_run.induct)
    case (start root)
    show ?case by (simp add: client_ok_def newClient_def called_def)
  next
    case (submit S c q kv adds removes keys indices as_of nolog)
    then show ?case by (intro client_ok_submit)
  next
    case (answered S c g success isException)
    then show ?case by (intro client_ok_answered)
  next
    case (lost S c gs)
    then show ?case by (intro client_ok_lost)
  qed
  then show ?thesis by (auto simp: client_ok_def)
qed

theorem callbacks_called_exactly_once_witness:
  "\<exists>c. client_run [3] c \<and> called c = [3] \<and> set (called c) \<inter> ran (dc_transaction_callbacks c) = {}"
proof -
  let ?c1 = "createTransaction [] [] [] [] [] 0 3 False (newClient 100)"
  let ?c2 = "onTransactionResult 100 True False ?c1"
  have "client_run ([] @ [3]) ?c1" by (intro client_run.submit client_run.start) simp
  then have r: "client_run [3] ?c2" by (intro client_run.answered) simp
  moreover have "called ?c2 = [3]"
    by (simp add: called_def onTransactionResult_def createTransaction_def newClient_def Let_def)
  ultimately show ?thesis using callbacks_called_exactly_once[OF r] by blast
qed

end
