(* ===== verification/Cell_Children.thy ===== *)
theory Cell_Children
  imports Prelude
begin

text \<open>
  \<open>Children\<close> (\<open>web/cells/children.py\<close>): the children of a display cell, by name, as a flat list, and with a
  reverse lookup. A named child is a cell or a possibly nested list of cells. The theorem of this file
  is that the three views agree as long as a cell is added only once.

  \<open>list.remove\<close> of an absent element raises \<open>ValueError\<close>, \<open>del\<close> of an absent key \<open>KeyError\<close>; \<open>item[0]\<close> of an empty
  list raises \<open>IndexError\<close>, here \<open>GenericException\<close>. A list is true if it is not empty.
\<close>

section \<open>Model\<close>

datatype 'c child_structure = Cell 'c | Nested "'c child_structure list"

record 'c Children =
  cs_namedChildren :: "(string \<times> 'c child_structure) list"
  cs_allChildren :: "'c list"
  cs_reverseLookup :: "'c \<rightharpoonup> string"

definition newChildren :: "'c Children" where
  "newChildren = \<lparr>cs_namedChildren = [], cs_allChildren = [], cs_reverseLookup = Map.empty\<rparr>"

datatype 'i identities = Identity 'i | Identities "'i identities list"

fun toIdentities :: "('c \<Rightarrow> 'i) \<Rightarrow> 'c child_structure \<Rightarrow> 'i identities" where
  "toIdentities ident (Cell c) = Identity (ident c)"
| "toIdentities ident (Nested xs) = Identities (map (toIdentities ident) xs)"

definition namedChildIdentities :: "('c \<Rightarrow> 'i) \<Rightarrow> 'c Children \<Rightarrow> (string \<times> 'i identities) list" where
  "namedChildIdentities ident c = map (\<lambda>(k, v). (k, toIdentities ident v)) (cs_namedChildren c)"

definition removeCell :: "'c \<Rightarrow> ('c Children, unit) pyM" where
  "removeCell x =
     bindM (gets cs_allChildren) (\<lambda>xs.
       if x \<notin> set xs then raise ValueError
       else thenM (modify (\<lambda>c. c\<lparr>cs_allChildren := remove1 x xs\<rparr>))
         (bindM (gets cs_reverseLookup) (\<lambda>r.
           if r x = None then raise KeyError else modify (\<lambda>c. c\<lparr>cs_reverseLookup := r(x := None)\<rparr>))))"

text \<open>The result is the truth value of what the code returns.\<close>

fun removeChildStructure :: "'c child_structure \<Rightarrow> ('c Children, bool) pyM"
  and removeChildStructures :: "'c child_structure list \<Rightarrow> ('c Children, unit) pyM" where
  "removeChildStructure (Cell x) = thenM (removeCell x) (ret True)"
| "removeChildStructure (Nested xs) = thenM (removeChildStructures xs) (ret (xs \<noteq> []))"
| "removeChildStructures [] = ret ()"
| "removeChildStructures (x # xs) = bindM (removeChildStructure x) (\<lambda>_. removeChildStructures xs)"

definition addCell :: "string \<Rightarrow> 'c \<Rightarrow> 'c Children \<Rightarrow> 'c Children" where
  "addCell name x c = c\<lparr>cs_allChildren := cs_allChildren c @ [x], cs_reverseLookup := (cs_reverseLookup c)(x \<mapsto> name)\<rparr>"

fun addChildStructure :: "string \<Rightarrow> 'c child_structure \<Rightarrow> 'c Children \<Rightarrow> 'c Children"
  and addChildStructures :: "string \<Rightarrow> 'c child_structure list \<Rightarrow> 'c Children \<Rightarrow> 'c Children" where
  "addChildStructure name (Cell x) c = addCell name x c"
| "addChildStructure name (Nested xs) c = addChildStructures name xs c"
| "addChildStructures name [] c = c"
| "addChildStructures name (x # xs) c = addChildStructures name xs (addChildStructure name x c)"

definition removeChildNamed :: "string \<Rightarrow> ('c Children, bool) pyM" where
  "removeChildNamed name =
     bindM (gets (\<lambda>c. map_of (cs_namedChildren c) name)) (\<lambda>found.
       case found of
         None \<Rightarrow> ret False
       | Some s \<Rightarrow>
           bindM (removeChildStructure s) (\<lambda>success.
             if \<not> success then ret False
             else thenM (modify (\<lambda>c. c\<lparr>cs_namedChildren := AList.delete name (cs_namedChildren c)\<rparr>)) (ret True)))"

definition addChildNamed :: "string \<Rightarrow> 'c child_structure option \<Rightarrow> ('c Children, unit) pyM" where
  "addChildNamed name childStructure =
     bindM (gets (\<lambda>c. map_of (cs_namedChildren c) name \<noteq> None)) (\<lambda>present.
     bindM (if present then removeChildNamed name else ret False) (\<lambda>_.
       case childStructure of
         None \<Rightarrow> ret ()
       | Some s \<Rightarrow> modify (\<lambda>c. let c' = addChildStructure name s c in
                             c'\<lparr>cs_namedChildren := AList.update name s (cs_namedChildren c')\<rparr>)))"

definition addFromDict :: "(string \<times> 'c child_structure option) list \<Rightarrow> ('c Children, unit) pyM" where
  "addFromDict d = forM d (\<lambda>(k, v). addChildNamed k v)"

definition removeAllChildren :: "('c Children, unit) pyM" where
  "removeAllChildren = modify (\<lambda>c. c\<lparr>cs_namedChildren := [], cs_allChildren := []\<rparr>)"

fun getDimensions :: "'c child_structure \<Rightarrow> nat \<Rightarrow> py_error + nat" where
  "getDimensions (Cell x) dimensions = Inr dimensions"
| "getDimensions (Nested []) dimensions = Inl GenericException"
| "getDimensions (Nested (x # xs)) dimensions = getDimensions x (dimensions + 1)"

definition dimensionsForChildNamed :: "string \<Rightarrow> 'c Children \<Rightarrow> py_error + nat" where
  "dimensionsForChildNamed name c = (case map_of (cs_namedChildren c) name of None \<Rightarrow> Inl KeyError | Some s \<Rightarrow> getDimensions s 0)"

definition hasChild :: "'c \<Rightarrow> 'c Children \<Rightarrow> bool" where
  "hasChild x c = (x \<in> set (cs_allChildren c))"

definition hasChildNamed :: "string \<Rightarrow> 'c Children \<Rightarrow> bool" where
  "hasChildNamed name c = (name \<in> fst ` set (cs_namedChildren c))"

definition findNameFor :: "'c \<Rightarrow> 'c Children \<Rightarrow> string option" where
  "findNameFor x c = cs_reverseLookup c x"

definition delItem :: "string \<Rightarrow> ('c Children, unit) pyM" where
  "delItem name = bindM (gets (hasChildNamed name)) (\<lambda>b. if b then bindM (removeChildNamed name) (\<lambda>_. ret ()) else ret ())"

section \<open>Structures as lists of cells\<close>

fun leaves :: "'c child_structure \<Rightarrow> 'c list" where
  "leaves (Cell x) = [x]"
| "leaves (Nested xs) = concat (map leaves xs)"

lemma thenM_assoc: "thenM (thenM m n) k = thenM m (thenM n k)"
  by (simp add: thenM_def bindM_def fun_eq_iff split: prod.splits sum.splits)

lemma thenM_ret: "thenM (ret a) n = n"
  by (simp add: fun_eq_iff)

lemma forM_append: "forM (xs @ ys) f = thenM (forM xs f) (forM ys f)"
  by (induction xs) (simp_all add: thenM_assoc thenM_ret)

lemma bindM_ignore: "bindM m (\<lambda>_. n) = thenM m n"
  by (simp add: thenM_def)

text \<open>Removing a structure removes its cells one by one, and adding one adds them.\<close>

lemma remove_leaves:
  "thenM (removeChildStructure s) m = thenM (forM (leaves s) removeCell) m"
  "thenM (removeChildStructures ss) m = thenM (forM (concat (map leaves ss)) removeCell) m"
  by (induction s and ss arbitrary: m and m rule: removeChildStructure_removeChildStructures.induct)
    (simp_all add: forM_append thenM_assoc thenM_ret bindM_ignore)

lemma remove_result:
  "removeChildStructure s c = (Inr b, c') \<Longrightarrow> b = (s \<noteq> Nested [])"
  by (cases s) (auto simp: pyM_ok)

lemma remove_structure_run:
  assumes "forM (leaves s) removeCell c = (Inr (), c')"
  shows "removeChildStructure s c = (Inr (s \<noteq> Nested []), c')"
proof -
  have "thenM (removeChildStructure s) (ret ()) c = (Inr (), c')"
    using assms by (simp add: remove_leaves)
  then obtain b where "removeChildStructure s c = (Inr b, c')" by (auto simp: thenM_ok)
  with remove_result[OF this] show ?thesis by simp
qed

lemma add_leaves:
  "addChildStructure name s c = fold (addCell name) (leaves s) c"
  "addChildStructures name ss c = fold (addCell name) (concat (map leaves ss)) c"
  by (induction name s c and name ss c rule: addChildStructure_addChildStructures.induct) simp_all

lemma remove_cells:
  assumes "distinct xs" "set xs \<subseteq> set (cs_allChildren c)" "set xs \<subseteq> dom (cs_reverseLookup c)"
  shows "forM xs removeCell c = (Inr (), c\<lparr>cs_allChildren := fold remove1 xs (cs_allChildren c),
           cs_reverseLookup := cs_reverseLookup c |` (- set xs)\<rparr>)"
  using assms
proof (induction xs arbitrary: c)
  case (Cons x xs)
  let ?c = "c\<lparr>cs_allChildren := remove1 x (cs_allChildren c), cs_reverseLookup := (cs_reverseLookup c)(x := None)\<rparr>"
  have one: "removeCell x c = (Inr (), ?c)" using Cons.prems by (auto simp: removeCell_def)
  have sub: "set xs \<subseteq> set (remove1 x (cs_allChildren c))" "set xs \<subseteq> dom ((cs_reverseLookup c)(x := None))"
    using Cons.prems by (auto intro: in_set_remove1[THEN iffD2])
  have r: "- set xs - {x} = - insert x (set xs)" by blast
  from Cons.IH[of ?c] Cons.prems(1) sub show ?case by (simp add: one r del: fun_upd_apply)
qed (simp add: restrict_map_def)

lemma add_cells:
  "fold (addCell name) xs c =
     c\<lparr>cs_allChildren := cs_allChildren c @ xs,
       cs_reverseLookup := (\<lambda>x. if x \<in> set xs then Some name else cs_reverseLookup c x)\<rparr>"
  by (induction xs arbitrary: c) (auto simp: addCell_def fun_eq_iff intro!: Children.equality)

lemma set_fold_remove1: "distinct ys \<Longrightarrow> distinct (fold remove1 xs ys) \<and> set (fold remove1 xs ys) = set ys - set xs"
  by (induction xs arbitrary: ys) auto

section \<open>The three views\<close>

text \<open>A cell is looked up under exactly the name whose structure holds it, the flat list holds exactly the
  cells that have a name, and no cell occurs twice.\<close>

definition child_at :: "'c Children \<Rightarrow> 'c \<Rightarrow> string \<Rightarrow> bool" where
  "child_at c x name \<longleftrightarrow> (case map_of (cs_namedChildren c) name of None \<Rightarrow> False | Some s \<Rightarrow> x \<in> set (leaves s))"

definition children_ok :: "'c Children \<Rightarrow> bool" where
  "children_ok c \<longleftrightarrow>
     distinct (map fst (cs_namedChildren c)) \<and> distinct (cs_allChildren c) \<and>
     set (cs_allChildren c) = dom (cs_reverseLookup c) \<and>
     (\<forall>x name. cs_reverseLookup c x = Some name \<longleftrightarrow> child_at c x name) \<and>
     (\<forall>s \<in> snd ` set (cs_namedChildren c). distinct (leaves s))"

lemma leaves_of_child:
  assumes ok: "children_ok c" and s: "map_of (cs_namedChildren c) name = Some s"
  shows "distinct (leaves s)" "set (leaves s) \<subseteq> set (cs_allChildren c)"
    "x \<in> set (leaves s) \<longleftrightarrow> cs_reverseLookup c x = Some name"
proof -
  show "distinct (leaves s)" using ok map_of_SomeD[OF s] by (force simp: children_ok_def)
  show *: "x \<in> set (leaves s) \<longleftrightarrow> cs_reverseLookup c x = Some name" for x
    using ok s by (simp add: children_ok_def child_at_def)
  show "set (leaves s) \<subseteq> set (cs_allChildren c)"
    using ok * unfolding children_ok_def by (auto simp: dom_def)
qed

text \<open>The state \<open>removeChildNamed\<close> leaves.\<close>

definition without :: "string \<Rightarrow> 'c child_structure \<Rightarrow> 'c Children \<Rightarrow> 'c Children" where
  "without name s c = c\<lparr>cs_allChildren := fold remove1 (leaves s) (cs_allChildren c),
     cs_reverseLookup := cs_reverseLookup c |` (- set (leaves s))\<rparr>"

lemma remove_structure_ok:
  assumes "children_ok c" "map_of (cs_namedChildren c) name = Some s"
  shows "removeChildStructure s c = (Inr (s \<noteq> Nested []), without name s c)"
  unfolding without_def using assms leaves_of_child[OF assms]
  by (intro remove_structure_run remove_cells) (auto simp: children_ok_def)

lemma lookup_child: "children_ok c \<Longrightarrow> cs_reverseLookup c x = Some k \<longleftrightarrow> child_at c x k"
  by (simp add: children_ok_def)

lemma lookup_none: "children_ok c \<Longrightarrow> cs_reverseLookup c x = None \<longleftrightarrow> (\<forall>k. \<not> child_at c x k)"
  by (metis lookup_child not_None_eq)

lemma without_lookup:
  assumes "children_ok c" "map_of (cs_namedChildren c) name = Some s"
  shows "cs_reverseLookup (without name s c) x = Some k \<longleftrightarrow> k \<noteq> name \<and> child_at c x k"
  using lookup_child[OF assms(1), of x k] leaves_of_child(3)[OF assms, of x]
  by (auto simp: without_def restrict_map_def)

lemma without_flat:
  assumes "children_ok c" "map_of (cs_namedChildren c) name = Some s"
  shows "distinct (cs_allChildren (without name s c))"
    "set (cs_allChildren (without name s c)) = dom (cs_reverseLookup (without name s c))"
  using assms(1) set_fold_remove1[of "cs_allChildren c" "leaves s"]
  by (auto simp: without_def children_ok_def)

lemma without_name: "cs_namedChildren (without name s c) = cs_namedChildren c"
  by (simp add: without_def)

lemma children_okI:
  assumes "distinct (map fst (cs_namedChildren c'))" "distinct (cs_allChildren c')"
    "set (cs_allChildren c') = dom (cs_reverseLookup c')"
    "\<And>x k. cs_reverseLookup c' x = Some k \<longleftrightarrow> child_at c' x k"
    "\<And>k s. map_of (cs_namedChildren c') k = Some s \<Longrightarrow> distinct (leaves s)"
  shows "children_ok c'"
  using assms by (auto simp: children_ok_def)

lemma named_distinct: "children_ok c \<Longrightarrow> map_of (cs_namedChildren c) k = Some s \<Longrightarrow> distinct (leaves s)"
  by (rule leaves_of_child)

text \<open>Dropping a name, or giving it an empty list, after its cells are gone.\<close>

lemma without_delete_ok:
  assumes ok: "children_ok c" and s: "map_of (cs_namedChildren c) name = Some s"
  shows "children_ok ((without name s c)\<lparr>cs_namedChildren := AList.delete name (cs_namedChildren c)\<rparr>)"
proof (rule children_okI, goal_cases)
  case 1 then show ?case using ok by (simp add: children_ok_def distinct_delete)
next
  case 2 then show ?case using without_flat[OF ok s] by simp
next
  case 3 then show ?case using without_flat[OF ok s] by simp
next
  case (4 x k) then show ?case using without_lookup[OF ok s, of x k] by (simp add: child_at_def delete_conv')
next
  case (5 k s') then show ?case using named_distinct[OF ok] by (auto simp: delete_conv' split: if_splits)
qed

lemma remove_named_ok:
  assumes ok: "children_ok c"
  shows "\<exists>b c'. removeChildNamed name c = (Inr b, c') \<and> children_ok c' \<and>
           (\<forall>x k. child_at c' x k \<longleftrightarrow> k \<noteq> name \<and> child_at c x k) \<and>
           (\<forall>k. k \<noteq> name \<longrightarrow> map_of (cs_namedChildren c') k = map_of (cs_namedChildren c) k)"
proof (cases "map_of (cs_namedChildren c) name")
  case None
  then show ?thesis using ok by (auto simp: removeChildNamed_def child_at_def)
next
  case (Some s)
  note run = remove_structure_ok[OF ok Some]
  show ?thesis
  proof (cases "s = Nested []")
    case True
    then have "without name s c = c" by (simp add: without_def restrict_map_def)
    with True Some run have "removeChildNamed name c = (Inr False, c)" by (simp add: removeChildNamed_def bindM_def del: removeChildStructure.simps)
    with True Some ok show ?thesis by (auto simp: child_at_def)
  next
    case False
    with Some run without_delete_ok[OF ok Some] show ?thesis
      by (auto simp: removeChildNamed_def without_name child_at_def delete_conv' split: option.splits)
  qed
qed

lemma add_structure_ok:
  assumes ok: "children_ok c" and old: "\<And>x. \<not> child_at c x name"
    and s: "distinct (leaves s)" "\<And>x k. x \<in> set (leaves s) \<Longrightarrow> \<not> child_at c x k"
  defines "c' \<equiv> addChildStructure name s c"
  shows "children_ok (c'\<lparr>cs_namedChildren := AList.update name s (cs_namedChildren c')\<rparr>)"
proof -
  have new: "x \<notin> set (cs_allChildren c)" "cs_reverseLookup c x = None" if "x \<in> set (leaves s)" for x
    using lookup_none[OF ok, of x] s(2)[OF that] ok by (auto simp: children_ok_def)
  show ?thesis
  proof (rule children_okI, goal_cases)
    case 1 then show ?case using ok by (simp add: c'_def add_leaves add_cells children_ok_def distinct_update)
  next
    case 2 then show ?case using ok s(1) new(1) by (auto simp: c'_def add_leaves add_cells children_ok_def)
  next
    case 3 then show ?case using ok by (auto simp: c'_def add_leaves add_cells children_ok_def split: if_splits)
  next
    case (4 x k)
    have "cs_reverseLookup c x = Some k \<longleftrightarrow> child_at c x k" using ok by (simp add: children_ok_def)
    then show ?case using s(2)[of x] old[of x]
      by (auto simp: c'_def add_leaves add_cells child_at_def update_conv')
  next
    case (5 k s')
    then show ?case using s(1) named_distinct[OF ok]
      by (auto simp: c'_def add_leaves add_cells update_conv' split: if_splits)
  qed
qed

lemma add_named_ok:
  assumes ok: "children_ok c" and s: "distinct (leaves s)"
    and new: "\<And>x k. x \<in> set (leaves s) \<Longrightarrow> child_at c x k \<Longrightarrow> k = name"
  shows "\<exists>c'. addChildNamed name (Some s) c = (Inr (), c') \<and> children_ok c' \<and>
           map_of (cs_namedChildren c') = (map_of (cs_namedChildren c))(name \<mapsto> s)"
proof -
  obtain b c1 where c1: "removeChildNamed name c = (Inr b, c1)" "children_ok c1"
      "\<And>x k. child_at c1 x k \<longleftrightarrow> k \<noteq> name \<and> child_at c x k"
      "\<And>k. k \<noteq> name \<Longrightarrow> map_of (cs_namedChildren c1) k = map_of (cs_namedChildren c) k"
    using remove_named_ok[OF ok, of name] by blast
  define c2 where "c2 = (if map_of (cs_namedChildren c) name = None then c else c1)"
  have c2: "children_ok c2" "\<And>x. \<not> child_at c2 x name"
      "\<And>x k. x \<in> set (leaves s) \<Longrightarrow> \<not> child_at c2 x k"
      "\<And>k. k \<noteq> name \<Longrightarrow> map_of (cs_namedChildren c2) k = map_of (cs_namedChildren c) k"
    using ok c1 new unfolding c2_def by (auto simp: child_at_def split: if_splits)
  let ?c = "addChildStructure name s c2"
  let ?c' = "?c\<lparr>cs_namedChildren := AList.update name s (cs_namedChildren ?c)\<rparr>"
  have "addChildNamed name (Some s) c = (Inr (), ?c')"
    using c1(1) by (auto simp: addChildNamed_def c2_def Let_def)
  moreover have "children_ok ?c'" by (rule add_structure_ok[OF c2(1,2) s c2(3)])
  moreover have "map_of (cs_namedChildren ?c') = (map_of (cs_namedChildren c))(name \<mapsto> s)"
    using c2(4) by (auto simp: add_leaves add_cells update_conv' fun_eq_iff)
  ultimately show ?thesis by blast
qed

section \<open>Every use of the collection\<close>

inductive children_run :: "'c Children \<Rightarrow> bool" where
  start: "children_run newChildren"
| add: "children_run c \<Longrightarrow> distinct (leaves s) \<Longrightarrow>
    (\<And>x k. x \<in> set (leaves s) \<Longrightarrow> child_at c x k \<Longrightarrow> k = name) \<Longrightarrow>
    addChildNamed name (Some s) c = (r, c') \<Longrightarrow> children_run c'"
| clear: "children_run c \<Longrightarrow> addChildNamed name None c = (r, c') \<Longrightarrow> children_run c'"
| remove: "children_run c \<Longrightarrow> removeChildNamed name c = (r, c') \<Longrightarrow> children_run c'"
| delete: "children_run c \<Longrightarrow> delItem name c = (r, c') \<Longrightarrow> children_run c'"

lemma clear_ok: "children_ok c \<Longrightarrow> addChildNamed name None c = (r, c') \<Longrightarrow> children_ok c' \<and> r = Inr ()"
  using remove_named_ok[of c name] by (auto simp: addChildNamed_def split: if_splits)

lemma delItem_ok: "children_ok c \<Longrightarrow> delItem name c = (r, c') \<Longrightarrow> children_ok c' \<and> r = Inr ()"
  using remove_named_ok[of c name] by (auto simp: delItem_def split: if_splits)

lemma children_run_ok: "children_run c \<Longrightarrow> children_ok c"
proof (induction rule: children_run.induct)
  case start
  show ?case by (simp add: newChildren_def children_ok_def child_at_def)
next
  case (add c s name r c')
  then show ?case using add_named_ok[of c s name] by auto
next
  case (clear c name r c')
  then show ?case using clear_ok by blast
next
  case (remove c name r c')
  then show ?case using remove_named_ok[of c name] by auto
next
  case (delete c name r c')
  then show ?case using delItem_ok by blast
qed

text \<open>C30. However cells are added, replaced and removed, as long as a cell is not added under a second
  name, the three views of the children agree: \<open>findNameFor\<close> gives the name whose structure holds the cell,
  and \<open>None\<close> for a cell that is nowhere; \<open>hasChild\<close> holds exactly for the cells of some structure; the flat
  list repeats no cell. Removing a name never raises, and leaves exactly the cells of the other names.\<close>

theorem children_views_agree:
  assumes "children_run c"
  shows "(findNameFor x c = Some k) = child_at c x k \<and> hasChild x c = (\<exists>k. child_at c x k) \<and>
    distinct (cs_allChildren c) \<and>
    (\<exists>b c'. removeChildNamed name c = (Inr b, c') \<and> (\<forall>x k. child_at c' x k \<longleftrightarrow> k \<noteq> name \<and> child_at c x k))"
proof (intro conjI)
  note ok = children_run_ok[OF assms]
  show "(findNameFor x c = Some k) = child_at c x k" using lookup_child[OF ok] by (simp add: findNameFor_def)
  have "hasChild x c = (cs_reverseLookup c x \<noteq> None)"
    using ok by (auto simp: hasChild_def children_ok_def)
  then show "hasChild x c = (\<exists>k. child_at c x k)" using lookup_none[OF ok] by simp
  show "distinct (cs_allChildren c)" using ok by (simp add: children_ok_def)
  show "\<exists>b c'. removeChildNamed name c = (Inr b, c') \<and> (\<forall>x k. child_at c' x k \<longleftrightarrow> k \<noteq> name \<and> child_at c x k)"
    using remove_named_ok[OF ok, of name] by blast
qed

definition demoChildren :: "nat Children" where
  "demoChildren = snd (addChildNamed ''body'' (Some (Nested [Cell 1, Nested [Cell 2]])) newChildren)"

lemma demoChildren_run: "children_run demoChildren"
  unfolding demoChildren_def
  by (rule children_run.add[OF children_run.start _ _ prod.collapse[symmetric]])
    (simp_all add: newChildren_def child_at_def)

lemma demoChildren_at: "child_at demoChildren x k \<longleftrightarrow> k = ''body'' \<and> (x = 1 \<or> x = 2)"
  by (simp add: demoChildren_def addChildNamed_def newChildren_def child_at_def addCell_def)

lemma children_views_agree_witness:
  "findNameFor 2 demoChildren = Some ''body'' \<and> hasChild 1 demoChildren \<and> \<not> hasChild 3 demoChildren \<and>
   distinct (cs_allChildren demoChildren) \<and> (\<exists>b c'. removeChildNamed ''body'' demoChildren = (Inr b, c'))"
  using children_views_agree[OF demoChildren_run, of 2 "''body''" "''body''"]
    children_views_agree[OF demoChildren_run, of 1 "''body''" "''body''"]
    children_views_agree[OF demoChildren_run, of 3 "''body''" "''body''"]
  by (auto simp: demoChildren_at)

section \<open>Corners\<close>

text \<open>\<open>removeAll\<close> forgets the reverse lookup: a removed cell is still found. An empty list cannot be removed from
  its name, and has no dimension.\<close>

lemma removed_child_still_found:
  "findNameFor 1 (snd (removeAllChildren demoChildren)) = Some ''body'' \<and> \<not> hasChild 1 (snd (removeAllChildren demoChildren))"
  by (simp add: demoChildren_def addChildNamed_def newChildren_def addCell_def findNameFor_def hasChild_def removeAllChildren_def)

lemma empty_list_stays:
  assumes "map_of (cs_namedChildren c) name = Some (Nested [])"
  shows "removeChildNamed name c = (Inr False, c) \<and> dimensionsForChildNamed name c = Inl GenericException"
  using assms by (simp add: removeChildNamed_def dimensionsForChildNamed_def bindM_def thenM_def)

end
