(* ===== verification/Cell_Graph.thy ===== *)
theory Cell_Graph
  imports Odb_Types
begin

text \<open>
  \<open>CellDependencies\<close> (\<open>web/cells/cell_dependencies.py\<close>): which calculations (cells, computed slots, reactors) read
  which slots and which keys of the database, and which of them are dirty. The forward dictionaries
  (\<open>_subscriptions\<close>, \<open>_slotsRead\<close>) and the backward ones (\<open>_subscribedCells\<close>, \<open>_slotToReaders\<close>) mirror each other
  (\<open>graph_ok\<close>), and a computed slot that loses its last reader is discarded with everything only it read.

  A slot that is discarded is told so (\<open>ComputedSlot.orphan\<close>), and a computed slot that gets dirty too
  (\<open>ComputedSlot.markDirty\<close>), so the state here holds the objects as well. \<open>_cellReactors[cell]\<close> is always the very set
  object \<open>cell.reactors\<close>: the dictionary is modelled by its keys.

  \<open>calculationDiscarded\<close> calls itself; the model has fuel for the depth of the recursion, and the theorems say
  how much is enough. The iteration order of a Python set is the parameter \<open>order\<close>.
\<close>

section \<open>Objects\<close>

datatype obj = CellO nat | SlotO nat | ComputedO nat | ReactorO nat

fun isComputed :: "obj \<Rightarrow> bool" where
  "isComputed (ComputedO n) = True"
| "isComputed _ = False"

record 'v ComputedSlot =
  cs_valueAndIsException :: "(bool \<times> 'v) option"
  cs_valueUpToDate :: bool
  cs_dependencies :: "nat option"
  cs_cells :: bool
  cs_isExecuting :: bool

text \<open>An object of class \<open>ComputedSlotDeps\<close>; \<open>subSlotDeps\<close> refers to other such objects.\<close>

record ComputedSlotDeps =
  dp_subSlots :: "obj set"
  dp_subscriptions :: "version_key set"
  dp_subSlotDeps :: "nat option set"

record CellDependencies =
  cd_subscriptions :: "obj \<rightharpoonup> version_key set"
  cd_cellReactors :: "obj set"
  cd_subscribedCells :: "version_key \<rightharpoonup> obj set"
  cd_slotsRead :: "obj \<rightharpoonup> obj set"
  cd_slotToReaders :: "obj \<rightharpoonup> obj set"
  cd_dirtyComputedSlots :: "obj set"
  cd_dirtyNodes :: "obj set"
  cd_dirtyReactors :: "obj set"

record 'v world = CellDependencies +
  w_reactors :: "obj \<Rightarrow> obj set"
  w_slotValue :: "obj \<Rightarrow> 'v"
  w_computed :: "obj \<Rightarrow> 'v ComputedSlot"
  w_depsHeap :: "nat \<rightharpoonup> ComputedSlotDeps"
  w_nextDeps :: nat

record order =
  it_keys :: "version_key set \<Rightarrow> version_key list"
  it_objs :: "obj set \<Rightarrow> obj list"

section \<open>Model\<close>

definition newComputedSlot :: "'v ComputedSlot" where
  "newComputedSlot = \<lparr>cs_valueAndIsException = None, cs_valueUpToDate = False, cs_dependencies = None, cs_cells = False, cs_isExecuting = False\<rparr>"

text \<open>\<open>CellDependencies.__init__\<close>, with the objects that exist at that moment.\<close>

definition newCellDependencies :: "(obj \<Rightarrow> obj set) \<Rightarrow> (obj \<Rightarrow> 'v) \<Rightarrow> 'v world" where
  "newCellDependencies reactors slotValues = \<lparr>cd_subscriptions = Map.empty, cd_cellReactors = {}, cd_subscribedCells = Map.empty,
     cd_slotsRead = Map.empty, cd_slotToReaders = Map.empty, cd_dirtyComputedSlots = {}, cd_dirtyNodes = {}, cd_dirtyReactors = {},
     w_reactors = reactors, w_slotValue = slotValues, w_computed = (\<lambda>_. newComputedSlot), w_depsHeap = Map.empty, w_nextDeps = 0\<rparr>"

definition updComputed :: "obj \<Rightarrow> ('v ComputedSlot \<Rightarrow> 'v ComputedSlot) \<Rightarrow> 'v world \<Rightarrow> 'v world" where
  "updComputed x f w = w\<lparr>w_computed := (w_computed w)(x := f (w_computed w x))\<rparr>"

definition orphan :: "obj \<Rightarrow> ('v world, unit) pyM" where
  "orphan x = modify (updComputed x (\<lambda>c. c\<lparr>cs_valueUpToDate := False, cs_valueAndIsException := None, cs_cells := False\<rparr>))"

definition markDirty :: "obj \<Rightarrow> ('v world, unit) pyM" where
  "markDirty x = modify (updComputed x (\<lambda>c. c\<lparr>cs_valueUpToDate := False, cs_dependencies := None\<rparr>))"

text \<open>\<open>d[k].discard(x)\<close>, then \<open>d.pop(k)\<close> if nothing is left; the result says whether it was popped.\<close>

definition discardAt :: "('k \<rightharpoonup> obj set) \<Rightarrow> 'k \<Rightarrow> obj \<Rightarrow> (py_error + bool) \<times> ('k \<rightharpoonup> obj set)" where
  "discardAt d k x = (case d k of
       None \<Rightarrow> (Inl KeyError, d)
     | Some m \<Rightarrow> if m - {x} = {} then (Inr True, d(k := None)) else (Inr False, d(k \<mapsto> m - {x})))"

definition unsubscribe :: "obj \<Rightarrow> version_key \<Rightarrow> ('v world, unit) pyM" where
  "unsubscribe x key w = (case discardAt (cd_subscribedCells w) key x of
     (r, d) \<Rightarrow> (case r of Inl e \<Rightarrow> Inl e | Inr _ \<Rightarrow> Inr (), w\<lparr>cd_subscribedCells := d\<rparr>))"

definition dropReader :: "obj \<Rightarrow> obj \<Rightarrow> ('v world, bool) pyM" where
  "dropReader x slot w = (case discardAt (cd_slotToReaders w) slot x of (r, d) \<Rightarrow> (r, w\<lparr>cd_slotToReaders := d\<rparr>))"

fun calculationDiscarded :: "order \<Rightarrow> nat \<Rightarrow> obj \<Rightarrow> ('v world, unit) pyM" where
  "calculationDiscarded ord 0 x = raise NotReturned"
| "calculationDiscarded ord (Suc fuel) x =
     thenM (modify (\<lambda>w. w\<lparr>cd_dirtyComputedSlots := cd_dirtyComputedSlots w - {x}, cd_dirtyReactors := cd_dirtyReactors w - {x}\<rparr>))
     (bindM (gets (\<lambda>w. set_at (cd_subscriptions w) x)) (\<lambda>subscriptions.
      thenM (modify (\<lambda>w. w\<lparr>cd_subscriptions := (cd_subscriptions w)(x := None)\<rparr>))
     (bindM (gets (\<lambda>w. set_at (cd_slotsRead w) x)) (\<lambda>slots.
      thenM (modify (\<lambda>w. w\<lparr>cd_slotsRead := (cd_slotsRead w)(x := None)\<rparr>))
     (thenM (forM (it_keys ord subscriptions) (unsubscribe x))
     (thenM (forM (it_objs ord slots) (\<lambda>slot.
        bindM (dropReader x slot) (\<lambda>popped.
          whenM (popped \<and> isComputed slot) (thenM (calculationDiscarded ord fuel slot) (orphan slot)))))
     (bindM (gets (\<lambda>w. if x \<in> cd_cellReactors w then w_reactors w x else {})) (\<lambda>reactors.
      thenM (modify (\<lambda>w. w\<lparr>cd_cellReactors := cd_cellReactors w - {x}\<rparr>))
        (forM (it_objs ord reactors) (calculationDiscarded ord fuel))))))))))"

text \<open>The loop over dropped slots, shared with \<open>updateDependencies\<close>.\<close>

definition dropSlot :: "order \<Rightarrow> nat \<Rightarrow> obj \<Rightarrow> obj \<Rightarrow> ('v world, unit) pyM" where
  "dropSlot ord fuel x slot =
     bindM (dropReader x slot) (\<lambda>popped.
       whenM (popped \<and> isComputed slot) (thenM (calculationDiscarded ord fuel slot) (orphan slot)))"

definition updateCellReactors :: "order \<Rightarrow> nat \<Rightarrow> obj \<Rightarrow> ('v world, unit) pyM" where
  "updateCellReactors ord fuel cell =
     bindM (gets (\<lambda>w. w_reactors w cell = {} \<and> cell \<notin> cd_cellReactors w)) (\<lambda>nothing.
       if nothing then ret ()
       else
         bindM (gets (\<lambda>w. if cell \<in> cd_cellReactors w then w_reactors w cell else {})) (\<lambda>oldReactors.
         thenM (modify (\<lambda>w. w\<lparr>cd_cellReactors := if w_reactors w cell = {} then cd_cellReactors w - {cell} else insert cell (cd_cellReactors w)\<rparr>))
         (bindM (gets (\<lambda>w. w_reactors w cell)) (\<lambda>newReactors.
          thenM (modify (\<lambda>w. w\<lparr>cd_dirtyReactors := cd_dirtyReactors w \<union> (newReactors - oldReactors)\<rparr>))
            (forM (it_objs ord (oldReactors - newReactors)) (calculationDiscarded ord fuel))))))"

text \<open>\<open>d.setdefault(k, set()).add(x)\<close>\<close>

definition subscribe :: "obj \<Rightarrow> version_key \<Rightarrow> ('v world, unit) pyM" where
  "subscribe x key = modify (\<lambda>w. w\<lparr>cd_subscribedCells := add_at key x (cd_subscribedCells w)\<rparr>)"

definition addReader :: "obj \<Rightarrow> obj \<Rightarrow> ('v world, unit) pyM" where
  "addReader x slot = modify (\<lambda>w. w\<lparr>cd_slotToReaders := add_at slot x (cd_slotToReaders w)\<rparr>)"

definition updateDependencies :: "order \<Rightarrow> nat \<Rightarrow> obj \<Rightarrow> version_key set \<Rightarrow> obj set \<Rightarrow> ('v world, unit) pyM" where
  "updateDependencies ord fuel x subscriptions slots =
     bindM (gets (\<lambda>w. set_at (cd_subscriptions w) x)) (\<lambda>existingSubscriptions.
     thenM (modify (\<lambda>w. w\<lparr>cd_subscriptions := (cd_subscriptions w)(x \<mapsto> subscriptions)\<rparr>))
     (thenM (forM (it_keys ord (subscriptions - existingSubscriptions)) (subscribe x))
     (thenM (forM (it_keys ord (existingSubscriptions - subscriptions)) (unsubscribe x))
     (bindM (gets (\<lambda>w. set_at (cd_slotsRead w) x)) (\<lambda>existingSlots.
      thenM (modify (\<lambda>w. w\<lparr>cd_slotsRead := (cd_slotsRead w)(x \<mapsto> slots)\<rparr>))
     (thenM (forM (it_objs ord (slots - existingSlots)) (addReader x))
     (thenM (forM (it_objs ord (existingSlots - slots)) (dropSlot ord fuel x))
       (modify (\<lambda>w. w\<lparr>cd_dirtyComputedSlots := cd_dirtyComputedSlots w - {x}, cd_dirtyNodes := cd_dirtyNodes w - {x}\<rparr>)))))))))"

definition markCalcDirty :: "obj \<Rightarrow> ('v world, unit) pyM" where
  "markCalcDirty x = (case x of
       ComputedO _ \<Rightarrow> thenM (modify (\<lambda>w. w\<lparr>cd_dirtyComputedSlots := insert x (cd_dirtyComputedSlots w)\<rparr>)) (markDirty x)
     | CellO _ \<Rightarrow> modify (\<lambda>w. w\<lparr>cd_dirtyNodes := insert x (cd_dirtyNodes w)\<rparr>)
     | ReactorO _ \<Rightarrow> modify (\<lambda>w. w\<lparr>cd_dirtyReactors := insert x (cd_dirtyReactors w)\<rparr>)
     | SlotO _ \<Rightarrow> raise GenericException)"

definition markReadersDirty :: "order \<Rightarrow> obj \<Rightarrow> ('v world, unit) pyM" where
  "markReadersDirty ord slot =
     bindM (gets (\<lambda>w. set_at (cd_slotToReaders w) slot)) (\<lambda>readers. forM (it_objs ord readers) markCalcDirty)"

definition markSlotsDirty :: "order \<Rightarrow> obj list \<Rightarrow> ('v world, unit) pyM" where
  "markSlotsDirty ord slots = forM slots (markReadersDirty ord)"

definition markSubscribersDirty :: "order \<Rightarrow> version_key \<Rightarrow> ('v world, unit) pyM" where
  "markSubscribersDirty ord key =
     bindM (gets (\<lambda>w. set_at (cd_subscribedCells w) key)) (\<lambda>cs. forM (it_objs ord cs) markCalcDirty)"

definition odbValuesChanged :: "order \<Rightarrow> version_key list \<Rightarrow> ('v world, unit) pyM" where
  "odbValuesChanged ord keys = forM keys (markSubscribersDirty ord)"

definition markCellDirty :: "obj \<Rightarrow> ('v world, unit) pyM" where
  "markCellDirty cell = modify (\<lambda>w. w\<lparr>cd_dirtyNodes := insert cell (cd_dirtyNodes w)\<rparr>)"

lemma calculationDiscarded_Suc:
  "calculationDiscarded ord (Suc fuel) x =
     thenM (modify (\<lambda>w. w\<lparr>cd_dirtyComputedSlots := cd_dirtyComputedSlots w - {x}, cd_dirtyReactors := cd_dirtyReactors w - {x}\<rparr>))
     (bindM (gets (\<lambda>w. set_at (cd_subscriptions w) x)) (\<lambda>subscriptions.
      thenM (modify (\<lambda>w. w\<lparr>cd_subscriptions := (cd_subscriptions w)(x := None)\<rparr>))
     (bindM (gets (\<lambda>w. set_at (cd_slotsRead w) x)) (\<lambda>slots.
      thenM (modify (\<lambda>w. w\<lparr>cd_slotsRead := (cd_slotsRead w)(x := None)\<rparr>))
     (thenM (forM (it_keys ord subscriptions) (unsubscribe x))
     (thenM (forM (it_objs ord slots) (dropSlot ord fuel x))
     (bindM (gets (\<lambda>w. if x \<in> cd_cellReactors w then w_reactors w x else {})) (\<lambda>reactors.
      thenM (modify (\<lambda>w. w\<lparr>cd_cellReactors := cd_cellReactors w - {x}\<rparr>))
        (forM (it_objs ord reactors) (calculationDiscarded ord fuel))))))))))"
  unfolding dropSlot_def calculationDiscarded.simps(2) ..

declare calculationDiscarded.simps(2) [simp del]

section \<open>The graph\<close>

abbreviation subs_of :: "'v world \<Rightarrow> obj \<Rightarrow> version_key set" where
  "subs_of w \<equiv> set_at (cd_subscriptions w)"

abbreviation reads_of :: "'v world \<Rightarrow> obj \<Rightarrow> obj set" where
  "reads_of w \<equiv> set_at (cd_slotsRead w)"

abbreviation subscribers :: "'v world \<Rightarrow> version_key \<Rightarrow> obj set" where
  "subscribers w \<equiv> set_at (cd_subscribedCells w)"

abbreviation readers :: "'v world \<Rightarrow> obj \<Rightarrow> obj set" where
  "readers w \<equiv> set_at (cd_slotToReaders w)"

definition order_ok :: "order \<Rightarrow> bool" where
  "order_ok ord \<longleftrightarrow> (\<forall>S. finite S \<longrightarrow> set (it_keys ord S) = S \<and> distinct (it_keys ord S)) \<and>
     (\<forall>S. finite S \<longrightarrow> set (it_objs ord S) = S \<and> distinct (it_objs ord S))"

lemma order_okD:
  "order_ok ord \<Longrightarrow> finite K \<Longrightarrow> set (it_keys ord K) = K \<and> distinct (it_keys ord K)"
  "order_ok ord \<Longrightarrow> finite S \<Longrightarrow> set (it_objs ord S) = S \<and> distinct (it_objs ord S)"
  by (simp_all add: order_ok_def)

text \<open>\<open>pending\<close> holds the pairs \<open>(x, slot)\<close> for which \<open>x\<close> no longer reads the slot and the slot does not know yet.\<close>

definition mirrored :: "'v world \<Rightarrow> (obj \<times> obj) set \<Rightarrow> bool" where
  "mirrored w pending \<longleftrightarrow>
     (\<forall>x k. x \<in> subscribers w k \<longleftrightarrow> k \<in> subs_of w x) \<and>
     (\<forall>x s. x \<in> readers w s \<longleftrightarrow> s \<in> reads_of w x \<or> (x, s) \<in> pending) \<and>
     (\<forall>x s. (x, s) \<in> pending \<longrightarrow> s \<notin> reads_of w x)"

definition lean :: "'v world \<Rightarrow> bool" where
  "lean w \<longleftrightarrow> (\<forall>k. cd_subscribedCells w k \<noteq> Some {}) \<and> (\<forall>s. cd_slotToReaders w s \<noteq> Some {}) \<and>
     (\<forall>x. finite (subs_of w x) \<and> finite (reads_of w x) \<and> finite (w_reactors w x)) \<and> (\<forall>x. \<forall>r \<in> w_reactors w x. \<not> isComputed r) \<and>
     finite (dom (cd_slotsRead w)) \<and> dom (cd_subscriptions w) = dom (cd_slotsRead w) \<and> finite (cd_cellReactors w)"

definition depth :: "'v world \<Rightarrow> nat" where
  "depth w = card (dom (cd_slotsRead w)) + card (cd_cellReactors w)"

definition tracked :: "'v world \<Rightarrow> obj \<Rightarrow> bool" where
  "tracked w x \<longleftrightarrow> cd_slotsRead w x \<noteq> None \<or> cd_subscriptions w x \<noteq> None"

definition graph_ok :: "'v world \<Rightarrow> bool" where
  "graph_ok w \<longleftrightarrow> mirrored w {} \<and> lean w \<and> (\<forall>n. \<not> tracked w (SlotO n))"

text \<open>What discarding may do, \<open>R\<close> being the objects it may reach: it only forgets, only in \<open>R\<close>; a computed slot that is
  still tracked has a reader if it had one; what has been forgotten is no longer dirty, and what is still
  tracked is as dirty as before; the computed slots it changes are orphans without readers.\<close>

definition forgets :: "obj set \<Rightarrow> 'v world \<Rightarrow> 'v world \<Rightarrow> bool" where
  "forgets R w w' \<longleftrightarrow>
     cd_slotsRead w' \<subseteq>\<^sub>m cd_slotsRead w \<and> cd_subscriptions w' \<subseteq>\<^sub>m cd_subscriptions w \<and>
     cd_cellReactors w' \<subseteq> cd_cellReactors w \<and> w_reactors w' = w_reactors w \<and> w_slotValue w' = w_slotValue w \<and>
     w_depsHeap w' = w_depsHeap w \<and> w_nextDeps w' = w_nextDeps w \<and> cd_dirtyNodes w' = cd_dirtyNodes w \<and>
     cd_dirtyComputedSlots w' \<subseteq> cd_dirtyComputedSlots w \<and> cd_dirtyReactors w' \<subseteq> cd_dirtyReactors w \<and>
     (\<forall>s. readers w' s \<subseteq> readers w s) \<and> (\<forall>x. cs_isExecuting (w_computed w' x) = cs_isExecuting (w_computed w x)) \<and>
     (\<forall>x. x \<notin> R \<longrightarrow> cd_slotsRead w' x = cd_slotsRead w x \<and> cd_subscriptions w' x = cd_subscriptions w x \<and>
        (x \<in> cd_cellReactors w' \<longleftrightarrow> x \<in> cd_cellReactors w)) \<and>
     (\<forall>s. isComputed s \<longrightarrow> tracked w' s \<longrightarrow> readers w' s = {} \<longrightarrow> readers w s = {}) \<and>
     (\<forall>x. x \<in> cd_dirtyComputedSlots w \<longrightarrow> x \<notin> cd_dirtyComputedSlots w' \<longrightarrow> x \<in> R \<and> \<not> tracked w' x) \<and>
     (\<forall>x. x \<in> cd_dirtyReactors w \<longrightarrow> x \<notin> cd_dirtyReactors w' \<longrightarrow> x \<in> R \<and> \<not> tracked w' x) \<and>
     (\<forall>x. w_computed w' x \<noteq> w_computed w x \<longrightarrow> x \<in> R \<and> readers w' x = {} \<and> \<not> tracked w' x \<and> \<not> cs_valueUpToDate (w_computed w' x))"

text \<open>Except for \<open>E\<close>, a computed slot that is forgotten has been told so and has no reader.\<close>

definition abandons :: "obj set \<Rightarrow> 'v world \<Rightarrow> 'v world \<Rightarrow> bool" where
  "abandons E w w' \<longleftrightarrow> (\<forall>x. isComputed x \<longrightarrow> tracked w x \<longrightarrow> \<not> tracked w' x \<longrightarrow> x \<in> E \<or> \<not> cs_valueUpToDate (w_computed w' x) \<and> readers w' x = {})"

lemma abandonsD: "abandons E w w' \<Longrightarrow> isComputed x \<Longrightarrow> tracked w x \<Longrightarrow> \<not> tracked w' x \<Longrightarrow> x \<notin> E \<Longrightarrow>
    \<not> cs_valueUpToDate (w_computed w' x) \<and> readers w' x = {}"
  unfolding abandons_def by blast

definition closed_in :: "'v world \<Rightarrow> obj set \<Rightarrow> bool" where
  "closed_in w R \<longleftrightarrow> (\<forall>x \<in> R. reads_of w x \<subseteq> R \<and> (x \<in> cd_cellReactors w \<longrightarrow> w_reactors w x \<subseteq> R))"

lemma map_le_set_at: "m \<subseteq>\<^sub>m m' \<Longrightarrow> set_at m k \<subseteq> set_at m' k"
  unfolding map_le_def set_at_def by (metis (mono_tags, lifting) domI empty_subsetI option.case_eq_if option.collapse order_refl)

lemma forgets_refl: "forgets R w w"
  by (simp add: forgets_def)

lemma tracked_mono: "forgets R w w' \<Longrightarrow> tracked w' x \<Longrightarrow> tracked w x"
  unfolding forgets_def tracked_def map_le_def by (metis domIff)

lemma forgetsD:
  assumes "forgets R w w'"
  shows "isComputed s \<Longrightarrow> tracked w' s \<Longrightarrow> readers w' s = {} \<Longrightarrow> readers w s = {}"
    "x \<in> cd_dirtyComputedSlots w \<Longrightarrow> x \<notin> cd_dirtyComputedSlots w' \<Longrightarrow> x \<in> R \<and> \<not> tracked w' x"
    "x \<in> cd_dirtyReactors w \<Longrightarrow> x \<notin> cd_dirtyReactors w' \<Longrightarrow> x \<in> R \<and> \<not> tracked w' x"
    "w_computed w' x \<noteq> w_computed w x \<Longrightarrow> x \<in> R \<and> readers w' x = {} \<and> \<not> tracked w' x \<and> \<not> cs_valueUpToDate (w_computed w' x)"
    "x \<notin> R \<Longrightarrow> cd_slotsRead w' x = cd_slotsRead w x \<and> cd_subscriptions w' x = cd_subscriptions w x \<and> (x \<in> cd_cellReactors w' \<longleftrightarrow> x \<in> cd_cellReactors w)"
  using assms by (simp_all add: forgets_def)

lemma forgets_frame:
  assumes "forgets R w w'"
  shows "cd_slotsRead w' \<subseteq>\<^sub>m cd_slotsRead w" "cd_subscriptions w' \<subseteq>\<^sub>m cd_subscriptions w"
    "cd_cellReactors w' \<subseteq> cd_cellReactors w" "w_reactors w' = w_reactors w" "w_slotValue w' = w_slotValue w"
    "w_depsHeap w' = w_depsHeap w" "w_nextDeps w' = w_nextDeps w" "cd_dirtyNodes w' = cd_dirtyNodes w"
    "cd_dirtyComputedSlots w' \<subseteq> cd_dirtyComputedSlots w" "cd_dirtyReactors w' \<subseteq> cd_dirtyReactors w"
    "readers w' s \<subseteq> readers w s" "cs_isExecuting (w_computed w' x) = cs_isExecuting (w_computed w x)"
  using assms by (simp_all add: forgets_def)

lemma forgets_trans:
  assumes 1: "forgets R w w'" and 2: "forgets R w' w''"
  shows "forgets R w w''"
proof -
  have r: "readers w'' s \<subseteq> readers w' s" "readers w' s \<subseteq> readers w s" for s using 1 2 by (simp_all add: forgets_def)
  have t: "tracked w'' x \<Longrightarrow> tracked w' x" for x using tracked_mono[OF 2] .
  have leak: "readers w s = {}" if "isComputed s" "tracked w'' s" "readers w'' s = {}" for s
    using forgetsD(1)[OF 1 that(1) t[OF that(2)] forgetsD(1)[OF 2 that]] .
  have comp: "x \<in> R \<and> readers w'' x = {} \<and> \<not> tracked w'' x \<and> \<not> cs_valueUpToDate (w_computed w'' x)"
    if "w_computed w'' x \<noteq> w_computed w x" for x
  proof (cases "w_computed w'' x = w_computed w' x")
    case True
    with that 1 have "x \<in> R \<and> readers w' x = {} \<and> \<not> tracked w' x \<and> \<not> cs_valueUpToDate (w_computed w' x)"
      by (simp add: forgets_def)
    with True r(1)[of x] t[of x] show ?thesis by auto
  next
    case False
    with 2 show ?thesis by (simp add: forgets_def)
  qed
  have d: "x \<in> R \<and> \<not> tracked w'' x" if "x \<in> cd_dirtyComputedSlots w" "x \<notin> cd_dirtyComputedSlots w''" for x
    using forgetsD(2)[OF 1 that(1)] forgetsD(2)[OF 2 _ that(2)] t by blast
  have d2: "x \<in> R \<and> \<not> tracked w'' x" if "x \<in> cd_dirtyReactors w" "x \<notin> cd_dirtyReactors w''" for x
    using forgetsD(3)[OF 1 that(1)] forgetsD(3)[OF 2 _ that(2)] t by blast
  note f = forgets_frame[OF 1] and g = forgets_frame[OF 2]
  have frame: "cd_slotsRead w'' x = cd_slotsRead w x \<and> cd_subscriptions w'' x = cd_subscriptions w x \<and>
      (x \<in> cd_cellReactors w'' \<longleftrightarrow> x \<in> cd_cellReactors w)" if "x \<notin> R" for x
    using forgetsD(5)[OF 1 that] forgetsD(5)[OF 2 that] by simp
  show ?thesis
    unfolding forgets_def
    using map_le_trans[OF g(1) f(1)] map_le_trans[OF g(2) f(2)] subset_trans[OF g(3) f(3)] subset_trans[OF g(9) f(9)]
      subset_trans[OF g(10) f(10)] subset_trans[OF r(1) r(2)]
    by (intro conjI allI impI) (use f(4-8,12) g(4-8,12) leak d d2 comp frame in simp_all)
qed

lemma abandons_trans: "abandons E w w' \<Longrightarrow> abandons F w' w'' \<Longrightarrow> forgets R w' w'' \<Longrightarrow> abandons (E \<union> F) w w''"
  unfolding abandons_def using forgetsD(4)[of R w' w''] forgets_frame(11)[of R w' w''] by (metis Un_iff subset_empty)

lemma abandons_refl: "abandons {} w w"
  by (simp add: abandons_def)

lemma closed_in_mono: "closed_in w R \<Longrightarrow> forgets R w w' \<Longrightarrow> closed_in w' R"
  unfolding closed_in_def forgets_def by (metis map_le_set_at subsetD subset_trans)

lemma depth_mono:
  assumes "lean w" "forgets R w w'"
  shows "depth w' \<le> depth w"
proof -
  have "dom (cd_slotsRead w') \<subseteq> dom (cd_slotsRead w)" by (rule map_le_implies_dom_le[OF forgets_frame(1)[OF assms(2)]])
  moreover have "cd_cellReactors w' \<subseteq> cd_cellReactors w" using assms(2) by (simp add: forgets_def)
  ultimately show ?thesis using assms(1) unfolding depth_def lean_def by (intro add_mono card_mono) auto
qed

section \<open>Discarding\<close>

lemma discardAt_run:
  assumes "x \<in> set_at d k" and "\<forall>j. d j \<noteq> Some {}"
  obtains d' where "discardAt d k x = (Inr (set_at d k - {x} = {}), d')"
    "\<And>j. set_at d' j = (if j = k then set_at d k - {x} else set_at d j)" "\<forall>j. d' j \<noteq> Some {}"
proof (cases "d k")
  case None
  with assms(1) show ?thesis by (simp add: set_at_def)
next
  case (Some m)
  show ?thesis
  proof (cases "m - {x} = {}")
    case True
    with Some assms that[of "d(k := None)"] show ?thesis by (simp add: discardAt_def set_at_def)
  next
    case False
    with Some assms that[of "d(k \<mapsto> m - {x})"] show ?thesis by (simp add: discardAt_def set_at_def)
  qed
qed

lemma unsubscribe_loop:
  "distinct ks \<Longrightarrow> \<forall>k \<in> set ks. x \<in> set_at (cd_subscribedCells w) k \<Longrightarrow> \<forall>j. cd_subscribedCells w j \<noteq> Some {} \<Longrightarrow>
   \<exists>d. forM ks (unsubscribe x) w = (Inr (), w\<lparr>cd_subscribedCells := d\<rparr>) \<and> (\<forall>j. d j \<noteq> Some {}) \<and>
     (\<forall>k. set_at d k = (if k \<in> set ks then set_at (cd_subscribedCells w) k - {x} else set_at (cd_subscribedCells w) k))"
proof (induction ks arbitrary: w)
  case Nil
  then show ?case by (intro exI[of _ "cd_subscribedCells w"]) simp
next
  case (Cons k ks)
  obtain d where d: "discardAt (cd_subscribedCells w) k x = (Inr (set_at (cd_subscribedCells w) k - {x} = {}), d)"
      "\<And>j. set_at d j = (if j = k then set_at (cd_subscribedCells w) k - {x} else set_at (cd_subscribedCells w) j)" "\<forall>j. d j \<noteq> Some {}"
    using discardAt_run[of x "cd_subscribedCells w" k] Cons.prems by (metis list.set_intros(1))
  let ?w = "w\<lparr>cd_subscribedCells := d\<rparr>"
  have one: "unsubscribe x k w = (Inr (), ?w)" by (simp add: unsubscribe_def d(1))
  have "\<forall>k \<in> set ks. x \<in> set_at (cd_subscribedCells ?w) k" using Cons.prems(1,2) by (auto simp: d(2))
  with Cons.IH[of ?w] Cons.prems(1) d(3) obtain d' where
    d': "forM ks (unsubscribe x) ?w = (Inr (), ?w\<lparr>cd_subscribedCells := d'\<rparr>)" "\<forall>j. d' j \<noteq> Some {}"
      "\<forall>k. set_at d' k = (if k \<in> set ks then set_at d k - {x} else set_at d k)" by auto
  show ?case using one d' d(2) Cons.prems(1) by (intro exI[of _ d']) auto
qed

definition discarded :: "obj set \<Rightarrow> (obj \<times> obj) set \<Rightarrow> obj \<Rightarrow> 'v world \<Rightarrow> 'v world \<Rightarrow> bool" where
  "discarded R P x w w' \<longleftrightarrow> mirrored w' P \<and> lean w' \<and> forgets R w w' \<and> abandons {x} w w' \<and> \<not> tracked w' x \<and>
     x \<notin> cd_dirtyComputedSlots w' \<and> x \<notin> cd_dirtyReactors w'"

lemma dropReader_run:
  assumes m: "mirrored w (insert (x, s) P)" and new: "(x, s) \<notin> P" and l: "lean w"
  obtains w1 where "dropReader x s w = (Inr (readers w1 s = {}), w1)" "mirrored w1 P" "lean w1"
    "w1 = w\<lparr>cd_slotToReaders := cd_slotToReaders w1\<rparr>" "\<And>t. readers w1 t = (if t = s then readers w s - {x} else readers w t)"
proof -
  have x: "x \<in> readers w s" using m by (auto simp: mirrored_def)
  have ne: "\<forall>j. cd_slotToReaders w j \<noteq> Some {}" using l by (simp add: lean_def)
  obtain d where d: "discardAt (cd_slotToReaders w) s x = (Inr (readers w s - {x} = {}), d)"
    "\<And>j. set_at d j = (if j = s then readers w s - {x} else readers w j)" "\<forall>j. d j \<noteq> Some {}"
    using discardAt_run[OF x ne] by metis
  let ?w = "w\<lparr>cd_slotToReaders := d\<rparr>"
  have "s \<notin> reads_of w x" using m by (auto simp: mirrored_def)
  then have "mirrored ?w P" using m new by (auto simp: mirrored_def d(2))
  moreover have "lean ?w" using l d(3) by (simp add: lean_def)
  moreover have "dropReader x s w = (Inr (readers ?w s = {}), ?w)" by (simp add: dropReader_def d(1,2))
  ultimately show thesis using that[of ?w] d(2) by simp
qed

lemma dropSlot_ok:
  fixes w :: "'v world"
  assumes disc: "\<And>(w :: 'v world) P s. mirrored w P \<Longrightarrow> lean w \<Longrightarrow> depth w < fuel \<Longrightarrow> s \<in> R \<Longrightarrow> closed_in w R \<Longrightarrow>
      \<exists>w'. calculationDiscarded ord fuel s w = (Inr (), w') \<and> discarded R P s w w'"
    and m: "mirrored w (insert (x, s) P)" and new: "(x, s) \<notin> P" and l: "lean w" and f: "depth w < fuel"
    and R: "s \<in> R" "closed_in w R"
  shows "\<exists>w'. dropSlot ord fuel x s w = (Inr (), w') \<and> mirrored w' P \<and> lean w' \<and> forgets R w w' \<and> abandons {} w w'"
proof -
  obtain w1 where w1: "dropReader x s w = (Inr (readers w1 s = {}), w1)" "mirrored w1 P" "lean w1"
    "w1 = w\<lparr>cd_slotToReaders := cd_slotToReaders w1\<rparr>" "\<And>t. readers w1 t = (if t = s then readers w s - {x} else readers w t)"
    using dropReader_run[OF m new l] by metis
  have same: "cd_slotsRead w1 = cd_slotsRead w" "cd_subscriptions w1 = cd_subscriptions w" "cd_cellReactors w1 = cd_cellReactors w"
    "w_reactors w1 = w_reactors w" "w_slotValue w1 = w_slotValue w" "w_depsHeap w1 = w_depsHeap w" "w_nextDeps w1 = w_nextDeps w"
    "cd_dirtyNodes w1 = cd_dirtyNodes w" "cd_dirtyComputedSlots w1 = cd_dirtyComputedSlots w" "cd_dirtyReactors w1 = cd_dirtyReactors w"
    "w_computed w1 = w_computed w"
    by (subst w1(4), simp)+
  have less: "readers w1 t \<subseteq> readers w t" for t by (auto simp: w1(5))
  show ?thesis
  proof (cases "readers w1 s = {} \<and> isComputed s")
    case False
    have "forgets R w w1"
      unfolding forgets_def using False less by (auto simp: same tracked_def w1(5) split: if_splits)
    moreover have "abandons {} w w1" by (simp add: abandons_def tracked_def same)
    ultimately show ?thesis using False w1(1-3) by (auto simp: dropSlot_def bindM_def)
  next
    case True
    have "depth w1 < fuel" "closed_in w1 R" using f R(2) by (simp_all add: depth_def closed_in_def same)
    from disc[OF w1(2,3) this(1) R(1) this(2)] obtain w2 where
      w2: "calculationDiscarded ord fuel s w1 = (Inr (), w2)" "discarded R P s w1 w2" by blast
    have g: "forgets R w1 w2" and un: "\<not> tracked w2 s" using w2(2) by (simp_all add: discarded_def)
    let ?o = "\<lambda>c. c\<lparr>cs_valueUpToDate := False, cs_valueAndIsException := None, cs_cells := False\<rparr>"
    let ?w = "updComputed s ?o w2"
    have run: "dropSlot ord fuel x s w = (Inr (), ?w)"
      using w1(1) w2(1) True by (simp add: dropSlot_def orphan_def bindM_def)
    have o: "tracked ?w t = tracked w2 t" "readers ?w t = readers w2 t" for t by (simp_all add: updComputed_def tracked_def)
    have ok: "mirrored ?w P" "lean ?w" using w2(2) by (simp_all add: discarded_def mirrored_def lean_def updComputed_def)
    have leak: "readers w t = {}" if "isComputed t" "tracked w2 t" "readers w2 t = {}" for t
      using forgetsD(1)[OF g that] that(2) un by (auto simp: w1(5) split: if_splits)
    have comp: "t \<in> R \<and> readers w2 t = {} \<and> \<not> tracked w2 t \<and> \<not> cs_valueUpToDate (w_computed ?w t)"
      if "w_computed ?w t \<noteq> w_computed w t" for t
    proof (cases "t = s")
      case t: True
      have "readers w2 s = {}" using forgets_frame(11)[OF g, of s] True by auto
      with t un R(1) show ?thesis by (simp add: updComputed_def)
    next
      case False
      with that have "w_computed w2 t \<noteq> w_computed w1 t" by (simp add: updComputed_def same)
      from forgetsD(4)[OF g this] False show ?thesis by (simp add: updComputed_def)
    qed
    have rd: "readers w2 t \<subseteq> readers w t" for t using forgets_frame(11)[OF g, of t] less[of t] by blast
    have "forgets R w ?w"
      unfolding forgets_def o
      using forgets_frame(1-10,12)[OF g] forgetsD(2,3,5)[OF g] rd leak comp
      by (simp add: same) (simp add: updComputed_def same)
    moreover have "abandons {} w ?w"
    proof (unfold abandons_def o, intro allI impI)
      fix y assume y: "isComputed y" "tracked w y" "\<not> tracked w2 y"
      have t: "tracked w1 y" using y(2) unfolding tracked_def same .
      have a: "abandons {s} w1 w2" using w2(2) by (simp add: discarded_def)
      show "y \<in> {} \<or> \<not> cs_valueUpToDate (w_computed ?w y) \<and> readers w2 y = {}"
      proof (cases "y = s")
        case ys: True
        have "readers w2 s = {}" using forgets_frame(11)[OF g, of s] True by auto
        with ys show ?thesis by (simp add: updComputed_def)
      next
        case False
        with abandonsD[OF a y(1) t y(3)] show ?thesis by (simp add: updComputed_def)
      qed
    qed
    ultimately show ?thesis using run ok by (intro exI[of _ ?w]) simp
  qed
qed

lemma dropSlots_ok:
  fixes w :: "'v world"
  assumes disc: "\<And>(w :: 'v world) P s. mirrored w P \<Longrightarrow> lean w \<Longrightarrow> depth w < fuel \<Longrightarrow> s \<in> R \<Longrightarrow> closed_in w R \<Longrightarrow>
      \<exists>w'. calculationDiscarded ord fuel s w = (Inr (), w') \<and> discarded R P s w w'"
  shows "mirrored w (P \<union> {x} \<times> set ss) \<Longrightarrow> P \<inter> {x} \<times> set ss = {} \<Longrightarrow> distinct ss \<Longrightarrow> lean w \<Longrightarrow> (ss \<noteq> [] \<Longrightarrow> depth w < fuel) \<Longrightarrow>
    set ss \<subseteq> R \<Longrightarrow> closed_in w R \<Longrightarrow>
    \<exists>w'. forM ss (dropSlot ord fuel x) w = (Inr (), w') \<and> mirrored w' P \<and> lean w' \<and> forgets R w w' \<and> abandons {} w w'"
proof (induction ss arbitrary: w)
  case Nil
  then show ?case by (simp add: forgets_refl abandons_refl)
next
  case (Cons s ss)
  let ?P = "P \<union> {x} \<times> set ss"
  have m: "mirrored w (insert (x, s) ?P)" using Cons.prems(1) by (simp add: insert_commute Sigma_Un_distrib2 Un_commute)
  have new: "(x, s) \<notin> ?P" using Cons.prems(2,3) by auto
  have f: "depth w < fuel" "s \<in> R" using Cons.prems(5,6) by auto
  obtain w1 where w1: "dropSlot ord fuel x s w = (Inr (), w1)" "mirrored w1 ?P" "lean w1" "forgets R w w1" "abandons {} w w1"
    using dropSlot_ok[OF disc m new Cons.prems(4) f Cons.prems(7)] by blast
  have "depth w1 < fuel" "closed_in w1 R"
    using depth_mono[OF Cons.prems(4) w1(4)] f(1) closed_in_mono[OF Cons.prems(7) w1(4)] by simp_all
  with Cons.IH[OF w1(2) _ _ w1(3)] Cons.prems(2,3,6) obtain w' where
    w': "forM ss (dropSlot ord fuel x) w1 = (Inr (), w')" "mirrored w' P" "lean w'" "forgets R w1 w'" "abandons {} w1 w'" by auto
  show ?case using w1(1) w' forgets_trans[OF w1(4) w'(4)] abandons_trans[OF w1(5) w'(5) w'(4)] by auto
qed

lemma discardReactors_ok:
  fixes w :: "'v world"
  assumes disc: "\<And>(w :: 'v world) P s. mirrored w P \<Longrightarrow> lean w \<Longrightarrow> depth w < fuel \<Longrightarrow> s \<in> R \<Longrightarrow> closed_in w R \<Longrightarrow>
      \<exists>w'. calculationDiscarded ord fuel s w = (Inr (), w') \<and> discarded R P s w w'"
  shows "mirrored w P \<Longrightarrow> lean w \<Longrightarrow> (rs \<noteq> [] \<Longrightarrow> depth w < fuel) \<Longrightarrow> set rs \<subseteq> R \<Longrightarrow> closed_in w R \<Longrightarrow> \<forall>r \<in> set rs. \<not> isComputed r \<Longrightarrow>
    \<exists>w'. forM rs (calculationDiscarded ord fuel) w = (Inr (), w') \<and> mirrored w' P \<and> lean w' \<and> forgets R w w' \<and> abandons {} w w'"
proof (induction rs arbitrary: w)
  case Nil
  then show ?case by (simp add: forgets_refl abandons_refl)
next
  case (Cons s rs)
  have f: "depth w < fuel" "s \<in> R" using Cons.prems(3,4) by auto
  obtain w1 where w1: "calculationDiscarded ord fuel s w = (Inr (), w1)" "mirrored w1 P" "lean w1" "forgets R w w1" "abandons {s} w w1"
    using disc[OF Cons.prems(1,2) f Cons.prems(5)] by (auto simp: discarded_def)
  have a: "abandons {} w w1" using w1(5) Cons.prems(6) by (auto simp: abandons_def)
  have "depth w1 < fuel" "closed_in w1 R"
    using depth_mono[OF Cons.prems(2) w1(4)] f(1) closed_in_mono[OF Cons.prems(5) w1(4)] by simp_all
  with Cons.IH[OF w1(2,3)] Cons.prems(4,6) obtain w' where
    w': "forM rs (calculationDiscarded ord fuel) w1 = (Inr (), w')" "mirrored w' P" "lean w'" "forgets R w1 w'" "abandons {} w1 w'" by auto
  show ?case using w1(1) w' forgets_trans[OF w1(4) w'(4)] abandons_trans[OF a w'(5,4)] by auto
qed

text \<open>The first part of \<open>calculationDiscarded\<close>, up to the loop over the slots.\<close>

definition cutLoose :: "obj \<Rightarrow> (version_key \<rightharpoonup> obj set) \<Rightarrow> 'v world \<Rightarrow> 'v world" where
  "cutLoose x d w = w\<lparr>cd_dirtyComputedSlots := cd_dirtyComputedSlots w - {x}, cd_dirtyReactors := cd_dirtyReactors w - {x},
     cd_subscriptions := (cd_subscriptions w)(x := None), cd_slotsRead := (cd_slotsRead w)(x := None), cd_subscribedCells := d\<rparr>"

lemma set_at_None: "set_at (m(x := None)) y = (if y = x then {} else set_at m y)"
  by (simp add: set_at_def)

lemma cutLoose_ok:
  assumes ord: "order_ok ord" and m: "mirrored w P" and l: "lean w" and x: "x \<in> R"
  obtains d where
    "calculationDiscarded ord (Suc fuel) x w =
      thenM (forM (it_objs ord (reads_of w x)) (dropSlot ord fuel x))
       (bindM (gets (\<lambda>w. if x \<in> cd_cellReactors w then w_reactors w x else {})) (\<lambda>reactors.
        thenM (modify (\<lambda>w. w\<lparr>cd_cellReactors := cd_cellReactors w - {x}\<rparr>))
          (forM (it_objs ord reactors) (calculationDiscarded ord fuel)))) (cutLoose x d w)"
    "mirrored (cutLoose x d w) (P \<union> {x} \<times> reads_of w x)" "lean (cutLoose x d w)" "forgets R w (cutLoose x d w)"
proof -
  have fin: "finite (subs_of w x)" using l by (simp add: lean_def)
  note it = order_okD(1)[OF ord fin]
  let ?w = "w\<lparr>cd_dirtyComputedSlots := cd_dirtyComputedSlots w - {x}, cd_dirtyReactors := cd_dirtyReactors w - {x},
     cd_subscriptions := (cd_subscriptions w)(x := None), cd_slotsRead := (cd_slotsRead w)(x := None)\<rparr>"
  have "\<forall>k \<in> set (it_keys ord (subs_of w x)). x \<in> set_at (cd_subscribedCells ?w) k" "\<forall>j. cd_subscribedCells ?w j \<noteq> Some {}"
    using m l it by (simp_all add: mirrored_def lean_def)
  from unsubscribe_loop[OF _ this] it obtain d where d:
    "forM (it_keys ord (subs_of w x)) (unsubscribe x) ?w = (Inr (), ?w\<lparr>cd_subscribedCells := d\<rparr>)" "\<forall>j. d j \<noteq> Some {}"
    "\<forall>k. set_at d k = (if k \<in> subs_of w x then set_at (cd_subscribedCells w) k - {x} else set_at (cd_subscribedCells w) k)" by auto
  have c: "?w\<lparr>cd_subscribedCells := d\<rparr> = cutLoose x d w" by (simp add: cutLoose_def)
  have run: "calculationDiscarded ord (Suc fuel) x w =
      thenM (forM (it_objs ord (reads_of w x)) (dropSlot ord fuel x))
       (bindM (gets (\<lambda>w. if x \<in> cd_cellReactors w then w_reactors w x else {})) (\<lambda>reactors.
        thenM (modify (\<lambda>w. w\<lparr>cd_cellReactors := cd_cellReactors w - {x}\<rparr>))
          (forM (it_objs ord reactors) (calculationDiscarded ord fuel)))) (cutLoose x d w)"
    using d(1) by (simp add: calculationDiscarded_Suc c)
  have mir: "mirrored (cutLoose x d w) (P \<union> {x} \<times> reads_of w x)"
    using m d(3) by (auto simp: mirrored_def cutLoose_def set_at_None)
  have lean: "lean (cutLoose x d w)"
    using l d(2) by (auto simp: lean_def cutLoose_def set_at_None)
  have "forgets R w (cutLoose x d w)"
    using x by (auto simp: forgets_def cutLoose_def tracked_def map_le_def)
  with run mir lean that show thesis by blast
qed

lemma depth_cutLoose:
  assumes "lean w" "reads_of w x \<noteq> {}"
  shows "depth (cutLoose x d w) < depth w"
proof -
  have x: "x \<in> dom (cd_slotsRead w)" using assms(2) by (auto simp: set_at_def split: option.splits)
  have fin: "finite (dom (cd_slotsRead w))" using assms(1) by (simp add: lean_def)
  show ?thesis using card_Diff1_less[OF fin x] by (simp add: depth_def cutLoose_def)
qed

lemma dropCellReactors_ok:
  assumes m: "mirrored w P" and l: "lean w" and x: "x \<in> R"
  defines "w' \<equiv> w\<lparr>cd_cellReactors := cd_cellReactors w - {x}\<rparr>"
  shows "mirrored w' P" "lean w'" "forgets R w w'" "x \<in> cd_cellReactors w \<Longrightarrow> depth w' < depth w"
proof -
  show "mirrored w' P" "lean w'" using m l by (simp_all add: w'_def mirrored_def lean_def)
  show "forgets R w w'" using x by (auto simp: w'_def forgets_def tracked_def)
  show "depth w' < depth w" if "x \<in> cd_cellReactors w"
  proof -
    have "finite (cd_cellReactors w)" using l by (simp add: lean_def)
    from card_Diff1_less[OF this that] show ?thesis by (simp add: w'_def depth_def)
  qed
qed

lemma discard_ok:
  assumes ord: "order_ok ord"
  shows "mirrored w P \<Longrightarrow> lean w \<Longrightarrow> depth w < fuel \<Longrightarrow> x \<in> R \<Longrightarrow> closed_in w R \<Longrightarrow>
    \<exists>w'. calculationDiscarded ord fuel x w = (Inr (), w') \<and> discarded R P x w w'"
proof (induction fuel arbitrary: w P x)
  case (Suc fuel)
  note disc = Suc.IH
  obtain d where run: "calculationDiscarded ord (Suc fuel) x w =
      thenM (forM (it_objs ord (reads_of w x)) (dropSlot ord fuel x))
       (bindM (gets (\<lambda>w. if x \<in> cd_cellReactors w then w_reactors w x else {})) (\<lambda>reactors.
        thenM (modify (\<lambda>w. w\<lparr>cd_cellReactors := cd_cellReactors w - {x}\<rparr>))
          (forM (it_objs ord reactors) (calculationDiscarded ord fuel)))) (cutLoose x d w)"
    and w1: "mirrored (cutLoose x d w) (P \<union> {x} \<times> reads_of w x)" "lean (cutLoose x d w)" "forgets R w (cutLoose x d w)"
    by (rule cutLoose_ok[OF ord Suc.prems(1,2,4)])
  let ?w1 = "cutLoose x d w" and ?ss = "it_objs ord (reads_of w x)"
  have fin: "finite (reads_of w x)" using Suc.prems(2) by (simp add: lean_def)
  note it = order_okD(2)[OF ord fin]
  have f1: "?ss \<noteq> [] \<Longrightarrow> depth ?w1 < fuel"
    using depth_cutLoose[OF Suc.prems(2), of x d] Suc.prems(3) it by fastforce
  have P: "P \<inter> {x} \<times> set ?ss = {}" using Suc.prems(1) it by (auto simp: mirrored_def)
  have R1: "set ?ss \<subseteq> R" using Suc.prems(4,5) it by (simp add: closed_in_def)
  have c1: "closed_in ?w1 R" by (rule closed_in_mono[OF Suc.prems(5) w1(3)])
  have m1: "mirrored ?w1 (P \<union> {x} \<times> set ?ss)" using w1(1) it by simp
  obtain w2 where w2: "forM ?ss (dropSlot ord fuel x) ?w1 = (Inr (), w2)" "mirrored w2 P" "lean w2" "forgets R ?w1 w2" "abandons {} ?w1 w2"
    using dropSlots_ok[OF disc m1 P _ w1(2) f1 R1 c1] it by blast
  note g2 = forgets_trans[OF w1(3) w2(4)]
  let ?rs = "it_objs ord (if x \<in> cd_cellReactors w2 then w_reactors w2 x else {})"
  let ?w3 = "w2\<lparr>cd_cellReactors := cd_cellReactors w2 - {x}\<rparr>"
  note w3 = dropCellReactors_ok[OF w2(2,3) Suc.prems(4)]
  have c2: "closed_in w2 R" by (rule closed_in_mono[OF c1 w2(4)])
  have "finite (if x \<in> cd_cellReactors w2 then w_reactors w2 x else {})" using w2(3) by (simp add: lean_def)
  note it2 = order_okD(2)[OF ord this]
  have f3: "?rs \<noteq> [] \<Longrightarrow> depth ?w3 < fuel"
    using w3(4) depth_mono[OF Suc.prems(2) g2] Suc.prems(3) it2 by (cases "x \<in> cd_cellReactors w2") auto
  have R3: "set ?rs \<subseteq> R" using c2 Suc.prems(4) it2 by (auto simp: closed_in_def split: if_splits)
  have nc: "\<forall>r \<in> set ?rs. \<not> isComputed r" using w2(3) it2 by (simp add: lean_def)
  obtain w4 where w4: "forM ?rs (calculationDiscarded ord fuel) ?w3 = (Inr (), w4)" "mirrored w4 P" "lean w4" "forgets R ?w3 w4" "abandons {} ?w3 w4"
    using discardReactors_ok[OF disc w3(1,2) f3 R3 closed_in_mono[OF c2 w3(3)] nc] by blast
  have "abandons {x} w ?w1" by (auto simp: abandons_def tracked_def cutLoose_def)
  note a2 = abandons_trans[OF this w2(5,4)]
  have "abandons {} w2 ?w3" by (simp add: abandons_def tracked_def)
  from abandons_trans[OF abandons_trans[OF a2 this w3(3)] w4(5,4)] have ab: "abandons {x} w w4" by simp
  have g4: "forgets R ?w1 w4" using forgets_trans[OF forgets_trans[OF w2(4) w3(3)] w4(4)] .
  have "\<not> tracked ?w1 x" by (simp add: tracked_def cutLoose_def)
  then have "\<not> tracked w4 x" using tracked_mono[OF g4] by blast
  moreover have "x \<notin> cd_dirtyComputedSlots w4" "x \<notin> cd_dirtyReactors w4"
    using forgets_frame(9,10)[OF g4] by (auto simp: cutLoose_def)
  moreover have "calculationDiscarded ord (Suc fuel) x w = (Inr (), w4)" using run w2(1) w4(1) by simp
  ultimately show ?case using w4 ab forgets_trans[OF w1(3) g4] by (auto simp: discarded_def)
qed simp

lemma newCellDependencies_ok: "(\<And>x. finite (reactors x) \<and> (\<forall>r \<in> reactors x. \<not> isComputed r)) \<Longrightarrow> graph_ok (newCellDependencies reactors vals)"
  by (simp add: graph_ok_def mirrored_def lean_def tracked_def newCellDependencies_def set_at_def)

section \<open>A small graph\<close>

definition demo_order :: order where
  "demo_order = \<lparr>
     it_keys = (\<lambda>S. map VKey (sorted_list_of_set (VKey -` S)) @ map VIndex (sorted_list_of_set (VIndex -` S))),
     it_objs = (\<lambda>S. map CellO (sorted_list_of_set (CellO -` S)) @ map SlotO (sorted_list_of_set (SlotO -` S)) @
       map ComputedO (sorted_list_of_set (ComputedO -` S)) @ map ReactorO (sorted_list_of_set (ReactorO -` S)))\<rparr>"

lemma order_ok_demo: "order_ok demo_order"
proof -
  have inj: "inj VKey" "inj VIndex" "inj CellO" "inj SlotO" "inj ComputedO" "inj ReactorO" by (simp_all add: inj_def)
  have "set (it_keys demo_order S) = S \<and> distinct (it_keys demo_order S)" if "finite S" for S
    using inj finite_vimageI[OF that inj(1)] finite_vimageI[OF that inj(2)]
    by (auto simp: demo_order_def distinct_map inj_on_def image_iff) (metis version_key.exhaust)
  moreover have "set (it_objs demo_order S) = S \<and> distinct (it_objs demo_order S)" if "finite S" for S
    using inj finite_vimageI[OF that inj(3)] finite_vimageI[OF that inj(4)] finite_vimageI[OF that inj(5)] finite_vimageI[OF that inj(6)]
    by (auto simp: demo_order_def distinct_map inj_on_def image_iff) (metis obj.exhaust)
  ultimately show ?thesis by (simp add: order_ok_def)
qed

text \<open>A cell that reads a computed slot, which reads a slot.\<close>

definition demo_graph :: "nat world" where
  "demo_graph = (newCellDependencies (\<lambda>_. {}) (\<lambda>_. 0))\<lparr>
     cd_subscriptions := [CellO 1 \<mapsto> {}, ComputedO 1 \<mapsto> {}], cd_slotsRead := [CellO 1 \<mapsto> {ComputedO 1}, ComputedO 1 \<mapsto> {SlotO 1}],
     cd_slotToReaders := [ComputedO 1 \<mapsto> {CellO 1}, SlotO 1 \<mapsto> {ComputedO 1}]\<rparr>"

lemma demo_graph_fields [simp]:
  "cd_slotsRead demo_graph = [CellO 1 \<mapsto> {ComputedO 1}, ComputedO 1 \<mapsto> {SlotO 1}]"
  "cd_slotToReaders demo_graph = [ComputedO 1 \<mapsto> {CellO 1}, SlotO 1 \<mapsto> {ComputedO 1}]"
  "cd_subscriptions demo_graph = [CellO 1 \<mapsto> {}, ComputedO 1 \<mapsto> {}]" "cd_subscribedCells demo_graph = Map.empty" "cd_cellReactors demo_graph = {}"
  "w_reactors demo_graph = (\<lambda>_. {})"
  by (simp_all add: demo_graph_def newCellDependencies_def)

lemma demo_graph_ok: "graph_ok demo_graph"
  by (simp add: graph_ok_def mirrored_def lean_def tracked_def set_at_def)

lemma demo_graph_depth: "depth demo_graph = 2"
  by (simp add: depth_def)



section \<open>Updating the dependencies of a calculation\<close>

lemma add_at_nonempty: "m j \<noteq> Some {} \<Longrightarrow> add_at k x m j \<noteq> Some {}"
  by (simp add: add_at_def)

lemma subscribe_loop:
  "\<exists>d. forM ks (subscribe x) w = (Inr (), w\<lparr>cd_subscribedCells := d\<rparr>) \<and>
     ((\<forall>j. cd_subscribedCells w j \<noteq> Some {}) \<longrightarrow> (\<forall>j. d j \<noteq> Some {})) \<and>
     (\<forall>k. set_at d k = (if k \<in> set ks then insert x (subscribers w k) else subscribers w k))"
proof (induction ks arbitrary: w)
  case Nil
  show ?case by (intro exI[of _ "cd_subscribedCells w"]) simp
next
  case (Cons k ks)
  let ?w = "w\<lparr>cd_subscribedCells := add_at k x (cd_subscribedCells w)\<rparr>"
  obtain d where d: "forM ks (subscribe x) ?w = (Inr (), ?w\<lparr>cd_subscribedCells := d\<rparr>)"
    "(\<forall>j. cd_subscribedCells ?w j \<noteq> Some {}) \<longrightarrow> (\<forall>j. d j \<noteq> Some {})"
    "\<forall>k. set_at d k = (if k \<in> set ks then insert x (subscribers ?w k) else subscribers ?w k)"
    using Cons.IH[of ?w] by blast
  have "subscribe x k w = (Inr (), ?w)" by (simp add: subscribe_def)
  with d add_at_nonempty[where k = k and x = x] show ?case by (intro exI[of _ d]) auto
qed

lemma addReaders_loop:
  "\<exists>d. forM ss (addReader x) w = (Inr (), w\<lparr>cd_slotToReaders := d\<rparr>) \<and>
     ((\<forall>j. cd_slotToReaders w j \<noteq> Some {}) \<longrightarrow> (\<forall>j. d j \<noteq> Some {})) \<and>
     (\<forall>k. set_at d k = (if k \<in> set ss then insert x (readers w k) else readers w k))"
proof (induction ss arbitrary: w)
  case Nil
  show ?case by (intro exI[of _ "cd_slotToReaders w"]) simp
next
  case (Cons k ss)
  let ?w = "w\<lparr>cd_slotToReaders := add_at k x (cd_slotToReaders w)\<rparr>"
  obtain d where d: "forM ss (addReader x) ?w = (Inr (), ?w\<lparr>cd_slotToReaders := d\<rparr>)"
    "(\<forall>j. cd_slotToReaders ?w j \<noteq> Some {}) \<longrightarrow> (\<forall>j. d j \<noteq> Some {})"
    "\<forall>k. set_at d k = (if k \<in> set ss then insert x (readers ?w k) else readers ?w k)"
    using Cons.IH[of ?w] by blast
  have "addReader x k w = (Inr (), ?w)" by (simp add: addReader_def)
  with d add_at_nonempty[where k = k and x = x] show ?case by (intro exI[of _ d]) auto
qed

text \<open>The state before the loop over the dropped slots.\<close>

definition relinked :: "obj \<Rightarrow> version_key set \<Rightarrow> obj set \<Rightarrow> (version_key \<rightharpoonup> obj set) \<Rightarrow> (obj \<rightharpoonup> obj set) \<Rightarrow> 'v world \<Rightarrow> 'v world" where
  "relinked x subscriptions slots d e w = w\<lparr>cd_subscriptions := (cd_subscriptions w)(x \<mapsto> subscriptions), cd_subscribedCells := d,
     cd_slotsRead := (cd_slotsRead w)(x \<mapsto> slots), cd_slotToReaders := e\<rparr>"

lemma relink_run:
  assumes ord: "order_ok ord" and g: "mirrored w {}" "lean w" and fin: "finite subscriptions" "finite slots"
  obtains d e where
    "updateDependencies ord fuel x subscriptions slots w =
      thenM (forM (it_objs ord (reads_of w x - slots)) (dropSlot ord fuel x))
       (modify (\<lambda>w. w\<lparr>cd_dirtyComputedSlots := cd_dirtyComputedSlots w - {x}, cd_dirtyNodes := cd_dirtyNodes w - {x}\<rparr>))
       (relinked x subscriptions slots d e w)"
    "mirrored (relinked x subscriptions slots d e w) ({x} \<times> (reads_of w x - slots))" "lean (relinked x subscriptions slots d e w)"
    "\<forall>s. set_at e s = (if s \<in> slots then insert x (readers w s) else readers w s)"
proof -
  let ?w0 = "w\<lparr>cd_subscriptions := (cd_subscriptions w)(x \<mapsto> subscriptions)\<rparr>"
  have finw: "finite (subs_of w x)" "finite (reads_of w x)" using g(2) by (simp_all add: lean_def)
  note itk = order_okD(1)[OF ord] and ito = order_okD(2)[OF ord]
  obtain d1 where d1: "forM (it_keys ord (subscriptions - subs_of w x)) (subscribe x) ?w0
      = (Inr (), ?w0\<lparr>cd_subscribedCells := d1\<rparr>)" "\<forall>j. d1 j \<noteq> Some {}"
      "\<forall>k. set_at d1 k = (if k \<in> subscriptions - subs_of w x then insert x (subscribers w k) else subscribers w k)"
    using subscribe_loop[of "it_keys ord (subscriptions - subs_of w x)" x ?w0] g(2) fin itk[of "subscriptions - subs_of w x"]
    by (auto simp: lean_def)
  let ?w1 = "?w0\<lparr>cd_subscribedCells := d1\<rparr>"
  have mem: "\<forall>k \<in> set (it_keys ord (subs_of w x - subscriptions)). x \<in> set_at (cd_subscribedCells ?w1) k"
    using g(1) d1(3) itk[of "subs_of w x - subscriptions"] finw by (auto simp: mirrored_def)
  obtain d where d: "forM (it_keys ord (subs_of w x - subscriptions)) (unsubscribe x) ?w1 = (Inr (), ?w1\<lparr>cd_subscribedCells := d\<rparr>)" "\<forall>j. d j \<noteq> Some {}"
      "\<forall>k. set_at d k = (if k \<in> subs_of w x - subscriptions then set_at d1 k - {x} else set_at d1 k)"
    using unsubscribe_loop[OF _ mem] d1(2) itk[of "subs_of w x - subscriptions"] finw by auto
  let ?w2 = "?w1\<lparr>cd_subscribedCells := d, cd_slotsRead := (cd_slotsRead w)(x \<mapsto> slots)\<rparr>"
  obtain e where e: "forM (it_objs ord (slots - reads_of w x)) (addReader x) ?w2
      = (Inr (), ?w2\<lparr>cd_slotToReaders := e\<rparr>)" "\<forall>j. e j \<noteq> Some {}"
      "\<forall>s. set_at e s = (if s \<in> slots - reads_of w x then insert x (readers w s) else readers w s)"
    using addReaders_loop[of "it_objs ord (slots - reads_of w x)" x ?w2] g(2) fin ito[of "slots - reads_of w x"]
    by (auto simp: lean_def)
  have w: "?w2\<lparr>cd_slotToReaders := e\<rparr> = relinked x subscriptions slots d e w" by (simp add: relinked_def)
  have run: "updateDependencies ord fuel x subscriptions slots w =
      thenM (forM (it_objs ord (reads_of w x - slots)) (dropSlot ord fuel x))
       (modify (\<lambda>w. w\<lparr>cd_dirtyComputedSlots := cd_dirtyComputedSlots w - {x}, cd_dirtyNodes := cd_dirtyNodes w - {x}\<rparr>))
       (relinked x subscriptions slots d e w)"
    using d1(1) d(1) e(1) by (simp add: updateDependencies_def relinked_def)
  have e': "set_at e s = (if s \<in> slots then insert x (readers w s) else readers w s)" for s
    using e(3) g(1) by (auto simp: mirrored_def)
  have m: "mirrored (relinked x subscriptions slots d e w) ({x} \<times> (reads_of w x - slots))"
    using g(1) d(3) d1(3) e' by (auto simp: mirrored_def relinked_def)
  have l: "lean (relinked x subscriptions slots d e w)"
    using g(2) d(2) e(2) fin by (auto simp: lean_def relinked_def)
  show thesis using that[OF run m l] e' by blast
qed

lemma update_ok:
  assumes ord: "order_ok ord" and g: "mirrored w {}" "lean w" and fin: "finite subscriptions" "finite slots" and fuel: "depth w + 1 < fuel"
    and R: "closed_in w R" "reads_of w x - slots \<subseteq> R" "x \<in> R \<Longrightarrow> slots \<subseteq> R"
  obtains d e w2 where
    "updateDependencies ord fuel x subscriptions slots w =
       (Inr (), w2\<lparr>cd_dirtyComputedSlots := cd_dirtyComputedSlots w2 - {x}, cd_dirtyNodes := cd_dirtyNodes w2 - {x}\<rparr>)"
    "forgets R (relinked x subscriptions slots d e w) w2" "abandons {} (relinked x subscriptions slots d e w) w2" "mirrored w2 {}" "lean w2"
    "\<forall>s. set_at e s = (if s \<in> slots then insert x (readers w s) else readers w s)"
proof -
  obtain d e where w1:
    "updateDependencies ord fuel x subscriptions slots w =
      thenM (forM (it_objs ord (reads_of w x - slots)) (dropSlot ord fuel x))
       (modify (\<lambda>w. w\<lparr>cd_dirtyComputedSlots := cd_dirtyComputedSlots w - {x}, cd_dirtyNodes := cd_dirtyNodes w - {x}\<rparr>))
       (relinked x subscriptions slots d e w)"
    "mirrored (relinked x subscriptions slots d e w) ({x} \<times> (reads_of w x - slots))" "lean (relinked x subscriptions slots d e w)"
    "\<forall>s. set_at e s = (if s \<in> slots then insert x (readers w s) else readers w s)"
    by (rule relink_run[OF ord g fin, of fuel x])
  let ?w = "relinked x subscriptions slots d e w" and ?ss = "it_objs ord (reads_of w x - slots)"
  have "finite (reads_of w x - slots)" using g(2) by (simp add: lean_def)
  note it = order_okD(2)[OF ord this]
  have "card (insert x (dom (cd_slotsRead w))) \<le> Suc (card (dom (cd_slotsRead w)))"
    using g(2) by (simp add: lean_def card_insert_if)
  then have f: "depth ?w < fuel" using fuel by (simp add: depth_def relinked_def)
  have c: "closed_in ?w R" using R(1,3) by (simp add: closed_in_def relinked_def)
  have m: "mirrored ?w ({} \<union> {x} \<times> set ?ss)" using w1(2) it by simp
  have "set ?ss \<subseteq> R" "distinct ?ss" using R(2) it by simp_all
  from dropSlots_ok[OF discard_ok[OF ord] m _ this(2) w1(3) f this(1) c] obtain w2 where
    "forM ?ss (dropSlot ord fuel x) ?w = (Inr (), w2)" "mirrored w2 {}" "lean w2" "forgets R ?w w2" "abandons {} ?w w2" by auto
  with w1(1,4) that show thesis by simp
qed

lemma updated_graph:
  assumes "graph_ok w" "\<not> (\<exists>n. x = SlotO n)" "forgets R (relinked x subscriptions slots d e w) w2" "mirrored w2 {}" "lean w2"
  shows "graph_ok (w2\<lparr>cd_dirtyComputedSlots := D, cd_dirtyNodes := N\<rparr>)"
proof -
  have "\<not> tracked (relinked x subscriptions slots d e w) (SlotO n)" for n using assms(1,2) by (auto simp: graph_ok_def tracked_def relinked_def)
  then have "\<not> tracked w2 (SlotO n)" for n using tracked_mono[OF assms(3)] by blast
  with assms(4,5) show ?thesis by (simp add: graph_ok_def mirrored_def lean_def tracked_def)
qed

text \<open>C33. The dependency graph of the cells stays consistent. In a graph whose forward and backward
  dictionaries mirror each other, registering what a calculation has read never raises, and comes to an
  end however deep the graph is; the dictionaries mirror each other again; the calculation is no longer
  dirty; every computed slot that is still tracked and has no reader had none before, that is, a
  computed slot that loses its last reader is discarded. If nothing the calculation has stopped reading
  depends on it (\<open>R\<close> being what that depends on), exactly the new keys and slots are registered for it, and
  nothing else outside \<open>R\<close> has changed.\<close>

theorem dependencies_updated:
  assumes ord: "order_ok ord" and g: "graph_ok w" and x: "\<not> (\<exists>n. x = SlotO n)" and fin: "finite subscriptions" "finite slots"
    and fuel: "depth w + 1 < fuel"
    and R: "closed_in w R" "reads_of w x - slots \<subseteq> R" "x \<in> R \<Longrightarrow> slots \<subseteq> R"
  shows "\<exists>w'. updateDependencies ord fuel x subscriptions slots w = (Inr (), w') \<and> graph_ok w' \<and>
    x \<notin> cd_dirtyComputedSlots w' \<and> x \<notin> cd_dirtyNodes w' \<and>
    (\<forall>s. isComputed s \<longrightarrow> tracked w' s \<longrightarrow> readers w' s = {} \<longrightarrow> readers w s = {}) \<and>
    (x \<notin> R \<longrightarrow> cd_subscriptions w' x = Some subscriptions \<and> cd_slotsRead w' x = Some slots) \<and>
    (\<forall>y. y \<notin> R \<longrightarrow> y \<noteq> x \<longrightarrow> cd_subscriptions w' y = cd_subscriptions w y \<and> cd_slotsRead w' y = cd_slotsRead w y \<and>
       w_computed w' y = w_computed w y)"
proof -
  have g': "mirrored w {}" "lean w" using g by (simp_all add: graph_ok_def)
  obtain d e w2 where u: "updateDependencies ord fuel x subscriptions slots w =
       (Inr (), w2\<lparr>cd_dirtyComputedSlots := cd_dirtyComputedSlots w2 - {x}, cd_dirtyNodes := cd_dirtyNodes w2 - {x}\<rparr>)"
    and f: "forgets R (relinked x subscriptions slots d e w) w2" "abandons {} (relinked x subscriptions slots d e w) w2" and m: "mirrored w2 {}" "lean w2"
    and e: "\<forall>s. set_at e s = (if s \<in> slots then insert x (readers w s) else readers w s)"
    by (rule update_ok[OF ord g' fin fuel R])
  let ?w = "relinked x subscriptions slots d e w"
  let ?w' = "w2\<lparr>cd_dirtyComputedSlots := cd_dirtyComputedSlots w2 - {x}, cd_dirtyNodes := cd_dirtyNodes w2 - {x}\<rparr>"
  have t: "tracked ?w' = tracked w2" "readers ?w' = readers w2" by (simp_all add: tracked_def fun_eq_iff)
  have ok: "graph_ok ?w'" by (rule updated_graph[OF g x f(1) m])
  have leak: "readers w s = {}" if "isComputed s" "tracked ?w' s" "readers ?w' s = {}" for s
    using forgetsD(1)[OF f(1) that(1)] that(2,3) e[rule_format, of s] by (auto simp: t relinked_def split: if_splits)
  have frame: "cd_subscriptions w2 y = cd_subscriptions ?w y \<and> cd_slotsRead w2 y = cd_slotsRead ?w y \<and> w_computed w2 y = w_computed ?w y"
    if "y \<notin> R" for y using forgetsD(5)[OF f(1) that] forgetsD(4)[OF f(1), of y] that by blast
  show ?thesis
    by (intro exI[of _ ?w'] conjI) (use u ok leak frame in \<open>auto simp: relinked_def\<close>)
qed

theorem dependencies_updated_witness:
  "\<exists>w'. updateDependencies demo_order 4 (CellO 1) {} {SlotO 2} demo_graph = (Inr (), w') \<and> graph_ok w' \<and>
     cd_slotsRead w' (CellO 1) = Some {SlotO 2} \<and> \<not> (tracked w' (ComputedO 1) \<and> readers w' (ComputedO 1) = {})"
proof -
  have R: "closed_in demo_graph {ComputedO 1, SlotO 1}" "reads_of demo_graph (CellO 1) - {SlotO 2} \<subseteq> {ComputedO 1, SlotO 1}"
    by (auto simp: closed_in_def set_at_def)
  have x: "\<not> (\<exists>n. CellO 1 = SlotO n)" and d: "depth demo_graph + 1 < 4" by (simp_all add: demo_graph_depth)
  have "readers demo_graph (ComputedO 1) \<noteq> {}" by (simp add: set_at_def)
  moreover have "isComputed (ComputedO 1)" "finite {SlotO 2}" "CellO 1 \<notin> {ComputedO 1, SlotO 1}" by simp_all
  ultimately show ?thesis
    using dependencies_updated[OF order_ok_demo demo_graph_ok x finite.emptyI _ d R] by blast
qed

section \<open>Dirty calculations\<close>

definition dirtied :: "obj set \<Rightarrow> 'v world \<Rightarrow> 'v world" where
  "dirtied X w = w\<lparr>cd_dirtyComputedSlots := cd_dirtyComputedSlots w \<union> {x \<in> X. isComputed x},
     cd_dirtyNodes := cd_dirtyNodes w \<union> {x \<in> X. \<exists>n. x = CellO n}, cd_dirtyReactors := cd_dirtyReactors w \<union> {x \<in> X. \<exists>n. x = ReactorO n},
     w_computed := (\<lambda>x. if x \<in> X \<and> isComputed x then (w_computed w x)\<lparr>cs_valueUpToDate := False, cs_dependencies := None\<rparr> else w_computed w x)\<rparr>"

lemma dirtied_simps [simp]:
  "cd_subscriptions (dirtied X w) = cd_subscriptions w" "cd_slotsRead (dirtied X w) = cd_slotsRead w"
  "cd_subscribedCells (dirtied X w) = cd_subscribedCells w" "cd_slotToReaders (dirtied X w) = cd_slotToReaders w"
  "w_slotValue (dirtied X w) = w_slotValue w" "w_reactors (dirtied X w) = w_reactors w" "cd_cellReactors (dirtied X w) = cd_cellReactors w"
  "w_depsHeap (dirtied X w) = w_depsHeap w" "w_nextDeps (dirtied X w) = w_nextDeps w"
  by (simp_all add: dirtied_def)

lemma dirtied_fields:
  "cd_dirtyComputedSlots (dirtied X w) = cd_dirtyComputedSlots w \<union> {x \<in> X. isComputed x}"
  "cd_dirtyNodes (dirtied X w) = cd_dirtyNodes w \<union> {x \<in> X. \<exists>n. x = CellO n}"
  "cd_dirtyReactors (dirtied X w) = cd_dirtyReactors w \<union> {x \<in> X. \<exists>n. x = ReactorO n}"
  "w_computed (dirtied X w) x = (if x \<in> X \<and> isComputed x
     then (w_computed w x)\<lparr>cs_valueUpToDate := False, cs_dependencies := None\<rparr> else w_computed w x)"
  by (simp_all add: dirtied_def)

lemma dirtied_empty: "dirtied {} w = w"
  by (simp add: dirtied_def)

lemma dirtied_twice: "dirtied Y (dirtied X w) = dirtied (X \<union> Y) w"
  by (auto simp: dirtied_def intro!: world.equality)

lemma markCalcDirty_run: "\<not> (\<exists>n. x = SlotO n) \<Longrightarrow> markCalcDirty x w = (Inr (), dirtied {x} w)"
  by (cases x) (auto simp: markCalcDirty_def markDirty_def updComputed_def dirtied_def fun_eq_iff intro!: world.equality)

lemma markCalcsDirty_run: "\<forall>x \<in> set xs. \<not> (\<exists>n. x = SlotO n) \<Longrightarrow> forM xs markCalcDirty w = (Inr (), dirtied (set xs) w)"
proof (induction xs arbitrary: w)
  case (Cons x xs)
  then have "markCalcDirty x w = (Inr (), dirtied {x} w)" by (intro markCalcDirty_run) auto
  with Cons show ?case by (simp add: dirtied_twice)
qed (simp add: dirtied_empty)

lemma graph_calcs:
  assumes "graph_ok w"
  shows "finite (readers w s)" "\<forall>x \<in> readers w s. \<not> (\<exists>n. x = SlotO n)" "finite (subscribers w k)" "\<forall>x \<in> subscribers w k. \<not> (\<exists>n. x = SlotO n)"
    "readers w s \<subseteq> dom (cd_slotsRead w)" "subscribers w k \<subseteq> dom (cd_slotsRead w)"
proof -
  have m: "mirrored w {}" "lean w" "\<And>n. \<not> tracked w (SlotO n)" using assms by (simp_all add: graph_ok_def)
  have r: "x \<in> readers w s \<Longrightarrow> cd_slotsRead w x \<noteq> None" "x \<in> subscribers w k \<Longrightarrow> cd_subscriptions w x \<noteq> None" for x
    using m(1) by (auto simp: mirrored_def set_at_def split: option.splits)
  show d: "readers w s \<subseteq> dom (cd_slotsRead w)" "subscribers w k \<subseteq> dom (cd_slotsRead w)" using r m(2) by (auto simp: lean_def)
  then show "finite (readers w s)" "finite (subscribers w k)" using m(2) finite_subset by (auto simp: lean_def)
  show "\<forall>x \<in> readers w s. \<not> (\<exists>n. x = SlotO n)" "\<forall>x \<in> subscribers w k. \<not> (\<exists>n. x = SlotO n)"
    using r m(3) unfolding tracked_def by blast+
qed

lemma graph_dirtied [simp]: "graph_ok (dirtied X w) = graph_ok w"
  by (simp add: graph_ok_def mirrored_def lean_def tracked_def)

lemma markReadersDirty_run: "order_ok ord \<Longrightarrow> graph_ok w \<Longrightarrow> markReadersDirty ord s w = (Inr (), dirtied (readers w s) w)"
  using graph_calcs(1,2)[of w s] order_okD(2)[of ord "readers w s"] by (simp add: markReadersDirty_def markCalcsDirty_run)

lemma markSubscribersDirty_run: "order_ok ord \<Longrightarrow> graph_ok w \<Longrightarrow> markSubscribersDirty ord k w = (Inr (), dirtied (subscribers w k) w)"
  using graph_calcs(3,4)[of w k] order_okD(2)[of ord "subscribers w k"] by (simp add: markSubscribersDirty_def markCalcsDirty_run)

lemma markSlotsDirty_run:
  "order_ok ord \<Longrightarrow> graph_ok w \<Longrightarrow> markSlotsDirty ord ss w = (Inr (), dirtied (\<Union>s \<in> set ss. readers w s) w)"
proof (induction ss arbitrary: w)
  case (Cons s ss)
  from Cons.IH[of "dirtied (readers w s) w"] Cons.prems show ?case
    by (simp add: markSlotsDirty_def markReadersDirty_run dirtied_twice)
qed (simp add: markSlotsDirty_def dirtied_empty)

lemma odbValuesChanged_run:
  "order_ok ord \<Longrightarrow> graph_ok w \<Longrightarrow> odbValuesChanged ord ks w = (Inr (), dirtied (\<Union>k \<in> set ks. subscribers w k) w)"
proof (induction ks arbitrary: w)
  case (Cons k ks)
  from Cons.IH[of "dirtied (subscribers w k) w"] Cons.prems show ?case
    by (simp add: odbValuesChanged_def markSubscribersDirty_run dirtied_twice)
qed (simp add: odbValuesChanged_def dirtied_empty)

text \<open>C35. Exactly the calculations that depend on a change become dirty. When keys of the database or slots
  change, in a consistent graph: nothing is raised; the computed slots added to the dirty ones are
  those that have read one of the changed keys or slots, likewise the cells and the reactors; the computed
  slots among them are told that their value is out of date, no other object and no dependency changes.\<close>

theorem changes_make_readers_dirty:
  assumes "order_ok ord" and "graph_ok w"
  shows "\<exists>w' w''. odbValuesChanged ord keys w = (Inr (), w') \<and> markSlotsDirty ord slots w' = (Inr (), w'') \<and> graph_ok w'' \<and>
    (let stale = {x. subs_of w x \<inter> set keys \<noteq> {} \<or> reads_of w x \<inter> set slots \<noteq> {}} in
     cd_dirtyComputedSlots w'' = cd_dirtyComputedSlots w \<union> {x \<in> stale. isComputed x} \<and>
     cd_dirtyNodes w'' = cd_dirtyNodes w \<union> {x \<in> stale. \<exists>n. x = CellO n} \<and>
     cd_dirtyReactors w'' = cd_dirtyReactors w \<union> {x \<in> stale. \<exists>n. x = ReactorO n} \<and>
     (\<forall>x. cs_valueUpToDate (w_computed w'' x) = (cs_valueUpToDate (w_computed w x) \<and> \<not> (x \<in> stale \<and> isComputed x))) \<and>
     cd_subscriptions w'' = cd_subscriptions w \<and> cd_slotsRead w'' = cd_slotsRead w)"
proof -
  let ?K = "\<Union>k \<in> set keys. subscribers w k" and ?S = "\<Union>s \<in> set slots. readers w s"
  have run: "odbValuesChanged ord keys w = (Inr (), dirtied ?K w)" "markSlotsDirty ord slots (dirtied ?K w) = (Inr (), dirtied (?K \<union> ?S) w)"
    using odbValuesChanged_run[OF assms, of keys] markSlotsDirty_run[OF assms(1), of "dirtied ?K w" slots] assms(2)
    by (simp_all add: dirtied_twice)
  have "?K \<union> ?S = {x. subs_of w x \<inter> set keys \<noteq> {} \<or> reads_of w x \<inter> set slots \<noteq> {}}"
    using assms(2) by (auto simp: graph_ok_def mirrored_def)
  with run assms(2) show ?thesis
    by (intro exI[of _ "dirtied ?K w"] exI[of _ "dirtied (?K \<union> ?S) w"]) (simp add: Let_def dirtied_fields)
qed

theorem changes_make_readers_dirty_witness:
  "\<exists>w' w''. odbValuesChanged demo_order [] demo_graph = (Inr (), w') \<and> markSlotsDirty demo_order [SlotO 1] w' = (Inr (), w'') \<and>
     cd_dirtyComputedSlots w'' = {ComputedO 1} \<and> cd_dirtyNodes w'' = {}"
proof -
  have stale: "{x. subs_of demo_graph x \<inter> set [] \<noteq> {} \<or> reads_of demo_graph x \<inter> set [SlotO 1] \<noteq> {}} = {ComputedO 1}"
    by (auto simp: set_at_def split: if_splits)
  have clean: "cd_dirtyComputedSlots demo_graph = {}" "cd_dirtyNodes demo_graph = {}"
    by (simp_all add: demo_graph_def newCellDependencies_def)
  obtain w' w'' where "odbValuesChanged demo_order [] demo_graph = (Inr (), w')" "markSlotsDirty demo_order [SlotO 1] w' = (Inr (), w'')"
      "cd_dirtyComputedSlots w'' = {} \<union> {x \<in> {ComputedO 1}. isComputed x}" "cd_dirtyNodes w'' = {} \<union> {x \<in> {ComputedO 1}. \<exists>n. x = CellO n}"
    using changes_make_readers_dirty[OF order_ok_demo demo_graph_ok, of "[]" "[SlotO 1]", unfolded stale Let_def clean] by blast
  moreover have "{x \<in> {ComputedO 1}. isComputed x} = {ComputedO 1}" "{x \<in> {ComputedO 1}. \<exists>n. x = CellO n} = {}" by auto
  ultimately show ?thesis by (intro exI[of _ w'] exI[of _ w'']) simp
qed

section \<open>Reactors\<close>

text \<open>\<open>_cellReactors\<close> keeps the set object itself, so that the old and the new reactors of a cell are always the same
  ones: a reactor added to a cell after the cell was first calculated is never scheduled, and one removed is
  never discarded.\<close>

lemma later_reactors_are_ignored:
  assumes "order_ok ord" and "cell \<in> cd_cellReactors w"
  shows "\<exists>w'. updateCellReactors ord fuel cell w = (Inr (), w') \<and> cd_dirtyReactors w' = cd_dirtyReactors w"
proof -
  have "it_objs ord {} = []" using order_okD(2)[OF assms(1), of "{}"] by simp
  with assms(2) show ?thesis by (simp add: updateCellReactors_def)
qed

end
