(* ===== verification/Computed_Slots.thy ===== *)
theory Computed_Slots
  imports Cell_Graph
begin

text \<open>
  Computed slots (\<open>web/cells/computed_slot.py\<close>, \<open>slot.py\<close>) read in a read-only dependency context
  (\<open>DependencyContext\<close>, \<open>dependency_context.py\<close>), and the loop that brings the dirty ones up to date
  (\<open>CellDependencies.recalculateDirtyComputedSlots\<close>), both run inside a \<open>CellsContext\<close>.

  The function of a computed slot is user code: it is a tree of reads (\<open>calc\<close>) that may read slots, computed slots
  and keys of the database, may see the exception a computed slot raises, and ends with a value or an
  exception; \<open>exc\<close> gives the exceptions that the cells themselves raise as values. Two values are equal if \<open>==\<close> says
  so. The database is the snapshot \<open>odb\<close> of the current transaction id. Reading objects that the client has not
  subscribed to (\<open>SubscribeAndRetry\<close>) is not modelled, and a read-only view has no revision conflicts.

  The theorem of this file is that the loop comes to an end and leaves every computed slot in use with the value of
  its function, if it takes the dirty slots lowest level first; the lemma after it shows that other
  orders can leave a wrong value behind.
\<close>

section \<open>Model\<close>

datatype 'v calc =
    Return 'v
  | Throw 'v
  | ReadSlot obj "'v \<Rightarrow> 'v calc"
  | ReadKey version_key "'v \<Rightarrow> 'v calc"
  | ReadComputed obj "bool \<times> 'v \<Rightarrow> 'v calc"

text \<open>What a read-only \<open>DependencyContext\<close> collects; \<open>subscriptions\<close> are the reads of its view.\<close>

record dependency_context =
  dc_slotsRead :: "obj set"
  dc_subscriptions :: "version_key set"
  dc_slotDepsRead :: "nat option set"

definition newContext :: dependency_context where
  "newContext = \<lparr>dc_slotsRead = {}, dc_subscriptions = {}, dc_slotDepsRead = {}\<rparr>"

definition slotRead :: "'v world \<Rightarrow> obj \<Rightarrow> dependency_context \<Rightarrow> dependency_context" where
  "slotRead w slot dc = dc\<lparr>dc_slotsRead := insert slot (dc_slotsRead dc),
     dc_slotDepsRead := if isComputed slot then insert (cs_dependencies (w_computed w slot)) (dc_slotDepsRead dc) else dc_slotDepsRead dc\<rparr>"

lemma slotRead_simps [simp]:
  "dc_slotsRead (slotRead w s dc) = insert s (dc_slotsRead dc)" "dc_subscriptions (slotRead w s dc) = dc_subscriptions dc"
  by (simp_all add: slotRead_def)

text \<open>The outcome of a call whose exceptions the caller can see. Not returning is not an exception.\<close>

definition attempt :: "('s, 'a) pyM \<Rightarrow> ('s, py_error + 'a) pyM" where
  "attempt m = (\<lambda>s. case m s of (r, s') \<Rightarrow> if r = Inl NotReturned then (Inl NotReturned, s') else (Inr r, s'))"

lemma attempt_ok [simp]: "m s = (Inr a, s') \<Longrightarrow> attempt m s = (Inr (Inr a), s')"
  by (simp add: attempt_def)

text \<open>\<open>context.calculate(func)\<close>: run the function, \<open>ensure\<close> being \<open>ComputedSlot.ensureCalculated\<close>.\<close>

primrec calculate ::
  "'v calc \<Rightarrow> (obj \<Rightarrow> ('v world, unit) pyM) \<Rightarrow> (py_error \<Rightarrow> 'v) \<Rightarrow> (version_key \<Rightarrow> 'v) \<Rightarrow> dependency_context
     \<Rightarrow> ('v world, (bool \<times> 'v) \<times> dependency_context) pyM" where
  "calculate (Return v) ensure exc odb dc = ret ((False, v), dc)"
| "calculate (Throw e) ensure exc odb dc = ret ((True, e), dc)"
| "calculate (ReadSlot s k) ensure exc odb dc =
     bindM (gets (\<lambda>w. (w_slotValue w s, slotRead w s dc))) (\<lambda>(v, dc'). calculate (k v) ensure exc odb dc')"
| "calculate (ReadKey key k) ensure exc odb dc =
     calculate (k (odb key)) ensure exc odb (dc\<lparr>dc_subscriptions := insert key (dc_subscriptions dc)\<rparr>)"
| "calculate (ReadComputed s k) ensure exc odb dc =
     bindM (attempt (ensure s)) (\<lambda>outcome. case outcome of
       Inl e \<Rightarrow> calculate (k (True, exc e)) ensure exc odb dc
     | Inr _ \<Rightarrow> bindM (gets (\<lambda>w. (cs_valueAndIsException (w_computed w s), slotRead w s dc))) (\<lambda>(v, dc').
         case v of None \<Rightarrow> calculate (k (True, exc TypeError)) ensure exc odb dc' | Some p \<Rightarrow> calculate (k p) ensure exc odb dc'))"

text \<open>The end of \<open>ensureCalculated\<close>, after the function has run. The depth of the graph bounds the recursion of
  \<open>updateDependencies\<close>.\<close>

definition storeResult :: "order \<Rightarrow> obj \<Rightarrow> (bool \<times> 'v) option \<Rightarrow> bool \<times> 'v \<Rightarrow> dependency_context \<Rightarrow> ('v world, unit) pyM" where
  "storeResult ord s oldVal v dc =
     thenM (modify (updComputed s (\<lambda>c. c\<lparr>cs_valueAndIsException := Some v, cs_isExecuting := False, cs_valueUpToDate := True\<rparr>)))
     (bindM (gets (\<lambda>w. (cs_cells (w_computed w s), depth w))) (\<lambda>(cells, n).
      thenM (if cells then updateDependencies ord (n + 2) s (dc_subscriptions dc) (dc_slotsRead dc) else raise AttributeError)
     (thenM (if oldVal \<noteq> Some v then markSlotsDirty ord [s] else ret ())
      (modify (\<lambda>w. updComputed s (\<lambda>c. c\<lparr>cs_dependencies := Some (w_nextDeps w)\<rparr>)
         (w\<lparr>w_depsHeap := (w_depsHeap w)(w_nextDeps w \<mapsto>
              \<lparr>dp_subSlots = dc_slotsRead dc, dp_subscriptions = dc_subscriptions dc, dp_subSlotDeps = dc_slotDepsRead dc\<rparr>),
            w_nextDeps := w_nextDeps w + 1\<rparr>))))))"

fun ensureCalculated ::
  "order \<Rightarrow> (obj \<Rightarrow> 'v calc) \<Rightarrow> (py_error \<Rightarrow> 'v) \<Rightarrow> (version_key \<Rightarrow> 'v) \<Rightarrow> nat \<Rightarrow> obj \<Rightarrow> ('v world, unit) pyM" where
  "ensureCalculated ord defs exc odb 0 s = raise NotReturned"
| "ensureCalculated ord defs exc odb (Suc fuel) s =
     bindM (gets (\<lambda>w. w_computed w s)) (\<lambda>c.
       if cs_isExecuting c then raise GenericException
       else
         thenM (modify (updComputed s (\<lambda>c. c\<lparr>cs_cells := True\<rparr>)))
         (if cs_valueUpToDate c then ret ()
          else
            thenM (modify (updComputed s (\<lambda>c. c\<lparr>cs_isExecuting := True\<rparr>)))
            (bindM (calculate (defs s) (ensureCalculated ord defs exc odb fuel) exc odb newContext) (\<lambda>(v, dc).
             storeResult ord s (cs_valueAndIsException c) v dc))))"

text \<open>\<open>while self._dirtyComputedSlots: self._dirtyComputedSlots.pop().ensureCalculated()\<close>; what \<open>pop\<close> takes is up to \<open>ord\<close>.\<close>

fun recalculateDirtyComputedSlots ::
  "order \<Rightarrow> (obj \<Rightarrow> 'v calc) \<Rightarrow> (py_error \<Rightarrow> 'v) \<Rightarrow> (version_key \<Rightarrow> 'v) \<Rightarrow> nat \<Rightarrow> nat \<Rightarrow> ('v world, unit) pyM" where
  "recalculateDirtyComputedSlots ord defs exc odb fuel 0 =
     bindM (gets cd_dirtyComputedSlots) (\<lambda>dirty. if dirty = {} then ret () else raise NotReturned)"
| "recalculateDirtyComputedSlots ord defs exc odb fuel (Suc n) =
     bindM (gets cd_dirtyComputedSlots) (\<lambda>dirty.
       if dirty = {} then ret ()
       else let s = hd (it_objs ord dirty) in
         thenM (modify (\<lambda>w. w\<lparr>cd_dirtyComputedSlots := cd_dirtyComputedSlots w - {s}\<rparr>))
         (thenM (ensureCalculated ord defs exc odb fuel s) (recalculateDirtyComputedSlots ord defs exc odb fuel n)))"

text \<open>What \<open>updateFromWriteableDependencyContext\<close> does to the dependencies: the calculations that have read a slot or a key
  that was written become dirty. The messages and callbacks it hands on belong to \<open>Cells\<close>.\<close>

definition updateFromWriteableDependencyContext :: "order \<Rightarrow> obj set \<Rightarrow> version_key set \<Rightarrow> ('v world, unit) pyM" where
  "updateFromWriteableDependencyContext ord writtenSlots odbKeysWritten =
     thenM (markSlotsDirty ord (it_objs ord writtenSlots)) (odbValuesChanged ord (it_keys ord odbKeysWritten))"

declare ensureCalculated.simps(2) [simp del]

section \<open>What the values should be\<close>

text \<open>What the function of a slot gives on the values at hand, and what it reads.\<close>

primrec evaluate :: "'v calc \<Rightarrow> 'v world \<Rightarrow> (version_key \<Rightarrow> 'v) \<Rightarrow> obj set \<Rightarrow> version_key set \<Rightarrow> ((bool \<times> 'v) \<times> obj set \<times> version_key set) option" where
  "evaluate (Return v) w odb S K = Some ((False, v), S, K)"
| "evaluate (Throw e) w odb S K = Some ((True, e), S, K)"
| "evaluate (ReadSlot s k) w odb S K = evaluate (k (w_slotValue w s)) w odb (insert s S) K"
| "evaluate (ReadKey key k) w odb S K = evaluate (k (odb key)) w odb S (insert key K)"
| "evaluate (ReadComputed s k) w odb S K =
     (case cs_valueAndIsException (w_computed w s) of None \<Rightarrow> None | Some p \<Rightarrow> evaluate (k p) w odb (insert s S) K)"

text \<open>The same with nothing remembered: every computed slot is calculated from the slots and the database whenever it is read.
  A recursion deeper than \<open>n\<close> is cut off.\<close>

primrec denote :: "'v calc \<Rightarrow> (obj \<Rightarrow> bool \<times> 'v) \<Rightarrow> (obj \<Rightarrow> 'v) \<Rightarrow> (version_key \<Rightarrow> 'v) \<Rightarrow> bool \<times> 'v" where
  "denote (Return v) computed slots odb = (False, v)"
| "denote (Throw e) computed slots odb = (True, e)"
| "denote (ReadSlot s k) computed slots odb = denote (k (slots s)) computed slots odb"
| "denote (ReadKey key k) computed slots odb = denote (k (odb key)) computed slots odb"
| "denote (ReadComputed s k) computed slots odb = denote (k (computed s)) computed slots odb"

primrec meaning :: "(obj \<Rightarrow> 'v calc) \<Rightarrow> (py_error \<Rightarrow> 'v) \<Rightarrow> (obj \<Rightarrow> 'v) \<Rightarrow> (version_key \<Rightarrow> 'v) \<Rightarrow> nat \<Rightarrow> obj \<Rightarrow> bool \<times> 'v" where
  "meaning defs exc slots odb 0 s = (True, exc NotReturned)"
| "meaning defs exc slots odb (Suc n) s = denote (defs s) (meaning defs exc slots odb n) slots odb"

text \<open>The definitions are not cyclic: \<open>level\<close> decreases along every read.\<close>

primrec reads_below :: "'v calc \<Rightarrow> (obj \<Rightarrow> nat) \<Rightarrow> nat \<Rightarrow> bool" where
  "reads_below (Return v) level m = True"
| "reads_below (Throw e) level m = True"
| "reads_below (ReadSlot s k) level m = ((\<exists>n. s = SlotO n) \<and> level s < m \<and> (\<forall>v. reads_below (k v) level m))"
| "reads_below (ReadKey key k) level m = (\<forall>v. reads_below (k v) level m)"
| "reads_below (ReadComputed s k) level m = (isComputed s \<and> level s < m \<and> (\<forall>p. reads_below (k p) level m))"

definition settled :: "(obj \<Rightarrow> 'v calc) \<Rightarrow> (version_key \<Rightarrow> 'v) \<Rightarrow> 'v world \<Rightarrow> obj \<Rightarrow> bool" where
  "settled defs odb w s \<longleftrightarrow> (\<exists>v S K. evaluate (defs s) w odb {} {} = Some (v, S, K) \<and>
     cs_valueAndIsException (w_computed w s) = Some v \<and> cd_slotsRead w s = Some S \<and> cd_subscriptions w s = Some K)"

text \<open>The state while the slots \<open>X\<close> are being calculated: every value marked up to date is what its function gives on
  the values at hand, and the computed slots in use that are not up to date are known to be dirty.\<close>

definition consistent :: "(obj \<Rightarrow> 'v calc) \<Rightarrow> (obj \<Rightarrow> nat) \<Rightarrow> (version_key \<Rightarrow> 'v) \<Rightarrow> obj set \<Rightarrow> 'v world \<Rightarrow> bool" where
  "consistent defs level odb X w \<longleftrightarrow> graph_ok w \<and>
     (\<forall>s. cs_valueUpToDate (w_computed w s) \<longrightarrow> isComputed s \<and> cs_cells (w_computed w s) \<and> settled defs odb w s) \<and>
     (\<forall>s. cs_isExecuting (w_computed w s) \<longleftrightarrow> s \<in> X) \<and>
     (\<forall>s \<in> X. isComputed s \<and> cs_cells (w_computed w s) \<and> \<not> cs_valueUpToDate (w_computed w s)) \<and>
     (\<forall>s. isComputed s \<longrightarrow> tracked w s \<longrightarrow> s \<notin> X \<longrightarrow> \<not> cs_valueUpToDate (w_computed w s) \<longrightarrow> s \<in> cd_dirtyComputedSlots w) \<and>
     (\<forall>s. isComputed s \<longrightarrow> \<not> tracked w s \<longrightarrow> readers w s = {}) \<and>
     (\<forall>s \<in> cd_dirtyComputedSlots w. isComputed s) \<and> finite (cd_dirtyComputedSlots w) \<and>
     (\<forall>s t. isComputed s \<longrightarrow> t \<in> reads_of w s \<longrightarrow> level t < level s \<and> (isComputed t \<or> (\<exists>n. t = SlotO n))) \<and>
     (\<forall>c \<in> cd_cellReactors w. \<exists>n. c = CellO n)"

lemma consistentD:
  assumes "consistent defs level odb X w"
  shows "graph_ok w"
    "cs_valueUpToDate (w_computed w s) \<Longrightarrow> isComputed s \<and> cs_cells (w_computed w s) \<and> settled defs odb w s"
    "cs_isExecuting (w_computed w s) \<longleftrightarrow> s \<in> X"
    "s \<in> X \<Longrightarrow> isComputed s \<and> cs_cells (w_computed w s) \<and> \<not> cs_valueUpToDate (w_computed w s)"
    "isComputed s \<Longrightarrow> tracked w s \<Longrightarrow> s \<notin> X \<Longrightarrow> \<not> cs_valueUpToDate (w_computed w s) \<Longrightarrow> s \<in> cd_dirtyComputedSlots w"
    "isComputed s \<Longrightarrow> \<not> tracked w s \<Longrightarrow> readers w s = {}"
    "s \<in> cd_dirtyComputedSlots w \<Longrightarrow> isComputed s" "finite (cd_dirtyComputedSlots w)"
    "isComputed s \<Longrightarrow> t \<in> reads_of w s \<Longrightarrow> level t < level s \<and> (isComputed t \<or> (\<exists>n. t = SlotO n))"
    "c \<in> cd_cellReactors w \<Longrightarrow> \<exists>n. c = CellO n"
  using assms unfolding consistent_def by simp_all

lemma settled_tracked: "settled defs odb w s \<Longrightarrow> tracked w s"
  by (auto simp: settled_def tracked_def)

section \<open>Evaluation depends on what is read\<close>

lemma evaluate_mono: "evaluate c w odb S K = Some (v, S', K') \<Longrightarrow> S \<subseteq> S' \<and> K \<subseteq> K'"
proof (induction c arbitrary: S K)
  case (ReadSlot s k)
  from ReadSlot.IH[of "k (w_slotValue w s)" "insert s S" K] ReadSlot.prems show ?case by auto
next
  case (ReadKey key k)
  from ReadKey.IH[of "k (odb key)" S "insert key K"] ReadKey.prems show ?case by auto
next
  case (ReadComputed s k)
  then obtain p where "evaluate (k p) w odb (insert s S) K = Some (v, S', K')"
    by (auto split: if_splits option.splits)
  from ReadComputed.IH[OF rangeI this] show ?case by auto
qed auto

lemma evaluate_cong:
  assumes "\<And>s. s \<in> S' \<Longrightarrow> w_slotValue w' s = w_slotValue w s \<and> cs_valueAndIsException (w_computed w' s) = cs_valueAndIsException (w_computed w s)"
    and "\<And>key. key \<in> K' \<Longrightarrow> odb' key = odb key"
  shows "evaluate c w odb S K = Some (v, S', K') \<Longrightarrow> evaluate c w' odb' S K = Some (v, S', K')"
proof (induction c arbitrary: S K)
  case (ReadSlot s k)
  have e: "evaluate (k (w_slotValue w s)) w odb (insert s S) K = Some (v, S', K')" using ReadSlot.prems by simp
  have "w_slotValue w' s = w_slotValue w s" using evaluate_mono[OF e] assms(1) by simp
  with ReadSlot.IH[OF rangeI e] show ?case by simp
next
  case (ReadKey key k)
  have e: "evaluate (k (odb key)) w odb S (insert key K) = Some (v, S', K')" using ReadKey.prems by simp
  have "odb' key = odb key" using evaluate_mono[OF e] assms(2) by simp
  with ReadKey.IH[OF rangeI e] show ?case by simp
next
  case (ReadComputed s k)
  then obtain p where p: "cs_valueAndIsException (w_computed w s) = Some p" and e: "evaluate (k p) w odb (insert s S) K = Some (v, S', K')"
    by (auto split: option.splits)
  have "cs_valueAndIsException (w_computed w' s) = Some p" using evaluate_mono[OF e] assms(1) p by simp
  with ReadComputed.IH[OF rangeI e] show ?case by simp
qed auto

lemma evaluate_below:
  "reads_below c level m \<Longrightarrow> evaluate c w odb S K = Some (v, S', K') \<Longrightarrow> t \<in> S' \<Longrightarrow>
     t \<in> S \<or> level t < m \<and> (isComputed t \<or> (\<exists>n. t = SlotO n))"
proof (induction c arbitrary: S K)
  case (ReadSlot s k)
  then show ?case using ReadSlot.IH[of "k (w_slotValue w s)" "insert s S" K] by auto
next
  case (ReadKey key k)
  then show ?case using ReadKey.IH[of "k (odb key)" S "insert key K"] by auto
next
  case (ReadComputed s k)
  then obtain p where e: "evaluate (k p) w odb (insert s S) K = Some (v, S', K')"
    by (auto split: if_splits option.splits)
  have b: "reads_below (k p) level m" "isComputed s" "level s < m" using ReadComputed.prems(1) by (cases p, simp)+
  from ReadComputed.IH[OF rangeI b(1) e ReadComputed.prems(3)] b(2,3) show ?case by auto
qed auto

lemma evaluate_finite: "evaluate c w odb S K = Some (v, S', K') \<Longrightarrow> finite S \<Longrightarrow> finite K \<Longrightarrow> finite S' \<and> finite K'"
proof (induction c arbitrary: S K)
  case (ReadSlot s k)
  then show ?case using ReadSlot.IH[of "k (w_slotValue w s)" "insert s S" K] by auto
next
  case (ReadKey key k)
  then show ?case using ReadKey.IH[of "k (odb key)" S "insert key K"] by auto
next
  case (ReadComputed s k)
  then obtain p where "evaluate (k p) w odb (insert s S) K = Some (v, S', K')"
    by (auto split: if_splits option.splits)
  then show ?case using ReadComputed.IH[of "k p" "insert s S" K] ReadComputed.prems by auto
qed auto

section \<open>Storing a result\<close>

text \<open>What \<open>storeResult\<close> may change, \<open>R\<close> being what it may discard.\<close>

definition stored ::
  "obj \<Rightarrow> (bool \<times> 'v) option \<Rightarrow> bool \<times> 'v \<Rightarrow> obj set \<Rightarrow> version_key set \<Rightarrow> obj set \<Rightarrow> 'v world \<Rightarrow> 'v world \<Rightarrow> bool" where
  "stored s old v S K R w w' \<longleftrightarrow> graph_ok w' \<and>
     cd_slotsRead w' \<subseteq>\<^sub>m (cd_slotsRead w)(s \<mapsto> S) \<and> cd_subscriptions w' \<subseteq>\<^sub>m (cd_subscriptions w)(s \<mapsto> K) \<and>
     cd_slotsRead w' s = Some S \<and> cd_subscriptions w' s = Some K \<and>
     (\<forall>x. x \<notin> R \<longrightarrow> x \<noteq> s \<longrightarrow> cd_slotsRead w' x = cd_slotsRead w x \<and> cd_subscriptions w' x = cd_subscriptions w x) \<and>
     w_slotValue w' = w_slotValue w \<and> cd_cellReactors w' \<subseteq> cd_cellReactors w \<and>
     (\<forall>x. isComputed x \<longrightarrow> tracked w x \<longrightarrow> \<not> tracked w' x \<longrightarrow> \<not> cs_valueUpToDate (w_computed w' x) \<and> readers w' x = {}) \<and>
     (\<forall>x. readers w' x \<subseteq> (if x \<in> S then insert s (readers w x) else readers w x)) \<and>
     cs_valueAndIsException (w_computed w' s) = Some v \<and> cs_valueUpToDate (w_computed w' s) \<and> cs_cells (w_computed w' s) \<and>
     \<not> cs_isExecuting (w_computed w' s) \<and>
     (\<forall>x. x \<noteq> s \<longrightarrow> cs_valueUpToDate (w_computed w' x) \<longrightarrow> w_computed w' x = w_computed w x \<and> (x \<in> readers w' s \<longrightarrow> isComputed x \<longrightarrow> old = Some v)) \<and>
     (\<forall>x. x \<noteq> s \<longrightarrow> cs_valueAndIsException (w_computed w' x) = cs_valueAndIsException (w_computed w x) \<or> readers w' x = {}) \<and>
     (\<forall>x. x \<noteq> s \<longrightarrow> cs_isExecuting (w_computed w' x) = cs_isExecuting (w_computed w x)) \<and>
     (\<forall>x. x \<noteq> s \<longrightarrow> x \<notin> R \<longrightarrow> cs_cells (w_computed w' x) = cs_cells (w_computed w x) \<and>
        (x \<notin> readers w s \<longrightarrow> w_computed w' x = w_computed w x)) \<and>
     (\<forall>x. x \<noteq> s \<longrightarrow> tracked w' x \<longrightarrow> \<not> cs_valueUpToDate (w_computed w' x) \<longrightarrow> x \<in> cd_dirtyComputedSlots w' \<or> \<not> cs_valueUpToDate (w_computed w x)) \<and>
     cd_dirtyComputedSlots w' \<subseteq> (cd_dirtyComputedSlots w \<union> {x \<in> readers w s. isComputed x}) - {s} \<and>
     (\<forall>x. x \<noteq> s \<longrightarrow> x \<in> cd_dirtyComputedSlots w \<longrightarrow> x \<notin> cd_dirtyComputedSlots w' \<longrightarrow> x \<in> R \<and> \<not> tracked w' x)"

lemma storedD:
  assumes "stored s old v S K R w w'"
  shows "graph_ok w'" "cd_slotsRead w' \<subseteq>\<^sub>m (cd_slotsRead w)(s \<mapsto> S)" "cd_subscriptions w' \<subseteq>\<^sub>m (cd_subscriptions w)(s \<mapsto> K)"
    "cd_slotsRead w' s = Some S" "cd_subscriptions w' s = Some K"
    "x \<notin> R \<Longrightarrow> x \<noteq> s \<Longrightarrow> cd_slotsRead w' x = cd_slotsRead w x \<and> cd_subscriptions w' x = cd_subscriptions w x"
    "w_slotValue w' = w_slotValue w" "cd_cellReactors w' \<subseteq> cd_cellReactors w"
    "isComputed x \<Longrightarrow> tracked w x \<Longrightarrow> \<not> tracked w' x \<Longrightarrow> \<not> cs_valueUpToDate (w_computed w' x) \<and> readers w' x = {}"
    "readers w' x \<subseteq> (if x \<in> S then insert s (readers w x) else readers w x)"
    "cs_valueAndIsException (w_computed w' s) = Some v" "cs_valueUpToDate (w_computed w' s)" "cs_cells (w_computed w' s)"
    "\<not> cs_isExecuting (w_computed w' s)"
    "x \<noteq> s \<Longrightarrow> cs_valueUpToDate (w_computed w' x) \<Longrightarrow> w_computed w' x = w_computed w x \<and> (x \<in> readers w' s \<longrightarrow> isComputed x \<longrightarrow> old = Some v)"
    "x \<noteq> s \<Longrightarrow> cs_valueAndIsException (w_computed w' x) = cs_valueAndIsException (w_computed w x) \<or> readers w' x = {}"
    "x \<noteq> s \<Longrightarrow> cs_isExecuting (w_computed w' x) = cs_isExecuting (w_computed w x)"
    "x \<noteq> s \<Longrightarrow> x \<notin> R \<Longrightarrow> cs_cells (w_computed w' x) = cs_cells (w_computed w x) \<and> (x \<notin> readers w s \<longrightarrow> w_computed w' x = w_computed w x)"
    "x \<noteq> s \<Longrightarrow> tracked w' x \<Longrightarrow> \<not> cs_valueUpToDate (w_computed w' x) \<Longrightarrow> x \<in> cd_dirtyComputedSlots w' \<or> \<not> cs_valueUpToDate (w_computed w x)"
    "cd_dirtyComputedSlots w' \<subseteq> (cd_dirtyComputedSlots w \<union> {x \<in> readers w s. isComputed x}) - {s}"
    "x \<noteq> s \<Longrightarrow> x \<in> cd_dirtyComputedSlots w \<Longrightarrow> x \<notin> cd_dirtyComputedSlots w' \<Longrightarrow> x \<in> R \<and> \<not> tracked w' x"
  using assms unfolding stored_def by simp_all

definition withDeps :: "obj \<Rightarrow> dependency_context \<Rightarrow> 'v world \<Rightarrow> 'v world" where
  "withDeps s dc w = updComputed s (\<lambda>c. c\<lparr>cs_dependencies := Some (w_nextDeps w)\<rparr>)
     (w\<lparr>w_depsHeap := (w_depsHeap w)(w_nextDeps w \<mapsto>
          \<lparr>dp_subSlots = dc_slotsRead dc, dp_subscriptions = dc_subscriptions dc, dp_subSlotDeps = dc_slotDepsRead dc\<rparr>),
        w_nextDeps := w_nextDeps w + 1\<rparr>)"

lemma updComputed_simps [simp]:
  "cd_slotsRead (updComputed s f w) = cd_slotsRead w" "cd_subscriptions (updComputed s f w) = cd_subscriptions w"
  "cd_slotToReaders (updComputed s f w) = cd_slotToReaders w" "cd_subscribedCells (updComputed s f w) = cd_subscribedCells w"
  "cd_cellReactors (updComputed s f w) = cd_cellReactors w" "w_reactors (updComputed s f w) = w_reactors w"
  "w_slotValue (updComputed s f w) = w_slotValue w" "cd_dirtyComputedSlots (updComputed s f w) = cd_dirtyComputedSlots w"
  "tracked (updComputed s f w) = tracked w" "graph_ok (updComputed s f w) = graph_ok w" "depth (updComputed s f w) = depth w"
  "closed_in (updComputed s f w) = closed_in w"
  "w_computed (updComputed s f w) x = (if x = s then f (w_computed w s) else w_computed w x)"
  by (simp_all add: updComputed_def tracked_def graph_ok_def mirrored_def lean_def depth_def closed_in_def fun_eq_iff)

lemma withDeps_simps [simp]:
  "cd_slotsRead (withDeps s dc w) = cd_slotsRead w" "cd_subscriptions (withDeps s dc w) = cd_subscriptions w"
  "cd_slotToReaders (withDeps s dc w) = cd_slotToReaders w" "cd_cellReactors (withDeps s dc w) = cd_cellReactors w"
  "w_slotValue (withDeps s dc w) = w_slotValue w" "cd_dirtyComputedSlots (withDeps s dc w) = cd_dirtyComputedSlots w"
  "tracked (withDeps s dc w) = tracked w" "graph_ok (withDeps s dc w) = graph_ok w"
  "w_computed (withDeps s dc w) x = (if x = s then (w_computed w s)\<lparr>cs_dependencies := Some (w_nextDeps w)\<rparr> else w_computed w x)"
  by (simp_all add: withDeps_def tracked_def graph_ok_def mirrored_def lean_def fun_eq_iff)

text \<open>The three steps: the value, the dependencies (\<open>w3\<close>), the readers that become dirty.\<close>

lemma storeResult_steps:
  assumes "order_ok ord" "graph_ok w3" "cs_cells (w_computed w s)"
    and "updateDependencies ord (depth w + 2) s (dc_subscriptions dc) (dc_slotsRead dc)
      (updComputed s (\<lambda>c. c\<lparr>cs_valueAndIsException := Some v, cs_isExecuting := False, cs_valueUpToDate := True\<rparr>) w) = (Inr (), w3)"
  shows "storeResult ord s old v dc w = (Inr (), withDeps s dc (dirtied (if old = Some v then {} else readers w3 s) w3))"
  using assms markSlotsDirty_run[OF assms(1,2), of "[s]"]
  by (cases "old = Some v") (simp_all add: storeResult_def withDeps_def dirtied_empty)

lemma store_run:
  fixes w :: "'v world"
  assumes ord: "order_ok ord" and g: "graph_ok w" and s: "isComputed s" "cs_cells (w_computed w s)"
    and fin: "finite (dc_subscriptions dc)" "finite (dc_slotsRead dc)"
    and R: "closed_in w R" "reads_of w s - dc_slotsRead dc \<subseteq> R" "s \<notin> R" and ns: "s \<notin> dc_slotsRead dc"
  shows "\<exists>w'. storeResult ord s old v dc w = (Inr (), w') \<and> stored s old v (dc_slotsRead dc) (dc_subscriptions dc) R w w'"
proof -
  let ?S = "dc_slotsRead dc" and ?K = "dc_subscriptions dc"
  define w0 where "w0 = updComputed s (\<lambda>c. c\<lparr>cs_valueAndIsException := Some v, cs_isExecuting := False, cs_valueUpToDate := True\<rparr>) w"
  have gw0: "graph_ok w0" using g by (simp add: w0_def)
  then have g0: "mirrored w0 {}" "lean w0" by (simp_all add: graph_ok_def)
  have R0: "closed_in w0 R" "reads_of w0 s - ?S \<subseteq> R" "s \<in> R \<Longrightarrow> ?S \<subseteq> R" using R by (simp_all add: w0_def)
  have fuel: "depth w0 + 1 < depth w + 2" by (simp add: w0_def)
  obtain d e w2 where u: "updateDependencies ord (depth w + 2) s ?K ?S w0 =
       (Inr (), w2\<lparr>cd_dirtyComputedSlots := cd_dirtyComputedSlots w2 - {s}, cd_dirtyNodes := cd_dirtyNodes w2 - {s}\<rparr>)"
    and f: "forgets R (relinked s ?K ?S d e w0) w2" and a: "abandons {} (relinked s ?K ?S d e w0) w2" and m: "mirrored w2 {}" "lean w2"
    and e: "\<forall>t. set_at e t = (if t \<in> ?S then insert s (readers w0 t) else readers w0 t)"
    by (rule update_ok[OF ord g0 fin fuel R0])
  define r where "r = relinked s ?K ?S d e w0"
  note f = f[folded r_def] and a = a[folded r_def]
  define w3 where "w3 = w2\<lparr>cd_dirtyComputedSlots := cd_dirtyComputedSlots w2 - {s}, cd_dirtyNodes := cd_dirtyNodes w2 - {s}\<rparr>"
  have "\<not> (\<exists>n. s = SlotO n)" using s(1) by (cases s) simp_all
  then have g3: "graph_ok w3" unfolding w3_def by (rule updated_graph[OF gw0 _ f[unfolded r_def] m])
  define D where "D = (if old = Some v then {} else readers w3 s)"
  define w' where "w' = withDeps s dc (dirtied D w3)"
  have run: "storeResult ord s old v dc w = (Inr (), w')"
    unfolding w'_def D_def by (rule storeResult_steps[OF ord g3 s(2)]) (use u in \<open>simp add: w0_def w3_def\<close>)
  have rf: "cd_slotsRead r = (cd_slotsRead w)(s \<mapsto> ?S)" "cd_subscriptions r = (cd_subscriptions w)(s \<mapsto> ?K)" "w_slotValue r = w_slotValue w"
      "cd_cellReactors r = cd_cellReactors w" "cd_dirtyComputedSlots r = cd_dirtyComputedSlots w" "w_computed r = w_computed w0"
      "readers r x = (if x \<in> ?S then insert s (readers w x) else readers w x)" for x
    using e by (simp_all add: r_def relinked_def w0_def)
  have f3: "cd_slotsRead w' = cd_slotsRead w2" "cd_subscriptions w' = cd_subscriptions w2" "readers w' x = readers w2 x"
      "w_slotValue w' = w_slotValue w2" "cd_cellReactors w' = cd_cellReactors w2" "tracked w' = tracked w2"
      "cd_dirtyComputedSlots w' = (cd_dirtyComputedSlots w2 - {s}) \<union> {x \<in> D. isComputed x}" for x
    by (simp_all add: w'_def w3_def dirtied_fields tracked_def fun_eq_iff)
  have rD: "readers w3 s = readers w2 s" by (simp add: w3_def)
  have reads: "cd_slotsRead w2 s = Some ?S \<and> cd_subscriptions w2 s = Some ?K"
    using forgetsD(5)[OF f R(3)] by (simp add: rf)
  have DR: "D \<subseteq> readers w s" using forgets_frame(11)[OF f, of s] rf(7)[of s] ns by (auto simp: D_def rD)
  have "s \<notin> readers w2 s" using m(1) reads ns by (simp add: mirrored_def set_at_def)
  then have nD: "s \<notin> D" by (simp add: D_def rD)
  have comp: "w_computed w' x = (if x \<in> D \<and> isComputed x then (w_computed w2 x)\<lparr>cs_valueUpToDate := False, cs_dependencies := None\<rparr> else w_computed w2 x)"
    if "x \<noteq> s" for x using that by (simp add: w'_def w3_def dirtied_fields)
  have same: "w_computed w2 x = w_computed w x \<or> x \<in> R \<and> readers w2 x = {} \<and> \<not> tracked w2 x \<and> \<not> cs_valueUpToDate (w_computed w2 x)"
    if "x \<noteq> s" for x using forgetsD(4)[OF f, of x] that by (auto simp: rf w0_def)
  have cs: "w_computed w2 s = w_computed w0 s" using forgetsD(4)[OF f, of s] R(3) by (auto simp: rf)
  have self: "cs_valueAndIsException (w_computed w' s) = Some v" "cs_valueUpToDate (w_computed w' s)" "cs_cells (w_computed w' s)"
      "\<not> cs_isExecuting (w_computed w' s)"
    using cs s nD by (simp_all add: w'_def w3_def dirtied_fields w0_def)
  have tr: "tracked w x \<Longrightarrow> tracked r x" for x by (auto simp: tracked_def rf)
  have lost: "\<not> cs_valueUpToDate (w_computed w' x) \<and> readers w' x = {}" if "isComputed x" "tracked w x" "\<not> tracked w' x" for x
  proof -
    have "x \<noteq> s" using that(3) reads by (auto simp: f3 tracked_def)
    with abandonsD[OF a that(1) tr[OF that(2)]] that(3) show ?thesis by (simp add: f3 comp)
  qed
  have fresh: "w_computed w' x = w_computed w x \<and> (x \<in> readers w' s \<longrightarrow> isComputed x \<longrightarrow> old = Some v)"
    if "x \<noteq> s" "cs_valueUpToDate (w_computed w' x)" for x
  proof -
    have nx: "\<not> (x \<in> D \<and> isComputed x)" using that by (auto simp: comp)
    then have "w_computed w' x = w_computed w2 x" unfolding comp[OF that(1)] by (simp only: if_False)
    with same[OF that(1)] that(2) nx show ?thesis by (auto simp: D_def f3 rD split: if_splits)
  qed
  have dirt: "x \<in> cd_dirtyComputedSlots w' \<or> \<not> cs_valueUpToDate (w_computed w x)"
    if "x \<noteq> s" "tracked w' x" "\<not> cs_valueUpToDate (w_computed w' x)" for x
    using that same[OF that(1)] by (auto simp: comp f3 split: if_splits)
  have kept: "x \<in> R \<and> \<not> tracked w' x" if "x \<noteq> s" "x \<in> cd_dirtyComputedSlots w" "x \<notin> cd_dirtyComputedSlots w'" for x
    using forgetsD(2)[OF f, of x] that by (auto simp: f3 rf)
  have frame: "cs_cells (w_computed w' x) = cs_cells (w_computed w x) \<and> (x \<notin> readers w s \<longrightarrow> w_computed w' x = w_computed w x)"
    if "x \<noteq> s" "x \<notin> R" for x using same[OF that(1)] that DR by (auto simp: comp)
  have ex: "cs_isExecuting (w_computed w' x) = cs_isExecuting (w_computed w x)" if "x \<noteq> s" for x
    using forgets_frame(12)[OF f, of x] that by (simp add: comp rf w0_def)
  have val: "cs_valueAndIsException (w_computed w' x) = cs_valueAndIsException (w_computed w x) \<or> readers w' x = {}" if "x \<noteq> s" for x
    using same[OF that] that by (auto simp: comp f3)
  have "stored s old v ?S ?K R w w'"
    unfolding stored_def
  proof (intro conjI allI impI)
    show "graph_ok w'" using g3 by (simp add: w'_def)
    show "cd_slotsRead w' \<subseteq>\<^sub>m (cd_slotsRead w)(s \<mapsto> ?S)" "cd_subscriptions w' \<subseteq>\<^sub>m (cd_subscriptions w)(s \<mapsto> ?K)"
      using forgets_frame(1,2)[OF f] by (simp_all add: f3 rf)
    show "cd_dirtyComputedSlots w' \<subseteq> (cd_dirtyComputedSlots w \<union> {x \<in> readers w s. isComputed x}) - {s}"
      using forgets_frame(9)[OF f] DR nD by (auto simp: f3 rf)
    show "readers w' x \<subseteq> (if x \<in> ?S then insert s (readers w x) else readers w x)" for x
      using forgets_frame(11)[OF f, of x] by (simp only: f3 rf)
    show "cd_slotsRead w' x = cd_slotsRead w x" "cd_subscriptions w' x = cd_subscriptions w x" if "x \<notin> R" "x \<noteq> s" for x
      using forgetsD(5)[OF f that(1)] that(2) by (simp_all add: f3 rf)
  qed (use reads self lost fresh dirt kept frame ex val forgets_frame(3,5)[OF f] in \<open>simp_all add: f3 rf\<close>)
  with run show ?thesis by blast
qed

text \<open>What a slot that is up to date has read is still there, so its value is still right.\<close>

lemma stored_settled:
  assumes st: "stored s (cs_valueAndIsException (w_computed w s)) v S K R w w'"
    and old: "settled defs odb w x" "isComputed x" and x: "x \<noteq> s" "cs_valueUpToDate (w_computed w' x)"
  shows "settled defs odb w' x"
proof -
  have same: "w_computed w' x = w_computed w x" and r: "x \<in> readers w' s \<Longrightarrow> cs_valueAndIsException (w_computed w s) = Some v"
    using storedD(15)[OF st x] old(2) by simp_all
  obtain u T L where e: "evaluate (defs x) w odb {} {} = Some (u, T, L)" "cs_valueAndIsException (w_computed w x) = Some u"
      "cd_slotsRead w x = Some T" "cd_subscriptions w x = Some L"
    using old(1) by (auto simp: settled_def)
  have "tracked w' x" using storedD(9)[OF st old(2) settled_tracked[OF old(1)]] x(2) by blast
  moreover have g: "mirrored w' {}" "lean w'" using storedD(1)[OF st] by (simp_all add: graph_ok_def)
  ultimately have "x \<in> dom (cd_slotsRead w')" "x \<in> dom (cd_subscriptions w')" by (auto simp: tracked_def lean_def)
  then have k: "cd_slotsRead w' x = Some T" "cd_subscriptions w' x = Some L"
    using storedD(2,3)[OF st] x(1) e(3,4) by (auto simp: map_le_def)
  have "w_slotValue w' t = w_slotValue w t \<and> cs_valueAndIsException (w_computed w' t) = cs_valueAndIsException (w_computed w t)" if "t \<in> T" for t
  proof -
    have "x \<in> readers w' t" using g(1) k(1) that by (simp add: mirrored_def set_at_def)
    then show ?thesis using storedD(16)[OF st, of t] storedD(7,11)[OF st] r by (cases "t = s") auto
  qed
  from evaluate_cong[OF this refl e(1)] show ?thesis using e(2) k same by (auto simp: settled_def)
qed

lemma store_consistent:
  assumes c: "consistent defs level odb (insert s X) w" and sX: "s \<notin> X" and X: "\<forall>x \<in> X. level s < level x"
    and ev: "evaluate (defs s) w odb {} {} = Some (v, S, K)" and b: "reads_below (defs s) level (level s)"
    and utd: "\<forall>t \<in> S. isComputed t \<longrightarrow> cs_valueUpToDate (w_computed w t)" and R: "\<forall>x \<in> R. level x < level s"
    and st: "stored s (cs_valueAndIsException (w_computed w s)) v S K R w w'"
  shows "consistent defs level odb X w'"
proof -
  note D = storedD[OF st]
  have below: "level t < level s \<and> (isComputed t \<or> (\<exists>n. t = SlotO n))" if "t \<in> S" for t using evaluate_below[OF b ev that] by simp
  have m: "mirrored w' {}" using D(1) by (simp add: graph_ok_def)
  have XR: "x \<notin> R \<and> x \<noteq> s" if "x \<in> X" for x using R X sX that by fastforce
  have s: "isComputed s" using consistentD(4)[OF c] by blast
  have "w_slotValue w' t = w_slotValue w t \<and> cs_valueAndIsException (w_computed w' t) = cs_valueAndIsException (w_computed w t)" if "t \<in> S" for t
  proof -
    have "s \<in> readers w' t" using m D(4) that by (simp add: mirrored_def set_at_def)
    then show ?thesis using D(16)[of t] D(7) below[OF that] by auto
  qed
  from evaluate_cong[OF this refl ev] have "settled defs odb w' s" using D(4,5,11) by (simp add: settled_def)
  then have good: "isComputed x \<and> cs_cells (w_computed w' x) \<and> settled defs odb w' x" if "cs_valueUpToDate (w_computed w' x)" for x
  proof (cases "x = s")
    case False
    then have same: "w_computed w' x = w_computed w x" using D(15)[OF False that] by simp
    with consistentD(2)[OF c, of x] that have "isComputed x \<and> cs_cells (w_computed w x) \<and> settled defs odb w x" by simp
    with same stored_settled[OF st _ _ False that] show ?thesis by simp
  qed (use s D(13) in simp)
  have before: "tracked w x" if "tracked w' x" "x \<noteq> s" for x
    using D(2,3) that unfolding tracked_def map_le_def by (metis domIff fun_upd_apply)
  have dirty: "x \<in> cd_dirtyComputedSlots w'" if "isComputed x" "tracked w' x" "x \<notin> X" "\<not> cs_valueUpToDate (w_computed w' x)" for x
  proof -
    have ne: "x \<noteq> s" using that(4) D(12) by auto
    show ?thesis using D(19)[OF ne that(2,4)] consistentD(5)[OF c that(1) before[OF that(2) ne]] D(21)[OF ne] that(2,3) ne by blast
  qed
  have noreader: "readers w' x = {}" if "isComputed x" "\<not> tracked w' x" for x
  proof (cases "tracked w x")
    case False
    then have "x \<notin> S" using utd consistentD(2)[OF c, of x] settled_tracked[of defs odb w x] that(1) by blast
    with D(10)[of x] consistentD(6)[OF c that(1) False] show ?thesis by simp
  qed (use D(9)[OF that(1) _ that(2)] in simp)
  have running: "cs_isExecuting (w_computed w' x) \<longleftrightarrow> x \<in> X" for x
    using D(14) D(17)[of x] consistentD(3)[OF c, of x] sX by (cases "x = s") auto
  have calc: "isComputed x \<and> cs_cells (w_computed w' x) \<and> \<not> cs_valueUpToDate (w_computed w' x)" if "x \<in> X" for x
    using consistentD(4)[OF c, of x] XR[OF that] that D(15)[of x] D(18)[of x] by auto
  have levels: "level t < level x \<and> (isComputed t \<or> (\<exists>n. t = SlotO n))" if "isComputed x" "t \<in> reads_of w' x" for x t
  proof (cases "x = s")
    case True
    then show ?thesis using below that(2) D(4) by (simp add: set_at_def)
  next
    case False
    have "t \<in> reads_of w x" using map_le_set_at[OF D(2), of x] that(2) False by (auto simp: set_at_def)
    then show ?thesis by (rule consistentD(9)[OF c that(1)])
  qed
  have dcomp: "isComputed x" if "x \<in> cd_dirtyComputedSlots w'" for x using D(20) that consistentD(7)[OF c, of x] by auto
  have dfin: "finite (cd_dirtyComputedSlots w')"
    using finite_subset[OF D(20)] consistentD(8)[OF c] graph_calcs(1)[OF consistentD(1)[OF c], of s] by simp
  show ?thesis
    unfolding consistent_def
    by (intro conjI allI impI ballI) (use D(1,8) good running calc dirty noreader dcomp dfin levels consistentD(10)[OF c] in \<open>blast+\<close>)
qed

section \<open>Calculating a slot\<close>

text \<open>Reading computed slots of a level below \<open>m\<close> only adds slots that nobody had read before.\<close>

definition grows :: "(obj \<Rightarrow> nat) \<Rightarrow> nat \<Rightarrow> 'v world \<Rightarrow> 'v world \<Rightarrow> bool" where
  "grows level m w w' \<longleftrightarrow> w_slotValue w' = w_slotValue w \<and> cd_dirtyComputedSlots w' = cd_dirtyComputedSlots w \<and>
     (\<forall>x. tracked w x \<or> cs_valueUpToDate (w_computed w x) \<or> cs_isExecuting (w_computed w x) \<or> m \<le> level x \<longrightarrow>
        w_computed w' x = w_computed w x \<and> cd_slotsRead w' x = cd_slotsRead w x \<and> cd_subscriptions w' x = cd_subscriptions w x)"

lemma growsD:
  assumes "grows level m w w'"
  shows "w_slotValue w' = w_slotValue w" "cd_dirtyComputedSlots w' = cd_dirtyComputedSlots w"
    "tracked w x \<or> cs_valueUpToDate (w_computed w x) \<or> cs_isExecuting (w_computed w x) \<or> m \<le> level x \<Longrightarrow>
       w_computed w' x = w_computed w x \<and> cd_slotsRead w' x = cd_slotsRead w x \<and> cd_subscriptions w' x = cd_subscriptions w x"
  using assms unfolding grows_def by blast+

lemma grows_refl: "grows level m w w"
  by (simp add: grows_def)

lemma grows_trans:
  assumes 1: "grows level m w w'" and 2: "grows level m w' w''"
  shows "grows level m w w''"
proof -
  have "w_computed w'' x = w_computed w x \<and> cd_slotsRead w'' x = cd_slotsRead w x \<and> cd_subscriptions w'' x = cd_subscriptions w x"
    if k: "tracked w x \<or> cs_valueUpToDate (w_computed w x) \<or> cs_isExecuting (w_computed w x) \<or> m \<le> level x" for x
    using growsD(3)[OF 1 k] growsD(3)[OF 2, of x] k by (simp add: tracked_def)
  then show ?thesis using growsD(1,2)[OF 1] growsD(1,2)[OF 2] by (simp add: grows_def)
qed

lemma grows_mono: "grows level m w w' \<Longrightarrow> m \<le> n \<Longrightarrow> grows level n w w'"
  by (auto simp: grows_def)

text \<open>What a read of the computed slot \<open>t\<close> promises.\<close>

definition ensures :: "(obj \<Rightarrow> ('v world, unit) pyM) \<Rightarrow> (obj \<Rightarrow> 'v calc) \<Rightarrow> (obj \<Rightarrow> nat) \<Rightarrow> (version_key \<Rightarrow> 'v) \<Rightarrow> obj set \<Rightarrow> nat \<Rightarrow> bool" where
  "ensures ensure defs level odb X m \<longleftrightarrow> (\<forall>t w. consistent defs level odb X w \<longrightarrow> isComputed t \<longrightarrow> level t < m \<longrightarrow>
     (\<forall>d \<in> cd_dirtyComputedSlots w. m \<le> level d) \<longrightarrow>
     (\<exists>w'. ensure t w = (Inr (), w') \<and> consistent defs level odb X w' \<and> grows level m w w' \<and> cs_valueUpToDate (w_computed w' t)))"

lemma ensuresD:
  assumes "ensures ensure defs level odb X m" "consistent defs level odb X w" "isComputed t" "level t < m" "\<forall>d \<in> cd_dirtyComputedSlots w. m \<le> level d"
  obtains w' where "ensure t w = (Inr (), w')" "consistent defs level odb X w'" "grows level m w w'" "cs_valueUpToDate (w_computed w' t)"
  using assms unfolding ensures_def by blast

lemma calculate_ok:
  assumes ens: "ensures ensure defs level odb X m"
  shows "reads_below c level m \<Longrightarrow> consistent defs level odb X w \<Longrightarrow> \<forall>d \<in> cd_dirtyComputedSlots w. m \<le> level d \<Longrightarrow>
    \<exists>v dc' w'. calculate c ensure exc odb dc w = (Inr (v, dc'), w') \<and> consistent defs level odb X w' \<and> grows level m w w' \<and>
      evaluate c w' odb (dc_slotsRead dc) (dc_subscriptions dc) = Some (v, dc_slotsRead dc', dc_subscriptions dc') \<and>
      (\<forall>t \<in> dc_slotsRead dc'. t \<in> dc_slotsRead dc \<or> (isComputed t \<longrightarrow> cs_valueUpToDate (w_computed w' t)))"
proof (induction c arbitrary: w dc)
  case (ReadSlot s k)
  then obtain n where n: "s = SlotO n" by auto
  have b: "reads_below (k (w_slotValue w s)) level m" using ReadSlot.prems(1) by simp
  obtain v dc' w' where ih: "calculate (k (w_slotValue w s)) ensure exc odb (slotRead w s dc) w = (Inr (v, dc'), w')"
      "consistent defs level odb X w'" "grows level m w w'"
      "evaluate (k (w_slotValue w s)) w' odb (insert s (dc_slotsRead dc)) (dc_subscriptions dc) = Some (v, dc_slotsRead dc', dc_subscriptions dc')"
      "\<forall>t \<in> dc_slotsRead dc'. t \<in> insert s (dc_slotsRead dc) \<or> (isComputed t \<longrightarrow> cs_valueUpToDate (w_computed w' t))"
    using ReadSlot.IH[OF rangeI b ReadSlot.prems(2,3), of "slotRead w s dc"] by auto
  then show ?case using growsD(1)[OF ih(3)] n by (intro exI[of _ v] exI[of _ dc'] exI[of _ w']) auto
next
  case (ReadKey key k)
  have b: "reads_below (k (odb key)) level m" using ReadKey.prems(1) by simp
  from ReadKey.IH[OF rangeI b ReadKey.prems(2,3), of "dc\<lparr>dc_subscriptions := insert key (dc_subscriptions dc)\<rparr>"]
  show ?case by simp
next
  case (ReadComputed s k)
  have s: "isComputed s" "level s < m" "\<And>p. reads_below (k p) level m" using ReadComputed.prems(1) by (auto simp del: split_paired_All)
  obtain w1 where w1: "ensure s w = (Inr (), w1)" "consistent defs level odb X w1" "grows level m w w1" "cs_valueUpToDate (w_computed w1 s)"
    by (rule ensuresD[OF ens ReadComputed.prems(2) s(1,2) ReadComputed.prems(3)])
  obtain p where p: "cs_valueAndIsException (w_computed w1 s) = Some p"
    using consistentD(2)[OF w1(2,4)] by (auto simp: settled_def)
  have d: "\<forall>d \<in> cd_dirtyComputedSlots w1. m \<le> level d" using ReadComputed.prems(3) growsD(2)[OF w1(3)] by simp
  obtain v dc' w' where ih: "calculate (k p) ensure exc odb (slotRead w1 s dc) w1 = (Inr (v, dc'), w')"
      "consistent defs level odb X w'" "grows level m w1 w'"
      "evaluate (k p) w' odb (insert s (dc_slotsRead dc)) (dc_subscriptions dc) = Some (v, dc_slotsRead dc', dc_subscriptions dc')"
      "\<forall>t \<in> dc_slotsRead dc'. t \<in> insert s (dc_slotsRead dc) \<or> (isComputed t \<longrightarrow> cs_valueUpToDate (w_computed w' t))"
    using ReadComputed.IH[OF rangeI s(3) w1(2) d, of p "slotRead w1 s dc"] by auto
  have "w_computed w' s = w_computed w1 s" using growsD(3)[OF ih(3)] w1(4) by blast
  then show ?case using w1(1,4) p ih grows_trans[OF w1(3) ih(3)]
    by (intro exI[of _ v] exI[of _ dc'] exI[of _ w']) auto
qed (auto simp: grows_refl)

lemma start_calculating:
  assumes c: "consistent defs level odb X w" and s: "isComputed s" "s \<notin> X" "\<not> cs_valueUpToDate (w_computed w s)"
  shows "consistent defs level odb (insert s X) (updComputed s (\<lambda>c. c\<lparr>cs_isExecuting := True\<rparr>)
    (updComputed s (\<lambda>c. c\<lparr>cs_cells := True\<rparr>) (w\<lparr>cd_dirtyComputedSlots := cd_dirtyComputedSlots w - {s}\<rparr>)))"
    (is "consistent _ _ _ _ ?w")
proof -
  have "evaluate (defs x) ?w odb {} {} = Some (v, S, K)" if "evaluate (defs x) w odb {} {} = Some (v, S, K)" for x v S K
    by (rule evaluate_cong[OF _ refl that]) simp
  then have "settled defs odb ?w x" if "x \<noteq> s" "settled defs odb w x" for x
    using that unfolding settled_def by fastforce
  moreover have "tracked ?w = tracked w" "graph_ok ?w = graph_ok w"
    by (simp_all add: tracked_def graph_ok_def mirrored_def lean_def fun_eq_iff)
  ultimately show ?thesis using c s unfolding consistent_def by simp
qed

lemma ensureCalculated_run:
  assumes "\<not> cs_isExecuting (w_computed w s)" "\<not> cs_valueUpToDate (w_computed w s)"
    and "calculate (defs s) (ensureCalculated ord defs exc odb fuel) exc odb newContext
      (updComputed s (\<lambda>c. c\<lparr>cs_isExecuting := True\<rparr>) (updComputed s (\<lambda>c. c\<lparr>cs_cells := True\<rparr>) w)) = (Inr (v, dc), w1)"
  shows "ensureCalculated ord defs exc odb (Suc fuel) s w = storeResult ord s (cs_valueAndIsException (w_computed w s)) v dc w1"
  using assms by (simp add: ensureCalculated.simps(2))

text \<open>A slot is calculated while the slots \<open>X\<close> are, and what it discards has a lower level (is in \<open>R\<close>).\<close>

lemma calculate_and_store:
  assumes ord: "order_ok ord" and ens: "ensures (ensureCalculated ord defs exc odb fuel) defs level odb (insert s X) (level s)"
    and acyclic: "reads_below (defs s) level (level s)"
    and c: "consistent defs level odb (insert s X) (updComputed s (\<lambda>c. c\<lparr>cs_isExecuting := True\<rparr>) (updComputed s (\<lambda>c. c\<lparr>cs_cells := True\<rparr>) w))"
    and s: "isComputed s" "s \<notin> X" "\<not> cs_valueUpToDate (w_computed w s)" "\<not> cs_isExecuting (w_computed w s)"
    and dirty: "\<forall>d \<in> cd_dirtyComputedSlots w. level s \<le> level d" and X: "\<forall>x \<in> X. level s < level x"
    and R: "\<forall>x \<in> R. level x < level s" "\<And>w. consistent defs level odb (insert s X) w \<Longrightarrow> closed_in w R" "reads_of w s \<subseteq> R"
  obtains w1 w' v S K where "ensureCalculated ord defs exc odb (Suc fuel) s w = (Inr (), w')" "consistent defs level odb X w'"
    "grows level (level s) (updComputed s (\<lambda>c. c\<lparr>cs_isExecuting := True\<rparr>) (updComputed s (\<lambda>c. c\<lparr>cs_cells := True\<rparr>) w)) w1"
    "consistent defs level odb (insert s X) w1"
    "stored s (cs_valueAndIsException (w_computed w s)) v S K R w1 w'"
proof -
  let ?w = "updComputed s (\<lambda>c. c\<lparr>cs_isExecuting := True\<rparr>) (updComputed s (\<lambda>c. c\<lparr>cs_cells := True\<rparr>) w)"
  have d: "\<forall>d \<in> cd_dirtyComputedSlots ?w. level s \<le> level d" using dirty by simp
  obtain v dc w1 where calc: "calculate (defs s) (ensureCalculated ord defs exc odb fuel) exc odb newContext ?w = (Inr (v, dc), w1)"
      "consistent defs level odb (insert s X) w1" "grows level (level s) ?w w1"
      "evaluate (defs s) w1 odb {} {} = Some (v, dc_slotsRead dc, dc_subscriptions dc)"
      "\<forall>t \<in> dc_slotsRead dc. isComputed t \<longrightarrow> cs_valueUpToDate (w_computed w1 t)"
    using calculate_ok[OF ens acyclic c d, of exc newContext] by (auto simp: newContext_def)
  have same: "w_computed w1 s = w_computed ?w s" "cd_slotsRead w1 s = cd_slotsRead w s" using growsD(3)[OF calc(3), of s] by simp_all
  have fin: "finite (dc_subscriptions dc)" "finite (dc_slotsRead dc)" using evaluate_finite[OF calc(4)] by simp_all
  have ns: "s \<notin> dc_slotsRead dc" using evaluate_below[OF acyclic calc(4), of s] by auto
  have cells: "cs_cells (w_computed w1 s)" using same by simp
  have Rs: "reads_of w1 s - dc_slotsRead dc \<subseteq> R" "s \<notin> R" using R(1,3) same(2) by (auto simp: set_at_def)
  obtain w' where w': "storeResult ord s (cs_valueAndIsException (w_computed w s)) v dc w1 = (Inr (), w')"
      "stored s (cs_valueAndIsException (w_computed w s)) v (dc_slotsRead dc) (dc_subscriptions dc) R w1 w'"
    using store_run[OF ord consistentD(1)[OF calc(2)] s(1) cells fin R(2)[OF calc(2)] Rs ns] by blast
  have old: "cs_valueAndIsException (w_computed w s) = cs_valueAndIsException (w_computed w1 s)" using same(1) by simp
  have "consistent defs level odb X w'"
    by (rule store_consistent[OF calc(2) s(2) X calc(4) acyclic calc(5) R(1) w'(2)[unfolded old]])
  then show thesis using that[OF _ _ calc(3,2) w'(2)] ensureCalculated_run[OF s(4,3) calc(1)] w'(1) by simp
qed

lemma ensureCalculated_trusted:
  assumes "consistent defs level odb X w" "cs_valueUpToDate (w_computed w s)"
  shows "ensureCalculated ord defs exc odb (Suc fuel) s (w\<lparr>cd_dirtyComputedSlots := D\<rparr>) = (Inr (), w\<lparr>cd_dirtyComputedSlots := D\<rparr>)"
proof -
  have c: "cs_cells (w_computed w s)" "\<not> cs_isExecuting (w_computed w s)"
    using consistentD(2)[OF assms] consistentD(3,4)[OF assms(1), of s] assms(2) by blast+
  have "updComputed s (\<lambda>c. c\<lparr>cs_cells := True\<rparr>) (w\<lparr>cd_dirtyComputedSlots := D\<rparr>) = w\<lparr>cd_dirtyComputedSlots := D\<rparr>"
    using c(1) by (auto simp: updComputed_def fun_eq_iff intro!: world.equality ComputedSlot.equality)
  then show ?thesis using c(2) assms(2) by (simp add: ensureCalculated.simps(2))
qed

lemma ensure_ok:
  assumes ord: "order_ok ord" and acyclic: "\<And>s. reads_below (defs s) level (level s)"
  shows "m \<le> fuel \<Longrightarrow> \<forall>x \<in> X. m \<le> level x \<Longrightarrow> ensures (ensureCalculated ord defs exc odb fuel) defs level odb X m"
proof (induction fuel arbitrary: X m)
  case 0
  then show ?case by (simp add: ensures_def)
next
  case (Suc fuel)
  show ?case
    unfolding ensures_def
  proof (intro allI impI)
    fix t w
    assume c: "consistent defs level odb X w" and t: "isComputed t" "level t < m" and d: "\<forall>d \<in> cd_dirtyComputedSlots w. m \<le> level d"
    have new: "t \<notin> X" "t \<notin> cd_dirtyComputedSlots w" using t(2) d Suc.prems(2) by force+
    then have w: "w\<lparr>cd_dirtyComputedSlots := cd_dirtyComputedSlots w - {t}\<rparr> = w" by simp
    show "\<exists>w'. ensureCalculated ord defs exc odb (Suc fuel) t w = (Inr (), w') \<and> consistent defs level odb X w' \<and> grows level m w w' \<and>
      cs_valueUpToDate (w_computed w' t)"
    proof (cases "cs_valueUpToDate (w_computed w t)")
      case True
      with ensureCalculated_trusted[OF c, of t ord exc fuel "cd_dirtyComputedSlots w"] c show ?thesis
        by (intro exI[of _ w]) (simp add: grows_refl)
    next
      case False
      then have un: "\<not> tracked w t" using consistentD(5)[OF c t(1)] new by blast
      have ens: "ensures (ensureCalculated ord defs exc odb fuel) defs level odb (insert t X) (level t)"
        using Suc.IH[of "level t" "insert t X"] Suc.prems t(2) by fastforce
      have ne: "\<not> cs_isExecuting (w_computed w t)" using consistentD(3)[OF c] new by simp
      have below: "\<forall>d \<in> cd_dirtyComputedSlots w. level t \<le> level d" "\<forall>x \<in> X. level t < level x" "\<forall>x \<in> {}. level x < level t"
          "reads_of w t \<subseteq> {}" "\<And>w. closed_in w {}"
        using d Suc.prems(2) t(2) un by (auto simp: closed_in_def tracked_def set_at_def)
      obtain w1 w' v S K where r: "ensureCalculated ord defs exc odb (Suc fuel) t w = (Inr (), w')" "consistent defs level odb X w'"
        "grows level (level t) (updComputed t (\<lambda>c. c\<lparr>cs_isExecuting := True\<rparr>) (updComputed t (\<lambda>c. c\<lparr>cs_cells := True\<rparr>) w)) w1"
        "consistent defs level odb (insert t X) w1" "stored t (cs_valueAndIsException (w_computed w t)) v S K {} w1 w'"
        by (rule calculate_and_store[OF ord ens acyclic start_calculating[OF c t(1) new(1) False, unfolded w] t(1) new(1) False ne below(1-3,5,4)])
      note D = storedD[OF r(5)]
      have "\<not> tracked w1 t" using growsD(3)[OF r(3), of t] un by (simp add: tracked_def)
      then have no: "readers w1 t = {}" by (rule consistentD(6)[OF r(4) t(1)])
      have keep: "w_computed w' x = w_computed w x \<and> cd_slotsRead w' x = cd_slotsRead w x \<and> cd_subscriptions w' x = cd_subscriptions w x"
        if "tracked w x \<or> cs_valueUpToDate (w_computed w x) \<or> cs_isExecuting (w_computed w x) \<or> m \<le> level x" for x
      proof -
        have ne: "x \<noteq> t" using that un False ne t(2) by auto
        then show ?thesis using growsD(3)[OF r(3), of x] that D(6)[OF _ ne] D(18)[OF ne] no t(2) by auto
      qed
      have "x \<in> cd_dirtyComputedSlots w'" if "x \<in> cd_dirtyComputedSlots w" for x
        using growsD(2)[OF r(3)] D(21)[of x] that new(2) by auto
      then have "cd_dirtyComputedSlots w' = cd_dirtyComputedSlots w" using growsD(2)[OF r(3)] D(20) no by auto
      then have "grows level m w w'" using keep growsD(1)[OF r(3)] D(7) by (simp add: grows_def)
      with r(1,2) D(12) show ?thesis by blast
    qed
  qed
qed

section \<open>The loop\<close>

text \<open>The slots the loop may still have to calculate.\<close>

definition waiting :: "(obj \<Rightarrow> nat) \<Rightarrow> 'v world \<Rightarrow> obj set" where
  "waiting level w = cd_dirtyComputedSlots w \<union> {x. tracked w x \<and> (\<exists>d \<in> cd_dirtyComputedSlots w. level d < level x)}"

definition level_first :: "order \<Rightarrow> (obj \<Rightarrow> nat) \<Rightarrow> bool" where
  "level_first ord level \<longleftrightarrow> (\<forall>S x. finite S \<longrightarrow> x \<in> S \<longrightarrow> level (hd (it_objs ord S)) \<le> level x)"

lemma finite_waiting: "consistent defs level odb X w \<Longrightarrow> finite (waiting level w)"
proof -
  assume c: "consistent defs level odb X w"
  have "waiting level w \<subseteq> cd_dirtyComputedSlots w \<union> dom (cd_slotsRead w)"
    using consistentD(1)[OF c] by (auto simp: waiting_def tracked_def graph_ok_def lean_def)
  with consistentD(1,8)[OF c] show ?thesis by (auto simp: graph_ok_def lean_def intro: finite_subset)
qed

lemma lower_closed:
  assumes "consistent defs level odb X w"
  shows "closed_in w {x. level x < n \<and> (isComputed x \<or> (\<exists>n. x = SlotO n))}"
proof -
  have "reads_of w (SlotO k) = {}" for k using consistentD(1)[OF assms] by (auto simp: graph_ok_def tracked_def set_at_def)
  moreover have "\<not> isComputed x \<and> (\<forall>k. x \<noteq> SlotO k)" if "x \<in> cd_cellReactors w" for x using consistentD(10)[OF assms that] by auto
  ultimately show ?thesis using consistentD(9)[OF assms] unfolding closed_in_def by fastforce
qed

lemma waiting_shrinks:
  assumes s: "s \<in> cd_dirtyComputedSlots w" "\<forall>d \<in> cd_dirtyComputedSlots w. level s \<le> level d"
    and w': "cd_dirtyComputedSlots w' \<subseteq> (cd_dirtyComputedSlots w - {s}) \<union> {x. tracked w x \<and> level s < level x}"
      "\<And>x. level s < level x \<Longrightarrow> tracked w' x \<Longrightarrow> tracked w x"
  shows "waiting level w' \<subseteq> waiting level w - {s}"
proof
  fix x assume x: "x \<in> waiting level w'"
  have up: "level s \<le> level d" if "d \<in> cd_dirtyComputedSlots w'" for d using w'(1) s(2) that by fastforce
  have "x \<noteq> s" using x up w'(1) by (force simp: waiting_def)
  moreover have "x \<in> waiting level w"
  proof (cases "x \<in> cd_dirtyComputedSlots w'")
    case True
    with w'(1) s(1) show ?thesis by (auto simp: waiting_def)
  next
    case False
    with x up have "level s < level x" "tracked w' x" by (force simp: waiting_def)+
    with w'(2) s(1) show ?thesis by (auto simp: waiting_def)
  qed
  ultimately show "x \<in> waiting level w - {s}" by simp
qed

lemma evaluate_same: "w_slotValue w' = w_slotValue w \<Longrightarrow> w_computed w' = w_computed w \<Longrightarrow> evaluate c w' odb S K = evaluate c w odb S K"
  by (induction c arbitrary: S K) (auto split: option.splits)

lemma tracked_dirtySlots [simp]: "tracked (w\<lparr>cd_dirtyComputedSlots := D\<rparr>) = tracked w"
  by (simp add: tracked_def fun_eq_iff)

lemma consistent_pop:
  assumes c: "consistent defs level odb {} w" and s: "cs_valueUpToDate (w_computed w s)"
  shows "consistent defs level odb {} (w\<lparr>cd_dirtyComputedSlots := cd_dirtyComputedSlots w - {s}\<rparr>)" (is "consistent _ _ _ _ ?w")
proof -
  have "graph_ok ?w = graph_ok w" by (simp add: graph_ok_def mirrored_def lean_def)
  moreover have "settled defs odb ?w x = settled defs odb w x" for x by (simp add: settled_def evaluate_same[of ?w w])
  ultimately show ?thesis using c s unfolding consistent_def by (simp, metis)
qed

lemma recalculate_step:
  assumes ord: "order_ok ord" and acyclic: "\<And>s. reads_below (defs s) level (level s)" and c: "consistent defs level odb {} w"
    and s: "s \<in> cd_dirtyComputedSlots w" "\<forall>d \<in> cd_dirtyComputedSlots w. level s \<le> level d" "level s < fuel"
  obtains w' where "ensureCalculated ord defs exc odb fuel s (w\<lparr>cd_dirtyComputedSlots := cd_dirtyComputedSlots w - {s}\<rparr>) = (Inr (), w')"
    "consistent defs level odb {} w'" "waiting level w' \<subseteq> waiting level w - {s}" "w_slotValue w' = w_slotValue w"
proof -
  let ?w = "w\<lparr>cd_dirtyComputedSlots := cd_dirtyComputedSlots w - {s}\<rparr>"
  obtain n where n: "fuel = Suc n" "level s \<le> n" using s(3) by (cases fuel) auto
  have sc: "isComputed s" using consistentD(7)[OF c s(1)] .
  show thesis
  proof (cases "cs_valueUpToDate (w_computed w s)")
    case True
    have "waiting level ?w \<subseteq> waiting level w - {s}" by (rule waiting_shrinks[OF s(1,2)]) auto
    then show thesis using that consistent_pop[OF c True] ensureCalculated_trusted[OF c True] n(1) by simp
  next
    case False
    let ?R = "{x. level x < level s \<and> (isComputed x \<or> (\<exists>n. x = SlotO n))}"
    have ens: "ensures (ensureCalculated ord defs exc odb n) defs level odb {s} (level s)"
      by (rule ensure_ok[OF ord acyclic n(2)]) simp
    have k: "\<forall>d \<in> cd_dirtyComputedSlots ?w. level s \<le> level d" "\<forall>x \<in> {}. level s < level x" "\<forall>x \<in> ?R. level x < level s" "reads_of ?w s \<subseteq> ?R"
      using s(2) consistentD(9)[OF c sc] by auto
    have e: "s \<notin> {}" by simp
    have u: "\<not> cs_valueUpToDate (w_computed ?w s)" "\<not> cs_isExecuting (w_computed ?w s)" using False consistentD(3)[OF c] by simp_all
    obtain w1 w' v S K where r: "ensureCalculated ord defs exc odb fuel s ?w = (Inr (), w')" "consistent defs level odb {} w'"
      "grows level (level s) (updComputed s (\<lambda>c. c\<lparr>cs_isExecuting := True\<rparr>) (updComputed s (\<lambda>c. c\<lparr>cs_cells := True\<rparr>) ?w)) w1"
      "consistent defs level odb {s} w1" "stored s (cs_valueAndIsException (w_computed ?w s)) v S K ?R w1 w'"
      by (rule calculate_and_store[OF ord ens acyclic start_calculating[OF c sc e False] sc e u k(1-3) lower_closed k(4), folded n(1)])
    note D = storedD[OF r(5)]
    have g: "tracked w1 x = tracked w x" if "level s \<le> level x" for x
      using growsD(3)[OF r(3), of x] that by (simp add: tracked_def)
    have "tracked w x \<and> level s < level x" if "x \<in> readers w1 s" "isComputed x" for x
    proof -
      have k: "s \<in> reads_of w1 x" using consistentD(1)[OF r(4)] that(1) by (simp add: graph_ok_def mirrored_def)
      then have "level s < level x" using consistentD(9)[OF r(4) that(2)] by blast
      moreover have "tracked w1 x" using k by (auto simp: tracked_def set_at_def)
      ultimately show ?thesis using g[of x] by simp
    qed
    then have "cd_dirtyComputedSlots w' \<subseteq> (cd_dirtyComputedSlots w - {s}) \<union> {x. tracked w x \<and> level s < level x}"
      using D(20) growsD(2)[OF r(3)] by auto
    moreover have "tracked w x" if "level s < level x" "tracked w' x" for x
    proof -
      have "x \<noteq> s" using that(1) by auto
      then show ?thesis using D(6)[of x] that g[of x] by (auto simp: tracked_def)
    qed
    ultimately have "waiting level w' \<subseteq> waiting level w - {s}" by (rule waiting_shrinks[OF s(1,2)])
    then show thesis using that r(1,2) D(7) growsD(1)[OF r(3)] by simp
  qed
qed

lemma recalculate_ok:
  assumes ord: "order_ok ord" "level_first ord level" and acyclic: "\<And>s. reads_below (defs s) level (level s)" and fuel: "\<And>s. level s < fuel"
  shows "consistent defs level odb {} w \<Longrightarrow> card (waiting level w) \<le> n \<Longrightarrow>
    \<exists>w'. recalculateDirtyComputedSlots ord defs exc odb fuel n w = (Inr (), w') \<and> consistent defs level odb {} w' \<and> cd_dirtyComputedSlots w' = {} \<and>
      w_slotValue w' = w_slotValue w"
proof (induction n arbitrary: w)
  case 0
  then have "cd_dirtyComputedSlots w = {}" using finite_waiting[OF 0(1)] by (simp add: waiting_def)
  with 0 show ?case by simp
next
  case (Suc n)
  show ?case
  proof (cases "cd_dirtyComputedSlots w = {}")
    case False
    let ?s = "hd (it_objs ord (cd_dirtyComputedSlots w))"
    have fin: "finite (cd_dirtyComputedSlots w)" using consistentD(8)[OF Suc.prems(1)] .
    have s: "?s \<in> cd_dirtyComputedSlots w" using order_okD(2)[OF ord(1) fin] False by (metis hd_in_set set_empty)
    have min: "\<forall>d \<in> cd_dirtyComputedSlots w. level ?s \<le> level d" using ord(2) fin unfolding level_first_def by blast
    obtain w1 where w1: "ensureCalculated ord defs exc odb fuel ?s (w\<lparr>cd_dirtyComputedSlots := cd_dirtyComputedSlots w - {?s}\<rparr>) = (Inr (), w1)"
      "consistent defs level odb {} w1" "waiting level w1 \<subseteq> waiting level w - {?s}" "w_slotValue w1 = w_slotValue w"
      by (rule recalculate_step[OF ord(1) acyclic Suc.prems(1) s min fuel])
    have "?s \<in> waiting level w" using s by (simp add: waiting_def)
    then have "card (waiting level w1) < card (waiting level w)"
      using w1(3) by (intro psubset_card_mono[OF finite_waiting[OF Suc.prems(1)]]) blast
    with Suc.IH[OF w1(2)] Suc.prems(2) w1(1,4) False show ?thesis by (simp add: Let_def)
  qed (use Suc.prems in simp)
qed

text \<open>Writes to slots and to the database leave a consistent state, if they are reported.\<close>

lemma consistent_written:
  assumes c: "consistent defs level odb {} w" and slots: "\<And>s. slots s \<noteq> w_slotValue w s \<Longrightarrow> s \<in> A" "\<And>s. s \<in> A \<Longrightarrow> \<exists>n. s = SlotO n"
    and keys: "\<And>k. odb' k \<noteq> odb k \<Longrightarrow> k \<in> B" and fin: "finite A" "finite B"
  shows "consistent defs level odb' {} (dirtied ((\<Union>s \<in> A. readers w s) \<union> (\<Union>k \<in> B. subscribers w k)) (w\<lparr>w_slotValue := slots\<rparr>))"
    (is "consistent _ _ _ _ (dirtied ?X ?w)")
proof -
  let ?w' = "dirtied ?X ?w"
  have g: "mirrored w {}" "graph_ok ?w = graph_ok w" "tracked ?w' = tracked w"
    using consistentD(1)[OF c] by (simp_all add: graph_ok_def mirrored_def lean_def tracked_def fun_eq_iff)
  have "settled defs odb' ?w' x" if u: "cs_valueUpToDate (w_computed ?w' x)" for x
  proof -
    have ux: "cs_valueUpToDate (w_computed w x)" and cx: "w_computed ?w' x = w_computed w x" and nx: "\<not> (x \<in> ?X \<and> isComputed x)"
      using u by (auto simp: dirtied_fields split: if_splits)
    obtain v S K where e: "evaluate (defs x) w odb {} {} = Some (v, S, K)" "cs_valueAndIsException (w_computed w x) = Some v"
        "cd_slotsRead w x = Some S" "cd_subscriptions w x = Some K"
      using consistentD(2)[OF c ux] by (auto simp: settled_def)
    have no: "S \<inter> A = {}" "K \<inter> B = {}"
      using g(1) e(3,4) nx consistentD(2)[OF c ux] by (auto simp: mirrored_def set_at_def)
    have "w_slotValue ?w' s = w_slotValue w s \<and> cs_valueAndIsException (w_computed ?w' s) = cs_valueAndIsException (w_computed w s)" if "s \<in> S" for s
      using slots(1) no(1) that by (auto simp: dirtied_fields)
    moreover have "odb' k = odb k" if "k \<in> K" for k using keys no(2) that by blast
    ultimately have "evaluate (defs x) ?w' odb' {} {} = Some (v, S, K)" by (rule evaluate_cong[OF _ _ e(1)])
    then show ?thesis using e(2-4) cx by (simp add: settled_def)
  qed
  moreover have "finite (cd_dirtyComputedSlots ?w')"
    using consistentD(8)[OF c] graph_calcs(1,3)[OF consistentD(1)[OF c]] fin by (simp add: dirtied_fields)
  ultimately show ?thesis using c g(2,3) unfolding consistent_def by (auto simp: dirtied_fields)
qed

lemma evaluate_denote:
  "evaluate c w odb S K = Some (v, S', K') \<Longrightarrow> reads_below c level m \<Longrightarrow>
   (\<And>t. t \<in> S' \<Longrightarrow> isComputed t \<Longrightarrow> cs_valueAndIsException (w_computed w t) = Some (f t)) \<Longrightarrow> denote c f (w_slotValue w) odb = v"
proof (induction c arbitrary: S K)
  case (ReadSlot s k)
  then show ?case using ReadSlot.IH[OF rangeI, of "w_slotValue w s"] by simp
next
  case (ReadKey key k)
  then show ?case using ReadKey.IH[OF rangeI, of "odb key"] by simp
next
  case (ReadComputed s k)
  then obtain p where p: "cs_valueAndIsException (w_computed w s) = Some p" and e: "evaluate (k p) w odb (insert s S) K = Some (v, S', K')"
    by (auto split: option.splits)
  have b: "isComputed s" "reads_below (k p) level m" using ReadComputed.prems(2) by (auto simp del: split_paired_All)
  have "p = f s" using ReadComputed.prems(3)[of s] evaluate_mono[OF e] b(1) p by simp
  with ReadComputed.IH[OF rangeI e b(2) ReadComputed.prems(3)] show ?case by simp
qed auto

lemma settled_meaning:
  assumes c: "consistent defs level odb {} w" and clean: "cd_dirtyComputedSlots w = {}" and acyclic: "\<And>s. reads_below (defs s) level (level s)"
  shows "cs_valueUpToDate (w_computed w s) \<Longrightarrow> level s < n \<Longrightarrow>
    cs_valueAndIsException (w_computed w s) = Some (meaning defs exc (w_slotValue w) odb n s)"
proof (induction n arbitrary: s)
  case (Suc n)
  obtain v S K where e: "evaluate (defs s) w odb {} {} = Some (v, S, K)" "cs_valueAndIsException (w_computed w s) = Some v" "cd_slotsRead w s = Some S"
    using consistentD(2)[OF c Suc.prems(1)] by (auto simp: settled_def)
  have "cs_valueAndIsException (w_computed w t) = Some (meaning defs exc (w_slotValue w) odb n t)" if "t \<in> S" "isComputed t" for t
  proof -
    have "s \<in> readers w t" using consistentD(1)[OF c] e(3) that(1) by (simp add: graph_ok_def mirrored_def set_at_def)
    then have "tracked w t" using consistentD(6)[OF c that(2)] by blast
    then have u: "cs_valueUpToDate (w_computed w t)" using consistentD(5)[OF c that(2)] clean by blast
    have "level t < level s" using evaluate_below[OF acyclic e(1) that(1)] by simp
    with Suc.prems(2) show ?thesis by (intro Suc.IH[OF u]) simp
  qed
  from evaluate_denote[OF e(1) acyclic this] e(2) show ?case by simp
qed simp

lemma written_run:
  assumes ord: "order_ok ord" and g: "graph_ok w" and fin: "finite A" "finite B"
  shows "updateFromWriteableDependencyContext ord A B (w\<lparr>w_slotValue := slots\<rparr>) =
    (Inr (), dirtied ((\<Union>s \<in> A. readers w s) \<union> (\<Union>k \<in> B. subscribers w k)) (w\<lparr>w_slotValue := slots\<rparr>))"
proof -
  have g': "graph_ok (w\<lparr>w_slotValue := slots\<rparr>)" using g by (simp add: graph_ok_def mirrored_def lean_def tracked_def)
  then show ?thesis
    using markSlotsDirty_run[OF ord g', of "it_objs ord A"] odbValuesChanged_run[OF ord, of "dirtied (\<Union>s \<in> A. readers w s) (w\<lparr>w_slotValue := slots\<rparr>)" "it_keys ord B"]
      order_okD(1)[OF ord fin(2)] order_okD(2)[OF ord fin(1)]
    by (simp add: updateFromWriteableDependencyContext_def dirtied_twice)
qed

text \<open>C32. Recalculation is as good as calculating everything from scratch. Let the values of some slots
  and of some keys of the database change, and the changes be registered. If the definitions of the computed slots are
  not cyclic and \<open>pop\<close> takes a dirty slot of the lowest level, then the loop comes to an end after at most as many
  rounds as there are calculations in the graph, no exception escapes, nothing is dirty any more, and the value remembered
  for every computed slot in use is the one that its function gives when it and everything it reads is calculated anew.\<close>

theorem recalculation_settles:
  assumes ord: "order_ok ord" "level_first ord level"
    and acyclic: "\<And>s. reads_below (defs s) level (level s)" and fuel: "\<And>s. level s < fuel"
    and c: "consistent defs level odb {} w"
    and slots: "finite A" "\<And>s. slots s \<noteq> w_slotValue w s \<Longrightarrow> s \<in> A" "\<And>s. s \<in> A \<Longrightarrow> \<exists>n. s = SlotO n"
    and keys: "finite B" "\<And>k. odb' k \<noteq> odb k \<Longrightarrow> k \<in> B"
    and n: "card (cd_dirtyComputedSlots w \<union> dom (cd_slotsRead w)) \<le> n"
  shows "\<exists>w1 w2. updateFromWriteableDependencyContext ord A B (w\<lparr>w_slotValue := slots\<rparr>) = (Inr (), w1) \<and>
    recalculateDirtyComputedSlots ord defs exc odb' fuel n w1 = (Inr (), w2) \<and>
    consistent defs level odb' {} w2 \<and> cd_dirtyComputedSlots w2 = {} \<and>
    (\<forall>s. isComputed s \<longrightarrow> tracked w2 s \<longrightarrow> cs_valueAndIsException (w_computed w2 s) = Some (meaning defs exc slots odb' fuel s))"
proof -
  let ?w1 = "dirtied ((\<Union>s \<in> A. readers w s) \<union> (\<Union>k \<in> B. subscribers w k)) (w\<lparr>w_slotValue := slots\<rparr>)"
  have c1: "consistent defs level odb' {} ?w1" by (rule consistent_written[OF c slots(2,3) keys(2) slots(1) keys(1)])
  have g: "graph_ok w" "mirrored w {}" "lean w" using consistentD(1)[OF c] by (simp_all add: graph_ok_def)
  have "cd_dirtyComputedSlots ?w1 \<subseteq> cd_dirtyComputedSlots w \<union> dom (cd_slotsRead w)"
    using graph_calcs(5,6)[OF g(1)] unfolding dirtied_fields by simp blast
  moreover have "tracked ?w1 x \<Longrightarrow> x \<in> dom (cd_slotsRead w)" for x using g(3) by (auto simp: tracked_def lean_def)
  ultimately have "waiting level ?w1 \<subseteq> cd_dirtyComputedSlots w \<union> dom (cd_slotsRead w)"
    unfolding waiting_def by blast
  moreover have "finite (cd_dirtyComputedSlots w \<union> dom (cd_slotsRead w))" using consistentD(8)[OF c] g(3) by (simp add: lean_def)
  ultimately have "card (waiting level ?w1) \<le> n" using n by (meson card_mono order_trans)
  then obtain w2 where w2: "recalculateDirtyComputedSlots ord defs exc odb' fuel n ?w1 = (Inr (), w2)" "consistent defs level odb' {} w2"
      "cd_dirtyComputedSlots w2 = {}" "w_slotValue w2 = slots"
    using recalculate_ok[OF ord acyclic fuel c1] by auto
  have "cs_valueAndIsException (w_computed w2 s) = Some (meaning defs exc slots odb' fuel s)" if "isComputed s" "tracked w2 s" for s
  proof -
    have "cs_valueUpToDate (w_computed w2 s)" using consistentD(5)[OF w2(2) that] w2(3) by auto
    from settled_meaning[OF w2(2,3) acyclic this fuel] w2(4) show ?thesis by simp
  qed
  with w2 written_run[OF ord(1) g(1) slots(1) keys(1)] show ?thesis by blast
qed

section \<open>Other orders\<close>

text \<open>Recalculating a slot that reads what it read before.\<close>

definition settle :: "obj \<Rightarrow> bool \<times> 'v \<Rightarrow> 'v world \<Rightarrow> 'v world" where
  "settle s v w = (updComputed s (\<lambda>c. c\<lparr>cs_valueAndIsException := Some v, cs_isExecuting := False, cs_valueUpToDate := True\<rparr>) w)
     \<lparr>cd_dirtyComputedSlots := cd_dirtyComputedSlots w - {s}, cd_dirtyNodes := cd_dirtyNodes w - {s}\<rparr>"

lemma settle_simps [simp]:
  "cd_slotsRead (settle s v w) = cd_slotsRead w" "cd_subscriptions (settle s v w) = cd_subscriptions w"
  "cd_slotToReaders (settle s v w) = cd_slotToReaders w" "w_slotValue (settle s v w) = w_slotValue w"
  "cd_dirtyComputedSlots (settle s v w) = cd_dirtyComputedSlots w - {s}" "graph_ok (settle s v w) = graph_ok w"
  "w_computed (settle s v w) x = (if x = s then (w_computed w s)\<lparr>cs_valueAndIsException := Some v, cs_isExecuting := False, cs_valueUpToDate := True\<rparr>
     else w_computed w x)"
  by (simp_all add: settle_def graph_ok_def mirrored_def lean_def tracked_def updComputed_def)

lemma storeResult_same:
  assumes ord: "order_ok ord" and g: "graph_ok w" and s: "cs_cells (w_computed w s)"
    and same: "cd_slotsRead w s = Some (dc_slotsRead dc)" "cd_subscriptions w s = Some (dc_subscriptions dc)"
  shows "storeResult ord s old v dc w = (Inr (), withDeps s dc (dirtied (if old = Some v then {} else readers w s) (settle s v w)))"
proof -
  have it: "it_keys ord {} = []" "it_objs ord {} = []" using order_okD(1)[OF ord, of "{}"] order_okD(2)[OF ord, of "{}"] by simp_all
  have "(cd_slotsRead w)(s \<mapsto> dc_slotsRead dc) = cd_slotsRead w" "(cd_subscriptions w)(s \<mapsto> dc_subscriptions dc) = cd_subscriptions w"
    using same by auto
  then have "updateDependencies ord (depth w + 2) s (dc_subscriptions dc) (dc_slotsRead dc)
      (updComputed s (\<lambda>c. c\<lparr>cs_valueAndIsException := Some v, cs_isExecuting := False, cs_valueUpToDate := True\<rparr>) w) = (Inr (), settle s v w)"
    using same it by (simp add: updateDependencies_def set_at_def settle_def updComputed_def)
  from storeResult_steps[OF ord _ s this, of old] g show ?thesis by simp
qed

text \<open>A cell shows computed slot 2, which reads slot 0, computed slot 1, computed slot 0 and computed slot 1 again and gives
  the first value it got of computed slot 1; that one is a copy of computed slot 0, which is a copy of slot 0.\<close>

definition glitch_defs :: "obj \<Rightarrow> nat calc" where
  "glitch_defs s =
     (if s = ComputedO 0 then ReadSlot (SlotO 0) Return
      else if s = ComputedO 1 then ReadComputed (ComputedO 0) (\<lambda>p. Return (snd p))
      else if s = ComputedO 2 then
        ReadSlot (SlotO 0) (\<lambda>_. ReadComputed (ComputedO 1) (\<lambda>p. ReadComputed (ComputedO 0) (\<lambda>_. ReadComputed (ComputedO 1) (\<lambda>_. Return (snd p)))))
      else Return 0)"

definition glitch_reads :: "obj \<rightharpoonup> obj set" where
  "glitch_reads = [CellO 0 \<mapsto> {ComputedO 2}, ComputedO 0 \<mapsto> {SlotO 0}, ComputedO 1 \<mapsto> {ComputedO 0}, ComputedO 2 \<mapsto> {SlotO 0, ComputedO 0, ComputedO 1}]"

definition glitch_at :: "nat world \<Rightarrow> obj set \<Rightarrow> nat \<times> bool \<times> bool \<Rightarrow> nat \<times> bool \<times> bool \<Rightarrow> nat \<times> bool \<times> bool \<Rightarrow> bool" where
  "glitch_at w D a b c \<longleftrightarrow> graph_ok w \<and> cd_slotsRead w = glitch_reads \<and> cd_subscriptions w = (\<lambda>x. map_option (\<lambda>_. {}) (glitch_reads x)) \<and>
     w_slotValue w (SlotO 0) = 1 \<and> cd_dirtyComputedSlots w = D \<and>
     (\<forall>(n, v, fresh, run) \<in> {(0, a), (1, b), (2, c)}. let cs = w_computed w (ComputedO n) in
        cs_valueAndIsException cs = Some (False, v) \<and> cs_valueUpToDate cs = fresh \<and> cs_isExecuting cs = run \<and> cs_cells cs)"

lemma glitch_readers:
  assumes "glitch_at w D a b c"
  shows "readers w (ComputedO 0) = {ComputedO 1, ComputedO 2}" "readers w (ComputedO 1) = {ComputedO 2}"
proof -
  have "x \<in> readers w s \<longleftrightarrow> s \<in> set_at glitch_reads x" for x s using assms by (simp add: glitch_at_def graph_ok_def mirrored_def)
  then show "readers w (ComputedO 0) = {ComputedO 1, ComputedO 2}" "readers w (ComputedO 1) = {ComputedO 2}"
    by (auto simp: glitch_reads_def set_at_def split: if_splits)
qed

lemma glitch_trusted:
  assumes "glitch_at w D a b c" "n < 3" "cs_valueUpToDate (w_computed w (ComputedO n))" "\<not> cs_isExecuting (w_computed w (ComputedO n))"
  shows "ensureCalculated ord glitch_defs exc odb (Suc fuel) (ComputedO n) w = (Inr (), w)"
proof -
  have "cs_cells (w_computed w (ComputedO n))" using assms(1,2) by (auto simp: glitch_at_def Let_def less_Suc_eq numeral_3_eq_3 numeral_2_eq_2)
  then have "updComputed (ComputedO n) (\<lambda>c. c\<lparr>cs_cells := True\<rparr>) w = w"
    by (auto simp: updComputed_def fun_eq_iff intro!: world.equality ComputedSlot.equality)
  with assms(3,4) show ?thesis by (simp add: ensureCalculated.simps(2))
qed

lemma only_computed:
  "{x. (x = ComputedO m \<or> x = ComputedO n) \<and> isComputed x} = {ComputedO m, ComputedO n}" "{x. x = ComputedO m \<and> isComputed x} = {ComputedO m}"
  by auto

lemma glitch_c0:
  assumes ord: "order_ok ord" and w: "glitch_at w {ComputedO 0} (0, False, False) (0, True, False) (0, False, True)"
  obtains w' where "ensureCalculated ord glitch_defs exc odb (Suc fuel) (ComputedO 0) w = (Inr (), w')"
    "glitch_at w' {ComputedO 1, ComputedO 2} (1, True, False) (0, False, False) (0, False, True)"
proof -
  let ?w = "updComputed (ComputedO 0) (\<lambda>c. c\<lparr>cs_isExecuting := True\<rparr>) (updComputed (ComputedO 0) (\<lambda>c. c\<lparr>cs_cells := True\<rparr>) w)"
  let ?dc = "slotRead ?w (SlotO 0) newContext"
  have c: "calculate (glitch_defs (ComputedO 0)) (ensureCalculated ord glitch_defs exc odb fuel) exc odb newContext ?w = (Inr ((False, 1), ?dc), ?w)"
    using w by (simp add: glitch_defs_def glitch_at_def)
  have "cd_slotsRead ?w (ComputedO 0) = Some (dc_slotsRead ?dc)" "cd_subscriptions ?w (ComputedO 0) = Some (dc_subscriptions ?dc)"
      "graph_ok ?w" "cs_cells (w_computed ?w (ComputedO 0))"
    using w by (simp_all add: glitch_at_def newContext_def glitch_reads_def)
  from storeResult_same[OF ord this(3,4,1,2)] have
    s: "storeResult ord (ComputedO 0) old v ?dc ?w = (Inr (), withDeps (ComputedO 0) ?dc (dirtied (if old = Some v then {} else readers ?w (ComputedO 0)) (settle (ComputedO 0) v ?w)))" for old v .
  have "ensureCalculated ord glitch_defs exc odb (Suc fuel) (ComputedO 0) w = storeResult ord (ComputedO 0) (Some (False, 0)) (False, 1) ?dc ?w"
    using ensureCalculated_run[OF _ _ c] w by (simp add: glitch_at_def Let_def)
  with s show thesis using that w glitch_readers[OF w]
    by (simp add: glitch_at_def Let_def dirtied_fields only_computed)
qed

lemma glitch_c1:
  assumes ord: "order_ok ord" and w: "glitch_at w {ComputedO 1, ComputedO 2} (1, True, False) (0, False, False) (0, False, True)"
  obtains w' where "ensureCalculated ord glitch_defs exc odb (Suc (Suc fuel)) (ComputedO 1) w = (Inr (), w')"
    "glitch_at w' {ComputedO 2} (1, True, False) (1, True, False) (0, False, True)"
proof -
  let ?w = "updComputed (ComputedO 1) (\<lambda>c. c\<lparr>cs_isExecuting := True\<rparr>) (updComputed (ComputedO 1) (\<lambda>c. c\<lparr>cs_cells := True\<rparr>) w)"
  let ?dc = "slotRead ?w (ComputedO 0) newContext"
  have "glitch_at ?w {ComputedO 1, ComputedO 2} (1, True, False) (0, False, True) (0, False, True)"
    using w by (simp add: glitch_at_def Let_def)
  then have "ensureCalculated ord glitch_defs exc odb (Suc fuel) (ComputedO 0) ?w = (Inr (), ?w)"
    by (rule glitch_trusted) (use w in \<open>simp_all add: glitch_at_def Let_def\<close>)
  then have c: "calculate (glitch_defs (ComputedO 1)) (ensureCalculated ord glitch_defs exc odb (Suc fuel)) exc odb newContext ?w = (Inr ((False, 1), ?dc), ?w)"
    using w by (simp add: glitch_defs_def glitch_at_def Let_def)
  have "cd_slotsRead ?w (ComputedO 1) = Some (dc_slotsRead ?dc)" "cd_subscriptions ?w (ComputedO 1) = Some (dc_subscriptions ?dc)"
      "graph_ok ?w" "cs_cells (w_computed ?w (ComputedO 1))"
    using w by (simp_all add: glitch_at_def newContext_def glitch_reads_def)
  from storeResult_same[OF ord this(3,4,1,2)] have
    s: "storeResult ord (ComputedO 1) old v ?dc ?w = (Inr (), withDeps (ComputedO 1) ?dc (dirtied (if old = Some v then {} else readers ?w (ComputedO 1)) (settle (ComputedO 1) v ?w)))" for old v .
  have "ensureCalculated ord glitch_defs exc odb (Suc (Suc fuel)) (ComputedO 1) w = storeResult ord (ComputedO 1) (Some (False, 0)) (False, 1) ?dc ?w"
    using ensureCalculated_run[OF _ _ c] w by (simp add: glitch_at_def Let_def)
  with s show thesis using that w glitch_readers[OF w]
    by (simp add: glitch_at_def Let_def dirtied_fields only_computed)
qed

lemma glitch_c2:
  assumes ord: "order_ok ord" and w: "glitch_at w {ComputedO 0} (0, False, False) (0, True, False) (0, False, False)"
  obtains w' where "ensureCalculated ord glitch_defs exc odb (Suc (Suc (Suc fuel))) (ComputedO 2) w = (Inr (), w')"
    "glitch_at w' {} (1, True, False) (1, True, False) (0, True, False)"
proof -
  let ?ens = "ensureCalculated ord glitch_defs exc odb (Suc (Suc fuel))"
  let ?w = "updComputed (ComputedO 2) (\<lambda>c. c\<lparr>cs_isExecuting := True\<rparr>) (updComputed (ComputedO 2) (\<lambda>c. c\<lparr>cs_cells := True\<rparr>) w)"
  have w0: "glitch_at ?w {ComputedO 0} (0, False, False) (0, True, False) (0, False, True)"
    using w by (simp add: glitch_at_def Let_def)
  then have e1: "?ens (ComputedO 1) ?w = (Inr (), ?w)" by (rule glitch_trusted) (use w in \<open>simp_all add: glitch_at_def Let_def\<close>)
  obtain w1 where w1: "?ens (ComputedO 0) ?w = (Inr (), w1)" "glitch_at w1 {ComputedO 1, ComputedO 2} (1, True, False) (0, False, False) (0, False, True)"
    using glitch_c0[OF ord w0] by metis
  obtain w2 where w2: "?ens (ComputedO 1) w1 = (Inr (), w2)" "glitch_at w2 {ComputedO 2} (1, True, False) (1, True, False) (0, False, True)"
    using glitch_c1[OF ord w1(2)] by metis
  let ?dc = "slotRead w2 (ComputedO 1) (slotRead w1 (ComputedO 0) (slotRead ?w (ComputedO 1) (slotRead ?w (SlotO 0) newContext)))"
  have v: "cs_valueAndIsException (w_computed ?w (ComputedO 1)) = Some (False, 0)" "cs_valueAndIsException (w_computed w1 (ComputedO 0)) = Some (False, 1)"
      "cs_valueAndIsException (w_computed w2 (ComputedO 1)) = Some (False, 1)"
    using w0 w1(2) w2(2) by (simp_all only: glitch_at_def Let_def) auto
  have c: "calculate (glitch_defs (ComputedO 2)) ?ens exc odb newContext ?w = (Inr ((False, 0), ?dc), w2)"
    using e1 w1(1) w2(1) v by (simp add: glitch_defs_def)
  have "cd_slotsRead w2 (ComputedO 2) = Some (dc_slotsRead ?dc)" "cd_subscriptions w2 (ComputedO 2) = Some (dc_subscriptions ?dc)"
      "graph_ok w2" "cs_cells (w_computed w2 (ComputedO 2))"
    using w2(2) by (auto simp: glitch_at_def newContext_def glitch_reads_def Let_def)
  from storeResult_same[OF ord this(3,4,1,2)] have
    s: "storeResult ord (ComputedO 2) (Some (False, 0)) (False, 0) ?dc w2 = (Inr (), withDeps (ComputedO 2) ?dc (settle (ComputedO 2) (False, 0) w2))"
    by (simp add: dirtied_empty)
  have "ensureCalculated ord glitch_defs exc odb (Suc (Suc (Suc fuel))) (ComputedO 2) w = storeResult ord (ComputedO 2) (Some (False, 0)) (False, 0) ?dc w2"
    using ensureCalculated_run[OF _ _ c] w by (simp add: glitch_at_def Let_def)
  with s show thesis using that w2(2) by (simp add: glitch_at_def Let_def)
qed

definition glitch_level :: "obj \<Rightarrow> nat" where
  "glitch_level x = (case x of CellO _ \<Rightarrow> 0 | SlotO _ \<Rightarrow> 0 | ComputedO n \<Rightarrow> min (Suc n) 3 | ReactorO _ \<Rightarrow> 3)"

text \<open>Slot 0 has changed from 0 to 1 and this has been registered.\<close>

definition glitch_world :: "nat world" where
  "glitch_world = (newCellDependencies (\<lambda>_. {}) (\<lambda>_. 1))\<lparr>
     cd_slotsRead := glitch_reads, cd_subscriptions := (\<lambda>x. map_option (\<lambda>_. {}) (glitch_reads x)),
     cd_slotToReaders := [ComputedO 2 \<mapsto> {CellO 0}, SlotO 0 \<mapsto> {ComputedO 0, ComputedO 2}, ComputedO 0 \<mapsto> {ComputedO 1, ComputedO 2}, ComputedO 1 \<mapsto> {ComputedO 2}],
     cd_dirtyComputedSlots := {ComputedO 0, ComputedO 2},
     w_computed := (\<lambda>x. if x \<in> {ComputedO 0, ComputedO 1, ComputedO 2}
       then newComputedSlot\<lparr>cs_valueAndIsException := Some (False, 0), cs_cells := True, cs_valueUpToDate := (x = ComputedO 1)\<rparr> else newComputedSlot)\<rparr>"

lemma glitch_fields:
  "cd_slotsRead glitch_world = glitch_reads" "cd_subscriptions glitch_world = (\<lambda>x. map_option (\<lambda>_. {}) (glitch_reads x))"
  "cd_slotToReaders glitch_world = [ComputedO 2 \<mapsto> {CellO 0}, SlotO 0 \<mapsto> {ComputedO 0, ComputedO 2}, ComputedO 0 \<mapsto> {ComputedO 1, ComputedO 2}, ComputedO 1 \<mapsto> {ComputedO 2}]"
  "cd_subscribedCells glitch_world = Map.empty" "w_reactors glitch_world = (\<lambda>_. {})" "cd_cellReactors glitch_world = {}"
  "cd_dirtyComputedSlots glitch_world = {ComputedO 0, ComputedO 2}" "w_slotValue glitch_world = (\<lambda>_. 1)"
  "w_computed glitch_world x = (if x \<in> {ComputedO 0, ComputedO 1, ComputedO 2}
     then newComputedSlot\<lparr>cs_valueAndIsException := Some (False, 0), cs_cells := True, cs_valueUpToDate := (x = ComputedO 1)\<rparr> else newComputedSlot)"
  by (simp_all add: glitch_world_def newCellDependencies_def)

lemma glitch_reads_at:
  "set_at glitch_reads x = (if x = CellO 0 then {ComputedO 2} else if x = ComputedO 0 then {SlotO 0} else if x = ComputedO 1 then {ComputedO 0}
     else if x = ComputedO 2 then {SlotO 0, ComputedO 0, ComputedO 1} else {})"
  "dom glitch_reads = {CellO 0, ComputedO 0, ComputedO 1, ComputedO 2}" "set_at (\<lambda>x. map_option (\<lambda>_. {}) (glitch_reads x)) x = {}"
  by (auto simp: glitch_reads_def set_at_def split: if_splits option.splits)

lemma glitch_tracked: "tracked glitch_world x \<longleftrightarrow> x \<in> {CellO 0, ComputedO 0, ComputedO 1, ComputedO 2}"
  using glitch_reads_at(2) by (auto simp: tracked_def glitch_fields)

lemma glitch_graph: "graph_ok glitch_world"
proof -
  have dm: "dom (\<lambda>x. map_option (\<lambda>_. {}) (glitch_reads x)) = dom glitch_reads" by auto
  have "mirrored glitch_world {}"
    unfolding mirrored_def glitch_fields glitch_reads_at by (auto simp: set_at_def)
  moreover have "lean glitch_world"
    unfolding lean_def glitch_fields glitch_reads_at dm by (simp add: glitch_reads_at(2))
  ultimately show ?thesis by (simp add: graph_ok_def glitch_tracked)
qed

lemma glitch_acyclic: "reads_below (glitch_defs s) glitch_level (glitch_level s)"
  by (simp add: glitch_defs_def glitch_level_def)

lemma glitch_consistent: "consistent glitch_defs glitch_level odb {} glitch_world"
proof -
  have "settled glitch_defs odb glitch_world (ComputedO 1)"
    unfolding settled_def
    by (intro exI[of _ "(False, 0)"] exI[of _ "{ComputedO 0}"] exI[of _ "{}"])
      (simp add: glitch_fields glitch_defs_def newComputedSlot_def glitch_reads_def)
  moreover have "glitch_level t < glitch_level s \<and> (isComputed t \<or> (\<exists>n. t = SlotO n))" if "isComputed s" "t \<in> reads_of glitch_world s" for s t
    using that by (auto simp: glitch_fields glitch_reads_at glitch_level_def split: if_splits)
  moreover have "readers glitch_world s = {}" if "isComputed s" "\<not> tracked glitch_world s" for s
    using that by (auto simp: glitch_fields glitch_tracked set_at_def)
  ultimately show ?thesis
    unfolding consistent_def using glitch_graph by (auto simp: glitch_fields glitch_tracked newComputedSlot_def split: if_splits)
qed

lemma level_first_demo: "level_first demo_order glitch_level"
proof -
  have flat: "sorted (map (\<lambda>_. c) xs)" for c :: nat and xs :: "nat list" by (induction xs) auto
  have "sorted (map (\<lambda>n. min (Suc n) 3) (sorted_list_of_set A))" for A :: "nat set"
    by (rule sorted_map_mono) (auto simp: mono_on_def min_def)
  with flat have "sorted (map glitch_level (it_objs demo_order S))" for S
    by (auto simp: demo_order_def sorted_append glitch_level_def comp_def simp del: min_Suc_Suc min_Suc_numeral)
  moreover have "glitch_level (hd xs) \<le> glitch_level x" if "sorted (map glitch_level xs)" "x \<in> set xs" for xs x
    using that by (cases xs) auto
  ultimately show ?thesis using order_okD(2)[OF order_ok_demo] unfolding level_first_def by metis
qed

theorem recalculation_settles_witness:
  "\<exists>w1 w2. updateFromWriteableDependencyContext demo_order {} {} glitch_world = (Inr (), w1) \<and>
     recalculateDirtyComputedSlots demo_order glitch_defs (\<lambda>_. 0) (\<lambda>_. 0) 4 5 w1 = (Inr (), w2) \<and> cd_dirtyComputedSlots w2 = {} \<and>
     \<not> (tracked w2 (ComputedO 2) \<and> cs_valueAndIsException (w_computed w2 (ComputedO 2)) \<noteq> Some (False, 1))"
proof -
  have fuel: "glitch_level s < 4" for s by (cases s) (auto simp: glitch_level_def min_def)
  have n: "card (cd_dirtyComputedSlots glitch_world \<union> dom (cd_slotsRead glitch_world)) \<le> 5"
    by (simp add: glitch_fields glitch_reads_at(2) card_insert_if)
  have m: "meaning glitch_defs (\<lambda>_. 0) (\<lambda>_. 1) (\<lambda>_. 0) 4 (ComputedO 2) = (False, 1)" by (simp add: eval_nat_numeral glitch_defs_def)
  have w: "glitch_world\<lparr>w_slotValue := (\<lambda>_. 1)\<rparr> = glitch_world" by (simp add: glitch_world_def newCellDependencies_def)
  have c: "isComputed (ComputedO 2)" by simp
  from recalculation_settles[OF order_ok_demo level_first_demo glitch_acyclic fuel glitch_consistent finite.emptyI _ _ finite.emptyI _ n,
    of "\<lambda>_. 1" "\<lambda>_. 0" "\<lambda>_. 0" "\<lambda>_. 0", unfolded w] obtain w1 w2 where
    "updateFromWriteableDependencyContext demo_order {} {} glitch_world = (Inr (), w1)"
    "recalculateDirtyComputedSlots demo_order glitch_defs (\<lambda>_. 0) (\<lambda>_. 0) 4 5 w1 = (Inr (), w2)" "cd_dirtyComputedSlots w2 = {}"
    "tracked w2 (ComputedO 2) \<Longrightarrow> cs_valueAndIsException (w_computed w2 (ComputedO 2)) = Some (False, 1)"
    using m c by (auto simp: glitch_fields simp del: split_paired_All)
  then show ?thesis by blast
qed

text \<open>If the order takes computed slot 2 first, the loop ends and nothing is dirty, but computed slot 2 keeps the value 0, while calculating
  it anew gives 1: while it was calculated, computed slot 1 was recalculated and marked it as dirty, and the end
  of its own calculation removed the mark.\<close>

lemma recalculation_may_lose_an_update:
  assumes ord: "order_ok ord" "hd (it_objs ord {ComputedO 0, ComputedO 2}) = ComputedO 2"
  shows "consistent glitch_defs glitch_level odb {} glitch_world \<and>
    (\<exists>w. recalculateDirtyComputedSlots ord glitch_defs exc odb (Suc (Suc (Suc fuel))) (Suc n) glitch_world = (Inr (), w) \<and>
      cd_dirtyComputedSlots w = {} \<and> cs_valueUpToDate (w_computed w (ComputedO 2)) \<and>
      cs_valueAndIsException (w_computed w (ComputedO 2)) = Some (False, 0) \<and> meaning glitch_defs exc (w_slotValue w) odb 4 (ComputedO 2) = (False, 1))"
proof -
  let ?w = "glitch_world\<lparr>cd_dirtyComputedSlots := {ComputedO 0}\<rparr>"
  have "graph_ok ?w" using glitch_graph by (simp add: graph_ok_def mirrored_def lean_def)
  then have at: "glitch_at ?w {ComputedO 0} (0, False, False) (0, True, False) (0, False, False)"
    by (simp add: glitch_at_def glitch_fields newComputedSlot_def)
  obtain w where w: "ensureCalculated ord glitch_defs exc odb (Suc (Suc (Suc fuel))) (ComputedO 2) ?w = (Inr (), w)"
      "glitch_at w {} (1, True, False) (1, True, False) (0, True, False)"
    using glitch_c2[OF ord(1) at] by metis
  have clean: "cd_dirtyComputedSlots w = {}" "w_slotValue w (SlotO 0) = 1" "cs_valueUpToDate (w_computed w (ComputedO 2))"
      "cs_valueAndIsException (w_computed w (ComputedO 2)) = Some (False, 0)"
    using w(2) by (simp_all add: glitch_at_def Let_def)
  have d: "{ComputedO 0, ComputedO 2} - {ComputedO 2} = {ComputedO 0}" by auto
  have "recalculateDirtyComputedSlots ord glitch_defs exc odb (Suc (Suc (Suc fuel))) n w = (Inr (), w)" using clean(1) by (cases n) simp_all
  with w(1) ord(2) have "recalculateDirtyComputedSlots ord glitch_defs exc odb (Suc (Suc (Suc fuel))) (Suc n) glitch_world = (Inr (), w)"
    by (simp add: glitch_fields Let_def d)
  moreover have "meaning glitch_defs exc (w_slotValue w) odb 4 (ComputedO 2) = (False, 1)"
    using clean(2) by (simp add: eval_nat_numeral glitch_defs_def)
  ultimately show ?thesis using clean glitch_consistent by blast
qed

end
