(* ===== verification/Proxy_State.thy ===== *)
theory Proxy_State
  imports Environment
begin

text \<open>
  \<open>SubscriptionState\<close> of \<open>proxy_server.py\<close>: what a proxy knows of the data it is subscribed to, and which of its own
  clients has subscribed to what. A proxy subscribes to whole types only and serves narrower subscriptions of its clients
  from its copy of the data.

  Messages to the clients are collected in \<open>ss_outbox\<close>. \<open>proxyenv\<close> adds to the environment the iteration order of two
  more kinds of sets, the results of \<open>uuid4\<close>, and three details of the typed containers of \<open>typed_python\<close>
  that its callers take for granted: whether \<open>Set.pop\<close> takes an element to remove, whether \<open>Dict.get\<close> accepts \<open>None\<close> where the
  keys are integers, and whether a \<open>ListOf(ClientToServer)\<close> can be stored in a dictionary declared to hold \<open>ListOf(ServerToClient)\<close>;
  otherwise they raise.
\<close>

section \<open>State\<close>

record SubscriptionKey =
  sk_schema :: string
  sk_typename :: string
  sk_fieldname_and_value :: field_and_value
  sk_isLazy :: bool

record proxyenv = pyenv +
  iterS :: "SubscriptionKey set \<Rightarrow> SubscriptionKey list"
  iterP :: "(chan \<times> SubscriptionKey) set \<Rightarrow> (chan \<times> SubscriptionKey) list"
  uuid4 :: "nat \<Rightarrow> string"
  setPopTakesElement :: bool
  dictGetTakesNone :: bool
  listOfConverts :: bool

record SubscriptionState =
  ss_fieldIdToSubscribedChannels :: "FieldId \<rightharpoonup> chan set"
  ss_channelToSubscribedFieldIds :: "chan \<rightharpoonup> FieldId set"
  ss_indexIdToSubscribedChannels :: "IndexId \<rightharpoonup> chan set"
  ss_channelToSubscribedIndexIds :: "chan \<rightharpoonup> IndexId set"
  ss_channelToSubscribedOids :: "chan \<rightharpoonup> ObjectId set"
  ss_oidToSubscribedChannels :: "ObjectId \<rightharpoonup> chan set"
  ss_channelToLazilySubscribedFieldIds :: "chan \<rightharpoonup> FieldId set"
  ss_channelToLazilySubscribedIndexIds :: "chan \<rightharpoonup> IndexId set"
  ss_schemaDefs :: "string \<rightharpoonup> (FieldDefinition \<times> FieldId) list"
  ss_definedSchemas :: "string \<rightharpoonup> SchemaDefinition"
  ss_schemaTypeAndNameToFieldId :: "string \<rightharpoonup> (string \<rightharpoonup> (string \<times> FieldId) list)"
  ss_fieldIdToDef :: "FieldId \<rightharpoonup> FieldDefinition"
  ss_fieldDefToId :: "FieldDefinition \<rightharpoonup> FieldId"
  ss_channelSubscriptions :: "chan \<rightharpoonup> SubscriptionKey set"
  ss_channelToPendingSubscriptions :: "chan \<rightharpoonup> SubscriptionKey set"
  ss_channelToPendingTransactions :: "chan \<rightharpoonup> ClientToServer list"
  ss_subscriptionsPendingSubscriptionOnServer :: "string \<times> string \<rightharpoonup> (chan \<times> SubscriptionKey) set"
  ss_transactionId :: int
  ss_completedTypes :: "(string \<times> string) set"
  ss_objectValues :: "FieldId \<rightharpoonup> (ObjectId \<rightharpoonup> bytes)"
  ss_indexValues :: "FieldId \<rightharpoonup> (ObjectId \<rightharpoonup> IndexValue)"
  ss_reverseIndexValues :: "FieldId \<rightharpoonup> (IndexValue \<rightharpoonup> ObjectId set)"
  ss_outbox :: "chan \<Rightarrow> ServerToClient list"

definition newSubscriptionState :: SubscriptionState where
  "newSubscriptionState = \<lparr>
     ss_fieldIdToSubscribedChannels = Map.empty, ss_channelToSubscribedFieldIds = Map.empty,
     ss_indexIdToSubscribedChannels = Map.empty, ss_channelToSubscribedIndexIds = Map.empty,
     ss_channelToSubscribedOids = Map.empty, ss_oidToSubscribedChannels = Map.empty,
     ss_channelToLazilySubscribedFieldIds = Map.empty, ss_channelToLazilySubscribedIndexIds = Map.empty,
     ss_schemaDefs = Map.empty, ss_definedSchemas = Map.empty, ss_schemaTypeAndNameToFieldId = Map.empty,
     ss_fieldIdToDef = Map.empty, ss_fieldDefToId = Map.empty, ss_channelSubscriptions = Map.empty,
     ss_channelToPendingSubscriptions = Map.empty, ss_channelToPendingTransactions = Map.empty,
     ss_subscriptionsPendingSubscriptionOnServer = Map.empty, ss_transactionId = -1, ss_completedTypes = {},
     ss_objectValues = Map.empty, ss_indexValues = Map.empty, ss_reverseIndexValues = Map.empty, ss_outbox = (\<lambda>_. [])\<rparr>"

text \<open>\<open>channel.sendMessage(msg)\<close>\<close>

definition ssSend :: "chan \<Rightarrow> ServerToClient \<Rightarrow> (SubscriptionState, unit) pyM" where
  "ssSend c msg = modify (\<lambda>s. s\<lparr>ss_outbox := (ss_outbox s)(c := ss_outbox s c @ [msg])\<rparr>)"

text \<open>\<open>d.setdefault(k)\<close> on a dictionary of dictionaries, for reading, and on a dictionary of sets, for its effect.\<close>

definition map_at :: "('k \<rightharpoonup> ('a \<rightharpoonup> 'b)) \<Rightarrow> 'k \<Rightarrow> ('a \<rightharpoonup> 'b)" where
  "map_at m k = (case m k of None \<Rightarrow> Map.empty | Some x \<Rightarrow> x)"

definition setdefault :: "'k \<Rightarrow> ('k \<rightharpoonup> 'a set) \<Rightarrow> ('k \<rightharpoonup> 'a set)" where
  "setdefault k m = m(k \<mapsto> set_at m k)"

section \<open>Fields\<close>

definition ssFieldIdFor :: "SubscriptionState \<Rightarrow> string \<Rightarrow> string \<Rightarrow> string \<Rightarrow> FieldId option" where
  "ssFieldIdFor s schema typename fieldname = ss_fieldDefToId s (FieldDefinition schema typename fieldname)"

text \<open>\<open>self.schemaTypeAndNameToFieldId[schema][typename]\<close>, where the keys were tested before.\<close>

definition typeFields :: "SubscriptionState \<Rightarrow> string \<Rightarrow> string \<Rightarrow> (string \<times> FieldId) list option" where
  "typeFields s schema typename = (case ss_schemaTypeAndNameToFieldId s schema of None \<Rightarrow> None | Some m \<Rightarrow> m typename)"

definition mapField :: "FieldDefinition \<times> FieldId \<Rightarrow> SubscriptionState \<Rightarrow> SubscriptionState" where
  "mapField p s = (case p of (d, f) \<Rightarrow>
     (let types = map_at (ss_schemaTypeAndNameToFieldId s) (fd_schema d);
          names = (case types (fd_typename d) of None \<Rightarrow> [] | Some m \<Rightarrow> m)
      in s\<lparr>ss_schemaTypeAndNameToFieldId := (ss_schemaTypeAndNameToFieldId s)(fd_schema d \<mapsto>
             types(fd_typename d \<mapsto> AList.update (fd_fieldname d) f names)),
           ss_fieldIdToDef := (ss_fieldIdToDef s)(f \<mapsto> d), ss_fieldDefToId := (ss_fieldDefToId s)(d \<mapsto> f)\<rparr>))"

definition mapSchema :: "string \<Rightarrow> (FieldDefinition \<times> FieldId) list \<Rightarrow> (SubscriptionState, unit) pyM" where
  "mapSchema schemaName schemaDef =
     thenM (modify (\<lambda>s. s\<lparr>ss_schemaDefs := (ss_schemaDefs s)(schemaName \<mapsto> schemaDef)\<rparr>))
       (forM schemaDef (\<lambda>p. modify (mapField p)))"

section \<open>Data for a subscription\<close>

definition objectIndentitiesForSubscriptionKey :: "proxyenv \<Rightarrow> SubscriptionKey \<Rightarrow> SubscriptionState \<Rightarrow> py_error + ObjectId set" where
  "objectIndentitiesForSubscriptionKey env key s =
     (case sk_fieldname_and_value key of
        None \<Rightarrow> Inr (case typeFields s (sk_schema key) (sk_typename key) of None \<Rightarrow> {}
          | Some fs \<Rightarrow> (\<Union>f \<in> snd ` set fs. dom (map_at (ss_objectValues s) f)))
      | Some (fieldname, iv) \<Rightarrow>
          if fieldname = ''_identity''
          then (case deser_ObjectBase env iv of None \<Rightarrow> Inl ValueError | Some i \<Rightarrow> Inr {i})
          else Inr (case typeFields s (sk_schema key) (sk_typename key) of None \<Rightarrow> {}
            | Some fs \<Rightarrow> (case map_of fs fieldname of None \<Rightarrow> {} | Some f \<Rightarrow> set_at (map_at (ss_reverseIndexValues s) f) iv)))"

text \<open>The values that the dictionary \<open>d\<close> (of object or of index values) has for the given objects, field by field.\<close>

definition valuesFor :: "bool \<Rightarrow> (FieldId \<rightharpoonup> (ObjectId \<rightharpoonup> bytes)) \<Rightarrow> (string \<times> FieldId) list option \<Rightarrow> ObjectId list \<Rightarrow> write_dict" where
  "valuesFor isIndex d names oids = (case names of None \<Rightarrow> []
     | Some fs \<Rightarrow> concat (map (\<lambda>f. concat (map (\<lambda>oid.
         case map_at d f oid of None \<Rightarrow> [] | Some v \<Rightarrow> [(ObjectFieldId oid f isIndex, Some v)]) oids)) (map snd fs)))"

definition objectValuesForOids :: "SubscriptionState \<Rightarrow> string \<Rightarrow> string \<Rightarrow> ObjectId list \<Rightarrow> write_dict" where
  "objectValuesForOids s schema typename oids = valuesFor False (ss_objectValues s) (typeFields s schema typename) oids"

definition indexValuesForOids :: "SubscriptionState \<Rightarrow> string \<Rightarrow> string \<Rightarrow> ObjectId list \<Rightarrow> write_dict" where
  "indexValuesForOids s schema typename oids = valuesFor True (ss_indexValues s) (typeFields s schema typename) oids"

text \<open>All values of a type; looking a field up enters it in the dictionary.\<close>

definition allValuesOf :: "bool \<Rightarrow> (FieldId \<rightharpoonup> (ObjectId \<rightharpoonup> bytes)) \<Rightarrow> (string \<times> FieldId) list option \<Rightarrow> ObjectFieldId \<rightharpoonup> bytes option" where
  "allValuesOf isIndex d names k = (case names of None \<Rightarrow> None
     | Some fs \<Rightarrow> if fieldId k \<in> snd ` set fs \<and> isIndexValue k = isIndex then map_option Some (map_at d (fieldId k) (objId k)) else None)"

definition enterFields :: "(string \<times> FieldId) list option \<Rightarrow> (FieldId \<rightharpoonup> (ObjectId \<rightharpoonup> bytes)) \<Rightarrow> (FieldId \<rightharpoonup> (ObjectId \<rightharpoonup> bytes))" where
  "enterFields names d = (\<lambda>f. if (case names of None \<Rightarrow> False | Some fs \<Rightarrow> f \<in> snd ` set fs) then Some (map_at d f) else d f)"

definition objectValuesForSubscriptionKey :: "SubscriptionKey \<Rightarrow> (SubscriptionState, ObjectFieldId \<rightharpoonup> bytes option) pyM" where
  "objectValuesForSubscriptionKey key =
     bindM (gets (\<lambda>s. typeFields s (sk_schema key) (sk_typename key))) (\<lambda>names.
     thenM (modify (\<lambda>s. s\<lparr>ss_objectValues := enterFields names (ss_objectValues s)\<rparr>))
       (gets (\<lambda>s. allValuesOf False (ss_objectValues s) names)))"

definition indexValuesForSubscriptionKey :: "SubscriptionKey \<Rightarrow> (SubscriptionState, ObjectFieldId \<rightharpoonup> bytes option) pyM" where
  "indexValuesForSubscriptionKey key =
     bindM (gets (\<lambda>s. typeFields s (sk_schema key) (sk_typename key))) (\<lambda>names.
     thenM (modify (\<lambda>s. s\<lparr>ss_indexValues := enterFields names (ss_indexValues s)\<rparr>))
       (gets (\<lambda>s. allValuesOf True (ss_indexValues s) names)))"

definition getChannelsForSchemaAndTypename :: "SubscriptionState \<Rightarrow> string \<Rightarrow> string \<Rightarrow> chan set" where
  "getChannelsForSchemaAndTypename s schema typename = (case typeFields s schema typename of None \<Rightarrow> {}
     | Some fs \<Rightarrow> (\<Union>f \<in> snd ` set fs. set_at (ss_fieldIdToSubscribedChannels s) f))"

text \<open>The first part of \<open>sendDataForSubscription\<close>: the channel is entered in the dictionaries of subscribers.\<close>

definition pxSubscribeIndex :: "chan \<Rightarrow> SubscriptionKey \<Rightarrow> FieldId \<Rightarrow> IndexValue \<Rightarrow> SubscriptionState \<Rightarrow> SubscriptionState" where
  "pxSubscribeIndex c key f iv s = s\<lparr>
     ss_indexIdToSubscribedChannels := add_at (IndexId f iv) c (ss_indexIdToSubscribedChannels s),
     ss_channelToSubscribedIndexIds := add_at c (IndexId f iv) (ss_channelToSubscribedIndexIds s),
     ss_channelToLazilySubscribedIndexIds := (if sk_isLazy key then add_at c (IndexId f iv) else id) (ss_channelToLazilySubscribedIndexIds s)\<rparr>"

definition pxSubscribeField :: "chan \<Rightarrow> SubscriptionKey \<Rightarrow> FieldId \<Rightarrow> SubscriptionState \<Rightarrow> SubscriptionState" where
  "pxSubscribeField c key f s = s\<lparr>
     ss_fieldIdToSubscribedChannels := add_at f c (ss_fieldIdToSubscribedChannels s),
     ss_channelToSubscribedFieldIds := add_at c f (ss_channelToSubscribedFieldIds s),
     ss_channelToLazilySubscribedFieldIds := (if sk_isLazy key then add_at c f else id) (ss_channelToLazilySubscribedFieldIds s)\<rparr>"

text \<open>\<open>for oid in oids: self.oidToSubscribedChannels.setdefault(oid).add(channel)\<close>\<close>

definition addToOids :: "ObjectId set \<Rightarrow> chan \<Rightarrow> (ObjectId \<rightharpoonup> chan set) \<Rightarrow> (ObjectId \<rightharpoonup> chan set)" where
  "addToOids oids c m = (\<lambda>oid. if oid \<in> oids then Some (insert c (set_at m oid)) else m oid)"

definition subscribeOids :: "chan \<Rightarrow> ObjectId set \<Rightarrow> SubscriptionState \<Rightarrow> SubscriptionState" where
  "subscribeOids c oids s = s\<lparr>ss_channelToSubscribedOids := (ss_channelToSubscribedOids s)(c \<mapsto> oids),
     ss_oidToSubscribedChannels := addToOids oids c (ss_oidToSubscribedChannels s)\<rparr>"

definition registerSubscription :: "chan \<Rightarrow> SubscriptionKey \<Rightarrow> ObjectId set \<Rightarrow> (SubscriptionState, unit) pyM" where
  "registerSubscription c key oids =
     (case sk_fieldname_and_value key of
        Some (fieldname, iv) \<Rightarrow>
          thenM (whenM (fieldname \<noteq> ''_identity'')
            (bindM (gets ss_schemaTypeAndNameToFieldId) (\<lambda>d. bindM (lookupM d (sk_schema key)) (\<lambda>types.
             bindM (lookupM types (sk_typename key)) (\<lambda>names. bindM (lookupM (map_of names) fieldname) (\<lambda>f.
               modify (pxSubscribeIndex c key f iv)))))))
          (modify (subscribeOids c oids))
      | None \<Rightarrow>
          bindM (gets ss_schemaTypeAndNameToFieldId) (\<lambda>d. bindM (lookupM d (sk_schema key)) (\<lambda>types.
          bindM (lookupM types (sk_typename key)) (\<lambda>names.
            forM (map snd names) (\<lambda>f. modify (pxSubscribeField c key f))))))"

definition subscriptionMessage :: "proxyenv \<Rightarrow> SubscriptionKey \<Rightarrow> ObjectId set \<Rightarrow> SubscriptionState \<Rightarrow> ServerToClient" where
  "subscriptionMessage env key oids s =
     (let schema = sk_schema key; typename = sk_typename key; fv = sk_fieldname_and_value key;
          index_values = map_of (indexValuesForOids s schema typename (iterI env oids))
      in if sk_isLazy key then LazySubscriptionData schema typename fv oids index_values
         else SubscriptionData schema typename fv (map_of (objectValuesForOids s schema typename (iterI env oids))) index_values
           (if fv = None then None else Some oids))"

definition sendDataForSubscription :: "proxyenv \<Rightarrow> chan \<Rightarrow> SubscriptionKey \<Rightarrow> (SubscriptionState, unit) pyM" where
  "sendDataForSubscription env c key =
     bindM (gets (objectIndentitiesForSubscriptionKey env key)) (\<lambda>r. case r of
       Inl e \<Rightarrow> raise e
     | Inr oids \<Rightarrow>
         thenM (registerSubscription c key oids)
         (thenM (bindM (gets (subscriptionMessage env key oids)) (ssSend c))
           (bindM (gets ss_transactionId) (\<lambda>tid.
              ssSend c (SubscriptionComplete (sk_schema key) (sk_typename key) (sk_fieldname_and_value key) tid)))))"

definition pendSubscription :: "chan \<Rightarrow> SubscriptionKey \<Rightarrow> SubscriptionState \<Rightarrow> SubscriptionState" where
  "pendSubscription c key s = s\<lparr>
     ss_subscriptionsPendingSubscriptionOnServer :=
       add_at (sk_schema key, sk_typename key) (c, key) (ss_subscriptionsPendingSubscriptionOnServer s),
     ss_channelToPendingSubscriptions := add_at c key (ss_channelToPendingSubscriptions s)\<rparr>"

definition addSubscription :: "proxyenv \<Rightarrow> chan \<Rightarrow> SubscriptionKey \<Rightarrow> (SubscriptionState, unit) pyM" where
  "addSubscription env c key =
     thenM (modify (\<lambda>s. s\<lparr>ss_channelSubscriptions := add_at c key (ss_channelSubscriptions s)\<rparr>))
     (bindM (gets (\<lambda>s. (sk_schema key, sk_typename key) \<in> ss_completedTypes s)) (\<lambda>complete.
        if complete then sendDataForSubscription env c key else modify (pendSubscription c key)))"

section \<open>Data from the server\<close>

definition putObjectValue :: "ObjectFieldId \<Rightarrow> bytes option \<Rightarrow> SubscriptionState \<Rightarrow> SubscriptionState" where
  "putObjectValue k v s = s\<lparr>ss_objectValues := (ss_objectValues s)(fieldId k \<mapsto> (map_at (ss_objectValues s) (fieldId k))(objId k := v))\<rparr>"

definition putIndexValue :: "ObjectFieldId \<Rightarrow> IndexValue option \<Rightarrow> SubscriptionState \<Rightarrow> SubscriptionState" where
  "putIndexValue k v s = s\<lparr>
     ss_indexValues := (ss_indexValues s)(fieldId k \<mapsto> (map_at (ss_indexValues s) (fieldId k))(objId k := v)),
     ss_reverseIndexValues := (ss_reverseIndexValues s)(fieldId k \<mapsto>
       (case v of None \<Rightarrow> id | Some iv \<Rightarrow> add_at iv (objId k)) (map_at (ss_reverseIndexValues s) (fieldId k)))\<rparr>"

definition receiveValue :: "(ObjectFieldId \<rightharpoonup> bytes option) \<Rightarrow> ObjectFieldId \<Rightarrow> (SubscriptionState, unit) pyM" where
  "receiveValue vals k = thenM (assertM (\<not> isIndexValue k)) (modify (putObjectValue k (the (vals k))))"

definition receiveIndexValue :: "(ObjectFieldId \<rightharpoonup> bytes option) \<Rightarrow> ObjectFieldId \<Rightarrow> (SubscriptionState, unit) pyM" where
  "receiveIndexValue indexVals k = thenM (assertM (isIndexValue k)) (modify (putIndexValue k (the (indexVals k))))"

definition ssHandleSubscriptionData ::
  "proxyenv \<Rightarrow> (ObjectFieldId \<rightharpoonup> bytes option) \<Rightarrow> (ObjectFieldId \<rightharpoonup> bytes option) \<Rightarrow> (SubscriptionState, unit) pyM" where
  "ssHandleSubscriptionData env vals indexVals =
     thenM (forM (iterK env (dom vals)) (receiveValue vals)) (forM (iterK env (dom indexVals)) (receiveIndexValue indexVals))"

text \<open>One pending subscription of a type whose data is complete; the pending messages of a channel that waits for nothing more
  are collected for the caller.\<close>

definition completePending ::
  "proxyenv \<Rightarrow> chan \<times> SubscriptionKey \<Rightarrow> (chan \<times> ClientToServer list) list \<Rightarrow> (SubscriptionState, (chan \<times> ClientToServer list) list) pyM" where
  "completePending env p out = (case p of (c, key) \<Rightarrow>
     bindM (gets ss_channelToPendingSubscriptions) (\<lambda>d. bindM (lookupM d c) (\<lambda>pending.
     thenM (modify (\<lambda>s. s\<lparr>ss_channelToPendingSubscriptions := (ss_channelToPendingSubscriptions s)(c \<mapsto> pending - {key})\<rparr>))
     (thenM (sendDataForSubscription env c key)
     (bindM (gets (\<lambda>s. (set_at (ss_channelToPendingSubscriptions s) c, ss_channelToPendingTransactions s c))) (\<lambda>(left, msgs).
        if left = {}
        then thenM (modify (\<lambda>s. s\<lparr>ss_channelToPendingSubscriptions := (ss_channelToPendingSubscriptions s)(c := None),
                 ss_channelToPendingTransactions := (ss_channelToPendingTransactions s)(c := None)\<rparr>))
               (case msgs of None \<Rightarrow> ret out | Some m \<Rightarrow> if listOfConverts env then ret (AList.update c m out) else raise TypeError)
        else ret out))))))"

definition ssHandleSubscriptionComplete :: "proxyenv \<Rightarrow> string \<Rightarrow> string \<Rightarrow> int \<Rightarrow> (SubscriptionState, (chan \<times> ClientToServer list) list) pyM" where
  "ssHandleSubscriptionComplete env schema typename tid =
     thenM (modify (\<lambda>s. s\<lparr>ss_transactionId := max tid (ss_transactionId s), ss_completedTypes := insert (schema, typename) (ss_completedTypes s)\<rparr>))
     (bindM (gets (\<lambda>s. set_at (ss_subscriptionsPendingSubscriptionOnServer s) (schema, typename))) (\<lambda>pending.
      thenM (modify (\<lambda>s. s\<lparr>ss_subscriptionsPendingSubscriptionOnServer := (ss_subscriptionsPendingSubscriptionOnServer s)((schema, typename) := None)\<rparr>))
        (foldMl (completePending env) (iterP env pending) [])))"

section \<open>Transactions from the server\<close>

text \<open>The parts of \<open>handleTransaction\<close> in order. First the prior values of everything written.\<close>

definition priorValues :: "write_dict \<Rightarrow> SubscriptionState \<Rightarrow> write_dict" where
  "priorValues writes s = map (\<lambda>(k, _). (k, map_at (ss_objectValues s) (fieldId k) (objId k))) writes"

text \<open>Then the writes and the removals from indices.\<close>

definition applyWrites :: "write_dict \<Rightarrow> SubscriptionState \<Rightarrow> SubscriptionState" where
  "applyWrites writes s = fold (\<lambda>(k, v). putObjectValue k v) writes s"

definition applyRemove :: "IndexId \<times> ObjectId set \<Rightarrow> SubscriptionState \<Rightarrow> SubscriptionState" where
  "applyRemove p s = (case p of (ix, oids) \<Rightarrow>
     (let f = ixFieldId ix; r = map_at (ss_reverseIndexValues s) f; left = set_at r (indexValue ix) - oids
      in s\<lparr>ss_indexValues := (ss_indexValues s)(f \<mapsto> (\<lambda>oid. if oid \<in> oids then None else map_at (ss_indexValues s) f oid)),
           ss_reverseIndexValues := (ss_reverseIndexValues s)(f \<mapsto> r(indexValue ix := if left = {} then None else Some left))\<rparr>))"

text \<open>Then the additions to indices. A channel that is subscribed to the index value is told of the objects it did not know.\<close>

definition increaseOids :: "chan \<Rightarrow> ObjectId set \<Rightarrow> SubscriptionState \<Rightarrow> SubscriptionState" where
  "increaseOids c newOids s = s\<lparr>
     ss_channelToSubscribedOids := (ss_channelToSubscribedOids s)(c \<mapsto> set_at (ss_channelToSubscribedOids s) c \<union> newOids),
     ss_oidToSubscribedChannels := addToOids newOids c (ss_oidToSubscribedChannels s)\<rparr>"

definition increaseChannel ::
  "int \<Rightarrow> IndexId \<Rightarrow> ObjectId set \<Rightarrow> chan \<Rightarrow> chan set \<times> set_dict \<Rightarrow> (SubscriptionState, chan set \<times> set_dict) pyM" where
  "increaseChannel tid ix oids c acc = (case acc of (triggered, ids) \<Rightarrow>
     thenM (modify (\<lambda>s. s\<lparr>ss_channelToLazilySubscribedIndexIds := setdefault c (ss_channelToLazilySubscribedIndexIds s)\<rparr>))
     (bindM (gets (\<lambda>s. (ix \<in> set_at (ss_channelToLazilySubscribedIndexIds s) c, oids - set_at (ss_channelToSubscribedOids s) c))) (\<lambda>(lazy, newOids).
      let triggered' = (if lazy then insert c triggered else triggered) in
      if newOids = {} then ret (triggered', ids)
      else
        thenM (modify (increaseOids c newOids))
        (bindM (gets ss_fieldIdToDef) (\<lambda>defs. bindM (lookupM defs (ixFieldId ix)) (\<lambda>d.
         thenM (ssSend c (SubscriptionIncrease (fd_schema d) (fd_typename d) (fd_fieldname d, indexValue ix) newOids tid))
           (ret (triggered', AList.update ix (set_at (map_of ids) ix \<union> newOids) ids))))))))"

definition applyAdd :: "IndexId \<times> ObjectId set \<Rightarrow> SubscriptionState \<Rightarrow> SubscriptionState" where
  "applyAdd p s = (case p of (ix, oids) \<Rightarrow>
     (let f = ixFieldId ix; r = map_at (ss_reverseIndexValues s) f
      in s\<lparr>ss_indexValues := (ss_indexValues s)(f \<mapsto> (\<lambda>oid. if oid \<in> oids then Some (indexValue ix) else map_at (ss_indexValues s) f oid)),
           ss_reverseIndexValues := (ss_reverseIndexValues s)(f \<mapsto> r(indexValue ix \<mapsto> set_at r (indexValue ix) \<union> oids))\<rparr>))"

definition addToIndex ::
  "proxyenv \<Rightarrow> int \<Rightarrow> IndexId \<times> ObjectId set \<Rightarrow> chan set \<times> set_dict \<Rightarrow> (SubscriptionState, chan set \<times> set_dict) pyM" where
  "addToIndex env tid p acc =
     bindM (gets (\<lambda>s. set_at (ss_indexIdToSubscribedChannels s) (fst p))) (\<lambda>channels.
     bindM (foldMl (increaseChannel tid (fst p) (snd p)) (iterC env channels) acc) (\<lambda>acc'.
       thenM (modify (applyAdd p)) (ret acc')))"

text \<open>\<open>_increaseBroadcastTransactionToInclude\<close>\<close>

definition includeFields :: "SubscriptionState \<Rightarrow> ObjectId list \<Rightarrow> FieldId \<Rightarrow> write_dict \<Rightarrow> write_dict" where
  "includeFields s oids f writes = fold (\<lambda>oid w. case map_at (ss_objectValues s) f oid of
     None \<Rightarrow> w | Some v \<Rightarrow> AList.update (ObjectFieldId oid f False) (Some v) w) oids writes"

definition includeIndices :: "SubscriptionState \<Rightarrow> ObjectId list \<Rightarrow> FieldId \<Rightarrow> set_dict \<Rightarrow> set_dict" where
  "includeIndices s oids f adds = fold (\<lambda>oid a. case map_at (ss_objectValues s) f oid of
     None \<Rightarrow> a | Some v \<Rightarrow> AList.update (IndexId f v) (insert oid (set_at (map_of a) (IndexId f v))) a) oids adds"

definition pxIncreaseBroadcast ::
  "proxyenv \<Rightarrow> IndexId \<times> ObjectId set \<Rightarrow> write_dict \<times> set_dict \<Rightarrow> (SubscriptionState, write_dict \<times> set_dict) pyM" where
  "pxIncreaseBroadcast env p acc =
     bindM (gets ss_fieldIdToDef) (\<lambda>defs. bindM (lookupM defs (ixFieldId (fst p))) (\<lambda>d.
     bindM (gets ss_schemaTypeAndNameToFieldId) (\<lambda>m. bindM (lookupM m (fd_schema d)) (\<lambda>types. bindM (lookupM types (fd_typename d)) (\<lambda>names.
     bindM (gets ss_definedSchemas) (\<lambda>ds. bindM (lookupM ds (fd_schema d)) (\<lambda>sd. bindM (lookupM (map_of sd) (fd_typename d)) (\<lambda>td.
     bindM (foldMl (\<lambda>fieldname w. bindM (lookupM (map_of names) fieldname) (\<lambda>f.
         gets (\<lambda>s. includeFields s (iterI env (snd p)) f w))) (td_fields td) (fst acc)) (\<lambda>writes.
     bindM (foldMl (\<lambda>indexname a. bindM (lookupM (map_of names) indexname) (\<lambda>f.
         gets (\<lambda>s. includeIndices s (iterI env (snd p)) f a))) (td_indices td) (snd acc)) (\<lambda>set_adds.
       ret (writes, set_adds)))))))))))"

text \<open>Who is told: the subscribers of the fields and of the objects the transaction mentions.\<close>

definition affectedFields :: "write_dict \<Rightarrow> set_dict \<Rightarrow> set_dict \<Rightarrow> FieldId set" where
  "affectedFields writes set_adds set_removes =
     (\<lambda>(k, _). fieldId k) ` set writes \<union> (\<lambda>(ix, _). ixFieldId ix) ` set set_adds \<union> (\<lambda>(ix, _). ixFieldId ix) ` set set_removes"

definition oidsMentioned :: "write_dict \<Rightarrow> set_dict \<Rightarrow> set_dict \<Rightarrow> ObjectId set" where
  "oidsMentioned writes set_adds set_removes =
     (\<lambda>(k, _). objId k) ` set writes \<union> \<Union> (snd ` set set_adds) \<union> \<Union> (snd ` set set_removes)"

definition affectedChannels :: "FieldId set \<Rightarrow> ObjectId set \<Rightarrow> SubscriptionState \<Rightarrow> chan set" where
  "affectedChannels fieldIds oids s =
     (\<Union>f \<in> fieldIds. set_at (ss_fieldIdToSubscribedChannels s) f) \<union> (\<Union>oid \<in> oids. set_at (ss_oidToSubscribedChannels s) oid)"

text \<open>The channels lazily subscribed to one of the fields; looking them up enters them in the dictionary.\<close>

definition lazyFieldSubscribers :: "FieldId set \<Rightarrow> SubscriptionState \<Rightarrow> chan set" where
  "lazyFieldSubscribers fieldIds s =
     (\<Union>f \<in> fieldIds. {c \<in> set_at (ss_fieldIdToSubscribedChannels s) f. f \<in> set_at (ss_channelToLazilySubscribedFieldIds s) c})"

definition touchLazyFields :: "FieldId set \<Rightarrow> SubscriptionState \<Rightarrow> SubscriptionState" where
  "touchLazyFields fieldIds s = s\<lparr>ss_channelToLazilySubscribedFieldIds := (\<lambda>c.
     if \<exists>f \<in> fieldIds. c \<in> set_at (ss_fieldIdToSubscribedChannels s) f then Some (set_at (ss_channelToLazilySubscribedFieldIds s) c)
     else ss_channelToLazilySubscribedFieldIds s c)\<rparr>"

definition announce :: "proxyenv \<Rightarrow> write_dict \<Rightarrow> chan set \<Rightarrow> chan set \<Rightarrow> transaction_msg \<Rightarrow> (SubscriptionState, unit) pyM" where
  "announce env priors triggered channels t =
     thenM (forM (iterC env triggered) (\<lambda>c. ssSend c (LazyTransactionPriors priors)))
       (forM (iterC env channels) (\<lambda>c. ssSend c (Transaction t)))"

definition ssHandleTransaction :: "proxyenv \<Rightarrow> write_dict \<Rightarrow> set_dict \<Rightarrow> set_dict \<Rightarrow> int \<Rightarrow> (SubscriptionState, unit) pyM" where
  "ssHandleTransaction env writes set_adds set_removes tid =
     bindM (gets (priorValues writes)) (\<lambda>priors.
     thenM (modify (applyWrites writes))
     (thenM (forM set_removes (\<lambda>p. modify (applyRemove p)))
     (bindM (foldMl (addToIndex env tid) set_adds ({}, [])) (\<lambda>(triggered, ids).
      bindM (foldMl (pxIncreaseBroadcast env) ids (writes, set_adds)) (\<lambda>(writes', set_adds').
      let fieldIds = affectedFields writes set_adds' set_removes; oids = oidsMentioned writes set_adds set_removes in
      bindM (gets (affectedChannels fieldIds oids)) (\<lambda>channels.
      bindM (gets (lazyFieldSubscribers fieldIds)) (\<lambda>lazy.
      thenM (modify (\<lambda>s. (touchLazyFields fieldIds s)\<lparr>ss_transactionId := max tid (ss_transactionId s)\<rparr>))
        (announce env priors (triggered \<union> lazy) channels
          \<lparr>tm_writes = writes', tm_set_adds = set_adds', tm_set_removes = set_removes, tm_transaction_id = tid\<rparr>))))))))"

text \<open>\<open>increaseSubscriptionIfNecessary\<close>: a client must hear of the objects it creates.\<close>

definition increaseForCreated :: "chan \<Rightarrow> int \<Rightarrow> IndexId \<times> ObjectId list \<Rightarrow> (SubscriptionState, unit) pyM" where
  "increaseForCreated c tid p = (case p of (ix, oids) \<Rightarrow>
     bindM (gets ss_fieldIdToDef) (\<lambda>defs. bindM (lookupM defs (ixFieldId ix)) (\<lambda>d.
       whenM (fd_fieldname d = '' exists'')
        (thenM (modify (\<lambda>s. s\<lparr>ss_fieldIdToSubscribedChannels := setdefault (ixFieldId ix) (ss_fieldIdToSubscribedChannels s)\<rparr>))
        (bindM (gets (\<lambda>s. c \<in> set_at (ss_fieldIdToSubscribedChannels s) (ixFieldId ix))) (\<lambda>subscribed.
         whenM (\<not> subscribed)
          (thenM (modify (\<lambda>s. if oids = [] then s else s\<lparr>ss_channelToSubscribedOids := setdefault c (ss_channelToSubscribedOids s)\<rparr>))
          (bindM (gets (\<lambda>s. set oids - set_at (ss_channelToSubscribedOids s) c)) (\<lambda>newIds.
             whenM (newIds \<noteq> {})
              (thenM (modify (increaseOids c newIds))
                (ssSend c (SubscriptionIncrease (fd_schema d) (fd_typename d) (fd_fieldname d, indexValue ix) newIds tid))))))))))))"

definition increaseSubscriptionIfNecessary :: "chan \<Rightarrow> (IndexId \<times> ObjectId list) list \<Rightarrow> int \<Rightarrow> (SubscriptionState, unit) pyM" where
  "increaseSubscriptionIfNecessary c set_adds tid = forM set_adds (increaseForCreated c tid)"

definition lazyLoadObject :: "chan \<Rightarrow> string \<Rightarrow> string \<Rightarrow> ObjectId \<Rightarrow> (SubscriptionState, unit) pyM" where
  "lazyLoadObject c schema typename identity =
     bindM (gets (\<lambda>s. objectValuesForOids s schema typename [identity])) (\<lambda>vals. ssSend c (LazyLoadResponse identity vals))"

definition getObjectValue :: "proxyenv \<Rightarrow> FieldId \<Rightarrow> ObjectId option \<Rightarrow> (SubscriptionState, bytes option) pyM" where
  "getObjectValue env f identity =
     thenM (modify (\<lambda>s. s\<lparr>ss_objectValues := (ss_objectValues s)(f \<mapsto> map_at (ss_objectValues s) f)\<rparr>))
       (case identity of
          None \<Rightarrow> if dictGetTakesNone env then ret None else raise TypeError
        | Some i \<Rightarrow> gets (\<lambda>s. map_at (ss_objectValues s) f i))"

section \<open>Dropping a connection\<close>

text \<open>\<open>d[k].discard(channel)\<close>\<close>

definition discardFrom :: "('k \<rightharpoonup> 'a set) \<Rightarrow> 'k \<Rightarrow> 'a \<Rightarrow> py_error + ('k \<rightharpoonup> 'a set)" where
  "discardFrom d k x = (case d k of None \<Rightarrow> Inl KeyError | Some m \<Rightarrow> Inr (d(k \<mapsto> m - {x})))"

definition dropField :: "chan \<Rightarrow> FieldId \<Rightarrow> (SubscriptionState, unit) pyM" where
  "dropField c f s = (case discardFrom (ss_fieldIdToSubscribedChannels s) f c of
     Inl e \<Rightarrow> (Inl e, s) | Inr d \<Rightarrow> (Inr (), s\<lparr>ss_fieldIdToSubscribedChannels := d\<rparr>))"

definition dropIndex :: "chan \<Rightarrow> IndexId \<Rightarrow> (SubscriptionState, unit) pyM" where
  "dropIndex c ix s = (case discardFrom (ss_indexIdToSubscribedChannels s) ix c of
     Inl e \<Rightarrow> (Inl e, s) | Inr d \<Rightarrow> (Inr (), s\<lparr>ss_indexIdToSubscribedChannels := d\<rparr>))"

definition dropOid :: "chan \<Rightarrow> ObjectId \<Rightarrow> (SubscriptionState, unit) pyM" where
  "dropOid c oid s = (case discardFrom (ss_oidToSubscribedChannels s) oid c of
     Inl e \<Rightarrow> (Inl e, s) | Inr d \<Rightarrow> (Inr (), s\<lparr>ss_oidToSubscribedChannels := if d oid = Some {} then d(oid := None) else d\<rparr>))"

definition dropPending :: "proxyenv \<Rightarrow> chan \<Rightarrow> SubscriptionKey \<Rightarrow> (SubscriptionState, unit) pyM" where
  "dropPending env c key s =
     (case ss_subscriptionsPendingSubscriptionOnServer s (sk_schema key, sk_typename key) of
        None \<Rightarrow> (Inl KeyError, s)
      | Some m \<Rightarrow>
          if \<not> setPopTakesElement env then (Inl TypeError, s)
          else if (c, key) \<notin> m then (Inl KeyError, s)
          else (Inr (), s\<lparr>ss_subscriptionsPendingSubscriptionOnServer :=
            (ss_subscriptionsPendingSubscriptionOnServer s)((sk_schema key, sk_typename key) \<mapsto> m - {(c, key)})\<rparr>))"

definition ssDropConnection :: "proxyenv \<Rightarrow> chan \<Rightarrow> (SubscriptionState, unit) pyM" where
  "ssDropConnection env c =
     bindM (gets (\<lambda>s. set_at (ss_channelToSubscribedFieldIds s) c)) (\<lambda>fs.
     thenM (forM (iterI env fs) (dropField c))
     (thenM (modify (\<lambda>s. s\<lparr>ss_channelToSubscribedFieldIds := (ss_channelToSubscribedFieldIds s)(c := None)\<rparr>))
     (bindM (gets (\<lambda>s. set_at (ss_channelToSubscribedIndexIds s) c)) (\<lambda>ixs.
      thenM (forM (iterX env ixs) (dropIndex c))
     (thenM (modify (\<lambda>s. s\<lparr>ss_channelToSubscribedIndexIds := (ss_channelToSubscribedIndexIds s)(c := None)\<rparr>))
     (bindM (gets (\<lambda>s. set_at (ss_channelToSubscribedOids s) c)) (\<lambda>oids.
      thenM (forM (iterI env oids) (dropOid c))
     (thenM (modify (\<lambda>s. s\<lparr>ss_channelToSubscribedOids := (ss_channelToSubscribedOids s)(c := None),
        ss_channelSubscriptions := (ss_channelSubscriptions s)(c := None),
        ss_channelToPendingTransactions := (ss_channelToPendingTransactions s)(c := None)\<rparr>))
     (bindM (gets (\<lambda>s. set_at (ss_channelToPendingSubscriptions s) c)) (\<lambda>pending.
      thenM (forM (iterS env pending) (dropPending env c))
        (modify (\<lambda>s. s\<lparr>ss_channelToPendingSubscriptions := (ss_channelToPendingSubscriptions s)(c := None),
           ss_channelToLazilySubscribedFieldIds := (ss_channelToLazilySubscribedFieldIds s)(c := None),
           ss_channelToLazilySubscribedIndexIds := (ss_channelToLazilySubscribedIndexIds s)(c := None)\<rparr>))))))))))))"

end
