(* ===== verification/Proxy_Server.thy ===== *)
theory Proxy_Server
  imports Proxy_State
begin

text \<open>
  \<open>ProxyServer\<close> of \<open>proxy_server.py\<close>: a server for its clients and a client of the main server. The messages it sends to
  the main server are collected in \<open>px_upstream\<close>, the channels it closes in \<open>px_closed\<close>. An operation here is one critical
  section of the proxy's lock. \<open>coreDefinition\<close> is \<open>core_schema.toDefinition()\<close>.
\<close>

section \<open>State\<close>

record ProxyServer =
  px_authToken :: string
  px_downstreamChannels :: "chan set"
  px_authenticatedDownstreamChannels :: "chan set"
  px_connectionIdentity :: "ObjectId option"
  px_identityRoot :: "int option"
  px_transactionNum :: "int option"
  px_deferredMessagesAndEndpoints :: "(chan \<times> ClientToServer) list"
  px_guidToChannelRequestingIdentity :: "string \<rightharpoonup> chan"
  px_channelToMissedHeartbeatCount :: "(chan \<times> int) list"
  px_channelToConnectionId :: "chan \<rightharpoonup> ObjectId"
  px_channelSchemas :: "chan \<times> string \<rightharpoonup> SchemaDefinition"
  px_mappedSchemas :: "string \<rightharpoonup> (int \<rightharpoonup> (FieldDefinition \<times> FieldId) list)"
  px_requestedSchemaIteration :: "string \<rightharpoonup> int"
  px_receivedSchemaIteration :: "string \<rightharpoonup> int"
  px_unmappedSchemasToChannels :: "string \<times> int \<rightharpoonup> chan set"
  px_subscriptionState :: SubscriptionState
  px_subscribedTypes :: "(string \<times> string) set"
  px_flushGuidIx :: int
  px_outgoingFlushGuidToChannelAndFlushGuid :: "int \<rightharpoonup> chan \<times> int"
  px_transactionGuidIx :: int
  px_channelAndTransactionGuidToOutgoingTransactionGuid :: "chan \<times> int \<rightharpoonup> int"
  px_outgoingTransactionGuidToChannelAndTransactionGuid :: "int \<rightharpoonup> chan \<times> int"
  px_upstream :: "ClientToServer list"
  px_uuids :: nat
  px_closed :: "chan set"

definition newProxyServer :: "string \<Rightarrow> ProxyServer" where
  "newProxyServer authToken = \<lparr>px_authToken = authToken, px_downstreamChannels = {}, px_authenticatedDownstreamChannels = {},
     px_connectionIdentity = None, px_identityRoot = None, px_transactionNum = None, px_deferredMessagesAndEndpoints = [],
     px_guidToChannelRequestingIdentity = Map.empty, px_channelToMissedHeartbeatCount = [], px_channelToConnectionId = Map.empty,
     px_channelSchemas = Map.empty, px_mappedSchemas = Map.empty, px_requestedSchemaIteration = Map.empty,
     px_receivedSchemaIteration = Map.empty, px_unmappedSchemasToChannels = Map.empty, px_subscriptionState = newSubscriptionState,
     px_subscribedTypes = {}, px_flushGuidIx = 0, px_outgoingFlushGuidToChannelAndFlushGuid = Map.empty, px_transactionGuidIx = 0,
     px_channelAndTransactionGuidToOutgoingTransactionGuid = Map.empty, px_outgoingTransactionGuidToChannelAndTransactionGuid = Map.empty,
     px_upstream = [], px_uuids = 0, px_closed = {}\<rparr>"

definition pxState :: "(SubscriptionState, 'a) pyM \<Rightarrow> (ProxyServer, 'a) pyM" where
  "pxState = zoomM px_subscriptionState (\<lambda>t s. s\<lparr>px_subscriptionState := t\<rparr>)"

definition sendUp :: "ClientToServer \<Rightarrow> (ProxyServer, unit) pyM" where
  "sendUp msg = modify (\<lambda>s. s\<lparr>px_upstream := px_upstream s @ [msg]\<rparr>)"

definition sendDown :: "chan \<Rightarrow> ServerToClient \<Rightarrow> (ProxyServer, unit) pyM" where
  "sendDown c msg = pxState (ssSend c msg)"

definition closeDown :: "chan \<Rightarrow> (ProxyServer, unit) pyM" where
  "closeDown c = modify (\<lambda>s. s\<lparr>px_closed := insert c (px_closed s)\<rparr>)"

section \<open>Schemas\<close>

definition mergeTypeDefinition :: "TypeDefinition \<Rightarrow> TypeDefinition \<Rightarrow> TypeDefinition" where
  "mergeTypeDefinition typedef1 typedef2 = \<lparr>
     td_fields = td_fields typedef1 @ filter (\<lambda>x. x \<notin> set (td_fields typedef1)) (td_fields typedef2),
     td_indices = td_indices typedef1 @ filter (\<lambda>x. x \<notin> set (td_indices typedef1)) (td_indices typedef2)\<rparr>"

definition mergeSchemaDefinitions :: "SchemaDefinition \<Rightarrow> SchemaDefinition \<Rightarrow> SchemaDefinition" where
  "mergeSchemaDefinitions schemaDef1 schemaDef2 =
     fold (\<lambda>(typename, typedef) out. AList.update typename
       (case map_of out typename of None \<Rightarrow> typedef | Some t \<Rightarrow> mergeTypeDefinition t typedef) out) schemaDef2 schemaDef1"

section \<open>Connections\<close>

definition authenticate :: "SchemaDefinition \<Rightarrow> (ProxyServer, unit) pyM" where
  "authenticate coreDefinition =
     bindM (gets px_authToken) (\<lambda>token.
     thenM (sendUp (Authenticate token))
     (thenM (sendUp (DefineSchema ''core'' coreDefinition))
       (modify (\<lambda>s. s\<lparr>px_requestedSchemaIteration := (px_requestedSchemaIteration s)(''core'' \<mapsto> 0),
          px_subscriptionState := (px_subscriptionState s)\<lparr>ss_definedSchemas := (ss_definedSchemas (px_subscriptionState s))(''core'' \<mapsto> coreDefinition)\<rparr>\<rparr>))))"

definition pxAddConnection :: "chan \<Rightarrow> (ProxyServer, unit) pyM" where
  "pxAddConnection c = modify (\<lambda>s. s\<lparr>px_downstreamChannels := insert c (px_downstreamChannels s),
     px_channelToMissedHeartbeatCount := AList.update c 0 (px_channelToMissedHeartbeatCount s)\<rparr>)"

definition pxDropConnection :: "proxyenv \<Rightarrow> chan \<Rightarrow> (ProxyServer, unit) pyM" where
  "pxDropConnection env c =
     bindM (gets px_downstreamChannels) (\<lambda>cs.
       if c \<notin> cs then ret ()
       else
         thenM (pxState (ssDropConnection env c))
         (thenM (modify (\<lambda>s. s\<lparr>px_downstreamChannels := px_downstreamChannels s - {c}\<rparr>))
         (bindM (gets (\<lambda>s. map_of (px_channelToMissedHeartbeatCount s))) (\<lambda>d. bindM (lookupM d c) (\<lambda>_.
          thenM (modify (\<lambda>s. s\<lparr>px_channelToMissedHeartbeatCount := AList.delete c (px_channelToMissedHeartbeatCount s),
            px_authenticatedDownstreamChannels := px_authenticatedDownstreamChannels s - {c}\<rparr>))
         (bindM (gets (\<lambda>s. px_channelToConnectionId s c)) (\<lambda>conn.
          thenM (case conn of None \<Rightarrow> ret ()
              | Some connId \<Rightarrow> thenM (modify (\<lambda>s. s\<lparr>px_channelToConnectionId := (px_channelToConnectionId s)(c := None)\<rparr>))
                  (sendUp (DropDependentConnectionId connId)))
            (closeDown c))))))))"

definition pxAreHeartbeatsSuspended :: "proxyenv \<Rightarrow> ObjectId option \<Rightarrow> (ProxyServer, bool) pyM" where
  "pxAreHeartbeatsSuspended env connIdentity =
     bindM (gets (\<lambda>s. ssFieldIdFor (px_subscriptionState s) ''core'' ''Connection'' ''heartbeats_suspended'')) (\<lambda>f.
       case f of None \<Rightarrow> ret False
       | Some f \<Rightarrow> bindM (pxState (getObjectValue env f connIdentity)) (\<lambda>curData. ret (curData = Some (ser_bool env True))))"

definition checkDownstream :: "proxyenv \<Rightarrow> chan \<Rightarrow> (ProxyServer, unit) pyM" where
  "checkDownstream env c =
     bindM (gets (\<lambda>s. map_of (px_channelToMissedHeartbeatCount s))) (\<lambda>d. bindM (lookupM d c) (\<lambda>n.
     thenM (modify (\<lambda>s. s\<lparr>px_channelToMissedHeartbeatCount := AList.update c (n + 1) (px_channelToMissedHeartbeatCount s)\<rparr>))
       (whenM (n + 1 \<ge> 4)
         (bindM (gets (\<lambda>s. px_channelToConnectionId s c)) (\<lambda>conn. bindM (pxAreHeartbeatsSuspended env conn) (\<lambda>suspended.
            whenM (\<not> suspended) (thenM (closeDown c) (pxDropConnection env c))))))))"

definition pxCheckForDeadConnections :: "proxyenv \<Rightarrow> (ProxyServer, unit) pyM" where
  "pxCheckForDeadConnections env =
     bindM (gets (\<lambda>s. map fst (px_channelToMissedHeartbeatCount s))) (\<lambda>cs. forM cs (checkDownstream env))"

section \<open>Messages from clients\<close>

text \<open>Which definition of the schema the main server knows, and which one it has to be told.\<close>

definition growSchema :: "string \<Rightarrow> SchemaDefinition \<Rightarrow> (ProxyServer, unit) pyM" where
  "growSchema name definition' =
     bindM (gets (\<lambda>s. ss_definedSchemas (px_subscriptionState s) name)) (\<lambda>known.
       case known of
         None \<Rightarrow> thenM (modify (\<lambda>s. s\<lparr>px_requestedSchemaIteration := (px_requestedSchemaIteration s)(name \<mapsto> 0)\<rparr>))
           (thenM (sendUp (DefineSchema name definition'))
             (pxState (modify (\<lambda>t. t\<lparr>ss_definedSchemas := (ss_definedSchemas t)(name \<mapsto> definition')\<rparr>))))
       | Some old \<Rightarrow>
           let bigger = mergeSchemaDefinitions old definition' in
           whenM (set definition' \<noteq> set old \<and> set bigger \<noteq> set old)
             (bindM (gets px_requestedSchemaIteration) (\<lambda>d. bindM (lookupM d name) (\<lambda>n.
              thenM (modify (\<lambda>s. s\<lparr>px_requestedSchemaIteration := (px_requestedSchemaIteration s)(name \<mapsto> n + 1)\<rparr>))
             (thenM (sendUp (DefineSchema name bigger))
               (pxState (modify (\<lambda>t. t\<lparr>ss_definedSchemas := (ss_definedSchemas t)(name \<mapsto> bigger)\<rparr>))))))))"

definition onDefineSchema :: "chan \<Rightarrow> string \<Rightarrow> SchemaDefinition \<Rightarrow> (ProxyServer, unit) pyM" where
  "onDefineSchema c name definition' =
     thenM (modify (\<lambda>s. s\<lparr>px_channelSchemas := (px_channelSchemas s)((c, name) \<mapsto> definition')\<rparr>))
     (thenM (growSchema name definition')
     (bindM (gets px_requestedSchemaIteration) (\<lambda>d. bindM (lookupM d name) (\<lambda>n.
      bindM (gets (\<lambda>s. map_at (px_mappedSchemas s) name n)) (\<lambda>mapping.
        case mapping of
          Some m \<Rightarrow> sendDown c (SchemaMapping name m)
        | None \<Rightarrow> modify (\<lambda>s. s\<lparr>px_unmappedSchemasToChannels := add_at (name, n) c (px_unmappedSchemasToChannels s)\<rparr>))))))"

definition subscribeType :: "string \<Rightarrow> string \<Rightarrow> (ProxyServer, unit) pyM" where
  "subscribeType schema typename =
     bindM (gets (\<lambda>s. (schema, typename) \<in> px_subscribedTypes s)) (\<lambda>known.
       whenM (\<not> known)
         (thenM (sendUp (Subscribe schema typename None False))
           (modify (\<lambda>s. s\<lparr>px_subscribedTypes := insert (schema, typename) (px_subscribedTypes s)\<rparr>))))"

definition onSubscribe :: "proxyenv \<Rightarrow> chan \<Rightarrow> string \<Rightarrow> string \<Rightarrow> field_and_value \<Rightarrow> bool \<Rightarrow> (ProxyServer, unit) pyM" where
  "onSubscribe env c schema typename fv isLazy =
     bindM (gets (\<lambda>s. px_channelSchemas s (c, schema))) (\<lambda>d.
       if d = None then raise GenericException
       else thenM (subscribeType schema typename)
         (pxState (addSubscription env c
           \<lparr>sk_schema = schema, sk_typename = typename, sk_fieldname_and_value = fv, sk_isLazy = isLazy\<rparr>)))"

definition onFlush :: "chan \<Rightarrow> int \<Rightarrow> (ProxyServer, unit) pyM" where
  "onFlush c guid =
     thenM (modify (\<lambda>s. s\<lparr>px_flushGuidIx := px_flushGuidIx s + 1\<rparr>))
     (bindM (gets px_flushGuidIx) (\<lambda>ix.
      thenM (modify (\<lambda>s. s\<lparr>px_outgoingFlushGuidToChannelAndFlushGuid := (px_outgoingFlushGuidToChannelAndFlushGuid s)(ix \<mapsto> (c, guid))\<rparr>))
        (sendUp (Flush ix))))"

definition onLoadLazyObject :: "proxyenv \<Rightarrow> chan \<Rightarrow> string \<Rightarrow> string \<Rightarrow> ObjectId \<Rightarrow> (ProxyServer, unit) pyM" where
  "onLoadLazyObject env c schema typename identity =
     bindM (gets (\<lambda>s. (schema, typename) \<in> ss_completedTypes (px_subscriptionState s))) (\<lambda>complete.
       if \<not> complete then pxDropConnection env c
       else pxState (lazyLoadObject c schema typename identity))"

text \<open>A transaction of a channel that waits for a subscription is put off.\<close>

definition deferTransaction :: "chan \<Rightarrow> ClientToServer \<Rightarrow> (ProxyServer, unit) pyM \<Rightarrow> (ProxyServer, unit) pyM" where
  "deferTransaction c msg now =
     bindM (gets (\<lambda>s. ss_channelToPendingSubscriptions (px_subscriptionState s) c)) (\<lambda>pending.
       case pending of
         Some keys \<Rightarrow> thenM (assertM (keys \<noteq> {}))
           (pxState (modify (\<lambda>t. t\<lparr>ss_channelToPendingTransactions := (ss_channelToPendingTransactions t)(c \<mapsto>
              (case ss_channelToPendingTransactions t c of None \<Rightarrow> [] | Some ms \<Rightarrow> ms) @ [msg])\<rparr>)))
       | None \<Rightarrow> now)"

definition outgoingGuid :: "chan \<Rightarrow> int \<Rightarrow> (ProxyServer, int) pyM" where
  "outgoingGuid c guid =
     bindM (gets (\<lambda>s. px_channelAndTransactionGuidToOutgoingTransactionGuid s (c, guid))) (\<lambda>known.
       case known of
         Some g \<Rightarrow> ret g
       | None \<Rightarrow>
           thenM (modify (\<lambda>s. s\<lparr>px_transactionGuidIx := px_transactionGuidIx s + 1\<rparr>))
           (bindM (gets px_transactionGuidIx) (\<lambda>g.
            thenM (modify (\<lambda>s. s\<lparr>
                px_outgoingTransactionGuidToChannelAndTransactionGuid := (px_outgoingTransactionGuidToChannelAndTransactionGuid s)(g \<mapsto> (c, guid)),
                px_channelAndTransactionGuidToOutgoingTransactionGuid := (px_channelAndTransactionGuidToOutgoingTransactionGuid s)((c, guid) \<mapsto> g)\<rparr>))
              (ret g))))"

definition forwardTransactionData :: "chan \<Rightarrow> transaction_data \<Rightarrow> (ProxyServer, unit) pyM" where
  "forwardTransactionData c t =
     bindM (outgoingGuid c (tx_guid t)) (\<lambda>g.
     bindM (gets px_transactionNum) (\<lambda>n.
     thenM (case n of None \<Rightarrow> raise TypeError | Some tid \<Rightarrow> pxState (increaseSubscriptionIfNecessary c (tx_set_adds t) tid))
       (sendUp (TransactionData (t\<lparr>tx_guid := g\<rparr>)))))"

definition forwardCompleteTransaction :: "chan \<Rightarrow> int \<Rightarrow> int \<Rightarrow> bool \<Rightarrow> (ProxyServer, unit) pyM" where
  "forwardCompleteTransaction c as_of guid no_log' =
     bindM (gets (\<lambda>s. px_channelAndTransactionGuidToOutgoingTransactionGuid s (c, guid))) (\<lambda>known.
       case known of
         None \<Rightarrow> ret ()
       | Some g \<Rightarrow>
           thenM (modify (\<lambda>s. s\<lparr>px_channelAndTransactionGuidToOutgoingTransactionGuid :=
             (px_channelAndTransactionGuidToOutgoingTransactionGuid s)((c, guid) := None)\<rparr>))
           (sendUp (CompleteTransaction as_of g no_log')))"

definition onHeartbeat :: "chan \<Rightarrow> (ProxyServer, unit) pyM" where
  "onHeartbeat c = modify (\<lambda>s. if c \<in> px_downstreamChannels s
     then s\<lparr>px_channelToMissedHeartbeatCount := AList.update c 0 (px_channelToMissedHeartbeatCount s)\<rparr> else s)"

definition handleAuthenticatedMessage :: "proxyenv \<Rightarrow> chan \<Rightarrow> ClientToServer \<Rightarrow> (ProxyServer, unit) pyM" where
  "handleAuthenticatedMessage env c msg = (case msg of
       DefineSchema name d \<Rightarrow> onDefineSchema c name d
     | SubscribeNone schema typename \<Rightarrow> subscribeType schema typename
     | Subscribe schema typename fv isLazy \<Rightarrow> onSubscribe env c schema typename fv isLazy
     | Flush guid \<Rightarrow> onFlush c guid
     | LoadLazyObject schema typename identity \<Rightarrow> onLoadLazyObject env c schema typename identity
     | TransactionData t \<Rightarrow> deferTransaction c msg (forwardTransactionData c t)
     | CompleteTransaction as_of guid no_log' \<Rightarrow> deferTransaction c msg (forwardCompleteTransaction c as_of guid no_log')
     | Heartbeat \<Rightarrow> onHeartbeat c
     | _ \<Rightarrow> raise GenericException)"

definition onAuthenticate :: "proxyenv \<Rightarrow> chan \<Rightarrow> string \<Rightarrow> ObjectId \<Rightarrow> (ProxyServer, unit) pyM" where
  "onAuthenticate env c token connectionIdentity =
     bindM (gets (\<lambda>s. c \<in> px_authenticatedDownstreamChannels s \<or> token \<noteq> px_authToken s)) (\<lambda>refused.
       if refused then pxDropConnection env c
       else
         bindM (gets (\<lambda>s. uuid4 env (px_uuids s))) (\<lambda>guid.
         thenM (modify (\<lambda>s. s\<lparr>px_authenticatedDownstreamChannels := insert c (px_authenticatedDownstreamChannels s), px_uuids := px_uuids s + 1,
            px_guidToChannelRequestingIdentity := (px_guidToChannelRequestingIdentity s)(guid \<mapsto> c)\<rparr>))
          (sendUp (RequestDependentConnectionId connectionIdentity guid))))"

definition pxHandleClientToServerMessage :: "proxyenv \<Rightarrow> chan \<Rightarrow> ClientToServer \<Rightarrow> (ProxyServer, unit) pyM" where
  "pxHandleClientToServerMessage env c msg =
     bindM (gets (\<lambda>s. (c \<in> px_downstreamChannels s, px_connectionIdentity s, c \<in> px_authenticatedDownstreamChannels s))) (\<lambda>(connected, identity, authenticated).
       if \<not> connected then ret ()
       else case identity of
         None \<Rightarrow> modify (\<lambda>s. s\<lparr>px_deferredMessagesAndEndpoints := px_deferredMessagesAndEndpoints s @ [(c, msg)]\<rparr>)
       | Some i \<Rightarrow> (case msg of
           Authenticate token \<Rightarrow> onAuthenticate env c token i
         | _ \<Rightarrow> if authenticated then handleAuthenticatedMessage env c msg
                else if msg = Heartbeat then ret () else pxDropConnection env c))"

section \<open>Messages from the main server\<close>

definition onInitialize :: "proxyenv \<Rightarrow> int \<Rightarrow> ObjectId \<Rightarrow> int \<Rightarrow> (ProxyServer, unit) pyM" where
  "onInitialize env transaction_num connIdentity identity_root =
     thenM (modify (\<lambda>s. s\<lparr>px_connectionIdentity := Some connIdentity, px_identityRoot := Some identity_root, px_transactionNum := Some transaction_num\<rparr>))
     (bindM (gets px_deferredMessagesAndEndpoints) (\<lambda>msgs.
      thenM (forM msgs (\<lambda>(c, msg). pxHandleClientToServerMessage env c msg))
        (modify (\<lambda>s. s\<lparr>px_deferredMessagesAndEndpoints := []\<rparr>))))"

definition onDependentConnectionId :: "string \<Rightarrow> ObjectId \<Rightarrow> int \<Rightarrow> (ProxyServer, unit) pyM" where
  "onDependentConnectionId guid connIdentity identity_root =
     bindM (gets (\<lambda>s. (px_guidToChannelRequestingIdentity s guid, px_downstreamChannels s, px_transactionNum s))) (\<lambda>(channel, cs, n).
     thenM (modify (\<lambda>s. s\<lparr>px_guidToChannelRequestingIdentity := (px_guidToChannelRequestingIdentity s)(guid := None)\<rparr>))
       (case channel of
          None \<Rightarrow> sendUp (DropDependentConnectionId connIdentity)
        | Some c \<Rightarrow>
            if c \<notin> cs then sendUp (DropDependentConnectionId connIdentity)
            else thenM (modify (\<lambda>s. s\<lparr>px_channelToConnectionId := (px_channelToConnectionId s)(c \<mapsto> connIdentity)\<rparr>))
              (case n of None \<Rightarrow> raise TypeError | Some tid \<Rightarrow> sendDown c (Initialize tid connIdentity identity_root))))"

definition onSchemaMapping :: "proxyenv \<Rightarrow> string \<Rightarrow> (FieldDefinition \<times> FieldId) list \<Rightarrow> (ProxyServer, unit) pyM" where
  "onSchemaMapping env schema mapping =
     bindM (gets (\<lambda>s. (px_requestedSchemaIteration s schema, px_receivedSchemaIteration s schema))) (\<lambda>(requested, received).
     thenM (assertM (requested \<noteq> None))
     (let n = (case received of None \<Rightarrow> 0 | Some k \<Rightarrow> k + 1) in
      thenM (modify (\<lambda>s. s\<lparr>px_receivedSchemaIteration := (px_receivedSchemaIteration s)(schema \<mapsto> n)\<rparr>))
     (thenM (pxState (mapSchema schema mapping))
     (thenM (modify (\<lambda>s. s\<lparr>px_mappedSchemas := (px_mappedSchemas s)(schema \<mapsto> (map_at (px_mappedSchemas s) schema)(n \<mapsto> mapping))\<rparr>))
     (bindM (gets (\<lambda>s. set_at (px_unmappedSchemasToChannels s) (schema, n))) (\<lambda>cs.
      thenM (modify (\<lambda>s. s\<lparr>px_unmappedSchemasToChannels := (px_unmappedSchemasToChannels s)((schema, n) := None)\<rparr>))
        (forM (iterC env cs) (\<lambda>c. sendDown c (SchemaMapping schema mapping)))))))))"

definition onSubscriptionComplete :: "proxyenv \<Rightarrow> string \<Rightarrow> string \<Rightarrow> int \<Rightarrow> (ProxyServer, unit) pyM" where
  "onSubscriptionComplete env schema typename tid =
     bindM (pxState (ssHandleSubscriptionComplete env schema typename tid)) (\<lambda>channelsToMessageToSend.
       forM channelsToMessageToSend (\<lambda>(c, msgs). forM msgs (pxHandleClientToServerMessage env c)))"

definition onFlushResponse :: "int \<Rightarrow> (ProxyServer, unit) pyM" where
  "onFlushResponse guid =
     bindM (gets (\<lambda>s. px_outgoingFlushGuidToChannelAndFlushGuid s guid)) (\<lambda>entry.
       case entry of
         None \<Rightarrow> ret ()
       | Some (c, g) \<Rightarrow>
           thenM (modify (\<lambda>s. s\<lparr>px_outgoingFlushGuidToChannelAndFlushGuid := (px_outgoingFlushGuidToChannelAndFlushGuid s)(guid := None)\<rparr>))
             (sendDown c (FlushResponse g)))"

definition pxOnTransactionResult :: "int \<Rightarrow> bool \<Rightarrow> bad_key option \<Rightarrow> bool \<Rightarrow> (ProxyServer, unit) pyM" where
  "pxOnTransactionResult guid success badKey isException =
     bindM (gets (\<lambda>s. px_outgoingTransactionGuidToChannelAndTransactionGuid s guid)) (\<lambda>entry.
       case entry of
         None \<Rightarrow> ret ()
       | Some (c, g) \<Rightarrow>
           thenM (modify (\<lambda>s. s\<lparr>px_outgoingTransactionGuidToChannelAndTransactionGuid :=
              (px_outgoingTransactionGuidToChannelAndTransactionGuid s)(guid := None)\<rparr>))
             (sendDown c (TransactionResult g success badKey isException)))"

definition handleServerToClientMessage :: "proxyenv \<Rightarrow> ServerToClient \<Rightarrow> (ProxyServer, unit) pyM" where
  "handleServerToClientMessage env msg = (case msg of
       Initialize transaction_num connIdentity identity_root \<Rightarrow> onInitialize env transaction_num connIdentity identity_root
     | DependentConnectionId guid connIdentity identity_root \<Rightarrow> onDependentConnectionId guid connIdentity identity_root
     | SchemaMapping schema mapping \<Rightarrow> onSchemaMapping env schema mapping
     | SubscriptionData schema typename fv vals indexVals identities \<Rightarrow> pxState (ssHandleSubscriptionData env vals indexVals)
     | SubscriptionComplete schema typename fv tid \<Rightarrow> onSubscriptionComplete env schema typename tid
     | Transaction t \<Rightarrow> pxState (ssHandleTransaction env (tm_writes t) (tm_set_adds t) (tm_set_removes t) (tm_transaction_id t))
     | FlushResponse guid \<Rightarrow> onFlushResponse guid
     | TransactionResult guid success badKey isException \<Rightarrow> pxOnTransactionResult guid success badKey isException
     | _ \<Rightarrow> raise GenericException)"

end
