(* ===== verification/Proxy_Replica.thy ===== *)
theory Proxy_Replica
  imports Proxy_Server
begin

text \<open>
  What the clients of a proxy know. \<open>replica\<close> is the knowledge of values that a sequence of messages from a server gives to
  a client; it is applied to what the main server tells the proxy and to what the proxy tells its clients. The
  invariant \<open>faithful\<close> says that the two agree for every field a client has subscribed to.
\<close>

section \<open>What messages teach\<close>

type_synonym knowledge = "FieldId \<Rightarrow> ObjectId \<rightharpoonup> bytes"

definition learnValues :: "(ObjectFieldId \<rightharpoonup> bytes option) \<Rightarrow> knowledge \<Rightarrow> knowledge" where
  "learnValues d m = (\<lambda>f oid. case d (ObjectFieldId oid f False) of None \<Rightarrow> m f oid | Some v \<Rightarrow> v)"

fun learn :: "ServerToClient \<Rightarrow> knowledge \<Rightarrow> knowledge" where
  "learn (SubscriptionData _ _ _ vals _ _) m = learnValues vals m"
| "learn (Transaction t) m = learnValues (map_of (tm_writes t)) m"
| "learn (LazyTransactionPriors writes) m = learnValues (map_of writes) m"
| "learn (LazyLoadResponse _ vals) m = learnValues (map_of vals) m"
| "learn _ m = m"

definition replica :: "ServerToClient list \<Rightarrow> knowledge" where
  "replica msgs = fold learn msgs (\<lambda>_ _. None)"

lemma replica_append: "replica (ms @ ns) = fold learn ns (replica ms)"
  by (simp add: replica_def)

text \<open>A message that says nothing but what is the case.\<close>

definition truthful :: "knowledge \<Rightarrow> ServerToClient \<Rightarrow> bool" where
  "truthful U msg \<longleftrightarrow> (\<forall>m f. m f = U f \<longrightarrow> learn msg m f = U f)"

lemma truthful_learns: "\<forall>msg \<in> set msgs. truthful U msg \<Longrightarrow> m f = U f \<Longrightarrow> fold learn msgs m f = U f"
  by (induction msgs arbitrary: m) (auto simp: truthful_def)

lemma learnValues_true: "\<forall>oid v. d (ObjectFieldId oid f False) = Some v \<longrightarrow> v = U f oid \<Longrightarrow> m f = U f \<Longrightarrow> learnValues d m f = U f"
  by (auto simp: learnValues_def fun_eq_iff split: option.splits)

section \<open>The invariant\<close>

definition coherent :: "SubscriptionState \<Rightarrow> bool" where
  "coherent s \<longleftrightarrow> (\<forall>sch t fs n f. typeFields s sch t = Some fs \<longrightarrow> (n, f) \<in> set fs \<longrightarrow> ss_fieldIdToDef s f = Some (FieldDefinition sch t n))"

abbreviation field_subscribers :: "SubscriptionState \<Rightarrow> FieldId \<Rightarrow> chan set" where
  "field_subscribers s \<equiv> set_at (ss_fieldIdToSubscribedChannels s)"

text \<open>Since it was sent the data of a subscription to a whole type, the channel has been told everything about the field.\<close>

definition from_subscription :: "ServerToClient list \<Rightarrow> bool" where
  "from_subscription msgs \<longleftrightarrow> (case msgs of SubscriptionData _ _ None _ _ _ # _ \<Rightarrow> True | _ \<Rightarrow> False)"

lemma from_subscription_append: "from_subscription ms \<Longrightarrow> from_subscription (ms @ ns)"
  by (cases ms) (simp_all add: from_subscription_def)

definition synced :: "knowledge \<Rightarrow> SubscriptionState \<Rightarrow> chan \<Rightarrow> FieldId \<Rightarrow> bool" where
  "synced U s c f \<longleftrightarrow> (\<exists>before since. ss_outbox s c = before @ since \<and> from_subscription since \<and> replica since f = U f)"

definition faithful :: "knowledge \<Rightarrow> SubscriptionState \<Rightarrow> bool" where
  "faithful U s \<longleftrightarrow> coherent s \<and>
     (\<forall>f c. c \<in> field_subscribers s f \<longrightarrow> (\<exists>d. ss_fieldIdToDef s f = Some d \<and> (fd_schema d, fd_typename d) \<in> ss_completedTypes s)) \<and>
     (\<forall>f c. c \<in> field_subscribers s f \<longleftrightarrow> f \<in> set_at (ss_channelToSubscribedFieldIds s) c) \<and>
     (\<forall>f. finite (field_subscribers s f)) \<and> (\<forall>oid. finite (set_at (ss_oidToSubscribedChannels s) oid)) \<and>
     (\<forall>c. finite (set_at (ss_channelToSubscribedFieldIds s) c)) \<and>
     map_at (ss_objectValues s) = U \<and> (\<forall>f. finite (dom (U f))) \<and>
     (\<forall>st p. p \<in> set_at (ss_subscriptionsPendingSubscriptionOnServer s) st \<longrightarrow> (sk_schema (snd p), sk_typename (snd p)) = st) \<and>
     (\<forall>st. finite (set_at (ss_subscriptionsPendingSubscriptionOnServer s) st)) \<and>
     (\<forall>c f. c \<in> field_subscribers s f \<longrightarrow> f \<notin> set_at (ss_channelToLazilySubscribedFieldIds s) c \<longrightarrow> synced U s c f)"

lemma faithfulD:
  assumes "faithful U s"
  shows "coherent s" "c \<in> field_subscribers s f \<Longrightarrow> \<exists>d. ss_fieldIdToDef s f = Some d \<and> (fd_schema d, fd_typename d) \<in> ss_completedTypes s"
    "c \<in> field_subscribers s f \<longleftrightarrow> f \<in> set_at (ss_channelToSubscribedFieldIds s) c"
    "finite (field_subscribers s f)" "finite (set_at (ss_oidToSubscribedChannels s) oid)" "finite (set_at (ss_channelToSubscribedFieldIds s) c)"
    "map_at (ss_objectValues s) = U"
    "c \<in> field_subscribers s f \<Longrightarrow> f \<notin> set_at (ss_channelToLazilySubscribedFieldIds s) c \<Longrightarrow> synced U s c f"
    "finite (dom (U f))" "p \<in> set_at (ss_subscriptionsPendingSubscriptionOnServer s) st \<Longrightarrow> (sk_schema (snd p), sk_typename (snd p)) = st"
    "finite (set_at (ss_subscriptionsPendingSubscriptionOnServer s) st)"
  using assms unfolding faithful_def by blast+

text \<open>What most operations do: they may tell the truth, subscribe to objects, and enter empty sets in dictionaries.\<close>

definition harmless :: "knowledge \<Rightarrow> SubscriptionState \<Rightarrow> SubscriptionState \<Rightarrow> bool" where
  "harmless U s s' \<longleftrightarrow>
     ss_schemaTypeAndNameToFieldId s' = ss_schemaTypeAndNameToFieldId s \<and> ss_fieldIdToDef s' = ss_fieldIdToDef s \<and>
     field_subscribers s' = field_subscribers s \<and>
     set_at (ss_channelToSubscribedFieldIds s') = set_at (ss_channelToSubscribedFieldIds s) \<and>
     ss_completedTypes s \<subseteq> ss_completedTypes s' \<and> map_at (ss_objectValues s') = map_at (ss_objectValues s) \<and>
     (\<forall>c. set_at (ss_channelToLazilySubscribedFieldIds s) c \<subseteq> set_at (ss_channelToLazilySubscribedFieldIds s') c) \<and>
     (\<forall>oid. finite (set_at (ss_oidToSubscribedChannels s) oid) \<longrightarrow> finite (set_at (ss_oidToSubscribedChannels s') oid)) \<and>
     (\<forall>st p. p \<in> set_at (ss_subscriptionsPendingSubscriptionOnServer s') st \<longrightarrow>
        p \<in> set_at (ss_subscriptionsPendingSubscriptionOnServer s) st \<or> (sk_schema (snd p), sk_typename (snd p)) = st) \<and>
     (\<forall>st. finite (set_at (ss_subscriptionsPendingSubscriptionOnServer s) st) \<longrightarrow> finite (set_at (ss_subscriptionsPendingSubscriptionOnServer s') st)) \<and>
     (\<forall>c. \<exists>ms. ss_outbox s' c = ss_outbox s c @ ms \<and> (\<forall>m \<in> set ms. truthful U m))"

lemma synced_append:
  assumes "synced U s c f" "ss_outbox s' c = ss_outbox s c @ ms" "\<forall>m \<in> set ms. truthful U m"
  shows "synced U s' c f"
proof -
  obtain before since where b: "ss_outbox s c = before @ since" "from_subscription since" "replica since f = U f"
    using assms(1) by (auto simp: synced_def)
  have "replica (since @ ms) f = U f" using truthful_learns[OF assms(3), where m = "replica since" and f = f] b(3) by (simp add: replica_append)
  then show ?thesis using b(1) from_subscription_append[OF b(2)] assms(2) unfolding synced_def by (intro exI[of _ before] exI[of _ "since @ ms"]) simp
qed

lemma harmless_faithful:
  assumes f: "faithful U s" and h: "harmless U s s'"
  shows "faithful U s'"
proof -
  note D = faithfulD[OF f]
  have e: "ss_schemaTypeAndNameToFieldId s' = ss_schemaTypeAndNameToFieldId s" "ss_fieldIdToDef s' = ss_fieldIdToDef s" "field_subscribers s' = field_subscribers s"
      "set_at (ss_channelToSubscribedFieldIds s') = set_at (ss_channelToSubscribedFieldIds s)" "ss_completedTypes s \<subseteq> ss_completedTypes s'"
      "map_at (ss_objectValues s') = map_at (ss_objectValues s)"
      "\<And>c. set_at (ss_channelToLazilySubscribedFieldIds s) c \<subseteq> set_at (ss_channelToLazilySubscribedFieldIds s') c"
    using h by (simp_all add: harmless_def)
  have "coherent s'" using D(1) by (simp add: coherent_def typeFields_def e)
  moreover have "synced U s' c x" if "c \<in> field_subscribers s x" "x \<notin> set_at (ss_channelToLazilySubscribedFieldIds s') c" for c x
  proof -
    have "synced U s c x" using D(8)[OF that(1)] that(2) e(7) by blast
    moreover obtain ms where "ss_outbox s' c = ss_outbox s c @ ms" "\<forall>m \<in> set ms. truthful U m" using h unfolding harmless_def by blast
    ultimately show ?thesis by (rule synced_append)
  qed
  moreover have "finite (set_at (ss_oidToSubscribedChannels s') oid)" "finite (set_at (ss_subscriptionsPendingSubscriptionOnServer s') st)" for oid st
    using h D(5,11) unfolding harmless_def by blast+
  moreover have "\<exists>d. ss_fieldIdToDef s x = Some d \<and> (fd_schema d, fd_typename d) \<in> ss_completedTypes s'" if "c \<in> field_subscribers s x" for c x
    using D(2)[OF that] e(5) by blast
  moreover have "(sk_schema (snd p), sk_typename (snd p)) = st" if "p \<in> set_at (ss_subscriptionsPendingSubscriptionOnServer s') st" for p st
    using h D(10) that unfolding harmless_def by blast
  ultimately show ?thesis unfolding faithful_def e(2-4,6) using D(3,4,6,7,9) by blast
qed

lemma harmless_refl: "harmless U s s"
  by (simp add: harmless_def)

lemma harmless_trans:
  assumes 1: "harmless U s s'" and 2: "harmless U s' s''"
  shows "harmless U s s''"
proof -
  have "\<exists>ms. ss_outbox s'' c = ss_outbox s c @ ms \<and> (\<forall>m \<in> set ms. truthful U m)" for c
  proof -
    obtain ms ns where "ss_outbox s' c = ss_outbox s c @ ms" "\<forall>m \<in> set ms. truthful U m" "ss_outbox s'' c = ss_outbox s' c @ ns" "\<forall>m \<in> set ns. truthful U m"
      using 1 2 unfolding harmless_def by blast
    then show ?thesis by (intro exI[of _ "ms @ ns"]) auto
  qed
  moreover have "set_at (ss_channelToLazilySubscribedFieldIds s) c \<subseteq> set_at (ss_channelToLazilySubscribedFieldIds s'') c" for c
    using 1 2 unfolding harmless_def by blast
  moreover have "ss_completedTypes s \<subseteq> ss_completedTypes s''" using 1 2 unfolding harmless_def by blast
  moreover have "p \<in> set_at (ss_subscriptionsPendingSubscriptionOnServer s) st \<or> (sk_schema (snd p), sk_typename (snd p)) = st"
    if "p \<in> set_at (ss_subscriptionsPendingSubscriptionOnServer s'') st" for p st using 1 2 that unfolding harmless_def by blast
  ultimately show ?thesis using 1 2 unfolding harmless_def by simp
qed

text \<open>An operation all of whose outcomes are harmless, the exceptional ones included, if \<open>W\<close> are the values. What it says need
  not be about these values.\<close>

definition benignFor :: "knowledge \<Rightarrow> knowledge \<Rightarrow> (SubscriptionState, 'a) pyM \<Rightarrow> bool" where
  "benignFor W U m \<longleftrightarrow> (\<forall>s. map_at (ss_objectValues s) = W \<longrightarrow> harmless U s (snd (m s)))"

abbreviation benign :: "knowledge \<Rightarrow> (SubscriptionState, 'a) pyM \<Rightarrow> bool" where
  "benign U \<equiv> benignFor U U"

named_theorems benign_rules "composition rules for benign"

lemma benign_keeps: "benign U m \<Longrightarrow> keeps (faithful U) m"
  by (rule keepsI) (metis benignFor_def faithfulD(7) harmless_faithful)

lemma benign_ret [benign_rules]: "benignFor W U (ret a)"
  by (simp add: benignFor_def harmless_refl)

lemma benign_raise [benign_rules]: "benignFor W U (raise e)"
  by (simp add: benignFor_def harmless_refl)

lemma benign_gets [benign_rules]: "benignFor W U (gets f)"
  by (simp add: benignFor_def harmless_refl)

lemma benign_lookupM [benign_rules]: "benignFor W U (lookupM d k)"
  by (cases "d k") (simp_all add: benignFor_def harmless_refl)

lemma benign_assertM [benign_rules]: "benignFor W U (assertM b)"
  by (simp add: benignFor_def harmless_refl)

lemma benign_bindM [benign_rules]:
  assumes "benignFor W U m" "\<And>a. benignFor W U (f a)"
  shows "benignFor W U (bindM m f)"
proof -
  have "harmless U s (snd (bindM m f s))" if s: "map_at (ss_objectValues s) = W" for s
  proof (cases "m s")
    case (Pair r s')
    have h: "harmless U s s'" using assms(1) s Pair by (auto simp: benignFor_def)
    show ?thesis
    proof (cases r)
      case (Inr a)
      have "map_at (ss_objectValues s') = W" using h s by (simp add: harmless_def)
      then have "harmless U s' (snd (f a s'))" using assms(2) by (simp add: benignFor_def)
      with harmless_trans[OF h] Pair Inr show ?thesis by simp
    qed (use h Pair in simp)
  qed
  then show ?thesis by (simp add: benignFor_def)
qed

lemma benign_thenM [benign_rules]: "benignFor W U m \<Longrightarrow> benignFor W U n \<Longrightarrow> benignFor W U (thenM m n)"
  by (simp add: thenM_def benign_bindM)

lemma benign_if [benign_rules]: "(b \<Longrightarrow> benignFor W U m) \<Longrightarrow> (\<not> b \<Longrightarrow> benignFor W U n) \<Longrightarrow> benignFor W U (if b then m else n)"
  by simp

lemma benign_whenM [benign_rules]: "(b \<Longrightarrow> benignFor W U m) \<Longrightarrow> benignFor W U (whenM b m)"
  by (simp add: whenM_def benign_ret)

lemma benign_option [benign_rules]: "benignFor W U m \<Longrightarrow> (\<And>a. benignFor W U (f a)) \<Longrightarrow> benignFor W U (case x of None \<Rightarrow> m | Some a \<Rightarrow> f a)"
  by (cases x) simp_all

lemma benign_prod [benign_rules]: "(\<And>a b. benignFor W U (f a b)) \<Longrightarrow> benignFor W U (case p of (a, b) \<Rightarrow> f a b)"
  by (cases p) simp

lemma benign_Let [benign_rules]: "benignFor W U (f x) \<Longrightarrow> benignFor W U (let y = x in f y)"
  by simp

lemma benign_forM [benign_rules]: "(\<And>x. benignFor W U (f x)) \<Longrightarrow> benignFor W U (forM xs f)"
  by (induction xs) (auto intro: benign_rules)

lemma benign_foldMl [benign_rules]: "(\<And>x b. benignFor W U (f x b)) \<Longrightarrow> benignFor W U (foldMl f xs b)"
  by (induction xs arbitrary: b) (auto intro: benign_rules)

lemma benign_modify: "(\<And>s. map_at (ss_objectValues s) = W \<Longrightarrow> harmless U s (g s)) \<Longrightarrow> benignFor W U (modify g)"
  by (simp add: benignFor_def)

lemma benign_send: "truthful U msg \<Longrightarrow> benignFor W U (ssSend c msg)"
  unfolding ssSend_def by (rule benign_modify) (auto simp: harmless_def)

lemma benign_send_current: "(\<And>s. map_at (ss_objectValues s) = W \<Longrightarrow> truthful U (msg s)) \<Longrightarrow> benignFor W U (bindM (gets msg) (ssSend c))"
  unfolding benignFor_def using benign_send by (auto simp: benignFor_def)

section \<open>Subscriptions\<close>

definition proxy_env_ok :: "proxyenv \<Rightarrow> bool" where
  "proxy_env_ok env \<longleftrightarrow> good_iter (iterI env) \<and> good_iter (iterC env) \<and> good_iter (iterK env) \<and> good_iter (iterX env) \<and>
     good_iter (iterS env) \<and> good_iter (iterP env)"

lemma map_of_concat_Some: "map_of (concat xss) k = Some v \<Longrightarrow> \<exists>xs \<in> set xss. (k, v) \<in> set xs"
  by (auto dest!: map_of_SomeD)

lemma valuesFor_true:
  assumes "(k, v) \<in> set (valuesFor b d names oids)"
  shows "\<exists>oid f. k = ObjectFieldId oid f b \<and> v = map_at d f oid \<and> v \<noteq> None"
  using assms by (auto simp: valuesFor_def split: option.splits)

lemma valuesFor_complete:
  assumes "f \<in> snd ` set fs" "oid \<in> set oids" "map_at d f oid = Some v"
  shows "(ObjectFieldId oid f b, Some v) \<in> set (valuesFor b d (Some fs) oids)"
proof -
  have "(ObjectFieldId oid f b, Some v) \<in> set (case map_at d f oid of None \<Rightarrow> [] | Some v \<Rightarrow> [(ObjectFieldId oid f b, Some v)])"
    using assms(3) by simp
  with assms(1,2) show ?thesis by (force simp: valuesFor_def)
qed

lemma map_of_valuesFor:
  "map_of (valuesFor b d names oids) (ObjectFieldId oid f b) = Some v \<Longrightarrow> v = map_at d f oid"
  by (drule map_of_SomeD, drule valuesFor_true) auto

lemma truthful_values:
  assumes "map_at (ss_objectValues s) = U"
  shows "truthful U (SubscriptionData sch t fv (map_of (objectValuesForOids s sch' t' oids)) ivs ids)"
    "truthful U (LazyLoadResponse i (objectValuesForOids s sch' t' oids))"
  using assms unfolding truthful_def objectValuesForOids_def
  by (auto intro!: learnValues_true dest!: map_of_valuesFor)

lemma truthful_silent [simp]:
  "truthful U (LazySubscriptionData a b cc d e)" "truthful U (SubscriptionComplete a b cc tid)" "truthful U (SubscriptionIncrease a b p ids tid)"
  "truthful U (SchemaMapping a m)" "truthful U (FlushResponse g)" "truthful U (TransactionResult g x y z)" "truthful U (Initialize n i j)"
  by (simp_all add: truthful_def)

lemma truthful_subscriptionMessage: "map_at (ss_objectValues s) = U \<Longrightarrow> truthful U (subscriptionMessage env key oids s)"
  by (simp add: subscriptionMessage_def Let_def truthful_values)

lemma finite_addToOids [simp]: "finite (set_at (addToOids oids c m) oid) = finite (set_at m oid)"
  by (simp add: addToOids_def set_at_def)

lemma set_at_addToOids: "set_at (addToOids oids c m) oid = (if oid \<in> oids then insert c (set_at m oid) else set_at m oid)"
  by (simp add: addToOids_def set_at_def)

lemma set_at_setdefault [simp]: "set_at (setdefault k m) = set_at m"
  by (rule ext) (simp add: setdefault_def)

lemma benign_index_subscription:
  "sk_fieldname_and_value key = Some fv \<Longrightarrow> benign U (registerSubscription c key oids)"
  unfolding registerSubscription_def
  by (auto intro!: benign_rules benign_modify simp: harmless_def pxSubscribeIndex_def subscribeOids_def split: prod.split)

lemma benign_subscription_messages:
  "benign U (thenM (bindM (gets (subscriptionMessage env key oids)) (ssSend c))
     (bindM (gets ss_transactionId) (\<lambda>tid. ssSend c (SubscriptionComplete a b fv tid))))"
  by (intro benign_rules benign_send_current benign_send truthful_subscriptionMessage truthful_silent)

lemma subscribeFields_run:
  "\<exists>s'. forM fs (\<lambda>f. modify (pxSubscribeField c key f)) s = (Inr (), s') \<and>
     field_subscribers s' = (\<lambda>f. if f \<in> set fs then insert c (field_subscribers s f) else field_subscribers s f) \<and>
     set_at (ss_channelToSubscribedFieldIds s') = (\<lambda>x. if x = c then set_at (ss_channelToSubscribedFieldIds s) x \<union> set fs else set_at (ss_channelToSubscribedFieldIds s) x) \<and>
     set_at (ss_channelToLazilySubscribedFieldIds s') =
       (\<lambda>x. if x = c \<and> sk_isLazy key then set_at (ss_channelToLazilySubscribedFieldIds s) x \<union> set fs else set_at (ss_channelToLazilySubscribedFieldIds s) x) \<and>
     s' = s\<lparr>ss_fieldIdToSubscribedChannels := ss_fieldIdToSubscribedChannels s', ss_channelToSubscribedFieldIds := ss_channelToSubscribedFieldIds s',
       ss_channelToLazilySubscribedFieldIds := ss_channelToLazilySubscribedFieldIds s'\<rparr>"
proof (induction fs arbitrary: s)
  case Nil
  show ?case by (simp add: fun_eq_iff)
next
  case (Cons f fs)
  let ?s = "pxSubscribeField c key f s"
  obtain s' where s': "forM fs (\<lambda>f. modify (pxSubscribeField c key f)) ?s = (Inr (), s')"
     "field_subscribers s' = (\<lambda>x. if x \<in> set fs then insert c (field_subscribers ?s x) else field_subscribers ?s x)"
     "set_at (ss_channelToSubscribedFieldIds s') = (\<lambda>x. if x = c then set_at (ss_channelToSubscribedFieldIds ?s) x \<union> set fs else set_at (ss_channelToSubscribedFieldIds ?s) x)"
     "set_at (ss_channelToLazilySubscribedFieldIds s') =
       (\<lambda>x. if x = c \<and> sk_isLazy key then set_at (ss_channelToLazilySubscribedFieldIds ?s) x \<union> set fs else set_at (ss_channelToLazilySubscribedFieldIds ?s) x)"
     "s' = ?s\<lparr>ss_fieldIdToSubscribedChannels := ss_fieldIdToSubscribedChannels s', ss_channelToSubscribedFieldIds := ss_channelToSubscribedFieldIds s',
       ss_channelToLazilySubscribedFieldIds := ss_channelToLazilySubscribedFieldIds s'\<rparr>"
    using Cons.IH[of ?s] by blast
  have frame: "s' = s\<lparr>ss_fieldIdToSubscribedChannels := ss_fieldIdToSubscribedChannels s', ss_channelToSubscribedFieldIds := ss_channelToSubscribedFieldIds s',
       ss_channelToLazilySubscribedFieldIds := ss_channelToLazilySubscribedFieldIds s'\<rparr>"
    by (subst s'(5)) (simp add: pxSubscribeField_def)
  have run: "forM (f # fs) (\<lambda>f. modify (pxSubscribeField c key f)) s = (Inr (), s')" using s'(1) by simp
  have one: "field_subscribers s' = (\<lambda>x. if x \<in> set (f # fs) then insert c (field_subscribers s x) else field_subscribers s x)"
    unfolding s'(2) by (rule ext) (simp add: pxSubscribeField_def)
  have two: "set_at (ss_channelToSubscribedFieldIds s') =
      (\<lambda>x. if x = c then set_at (ss_channelToSubscribedFieldIds s) x \<union> set (f # fs) else set_at (ss_channelToSubscribedFieldIds s) x)"
    unfolding s'(3) by (rule ext) (simp add: pxSubscribeField_def)
  have three: "set_at (ss_channelToLazilySubscribedFieldIds s') = (\<lambda>x. if x = c \<and> sk_isLazy key
      then set_at (ss_channelToLazilySubscribedFieldIds s) x \<union> set (f # fs) else set_at (ss_channelToLazilySubscribedFieldIds s) x)"
    unfolding s'(4) by (rule ext) (simp add: pxSubscribeField_def)
  show ?case by (rule exI[of _ s']) (intro conjI run one two three frame)
qed

lemma learn_valuesFor:
  assumes "x \<in> snd ` set names" "dom (map_at d x) \<subseteq> set oids"
  shows "learnValues (map_of (valuesFor False d (Some names) oids)) (\<lambda>_ _. None) x = map_at d x"
proof
  fix oid
  let ?m = "map_of (valuesFor False d (Some names) oids) (ObjectFieldId oid x False)"
  show "learnValues (map_of (valuesFor False d (Some names) oids)) (\<lambda>_ _. None) x oid = map_at d x oid"
  proof (cases "map_at d x oid")
    case None
    have "?m = None"
    proof (rule ccontr)
      assume "?m \<noteq> None"
      then obtain v where v: "?m = Some v" by blast
      then have "v = None" using map_of_valuesFor[OF v] None by simp
      with valuesFor_true[OF map_of_SomeD[OF v]] show False by auto
    qed
    with None show ?thesis by (simp add: learnValues_def)
  next
    case (Some v)
    have "oid \<in> set oids" using assms(2) Some by blast
    from weak_map_of_SomeI[OF valuesFor_complete[OF assms(1) this Some]]
    obtain w where "?m = Some w" by blast
    with map_of_valuesFor[OF this] show ?thesis by (simp add: learnValues_def)
  qed
qed

lemma whole_type_message:
  assumes "\<not> sk_isLazy key" "x \<in> snd ` set names" "typeFields s (sk_schema key) (sk_typename key) = Some names" "dom (map_at (ss_objectValues s) x) \<subseteq> set (iterI env oids)"
  shows "replica [subscriptionMessage env key oids s, SubscriptionComplete a b fv tid] x = map_at (ss_objectValues s) x"
  using assms learn_valuesFor[OF assms(2), of "ss_objectValues s"]
  by (simp add: replica_def subscriptionMessage_def objectValuesForOids_def Let_def)

lemma whole_type_faithful:
  assumes env: "proxy_env_ok env" and f: "faithful U s" and comp: "(sk_schema key, sk_typename key) \<in> ss_completedTypes s"
    and whole: "sk_fieldname_and_value key = None" and names: "typeFields s (sk_schema key) (sk_typename key) = Some names"
    and s1: "field_subscribers s1 = (\<lambda>x. if x \<in> snd ` set names then insert c (field_subscribers s x) else field_subscribers s x)"
      "set_at (ss_channelToSubscribedFieldIds s1) =
        (\<lambda>x. if x = c then set_at (ss_channelToSubscribedFieldIds s) x \<union> snd ` set names else set_at (ss_channelToSubscribedFieldIds s) x)"
      "set_at (ss_channelToLazilySubscribedFieldIds s1) = (\<lambda>x. if x = c \<and> sk_isLazy key
         then set_at (ss_channelToLazilySubscribedFieldIds s) x \<union> snd ` set names else set_at (ss_channelToLazilySubscribedFieldIds s) x)"
      "s1 = s\<lparr>ss_fieldIdToSubscribedChannels := ss_fieldIdToSubscribedChannels s1, ss_channelToSubscribedFieldIds := ss_channelToSubscribedFieldIds s1,
         ss_channelToLazilySubscribedFieldIds := ss_channelToLazilySubscribedFieldIds s1\<rparr>"
  defines "oids \<equiv> (\<Union>x \<in> snd ` set names. dom (map_at (ss_objectValues s) x))"
  shows "faithful U (s1\<lparr>ss_outbox := (ss_outbox s1)(c := ss_outbox s1 c @ [subscriptionMessage env key oids s1, SubscriptionComplete a b fv tid])\<rparr>)"
    (is "faithful U ?s")
proof -
  note D = faithfulD[OF f]
  have e: "ss_schemaTypeAndNameToFieldId s1 = ss_schemaTypeAndNameToFieldId s" "ss_fieldIdToDef s1 = ss_fieldIdToDef s" "ss_completedTypes s1 = ss_completedTypes s"
      "ss_objectValues s1 = ss_objectValues s" "ss_outbox s1 = ss_outbox s" "ss_oidToSubscribedChannels s1 = ss_oidToSubscribedChannels s"
      "ss_subscriptionsPendingSubscriptionOnServer s1 = ss_subscriptionsPendingSubscriptionOnServer s"
    by (subst s1(4), simp)+
  have type: "\<exists>d. ss_fieldIdToDef s x = Some d \<and> (fd_schema d, fd_typename d) \<in> ss_completedTypes s" if "x \<in> snd ` set names" for x
    using D(1) names comp that unfolding coherent_def by fastforce
  have U: "U = map_at (ss_objectValues s1)" using D(7) e(4) by simp
  have "finite oids" using D(7,9) by (auto simp: oids_def)
  then have it: "set (iterI env oids) = oids" using env by (simp add: proxy_env_ok_def good_iter_def)
  have names1: "typeFields s1 (sk_schema key) (sk_typename key) = Some names" using names by (simp add: typeFields_def e)
  have true: "truthful U (subscriptionMessage env key oids s1)" by (rule truthful_subscriptionMessage) (simp add: U)
  have "synced U ?s c' x" if sub: "c' \<in> field_subscribers s1 x" "x \<notin> set_at (ss_channelToLazilySubscribedFieldIds s1) c'" for c' x
  proof (cases "c' = c \<and> x \<in> snd ` set names")
    case True
    with sub(2) have "\<not> sk_isLazy key" unfolding s1(3) by (metis UnI2)
    moreover have "dom (map_at (ss_objectValues s1) x) \<subseteq> set (iterI env oids)" using True it e(4) by (auto simp: oids_def)
    ultimately have "replica [subscriptionMessage env key oids s1, SubscriptionComplete a b fv tid] x = U x"
      using whole_type_message[OF _ _ names1] True U by auto
    moreover have "from_subscription [subscriptionMessage env key oids s1, SubscriptionComplete a b fv tid]"
      using \<open>\<not> sk_isLazy key\<close> whole by (simp add: from_subscription_def subscriptionMessage_def Let_def)
    ultimately show ?thesis using True unfolding synced_def
      by (intro exI[of _ "ss_outbox s1 c"] exI[of _ "[subscriptionMessage env key oids s1, SubscriptionComplete a b fv tid]"]) simp
  next
    case False
    then have "c' \<in> field_subscribers s x" "x \<notin> set_at (ss_channelToLazilySubscribedFieldIds s) c'"
      using sub by (auto simp: s1(1,3) split: if_splits)
    from D(8)[OF this] show ?thesis
      by (rule synced_append[where ms = "if c' = c then [subscriptionMessage env key oids s1, SubscriptionComplete a b fv tid] else []"])
        (auto simp: e true)
  qed
  moreover have "coherent ?s" using D(1) by (simp add: coherent_def typeFields_def e)
  moreover have "\<exists>d. ss_fieldIdToDef s x = Some d \<and> (fd_schema d, fd_typename d) \<in> ss_completedTypes s" if "c' \<in> field_subscribers s1 x" for c' x
    using that type[of x] D(2)[of c' x] by (auto simp: s1(1) split: if_splits)
  moreover have "c' \<in> field_subscribers s1 x \<longleftrightarrow> x \<in> set_at (ss_channelToSubscribedFieldIds s1) c'" for c' x using D(3)[of c' x] by (auto simp: s1(1,2))
  moreover have "finite (field_subscribers s1 x)" "finite (set_at (ss_channelToSubscribedFieldIds s1) c')" for x c' using D(4,6) by (simp_all add: s1(1,2))
  ultimately show ?thesis unfolding faithful_def using D(5,7,9,10,11) by (simp add: e)
qed

lemma sendData_faithful:
  assumes env: "proxy_env_ok env" and f: "faithful U s" and comp: "(sk_schema key, sk_typename key) \<in> ss_completedTypes s"
  shows "faithful U (snd (sendDataForSubscription env c key s))"
proof (cases "sk_fieldname_and_value key")
  case (Some fv)
  have "benign U (sendDataForSubscription env c key)"
    unfolding sendDataForSubscription_def
    by (intro benign_rules benign_index_subscription[OF Some] benign_subscription_messages) (simp split: sum.split add: benign_rules benign_index_subscription[OF Some] benign_subscription_messages)
  from benign_keeps[OF this] f show ?thesis by (simp add: keeps_def)
next
  case None
  show ?thesis
  proof (cases "typeFields s (sk_schema key) (sk_typename key)")
    case nt: None
    have "snd (sendDataForSubscription env c key s) = s"
      using nt None by (auto simp: sendDataForSubscription_def objectIndentitiesForSubscriptionKey_def registerSubscription_def typeFields_def
        bindM_def thenM_def lookupM_def raise_def ret_def split: option.splits)
    with f show ?thesis by simp
  next
    case (Some names)
    let ?oids = "\<Union>x \<in> snd ` set names. dom (map_at (ss_objectValues s) x)"
    obtain s1 where s1: "forM (map snd names) (\<lambda>f. modify (pxSubscribeField c key f)) s = (Inr (), s1)"
      "field_subscribers s1 = (\<lambda>x. if x \<in> snd ` set names then insert c (field_subscribers s x) else field_subscribers s x)"
      "set_at (ss_channelToSubscribedFieldIds s1) =
        (\<lambda>x. if x = c then set_at (ss_channelToSubscribedFieldIds s) x \<union> snd ` set names else set_at (ss_channelToSubscribedFieldIds s) x)"
      "set_at (ss_channelToLazilySubscribedFieldIds s1) = (\<lambda>x. if x = c \<and> sk_isLazy key
         then set_at (ss_channelToLazilySubscribedFieldIds s) x \<union> snd ` set names else set_at (ss_channelToLazilySubscribedFieldIds s) x)"
      "s1 = s\<lparr>ss_fieldIdToSubscribedChannels := ss_fieldIdToSubscribedChannels s1, ss_channelToSubscribedFieldIds := ss_channelToSubscribedFieldIds s1,
         ss_channelToLazilySubscribedFieldIds := ss_channelToLazilySubscribedFieldIds s1\<rparr>"
      using subscribeFields_run[of "map snd names" c key s, unfolded set_map] by blast
    have oids: "objectIndentitiesForSubscriptionKey env key s = Inr ?oids" using None Some by (simp add: objectIndentitiesForSubscriptionKey_def)
    have reg: "registerSubscription c key ?oids s = (Inr (), s1)"
      using None Some s1(1) by (auto simp: registerSubscription_def typeFields_def split: option.splits)
    have "snd (sendDataForSubscription env c key s) = s1\<lparr>ss_outbox := (ss_outbox s1)(c := ss_outbox s1 c @
        [subscriptionMessage env key ?oids s1, SubscriptionComplete (sk_schema key) (sk_typename key) (sk_fieldname_and_value key) (ss_transactionId s1)])\<rparr>"
      unfolding sendDataForSubscription_def using oids reg by (simp add: ssSend_def)
    with whole_type_faithful[OF env f comp None Some s1(2-5)] show ?thesis by simp
  qed
qed

lemma completed_sendData: "keeps (\<lambda>s. st \<in> ss_completedTypes s) (sendDataForSubscription env c key)"
  unfolding sendDataForSubscription_def registerSubscription_def ssSend_def
  by (auto intro!: keeps_rules keeps_modify simp: pxSubscribeIndex_def subscribeOids_def pxSubscribeField_def split: sum.split option.split)

lemma sendData_keeps:
  assumes "proxy_env_ok env" "(sk_schema key, sk_typename key) = st"
  shows "keeps (\<lambda>s. faithful U s \<and> st \<in> ss_completedTypes s) (sendDataForSubscription env c key)"
proof (rule keepsI)
  fix s assume s: "faithful U s \<and> st \<in> ss_completedTypes s"
  then have "st \<in> ss_completedTypes (snd (sendDataForSubscription env c key s))" using completed_sendData[of st] by (simp add: keeps_def)
  with sendData_faithful[OF assms(1)] s assms(2) show "faithful U (snd (sendDataForSubscription env c key s)) \<and> st \<in> ss_completedTypes (snd (sendDataForSubscription env c key s))"
    by auto
qed

lemma benign_keeps_completed: "benign U m \<Longrightarrow> keeps (\<lambda>s. faithful U s \<and> st \<in> ss_completedTypes s) m"
proof (rule keepsI)
  fix s assume m: "benign U m" and s: "faithful U s \<and> st \<in> ss_completedTypes s"
  have "harmless U s (snd (m s))" using m s faithfulD(7) by (auto simp: benignFor_def)
  with s harmless_faithful show "faithful U (snd (m s)) \<and> st \<in> ss_completedTypes (snd (m s))" by (auto simp: harmless_def)
qed

lemma addSubscription_keeps:
  assumes "proxy_env_ok env"
  shows "keeps (faithful U) (addSubscription env c key)"
proof (rule keepsI)
  fix s assume s: "faithful U s"
  let ?s = "s\<lparr>ss_channelSubscriptions := add_at c key (ss_channelSubscriptions s)\<rparr>"
  have h: "harmless U s ?s" by (simp add: harmless_def)
  have "harmless U ?s (pendSubscription c key ?s)" by (auto simp: harmless_def pendSubscription_def split: if_splits)
  then show "faithful U (snd (addSubscription env c key s))"
    using sendData_faithful[OF assms harmless_faithful[OF s h], of key c] harmless_faithful[OF harmless_faithful[OF s h]]
    by (simp add: addSubscription_def)
qed

lemma keeps_completed_modify: "(\<And>s. harmless U s (g s)) \<Longrightarrow> keeps (\<lambda>s. faithful U s \<and> st \<in> ss_completedTypes s) (modify g)"
  by (intro benign_keeps_completed benign_modify)

lemma completePending_keeps:
  assumes "proxy_env_ok env" "(sk_schema (snd p), sk_typename (snd p)) = st"
  shows "keeps (\<lambda>s. faithful U s \<and> st \<in> ss_completedTypes s) (completePending env p out)"
  unfolding completePending_def
  using assms by (intro keeps_rules sendData_keeps keeps_completed_modify) (auto simp: harmless_def)

lemma subscriptionComplete_keeps:
  assumes env: "proxy_env_ok env"
  shows "keeps (faithful U) (ssHandleSubscriptionComplete env schema typename tid)"
proof (rule keepsI)
  fix s assume s: "faithful U s"
  let ?P = "set_at (ss_subscriptionsPendingSubscriptionOnServer s) (schema, typename)"
  let ?s = "s\<lparr>ss_transactionId := max tid (ss_transactionId s), ss_completedTypes := insert (schema, typename) (ss_completedTypes s),
    ss_subscriptionsPendingSubscriptionOnServer := (ss_subscriptionsPendingSubscriptionOnServer s)((schema, typename) := None)\<rparr>"
  show "faithful U (snd (ssHandleSubscriptionComplete env schema typename tid s))"
  proof -
    have fin: "finite ?P" by (rule faithfulD(11)[OF s])
    have "harmless U s ?s" by (auto simp: harmless_def set_at_def)
    then have "faithful U ?s \<and> (schema, typename) \<in> ss_completedTypes ?s" using harmless_faithful[OF s] by simp
    moreover have "keeps (\<lambda>s. faithful U s \<and> (schema, typename) \<in> ss_completedTypes s) (foldMl (completePending env) (iterP env ?P) [])"
    proof (rule keeps_foldMl)
      fix p b assume "p \<in> set (iterP env ?P)"
      then have "(sk_schema (snd p), sk_typename (snd p)) = (schema, typename)"
        using env fin faithfulD(10)[OF s] by (auto simp: proxy_env_ok_def good_iter_def)
      then show "keeps (\<lambda>s. faithful U s \<and> (schema, typename) \<in> ss_completedTypes s) (completePending env p b)" by (rule completePending_keeps[OF env])
    qed
    ultimately show ?thesis by (simp add: ssHandleSubscriptionComplete_def keeps_def)
  qed
qed

section \<open>Other operations\<close>

lemma map_at_upd [simp]: "map_at (m(k \<mapsto> d)) j = (if j = k then d else map_at m j)"
  by (simp add: map_at_def)

lemma benign_increase: "benign U (increaseSubscriptionIfNecessary c set_adds tid)"
  unfolding increaseSubscriptionIfNecessary_def increaseForCreated_def
  by (intro benign_rules benign_modify benign_send truthful_silent) (auto simp: harmless_def increaseOids_def)

lemma benign_lazyLoad: "benign U (lazyLoadObject c schema typename identity)"
  unfolding lazyLoadObject_def using benign_send_current[of U U "\<lambda>s. LazyLoadResponse identity (objectValuesForOids s schema typename [identity])" c] truthful_values(2)
  by (simp add: benignFor_def)

lemma benign_getObjectValue: "benign U (getObjectValue env f i)"
  unfolding getObjectValue_def
  by (intro benign_rules benign_modify) (auto simp: harmless_def map_at_def fun_eq_iff)

subsection \<open>Dropping a connection\<close>

lemma dropFields_run:
  "\<forall>f \<in> set fs. ss_fieldIdToSubscribedChannels s f \<noteq> None \<Longrightarrow>
   \<exists>d. forM fs (dropField c) s = (Inr (), s\<lparr>ss_fieldIdToSubscribedChannels := d\<rparr>) \<and>
     set_at d = (\<lambda>f. if f \<in> set fs then field_subscribers s f - {c} else field_subscribers s f)"
proof (induction fs arbitrary: s)
  case Nil
  show ?case by (intro exI[of _ "ss_fieldIdToSubscribedChannels s"]) simp
next
  case (Cons f fs)
  then obtain m where m: "ss_fieldIdToSubscribedChannels s f = Some m" by auto
  let ?s = "s\<lparr>ss_fieldIdToSubscribedChannels := (ss_fieldIdToSubscribedChannels s)(f \<mapsto> m - {c})\<rparr>"
  have one: "dropField c f s = (Inr (), ?s)" by (simp add: dropField_def discardFrom_def m)
  have "\<forall>x \<in> set fs. ss_fieldIdToSubscribedChannels ?s x \<noteq> None" using Cons.prems by simp
  from Cons.IH[OF this] obtain d where d: "forM fs (dropField c) ?s = (Inr (), ?s\<lparr>ss_fieldIdToSubscribedChannels := d\<rparr>)"
    "set_at d = (\<lambda>x. if x \<in> set fs then field_subscribers ?s x - {c} else field_subscribers ?s x)" by blast
  have "set_at d = (\<lambda>x. if x \<in> set (f # fs) then field_subscribers s x - {c} else field_subscribers s x)"
    unfolding d(2) using m by (auto simp: fun_eq_iff set_at_def)
  with one d(1) show ?case by (intro exI[of _ d]) simp
qed

text \<open>After the first loop the channel has no field subscriptions, and nothing else changes that matters.\<close>

lemma benign_keeps_unsubscribed:
  assumes "benign U m"
  shows "keeps (\<lambda>s. faithful U s \<and> (\<forall>f. c \<notin> field_subscribers s f)) m"
proof (rule keepsI)
  fix s assume s: "faithful U s \<and> (\<forall>f. c \<notin> field_subscribers s f)"
  then have "harmless U s (snd (m s))" using assms faithfulD(7) by (auto simp: benignFor_def)
  with s harmless_faithful show "faithful U (snd (m s)) \<and> (\<forall>f. c \<notin> field_subscribers (snd (m s)) f)" by (auto simp: harmless_def)
qed

lemma benign_drops:
  "benign U (dropIndex c ix)" "benign U (dropOid c oid)" "benign U (dropPending env c key)"
proof -
  have "harmless U s (snd (dropOid c oid s))" for s
    by (auto simp: dropOid_def discardFrom_def harmless_def set_at_def split: option.splits if_splits)
  moreover have "harmless U s (snd (dropPending env c key s))" for s
    by (auto simp: dropPending_def harmless_def set_at_def split: option.splits if_splits)
  moreover have "harmless U s (snd (dropIndex c ix s))" for s
    by (auto simp: dropIndex_def discardFrom_def harmless_def split: option.splits)
  ultimately show "benign U (dropIndex c ix)" "benign U (dropOid c oid)" "benign U (dropPending env c key)" by (simp_all add: benignFor_def)
qed

lemma forget_channel:
  assumes "faithful U s" "\<forall>f. c \<notin> field_subscribers s f"
  shows "faithful U (s\<lparr>ss_channelToPendingSubscriptions := P, ss_channelToLazilySubscribedFieldIds := (ss_channelToLazilySubscribedFieldIds s)(c := None),
     ss_channelToLazilySubscribedIndexIds := L\<rparr>)"
  using assms unfolding faithful_def coherent_def synced_def by (auto simp: typeFields_def set_at_def)

lemma unsubscribe_fields:
  assumes f: "faithful U s" and d: "set_at d = (\<lambda>f. if f \<in> set_at (ss_channelToSubscribedFieldIds s) c then field_subscribers s f - {c} else field_subscribers s f)"
  defines "s' \<equiv> s\<lparr>ss_fieldIdToSubscribedChannels := d, ss_channelToSubscribedFieldIds := (ss_channelToSubscribedFieldIds s)(c := None)\<rparr>"
  shows "faithful U s' \<and> (\<forall>f. c \<notin> field_subscribers s' f)"
proof -
  note D = faithfulD[OF f]
  have less: "field_subscribers s' x = field_subscribers s x - {c}" for x using D(3)[of c x] by (auto simp: s'_def d)
  have ch: "set_at (ss_channelToSubscribedFieldIds s') x = (if x = c then {} else set_at (ss_channelToSubscribedFieldIds s) x)" for x
    by (simp add: s'_def set_at_def)
  have e: "typeFields s' = typeFields s" "ss_fieldIdToDef s' = ss_fieldIdToDef s" "ss_completedTypes s' = ss_completedTypes s" "ss_objectValues s' = ss_objectValues s"
      "ss_outbox s' = ss_outbox s" "ss_oidToSubscribedChannels s' = ss_oidToSubscribedChannels s"
      "ss_channelToLazilySubscribedFieldIds s' = ss_channelToLazilySubscribedFieldIds s"
      "ss_subscriptionsPendingSubscriptionOnServer s' = ss_subscriptionsPendingSubscriptionOnServer s"
    by (simp_all add: s'_def typeFields_def fun_eq_iff)
  have "coherent s'" using D(1) by (simp add: coherent_def e)
  moreover have "synced U s' x f" if "x \<in> field_subscribers s' f" "f \<notin> set_at (ss_channelToLazilySubscribedFieldIds s') x" for x f
    using D(8)[of x f] that by (simp add: less e synced_def)
  moreover have "\<exists>d. ss_fieldIdToDef s f = Some d \<and> (fd_schema d, fd_typename d) \<in> ss_completedTypes s" if "x \<in> field_subscribers s' f" for x f
    using D(2)[of x f] that by (simp add: less)
  moreover have "x \<in> field_subscribers s' f \<longleftrightarrow> f \<in> set_at (ss_channelToSubscribedFieldIds s') x" for x f using D(3)[of x f] by (auto simp: less ch)
  moreover have "finite (field_subscribers s' f)" "finite (set_at (ss_channelToSubscribedFieldIds s') x)" for f x using D(4,6) by (simp_all add: less ch)
  ultimately have "faithful U s'" unfolding faithful_def e using D(5,7,9,10,11) by blast
  with less show ?thesis by simp
qed

lemma drop_keeps:
  assumes env: "proxy_env_ok env"
  shows "keeps (faithful U) (ssDropConnection env c)"
proof (rule keepsI)
  fix s assume s: "faithful U s"
  let ?fs = "set_at (ss_channelToSubscribedFieldIds s) c"
  have it: "set (iterI env ?fs) = ?fs" using env faithfulD(6)[OF s] by (simp add: proxy_env_ok_def good_iter_def)
  have "\<forall>f \<in> set (iterI env ?fs). ss_fieldIdToSubscribedChannels s f \<noteq> None"
    using faithfulD(3)[OF s, of c] it by (fastforce simp: set_at_def split: option.splits)
  from dropFields_run[OF this, of c] obtain d where d: "forM (iterI env ?fs) (dropField c) s = (Inr (), s\<lparr>ss_fieldIdToSubscribedChannels := d\<rparr>)"
    "set_at d = (\<lambda>f. if f \<in> ?fs then field_subscribers s f - {c} else field_subscribers s f)" unfolding it by blast
  let ?s = "s\<lparr>ss_fieldIdToSubscribedChannels := d, ss_channelToSubscribedFieldIds := (ss_channelToSubscribedFieldIds s)(c := None)\<rparr>"
  let ?rest = "bindM (gets (\<lambda>s. set_at (ss_channelToSubscribedIndexIds s) c)) (\<lambda>ixs.
      thenM (forM (iterX env ixs) (dropIndex c))
     (thenM (modify (\<lambda>s. s\<lparr>ss_channelToSubscribedIndexIds := (ss_channelToSubscribedIndexIds s)(c := None)\<rparr>))
     (bindM (gets (\<lambda>s. set_at (ss_channelToSubscribedOids s) c)) (\<lambda>oids.
      thenM (forM (iterI env oids) (dropOid c))
     (thenM (modify (\<lambda>s. s\<lparr>ss_channelToSubscribedOids := (ss_channelToSubscribedOids s)(c := None),
        ss_channelSubscriptions := (ss_channelSubscriptions s)(c := None),
        ss_channelToPendingTransactions := (ss_channelToPendingTransactions s)(c := None)\<rparr>))
     (bindM (gets (\<lambda>s. set_at (ss_channelToPendingSubscriptions s) c)) (\<lambda>pending.
      thenM (forM (iterS env pending) (dropPending env c))
        (modify (\<lambda>s. s\<lparr>ss_channelToPendingSubscriptions := (ss_channelToPendingSubscriptions s)(c := None),
           ss_channelToLazilySubscribedFieldIds := (ss_channelToLazilySubscribedFieldIds s)(c := None),
           ss_channelToLazilySubscribedIndexIds := (ss_channelToLazilySubscribedIndexIds s)(c := None)\<rparr>)))))))))"
  have run: "ssDropConnection env c s = ?rest ?s" unfolding ssDropConnection_def using d(1) by simp
  let ?I = "\<lambda>s. faithful U s \<and> (\<forall>f. c \<notin> field_subscribers s f)"
  have final: "keeps ?I (modify (\<lambda>s. s\<lparr>ss_channelToPendingSubscriptions := (ss_channelToPendingSubscriptions s)(c := None),
           ss_channelToLazilySubscribedFieldIds := (ss_channelToLazilySubscribedFieldIds s)(c := None),
           ss_channelToLazilySubscribedIndexIds := (ss_channelToLazilySubscribedIndexIds s)(c := None)\<rparr>))"
    by (rule keeps_modify) (simp add: forget_channel)
  have "keeps ?I ?rest"
    by (intro keeps_bindM keeps_thenM keeps_gets keeps_forM final benign_keeps_unsubscribed benign_drops benign_modify) (simp_all add: harmless_def)
  then show "faithful U (snd (ssDropConnection env c s))" using unsubscribe_fields[OF s d(2)] unfolding run keeps_def by blast
qed

subsection \<open>Schemas\<close>

text \<open>A mapping that gives no field id a second meaning.\<close>

definition mapping_ok :: "(FieldDefinition \<times> FieldId) list \<Rightarrow> SubscriptionState \<Rightarrow> bool" where
  "mapping_ok mapping s \<longleftrightarrow> (\<forall>(d, f) \<in> set mapping. ss_fieldIdToDef s f \<in> {None, Some d}) \<and>
     (\<forall>(d, f) \<in> set mapping. \<forall>(d', f') \<in> set mapping. f = f' \<longrightarrow> d = d')"

lemma mapField_types:
  "typeFields (mapField (d, f) s) sch t = (if sch = fd_schema d \<and> t = fd_typename d
     then Some (AList.update (fd_fieldname d) f (case typeFields s sch t of None \<Rightarrow> [] | Some m \<Rightarrow> m)) else typeFields s sch t)"
  by (auto simp: mapField_def typeFields_def Let_def map_at_def split: option.splits)

lemma mapField_faithful:
  assumes s: "faithful U s" and d: "ss_fieldIdToDef s f \<in> {None, Some d}"
  shows "faithful U (mapField (d, f) s)"
proof -
  note D = faithfulD[OF s]
  let ?s = "mapField (d, f) s"
  have e: "ss_fieldIdToDef ?s = (ss_fieldIdToDef s)(f \<mapsto> d)" "ss_fieldIdToSubscribedChannels ?s = ss_fieldIdToSubscribedChannels s"
      "ss_channelToSubscribedFieldIds ?s = ss_channelToSubscribedFieldIds s" "ss_completedTypes ?s = ss_completedTypes s" "ss_objectValues ?s = ss_objectValues s"
      "ss_outbox ?s = ss_outbox s" "ss_oidToSubscribedChannels ?s = ss_oidToSubscribedChannels s"
      "ss_channelToLazilySubscribedFieldIds ?s = ss_channelToLazilySubscribedFieldIds s"
      "ss_subscriptionsPendingSubscriptionOnServer ?s = ss_subscriptionsPendingSubscriptionOnServer s"
    by (simp_all add: mapField_def Let_def)
  have "ss_fieldIdToDef ?s x = Some (FieldDefinition sch t n)" if t: "typeFields ?s sch t = Some fs" "(n, x) \<in> set fs" for sch t fs n x
  proof -
    have old: "ss_fieldIdToDef s x = Some (FieldDefinition sch t n)" if "typeFields s sch t = Some m" "(n, x) \<in> set m" for m
      using D(1) that unfolding coherent_def by blast
    show ?thesis
    proof (cases "sch = fd_schema d \<and> t = fd_typename d")
      case True
      let ?m = "case typeFields s sch t of None \<Rightarrow> [] | Some m \<Rightarrow> m"
      have "(n, x) \<in> insert (fd_fieldname d, f) (set ?m)" using t True set_update_subset[of "fd_fieldname d" f ?m] by (auto simp: mapField_types)
      then consider "n = fd_fieldname d" "x = f" | m where "typeFields s sch t = Some m" "(n, x) \<in> set m" by (cases "typeFields s sch t") auto
      then show ?thesis
      proof cases
        case 1
        with True show ?thesis unfolding e(1) by (cases d) simp
      next
        case 2
        with old d show ?thesis by (auto simp: e)
      qed
    next
      case False
      with t old d show ?thesis by (auto simp: mapField_types e)
    qed
  qed
  then have "coherent ?s" by (simp add: coherent_def)
  moreover have "\<exists>d'. ((ss_fieldIdToDef s)(f \<mapsto> d)) x = Some d' \<and> (fd_schema d', fd_typename d') \<in> ss_completedTypes s" if "c \<in> field_subscribers s x" for c x
    using D(2)[OF that] d by auto
  moreover have "synced U ?s c x = synced U s c x" for c x by (simp add: synced_def e)
  ultimately show ?thesis using s unfolding faithful_def e by blast
qed

lemma mapSchema_faithful:
  assumes "faithful U s" "mapping_ok mapping s"
  shows "faithful U (snd (mapSchema schemaName mapping s))"
proof -
  have "faithful U (snd (forM mapping (\<lambda>p. modify (mapField p)) s))" if "faithful U s" "mapping_ok mapping s" for s
    using that
  proof (induction mapping arbitrary: s)
    case (Cons p mapping)
    obtain d f where p: "p = (d, f)" by fastforce
    have "faithful U (mapField (d, f) s)" using Cons.prems p by (intro mapField_faithful) (auto simp: mapping_ok_def)
    moreover have "mapping_ok mapping (mapField (d, f) s)"
      using Cons.prems(2) p unfolding mapping_ok_def by (auto simp: mapField_def Let_def)
    ultimately show ?case using Cons.IH p by simp
  qed simp
  moreover have "harmless U s (s\<lparr>ss_schemaDefs := (ss_schemaDefs s)(schemaName \<mapsto> mapping)\<rparr>)" by (simp add: harmless_def)
  ultimately show ?thesis using harmless_faithful[OF assms(1)] assms(2) by (simp add: mapSchema_def mapping_ok_def)
qed

section \<open>Data from the main server\<close>

lemma putObjectValues_run:
  "forM ks (receiveValue vals) s = (Inr (), s') \<Longrightarrow>
   (\<forall>k \<in> set ks. \<not> isIndexValue k) \<and> s' = s\<lparr>ss_objectValues := ss_objectValues s'\<rparr> \<and>
   map_at (ss_objectValues s') = (\<lambda>f oid. if ObjectFieldId oid f False \<in> set ks then the (vals (ObjectFieldId oid f False)) else map_at (ss_objectValues s) f oid)"
proof (induction ks arbitrary: s)
  case (Cons k ks)
  obtain oid f b where k: "k = ObjectFieldId oid f b" by (cases k)
  then have b: "\<not> b" using Cons.prems by (cases b) (simp_all add: receiveValue_def)
  let ?s = "putObjectValue k (the (vals k)) s"
  have "forM ks (receiveValue vals) ?s = (Inr (), s')"
    using Cons.prems b by (simp add: receiveValue_def[of _ k]) (simp add: k)
  note ih = Cons.IH[OF this]
  have "s' = s\<lparr>ss_objectValues := ss_objectValues s'\<rparr>" by (subst conjunct1[OF conjunct2[OF ih]]) (simp add: putObjectValue_def)
  moreover have "map_at (ss_objectValues s') = (\<lambda>x y. if ObjectFieldId y x False \<in> set (k # ks) then the (vals (ObjectFieldId y x False)) else map_at (ss_objectValues s) x y)"
    unfolding conjunct2[OF conjunct2[OF ih]] using k b by (auto simp: putObjectValue_def fun_eq_iff)
  ultimately show ?case using ih k b by simp
qed simp

lemma putIndexValues_run:
  "forM ks (receiveIndexValue vals) s = (Inr (), s') \<Longrightarrow>
   s' = s\<lparr>ss_indexValues := ss_indexValues s', ss_reverseIndexValues := ss_reverseIndexValues s'\<rparr>"
proof (induction ks arbitrary: s)
  case (Cons k ks)
  let ?s = "putIndexValue k (the (vals k)) s"
  have "forM ks (receiveIndexValue vals) ?s = (Inr (), s')"
    using Cons.prems by (cases "isIndexValue k") (simp_all add: receiveIndexValue_def[of _ k])
  note ih = Cons.IH[OF this]
  show ?case by (subst ih) (simp add: putIndexValue_def)
qed simp

text \<open>New values for fields that nobody has subscribed to yet.\<close>

lemma new_values_faithful:
  assumes s: "faithful U s" and vals: "map_at d = U'" "\<And>f. finite (dom (U' f))" "\<And>c f. c \<in> field_subscribers s f \<Longrightarrow> U' f = U f"
  shows "faithful U' (s\<lparr>ss_objectValues := d, ss_indexValues := i, ss_reverseIndexValues := r\<rparr>)" (is "faithful U' ?s")
proof -
  note D = faithfulD[OF s]
  have "synced U' ?s c f" if "c \<in> field_subscribers s f" "f \<notin> set_at (ss_channelToLazilySubscribedFieldIds s) c" for c f
    using D(8)[OF that] vals(3)[OF that(1)] by (simp add: synced_def)
  moreover have "coherent ?s" using D(1) by (simp add: coherent_def typeFields_def)
  ultimately show ?thesis using s vals(1,2) unfolding faithful_def by auto
qed

lemma subscriptionData_faithful:
  assumes env: "proxy_env_ok env" and s: "faithful U s" and run: "ssHandleSubscriptionData env vals ivs s = (Inr (), s')"
    and fin: "finite (dom vals)" and new: "\<And>k. k \<in> dom vals \<Longrightarrow> field_subscribers s (fieldId k) = {}"
  shows "faithful (learnValues vals U) s'"
proof -
  have it: "set (iterK env (dom vals)) = dom vals" using env fin by (simp add: proxy_env_ok_def good_iter_def)
  obtain s1 where s1: "forM (iterK env (dom vals)) (receiveValue vals) s = (Inr (), s1)"
      "forM (iterK env (dom ivs)) (receiveIndexValue ivs) s1 = (Inr (), s')"
    using run unfolding ssHandleSubscriptionData_def thenM_ok by auto
  note p = putObjectValues_run[OF s1(1), unfolded it]
  have U: "map_at (ss_objectValues s1) = learnValues vals U"
    unfolding conjunct2[OF conjunct2[OF p]] learnValues_def faithfulD(7)[OF s] by (auto simp: fun_eq_iff split: option.splits)
  have "s' = s\<lparr>ss_objectValues := ss_objectValues s1, ss_indexValues := ss_indexValues s', ss_reverseIndexValues := ss_reverseIndexValues s'\<rparr>"
    by (subst putIndexValues_run[OF s1(2)], subst conjunct1[OF conjunct2[OF p]]) simp
  moreover have "finite (dom (learnValues vals U f))" for f
  proof -
    have "dom (learnValues vals U f) \<subseteq> dom (U f) \<union> objId ` dom vals" by (force simp: learnValues_def split: option.splits)
    then show ?thesis using faithfulD(9)[OF s] fin finite_subset by blast
  qed
  moreover have "learnValues vals U f = U f" if "c \<in> field_subscribers s f" for c f
  proof -
    have "vals (ObjectFieldId oid f False) = None" for oid using new[of "ObjectFieldId oid f False"] that by fastforce
    then show ?thesis by (simp add: learnValues_def)
  qed
  ultimately show ?thesis using new_values_faithful[OF s U] by metis
qed

end
