(* ===== verification/Proxy_Transactions.thy ===== *)
theory Proxy_Transactions
  imports Proxy_Replica
begin

text \<open>
  A transaction that the main server tells the proxy of: the proxy applies it to its copy, enlarges it by the values of the
  objects that have newly come into view of an index subscription, and tells the clients concerned. All clients
  keep up with the main server.
\<close>

section \<open>The parts\<close>

lemma applyWrites_at:
  "dict_ok writes \<Longrightarrow> \<forall>(k, v) \<in> set writes. \<not> isIndexValue k \<Longrightarrow>
   map_at (ss_objectValues (applyWrites writes s)) = learnValues (map_of writes) (map_at (ss_objectValues s))"
proof (induction writes arbitrary: s)
  case Nil
  show ?case by (simp add: applyWrites_def learnValues_def)
next
  case (Cons p writes)
  obtain oid f b v where p: "p = (ObjectFieldId oid f b, v)" by (metis ObjectFieldId.exhaust surj_pair)
  then have b: "\<not> b" using Cons.prems(2) by auto
  have new: "map_of writes (ObjectFieldId oid f False) = None" using Cons.prems(1) p b by (auto simp: map_of_eq_None_iff)
  have "map_at (ss_objectValues (applyWrites (p # writes) s)) = learnValues (map_of writes) (map_at (ss_objectValues (putObjectValue (ObjectFieldId oid f b) v s)))"
    using Cons p by (simp add: applyWrites_def)
  also have "\<dots> = learnValues (map_of (p # writes)) (map_at (ss_objectValues s))"
    using p b new by (auto simp: learnValues_def putObjectValue_def fun_eq_iff split: option.splits)
  finally show ?case .
qed

lemma applyWrites_frame: "applyWrites writes s = s\<lparr>ss_objectValues := ss_objectValues (applyWrites writes s)\<rparr>"
proof (induction writes arbitrary: s)
  case (Cons p writes)
  obtain k v where p: "p = (k, v)" by fastforce
  show ?case using Cons[of "putObjectValue k v s"] unfolding applyWrites_def p by (simp add: putObjectValue_def)
qed (simp add: applyWrites_def)

lemma benign_addToIndex: "benignFor W U (addToIndex env tid p acc)"
  unfolding addToIndex_def increaseChannel_def
  by (intro benign_rules benign_modify benign_send truthful_silent)
    (auto simp: harmless_def increaseOids_def applyAdd_def Let_def split: prod.split)

lemma benign_removes: "benignFor W U (forM set_removes (\<lambda>p. modify (applyRemove p)))"
  by (intro benign_rules benign_modify) (auto simp: harmless_def applyRemove_def Let_def split: prod.split)

lemma send_all:
  "forM cs (\<lambda>c. ssSend c msg) s = (Inr (), s\<lparr>ss_outbox := (\<lambda>c. ss_outbox s c @ replicate (count_list cs c) msg)\<rparr>)"
proof (induction cs arbitrary: s)
  case (Cons c cs)
  have one: "ssSend c msg s = (Inr (), s\<lparr>ss_outbox := (ss_outbox s)(c := ss_outbox s c @ [msg])\<rparr>)" by (simp add: ssSend_def)
  have "forM (c # cs) (\<lambda>c. ssSend c msg) s = forM cs (\<lambda>c. ssSend c msg) (s\<lparr>ss_outbox := (ss_outbox s)(c := ss_outbox s c @ [msg])\<rparr>)"
    using one by simp
  then show ?case unfolding Cons by (auto simp: fun_eq_iff)
qed simp

text \<open>What the transaction is enlarged by is true.\<close>

definition enlarges :: "write_dict \<Rightarrow> knowledge \<Rightarrow> write_dict \<Rightarrow> bool" where
  "enlarges writes U ws \<longleftrightarrow> (\<forall>oid f. (map_of ws (ObjectFieldId oid f False) = None \<longrightarrow> map_of writes (ObjectFieldId oid f False) = None) \<and>
     (\<forall>x. map_of ws (ObjectFieldId oid f False) = Some x \<longrightarrow> x = U f oid))"

lemma enlarges_self: "enlarges writes (learnValues (map_of writes) U) writes"
  by (simp add: enlarges_def learnValues_def)

lemma enlarges_learn:
  assumes "enlarges writes (learnValues (map_of writes) U) ws" "m f = U f"
  shows "learnValues (map_of ws) m f = learnValues (map_of writes) U f"
proof
  fix oid
  show "learnValues (map_of ws) m f oid = learnValues (map_of writes) U f oid"
  proof (cases "map_of ws (ObjectFieldId oid f False)")
    case None
    then have "map_of writes (ObjectFieldId oid f False) = None" using assms(1) by (simp add: enlarges_def)
    with None assms(2) show ?thesis by (simp add: learnValues_def)
  next
    case (Some x)
    then have "x = learnValues (map_of writes) U f oid" using assms(1) unfolding enlarges_def by blast
    with Some show ?thesis unfolding learnValues_def[of "map_of ws"] by simp
  qed
qed

lemma includeFields_enlarges:
  "enlarges writes (map_at (ss_objectValues s)) ws \<Longrightarrow> enlarges writes (map_at (ss_objectValues s)) (includeFields s oids f ws)"
proof (induction oids arbitrary: ws)
  case (Cons oid oids)
  show ?case
  proof (cases "map_at (ss_objectValues s) f oid")
    case None
    with Cons show ?thesis by (simp add: includeFields_def)
  next
    case (Some v)
    have "enlarges writes (map_at (ss_objectValues s)) (AList.update (ObjectFieldId oid f False) (Some v) ws)"
      using Cons.prems Some by (auto simp: enlarges_def)
    with Cons.IH Some show ?thesis by (simp add: includeFields_def)
  qed
qed (simp add: includeFields_def)

lemma includeAllFields_enlarges:
  "foldMl (\<lambda>fieldname w. bindM (lookupM (map_of names) fieldname) (\<lambda>f. gets (\<lambda>s. includeFields s oids f w))) fieldnames ws s = (Inr ws', s') \<Longrightarrow>
   enlarges writes (map_at (ss_objectValues s)) ws \<Longrightarrow> s' = s \<and> enlarges writes (map_at (ss_objectValues s)) ws'"
  by (induction fieldnames arbitrary: ws) (auto simp: pyM_ok gets_def intro: includeFields_enlarges)

lemma foldMl_gets: "(\<And>x b. \<exists>r. f x b s = (r, s)) \<Longrightarrow> foldMl f xs b s = (r, s') \<Longrightarrow> s' = s"
proof (induction xs arbitrary: b)
  case (Cons x xs)
  obtain r' where "f x b s = (r', s)" using Cons.prems(1) by blast
  with Cons show ?case by (cases r') auto
qed simp

lemma pxIncreaseBroadcast_enlarges:
  assumes "pxIncreaseBroadcast env p acc s = (Inr acc', s')" "enlarges writes (map_at (ss_objectValues s)) (fst acc)"
  shows "s' = s \<and> enlarges writes (map_at (ss_objectValues s)) (fst acc')"
proof -
  obtain names ws s1 a and td :: TypeDefinition where w: "foldMl (\<lambda>fieldname w. bindM (lookupM (map_of names) fieldname) (\<lambda>f. gets (\<lambda>s. includeFields s (iterI env (snd p)) f w)))
        (td_fields td) (fst acc) s = (Inr ws, s1)"
      "foldMl (\<lambda>indexname a. bindM (lookupM (map_of names) indexname) (\<lambda>f. gets (\<lambda>s. includeIndices s (iterI env (snd p)) f a))) (td_indices td) (snd acc) s1 = (Inr a, s')"
      "acc' = (ws, a)"
    using assms(1) unfolding pxIncreaseBroadcast_def by (auto simp: pyM_ok)
  note e = includeAllFields_enlarges[OF w(1) assms(2)]
  have "s' = s1" using w(2) by (rule foldMl_gets[rotated]) (auto simp: lookupM_def bindM_def gets_def raise_def ret_def split: option.splits)
  with e w(3) show ?thesis by simp
qed

lemma broadcast_enlarges:
  "foldMl (pxIncreaseBroadcast env) ids acc s = (Inr acc', s') \<Longrightarrow> enlarges writes (map_at (ss_objectValues s)) (fst acc) \<Longrightarrow>
   s' = s \<and> enlarges writes (map_at (ss_objectValues s)) (fst acc')"
proof (induction ids arbitrary: acc)
  case (Cons p ids)
  obtain acc1 s1 where a: "pxIncreaseBroadcast env p acc s = (Inr acc1, s1)" "foldMl (pxIncreaseBroadcast env) ids acc1 s1 = (Inr acc', s')"
    using Cons.prems(1) by (auto simp: pyM_ok)
  note e = pxIncreaseBroadcast_enlarges[OF a(1) Cons.prems(2)]
  with a(2) Cons.IH[of acc1] show ?case by simp
qed simp

section \<open>The whole\<close>

text \<open>A change of the data is faithful if every subscriber of a changed field is told.\<close>

lemma told_faithful:
  assumes f: "faithful U s" and d: "map_at d = U'" "\<And>x. finite (dom (U' x))" and h: "harmless U (s\<lparr>ss_objectValues := d\<rparr>) s1"
    and lazy: "\<And>c. set_at (ss_channelToLazilySubscribedFieldIds s1) c \<subseteq> set_at L c"
    and told: "\<And>c x. c \<in> field_subscribers s x \<Longrightarrow> \<exists>ms. box c = ss_outbox s c @ ms \<and> (\<forall>m. m x = U x \<longrightarrow> fold learn ms m x = U' x)"
  shows "faithful U' (s1\<lparr>ss_channelToLazilySubscribedFieldIds := L, ss_transactionId := n, ss_outbox := box\<rparr>)" (is "faithful U' ?s")
proof -
  note D = faithfulD[OF f]
  have e: "typeFields s1 = typeFields s" "ss_fieldIdToDef s1 = ss_fieldIdToDef s" "field_subscribers s1 = field_subscribers s"
      "set_at (ss_channelToSubscribedFieldIds s1) = set_at (ss_channelToSubscribedFieldIds s)" "ss_completedTypes s \<subseteq> ss_completedTypes s1"
      "map_at (ss_objectValues s1) = U'"
      "\<And>c. set_at (ss_channelToLazilySubscribedFieldIds s) c \<subseteq> set_at (ss_channelToLazilySubscribedFieldIds s1) c"
    using h d(1) by (simp_all add: harmless_def typeFields_def fun_eq_iff)
  have "coherent ?s" using D(1) e(1,2) by (simp add: coherent_def typeFields_def fun_eq_iff)
  moreover have "synced U' ?s c x" if sub: "c \<in> field_subscribers s x" "x \<notin> set_at L c" for c x
  proof -
    have "synced U s c x" using D(8)[OF sub(1)] sub(2) lazy e(7) by blast
    then obtain before since where b: "ss_outbox s c = before @ since" "from_subscription since" "replica since x = U x" unfolding synced_def by blast
    obtain ms where "box c = ss_outbox s c @ ms" "\<forall>m. m x = U x \<longrightarrow> fold learn ms m x = U' x" using told[OF sub(1)] by blast
    then show ?thesis using b from_subscription_append[OF b(2)] unfolding synced_def
      by (intro exI[of _ before] exI[of _ "since @ ms"]) (simp add: replica_append)
  qed
  moreover have "finite (set_at (ss_oidToSubscribedChannels s1) oid)" "finite (set_at (ss_subscriptionsPendingSubscriptionOnServer s1) st)" for oid st
  proof -
    have "\<forall>oid. finite (set_at (ss_oidToSubscribedChannels (s\<lparr>ss_objectValues := d\<rparr>)) oid) \<longrightarrow> finite (set_at (ss_oidToSubscribedChannels s1) oid)"
      "\<forall>st. finite (set_at (ss_subscriptionsPendingSubscriptionOnServer (s\<lparr>ss_objectValues := d\<rparr>)) st) \<longrightarrow> finite (set_at (ss_subscriptionsPendingSubscriptionOnServer s1) st)"
      using h unfolding harmless_def by blast+
    with D(5,11) show "finite (set_at (ss_oidToSubscribedChannels s1) oid)" "finite (set_at (ss_subscriptionsPendingSubscriptionOnServer s1) st)" by (simp_all del: split_paired_All)
  qed
  moreover have "\<exists>d. ss_fieldIdToDef s x = Some d \<and> (fd_schema d, fd_typename d) \<in> ss_completedTypes s1" if "c \<in> field_subscribers s x" for c x
    using D(2)[OF that] e(5) by blast
  moreover have "(sk_schema (snd p), sk_typename (snd p)) = st" if "p \<in> set_at (ss_subscriptionsPendingSubscriptionOnServer s1) st" for p st
  proof -
    have "p \<in> set_at (ss_subscriptionsPendingSubscriptionOnServer (s\<lparr>ss_objectValues := d\<rparr>)) st \<or> (sk_schema (snd p), sk_typename (snd p)) = st"
      using h that unfolding harmless_def by blast
    with D(10)[of p st] show ?thesis by auto
  qed
  ultimately show ?thesis unfolding faithful_def using D(3,4,6) d(2) by (simp add: e)
qed

lemma truthful_priors: "map_at (ss_objectValues s) = U \<Longrightarrow> truthful U (LazyTransactionPriors (priorValues writes s))"
  unfolding truthful_def priorValues_def by (auto intro!: learnValues_true dest!: map_of_SomeD)

lemma truthful_transaction: "enlarges writes U (tm_writes t) \<Longrightarrow> truthful U (Transaction t)"
  unfolding truthful_def enlarges_def by (auto intro!: learnValues_true)

text \<open>What a subscriber of a field knows after the prior values and the transaction have been sent around.\<close>

lemma announced:
  assumes U: "m x = U x" and old: "truthful U (LazyTransactionPriors priors)" and t: "enlarges writes (learnValues (map_of writes) U) (tm_writes t)"
    and j: "j = 0 \<Longrightarrow> x \<notin> (\<lambda>(k, _). fieldId k) ` set writes"
  shows "fold learn (replicate k (LazyTransactionPriors priors) @ replicate j (Transaction t)) m x = learnValues (map_of writes) U x"
proof -
  let ?m = "fold learn (replicate k (LazyTransactionPriors priors)) m"
  have m: "?m x = U x" by (rule truthful_learns) (use old U in auto)
  show ?thesis
  proof (cases j)
    case 0
    have "map_of writes (ObjectFieldId oid x False) = None" for oid using j[OF 0] by (force simp: map_of_eq_None_iff)
    with m 0 show ?thesis by (simp add: learnValues_def)
  next
    case (Suc n)
    have "learn (Transaction t) ?m x = learnValues (map_of writes) U x" using enlarges_learn[OF t, where m = ?m and f = x] m by simp
    moreover have "\<forall>msg \<in> set (replicate n (Transaction t)). truthful (learnValues (map_of writes) U) msg" using truthful_transaction[OF t] by simp
    ultimately show ?thesis using Suc truthful_learns[where msgs = "replicate n (Transaction t)" and m = "learn (Transaction t) ?m" and f = x] by simp
  qed
qed

lemma announce_run:
  "announce env priors triggered channels t s = (Inr (), s\<lparr>ss_outbox := (\<lambda>c. ss_outbox s c @
     replicate (count_list (iterC env triggered) c) (LazyTransactionPriors priors) @ replicate (count_list (iterC env channels) c) (Transaction t))\<rparr>)"
  by (simp add: announce_def send_all thenM_Inr[OF send_all])

lemma transaction_run:
  assumes "ssHandleTransaction env writes set_adds set_removes tid s = (Inr (), s')"
  obtains s1 triggered ids writes' set_adds' s2 where
    "thenM (forM set_removes (\<lambda>p. modify (applyRemove p))) (foldMl (addToIndex env tid) set_adds ({}, [])) (applyWrites writes s) = (Inr (triggered, ids), s1)"
    "foldMl (pxIncreaseBroadcast env) ids (writes, set_adds) s1 = (Inr (writes', set_adds'), s2)"
    "s' = snd (announce env (priorValues writes s) (triggered \<union> lazyFieldSubscribers (affectedFields writes set_adds' set_removes) s2)
        (affectedChannels (affectedFields writes set_adds' set_removes) (oidsMentioned writes set_adds set_removes) s2)
        \<lparr>tm_writes = writes', tm_set_adds = set_adds', tm_set_removes = set_removes, tm_transaction_id = tid\<rparr>
        ((touchLazyFields (affectedFields writes set_adds' set_removes) s2)\<lparr>ss_transactionId := max tid (ss_transactionId s2)\<rparr>))"
  using assms unfolding ssHandleTransaction_def Let_def
  by (auto simp: pyM_ok touchLazyFields_def split: prod.splits)

lemma finite_affectedChannels:
  assumes "\<And>f. finite (field_subscribers s f)" "\<And>oid. finite (set_at (ss_oidToSubscribedChannels s) oid)"
    "\<forall>(ix, oids) \<in> set set_adds \<union> set set_removes. finite oids"
  shows "finite (affectedChannels (affectedFields writes set_adds' set_removes) (oidsMentioned writes set_adds set_removes) s)"
proof -
  have "finite (affectedFields writes set_adds' set_removes)" by (simp add: affectedFields_def)
  moreover have "finite (oidsMentioned writes set_adds set_removes)" using assms(3) by (auto simp: oidsMentioned_def)
  ultimately show ?thesis using assms(1,2) by (simp add: affectedChannels_def)
qed

definition wellformed_transaction :: "transaction_msg \<Rightarrow> bool" where
  "wellformed_transaction t \<longleftrightarrow> dict_ok (tm_writes t) \<and> (\<forall>(k, v) \<in> set (tm_writes t). \<not> isIndexValue k) \<and>
     (\<forall>(ix, oids) \<in> set (tm_set_adds t) \<union> set (tm_set_removes t). finite oids)"

lemma transaction_faithful:
  assumes env: "proxy_env_ok env" and s: "faithful U s" and t: "wellformed_transaction t"
    and run: "ssHandleTransaction env (tm_writes t) (tm_set_adds t) (tm_set_removes t) (tm_transaction_id t) s = (Inr (), s')"
  shows "faithful (learn (Transaction t) U) s'"
proof -
  let ?w = "tm_writes t" and ?U = "learnValues (map_of (tm_writes t)) U"
  note D = faithfulD[OF s]
  have w: "dict_ok ?w" "\<forall>(k, v) \<in> set ?w. \<not> isIndexValue k" "\<forall>(ix, oids) \<in> set (tm_set_adds t) \<union> set (tm_set_removes t). finite oids"
    using t unfolding wellformed_transaction_def by blast+
  obtain s1 triggered ids w' adds' s2 where r:
    "thenM (forM (tm_set_removes t) (\<lambda>p. modify (applyRemove p))) (foldMl (addToIndex env (tm_transaction_id t)) (tm_set_adds t) ({}, [])) (applyWrites ?w s) = (Inr (triggered, ids), s1)"
    "foldMl (pxIncreaseBroadcast env) ids (?w, tm_set_adds t) s1 = (Inr (w', adds'), s2)"
    "s' = snd (announce env (priorValues ?w s) (triggered \<union> lazyFieldSubscribers (affectedFields ?w adds' (tm_set_removes t)) s2)
        (affectedChannels (affectedFields ?w adds' (tm_set_removes t)) (oidsMentioned ?w (tm_set_adds t) (tm_set_removes t)) s2)
        \<lparr>tm_writes = w', tm_set_adds = adds', tm_set_removes = tm_set_removes t, tm_transaction_id = tm_transaction_id t\<rparr>
        ((touchLazyFields (affectedFields ?w adds' (tm_set_removes t)) s2)\<lparr>ss_transactionId := max (tm_transaction_id t) (ss_transactionId s2)\<rparr>))"
    by (rule transaction_run[OF run]) (rule that)
  define d where "d = ss_objectValues (applyWrites ?w s)"
  have start: "applyWrites ?w s = s\<lparr>ss_objectValues := d\<rparr>" unfolding d_def by (rule applyWrites_frame)
  have dU: "map_at d = ?U" using applyWrites_at[OF w(1,2)] D(7) by (simp add: d_def)
  have h: "harmless U (s\<lparr>ss_objectValues := d\<rparr>) s1"
  proof -
    have "benignFor ?U U (thenM (forM (tm_set_removes t) (\<lambda>p. modify (applyRemove p))) (foldMl (addToIndex env (tm_transaction_id t)) (tm_set_adds t) ({}, [])))"
      by (intro benign_thenM benign_removes benign_foldMl benign_addToIndex)
    from this[unfolded benignFor_def, rule_format, of "s\<lparr>ss_objectValues := d\<rparr>"] show ?thesis using dU r(1) unfolding start by simp
  qed
  have now: "map_at (ss_objectValues s1) = ?U" using h dU by (simp add: harmless_def)
  have e: "s2 = s1" "enlarges ?w ?U w'" using broadcast_enlarges[OF r(2), of ?w] enlarges_self now by simp_all
  define fs where "fs = affectedFields ?w adds' (tm_set_removes t)"
  define cs where "cs = affectedChannels fs (oidsMentioned ?w (tm_set_adds t) (tm_set_removes t)) s1"
  define lz where "lz = triggered \<union> lazyFieldSubscribers fs s1"
  define t' where "t' = \<lparr>tm_writes = w', tm_set_adds = adds', tm_set_removes = tm_set_removes t, tm_transaction_id = tm_transaction_id t\<rparr>"
  define box where "box = (\<lambda>c. ss_outbox s1 c @ replicate (count_list (iterC env lz) c) (LazyTransactionPriors (priorValues ?w s)) @
    replicate (count_list (iterC env cs) c) (Transaction t'))"
  define L where "L = ss_channelToLazilySubscribedFieldIds (touchLazyFields fs s1)"
  have s': "s' = s1\<lparr>ss_channelToLazilySubscribedFieldIds := L, ss_transactionId := max (tm_transaction_id t) (ss_transactionId s1), ss_outbox := box\<rparr>"
    unfolding r(3) announce_run e(1) box_def L_def cs_def lz_def fs_def t'_def by (simp add: touchLazyFields_def)
  have same: "field_subscribers s1 = field_subscribers s" using h by (simp add: harmless_def)
  have "finite cs" unfolding cs_def fs_def
  proof (rule finite_affectedChannels[OF _ _ w(3)])
    show "finite (field_subscribers s1 f)" for f using D(4) same by simp
    have "\<forall>oid. finite (set_at (ss_oidToSubscribedChannels (s\<lparr>ss_objectValues := d\<rparr>)) oid) \<longrightarrow> finite (set_at (ss_oidToSubscribedChannels s1) oid)"
      using h unfolding harmless_def by blast
    with D(5) show "finite (set_at (ss_oidToSubscribedChannels s1) oid)" for oid by simp
  qed
  then have it: "set (iterC env cs) = cs" using env by (simp add: proxy_env_ok_def good_iter_def)
  have "faithful ?U s'" unfolding s'
  proof (rule told_faithful[OF s dU _ h])
    show "finite (dom (?U x))" for x
    proof -
      have "dom (?U x) \<subseteq> dom (U x) \<union> objId ` dom (map_of ?w)" by (force simp: learnValues_def split: option.splits)
      then show ?thesis using D(9) finite_dom_map_of finite_subset by blast
    qed
    show "set_at (ss_channelToLazilySubscribedFieldIds s1) c \<subseteq> set_at L c" for c by (simp add: L_def touchLazyFields_def set_at_def)
    fix c x assume c: "c \<in> field_subscribers s x"
    obtain ms where ms: "ss_outbox s1 c = ss_outbox (s\<lparr>ss_objectValues := d\<rparr>) c @ ms" "\<forall>m \<in> set ms. truthful U m" using h unfolding harmless_def by blast
    have j: "x \<notin> (\<lambda>(k, _). fieldId k) ` set ?w" if "count_list (iterC env cs) c = 0"
      using that c it same by (auto simp: count_list_0_iff cs_def affectedChannels_def fs_def affectedFields_def)
    have "fold learn (ms @ replicate (count_list (iterC env lz) c) (LazyTransactionPriors (priorValues ?w s)) @
        replicate (count_list (iterC env cs) c) (Transaction t')) m x = ?U x" if "m x = U x" for m
    proof -
      have "fold learn ms m x = U x" by (rule truthful_learns) (use ms(2) that in auto)
      from announced[where m = "fold learn ms m" and x = x and U = U, OF this truthful_priors[OF D(7)] _ j] e(2) show ?thesis by (simp add: t'_def)
    qed
    then show "\<exists>ms. box c = ss_outbox s c @ ms \<and> (\<forall>m. m x = U x \<longrightarrow> fold learn ms m x = ?U x)"
      using ms(1) unfolding box_def by (intro exI[of _ "ms @ replicate (count_list (iterC env lz) c) (LazyTransactionPriors (priorValues ?w s)) @
        replicate (count_list (iterC env cs) c) (Transaction t')"]) simp
  qed
  then show ?thesis by simp
qed

end
