(* ===== verification/Proxy_Runs.thy ===== *)
theory Proxy_Runs
  imports Proxy_Transactions
begin

text \<open>
  Runs of a proxy: clients connect, speak and disconnect in any order, and the main server sends messages. Whatever happens,
  a client that has subscribed to a whole type through the proxy knows of it what the main server has told the proxy.
\<close>

section \<open>Handlers and the subscription state\<close>

text \<open>
  What the handlers of a proxy need of its subscription state to keep an invariant of it, but for the three messages from the main
  server that bring schemas, data and transactions.
\<close>

definition silent :: "ServerToClient \<Rightarrow> bool" where
  "silent msg \<longleftrightarrow> (\<forall>m. learn msg m = m)"

lemma silent_messages [simp]:
  "silent (SchemaMapping a m)" "silent (FlushResponse g)" "silent (TransactionResult g x y z)" "silent (Initialize n i j)"
  by (simp_all add: silent_def)

locale proxy_clients =
  fixes env :: proxyenv and J :: "SubscriptionState \<Rightarrow> bool"
  assumes send: "silent msg \<Longrightarrow> keeps J (ssSend c msg)"
    and defined: "keeps J (modify (\<lambda>t. t\<lparr>ss_definedSchemas := g t\<rparr>))"
    and pending: "keeps J (modify (\<lambda>t. t\<lparr>ss_channelToPendingTransactions := h t\<rparr>))"
    and subscription: "keeps J (addSubscription env c key)"
    and increase: "keeps J (increaseSubscriptionIfNecessary c set_adds tid)"
    and lazy_load: "keeps J (lazyLoadObject c schema typename i)"
    and get_value: "keeps J (getObjectValue env f oi)"
    and drop: "keeps J (ssDropConnection env c)"
    and completed: "keeps J (ssHandleSubscriptionComplete env schema typename tid)"
begin

lemma state: "keeps J m \<Longrightarrow> keeps (\<lambda>s. J (px_subscriptionState s)) (pxState m)"
  unfolding pxState_def by (rule keeps_zoomM) (auto simp: keeps_def)

lemma own: "(\<And>s. px_subscriptionState (f s) = px_subscriptionState s) \<Longrightarrow> keeps (\<lambda>s. J (px_subscriptionState s)) (modify f)"
  by (rule keeps_modify) simp

lemma up: "keeps (\<lambda>s. J (px_subscriptionState s)) (sendUp msg)"
  unfolding sendUp_def by (rule own) simp

lemma close: "keeps (\<lambda>s. J (px_subscriptionState s)) (closeDown c)"
  unfolding closeDown_def by (rule own) simp

lemma down: "silent msg \<Longrightarrow> keeps (\<lambda>s. J (px_subscriptionState s)) (sendDown c msg)"
  unfolding sendDown_def by (intro state send)

lemmas rules = keeps_rules up close down state defined pending own

lemma on_authenticate: "keeps (\<lambda>s. J (px_subscriptionState s)) (authenticate coreDefinition)"
proof -
  have "J (t\<lparr>ss_definedSchemas := d\<rparr>)" if "J t" for t d using defined[of "\<lambda>_. d"] that by (simp add: keeps_def)
  then show ?thesis unfolding authenticate_def by (intro keeps_rules up keeps_modify) simp
qed

lemma on_connect: "keeps (\<lambda>s. J (px_subscriptionState s)) (pxAddConnection c)"
  unfolding pxAddConnection_def by (rule own) simp

lemma on_drop: "keeps (\<lambda>s. J (px_subscriptionState s)) (pxDropConnection env c)"
  unfolding pxDropConnection_def by (intro rules drop) simp_all

lemma on_check: "keeps (\<lambda>s. J (px_subscriptionState s)) (pxCheckForDeadConnections env)"
  unfolding pxCheckForDeadConnections_def checkDownstream_def pxAreHeartbeatsSuspended_def
  by (intro rules get_value on_drop) simp_all

lemma on_define_schema: "keeps (\<lambda>s. J (px_subscriptionState s)) (onDefineSchema c name d)"
  unfolding onDefineSchema_def growSchema_def by (intro rules silent_messages) simp_all

lemma on_subscribe_type: "keeps (\<lambda>s. J (px_subscriptionState s)) (subscribeType schema typename)"
  unfolding subscribeType_def by (intro rules) simp

lemma on_subscribe: "keeps (\<lambda>s. J (px_subscriptionState s)) (onSubscribe env c schema typename fv isLazy)"
  unfolding onSubscribe_def by (intro rules on_subscribe_type subscription)

lemma on_flush: "keeps (\<lambda>s. J (px_subscriptionState s)) (onFlush c guid)"
  unfolding onFlush_def by (intro rules) simp_all

lemma on_lazy_load: "keeps (\<lambda>s. J (px_subscriptionState s)) (onLoadLazyObject env c schema typename i)"
  unfolding onLoadLazyObject_def by (intro rules on_drop lazy_load)

lemma on_defer: "keeps (\<lambda>s. J (px_subscriptionState s)) m \<Longrightarrow> keeps (\<lambda>s. J (px_subscriptionState s)) (deferTransaction c msg m)"
  unfolding deferTransaction_def by (intro rules)

lemma on_data: "keeps (\<lambda>s. J (px_subscriptionState s)) (forwardTransactionData c t)"
  unfolding forwardTransactionData_def outgoingGuid_def by (intro rules increase) simp_all

lemma on_complete: "keeps (\<lambda>s. J (px_subscriptionState s)) (forwardCompleteTransaction c as_of guid no_log')"
  unfolding forwardCompleteTransaction_def by (intro rules) simp

lemma on_heartbeat: "keeps (\<lambda>s. J (px_subscriptionState s)) (onHeartbeat c)"
  unfolding onHeartbeat_def by (rule own) simp

lemma on_token: "keeps (\<lambda>s. J (px_subscriptionState s)) (onAuthenticate env c token i)"
  unfolding onAuthenticate_def by (intro rules on_drop) simp_all

lemma on_authenticated: "keeps (\<lambda>s. J (px_subscriptionState s)) (handleAuthenticatedMessage env c msg)"
  unfolding handleAuthenticatedMessage_def
  by (cases msg) (simp_all add: keeps_raise on_define_schema on_subscribe_type on_subscribe on_flush on_lazy_load on_defer on_data on_complete on_heartbeat)

lemma on_client: "keeps (\<lambda>s. J (px_subscriptionState s)) (pxHandleClientToServerMessage env c msg)"
  unfolding pxHandleClientToServerMessage_def
  by (intro keeps_rules own; cases msg) (auto intro!: keeps_rules on_drop on_token on_authenticated)

lemma on_initialize: "keeps (\<lambda>s. J (px_subscriptionState s)) (onInitialize env n i j)"
  unfolding onInitialize_def by (intro keeps_rules own on_client) simp_all

lemma on_connection_id: "keeps (\<lambda>s. J (px_subscriptionState s)) (onDependentConnectionId guid i j)"
  unfolding onDependentConnectionId_def by (intro rules silent_messages) simp_all

lemma on_flush_response: "keeps (\<lambda>s. J (px_subscriptionState s)) (onFlushResponse guid)"
  unfolding onFlushResponse_def by (intro rules silent_messages) simp_all

lemma on_result: "keeps (\<lambda>s. J (px_subscriptionState s)) (pxOnTransactionResult guid success badKey isException)"
  unfolding pxOnTransactionResult_def by (intro rules silent_messages) simp_all

lemma on_subscription_complete: "keeps (\<lambda>s. J (px_subscriptionState s)) (onSubscriptionComplete env schema typename tid)"
  unfolding onSubscriptionComplete_def by (intro keeps_rules state completed on_client)

text \<open>A mapping of a schema, if the state's own part of it is kept.\<close>

lemma on_schema_mapping:
  assumes "J (px_subscriptionState s)" "J (snd (mapSchema schema mapping (px_subscriptionState s)))"
  shows "J (px_subscriptionState (snd (onSchemaMapping env schema mapping s)))"
proof -
  let ?rest = "\<lambda>n. thenM (modify (\<lambda>s. s\<lparr>px_mappedSchemas := (px_mappedSchemas s)(schema \<mapsto> (map_at (px_mappedSchemas s) schema)(n \<mapsto> mapping))\<rparr>))
     (bindM (gets (\<lambda>s. set_at (px_unmappedSchemasToChannels s) (schema, n))) (\<lambda>cs.
      thenM (modify (\<lambda>s. s\<lparr>px_unmappedSchemasToChannels := (px_unmappedSchemasToChannels s)((schema, n) := None)\<rparr>))
        (forM (iterC env cs) (\<lambda>c. sendDown c (SchemaMapping schema mapping)))))"
  have rest: "keeps (\<lambda>s. J (px_subscriptionState s)) (?rest n)" for n by (intro keeps_rules own down silent_messages) simp_all
  have "leadsto (\<lambda>s. J (px_subscriptionState s) \<and> J (snd (mapSchema schema mapping (px_subscriptionState s)))) (pxState (mapSchema schema mapping))
      (\<lambda>s. J (px_subscriptionState s))"
    by (auto simp: leadsto_def pxState_def zoomM_def split: prod.splits)
  from leadsto_thenM[OF this rest[unfolded keeps_leadsto]] assms show ?thesis
    by (auto simp: onSchemaMapping_def leadsto_def Let_def)
qed

text \<open>A message from the main server that is handled without an exception.\<close>

lemma on_server:
  assumes "J (px_subscriptionState s)" "handleServerToClientMessage env msg s = (Inr (), s')"
    and "\<And>schema mapping. msg = SchemaMapping schema mapping \<Longrightarrow> J (snd (mapSchema schema mapping (px_subscriptionState s)))"
    and "\<And>a b fv vals ivs ids. msg = SubscriptionData a b fv vals ivs ids \<Longrightarrow> J (snd (ssHandleSubscriptionData env vals ivs (px_subscriptionState s)))"
    and "\<And>t. msg = Transaction t \<Longrightarrow>
      J (snd (ssHandleTransaction env (tm_writes t) (tm_set_adds t) (tm_set_removes t) (tm_transaction_id t) (px_subscriptionState s)))"
  shows "J (px_subscriptionState s')"
proof (cases msg)
  case (SchemaMapping schema mapping)
  with on_schema_mapping[OF assms(1) assms(3)] assms(2) show ?thesis by (simp add: handleServerToClientMessage_def)
next
  case (SubscriptionData a b fv vals ivs ids)
  with assms(2) assms(4) show ?thesis by (auto simp: handleServerToClientMessage_def pxState_def zoomM_ok)
next
  case (Transaction t)
  with assms(2) assms(5) show ?thesis by (auto simp: handleServerToClientMessage_def pxState_def zoomM_ok)
next
  case (Initialize n i j)
  with assms(2) keepsD[OF on_initialize assms(1)] show ?thesis by (simp add: handleServerToClientMessage_def)
next
  case (DependentConnectionId guid i j)
  with assms(2) keepsD[OF on_connection_id assms(1)] show ?thesis by (simp add: handleServerToClientMessage_def)
next
  case (SubscriptionComplete schema typename fv tid)
  with assms(2) keepsD[OF on_subscription_complete assms(1)] show ?thesis by (simp add: handleServerToClientMessage_def)
next
  case (FlushResponse guid)
  with assms(2) keepsD[OF on_flush_response assms(1)] show ?thesis by (simp add: handleServerToClientMessage_def)
next
  case (TransactionResult guid success badKey isException)
  with assms(2) keepsD[OF on_result assms(1)] show ?thesis by (simp add: handleServerToClientMessage_def)
qed (use assms(2) in \<open>simp_all add: handleServerToClientMessage_def\<close>)

end

section \<open>Every handler keeps the clients informed\<close>

abbreviation informed :: "knowledge \<Rightarrow> ProxyServer \<Rightarrow> bool" where
  "informed U s \<equiv> faithful U (px_subscriptionState s)"

lemma truthful_if_silent: "silent msg \<Longrightarrow> truthful U msg"
  by (simp add: silent_def truthful_def)

lemma keeps_guarded: "(b \<Longrightarrow> keeps I m) \<Longrightarrow> keeps (\<lambda>s. b \<longrightarrow> I s) m"
  by (auto simp: keeps_def)

interpretation clients: proxy_clients env "\<lambda>s. proxy_env_ok env \<longrightarrow> faithful U s" for env U
proof (unfold_locales; intro keeps_guarded)
  show "keeps (faithful U) (ssSend c msg)" if "silent msg" for c msg
    by (intro benign_keeps benign_send truthful_if_silent that)
  show "keeps (faithful U) (modify (\<lambda>t. t\<lparr>ss_definedSchemas := g t\<rparr>))" for g
    by (intro benign_keeps benign_modify) (simp add: harmless_def)
  show "keeps (faithful U) (modify (\<lambda>t. t\<lparr>ss_channelToPendingTransactions := g t\<rparr>))" for g
    by (intro benign_keeps benign_modify) (simp add: harmless_def)
qed (simp_all add: addSubscription_keeps benign_keeps benign_increase benign_lazyLoad benign_getObjectValue drop_keeps subscriptionComplete_keeps)

text \<open>
  What the main server sends: the data of a type arrives before its subscription is complete and is about the fields of the
  type; a field id has one meaning; transactions have the form in which servers send them.
\<close>

definition proper_message :: "ServerToClient \<Rightarrow> ProxyServer \<Rightarrow> bool" where
  "proper_message msg s = (let t = px_subscriptionState s in case msg of
       SubscriptionData schema typename fv vals ivs ids \<Rightarrow> (schema, typename) \<notin> ss_completedTypes t \<and> finite (dom vals) \<and>
         (\<forall>k \<in> dom vals. \<exists>n. ss_fieldIdToDef t (fieldId k) = Some (FieldDefinition schema typename n))
     | SchemaMapping schema mapping \<Rightarrow> mapping_ok mapping t
     | Transaction tr \<Rightarrow> wellformed_transaction tr
     | _ \<Rightarrow> True)"

lemma pxState_ok: "pxState m s = (Inr a, s') \<longleftrightarrow> (\<exists>t. m (px_subscriptionState s) = (Inr a, t) \<and> s' = s\<lparr>px_subscriptionState := t\<rparr>)"
  by (simp add: pxState_def zoomM_ok)

lemma informed_server:
  assumes env: "proxy_env_ok env" and s: "informed U s" and proper: "proper_message msg s" and run: "handleServerToClientMessage env msg s = (Inr (), s')"
  shows "informed (learn msg U) s'"
proof (cases msg)
  case (SubscriptionData schema typename fv vals ivs ids)
  have p: "(schema, typename) \<notin> ss_completedTypes (px_subscriptionState s)" "finite (dom vals)"
      "\<forall>k \<in> dom vals. \<exists>n. ss_fieldIdToDef (px_subscriptionState s) (fieldId k) = Some (FieldDefinition schema typename n)"
    using proper SubscriptionData by (simp_all add: proper_message_def Let_def)
  have "field_subscribers (px_subscriptionState s) (fieldId k) = {}" if k: "k \<in> dom vals" for k
  proof (rule ccontr)
    assume "field_subscribers (px_subscriptionState s) (fieldId k) \<noteq> {}"
    then obtain c where "c \<in> field_subscribers (px_subscriptionState s) (fieldId k)" by blast
    then obtain d where d: "ss_fieldIdToDef (px_subscriptionState s) (fieldId k) = Some d" "(fd_schema d, fd_typename d) \<in> ss_completedTypes (px_subscriptionState s)"
      using faithfulD(2)[OF s] by blast
    obtain n where "ss_fieldIdToDef (px_subscriptionState s) (fieldId k) = Some (FieldDefinition schema typename n)" using bspec[OF p(3) k] by blast
    with d p(1) show False by auto
  qed
  from subscriptionData_faithful[OF env s _ p(2) this] run SubscriptionData show ?thesis
    by (auto simp: handleServerToClientMessage_def pxState_ok)
next
  case (Transaction t)
  with proper have "wellformed_transaction t" by (simp add: proper_message_def)
  from transaction_faithful[OF env s this] run Transaction show ?thesis by (auto simp: handleServerToClientMessage_def pxState_ok)
next
  case (SchemaMapping schema mapping)
  with proper mapSchema_faithful[OF s, of mapping schema] have "faithful U (snd (mapSchema schema mapping (px_subscriptionState s)))" by (simp add: proper_message_def)
  with clients.on_server[of env U s msg s'] env s run SchemaMapping show ?thesis by simp
next
  case (LazyTransactionPriors w)
  with run show ?thesis by (simp add: handleServerToClientMessage_def)
next
  case (LazyLoadResponse i vals)
  with run show ?thesis by (simp add: handleServerToClientMessage_def)
qed (use clients.on_server[of env U s msg s'] env s run in \<open>simp_all\<close>)

section \<open>Runs\<close>

text \<open>One step of a proxy that receives the messages of the list (none or one) from the main server. A message that makes its handler raise is
  not part of a run.\<close>

inductive proxy_step :: "proxyenv \<Rightarrow> ServerToClient list \<Rightarrow> ProxyServer \<Rightarrow> ProxyServer \<Rightarrow> bool" for env where
  authenticate: "proxy_step env [] s (snd (authenticate coreDefinition s))"
| connect: "proxy_step env [] s (snd (pxAddConnection c s))"
| disconnect: "proxy_step env [] s (snd (pxDropConnection env c s))"
| check: "proxy_step env [] s (snd (pxCheckForDeadConnections env s))"
| client: "proxy_step env [] s (snd (pxHandleClientToServerMessage env c msg s))"
| server: "proper_message msg s \<Longrightarrow> handleServerToClientMessage env msg s = (Inr (), s') \<Longrightarrow> proxy_step env [msg] s s'"

inductive proxy_steps :: "proxyenv \<Rightarrow> ServerToClient list \<Rightarrow> ProxyServer \<Rightarrow> ProxyServer \<Rightarrow> bool" for env where
  refl: "proxy_steps env [] s s"
| step: "proxy_steps env us s s' \<Longrightarrow> proxy_step env ms s' s'' \<Longrightarrow> proxy_steps env (us @ ms) s s''"

text \<open>\<open>proxy_run env us s\<close>: a proxy that has received the messages \<open>us\<close> from the main server can be in the state \<open>s\<close>.\<close>

definition proxy_run :: "proxyenv \<Rightarrow> ServerToClient list \<Rightarrow> ProxyServer \<Rightarrow> bool" where
  "proxy_run env us s \<longleftrightarrow> (\<exists>token. proxy_steps env us (newProxyServer token) s)"

lemma run_start: "proxy_run env [] (newProxyServer token)"
  unfolding proxy_run_def by (blast intro: proxy_steps.refl)

lemma run_step: "proxy_run env us s \<Longrightarrow> proxy_step env ms s s' \<Longrightarrow> proxy_run env (us @ ms) s'"
  unfolding proxy_run_def by (blast intro: proxy_steps.step)

lemma run_connect: "proxy_run env us s \<Longrightarrow> proxy_run env us (snd (pxAddConnection c s))"
  using run_step[OF _ proxy_step.connect] by fastforce

lemma run_client: "proxy_run env us s \<Longrightarrow> proxy_run env us (snd (pxHandleClientToServerMessage env c msg s))"
  using run_step[OF _ proxy_step.client] by fastforce

lemma run_server:
  "proxy_run env us s \<Longrightarrow> proper_message msg s \<Longrightarrow> fst (handleServerToClientMessage env msg s) = Inr () \<Longrightarrow>
   proxy_run env (us @ [msg]) (snd (handleServerToClientMessage env msg s))"
  by (rule run_step, assumption, rule proxy_step.server) (simp_all add: prod_eq_iff)

lemma informed_start: "informed (replica []) (newProxyServer token)"
  by (simp add: newProxyServer_def newSubscriptionState_def faithful_def coherent_def typeFields_def replica_def map_at_def fun_eq_iff)

lemma step_informed:
  assumes "proxy_step env ms s s'" "proxy_env_ok env" "informed (replica us) s"
  shows "informed (replica (us @ ms)) s'"
  using assms
proof cases
  case (server msg)
  with assms informed_server show ?thesis by (simp add: replica_append)
qed (use assms clients.on_authenticate[of env "replica us"] clients.on_connect[of env "replica us"] clients.on_drop[of env "replica us"]
    clients.on_check[of env "replica us"] clients.on_client[of env "replica us"] in \<open>simp_all add: keeps_def\<close>)

lemma steps_informed:
  "proxy_steps env ms s s' \<Longrightarrow> proxy_env_ok env \<Longrightarrow> informed (replica us) s \<Longrightarrow> informed (replica (us @ ms)) s'"
proof (induction rule: proxy_steps.induct)
  case (step vs s s' ms s'')
  then show ?case using step_informed[of env ms s' s'' "us @ vs"] by simp
qed simp

lemma run_informed: "proxy_run env us s \<Longrightarrow> proxy_env_ok env \<Longrightarrow> informed (replica us) s"
  unfolding proxy_run_def using steps_informed[of env us _ s "[]"] informed_start by fastforce

end
