(* ===== verification/Proxy_Demo.thy ===== *)
theory Proxy_Demo
  imports Proxy_Runs "HOL-Library.Product_Lexorder" "HOL-Library.Option_ord" "HOL-Library.List_Lexorder" "HOL-Library.Char_ord"
begin

text \<open>
  A concrete environment for a proxy, and a concrete run: a client connects, authenticates, defines a schema and subscribes to its type; the
  main server answers, and then sends a transaction.
\<close>

section \<open>Environment\<close>

definition key_fields :: "SubscriptionKey \<Rightarrow> string \<times> string \<times> field_and_value \<times> bool" where
  "key_fields k = (sk_schema k, sk_typename k, sk_fieldname_and_value k, sk_isLazy k)"

definition key_of :: "string \<times> string \<times> field_and_value \<times> bool \<Rightarrow> SubscriptionKey" where
  "key_of = (\<lambda>(schema, typename, fv, lazy). \<lparr>sk_schema = schema, sk_typename = typename, sk_fieldname_and_value = fv, sk_isLazy = lazy\<rparr>)"

lemma key_of_fields [simp]: "key_of (key_fields k) = k"
  by (simp add: key_of_def key_fields_def)

definition demo_proxy_env :: proxyenv where
  "demo_proxy_env = pyenv.extend demo_env (proxyenv.fields
     (\<lambda>S. map key_of (sorted_list_of_set (key_fields ` S)))
     (\<lambda>S. map (\<lambda>(c, k). (c, key_of k)) (sorted_list_of_set ((\<lambda>(c, k). (c, key_fields k)) ` S)))
     (\<lambda>n. replicate n CHR ''x'') True True True)"

lemma good_iter_via:
  assumes "\<And>x. g (f x) = x"
  shows "good_iter (\<lambda>S. map g (sorted_list_of_set (f ` (S :: 'a set) :: 'b :: linorder set)))"
proof -
  have "set (map g (sorted_list_of_set (f ` S))) = S \<and> distinct (map g (sorted_list_of_set (f ` S)))" if "finite S" for S
    using that assms by (auto simp: image_image distinct_map inj_on_def)
  then show ?thesis by (simp add: good_iter_def)
qed

lemma demo_proxy_env_ok: "proxy_env_ok demo_proxy_env"
  using good_iter_via[of key_of key_fields] good_iter_via[of "\<lambda>(c, k). (c, key_of k)" "\<lambda>(c, k). (c, key_fields k)"]
  by (auto simp: proxy_env_ok_def demo_proxy_env_def demo_env_def pyenv.defs proxyenv.defs good_iter_def split: prod.split)

lemma demo_proxy_env_sel [simp]:
  "iterC demo_proxy_env = sorted_list_of_set" "iterI demo_proxy_env = sorted_list_of_set" "iterK demo_proxy_env = sorted_list_of_set"
  "iterP demo_proxy_env {(c, k)} = [(c, k)]" "uuid4 demo_proxy_env n = replicate n CHR ''x''"
  "listOfConverts demo_proxy_env"
  by (simp_all add: demo_proxy_env_def demo_env_def pyenv.defs proxyenv.defs)

section \<open>A run\<close>

definition demo_type :: SchemaDefinition where
  "demo_type = [(''T'', \<lparr>td_fields = [''x''], td_indices = []\<rparr>)]"

definition demo_mapping :: "(FieldDefinition \<times> FieldId) list" where
  "demo_mapping = [(FieldDefinition ''s'' ''T'' ''x'', 5)]"

definition demo_transaction :: transaction_msg where
  "demo_transaction = \<lparr>tm_writes = [(ObjectFieldId 100 5 False, Some [2])], tm_set_adds = [], tm_set_removes = [], tm_transaction_id = 8\<rparr>"

text \<open>The client is connected; it has authenticated and defined its schema; the schema is mapped and the client has subscribed; the data has arrived;
  the subscription is complete; the transaction has been handled.\<close>

definition demo_proxy1 :: ProxyServer where
  "demo_proxy1 = snd (pxAddConnection 1 (newProxyServer ''t''))"

definition demo_proxy2 :: ProxyServer where
  "demo_proxy2 = snd (pxHandleClientToServerMessage demo_proxy_env 1 (DefineSchema ''s'' demo_type)
     (snd (pxHandleClientToServerMessage demo_proxy_env 1 (Authenticate ''t'') (snd (handleServerToClientMessage demo_proxy_env (Initialize 0 10 0) demo_proxy1)))))"

definition demo_proxy3 :: ProxyServer where
  "demo_proxy3 = snd (pxHandleClientToServerMessage demo_proxy_env 1 (Subscribe ''s'' ''T'' None False)
     (snd (handleServerToClientMessage demo_proxy_env (SchemaMapping ''s'' demo_mapping) demo_proxy2)))"

definition demo_data :: ServerToClient where
  "demo_data = SubscriptionData ''s'' ''T'' None [ObjectFieldId 100 5 False \<mapsto> Some [1]] Map.empty None"

definition demo_proxy4 :: ProxyServer where
  "demo_proxy4 = snd (handleServerToClientMessage demo_proxy_env demo_data demo_proxy3)"

definition demo_proxy5 :: ProxyServer where
  "demo_proxy5 = snd (handleServerToClientMessage demo_proxy_env (SubscriptionComplete ''s'' ''T'' None 7) demo_proxy4)"

definition demo_proxy6 :: ProxyServer where
  "demo_proxy6 = snd (handleServerToClientMessage demo_proxy_env (Transaction demo_transaction) demo_proxy5)"

lemmas demo_proxies = demo_proxy1_def demo_proxy2_def demo_proxy3_def demo_proxy4_def demo_proxy5_def demo_proxy6_def

lemmas proxy_client_defs = pxAddConnection_def pxHandleClientToServerMessage_def handleServerToClientMessage_def onInitialize_def onAuthenticate_def
  handleAuthenticatedMessage_def onDefineSchema_def growSchema_def sendUp_def sendDown_def pxState_def zoomM_def ssSend_def
  onSubscribe_def subscribeType_def addSubscription_def pendSubscription_def newProxyServer_def newSubscriptionState_def demo_type_def map_at_def add_at_def set_at_def

lemmas proxy_server_defs = onSchemaMapping_def demo_mapping_def mapSchema_def mapField_def ssHandleSubscriptionData_def receiveValue_def putObjectValue_def
  demo_data_def onSubscriptionComplete_def ssHandleSubscriptionComplete_def completePending_def sendDataForSubscription_def objectIndentitiesForSubscriptionKey_def
  typeFields_def registerSubscription_def pxSubscribeField_def subscriptionMessage_def objectValuesForOids_def indexValuesForOids_def valuesFor_def
  demo_transaction_def ssHandleTransaction_def priorValues_def applyWrites_def affectedFields_def oidsMentioned_def affectedChannels_def lazyFieldSubscribers_def
  touchLazyFields_def announce_def Let_def

lemmas demo_run_defs = demo_proxies proxy_client_defs proxy_server_defs

lemma demo_runs:
  "fst (handleServerToClientMessage demo_proxy_env (Initialize 0 10 0) demo_proxy1) = Inr ()"
  "fst (handleServerToClientMessage demo_proxy_env (SchemaMapping ''s'' demo_mapping) demo_proxy2) = Inr ()"
  "fst (handleServerToClientMessage demo_proxy_env demo_data demo_proxy3) = Inr ()"
  "fst (handleServerToClientMessage demo_proxy_env (SubscriptionComplete ''s'' ''T'' None 7) demo_proxy4) = Inr ()"
  "fst (handleServerToClientMessage demo_proxy_env (Transaction demo_transaction) demo_proxy5) = Inr ()"
  by (simp_all add: demo_run_defs)

lemma demo_proper:
  "proper_message (Initialize 0 10 0) demo_proxy1" "proper_message (SchemaMapping ''s'' demo_mapping) demo_proxy2" "proper_message demo_data demo_proxy3"
  "proper_message (SubscriptionComplete ''s'' ''T'' None 7) demo_proxy4" "proper_message (Transaction demo_transaction) demo_proxy5"
  by (simp_all add: proper_message_def mapping_ok_def wellformed_transaction_def demo_run_defs)

definition demo_upstream :: "ServerToClient list" where
  "demo_upstream = [Initialize 0 10 0, SchemaMapping ''s'' demo_mapping, demo_data, SubscriptionComplete ''s'' ''T'' None 7, Transaction demo_transaction]"

lemma demo_proxy_run: "proxy_run demo_proxy_env demo_upstream demo_proxy6" "proxy_run demo_proxy_env (take 3 demo_upstream) demo_proxy4"
proof -
  have "proxy_run demo_proxy_env [] demo_proxy1" unfolding demo_proxy1_def by (intro run_start run_connect)
  from run_server[OF this demo_proper(1) demo_runs(1)] have "proxy_run demo_proxy_env [Initialize 0 10 0] demo_proxy2"
    unfolding demo_proxy2_def by (intro run_client) simp
  from run_server[OF this demo_proper(2) demo_runs(2)] have "proxy_run demo_proxy_env [Initialize 0 10 0, SchemaMapping ''s'' demo_mapping] demo_proxy3"
    unfolding demo_proxy3_def by (intro run_client) simp
  from run_server[OF this demo_proper(3) demo_runs(3)] show 4: "proxy_run demo_proxy_env (take 3 demo_upstream) demo_proxy4"
    by (simp add: demo_proxy4_def demo_upstream_def)
  from run_server[OF 4 demo_proper(4) demo_runs(4)] have "proxy_run demo_proxy_env (take 4 demo_upstream) demo_proxy5" by (simp add: demo_proxy5_def demo_upstream_def)
  from run_server[OF this demo_proper(5) demo_runs(5)] show "proxy_run demo_proxy_env demo_upstream demo_proxy6" by (simp add: demo_proxy6_def demo_upstream_def)
qed

lemma demo_subscribed:
  "1 \<in> field_subscribers (px_subscriptionState demo_proxy6) 5" "5 \<notin> set_at (ss_channelToLazilySubscribedFieldIds (px_subscriptionState demo_proxy6)) 1"
  by (simp_all add: demo_run_defs)

end
