(* ===== verification/Proxy_Routing.thy ===== *)
theory Proxy_Routing
  imports Proxy_Runs
begin

text \<open>
  How a proxy passes on flushes and transactions. It numbers them anew, and finds by the number whom an answer of the main server is
  for. The locale says what it takes for a property of this bookkeeping to hold in every run.
\<close>

section \<open>Properties of the bookkeeping\<close>

text \<open>Messages whose number the proxy chooses.\<close>

definition numbered :: "ClientToServer \<Rightarrow> bool" where
  "numbered msg \<longleftrightarrow> (case msg of Flush n \<Rightarrow> True | TransactionData t \<Rightarrow> True | CompleteTransaction v n l \<Rightarrow> True | _ \<Rightarrow> False)"

text \<open>The bookkeeping of \<open>s'\<close> is that of \<open>s\<close>, but for messages without numbers that have been sent.\<close>

definition same_books :: "ProxyServer \<Rightarrow> ProxyServer \<Rightarrow> bool" where
  "same_books s s' \<longleftrightarrow> px_flushGuidIx s' = px_flushGuidIx s \<and>
     px_outgoingFlushGuidToChannelAndFlushGuid s' = px_outgoingFlushGuidToChannelAndFlushGuid s \<and> px_transactionGuidIx s' = px_transactionGuidIx s \<and>
     px_channelAndTransactionGuidToOutgoingTransactionGuid s' = px_channelAndTransactionGuidToOutgoingTransactionGuid s \<and>
     px_outgoingTransactionGuidToChannelAndTransactionGuid s' = px_outgoingTransactionGuidToChannelAndTransactionGuid s \<and>
     filter numbered (px_upstream s') = filter numbered (px_upstream s)"

locale proxy_books =
  fixes I :: "ProxyServer \<Rightarrow> bool" and answers :: "ServerToClient set"
  assumes frame: "I s \<Longrightarrow> same_books s s' \<Longrightarrow> I s'"
    and flush: "keeps I (onFlush c guid)"
    and data: "keeps I (forwardTransactionData c t)"
    and complete: "keeps I (forwardCompleteTransaction c v guid l)"
    and flush_answer: "FlushResponse n \<in> answers \<Longrightarrow> keeps I (onFlushResponse n)"
    and result: "TransactionResult n ok k e \<in> answers \<Longrightarrow> keeps I (pxOnTransactionResult n ok k e)"
begin

lemma keeps_books: "(\<And>s. same_books s (f s)) \<Longrightarrow> keeps I (modify f)"
  by (rule keeps_modify) (blast intro: frame)

lemma keeps_pxState: "keeps I (pxState m)"
  unfolding pxState_def by (rule keeps_zoomM) (auto intro: frame simp: same_books_def)

lemma keeps_sendUp: "\<not> numbered msg \<Longrightarrow> keeps I (sendUp msg)"
  unfolding sendUp_def by (rule keeps_books) (simp add: same_books_def)

lemma keeps_closeDown: "keeps I (closeDown c)"
  unfolding closeDown_def by (rule keeps_books) (simp add: same_books_def)

lemma keeps_sendDown: "keeps I (sendDown c msg)"
  unfolding sendDown_def by (rule keeps_pxState)

lemmas books_rules = keeps_rules keeps_books keeps_pxState keeps_sendUp keeps_closeDown keeps_sendDown

lemma keeps_drop: "keeps I (pxDropConnection env c)"
  unfolding pxDropConnection_def by (intro books_rules) (simp_all add: same_books_def numbered_def)

lemma keeps_authenticate: "keeps I (authenticate coreDefinition)"
  unfolding authenticate_def by (intro books_rules) (simp_all add: same_books_def numbered_def)

lemma keeps_connect: "keeps I (pxAddConnection c)"
  unfolding pxAddConnection_def by (intro books_rules) (simp_all add: same_books_def)

lemma keeps_check: "keeps I (pxCheckForDeadConnections env)"
  unfolding pxCheckForDeadConnections_def checkDownstream_def pxAreHeartbeatsSuspended_def
  by (intro books_rules keeps_drop) (simp_all add: same_books_def)

lemma keeps_subscribeType: "keeps I (subscribeType schema typename)"
  unfolding subscribeType_def by (intro books_rules) (simp_all add: same_books_def numbered_def)

lemma keeps_defer: "keeps I m \<Longrightarrow> keeps I (deferTransaction c msg m)"
  unfolding deferTransaction_def by (intro books_rules)

lemma keeps_onDefineSchema: "keeps I (onDefineSchema c name d)"
  unfolding onDefineSchema_def growSchema_def by (intro books_rules) (simp_all add: same_books_def numbered_def)

lemma keeps_onSubscribe: "keeps I (onSubscribe env c schema typename fv isLazy)"
  unfolding onSubscribe_def by (intro books_rules keeps_subscribeType)

lemma keeps_onLoadLazyObject: "keeps I (onLoadLazyObject env c schema typename i)"
  unfolding onLoadLazyObject_def by (intro books_rules keeps_drop)

lemma keeps_onHeartbeat: "keeps I (onHeartbeat c)"
  unfolding onHeartbeat_def by (intro books_rules) (simp add: same_books_def)

lemma keeps_onAuthenticate: "keeps I (onAuthenticate env c token i)"
  unfolding onAuthenticate_def by (intro books_rules keeps_drop) (simp_all add: same_books_def numbered_def)

lemma keeps_authenticated: "keeps I (handleAuthenticatedMessage env c msg)"
  unfolding handleAuthenticatedMessage_def
  by (cases msg) (simp_all add: keeps_raise keeps_onDefineSchema keeps_subscribeType keeps_onSubscribe flush keeps_onLoadLazyObject
    keeps_defer data complete keeps_onHeartbeat)

lemma keeps_client: "keeps I (pxHandleClientToServerMessage env c msg)"
  unfolding pxHandleClientToServerMessage_def
  by (intro keeps_rules keeps_books; cases msg)
    (auto intro!: keeps_rules keeps_drop keeps_onAuthenticate keeps_authenticated simp: same_books_def)

lemma keeps_onInitialize: "keeps I (onInitialize env n i j)"
  unfolding onInitialize_def by (intro books_rules keeps_client) (simp_all add: same_books_def)

lemma keeps_onDependentConnectionId: "keeps I (onDependentConnectionId guid i j)"
  unfolding onDependentConnectionId_def by (intro books_rules) (simp_all add: same_books_def numbered_def)

lemma keeps_onSchemaMapping: "keeps I (onSchemaMapping env schema mapping)"
  unfolding onSchemaMapping_def by (intro books_rules) (simp_all add: same_books_def)

lemma keeps_onSubscriptionComplete: "keeps I (onSubscriptionComplete env schema typename tid)"
  unfolding onSubscriptionComplete_def by (intro books_rules keeps_client)

lemma keeps_server: "msg \<in> answers \<Longrightarrow> keeps I (handleServerToClientMessage env msg)"
  unfolding handleServerToClientMessage_def
  by (cases msg) (simp_all add: keeps_raise keeps_onInitialize keeps_onDependentConnectionId keeps_onSchemaMapping keeps_onSubscriptionComplete
    keeps_pxState flush_answer result)

lemma holds_after_step: "proxy_step env ms s s' \<Longrightarrow> set ms \<subseteq> answers \<Longrightarrow> I s \<Longrightarrow> I s'"
proof (induction rule: proxy_step.induct)
  case (server msg s s')
  then show ?case using keepsD[OF keeps_server, of msg s env "Inr ()" s'] by simp
qed (use keeps_authenticate keeps_connect keeps_drop keeps_check keeps_client in \<open>simp_all add: keeps_def\<close>)

lemma holds_after: "proxy_steps env ms s s' \<Longrightarrow> set ms \<subseteq> answers \<Longrightarrow> I s \<Longrightarrow> I s'"
  by (induction rule: proxy_steps.induct) (auto dest: holds_after_step)

end

section \<open>Numbers are fresh, entries stay\<close>

definition number_bounded :: "ProxyServer \<Rightarrow> ClientToServer \<Rightarrow> bool" where
  "number_bounded s msg \<longleftrightarrow> (case msg of Flush n \<Rightarrow> n \<le> px_flushGuidIx s | TransactionData t \<Rightarrow> tx_guid t \<le> px_transactionGuidIx s
     | CompleteTransaction v n l \<Rightarrow> n \<le> px_transactionGuidIx s | _ \<Rightarrow> True)"

definition numbers_bounded :: "ProxyServer \<Rightarrow> bool" where
  "numbers_bounded s \<longleftrightarrow> (\<forall>msg \<in> set (filter numbered (px_upstream s)). number_bounded s msg) \<and>
     (\<forall>x n. px_channelAndTransactionGuidToOutgoingTransactionGuid s x = Some n \<longrightarrow> n \<le> px_transactionGuidIx s)"

lemma outgoingGuid_run:
  "\<exists>g s'. outgoingGuid c guid s = (Inr g, s') \<and> px_flushGuidIx s' = px_flushGuidIx s \<and> px_upstream s' = px_upstream s \<and>
     px_outgoingFlushGuidToChannelAndFlushGuid s' = px_outgoingFlushGuidToChannelAndFlushGuid s \<and>
     px_subscriptionState s' = px_subscriptionState s \<and> px_transactionNum s' = px_transactionNum s \<and>
     (case px_channelAndTransactionGuidToOutgoingTransactionGuid s (c, guid) of
        Some n \<Rightarrow> g = n \<and> s' = s
      | None \<Rightarrow> g = px_transactionGuidIx s + 1 \<and> px_transactionGuidIx s' = g \<and>
          px_outgoingTransactionGuidToChannelAndTransactionGuid s' = (px_outgoingTransactionGuidToChannelAndTransactionGuid s)(g \<mapsto> (c, guid)) \<and>
          px_channelAndTransactionGuidToOutgoingTransactionGuid s' = (px_channelAndTransactionGuidToOutgoingTransactionGuid s)((c, guid) \<mapsto> g))"
  by (cases "px_channelAndTransactionGuidToOutgoingTransactionGuid s (c, guid)") (simp_all add: outgoingGuid_def)

lemma forward_run:
  obtains g s1 st msgs where "outgoingGuid c (tx_guid t) s = (Inr g, s1)"
    "snd (forwardTransactionData c t s) = s1\<lparr>px_subscriptionState := st, px_upstream := px_upstream s1 @ msgs\<rparr>"
    "set msgs \<subseteq> {TransactionData (t\<lparr>tx_guid := g\<rparr>)}"
proof -
  obtain g s1 where o: "outgoingGuid c (tx_guid t) s = (Inr g, s1)" using outgoingGuid_run by blast
  show thesis
  proof (cases "px_transactionNum s1")
    case None
    then show thesis using that[OF o, of "[]" "px_subscriptionState s1"] o by (simp add: forwardTransactionData_def)
  next
    case n: (Some tid)
    obtain r st where i: "increaseSubscriptionIfNecessary c (tx_set_adds t) tid (px_subscriptionState s1) = (r, st)" by fastforce
    show thesis
    proof (cases r)
      case (Inl e)
      then show thesis using that[OF o, of "[]" st] o i n by (simp add: forwardTransactionData_def pxState_def zoomM_def)
    next
      case (Inr u)
      then show thesis using that[OF o, of "[TransactionData (t\<lparr>tx_guid := g\<rparr>)]" st] o i n
        by (simp add: forwardTransactionData_def pxState_def zoomM_def sendUp_def)
    qed
  qed
qed

lemma same_books_bounded: "numbers_bounded s \<Longrightarrow> same_books s s' \<Longrightarrow> numbers_bounded s'"
proof -
  assume s: "numbers_bounded s" and b: "same_books s s'"
  have "px_flushGuidIx s' = px_flushGuidIx s" "px_transactionGuidIx s' = px_transactionGuidIx s" using b by (simp_all add: same_books_def)
  then have "number_bounded s' = number_bounded s" by (intro ext) (simp add: number_bounded_def split: ClientToServer.split)
  with s b show "numbers_bounded s'" unfolding numbers_bounded_def same_books_def by (simp del: split_paired_All set_filter)
qed

lemma bounded_mono:
  assumes "numbers_bounded s" "px_flushGuidIx s \<le> px_flushGuidIx s'" "px_transactionGuidIx s \<le> px_transactionGuidIx s'"
    "\<forall>msg \<in> set (px_upstream s'). numbered msg \<longrightarrow> msg \<in> set (px_upstream s) \<or> number_bounded s' msg"
    "\<forall>x n. px_channelAndTransactionGuidToOutgoingTransactionGuid s' x = Some n \<longrightarrow>
       n \<le> px_transactionGuidIx s' \<or> px_channelAndTransactionGuidToOutgoingTransactionGuid s x = Some n"
  shows "numbers_bounded s'"
proof -
  have old: "number_bounded s' msg" if "number_bounded s msg" for msg
    using that assms(2,3) unfolding number_bounded_def by (auto split: ClientToServer.splits)
  have "number_bounded s' msg" if "msg \<in> set (px_upstream s')" "numbered msg" for msg
    using assms(1,4) that old unfolding numbers_bounded_def by auto
  moreover have "n \<le> px_transactionGuidIx s'" if "px_channelAndTransactionGuidToOutgoingTransactionGuid s' x = Some n" for x n
    using assms(1,3,5) that unfolding numbers_bounded_def by (meson order_trans)
  ultimately show ?thesis unfolding numbers_bounded_def by auto
qed

interpretation bounded: proxy_books numbers_bounded UNIV
proof
  show "keeps numbers_bounded (onFlush c guid)" for c guid
    by (rule keepsI, rule bounded_mono) (auto simp: onFlush_def sendUp_def number_bounded_def)
  show "keeps numbers_bounded (forwardTransactionData c t)" for c t
  proof (rule keepsI)
    fix s assume s: "numbers_bounded s"
    obtain g s1 st msgs where f: "outgoingGuid c (tx_guid t) s = (Inr g, s1)"
      "snd (forwardTransactionData c t s) = s1\<lparr>px_subscriptionState := st, px_upstream := px_upstream s1 @ msgs\<rparr>"
      "set msgs \<subseteq> {TransactionData (t\<lparr>tx_guid := g\<rparr>)}" by (rule forward_run)
    have "g \<le> px_transactionGuidIx s1"
      using outgoingGuid_run[of c "tx_guid t" s] f(1) s by (auto simp: numbers_bounded_def split: option.splits)
    with outgoingGuid_run[of c "tx_guid t" s] f(1,3) show "numbers_bounded (snd (forwardTransactionData c t s))" unfolding f(2)
      by (intro bounded_mono[OF s]) (auto simp: number_bounded_def split: option.splits if_splits)
  qed
  show "keeps numbers_bounded (forwardCompleteTransaction c v guid l)" for c v guid l
  proof (rule keepsI)
    fix s assume s: "numbers_bounded s"
    then have "n \<le> px_transactionGuidIx s" if "px_channelAndTransactionGuidToOutgoingTransactionGuid s (c, guid) = Some n" for n
      using that by (auto simp: numbers_bounded_def)
    then show "numbers_bounded (snd (forwardCompleteTransaction c v guid l s))"
      by (intro bounded_mono[OF s]) (auto simp: forwardCompleteTransaction_def sendUp_def number_bounded_def split: option.splits if_splits)
  qed
  show "keeps numbers_bounded (onFlushResponse n)" for n
    unfolding onFlushResponse_def sendDown_def pxState_def
    by (intro keeps_rules keeps_modify keeps_zoomM) (auto simp: numbers_bounded_def number_bounded_def cong: ClientToServer.case_cong)
  show "keeps numbers_bounded (pxOnTransactionResult n ok k e)" for n ok k e
    unfolding pxOnTransactionResult_def sendDown_def pxState_def
    by (intro keeps_rules keeps_modify keeps_zoomM) (auto simp: numbers_bounded_def number_bounded_def cong: ClientToServer.case_cong)
qed (rule same_books_bounded)

lemma run_bounded: "proxy_run env us s \<Longrightarrow> numbers_bounded s"
  unfolding proxy_run_def using bounded.holds_after by (fastforce simp: newProxyServer_def numbers_bounded_def)

text \<open>The entry for a number stays until the answer with this number arrives.\<close>

definition flush_entry :: "int \<Rightarrow> chan \<times> int \<Rightarrow> ProxyServer \<Rightarrow> bool" where
  "flush_entry n x s \<longleftrightarrow> n \<le> px_flushGuidIx s \<and> px_outgoingFlushGuidToChannelAndFlushGuid s n = Some x"

definition transaction_entry :: "int \<Rightarrow> chan \<times> int \<Rightarrow> ProxyServer \<Rightarrow> bool" where
  "transaction_entry n x s \<longleftrightarrow> n \<le> px_transactionGuidIx s \<and> px_outgoingTransactionGuidToChannelAndTransactionGuid s n = Some x"

interpretation flushes: proxy_books "flush_entry n x" "- {FlushResponse n}" for n x
proof
  show "flush_entry n x s \<Longrightarrow> same_books s s' \<Longrightarrow> flush_entry n x s'" for s s' by (simp add: flush_entry_def same_books_def)
  show "keeps (flush_entry n x) (onFlush c guid)" for c guid by (rule keepsI) (simp add: onFlush_def sendUp_def flush_entry_def)
  show "keeps (flush_entry n x) (forwardTransactionData c t)" for c t
  proof (rule keepsI)
    fix s assume s: "flush_entry n x s"
    obtain g s1 st msgs where f: "outgoingGuid c (tx_guid t) s = (Inr g, s1)"
      "snd (forwardTransactionData c t s) = s1\<lparr>px_subscriptionState := st, px_upstream := px_upstream s1 @ msgs\<rparr>" by (rule forward_run)
    with s outgoingGuid_run[of c "tx_guid t" s] show "flush_entry n x (snd (forwardTransactionData c t s))" by (auto simp: flush_entry_def)
  qed
  show "keeps (flush_entry n x) (forwardCompleteTransaction c v guid l)" for c v guid l
    by (rule keepsI) (simp add: forwardCompleteTransaction_def sendUp_def flush_entry_def split: option.splits)
  show "keeps (flush_entry n x) (onFlushResponse k)" if "FlushResponse k \<in> - {FlushResponse n}" for k
    using that by (intro keepsI) (auto simp: onFlushResponse_def sendDown_def pxState_def zoomM_def flush_entry_def split: option.splits prod.splits)
  show "keeps (flush_entry n x) (pxOnTransactionResult k ok b e)" for k ok b e
    by (rule keepsI) (auto simp: pxOnTransactionResult_def sendDown_def pxState_def zoomM_def flush_entry_def split: option.splits prod.splits)
qed

interpretation transactions: proxy_books "transaction_entry n x" "- {TransactionResult n ok b e | ok b e. True}" for n x
proof
  show "transaction_entry n x s \<Longrightarrow> same_books s s' \<Longrightarrow> transaction_entry n x s'" for s s' by (simp add: transaction_entry_def same_books_def)
  show "keeps (transaction_entry n x) (onFlush c guid)" for c guid by (rule keepsI) (simp add: onFlush_def sendUp_def transaction_entry_def)
  show "keeps (transaction_entry n x) (forwardTransactionData c t)" for c t
  proof (rule keepsI)
    fix s assume s: "transaction_entry n x s"
    obtain g s1 st msgs where f: "outgoingGuid c (tx_guid t) s = (Inr g, s1)"
      "snd (forwardTransactionData c t s) = s1\<lparr>px_subscriptionState := st, px_upstream := px_upstream s1 @ msgs\<rparr>" by (rule forward_run)
    with s outgoingGuid_run[of c "tx_guid t" s] show "transaction_entry n x (snd (forwardTransactionData c t s))"
      by (auto simp: transaction_entry_def split: option.splits)
  qed
  show "keeps (transaction_entry n x) (forwardCompleteTransaction c v guid l)" for c v guid l
    by (rule keepsI) (simp add: forwardCompleteTransaction_def sendUp_def transaction_entry_def split: option.splits)
  show "keeps (transaction_entry n x) (onFlushResponse k)" for k
    by (rule keepsI) (auto simp: onFlushResponse_def sendDown_def pxState_def zoomM_def transaction_entry_def split: option.splits prod.splits)
  show "keeps (transaction_entry n x) (pxOnTransactionResult k ok b e)" if "TransactionResult k ok b e \<in> - {TransactionResult n ok b e | ok b e. True}" for k ok b e
    using that by (intro keepsI) (auto simp: pxOnTransactionResult_def sendDown_def pxState_def zoomM_def transaction_entry_def split: option.splits prod.splits)
qed

section \<open>Answers find their way\<close>

text \<open>What the state is after a message has been sent to a client.\<close>

abbreviation sent_down :: "chan \<Rightarrow> ServerToClient \<Rightarrow> ProxyServer \<Rightarrow> ProxyServer" where
  "sent_down c msg s \<equiv> snd (sendDown c msg s)"

lemma flush_answered:
  assumes "flush_entry n (c, g) s" "proxy_steps env ms s s'" "FlushResponse n \<notin> set ms"
  shows "handleServerToClientMessage env (FlushResponse n) s' =
    (Inr (), sent_down c (FlushResponse g) (s'\<lparr>px_outgoingFlushGuidToChannelAndFlushGuid := (px_outgoingFlushGuidToChannelAndFlushGuid s')(n := None)\<rparr>))"
proof -
  have "flush_entry n (c, g) s'" by (rule flushes.holds_after[OF assms(2) _ assms(1)]) (use assms(3) in auto)
  then show ?thesis by (simp add: flush_entry_def handleServerToClientMessage_def onFlushResponse_def sendDown_def pxState_def zoomM_def ssSend_def)
qed

lemma transaction_answered:
  assumes "transaction_entry n (c, g) s" "proxy_steps env ms s s'" "\<And>ok b e. TransactionResult n ok b e \<notin> set ms"
  shows "handleServerToClientMessage env (TransactionResult n ok b e) s' =
    (Inr (), sent_down c (TransactionResult g ok b e) (s'\<lparr>px_outgoingTransactionGuidToChannelAndTransactionGuid :=
       (px_outgoingTransactionGuidToChannelAndTransactionGuid s')(n := None)\<rparr>))"
proof -
  have "transaction_entry n (c, g) s'" by (rule transactions.holds_after[OF assms(2) _ assms(1)]) (use assms(3) in auto)
  then show ?thesis by (simp add: transaction_entry_def handleServerToClientMessage_def pxOnTransactionResult_def sendDown_def pxState_def zoomM_def ssSend_def)
qed

text \<open>A message of a client that the proxy is ready to handle.\<close>

definition at_work :: "chan \<Rightarrow> ProxyServer \<Rightarrow> bool" where
  "at_work c s \<longleftrightarrow> c \<in> px_downstreamChannels s \<and> c \<in> px_authenticatedDownstreamChannels s \<and> px_connectionIdentity s \<noteq> None"

lemma flush_forwarded:
  assumes "proxy_run env us s" "at_work c s" "pxHandleClientToServerMessage env c (Flush g) s = (r, s1)"
  shows "r = Inr () \<and> px_upstream s1 = px_upstream s @ [Flush (px_flushGuidIx s1)] \<and> Flush (px_flushGuidIx s1) \<notin> set (px_upstream s) \<and>
    flush_entry (px_flushGuidIx s1) (c, g) s1"
proof -
  have "Flush (px_flushGuidIx s + 1) \<notin> set (px_upstream s)"
    using run_bounded[OF assms(1)] by (force simp: numbers_bounded_def numbered_def number_bounded_def)
  with assms(2,3) show ?thesis
    by (auto simp: at_work_def pxHandleClientToServerMessage_def handleAuthenticatedMessage_def onFlush_def sendUp_def flush_entry_def)
qed

definition carries_number :: "int \<Rightarrow> ClientToServer \<Rightarrow> bool" where
  "carries_number n msg \<longleftrightarrow> (case msg of TransactionData t \<Rightarrow> tx_guid t = n | CompleteTransaction v m l \<Rightarrow> m = n | _ \<Rightarrow> False)"

lemma transaction_forwarded:
  assumes "proxy_run env us s" "at_work c s" "ss_channelToPendingSubscriptions (px_subscriptionState s) c = None"
    "px_channelAndTransactionGuidToOutgoingTransactionGuid s (c, tx_guid t) = None" "pxHandleClientToServerMessage env c (TransactionData t) s = (Inr (), s1)"
  shows "px_upstream s1 = px_upstream s @ [TransactionData (t\<lparr>tx_guid := px_transactionGuidIx s1\<rparr>)] \<and>
    filter (carries_number (px_transactionGuidIx s1)) (px_upstream s) = [] \<and> transaction_entry (px_transactionGuidIx s1) (c, tx_guid t) s1"
proof -
  have run: "forwardTransactionData c t s = (Inr (), s1)"
    using assms(2,3,5) by (auto simp: at_work_def pxHandleClientToServerMessage_def handleAuthenticatedMessage_def deferTransaction_def)
  obtain g s0 where o: "outgoingGuid c (tx_guid t) s = (Inr g, s0)" "g = px_transactionGuidIx s + 1" "px_transactionGuidIx s0 = g" "px_upstream s0 = px_upstream s"
      "px_outgoingTransactionGuidToChannelAndTransactionGuid s0 = (px_outgoingTransactionGuidToChannelAndTransactionGuid s)(g \<mapsto> (c, tx_guid t))"
    using outgoingGuid_run[of c "tx_guid t" s] assms(4) by auto
  have e: "px_upstream s1 = px_upstream s @ [TransactionData (t\<lparr>tx_guid := g\<rparr>)]" "px_transactionGuidIx s1 = g" "transaction_entry g (c, tx_guid t) s1"
    using run o by (auto simp: forwardTransactionData_def pyM_ok pxState_def sendUp_def transaction_entry_def split: option.splits)
  have "\<not> carries_number g msg" if "msg \<in> set (px_upstream s)" for msg
  proof -
    have "numbered msg \<longrightarrow> number_bounded s msg" using run_bounded[OF assms(1)] that by (simp add: numbers_bounded_def)
    then show ?thesis using o(2) by (cases msg) (auto simp: number_bounded_def numbered_def carries_number_def)
  qed
  then show ?thesis using e by (simp add: filter_empty_conv)
qed

end
