(* ===== verification/Proxy_Pending.thy ===== *)
theory Proxy_Pending
  imports Proxy_Runs
begin

text \<open>
  Subscriptions that wait for the main server to complete the subscription of the proxy to their type. The two dictionaries in which
  the proxy notes them agree, and when the type is complete every one of them is served.
\<close>

section \<open>The dictionaries of pending subscriptions\<close>

abbreviation waiting :: "SubscriptionState \<Rightarrow> string \<times> string \<Rightarrow> (chan \<times> SubscriptionKey) set" where
  "waiting s \<equiv> set_at (ss_subscriptionsPendingSubscriptionOnServer s)"

abbreviation key_type :: "SubscriptionKey \<Rightarrow> string \<times> string" where
  "key_type key \<equiv> (sk_schema key, sk_typename key)"

definition pending_ok :: "SubscriptionState \<Rightarrow> bool" where
  "pending_ok s \<longleftrightarrow> (\<forall>st. \<forall>p \<in> waiting s st. key_type (snd p) = st \<and> snd p \<in> set_at (ss_channelToPendingSubscriptions s) (fst p)) \<and>
     (\<forall>st. finite (waiting s st)) \<and> (\<forall>c. finite (set_at (ss_channelToPendingSubscriptions s) c))"

lemma pending_okD:
  assumes "pending_ok s"
  shows "p \<in> waiting s st \<Longrightarrow> key_type (snd p) = st" "p \<in> waiting s st \<Longrightarrow> snd p \<in> set_at (ss_channelToPendingSubscriptions s) (fst p)"
    "finite (waiting s st)" "finite (set_at (ss_channelToPendingSubscriptions s) c)"
  using assms unfolding pending_ok_def by blast+

lemma pending_okI:
  assumes "\<And>p st. p \<in> waiting s st \<Longrightarrow> key_type (snd p) = st" "\<And>p st. p \<in> waiting s st \<Longrightarrow> snd p \<in> set_at (ss_channelToPendingSubscriptions s) (fst p)"
    "\<And>st. finite (waiting s st)" "\<And>c. finite (set_at (ss_channelToPendingSubscriptions s) c)"
  shows "pending_ok s"
  using assms unfolding pending_ok_def by blast

lemma set_at_removed [simp]: "set_at (m(k := None)) j = (if j = k then {} else set_at m j)"
  by (simp add: set_at_def)

text \<open>Operations that leave both alone.\<close>

abbreviation pending_is :: "(string \<times> string \<rightharpoonup> (chan \<times> SubscriptionKey) set) \<Rightarrow> (chan \<rightharpoonup> SubscriptionKey set) \<Rightarrow> SubscriptionState \<Rightarrow> bool" where
  "pending_is X Y s \<equiv> ss_subscriptionsPendingSubscriptionOnServer s = X \<and> ss_channelToPendingSubscriptions s = Y"

lemma pending_frame: "(\<And>X Y. keeps (pending_is X Y) m) \<Longrightarrow> keeps pending_ok m"
proof (rule keepsI)
  fix s assume m: "\<And>X Y. keeps (pending_is X Y) m" and s: "pending_ok s"
  have "pending_is (ss_subscriptionsPendingSubscriptionOnServer s) (ss_channelToPendingSubscriptions s) (snd (m s))"
    using m[of "ss_subscriptionsPendingSubscriptionOnServer s" "ss_channelToPendingSubscriptions s"] by (simp add: keeps_def)
  with s show "pending_ok (snd (m s))" by (simp add: pending_ok_def)
qed

named_theorems pending_rules "operations that do not touch the pending subscriptions"

lemma pending_send [pending_rules]: "keeps (pending_is X Y) (ssSend c msg)"
  unfolding ssSend_def by (rule keeps_modify) simp

lemma pending_sendData [pending_rules]: "keeps (pending_is X Y) (sendDataForSubscription env c key)"
  unfolding sendDataForSubscription_def registerSubscription_def
  by (auto intro!: keeps_rules keeps_modify pending_rules simp: pxSubscribeIndex_def subscribeOids_def pxSubscribeField_def split: sum.split option.split)

lemma pending_increase [pending_rules]: "keeps (pending_is X Y) (increaseSubscriptionIfNecessary c set_adds tid)"
  unfolding increaseSubscriptionIfNecessary_def increaseForCreated_def
  by (intro keeps_rules keeps_modify pending_rules) (auto simp: increaseOids_def)

lemma pending_lazyLoad [pending_rules]: "keeps (pending_is X Y) (lazyLoadObject c schema typename i)"
  unfolding lazyLoadObject_def by (intro keeps_rules pending_rules)

lemma pending_getObjectValue [pending_rules]: "keeps (pending_is X Y) (getObjectValue env f i)"
  unfolding getObjectValue_def by (intro keeps_rules keeps_modify) simp

lemma pending_mapSchema [pending_rules]: "keeps (pending_is X Y) (mapSchema schema mapping)"
  unfolding mapSchema_def by (intro keeps_rules keeps_modify) (auto simp: mapField_def Let_def split: prod.splits)

lemma pending_data [pending_rules]: "keeps (pending_is X Y) (ssHandleSubscriptionData env vals ivs)"
  unfolding ssHandleSubscriptionData_def receiveValue_def receiveIndexValue_def
  by (intro keeps_rules keeps_modify) (auto simp: putObjectValue_def putIndexValue_def)

lemma pending_addToIndex [pending_rules]: "keeps (pending_is X Y) (addToIndex env tid p acc)"
  unfolding addToIndex_def increaseChannel_def
  by (intro keeps_rules keeps_modify pending_rules) (auto simp: increaseOids_def applyAdd_def Let_def split: prod.splits)

lemma pending_broadcast [pending_rules]: "keeps (pending_is X Y) (pxIncreaseBroadcast env p acc)"
  unfolding pxIncreaseBroadcast_def by (intro keeps_rules)

lemma pending_applyWrites: "pending_is X Y s \<Longrightarrow> pending_is X Y (applyWrites writes s)"
  by (subst (1 2) applyWrites_frame) simp

lemma pending_transaction [pending_rules]: "keeps (pending_is X Y) (ssHandleTransaction env writes set_adds set_removes tid)"
  unfolding ssHandleTransaction_def announce_def Let_def
  by (intro keeps_rules keeps_modify pending_rules)
    (auto simp: pending_applyWrites applyRemove_def touchLazyFields_def Let_def split: prod.splits)

lemma pending_drops [pending_rules]:
  "keeps (pending_is X Y) (dropField c f)" "keeps (pending_is X Y) (dropIndex c ix)" "keeps (pending_is X Y) (dropOid c oid)"
  by (rule keepsI; simp add: dropField_def dropIndex_def dropOid_def split: sum.split)+

section \<open>They agree in every run\<close>

lemma pending_addSubscription: "keeps pending_ok (addSubscription env c key)"
proof -
  have "pending_ok (pendSubscription c key s)" if "pending_ok s" for s
    using that unfolding pending_ok_def pendSubscription_def by (auto split: if_splits)
  moreover have "pending_ok (s\<lparr>ss_channelSubscriptions := d\<rparr>)" if "pending_ok s" for s d using that by (simp add: pending_ok_def)
  ultimately show ?thesis unfolding addSubscription_def
    by (intro keeps_rules keeps_modify pending_frame pending_rules)
qed

lemma dropPendings:
  assumes "forM ks (dropPending env c) s = (r, s')"
  shows "ss_channelToPendingSubscriptions s' = ss_channelToPendingSubscriptions s \<and> (\<forall>st. waiting s' st \<subseteq> waiting s st) \<and>
    (r = Inr () \<longrightarrow> (\<forall>k \<in> set ks. (c, k) \<notin> waiting s' (key_type k)))"
  using assms
proof (induction ks arbitrary: s)
  case (Cons k ks)
  obtain r1 s1 where k: "dropPending env c k s = (r1, s1)" by fastforce
  have 1: "ss_channelToPendingSubscriptions s1 = ss_channelToPendingSubscriptions s" "\<forall>st. waiting s1 st \<subseteq> waiting s st" "r1 = Inr () \<Longrightarrow> (c, k) \<notin> waiting s1 (key_type k)"
    using k by (auto simp: dropPending_def set_at_def split: option.splits if_splits)
  show ?case
  proof (cases r1)
    case (Inl e)
    with k Cons.prems 1 show ?thesis by auto
  next
    case (Inr u)
    then have "forM ks (dropPending env c) s1 = (r, s')" using k Cons.prems by simp
    note ih = Cons.IH[OF this]
    have "waiting s' st \<subseteq> waiting s st" for st using ih 1(2) by blast
    moreover have "(c, k) \<notin> waiting s' (key_type k)" using ih 1(3) Inr by (simp del: split_paired_All) blast
    ultimately show ?thesis using ih 1(1) by simp
  qed
qed simp

lemma pending_after_drops:
  assumes s: "pending_ok s" and env: "proxy_env_ok env"
  shows "pending_ok (snd (thenM (forM (iterS env (set_at (ss_channelToPendingSubscriptions s) c)) (dropPending env c))
    (modify (\<lambda>s. s\<lparr>ss_channelToPendingSubscriptions := (ss_channelToPendingSubscriptions s)(c := None),
       ss_channelToLazilySubscribedFieldIds := (ss_channelToLazilySubscribedFieldIds s)(c := None),
       ss_channelToLazilySubscribedIndexIds := (ss_channelToLazilySubscribedIndexIds s)(c := None)\<rparr>)) s))"
proof -
  let ?ks = "iterS env (set_at (ss_channelToPendingSubscriptions s) c)"
  obtain r s' where r: "forM ?ks (dropPending env c) s = (r, s')" by fastforce
  note d = dropPendings[OF r]
  have ks: "set ?ks = set_at (ss_channelToPendingSubscriptions s) c" using env pending_okD(4)[OF s] by (simp add: proxy_env_ok_def good_iter_def)
  have sub: "waiting s' st \<subseteq> waiting s st" for st using d by blast
  have fin: "finite (waiting s' st)" for st by (rule finite_subset[OF sub pending_okD(3)[OF s]])
  have same: "ss_channelToPendingSubscriptions s' = ss_channelToPendingSubscriptions s" using d by blast
  have in_s: "p \<in> waiting s st" if "p \<in> waiting s' st" for p st using sub that by blast
  show ?thesis
  proof (cases r)
    case (Inl e)
    have "pending_ok s'" unfolding pending_ok_def same using fin in_s pending_okD[OF s] by blast
    with r Inl show ?thesis by simp
  next
    case (Inr u)
    have "fst p \<noteq> c" if "p \<in> waiting s' st" for p st
      using d Inr ks that pending_okD(1,2)[OF s in_s[OF that]] by (cases p) auto
    then have "pending_ok (s'\<lparr>ss_channelToPendingSubscriptions := (ss_channelToPendingSubscriptions s')(c := None), ss_channelToLazilySubscribedFieldIds := X,
       ss_channelToLazilySubscribedIndexIds := Y\<rparr>)" for X Y
      using fin pending_okD(1,2)[OF s in_s] pending_okD(4)[OF s] same by (intro pending_okI) simp_all
    with r Inr show ?thesis by simp
  qed
qed

lemma pending_drop:
  assumes "proxy_env_ok env"
  shows "keeps pending_ok (ssDropConnection env c)"
proof -
  have last: "keeps pending_ok (bindM (gets (\<lambda>s. set_at (ss_channelToPendingSubscriptions s) c)) (\<lambda>pending.
      thenM (forM (iterS env pending) (dropPending env c))
        (modify (\<lambda>s. s\<lparr>ss_channelToPendingSubscriptions := (ss_channelToPendingSubscriptions s)(c := None),
           ss_channelToLazilySubscribedFieldIds := (ss_channelToLazilySubscribedFieldIds s)(c := None),
           ss_channelToLazilySubscribedIndexIds := (ss_channelToLazilySubscribedIndexIds s)(c := None)\<rparr>))))"
    using pending_after_drops[OF _ assms] by (intro keepsI) simp
  have parts: "keeps pending_ok (dropField c f)" "keeps pending_ok (dropIndex c ix)" "keeps pending_ok (dropOid c oid)" for f ix oid
    by (intro pending_frame pending_rules)+
  show ?thesis unfolding ssDropConnection_def
    by (intro last parts keeps_bindM keeps_gets keeps_thenM keeps_forM keeps_modify) (simp_all add: pending_ok_def)
qed

lemma pending_completePending:
  assumes "key_type (snd p) = st"
  shows "keeps (\<lambda>s. pending_ok s \<and> waiting s st = {}) (completePending env p out)"
proof -
  obtain c key where p: "p = (c, key)" by fastforce
  have less: "pending_ok (s\<lparr>ss_channelToPendingSubscriptions := (ss_channelToPendingSubscriptions s)(c \<mapsto> m - {key})\<rparr>)"
    if s: "pending_ok s" "waiting s st = {}" and m: "ss_channelToPendingSubscriptions s c = Some m" for s m
  proof -
    have old: "set_at (ss_channelToPendingSubscriptions s) c = m" using m by (simp add: set_at_def)
    have "snd q \<in> m - {key}" if q: "q \<in> waiting s st'" "fst q = c" for q st'
    proof -
      have "st' \<noteq> st" using q(1) s(2) by blast
      with pending_okD(1)[OF s(1) q(1)] assms p have "snd q \<noteq> key" by auto
      with pending_okD(2)[OF s(1) q(1)] q(2) old show ?thesis by simp
    qed
    moreover have "finite m" using pending_okD(4)[OF s(1), of c] old by simp
    ultimately show ?thesis using pending_okD[OF s(1)] by (intro pending_okI) auto
  qed
  have forget: "pending_ok (s\<lparr>ss_channelToPendingSubscriptions := (ss_channelToPendingSubscriptions s)(c := None), ss_channelToPendingTransactions := t\<rparr>)"
    if s: "pending_ok s" "set_at (ss_channelToPendingSubscriptions s) c = {}" for s t
  proof -
    have "fst q \<noteq> c" if "q \<in> waiting s st'" for q st' using pending_okD(2)[OF s(1) that] s(2) by auto
    then show ?thesis using pending_okD[OF s(1)] by (intro pending_okI) simp_all
  qed
  have send: "keeps (\<lambda>s. pending_ok s \<and> waiting s st = {}) (sendDataForSubscription env c key)"
  proof (rule keepsI)
    fix s assume "pending_ok s \<and> waiting s st = {}"
    moreover have "pending_is (ss_subscriptionsPendingSubscriptionOnServer s) (ss_channelToPendingSubscriptions s) (snd (sendDataForSubscription env c key s))"
      using pending_sendData[of "ss_subscriptionsPendingSubscriptionOnServer s" "ss_channelToPendingSubscriptions s" env c key] by (simp add: keeps_def)
    ultimately show "pending_ok (snd (sendDataForSubscription env c key s)) \<and> waiting (snd (sendDataForSubscription env c key s)) st = {}"
      by (simp add: pending_ok_def)
  qed
  let ?tail = "bindM (gets (\<lambda>s. (set_at (ss_channelToPendingSubscriptions s) c, ss_channelToPendingTransactions s c))) (\<lambda>(left, msgs).
        if left = {}
        then thenM (modify (\<lambda>s. s\<lparr>ss_channelToPendingSubscriptions := (ss_channelToPendingSubscriptions s)(c := None),
                 ss_channelToPendingTransactions := (ss_channelToPendingTransactions s)(c := None)\<rparr>))
               (case msgs of None \<Rightarrow> ret out | Some m \<Rightarrow> if listOfConverts env then ret (AList.update c m out) else raise TypeError)
        else ret out)"
  have tail: "keeps (\<lambda>s. pending_ok s \<and> waiting s st = {}) ?tail"
  proof (rule keepsI)
    fix s assume s: "pending_ok s \<and> waiting s st = {}"
    show "pending_ok (snd (?tail s)) \<and> waiting (snd (?tail s)) st = {}"
    proof (cases "set_at (ss_channelToPendingSubscriptions s) c = {}")
      case True
      then show ?thesis using forget[OF _ True] s by (cases "ss_channelToPendingTransactions s c"; cases "listOfConverts env") simp_all
    qed (use s in simp)
  qed
  show ?thesis
  proof (rule keepsI)
    fix s assume s: "pending_ok s \<and> waiting s st = {}"
    show "pending_ok (snd (completePending env p out s)) \<and> waiting (snd (completePending env p out s)) st = {}"
    proof (cases "ss_channelToPendingSubscriptions s c")
      case None
      with s p show ?thesis by (simp add: completePending_def)
    next
      case (Some m)
      let ?s = "s\<lparr>ss_channelToPendingSubscriptions := (ss_channelToPendingSubscriptions s)(c \<mapsto> m - {key})\<rparr>"
      have run: "completePending env p out s = thenM (sendDataForSubscription env c key) ?tail ?s" using Some p by (simp add: completePending_def)
      have "pending_ok ?s \<and> waiting ?s st = {}" using less[OF _ _ Some] s by simp
      with keeps_thenM[OF send tail] show ?thesis unfolding keeps_def run by blast
    qed
  qed
qed

lemma pending_complete:
  assumes env: "proxy_env_ok env"
  shows "keeps pending_ok (ssHandleSubscriptionComplete env schema typename tid)"
proof (rule keepsI)
  fix s assume s: "pending_ok s"
  let ?st = "(schema, typename)"
  let ?s = "s\<lparr>ss_transactionId := max tid (ss_transactionId s), ss_completedTypes := insert ?st (ss_completedTypes s),
    ss_subscriptionsPendingSubscriptionOnServer := (ss_subscriptionsPendingSubscriptionOnServer s)(?st := None)\<rparr>"
  have start: "pending_ok ?s \<and> waiting ?s ?st = {}" 
    using pending_okD[OF s] by (auto intro!: pending_okI split: if_splits)
  have "keeps (\<lambda>s. pending_ok s \<and> waiting s ?st = {}) (foldMl (completePending env) (iterP env (waiting s ?st)) [])"
  proof (rule keeps_foldMl)
    fix p b assume "p \<in> set (iterP env (waiting s ?st))"
    then have "key_type (snd p) = ?st" using env pending_okD(1,3)[OF s] by (auto simp: proxy_env_ok_def good_iter_def)
    then show "keeps (\<lambda>s. pending_ok s \<and> waiting s ?st = {}) (completePending env p b)" by (rule pending_completePending)
  qed
  with start show "pending_ok (snd (ssHandleSubscriptionComplete env schema typename tid s))" by (simp add: ssHandleSubscriptionComplete_def keeps_def)
qed

interpretation pending: proxy_clients env "\<lambda>s. proxy_env_ok env \<longrightarrow> pending_ok s" for env
proof (unfold_locales; intro keeps_guarded)
  show "keeps pending_ok (modify (\<lambda>t. t\<lparr>ss_definedSchemas := g t\<rparr>))" "keeps pending_ok (modify (\<lambda>t. t\<lparr>ss_channelToPendingTransactions := g' t\<rparr>))" for g g'
    by (rule keeps_modify; simp add: pending_ok_def)+
qed (intro pending_addSubscription pending_drop pending_complete pending_frame pending_rules; assumption)+

lemma run_pending: "proxy_run env us s \<Longrightarrow> proxy_env_ok env \<Longrightarrow> pending_ok (px_subscriptionState s)"
proof -
  have step: "pending_ok (px_subscriptionState s')" if "proxy_step env ms s s'" "proxy_env_ok env" "pending_ok (px_subscriptionState s)" for ms s s'
    using that
  proof cases
    case (server msg)
    have frames: "keeps pending_ok (mapSchema a m)" "keeps pending_ok (ssHandleSubscriptionData env v i)" "keeps pending_ok (ssHandleTransaction env w x y z)" for a m v i w x y z
      by (intro pending_frame pending_rules)+
    show ?thesis using pending.on_server[OF _ server(3)] that(2,3) frames by (auto simp: keeps_def)
  qed (use that pending.on_authenticate[of env] pending.on_connect[of env] pending.on_drop[of env] pending.on_check[of env] pending.on_client[of env]
    in \<open>simp_all add: keeps_def\<close>)
  have "pending_ok (px_subscriptionState s')" if "proxy_steps env ms s s'" "proxy_env_ok env" "pending_ok (px_subscriptionState s)" for ms s s'
    using that by (induction rule: proxy_steps.induct) (auto dest: step)
  moreover have "pending_ok (px_subscriptionState (newProxyServer token))" for token by (simp add: newProxyServer_def newSubscriptionState_def pending_ok_def)
  ultimately show "proxy_run env us s \<Longrightarrow> proxy_env_ok env \<Longrightarrow> pending_ok (px_subscriptionState s)" unfolding proxy_run_def by blast
qed

section \<open>Serving a subscription\<close>

text \<open>A subscription the proxy can serve: its type is mapped, and so is the index it is for, or the object it names can be read.\<close>

definition servable :: "proxyenv \<Rightarrow> SubscriptionState \<Rightarrow> SubscriptionKey \<Rightarrow> bool" where
  "servable env s key \<longleftrightarrow> (case typeFields s (sk_schema key) (sk_typename key) of None \<Rightarrow> False
     | Some names \<Rightarrow> (case sk_fieldname_and_value key of None \<Rightarrow> True
       | Some (n, iv) \<Rightarrow> if n = ''_identity'' then deser_ObjectBase env iv \<noteq> None else map_of names n \<noteq> None))"

definition type_fields :: "SubscriptionState \<Rightarrow> SubscriptionKey \<Rightarrow> FieldId set" where
  "type_fields s key = (case typeFields s (sk_schema key) (sk_typename key) of None \<Rightarrow> {} | Some names \<Rightarrow> snd ` set names)"

text \<open>What serving subscriptions changes: there are more subscribers and more messages.\<close>

definition serving :: "SubscriptionState \<Rightarrow> SubscriptionState \<Rightarrow> bool" where
  "serving s s' \<longleftrightarrow> ss_schemaTypeAndNameToFieldId s' = ss_schemaTypeAndNameToFieldId s \<and> ss_transactionId s' = ss_transactionId s \<and>
     (\<forall>f. field_subscribers s f \<subseteq> field_subscribers s' f) \<and> (\<forall>c. \<exists>ms. ss_outbox s' c = ss_outbox s c @ ms)"

lemma serving_refl: "serving s s"
  by (simp add: serving_def)

lemma serving_trans:
  assumes "serving s s'" "serving s' s''"
  shows "serving s s''"
proof -
  have "\<exists>ms. ss_outbox s'' c = ss_outbox s c @ ms" for c
  proof -
    obtain ms ns where "ss_outbox s' c = ss_outbox s c @ ms" "ss_outbox s'' c = ss_outbox s' c @ ns" using assms unfolding serving_def by blast
    then show ?thesis by simp
  qed
  moreover have "field_subscribers s f \<subseteq> field_subscribers s'' f" for f using assms unfolding serving_def by blast
  ultimately show ?thesis using assms unfolding serving_def by simp
qed

lemma serving_servable: "serving s s' \<Longrightarrow> servable env s' key = servable env s key" "serving s s' \<Longrightarrow> type_fields s' key = type_fields s key"
  by (simp_all add: serving_def servable_def type_fields_def typeFields_def)

text \<open>The subscription has been served between \<open>s\<close> and \<open>s'\<close>: the client was told that it is complete, and is a subscriber of all fields of the type
  if it asked for the whole type.\<close>

definition served :: "SubscriptionState \<Rightarrow> SubscriptionState \<Rightarrow> chan \<times> SubscriptionKey \<Rightarrow> bool" where
  "served s s' p \<longleftrightarrow> (case p of (c, key) \<Rightarrow>
     SubscriptionComplete (sk_schema key) (sk_typename key) (sk_fieldname_and_value key) (ss_transactionId s)
       \<in> set (drop (length (ss_outbox s c)) (ss_outbox s' c)) \<and>
     (sk_fieldname_and_value key = None \<longrightarrow> (\<forall>f \<in> type_fields s key. c \<in> field_subscribers s' f)))"

lemma served_later:
  assumes "serving s s'" "served s' s'' p" "serving s' s''"
  shows "served s s'' p"
proof -
  obtain c key where p: "p = (c, key)" by fastforce
  obtain ms ns where "ss_outbox s' c = ss_outbox s c @ ms" "ss_outbox s'' c = ss_outbox s' c @ ns" using assms(1,3) unfolding serving_def by blast
  with assms p serving_servable(2)[OF assms(1)] show ?thesis by (auto simp: served_def serving_def)
qed

lemma served_before:
  assumes "served s s' p" "serving s' s''"
  shows "served s s'' p"
proof -
  obtain c key where p: "p = (c, key)" by fastforce
  obtain ns where "ss_outbox s'' c = ss_outbox s' c @ ns" using assms(2) unfolding serving_def by blast
  moreover have "field_subscribers s' f \<subseteq> field_subscribers s'' f" for f using assms(2) unfolding serving_def by blast
  ultimately show ?thesis using assms(1) p by (auto simp: served_def dest!: in_set_dropD)
qed

lemma register_runs:
  assumes "servable env s key"
  shows "\<exists>oids s'. objectIndentitiesForSubscriptionKey env key s = Inr oids \<and> registerSubscription c key oids s = (Inr (), s') \<and>
    serving s s' \<and> ss_outbox s' = ss_outbox s \<and> ss_channelToPendingTransactions s' = ss_channelToPendingTransactions s \<and>
    (sk_fieldname_and_value key = None \<longrightarrow> (\<forall>f \<in> type_fields s key. c \<in> field_subscribers s' f))"
proof -
  obtain names where n: "typeFields s (sk_schema key) (sk_typename key) = Some names" using assms by (auto simp: servable_def split: option.splits)
  obtain types where t: "ss_schemaTypeAndNameToFieldId s (sk_schema key) = Some types" "types (sk_typename key) = Some names"
    using n by (auto simp: typeFields_def split: option.splits)
  show ?thesis
  proof (cases "sk_fieldname_and_value key")
    case None
    obtain s1 where s1: "forM (map snd names) (\<lambda>f. modify (pxSubscribeField c key f)) s = (Inr (), s1)"
      "field_subscribers s1 = (\<lambda>x. if x \<in> snd ` set names then insert c (field_subscribers s x) else field_subscribers s x)"
      "s1 = s\<lparr>ss_fieldIdToSubscribedChannels := ss_fieldIdToSubscribedChannels s1, ss_channelToSubscribedFieldIds := ss_channelToSubscribedFieldIds s1,
         ss_channelToLazilySubscribedFieldIds := ss_channelToLazilySubscribedFieldIds s1\<rparr>"
      using subscribeFields_run[of "map snd names" c key s, unfolded set_map] by blast
    have e: "ss_schemaTypeAndNameToFieldId s1 = ss_schemaTypeAndNameToFieldId s" "ss_transactionId s1 = ss_transactionId s" "ss_outbox s1 = ss_outbox s"
      "ss_channelToPendingTransactions s1 = ss_channelToPendingTransactions s" by (subst s1(3), simp)+
    have "registerSubscription c key oids s = (Inr (), s1)" for oids using None t s1(1) by (simp add: registerSubscription_def)
    moreover have "serving s s1" using e by (auto simp: serving_def s1(2))
    ultimately show ?thesis using None n e(3,4) by (simp add: objectIndentitiesForSubscriptionKey_def type_fields_def s1(2))
  next
    case (Some fv)
    obtain fieldname iv where fv: "fv = (fieldname, iv)" by fastforce
    obtain oids where oids: "objectIndentitiesForSubscriptionKey env key s = Inr oids"
      using assms Some n fv by (auto simp: servable_def objectIndentitiesForSubscriptionKey_def split: if_splits option.splits)
    have "\<exists>s'. registerSubscription c key oids s = (Inr (), s') \<and> serving s s' \<and> ss_outbox s' = ss_outbox s \<and> ss_channelToPendingTransactions s' = ss_channelToPendingTransactions s"
      using assms Some n t fv
      by (cases "fieldname = ''_identity''") (auto simp: servable_def registerSubscription_def serving_def pxSubscribeIndex_def subscribeOids_def)
    with oids Some show ?thesis by auto
  qed
qed

lemma sendData_serves:
  assumes "servable env s key"
  shows "\<exists>s'. sendDataForSubscription env c key s = (Inr (), s') \<and> serving s s' \<and> served s s' (c, key) \<and>
    ss_channelToPendingTransactions s' = ss_channelToPendingTransactions s"
proof -
  obtain oids s1 where r: "objectIndentitiesForSubscriptionKey env key s = Inr oids" "registerSubscription c key oids s = (Inr (), s1)"
      "serving s s1" "ss_outbox s1 = ss_outbox s" "ss_channelToPendingTransactions s1 = ss_channelToPendingTransactions s"
      "sk_fieldname_and_value key = None \<longrightarrow> (\<forall>f \<in> type_fields s key. c \<in> field_subscribers s1 f)"
    using register_runs[OF assms] by blast
  let ?c = "SubscriptionComplete (sk_schema key) (sk_typename key) (sk_fieldname_and_value key) (ss_transactionId s1)"
  let ?s = "s1\<lparr>ss_outbox := (ss_outbox s1)(c := ss_outbox s1 c @ [subscriptionMessage env key oids s1, ?c])\<rparr>"
  have "sendDataForSubscription env c key s = (Inr (), ?s)" using r(1,2) by (simp add: sendDataForSubscription_def ssSend_def)
  moreover have "serving s1 ?s" by (simp add: serving_def)
  then have "serving s ?s" by (rule serving_trans[OF r(3)])
  moreover have "served s ?s (c, key)" using r(3,4,6) by (simp add: served_def serving_def)
  ultimately show ?thesis using r(5) by auto
qed

lemma completePending_serves:
  assumes "servable env s key" "key \<in> set_at (ss_channelToPendingSubscriptions s) c" "listOfConverts env \<or> ss_channelToPendingTransactions s c = None"
  shows "\<exists>out' s'. completePending env (c, key) out s = (Inr out', s') \<and> serving s s' \<and> served s s' (c, key) \<and>
    set_at (ss_channelToPendingSubscriptions s') = (set_at (ss_channelToPendingSubscriptions s))(c := set_at (ss_channelToPendingSubscriptions s) c - {key}) \<and>
    (\<forall>x. ss_channelToPendingTransactions s' x \<in> {None, ss_channelToPendingTransactions s x}) \<and>
    ss_subscriptionsPendingSubscriptionOnServer s' = ss_subscriptionsPendingSubscriptionOnServer s"
proof -
  obtain m where m: "ss_channelToPendingSubscriptions s c = Some m" using assms(2) by (auto simp: set_at_def split: option.splits)
  let ?s = "s\<lparr>ss_channelToPendingSubscriptions := (ss_channelToPendingSubscriptions s)(c \<mapsto> m - {key})\<rparr>"
  have "servable env ?s key" using assms(1) by (simp add: servable_def typeFields_def)
  from sendData_serves[OF this, of c] obtain s1 where s1: "sendDataForSubscription env c key ?s = (Inr (), s1)" "serving ?s s1" "served ?s s1 (c, key)"
    "ss_channelToPendingTransactions s1 = ss_channelToPendingTransactions s" by auto
  have p: "pending_is (ss_subscriptionsPendingSubscriptionOnServer s) ((ss_channelToPendingSubscriptions s)(c \<mapsto> m - {key})) s1"
    using keepsD[OF pending_sendData _ s1(1), of "ss_subscriptionsPendingSubscriptionOnServer s" "(ss_channelToPendingSubscriptions s)(c \<mapsto> m - {key})"] by simp
  have g: "serving s s1" "served s s1 (c, key)" using s1(2,3) by (simp_all add: serving_def served_def type_fields_def typeFields_def)
  have old: "set_at (ss_channelToPendingSubscriptions s) c = m" using m by (simp add: set_at_def)
  let ?s1 = "s1\<lparr>ss_channelToPendingSubscriptions := (ss_channelToPendingSubscriptions s1)(c := None), ss_channelToPendingTransactions := (ss_channelToPendingTransactions s1)(c := None)\<rparr>"
  have left: "set_at (ss_channelToPendingSubscriptions s1) c = m - {key}" using p by simp
  have run: "completePending env (c, key) out s = (if m - {key} = {}
      then (case ss_channelToPendingTransactions s c of None \<Rightarrow> (Inr out, ?s1)
        | Some ms \<Rightarrow> if listOfConverts env then (Inr (AList.update c ms out), ?s1) else (Inl TypeError, ?s1))
      else (Inr out, s1))"
    unfolding completePending_def using m left s1(4) by (simp add: thenM_Inr[of "sendDataForSubscription env c key", OF s1(1)] split: option.split)
  show ?thesis
  proof (cases "m - {key} = {}")
    case True
    have "\<exists>out'. completePending env (c, key) out s = (Inr out', ?s1)" using assms(3) unfolding run if_P[OF True] by (auto split: option.split)
    moreover have "serving s ?s1" "served s ?s1 (c, key)" using g by (simp_all add: serving_def served_def)
    moreover have "set_at (ss_channelToPendingSubscriptions ?s1) = (set_at (ss_channelToPendingSubscriptions s))(c := set_at (ss_channelToPendingSubscriptions s) c - {key})"
      using p True old by (intro ext) simp
    ultimately show ?thesis using p s1(4) by auto
  next
    case False
    then have "completePending env (c, key) out s = (Inr out, s1)" unfolding run by (simp only: if_False)
    moreover have "set_at (ss_channelToPendingSubscriptions s1) = (set_at (ss_channelToPendingSubscriptions s))(c := set_at (ss_channelToPendingSubscriptions s) c - {key})"
      using p old by (intro ext) simp
    ultimately show ?thesis using g p s1(4) by auto
  qed
qed

lemma completePendings_serve:
  "distinct ps \<Longrightarrow> \<forall>p \<in> set ps. servable env s (snd p) \<and> snd p \<in> set_at (ss_channelToPendingSubscriptions s) (fst p) \<and>
     (listOfConverts env \<or> ss_channelToPendingTransactions s (fst p) = None) \<Longrightarrow>
   \<exists>out' s'. foldMl (completePending env) ps out s = (Inr out', s') \<and> serving s s' \<and>
     (\<forall>p \<in> set ps. served s s' p \<and> snd p \<notin> set_at (ss_channelToPendingSubscriptions s') (fst p)) \<and>
     (\<forall>c. set_at (ss_channelToPendingSubscriptions s') c \<subseteq> set_at (ss_channelToPendingSubscriptions s) c) \<and>
     ss_subscriptionsPendingSubscriptionOnServer s' = ss_subscriptionsPendingSubscriptionOnServer s"
proof (induction ps arbitrary: s out)
  case Nil
  show ?case by (simp add: serving_refl)
next
  case (Cons p ps)
  obtain c key where p: "p = (c, key)" by fastforce
  obtain out1 s1 where 1: "completePending env p out s = (Inr out1, s1)" "serving s s1" "served s s1 p"
    "set_at (ss_channelToPendingSubscriptions s1) = (set_at (ss_channelToPendingSubscriptions s))(c := set_at (ss_channelToPendingSubscriptions s) c - {key})"
    "\<forall>x. ss_channelToPendingTransactions s1 x \<in> {None, ss_channelToPendingTransactions s x}"
    "ss_subscriptionsPendingSubscriptionOnServer s1 = ss_subscriptionsPendingSubscriptionOnServer s"
    using completePending_serves[of env s key c out] Cons.prems(2) p by auto
  have "\<forall>q \<in> set ps. servable env s1 (snd q) \<and> snd q \<in> set_at (ss_channelToPendingSubscriptions s1) (fst q) \<and>
     (listOfConverts env \<or> ss_channelToPendingTransactions s1 (fst q) = None)"
  proof
    fix q assume q: "q \<in> set ps"
    then have "q \<noteq> p" using Cons.prems(1) by auto
    have o: "servable env s (snd q)" "snd q \<in> set_at (ss_channelToPendingSubscriptions s) (fst q)" "listOfConverts env \<or> ss_channelToPendingTransactions s (fst q) = None"
      using Cons.prems(2) q by auto
    from o(1) have "servable env s1 (snd q)" using serving_servable(1)[OF 1(2)] by simp
    moreover have "snd q \<in> set_at (ss_channelToPendingSubscriptions s1) (fst q)" using o(2) \<open>q \<noteq> p\<close> p by (auto simp: 1(4) prod_eq_iff)
    moreover have "listOfConverts env \<or> ss_channelToPendingTransactions s1 (fst q) = None" using o(3) 1(5)[THEN spec, of "fst q"] by auto
    ultimately show "servable env s1 (snd q) \<and> snd q \<in> set_at (ss_channelToPendingSubscriptions s1) (fst q) \<and>
     (listOfConverts env \<or> ss_channelToPendingTransactions s1 (fst q) = None)" by blast
  qed
  from Cons.IH[OF _ this, of out1] Cons.prems(1) obtain out' s' where 2: "foldMl (completePending env) ps out1 s1 = (Inr out', s')" "serving s1 s'"
     "\<forall>q \<in> set ps. served s1 s' q \<and> snd q \<notin> set_at (ss_channelToPendingSubscriptions s') (fst q)"
     "\<forall>c. set_at (ss_channelToPendingSubscriptions s') c \<subseteq> set_at (ss_channelToPendingSubscriptions s1) c"
     "ss_subscriptionsPendingSubscriptionOnServer s' = ss_subscriptionsPendingSubscriptionOnServer s1" by auto
  have "served s s' q \<and> snd q \<notin> set_at (ss_channelToPendingSubscriptions s') (fst q)" if "q \<in> set (p # ps)" for q
  proof (cases "q = p")
    case True
    have "key \<notin> set_at (ss_channelToPendingSubscriptions s1) c" by (simp add: 1(4))
    with True 2(4) p served_before[OF 1(3) 2(2)] show ?thesis by auto
  next
    case False
    with that 2(3) served_later[OF 1(2) _ 2(2)] show ?thesis by auto
  qed
  moreover have "set_at (ss_channelToPendingSubscriptions s') x \<subseteq> set_at (ss_channelToPendingSubscriptions s) x" for x
  proof -
    have "set_at (ss_channelToPendingSubscriptions s1) x \<subseteq> set_at (ss_channelToPendingSubscriptions s) x" by (auto simp: 1(4))
    with 2(4) show ?thesis by blast
  qed
  moreover have "foldMl (completePending env) (p # ps) out s = (Inr out', s')" using 1(1) 2(1) by simp
  ultimately show ?case using serving_trans[OF 1(2) 2(2)] 2(5) 1(6) by auto
qed

section \<open>Completion of a type\<close>

lemma complete_serves:
  assumes env: "proxy_env_ok env" and s: "pending_ok s" and ok: "\<forall>(c, key) \<in> waiting s (schema, typename). servable env s key \<and>
      (listOfConverts env \<or> ss_channelToPendingTransactions s c = None)"
  shows "\<exists>r s'. ssHandleSubscriptionComplete env schema typename tid s = (Inr r, s') \<and> waiting s' (schema, typename) = {} \<and>
     (\<forall>p \<in> waiting s (schema, typename). served (s\<lparr>ss_transactionId := max tid (ss_transactionId s)\<rparr>) s' p \<and>
        snd p \<notin> set_at (ss_channelToPendingSubscriptions s') (fst p))"
proof -
  let ?st = "(schema, typename)"
  let ?s = "s\<lparr>ss_transactionId := max tid (ss_transactionId s), ss_completedTypes := insert ?st (ss_completedTypes s),
    ss_subscriptionsPendingSubscriptionOnServer := (ss_subscriptionsPendingSubscriptionOnServer s)(?st := None)\<rparr>"
  have it: "set (iterP env (waiting s ?st)) = waiting s ?st" "distinct (iterP env (waiting s ?st))"
    using env pending_okD(3)[OF s] by (simp_all add: proxy_env_ok_def good_iter_def)
  have "servable env ?s key = servable env s key" for key by (simp add: servable_def typeFields_def)
  then have "\<forall>p \<in> set (iterP env (waiting s ?st)). servable env ?s (snd p) \<and> snd p \<in> set_at (ss_channelToPendingSubscriptions ?s) (fst p) \<and>
     (listOfConverts env \<or> ss_channelToPendingTransactions ?s (fst p) = None)" using ok pending_okD(2)[OF s] unfolding it by fastforce
  from completePendings_serve[OF it(2) this, of "[]"] obtain r s' where r: "foldMl (completePending env) (iterP env (waiting s ?st)) [] ?s = (Inr r, s')"
     "\<forall>p \<in> waiting s ?st. served ?s s' p \<and> snd p \<notin> set_at (ss_channelToPendingSubscriptions s') (fst p)"
     "ss_subscriptionsPendingSubscriptionOnServer s' = ss_subscriptionsPendingSubscriptionOnServer ?s" unfolding it(1) by blast
  have "served (s\<lparr>ss_transactionId := max tid (ss_transactionId s)\<rparr>) s' p = served ?s s' p" for p
    by (simp add: served_def type_fields_def typeFields_def)
  moreover have "ssHandleSubscriptionComplete env schema typename tid s = (Inr r, s')" using r(1) by (simp add: ssHandleSubscriptionComplete_def)
  moreover have "waiting s' ?st = {}" using r(3) by simp
  ultimately show ?thesis using r(2) by auto
qed

text \<open>If one of them cannot be served, the handler raises, and the subscriptions that come after it are lost: none is pending any more.\<close>

lemma failing_subscription_loses_others:
  assumes "ssHandleSubscriptionComplete env schema typename tid s = (Inl e, s')"
  shows "waiting s' (schema, typename) = {}"
proof -
  have "keeps (\<lambda>s. ss_subscriptionsPendingSubscriptionOnServer s (schema, typename) = None) (completePending env p out)" for p out
    unfolding completePending_def
    by (intro keeps_rules keeps_modify keepsI[of _ "sendDataForSubscription env c key" for c key]; (simp; fail)?)
      (metis (mono_tags, lifting) pending_sendData keeps_def)
  then have loop: "keeps (\<lambda>s. ss_subscriptionsPendingSubscriptionOnServer s (schema, typename) = None) (foldMl (completePending env) ps out)" for ps out
    by (intro keeps_foldMl)
  have run: "foldMl (completePending env) (iterP env (waiting s (schema, typename))) []
      (s\<lparr>ss_transactionId := max tid (ss_transactionId s), ss_completedTypes := insert (schema, typename) (ss_completedTypes s),
        ss_subscriptionsPendingSubscriptionOnServer := (ss_subscriptionsPendingSubscriptionOnServer s)((schema, typename) := None)\<rparr>) = (Inl e, s')"
    using assms by (simp add: ssHandleSubscriptionComplete_def)
  have "ss_subscriptionsPendingSubscriptionOnServer s' (schema, typename) = None" by (rule keepsD[OF loop _ run]) simp
  then show ?thesis by (simp add: set_at_def)
qed

end
