(* ===== verification/Proxy_Properties.thy ===== *)
theory Proxy_Properties
  imports Proxy_Demo Proxy_Routing Proxy_Pending
begin

text \<open>
  What a proxy promises its clients.
\<close>

section \<open>Transparency\<close>

text \<open>C36. A proxy is transparent. In every run, whatever other clients do, a client that is subscribed to a field of a type and not lazily has been sent by the proxy the
  data of a subscription to a whole type and then messages that, taken together, give the field the very values that all the messages of the main server to the
  proxy give it. (A run is any interleaving of connections, disconnections, heartbeat checks, messages from clients, and messages from
  the main server that are \<open>proper_message\<close>s and are handled without an exception.)
\<close>

theorem proxy_is_transparent:
  assumes "proxy_env_ok env" "proxy_run env us s"
    and "c \<in> set_at (ss_fieldIdToSubscribedChannels (px_subscriptionState s)) f"
    and "f \<notin> set_at (ss_channelToLazilySubscribedFieldIds (px_subscriptionState s)) c"
  shows "\<exists>before since. ss_outbox (px_subscriptionState s) c = before @ since \<and> from_subscription since \<and> replica since f = replica us f"
  using faithfulD(8)[OF run_informed[OF assms(2,1)] assms(3,4)] by (simp add: synced_def)

theorem proxy_is_transparent_witness:
  "proxy_run demo_proxy_env demo_upstream demo_proxy6 \<and> replica demo_upstream 5 100 = Some [2] \<and>
   (\<exists>before since. ss_outbox (px_subscriptionState demo_proxy6) 1 = before @ since \<and> from_subscription since \<and> replica since 5 = replica demo_upstream 5)"
  using proxy_is_transparent[OF demo_proxy_env_ok demo_proxy_run(1) demo_subscribed] demo_proxy_run(1)
  by (simp add: replica_def demo_upstream_def demo_data_def demo_transaction_def learnValues_def)

section \<open>Answers find their way\<close>

text \<open>C37. In every run a proxy passes flushes and transactions on under a number of its own that no earlier message to the main server carries, and whatever happens
  until the main server answers with this number, the answer goes to the client that asked, and to no other, under the number the client had chosen. (First part:
  flushes, which are always forwarded; second part: the first message of a transaction from a client that waits for no
  subscription, if it is forwarded without an exception.)\<close>

theorem proxy_routes_answers:
  assumes "proxy_run env us s" "at_work c s"
  shows "(\<exists>s1. let n = px_flushGuidIx s1 in
      pxHandleClientToServerMessage env c (Flush g) s = (Inr (), s1) \<and> px_upstream s1 = px_upstream s @ [Flush n] \<and> Flush n \<notin> set (px_upstream s) \<and>
      (\<forall>ms s2. proxy_steps env ms s1 s2 \<longrightarrow> FlushResponse n \<notin> set ms \<longrightarrow>
         handleServerToClientMessage env (FlushResponse n) s2 =
           (Inr (), snd (sendDown c (FlushResponse g)
              (s2\<lparr>px_outgoingFlushGuidToChannelAndFlushGuid := (px_outgoingFlushGuidToChannelAndFlushGuid s2)(n := None)\<rparr>))))) \<and>
    (\<forall>t s1. let n = px_transactionGuidIx s1 in
      ss_channelToPendingSubscriptions (px_subscriptionState s) c = None \<longrightarrow>
      px_channelAndTransactionGuidToOutgoingTransactionGuid s (c, tx_guid t) = None \<longrightarrow>
      pxHandleClientToServerMessage env c (TransactionData t) s = (Inr (), s1) \<longrightarrow>
      px_upstream s1 = px_upstream s @ [TransactionData (t\<lparr>tx_guid := n\<rparr>)] \<and> filter (carries_number n) (px_upstream s) = [] \<and>
      (\<forall>ms s2 ok b e. proxy_steps env ms s1 s2 \<longrightarrow> (\<forall>ok b e. TransactionResult n ok b e \<notin> set ms) \<longrightarrow>
         handleServerToClientMessage env (TransactionResult n ok b e) s2 =
           (Inr (), snd (sendDown c (TransactionResult (tx_guid t) ok b e)
              (s2\<lparr>px_outgoingTransactionGuidToChannelAndTransactionGuid := (px_outgoingTransactionGuidToChannelAndTransactionGuid s2)(n := None)\<rparr>)))))"
proof (intro conjI allI)
  obtain r s1 where r: "pxHandleClientToServerMessage env c (Flush g) s = (r, s1)" by fastforce
  note f = flush_forwarded[OF assms r]
  show "\<exists>s1. let n = px_flushGuidIx s1 in
      pxHandleClientToServerMessage env c (Flush g) s = (Inr (), s1) \<and> px_upstream s1 = px_upstream s @ [Flush n] \<and> Flush n \<notin> set (px_upstream s) \<and>
      (\<forall>ms s2. proxy_steps env ms s1 s2 \<longrightarrow> FlushResponse n \<notin> set ms \<longrightarrow>
         handleServerToClientMessage env (FlushResponse n) s2 =
           (Inr (), snd (sendDown c (FlushResponse g)
              (s2\<lparr>px_outgoingFlushGuidToChannelAndFlushGuid := (px_outgoingFlushGuidToChannelAndFlushGuid s2)(n := None)\<rparr>))))"
    unfolding Let_def using f r flush_answered[of "px_flushGuidIx s1" c g s1] by (intro exI[of _ s1]) simp
next
  fix t s1
  show "let n = px_transactionGuidIx s1 in
      ss_channelToPendingSubscriptions (px_subscriptionState s) c = None \<longrightarrow>
      px_channelAndTransactionGuidToOutgoingTransactionGuid s (c, tx_guid t) = None \<longrightarrow>
      pxHandleClientToServerMessage env c (TransactionData t) s = (Inr (), s1) \<longrightarrow>
      px_upstream s1 = px_upstream s @ [TransactionData (t\<lparr>tx_guid := n\<rparr>)] \<and> filter (carries_number n) (px_upstream s) = [] \<and>
      (\<forall>ms s2 ok b e. proxy_steps env ms s1 s2 \<longrightarrow> (\<forall>ok b e. TransactionResult n ok b e \<notin> set ms) \<longrightarrow>
         handleServerToClientMessage env (TransactionResult n ok b e) s2 =
           (Inr (), snd (sendDown c (TransactionResult (tx_guid t) ok b e)
              (s2\<lparr>px_outgoingTransactionGuidToChannelAndTransactionGuid := (px_outgoingTransactionGuidToChannelAndTransactionGuid s2)(n := None)\<rparr>))))"
    unfolding Let_def using transaction_forwarded[OF assms, of t s1] transaction_answered[of "px_transactionGuidIx s1" c "tx_guid t" s1] by blast
qed

theorem proxy_routes_answers_witness:
  "proxy_run demo_proxy_env demo_upstream demo_proxy6 \<and> at_work 1 demo_proxy6 \<and>
   (\<exists>s1. pxHandleClientToServerMessage demo_proxy_env 1 (Flush 9) demo_proxy6 = (Inr (), s1) \<and> px_flushGuidIx s1 = 1 \<and>
      handleServerToClientMessage demo_proxy_env (FlushResponse 1) s1 =
        (Inr (), snd (sendDown 1 (FlushResponse 9)
           (s1\<lparr>px_outgoingFlushGuidToChannelAndFlushGuid := (px_outgoingFlushGuidToChannelAndFlushGuid s1)(1 := None)\<rparr>))))"
proof -
  have w: "at_work 1 demo_proxy6" by (simp add: at_work_def demo_run_defs)
  have "px_flushGuidIx (snd (pxHandleClientToServerMessage demo_proxy_env 1 (Flush 9) demo_proxy6)) = 1" by (simp add: demo_run_defs onFlush_def)
  moreover from conjunct1[OF proxy_routes_answers[OF demo_proxy_run(1) w, of 9]] obtain s1 where s1:
      "pxHandleClientToServerMessage demo_proxy_env 1 (Flush 9) demo_proxy6 = (Inr (), s1)"
      "\<forall>ms s2. proxy_steps demo_proxy_env ms s1 s2 \<longrightarrow> FlushResponse (px_flushGuidIx s1) \<notin> set ms \<longrightarrow>
         handleServerToClientMessage demo_proxy_env (FlushResponse (px_flushGuidIx s1)) s2 =
           (Inr (), snd (sendDown 1 (FlushResponse 9)
              (s2\<lparr>px_outgoingFlushGuidToChannelAndFlushGuid := (px_outgoingFlushGuidToChannelAndFlushGuid s2)(px_flushGuidIx s1 := None)\<rparr>)))"
    unfolding Let_def by blast
  moreover note s1(2)[rule_format, OF proxy_steps.refl]
  ultimately show ?thesis using demo_proxy_run(1) w by (intro conjI exI[of _ s1]) simp_all
qed

section \<open>No subscription is forgotten\<close>

text \<open>C38. In every run, when the main server reports that it has sent all data of a type, every client that had subscribed to the type or to a part of it
  before is served: if all these subscriptions are \<open>servable\<close> the handler returns, each client has been told that its subscription is complete and as of which
  transaction, a client that asked for the whole type is a subscriber of all its fields, and no subscription to the type is pending any more, neither for the type nor for the client.
  (The last hypothesis: no transaction of the client was put off, or the container for such transactions accepts them.)\<close>

theorem pending_subscriptions_served:
  assumes "proxy_env_ok env" "proxy_run env us s"
    and "\<forall>(c, key) \<in> set_at (ss_subscriptionsPendingSubscriptionOnServer (px_subscriptionState s)) (schema, typename).
      servable env (px_subscriptionState s) key \<and> (listOfConverts env \<or> ss_channelToPendingTransactions (px_subscriptionState s) c = None)"
  shows "\<exists>r s'. ssHandleSubscriptionComplete env schema typename tid (px_subscriptionState s) = (Inr r, s') \<and>
     set_at (ss_subscriptionsPendingSubscriptionOnServer s') (schema, typename) = {} \<and>
     (\<forall>p \<in> set_at (ss_subscriptionsPendingSubscriptionOnServer (px_subscriptionState s)) (schema, typename).
        served ((px_subscriptionState s)\<lparr>ss_transactionId := max tid (ss_transactionId (px_subscriptionState s))\<rparr>) s' p \<and>
        snd p \<notin> set_at (ss_channelToPendingSubscriptions s') (fst p))"
  by (rule complete_serves[OF assms(1) run_pending[OF assms(2,1)] assms(3)])

definition demo_subscription :: SubscriptionKey where
  "demo_subscription = \<lparr>sk_schema = ''s'', sk_typename = ''T'', sk_fieldname_and_value = None, sk_isLazy = False\<rparr>"

theorem pending_subscriptions_served_witness:
  "(1, demo_subscription) \<in> set_at (ss_subscriptionsPendingSubscriptionOnServer (px_subscriptionState demo_proxy4)) (''s'', ''T'') \<and>
   (\<exists>r s'. ssHandleSubscriptionComplete demo_proxy_env ''s'' ''T'' 7 (px_subscriptionState demo_proxy4) = (Inr r, s') \<and>
      served ((px_subscriptionState demo_proxy4)\<lparr>ss_transactionId := 7\<rparr>) s' (1, demo_subscription) \<and>
      demo_subscription \<notin> set_at (ss_channelToPendingSubscriptions s') 1)"
proof -
  have w: "set_at (ss_subscriptionsPendingSubscriptionOnServer (px_subscriptionState demo_proxy4)) (''s'', ''T'') = {(1, demo_subscription)}"
    "servable demo_proxy_env (px_subscriptionState demo_proxy4) demo_subscription" "ss_transactionId (px_subscriptionState demo_proxy4) = - 1"
    "listOfConverts demo_proxy_env"
    by (simp_all add: demo_run_defs demo_subscription_def servable_def)
  have "\<forall>(c, key) \<in> set_at (ss_subscriptionsPendingSubscriptionOnServer (px_subscriptionState demo_proxy4)) (''s'', ''T'').
      servable demo_proxy_env (px_subscriptionState demo_proxy4) key \<and> (listOfConverts demo_proxy_env \<or> ss_channelToPendingTransactions (px_subscriptionState demo_proxy4) c = None)"
    using w by simp
  from pending_subscriptions_served[OF demo_proxy_env_ok demo_proxy_run(2) this, of 7] show ?thesis unfolding w(1) w(3) by auto
qed

end
