(* ===== verification/Message_Bus.thy ===== *)
theory Message_Bus
  imports Complex_Main Message_Buffer Byte_Queue
begin

text \<open>
  \<open>MessageBus\<close> of \<open>message_bus.py\<close>: connections, their queues and buffers, and the handlers of its two threads. What the operating system
  answers to \<open>accept\<close>, \<open>recv\<close>, \<open>send\<close> and \<open>create_connection\<close> is an argument of the handlers, as is the time. Serialisation and the
  encoding of the authentication token are the record \<open>busenv\<close>. Socket objects are numbered in the order they are created (\<open>bus_sockets\<close> of them so
  far), a wake pipe is the number of bytes in it, and the \<open>SocketWatcher\<close> is the sets of sockets it watches for reading and for writing. Five fields
  are no attributes of the object but a record of what has happened: \<open>bus_wire\<close> is what the operating system has accepted for each socket,
  \<open>bus_closed\<close> the sockets that have been closed, \<open>bus_lost\<close> those on which a \<open>send\<close> has failed, \<open>bus_submitted\<close> what has been put on the queue of messages to
  send and \<open>bus_taken\<close> what has been taken off it. A handler is one step: the bus's two threads and its users interleave between handlers.
\<close>

section \<open>State\<close>

type_synonym sock = nat

type_synonym Endpoint = "string \<times> int"

type_synonym ConnectionId = int

record ('i, 'o) busenv =
  be_serialize :: "'o \<Rightarrow> bytes"
  be_deserialize :: "bytes \<Rightarrow> 'i option"
  be_encode :: "string \<Rightarrow> bytes"
  be_decode :: "bytes \<Rightarrow> string option"

datatype 'i MessageBusEvent =
    Stopped
  | NewIncomingConnection Endpoint ConnectionId
  | IncomingConnectionClosed ConnectionId
  | IncomingMessage ConnectionId 'i
  | OutgoingConnectionEstablished ConnectionId
  | OutgoingConnectionFailed ConnectionId
  | OutgoingConnectionClosed ConnectionId

text \<open>What is put on the queue of messages to send, on the queue of events to fire, and on the queue of the event thread.\<close>

datatype send_item = DisconnectedItem | TriggerConnect ConnectionId | SendBytes ConnectionId bytes

datatype 'i fire_item = TriggerDisconnect ConnectionId | FireEvent "'i MessageBusEvent"

datatype callback = ConnectTo ConnectionId | ScheduleDisconnect ConnectionId | UserCallback nat

datatype 'i thread_item = ThreadStop | ThreadEvent "'i MessageBusEvent" | ThreadCallback callback

record 'i MessageBus =
  bus_started :: bool
  bus_authToken :: "string option"
  bus_extraMessageSizeCheck :: bool
  bus_acceptSocket :: "sock option"
  bus_connIdToIncomingSocket :: "ConnectionId \<rightharpoonup> sock"
  bus_connIdToOutgoingSocket :: "ConnectionId \<rightharpoonup> sock"
  bus_socketToIncomingConnId :: "sock \<rightharpoonup> ConnectionId"
  bus_socketToOutgoingConnId :: "sock \<rightharpoonup> ConnectionId"
  bus_unauthenticatedConnections :: "ConnectionId set"
  bus_connIdToIncomingEndpoint :: "ConnectionId \<rightharpoonup> Endpoint"
  bus_connIdToOutgoingEndpoint :: "ConnectionId \<rightharpoonup> Endpoint"
  bus_connIdPendingOutgoingConnection :: "ConnectionId set"
  bus_messagesForUnconnected :: "ConnectionId \<rightharpoonup> bytes list"
  bus_messageToSendWakes :: nat
  bus_eventToFireWakes :: nat
  bus_generalWakes :: nat
  bus_totalBytesPendingInOutputLoop :: int
  bus_totalBytesWritten :: int
  bus_totalBytesPendingInInputLoop :: int
  bus_inputLoopHighWatermark :: int
  bus_totalBytesRead :: int
  bus_connectionIdCounter :: int
  bus_messagesToSendQueue :: "send_item BytecountLimitedQueue"
  bus_eventsToFireQueue :: "'i fire_item list"
  bus_pendingTimedCallbacks :: "(rat \<times> callback) list"
  bus_socketToBytesNeedingWrite :: "sock \<rightharpoonup> bytes"
  bus_socketsWithSslWantWrite :: "sock set"
  bus_readSockets :: "sock set"
  bus_writeSockets :: "sock set"
  bus_incomingSocketBuffers :: "sock \<rightharpoonup> MessageBuffer"
  bus_eventQueue :: "'i thread_item list"
  bus_wire :: "sock \<Rightarrow> bytes"
  bus_closed :: "sock set"
  bus_lost :: "sock set"
  bus_sockets :: nat
  bus_submitted :: "send_item list"
  bus_taken :: "send_item list"

definition newMessageBus :: "string option \<Rightarrow> bool \<Rightarrow> 'i MessageBus" where
  "newMessageBus authToken extraMessageSizeCheck = \<lparr>bus_started = False, bus_authToken = authToken, bus_extraMessageSizeCheck = extraMessageSizeCheck,
     bus_acceptSocket = None, bus_connIdToIncomingSocket = Map.empty, bus_connIdToOutgoingSocket = Map.empty, bus_socketToIncomingConnId = Map.empty,
     bus_socketToOutgoingConnId = Map.empty, bus_unauthenticatedConnections = {}, bus_connIdToIncomingEndpoint = Map.empty,
     bus_connIdToOutgoingEndpoint = Map.empty, bus_connIdPendingOutgoingConnection = {}, bus_messagesForUnconnected = Map.empty,
     bus_messageToSendWakes = 0, bus_eventToFireWakes = 0, bus_generalWakes = 0, bus_totalBytesPendingInOutputLoop = 0, bus_totalBytesWritten = 0,
     bus_totalBytesPendingInInputLoop = 0, bus_inputLoopHighWatermark = 0, bus_totalBytesRead = 0, bus_connectionIdCounter = 0,
     bus_messagesToSendQueue = newBytecountLimitedQueue None, bus_eventsToFireQueue = [], bus_pendingTimedCallbacks = [],
     bus_socketToBytesNeedingWrite = Map.empty, bus_socketsWithSslWantWrite = {}, bus_readSockets = {}, bus_writeSockets = {},
     bus_incomingSocketBuffers = Map.empty, bus_eventQueue = [], bus_wire = (\<lambda>_. []), bus_closed = {}, bus_lost = {},
     bus_sockets = 0, bus_submitted = [], bus_taken = []\<rparr>"

section \<open>Called by users of the bus\<close>

definition newSocket :: "('i MessageBus, sock) pyM" where
  "newSocket = bindM (gets bus_sockets) (\<lambda>k. thenM (modify (\<lambda>s. s\<lparr>bus_sockets := Suc k\<rparr>)) (ret k))"

text \<open>\<open>start\<close>: whether the bus listens, and whether \<open>_setupAcceptSocket\<close> could bind the socket.\<close>

definition busStart :: "bool \<Rightarrow> bool \<Rightarrow> ('i MessageBus, unit) pyM" where
  "busStart listens bound =
     bindM (gets bus_started) (\<lambda>started.
     thenM (assertM (\<not> started))
     (thenM (whenM listens (bindM newSocket (\<lambda>k.
         if bound then modify (\<lambda>s. s\<lparr>bus_acceptSocket := Some k\<rparr>)
         else thenM (modify (\<lambda>s. s\<lparr>bus_closed := insert k (bus_closed s)\<rparr>)) (raise GenericException))))
       (modify (\<lambda>s. s\<lparr>bus_readSockets := set_option (bus_acceptSocket s), bus_writeSockets := {}, bus_started := True\<rparr>))))"

definition setMaxWriteQueueSize :: "int option \<Rightarrow> ('i MessageBus, unit) pyM" where
  "setMaxWriteQueueSize queueSize = modify (\<lambda>s. s\<lparr>bus_messagesToSendQueue := assignMaxBytes queueSize (bus_messagesToSendQueue s)\<rparr>)"

definition isWriteQueueBlocked :: "'i MessageBus \<Rightarrow> bool" where
  "isWriteQueueBlocked s = isBlocked (bus_messagesToSendQueue s)"

definition newConnectionId :: "('i MessageBus, ConnectionId) pyM" where
  "newConnectionId = thenM (modify (\<lambda>s. s\<lparr>bus_connectionIdCounter := bus_connectionIdCounter s + 1\<rparr>)) (gets bus_connectionIdCounter)"

definition bytesPerMsg :: "send_item \<Rightarrow> nat" where
  "bytesPerMsg msg = (case msg of SendBytes c m \<Rightarrow> length m | _ \<Rightarrow> 0)"

definition isDefinitelyDead :: "ConnectionId \<Rightarrow> 'i MessageBus \<Rightarrow> bool" where
  "isDefinitelyDead c s \<longleftrightarrow> bus_connIdToOutgoingEndpoint s c = None \<and> bus_connIdToIncomingEndpoint s c = None"

text \<open>A \<open>put\<close> on a full queue waits.\<close>

definition pushItem :: "send_item \<Rightarrow> ('i MessageBus, unit) pyM" where
  "pushItem item =
     bindM (gets (\<lambda>s. bqPut bytesPerMsg item True False (bus_messagesToSendQueue s))) (\<lambda>r.
       case r of
         Pushed q \<Rightarrow> modify (\<lambda>s. s\<lparr>bus_messagesToSendQueue := q, bus_submitted := bus_submitted s @ [item]\<rparr>)
       | _ \<Rightarrow> raise NotReturned)"

definition putOnSendQueue :: "send_item \<Rightarrow> ('i MessageBus, unit) pyM" where
  "putOnSendQueue item = thenM (pushItem item) (modify (\<lambda>s. s\<lparr>bus_messageToSendWakes := bus_messageToSendWakes s + 1\<rparr>))"

definition scheduleEvent :: "'i fire_item \<Rightarrow> ('i MessageBus, unit) pyM" where
  "scheduleEvent event = modify (\<lambda>s. s\<lparr>bus_eventsToFireQueue := bus_eventsToFireQueue s @ [event], bus_eventToFireWakes := bus_eventToFireWakes s + 1\<rparr>)"

definition busConnect :: "Endpoint \<Rightarrow> ('i MessageBus, ConnectionId) pyM" where
  "busConnect endpoint =
     bindM (gets bus_started) (\<lambda>started.
     if \<not> started then raise GenericException
     else bindM newConnectionId (\<lambda>c.
       thenM (modify (\<lambda>s. s\<lparr>bus_connIdToOutgoingEndpoint := (bus_connIdToOutgoingEndpoint s)(c \<mapsto> endpoint),
          bus_connIdPendingOutgoingConnection := insert c (bus_connIdPendingOutgoingConnection s)\<rparr>))
       (thenM (putOnSendQueue (TriggerConnect c)) (ret c))))"

definition closeConnection :: "ConnectionId \<Rightarrow> ('i MessageBus, unit) pyM" where
  "closeConnection c = bindM (gets (isDefinitelyDead c)) (\<lambda>dead. if dead then ret () else scheduleEvent (TriggerDisconnect c))"

text \<open>\<open>SortedSet.add\<close> with the time stamp as the key: after those with the same stamp.\<close>

fun addTimed :: "rat \<times> callback \<Rightarrow> (rat \<times> callback) list \<Rightarrow> (rat \<times> callback) list" where
  "addTimed x [] = [x]"
| "addTimed x (y # ys) = (if fst x < fst y then x # y # ys else y # addTimed x ys)"

definition scheduleCallback :: "rat \<Rightarrow> callback option \<Rightarrow> rat option \<Rightarrow> rat option \<Rightarrow> ('i MessageBus, unit) pyM" where
  "scheduleCallback now callback atTimestamp delay =
     (case callback of
        None \<Rightarrow> ret ()
      | Some cb \<Rightarrow>
          if atTimestamp \<noteq> None \<and> delay \<noteq> None then raise ValueError
          else
            let t = (case atTimestamp of Some t \<Rightarrow> t | None \<Rightarrow> now + (case delay of None \<Rightarrow> 0 | Some d \<Rightarrow> d)) in
            modify (\<lambda>s. let cbs = addTimed (t, cb) (bus_pendingTimedCallbacks s)
              in s\<lparr>bus_pendingTimedCallbacks := cbs, bus_generalWakes := bus_generalWakes s + (if fst (hd cbs) = t then 1 else 0)\<rparr>))"

definition sendMessage :: "('i, 'o) busenv \<Rightarrow> ConnectionId \<Rightarrow> 'o \<Rightarrow> ('i MessageBus, bool) pyM" where
  "sendMessage env c message =
     bindM (gets bus_started) (\<lambda>started.
     if \<not> started then raise GenericException
     else bindM (gets (isDefinitelyDead c)) (\<lambda>dead.
       if dead then ret False
       else thenM (putOnSendQueue (SendBytes c (be_serialize env message))) (ret True)))"

text \<open>\<open>stop\<close>, up to the point where it waits for the socket thread; what it does then, up to the point where it waits for the event thread; and the rest.
  The item it puts on the queue of messages to send wakes nobody.\<close>

definition busStop :: "('i MessageBus, unit) pyM" where
  "busStop =
     bindM (gets bus_started) (\<lambda>started.
     if \<not> started then ret ()
     else thenM (modify (\<lambda>s. s\<lparr>bus_started := False\<rparr>)) (thenM (pushItem DisconnectedItem) (scheduleEvent (FireEvent Stopped))))"

definition stopEventThread :: "'i MessageBus \<Rightarrow> 'i MessageBus" where
  "stopEventThread s = s\<lparr>bus_eventQueue := bus_eventQueue s @ [ThreadStop]\<rparr>"

definition busTeardown :: "'i MessageBus \<Rightarrow> 'i MessageBus" where
  "busTeardown s = s\<lparr>bus_acceptSocket := None, bus_readSockets := {}, bus_writeSockets := {},
     bus_closed := bus_closed s \<union> set_option (bus_acceptSocket s) \<union> ran (bus_connIdToIncomingSocket s) \<union> ran (bus_connIdToOutgoingSocket s)\<rparr>"

section \<open>Writing\<close>

text \<open>\<open>_scheduleBytesForWrite\<close>: first it looks for a socket, then it uses it. (The two look-ups are not one critical section.)\<close>

definition chooseSocket :: "ConnectionId \<Rightarrow> 'i MessageBus \<Rightarrow> sock option" where
  "chooseSocket c s = (case bus_connIdToOutgoingSocket s c of Some k \<Rightarrow> Some k | None \<Rightarrow> bus_connIdToIncomingSocket s c)"

definition writeTo :: "sock option \<Rightarrow> ConnectionId \<Rightarrow> bytes \<Rightarrow> ('i MessageBus, unit) pyM" where
  "writeTo k c msg = (case k of
       None \<Rightarrow> modify (\<lambda>s. if c \<notin> bus_connIdPendingOutgoingConnection s then s
         else s\<lparr>bus_messagesForUnconnected := (bus_messagesForUnconnected s)(c \<mapsto>
           (case bus_messagesForUnconnected s c of None \<Rightarrow> [] | Some ms \<Rightarrow> ms) @ [msg])\<rparr>)
     | Some k \<Rightarrow>
         bindM (gets (\<lambda>s. encode msg (bus_extraMessageSizeCheck s))) (\<lambda>r.
           case r of Inl e \<Rightarrow> raise e
           | Inr msgBytes \<Rightarrow> modify (\<lambda>s. s\<lparr>bus_totalBytesPendingInOutputLoop := bus_totalBytesPendingInOutputLoop s + int (length msgBytes),
               bus_socketToBytesNeedingWrite := (bus_socketToBytesNeedingWrite s)(k \<mapsto>
                 (case bus_socketToBytesNeedingWrite s k of None \<Rightarrow> [] | Some bs \<Rightarrow> bs) @ msgBytes)\<rparr>)))"

definition scheduleBytesForWrite :: "ConnectionId \<Rightarrow> bytes \<Rightarrow> ('i MessageBus, unit) pyM" where
  "scheduleBytesForWrite c msg = (if msg = [] then ret () else bindM (gets (chooseSocket c)) (\<lambda>k. writeTo k c msg))"

definition fireEvent :: "'i MessageBusEvent \<Rightarrow> ('i MessageBus, unit) pyM" where
  "fireEvent event = modify (\<lambda>s. s\<lparr>bus_eventQueue := bus_eventQueue s @ [ThreadEvent event]\<rparr>)"

text \<open>\<open>canRead\<close> of the socket thread's loop: whether it takes messages off the queue.\<close>

definition canRead :: "'i MessageBus \<Rightarrow> bool" where
  "canRead s = (case bq_maxBytes (bus_messagesToSendQueue s) of None \<Rightarrow> True | Some m \<Rightarrow> bus_totalBytesPendingInOutputLoop s < m)"

definition handleMessageToSend :: "('i, 'o) busenv \<Rightarrow> rat \<Rightarrow> ('i MessageBus, unit) pyM" where
  "handleMessageToSend env now =
     bindM (gets (\<lambda>s. getTake (bus_messagesToSendQueue s))) (\<lambda>r. case r of
       None \<Rightarrow> raise QueueEmpty
     | Some (item, q) \<Rightarrow>
         thenM (modify (\<lambda>s. s\<lparr>bus_messagesToSendQueue := snd (getFinish bytesPerMsg item q), bus_taken := bus_taken s @ [item]\<rparr>))
         (case item of
            DisconnectedItem \<Rightarrow> ret ()
          | TriggerConnect c \<Rightarrow>
              bindM (gets bus_authToken) (\<lambda>token.
              thenM (case token of None \<Rightarrow> ret () | Some t \<Rightarrow> scheduleBytesForWrite c (be_encode env t))
                (scheduleCallback now (Some (ConnectTo c)) None None))
          | SendBytes c msg \<Rightarrow> scheduleBytesForWrite c msg))"

datatype send_result = Sent nat | SendWantRead | SendWantWrite | SendError

text \<open>The bytes written, as the code counts them: -1 if the socket is not ready, 0 if it has failed.\<close>

definition bytesWritten :: "send_result \<Rightarrow> int" where
  "bytesWritten r = (case r of Sent n \<Rightarrow> int n | SendWantRead \<Rightarrow> -1 | SendWantWrite \<Rightarrow> -1 | SendError \<Rightarrow> 0)"

definition handleWriteReadySocket :: "sock \<Rightarrow> send_result \<Rightarrow> ('i MessageBus, bool option) pyM" where
  "handleWriteReadySocket k r =
     bindM (gets (\<lambda>s. bus_socketToBytesNeedingWrite s k)) (\<lambda>buf. case buf of
       None \<Rightarrow> ret None
     | Some bs \<Rightarrow>
         let n = bytesWritten r in
         thenM (modify (\<lambda>s. if r = SendWantWrite then s\<lparr>bus_socketsWithSslWantWrite := insert k (bus_socketsWithSslWantWrite s)\<rparr> else s))
         (if n = 0
          then thenM (modify (\<lambda>s. s\<lparr>bus_writeSockets := bus_writeSockets s - {k}, bus_lost := insert k (bus_lost s),
                 bus_socketToBytesNeedingWrite := (bus_socketToBytesNeedingWrite s)(k := None)\<rparr>)) (ret (Some True))
          else if n = -1 then ret (Some False)
          else
            thenM (modify (\<lambda>s. s\<lparr>bus_totalBytesPendingInOutputLoop := bus_totalBytesPendingInOutputLoop s - n, bus_totalBytesWritten := bus_totalBytesWritten s + n,
               bus_wire := (bus_wire s)(k := bus_wire s k @ take (nat n) bs),
               bus_socketToBytesNeedingWrite := (bus_socketToBytesNeedingWrite s)(k := if drop (nat n) bs = [] then None else Some (drop (nat n) bs)),
               bus_writeSockets := (if drop (nat n) bs = [] then bus_writeSockets s - {k} else bus_writeSockets s)\<rparr>))
              (ret (Some True))))"

section \<open>Closing and reading\<close>

definition ensureSocketClosed :: "sock \<Rightarrow> 'i MessageBus \<Rightarrow> 'i MessageBus" where
  "ensureSocketClosed k s = s\<lparr>bus_closed := insert k (bus_closed s)\<rparr>"

text \<open>\<open>del d[k]\<close>\<close>

definition delM :: "('s \<Rightarrow> 'k \<rightharpoonup> 'v) \<Rightarrow> ((('k \<rightharpoonup> 'v) \<Rightarrow> 'k \<rightharpoonup> 'v) \<Rightarrow> 's \<Rightarrow> 's) \<Rightarrow> 'k \<Rightarrow> ('s, unit) pyM" where
  "delM d upd k = bindM (gets d) (\<lambda>m. if m k = None then raise KeyError else modify (upd (\<lambda>m. m(k := None))))"

definition forgetBytes :: "sock \<Rightarrow> ('i MessageBus, unit) pyM" where
  "forgetBytes k = modify (bus_socketToBytesNeedingWrite_update (\<lambda>m. m(k := None)))"

definition forgetIncoming :: "sock \<Rightarrow> ConnectionId \<Rightarrow> ('i MessageBus, unit) pyM" where
  "forgetIncoming k c =
     thenM (modify (\<lambda>s. s\<lparr>bus_unauthenticatedConnections := bus_unauthenticatedConnections s - {c}\<rparr>))
     (thenM (delM bus_connIdToIncomingSocket bus_connIdToIncomingSocket_update c)
     (thenM (delM bus_socketToIncomingConnId bus_socketToIncomingConnId_update k)
     (thenM (delM bus_connIdToIncomingEndpoint bus_connIdToIncomingEndpoint_update c)
     (thenM (delM bus_incomingSocketBuffers bus_incomingSocketBuffers_update k) (forgetBytes k)))))"

definition forgetOutgoing :: "sock \<Rightarrow> ConnectionId \<Rightarrow> ('i MessageBus, unit) pyM" where
  "forgetOutgoing k c =
     thenM (delM bus_connIdToOutgoingEndpoint bus_connIdToOutgoingEndpoint_update c)
     (thenM (delM bus_socketToOutgoingConnId bus_socketToOutgoingConnId_update k)
     (thenM (delM bus_connIdToOutgoingSocket bus_connIdToOutgoingSocket_update c)
     (thenM (delM bus_incomingSocketBuffers bus_incomingSocketBuffers_update k) (forgetBytes k))))"

definition markSocketClosed :: "sock \<Rightarrow> ('i MessageBus, unit) pyM" where
  "markSocketClosed k =
     bindM (gets (\<lambda>s. (bus_socketToIncomingConnId s k, bus_socketToOutgoingConnId s k))) (\<lambda>(incoming, outgoing).
     bindM (case incoming of
         Some c \<Rightarrow> thenM (forgetIncoming k c) (ret (Some (IncomingConnectionClosed c)))
       | None \<Rightarrow> (case outgoing of
           Some c \<Rightarrow> thenM (forgetOutgoing k c) (ret (Some (OutgoingConnectionClosed c)))
         | None \<Rightarrow> ret None)) (\<lambda>toFire.
     thenM (modify (\<lambda>s. (ensureSocketClosed k s)\<lparr>bus_readSockets := bus_readSockets s - {k}, bus_writeSockets := bus_writeSockets s - {k}\<rparr>))
       (case toFire of None \<Rightarrow> ret () | Some event \<Rightarrow> fireEvent event)))"

definition isUnauthenticated :: "ConnectionId \<Rightarrow> 'i MessageBus \<Rightarrow> bool" where
  "isUnauthenticated c s \<longleftrightarrow> c \<in> bus_unauthenticatedConnections s"

definition getConnectionIdFromSocket :: "sock \<Rightarrow> 'i MessageBus \<Rightarrow> ConnectionId option" where
  "getConnectionIdFromSocket k s = (case bus_socketToIncomingConnId s k of Some c \<Rightarrow> Some c | None \<Rightarrow> bus_socketToOutgoingConnId s k)"

definition handleIncomingMessage :: "('i, 'o) busenv \<Rightarrow> bytes \<Rightarrow> sock \<Rightarrow> ('i MessageBus, bool) pyM" where
  "handleIncomingMessage env serializedMessage k =
     bindM (gets (getConnectionIdFromSocket k)) (\<lambda>conn. case conn of
       None \<Rightarrow> ret False
     | Some c \<Rightarrow>
         bindM (gets (\<lambda>s. (c \<in> bus_unauthenticatedConnections s, bus_authToken s))) (\<lambda>(unauthenticated, token).
           if unauthenticated
           then (case be_decode env serializedMessage of
                None \<Rightarrow> ret False
              | Some t \<Rightarrow> if Some t \<noteq> token then ret False
                  else thenM (modify (\<lambda>s. s\<lparr>bus_unauthenticatedConnections := bus_unauthenticatedConnections s - {c}\<rparr>)) (ret True))
           else (case be_deserialize env serializedMessage of
                None \<Rightarrow> ret False
              | Some m \<Rightarrow> thenM (fireEvent (IncomingMessage c m)) (ret True))))"

text \<open>\<open>for m in newMessages: ...\<close> with its \<open>break\<close>\<close>

fun handleMessages :: "('i, 'o) busenv \<Rightarrow> sock \<Rightarrow> bytes list \<Rightarrow> ('i MessageBus, unit) pyM" where
  "handleMessages env k [] = ret ()"
| "handleMessages env k (m # ms) = bindM (handleIncomingMessage env m k) (\<lambda>ok. if ok then handleMessages env k ms else markSocketClosed k)"

datatype accept_result = Accepted Endpoint | AcceptFailed

datatype recv_result = Received bytes | RecvWantRead | RecvWantWrite | RecvError

definition acceptConnection :: "Endpoint \<Rightarrow> ('i MessageBus, unit) pyM" where
  "acceptConnection source =
     bindM newSocket (\<lambda>k. bindM newConnectionId (\<lambda>c.
     thenM (modify (\<lambda>s. s\<lparr>bus_unauthenticatedConnections := (if bus_authToken s \<noteq> None then insert c else id) (bus_unauthenticatedConnections s),
       bus_connIdToIncomingSocket := (bus_connIdToIncomingSocket s)(c \<mapsto> k), bus_socketToIncomingConnId := (bus_socketToIncomingConnId s)(k \<mapsto> c),
       bus_connIdToIncomingEndpoint := (bus_connIdToIncomingEndpoint s)(c \<mapsto> source),
       bus_incomingSocketBuffers := (bus_incomingSocketBuffers s)(k \<mapsto> newMessageBuffer (bus_extraMessageSizeCheck s)),
       bus_readSockets := insert k (bus_readSockets s)\<rparr>))
     (fireEvent (NewIncomingConnection source c))))"

text \<open>Bytes have arrived on a socket. Only \<open>CorruptMessageStream\<close> is caught.\<close>

definition receiveBytes :: "('i, 'o) busenv \<Rightarrow> sock \<Rightarrow> bytes \<Rightarrow> ('i MessageBus, unit) pyM" where
  "receiveBytes env k bs =
     thenM (modify (\<lambda>s. s\<lparr>bus_totalBytesRead := bus_totalBytesRead s + int (length bs)\<rparr>))
     (bindM (gets bus_incomingSocketBuffers) (\<lambda>d. bindM (lookupM d k) (\<lambda>mb.
      case bufferWrite bs mb of (r, mb') \<Rightarrow>
      thenM (modify (\<lambda>s. s\<lparr>bus_incomingSocketBuffers := (bus_incomingSocketBuffers s)(k \<mapsto> mb')\<rparr>))
      (case r of
         Inl e \<Rightarrow> if e = CorruptMessageStream then markSocketClosed k else raise e
       | Inr newMessages \<Rightarrow>
           thenM (modify (\<lambda>s. let p = bus_totalBytesPendingInInputLoop s + (int (pendingBytecount mb') - int (pendingBytecount mb))
             in s\<lparr>bus_totalBytesPendingInInputLoop := p, bus_inputLoopHighWatermark := max p (bus_inputLoopHighWatermark s)\<rparr>))
             (handleMessages env k newMessages)))))"

definition handleReadReadySocket :: "('i, 'o) busenv \<Rightarrow> sock \<Rightarrow> accept_result \<Rightarrow> recv_result \<Rightarrow> ('i MessageBus, bool option) pyM" where
  "handleReadReadySocket env k accept recv =
     bindM (gets (\<lambda>s. (bus_acceptSocket s = Some k, k \<in> bus_readSockets s \<union> bus_writeSockets s))) (\<lambda>(isAccept, known).
       if isAccept
       then (case accept of
           AcceptFailed \<Rightarrow> ret (Some False)
         | Accepted source \<Rightarrow> thenM (acceptConnection source) (ret (Some True)))
       else if known
       then (case recv of
           RecvWantRead \<Rightarrow> ret None
         | RecvWantWrite \<Rightarrow> thenM (modify (\<lambda>s. s\<lparr>bus_socketsWithSslWantWrite := insert k (bus_socketsWithSslWantWrite s)\<rparr>)) (raise UnboundLocalError)
         | RecvError \<Rightarrow> thenM (markSocketClosed k) (ret (Some True))
         | Received bs \<Rightarrow> if bs = [] then thenM (markSocketClosed k) (ret (Some True)) else thenM (receiveBytes env k bs) (ret (Some True)))
       else ret None)"

section \<open>Events\<close>

definition handleEventToFire :: "rat \<Rightarrow> ('i MessageBus, unit) pyM" where
  "handleEventToFire now =
     bindM (gets bus_eventsToFireQueue) (\<lambda>events. case events of
       [] \<Rightarrow> raise QueueEmpty
     | item # rest \<Rightarrow>
         thenM (modify (\<lambda>s. s\<lparr>bus_eventsToFireQueue := rest\<rparr>))
         (case item of
            TriggerDisconnect c \<Rightarrow>
              bindM (gets (\<lambda>s. (c \<in> bus_connIdPendingOutgoingConnection s, chooseSocket c s))) (\<lambda>(pending, k).
                if pending then scheduleCallback now (Some (ScheduleDisconnect c)) None (Some (1 / 10))
                else (case k of Some k \<Rightarrow> markSocketClosed k | None \<Rightarrow> ret ()))
          | FireEvent event \<Rightarrow>
              (case event of
                 OutgoingConnectionEstablished c \<Rightarrow>
                   thenM (modify (\<lambda>s. case bus_connIdToOutgoingSocket s c of None \<Rightarrow> s | Some k \<Rightarrow> s\<lparr>bus_readSockets := insert k (bus_readSockets s)\<rparr>))
                     (fireEvent event)
               | Stopped \<Rightarrow> thenM (fireEvent event) (raise MessageBusLoopExit)
               | _ \<Rightarrow> fireEvent event)))"

fun consumeLoop :: "(nat \<Rightarrow> rat) \<Rightarrow> (rat \<times> callback) list \<Rightarrow> rat option \<times> (rat \<times> callback) list \<times> callback list" where
  "consumeLoop clock [] = (None, [], [])"
| "consumeLoop clock ((t, cb) # rest) =
     (if t \<le> clock 0 then (case consumeLoop (\<lambda>n. clock (Suc n)) rest of (r, left, cbs) \<Rightarrow> (r, left, cb # cbs))
      else (Some (max (t - clock 0) 0), (t, cb) # rest, []))"

definition consumeCallbacksOnOutputThread :: "(nat \<Rightarrow> rat) \<Rightarrow> ('i MessageBus, rat option) pyM" where
  "consumeCallbacksOnOutputThread clock =
     bindM (gets (\<lambda>s. consumeLoop clock (bus_pendingTimedCallbacks s))) (\<lambda>(r, left, cbs).
     thenM (modify (\<lambda>s. s\<lparr>bus_pendingTimedCallbacks := left, bus_eventQueue := bus_eventQueue s @ map ThreadCallback cbs\<rparr>)) (ret r))"

datatype connect_result = Connected | ConnectFailed

text \<open>\<open>_connectTo\<close>. The clean-up names the endpoint in a log message, which has no value if there was none, and deletes the entry of the socket twice.\<close>

definition establish :: "ConnectionId \<Rightarrow> ('i MessageBus, bool) pyM" where
  "establish c =
     bindM newSocket (\<lambda>k. thenM (modify (\<lambda>s. s\<lparr>bus_socketToOutgoingConnId := (bus_socketToOutgoingConnId s)(k \<mapsto> c), bus_connIdToOutgoingSocket := (bus_connIdToOutgoingSocket s)(c \<mapsto> k),
       bus_incomingSocketBuffers := (bus_incomingSocketBuffers s)(k \<mapsto> newMessageBuffer (bus_extraMessageSizeCheck s))\<rparr>))
     (bindM (gets (\<lambda>s. bus_messagesForUnconnected s c)) (\<lambda>messages.
      thenM (case messages of None \<Rightarrow> ret ()
          | Some ms \<Rightarrow> thenM (modify (\<lambda>s. s\<lparr>bus_messagesForUnconnected := (bus_messagesForUnconnected s)(c := None)\<rparr>)) (forM ms (scheduleBytesForWrite c)))
      (thenM (modify (\<lambda>s. s\<lparr>bus_connIdPendingOutgoingConnection := bus_connIdPendingOutgoingConnection s - {c}\<rparr>))
      (thenM (scheduleEvent (FireEvent (OutgoingConnectionEstablished c))) (ret True))))))"

definition cleanUp :: "ConnectionId \<Rightarrow> ('i MessageBus, bool) pyM" where
  "cleanUp c =
     thenM (modify (\<lambda>s. s\<lparr>bus_connIdToOutgoingEndpoint := (bus_connIdToOutgoingEndpoint s)(c := None),
       bus_connIdPendingOutgoingConnection := bus_connIdPendingOutgoingConnection s - {c},
       bus_messagesForUnconnected := (bus_messagesForUnconnected s)(c := None)\<rparr>))
     (bindM (gets (\<lambda>s. bus_connIdToOutgoingSocket s c)) (\<lambda>k.
      case k of
        Some k \<Rightarrow> thenM (modify (\<lambda>s. s\<lparr>bus_connIdToOutgoingSocket := (bus_connIdToOutgoingSocket s)(c := None),
            bus_socketToOutgoingConnId := (bus_socketToOutgoingConnId s)(k := None)\<rparr>)) (raise KeyError)
      | None \<Rightarrow> thenM (scheduleEvent (FireEvent (OutgoingConnectionFailed c))) (ret False)))"

definition connectTo :: "ConnectionId \<Rightarrow> connect_result \<Rightarrow> ('i MessageBus, bool) pyM" where
  "connectTo c r =
     bindM (gets (\<lambda>s. bus_connIdToOutgoingEndpoint s c)) (\<lambda>endpoint. case endpoint of
       None \<Rightarrow> raise UnboundLocalError
     | Some _ \<Rightarrow> catchM (case r of Connected \<Rightarrow> establish c | ConnectFailed \<Rightarrow> raise GenericException) (\<lambda>e. cleanUp c))"

text \<open>One round of the event thread, and whether it goes on; on an empty queue it waits. What the user's callbacks do is up to them; exceptions are caught.\<close>

definition eventThreadStep :: "connect_result \<Rightarrow> 'i MessageBus \<Rightarrow> bool \<times> 'i MessageBus" where
  "eventThreadStep r s = (case bus_eventQueue s of
       [] \<Rightarrow> (True, s)
     | item # rest \<Rightarrow>
         let s' = s\<lparr>bus_eventQueue := rest\<rparr> in
         (case item of
            ThreadStop \<Rightarrow> (False, s')
          | ThreadEvent event \<Rightarrow> (True, s')
          | ThreadCallback (ConnectTo c) \<Rightarrow> (True, snd (connectTo c r s'))
          | ThreadCallback (ScheduleDisconnect c) \<Rightarrow> (True, snd (scheduleEvent (TriggerDisconnect c) s'))
          | ThreadCallback (UserCallback n) \<Rightarrow> (True, s')))"

section \<open>The socket thread\<close>

definition MSG_BUF_SIZE :: nat where
  "MSG_BUF_SIZE = 128 * 1024"

definition handleMessageToSendWakePipe :: "('i, 'o) busenv \<Rightarrow> rat \<Rightarrow> ('i MessageBus, unit) pyM" where
  "handleMessageToSendWakePipe env now =
     bindM (gets (\<lambda>s. min MSG_BUF_SIZE (bus_messageToSendWakes s))) (\<lambda>n.
     thenM (modify (\<lambda>s. s\<lparr>bus_messageToSendWakes := bus_messageToSendWakes s - n\<rparr>)) (forM (replicate n ()) (\<lambda>_. handleMessageToSend env now)))"

definition handleEventToFireWakePipe :: "rat \<Rightarrow> ('i MessageBus, unit) pyM" where
  "handleEventToFireWakePipe now =
     bindM (gets (\<lambda>s. min MSG_BUF_SIZE (bus_eventToFireWakes s))) (\<lambda>n.
     thenM (modify (\<lambda>s. s\<lparr>bus_eventToFireWakes := bus_eventToFireWakes s - n\<rparr>)) (forM (replicate n ()) (\<lambda>_. handleEventToFire now)))"

definition handleGeneralWakePipe :: "('i MessageBus, unit) pyM" where
  "handleGeneralWakePipe = modify (\<lambda>s. s\<lparr>bus_generalWakes := bus_generalWakes s - min MSG_BUF_SIZE (bus_generalWakes s)\<rparr>)"

text \<open>What \<open>poll\<close> reports, with what the operating system answers to the calls that follow; or \<open>ValueError\<close> and the sockets found closed.\<close>

datatype ready = MessageToSendPipe | EventToFirePipe | GeneralPipe | ReadySocket sock accept_result recv_result

datatype poll_result = Polled "ready list" "(sock \<times> send_result) list" | PollFailed "sock list"

fun handleReady :: "('i, 'o) busenv \<Rightarrow> rat \<Rightarrow> bool \<Rightarrow> ready \<Rightarrow> ('i MessageBus, bool) pyM" where
  "handleReady env now can MessageToSendPipe = (if can then thenM (handleMessageToSendWakePipe env now) (ret True) else ret False)"
| "handleReady env now can EventToFirePipe = thenM (handleEventToFireWakePipe now) (ret True)"
| "handleReady env now can GeneralPipe = thenM handleGeneralWakePipe (ret True)"
| "handleReady env now can (ReadySocket k a r) = bindM (handleReadReadySocket env k a r) (\<lambda>b. ret (b = Some True))"

definition handleWriteable :: "sock \<times> send_result \<Rightarrow> bool \<Rightarrow> ('i MessageBus, bool) pyM" where
  "handleWriteable w did = bindM (handleWriteReadySocket (fst w) (snd w)) (\<lambda>b. ret (did \<or> b = Some True))"

text \<open>The loop over \<open>socketsWithSslWantWrite\<close> runs over the set that has just been cleared.\<close>

definition handlePolled :: "('i, 'o) busenv \<Rightarrow> rat \<Rightarrow> bool \<Rightarrow> nat \<Rightarrow> ready list \<Rightarrow> (sock \<times> send_result) list \<Rightarrow> ('i MessageBus, nat) pyM" where
  "handlePolled env now can selects readReady writeReady =
     bindM (foldMl (\<lambda>r did. bindM (handleReady env now can r) (\<lambda>b. ret (did \<or> b))) readReady False) (\<lambda>did.
     thenM (modify (\<lambda>s. s\<lparr>bus_socketsWithSslWantWrite := {}\<rparr>))
     (bindM (if selects < 10 then foldMl handleWriteable writeReady did else ret did) (\<lambda>did.
      ret (if did then 0 else selects + 1))))"

definition dropFailed :: "sock list \<Rightarrow> ('i MessageBus, unit) pyM" where
  "dropFailed failed = forM failed (\<lambda>k. modify (\<lambda>s. s\<lparr>bus_socketToBytesNeedingWrite := (bus_socketToBytesNeedingWrite s)(k := None), bus_lost := insert k (bus_lost s)\<rparr>))"

definition socketThreadRound :: "('i, 'o) busenv \<Rightarrow> (nat \<Rightarrow> rat) \<Rightarrow> rat \<Rightarrow> bool \<Rightarrow> nat \<Rightarrow> poll_result \<Rightarrow> ('i MessageBus, nat) pyM" where
  "socketThreadRound env clock now elapsed selectsWithNoUpdate polled =
     (let selects = (if elapsed then 0 else selectsWithNoUpdate) in
      bindM (gets canRead) (\<lambda>can.
      thenM (if can then thenM (consumeCallbacksOnOutputThread clock) (ret ()) else ret ())
      (thenM (modify (\<lambda>s. s\<lparr>bus_writeSockets := (if selects < 10 then bus_writeSockets s \<union> dom (bus_socketToBytesNeedingWrite s)
           else bus_writeSockets s - dom (bus_socketToBytesNeedingWrite s))\<rparr>))
      (case polled of
         PollFailed failed \<Rightarrow>
           thenM (modify (\<lambda>s. s\<lparr>bus_readSockets := bus_readSockets s - set failed, bus_writeSockets := bus_writeSockets s - set failed\<rparr>))
           (if failed = [] then raise ValueError else thenM (dropFailed failed) (ret selects))
       | Polled readReady writeReady \<Rightarrow> handlePolled env now can selects readReady writeReady))))"

text \<open>Whether the thread goes on: every exception but the one that ends the loop is logged and ignored.\<close>

definition socketThreadStep :: "('i, 'o) busenv \<Rightarrow> (nat \<Rightarrow> rat) \<Rightarrow> rat \<Rightarrow> bool \<Rightarrow> nat \<Rightarrow> poll_result \<Rightarrow> 'i MessageBus \<Rightarrow> nat option \<times> 'i MessageBus" where
  "socketThreadStep env clock now elapsed selects polled s =
     (case socketThreadRound env clock now elapsed selects polled s of
        (Inr n, t) \<Rightarrow> (Some n, t)
      | (Inl e, t) \<Rightarrow> (if e = MessageBusLoopExit then None else Some (if elapsed then 0 else selects), t))"

end
