(* ===== verification/Bus_Streams.thy ===== *)
theory Bus_Streams
  imports Message_Bus
begin

text \<open>
  What a message bus keeps true of its connections while its users, its socket thread and its event thread interleave: identifiers and sockets
  correspond, every outgoing connection that is still to be made has exactly one request for it under way, and the bytes written to a
  socket, followed by those that wait, are the frames of the messages handed to the connection.
\<close>

section \<open>What has been handed to a connection\<close>

fun itemConn :: "send_item \<Rightarrow> ConnectionId option" where
  "itemConn DisconnectedItem = None"
| "itemConn (TriggerConnect c) = Some c"
| "itemConn (SendBytes c m) = Some c"

text \<open>An empty message is never sent.\<close>

definition authMessage :: "('i, 'o) busenv \<Rightarrow> string option \<Rightarrow> bytes list" where
  "authMessage env token = (case token of None \<Rightarrow> [] | Some t \<Rightarrow> if be_encode env t = [] then [] else [be_encode env t])"

fun itemMessages :: "('i, 'o) busenv \<Rightarrow> string option \<Rightarrow> ConnectionId \<Rightarrow> send_item \<Rightarrow> bytes list" where
  "itemMessages env token c DisconnectedItem = []"
| "itemMessages env token c (TriggerConnect d) = (if d = c then authMessage env token else [])"
| "itemMessages env token c (SendBytes d m) = (if d = c \<and> m \<noteq> [] then [m] else [])"

definition messagesOf :: "('i, 'o) busenv \<Rightarrow> string option \<Rightarrow> ConnectionId \<Rightarrow> send_item list \<Rightarrow> bytes list" where
  "messagesOf env token c items = concat (map (itemMessages env token c) items)"

definition handed :: "('i, 'o) busenv \<Rightarrow> ConnectionId \<Rightarrow> 'i MessageBus \<Rightarrow> bytes list" where
  "handed env c s = messagesOf env (bus_authToken s) c (bus_taken s)"

definition needing :: "sock \<Rightarrow> 'i MessageBus \<Rightarrow> bytes" where
  "needing k s = (case bus_socketToBytesNeedingWrite s k of None \<Rightarrow> [] | Some bs \<Rightarrow> bs)"

definition heldBack :: "ConnectionId \<Rightarrow> 'i MessageBus \<Rightarrow> bytes list" where
  "heldBack c s = (case bus_messagesForUnconnected s c of None \<Rightarrow> [] | Some ms \<Rightarrow> ms)"

definition connectRequests :: "ConnectionId \<Rightarrow> 'i MessageBus \<Rightarrow> nat" where
  "connectRequests c s = count_list (bq_queue (bus_messagesToSendQueue s)) (TriggerConnect c)
     + count_list (map snd (bus_pendingTimedCallbacks s)) (ConnectTo c) + count_list (bus_eventQueue s) (ThreadCallback (ConnectTo c))"

lemma messagesOf_simps [simp]:
  "messagesOf env token c [] = []"
  "messagesOf env token c (items @ items') = messagesOf env token c items @ messagesOf env token c items'"
  "messagesOf env token c (i # items) = itemMessages env token c i @ messagesOf env token c items"
  by (simp_all add: messagesOf_def)

lemma messagesOf_other: "\<forall>i \<in> set items. itemConn i \<noteq> Some c \<Longrightarrow> messagesOf env token c items = []"
proof (induction items)
  case (Cons i items)
  then show ?case by (cases i) auto
qed simp

lemma itemMessages_other: "itemConn i \<noteq> Some c \<Longrightarrow> itemMessages env token c i = []"
  by (cases i) auto

lemma count_list_append [simp]: "count_list (xs @ ys) x = count_list xs x + count_list ys x"
  by (induction xs) auto

section \<open>The invariant\<close>

definition sockets_ok :: "'i MessageBus \<Rightarrow> bool" where
  "sockets_ok s \<longleftrightarrow>
     (\<forall>c k. bus_connIdToOutgoingSocket s c = Some k \<longleftrightarrow> bus_socketToOutgoingConnId s k = Some c)
   \<and> (\<forall>c k. bus_connIdToIncomingSocket s c = Some k \<longleftrightarrow> bus_socketToIncomingConnId s k = Some c)
   \<and> (\<forall>c k. bus_connIdToOutgoingSocket s c = Some k \<longrightarrow> k < bus_sockets s \<and> bus_connIdToOutgoingEndpoint s c \<noteq> None \<and> bus_incomingSocketBuffers s k \<noteq> None
        \<and> bus_socketToIncomingConnId s k = None)
   \<and> (\<forall>c k. bus_connIdToIncomingSocket s c = Some k \<longrightarrow> k < bus_sockets s \<and> bus_connIdToIncomingEndpoint s c \<noteq> None \<and> bus_incomingSocketBuffers s k \<noteq> None)"

definition ids_ok :: "'i MessageBus \<Rightarrow> bool" where
  "ids_ok s \<longleftrightarrow>
     (\<forall>c. bus_connIdToOutgoingEndpoint s c \<noteq> None \<longrightarrow> c \<le> bus_connectionIdCounter s \<and> bus_connIdToIncomingEndpoint s c = None)
   \<and> (\<forall>c. bus_connIdToIncomingEndpoint s c \<noteq> None \<longrightarrow> c \<le> bus_connectionIdCounter s)
   \<and> (\<forall>c \<in> bus_connIdPendingOutgoingConnection s. bus_connIdToOutgoingEndpoint s c \<noteq> None \<and> bus_connIdToOutgoingSocket s c = None)
   \<and> (\<forall>c. bus_messagesForUnconnected s c \<noteq> None \<longrightarrow> c \<le> bus_connectionIdCounter s)
   \<and> (\<forall>i \<in> set (bus_submitted s). \<forall>c. itemConn i = Some c \<longrightarrow> c \<le> bus_connectionIdCounter s)"

definition queue_ok :: "'i MessageBus \<Rightarrow> bool" where
  "queue_ok s \<longleftrightarrow> bus_submitted s = bus_taken s @ bq_queue (bus_messagesToSendQueue s)
   \<and> (\<forall>c. connectRequests c s = (if c \<in> bus_connIdPendingOutgoingConnection s then 1 else 0))"

definition itemsFor :: "ConnectionId \<Rightarrow> send_item list \<Rightarrow> send_item list" where
  "itemsFor c items = filter (\<lambda>i. itemConn i = Some c) items"

text \<open>The request to connect comes before everything else on an outgoing connection; on an incoming one there is none.\<close>

definition submission_ok :: "'i MessageBus \<Rightarrow> bool" where
  "submission_ok s \<longleftrightarrow>
     (\<forall>c. bus_connIdToOutgoingEndpoint s c \<noteq> None \<longrightarrow> (\<exists>ms. itemsFor c (bus_submitted s) = TriggerConnect c # map (SendBytes c) ms))
   \<and> (\<forall>c. bus_connIdToIncomingEndpoint s c \<noteq> None \<longrightarrow> (\<exists>ms. itemsFor c (bus_submitted s) = map (SendBytes c) ms))"

text \<open>What has been written to a socket and what waits for it are the frames of the messages \<open>H c\<close> for its connection.\<close>

definition streams_with :: "(ConnectionId \<Rightarrow> bytes list) \<Rightarrow> 'i MessageBus \<Rightarrow> bool" where
  "streams_with H s \<longleftrightarrow>
     (\<forall>c k. chooseSocket c s = Some k \<longrightarrow> k \<notin> bus_lost s \<longrightarrow>
        bus_wire s k @ needing k s = concat (map (frame (bus_extraMessageSizeCheck s)) (filter fits (H c))))
   \<and> (\<forall>c \<in> bus_connIdPendingOutgoingConnection s. chooseSocket c s = None \<longrightarrow> heldBack c s = H c)
   \<and> (\<forall>k \<ge> bus_sockets s. bus_wire s k = [] \<and> bus_socketToBytesNeedingWrite s k = None)"

definition streams_ok :: "('i, 'o) busenv \<Rightarrow> 'i MessageBus \<Rightarrow> bool" where
  "streams_ok env s \<longleftrightarrow> streams_with (\<lambda>c. handed env c s) s"

definition bus_ok :: "('i, 'o) busenv \<Rightarrow> 'i MessageBus \<Rightarrow> bool" where
  "bus_ok env s \<longleftrightarrow> sockets_ok s \<and> ids_ok s \<and> queue_ok s \<and> submission_ok s \<and> streams_ok env s"

lemmas bus_ok_defs = bus_ok_def sockets_ok_def ids_ok_def queue_ok_def submission_ok_def streams_ok_def streams_with_def connectRequests_def chooseSocket_def
  handed_def needing_def heldBack_def

lemma bus_okI: "sockets_ok s \<Longrightarrow> ids_ok s \<Longrightarrow> queue_ok s \<Longrightarrow> submission_ok s \<Longrightarrow> streams_ok env s \<Longrightarrow> bus_ok env s"
  by (simp add: bus_ok_def)

lemma bus_okD:
  assumes "bus_ok env s"
  shows "sockets_ok s" "ids_ok s" "queue_ok s" "submission_ok s" "streams_ok env s"
  using assms by (simp_all add: bus_ok_def)

text \<open>The fields it says nothing about.\<close>

lemma bus_ok_frame:
  assumes "bus_connIdToOutgoingSocket t = bus_connIdToOutgoingSocket s" "bus_connIdToIncomingSocket t = bus_connIdToIncomingSocket s"
    "bus_socketToOutgoingConnId t = bus_socketToOutgoingConnId s" "bus_socketToIncomingConnId t = bus_socketToIncomingConnId s"
    "bus_connIdToOutgoingEndpoint t = bus_connIdToOutgoingEndpoint s" "bus_connIdToIncomingEndpoint t = bus_connIdToIncomingEndpoint s"
    "bus_connIdPendingOutgoingConnection t = bus_connIdPendingOutgoingConnection s" "bus_messagesForUnconnected t = bus_messagesForUnconnected s"
    "bus_connectionIdCounter t = bus_connectionIdCounter s" "bus_sockets t = bus_sockets s" "bus_lost t = bus_lost s" "bus_wire t = bus_wire s"
    "bus_socketToBytesNeedingWrite t = bus_socketToBytesNeedingWrite s" "dom (bus_incomingSocketBuffers t) = dom (bus_incomingSocketBuffers s)"
    "bus_submitted t = bus_submitted s" "bus_taken t = bus_taken s" "bus_authToken t = bus_authToken s"
    "bus_extraMessageSizeCheck t = bus_extraMessageSizeCheck s" "bq_queue (bus_messagesToSendQueue t) = bq_queue (bus_messagesToSendQueue s)"
    "\<And>c. connectRequests c t = connectRequests c s"
  shows "bus_ok env t = bus_ok env s"
proof -
  have "(bus_incomingSocketBuffers t k \<noteq> None) = (bus_incomingSocketBuffers s k \<noteq> None)" for k using assms(14) by (auto simp: dom_def)
  then show ?thesis
    unfolding bus_ok_def sockets_ok_def ids_ok_def queue_ok_def submission_ok_def streams_ok_def streams_with_def chooseSocket_def handed_def needing_def heldBack_def
    by (simp only: assms)
qed

lemma bus_ok_other_fields [simp]:
  "bus_ok env (s\<lparr>bus_started := b\<rparr>) = bus_ok env s"
  "bus_ok env (s\<lparr>bus_acceptSocket := a\<rparr>) = bus_ok env s"
  "bus_ok env (s\<lparr>bus_unauthenticatedConnections := u\<rparr>) = bus_ok env s"
  "bus_ok env (s\<lparr>bus_messageToSendWakes := n\<rparr>) = bus_ok env s"
  "bus_ok env (s\<lparr>bus_eventToFireWakes := n\<rparr>) = bus_ok env s"
  "bus_ok env (s\<lparr>bus_generalWakes := n\<rparr>) = bus_ok env s"
  "bus_ok env (s\<lparr>bus_totalBytesPendingInOutputLoop := i\<rparr>) = bus_ok env s"
  "bus_ok env (s\<lparr>bus_totalBytesWritten := i\<rparr>) = bus_ok env s"
  "bus_ok env (s\<lparr>bus_totalBytesPendingInInputLoop := i\<rparr>) = bus_ok env s"
  "bus_ok env (s\<lparr>bus_inputLoopHighWatermark := i\<rparr>) = bus_ok env s"
  "bus_ok env (s\<lparr>bus_totalBytesRead := i\<rparr>) = bus_ok env s"
  "bus_ok env (s\<lparr>bus_eventsToFireQueue := es\<rparr>) = bus_ok env s"
  "bus_ok env (s\<lparr>bus_socketsWithSslWantWrite := ks\<rparr>) = bus_ok env s"
  "bus_ok env (s\<lparr>bus_readSockets := ks\<rparr>) = bus_ok env s"
  "bus_ok env (s\<lparr>bus_writeSockets := ks\<rparr>) = bus_ok env s"
  "bus_ok env (s\<lparr>bus_closed := ks\<rparr>) = bus_ok env s"
  by (rule bus_ok_frame; simp add: connectRequests_def)+

lemma bus_ok_eventQueue [simp]:
  "(\<And>c. count_list es (ThreadCallback (ConnectTo c)) = count_list (bus_eventQueue s) (ThreadCallback (ConnectTo c))) \<Longrightarrow>
   bus_ok env (s\<lparr>bus_eventQueue := es\<rparr>) = bus_ok env s"
  by (rule bus_ok_frame; simp add: connectRequests_def)

section \<open>Closing\<close>

lemma sockets_okD:
  assumes "sockets_ok s"
  shows "bus_connIdToOutgoingSocket s c = Some k \<longleftrightarrow> bus_socketToOutgoingConnId s k = Some c"
    and "bus_connIdToIncomingSocket s c = Some k \<longleftrightarrow> bus_socketToIncomingConnId s k = Some c"
    and "bus_connIdToOutgoingSocket s c = Some k \<Longrightarrow> k < bus_sockets s \<and> bus_connIdToOutgoingEndpoint s c \<noteq> None \<and> bus_incomingSocketBuffers s k \<noteq> None
        \<and> bus_socketToIncomingConnId s k = None"
    and "bus_connIdToIncomingSocket s c = Some k \<Longrightarrow> k < bus_sockets s \<and> bus_connIdToIncomingEndpoint s c \<noteq> None \<and> bus_incomingSocketBuffers s k \<noteq> None"
proof -
  note a = assms[unfolded sockets_ok_def] and b = conjunct2[OF assms[unfolded sockets_ok_def]]
  show "bus_connIdToOutgoingSocket s c = Some k \<longleftrightarrow> bus_socketToOutgoingConnId s k = Some c" using conjunct1[OF a] by blast
  show "bus_connIdToIncomingSocket s c = Some k \<longleftrightarrow> bus_socketToIncomingConnId s k = Some c" using conjunct1[OF b] by blast
  show "bus_connIdToOutgoingSocket s c = Some k \<Longrightarrow> k < bus_sockets s \<and> bus_connIdToOutgoingEndpoint s c \<noteq> None \<and> bus_incomingSocketBuffers s k \<noteq> None
        \<and> bus_socketToIncomingConnId s k = None" using conjunct1[OF conjunct2[OF b]] by blast
  show "bus_connIdToIncomingSocket s c = Some k \<Longrightarrow> k < bus_sockets s \<and> bus_connIdToIncomingEndpoint s c \<noteq> None \<and> bus_incomingSocketBuffers s k \<noteq> None"
    using conjunct2[OF conjunct2[OF b]] by blast
qed

lemma sockets_okI:
  assumes "\<And>c k. bus_connIdToOutgoingSocket s c = Some k \<longleftrightarrow> bus_socketToOutgoingConnId s k = Some c"
    and "\<And>c k. bus_connIdToIncomingSocket s c = Some k \<longleftrightarrow> bus_socketToIncomingConnId s k = Some c"
    and "\<And>c k. bus_connIdToOutgoingSocket s c = Some k \<Longrightarrow> k < bus_sockets s \<and> bus_connIdToOutgoingEndpoint s c \<noteq> None \<and> bus_incomingSocketBuffers s k \<noteq> None
        \<and> bus_socketToIncomingConnId s k = None"
    and "\<And>c k. bus_connIdToIncomingSocket s c = Some k \<Longrightarrow> k < bus_sockets s \<and> bus_connIdToIncomingEndpoint s c \<noteq> None \<and> bus_incomingSocketBuffers s k \<noteq> None"
  shows "sockets_ok s"
  unfolding sockets_ok_def by (intro conjI; (intro allI)?; (rule assms | (rule impI, rule assms, assumption)))

lemma ids_okD:
  assumes "ids_ok s"
  shows "bus_connIdToOutgoingEndpoint s c \<noteq> None \<Longrightarrow> c \<le> bus_connectionIdCounter s \<and> bus_connIdToIncomingEndpoint s c = None"
    and "bus_connIdToIncomingEndpoint s c \<noteq> None \<Longrightarrow> c \<le> bus_connectionIdCounter s"
    and "c \<in> bus_connIdPendingOutgoingConnection s \<Longrightarrow> bus_connIdToOutgoingEndpoint s c \<noteq> None \<and> bus_connIdToOutgoingSocket s c = None"
    and "bus_messagesForUnconnected s c \<noteq> None \<Longrightarrow> c \<le> bus_connectionIdCounter s"
    and "i \<in> set (bus_submitted s) \<Longrightarrow> itemConn i = Some c \<Longrightarrow> c \<le> bus_connectionIdCounter s"
proof -
  note a = assms[unfolded ids_ok_def] and b = conjunct2[OF assms[unfolded ids_ok_def]]
  note d = conjunct2[OF b] and e = conjunct2[OF conjunct2[OF b]]
  show "bus_connIdToOutgoingEndpoint s c \<noteq> None \<Longrightarrow> c \<le> bus_connectionIdCounter s \<and> bus_connIdToIncomingEndpoint s c = None" using conjunct1[OF a] by blast
  show "bus_connIdToIncomingEndpoint s c \<noteq> None \<Longrightarrow> c \<le> bus_connectionIdCounter s" using conjunct1[OF b] by blast
  show "c \<in> bus_connIdPendingOutgoingConnection s \<Longrightarrow> bus_connIdToOutgoingEndpoint s c \<noteq> None \<and> bus_connIdToOutgoingSocket s c = None" using conjunct1[OF d] by blast
  show "bus_messagesForUnconnected s c \<noteq> None \<Longrightarrow> c \<le> bus_connectionIdCounter s" using conjunct1[OF e] by blast
  show "i \<in> set (bus_submitted s) \<Longrightarrow> itemConn i = Some c \<Longrightarrow> c \<le> bus_connectionIdCounter s" using conjunct2[OF e] by blast
qed

lemma ids_okI:
  assumes "\<And>c. bus_connIdToOutgoingEndpoint s c \<noteq> None \<Longrightarrow> c \<le> bus_connectionIdCounter s \<and> bus_connIdToIncomingEndpoint s c = None"
    and "\<And>c. bus_connIdToIncomingEndpoint s c \<noteq> None \<Longrightarrow> c \<le> bus_connectionIdCounter s"
    and "\<And>c. c \<in> bus_connIdPendingOutgoingConnection s \<Longrightarrow> bus_connIdToOutgoingEndpoint s c \<noteq> None \<and> bus_connIdToOutgoingSocket s c = None"
    and "\<And>c. bus_messagesForUnconnected s c \<noteq> None \<Longrightarrow> c \<le> bus_connectionIdCounter s"
    and "\<And>i c. i \<in> set (bus_submitted s) \<Longrightarrow> itemConn i = Some c \<Longrightarrow> c \<le> bus_connectionIdCounter s"
  shows "ids_ok s"
  unfolding ids_ok_def by (intro conjI; (intro allI ballI impI)?; (rule assms, assumption | rule assms, assumption, assumption))

lemma streams_withD:
  assumes "streams_with H s"
  shows "chooseSocket c s = Some k \<Longrightarrow> k \<notin> bus_lost s \<Longrightarrow>
        bus_wire s k @ needing k s = concat (map (frame (bus_extraMessageSizeCheck s)) (filter fits (H c)))"
    and "c \<in> bus_connIdPendingOutgoingConnection s \<Longrightarrow> chooseSocket c s = None \<Longrightarrow> heldBack c s = H c"
    and "k \<ge> bus_sockets s \<Longrightarrow> bus_wire s k = [] \<and> bus_socketToBytesNeedingWrite s k = None"
  using assms unfolding streams_with_def by blast+

lemma streams_withI:
  assumes "\<And>c k. chooseSocket c s = Some k \<Longrightarrow> k \<notin> bus_lost s \<Longrightarrow>
        bus_wire s k @ needing k s = concat (map (frame (bus_extraMessageSizeCheck s)) (filter fits (H c)))"
    and "\<And>c. c \<in> bus_connIdPendingOutgoingConnection s \<Longrightarrow> chooseSocket c s = None \<Longrightarrow> heldBack c s = H c"
    and "\<And>k. k \<ge> bus_sockets s \<Longrightarrow> bus_wire s k = [] \<and> bus_socketToBytesNeedingWrite s k = None"
  shows "streams_with H s"
  using assms unfolding streams_with_def by blast

lemma chooseSocket_inj: "sockets_ok s \<Longrightarrow> chooseSocket c s = Some k \<Longrightarrow> chooseSocket d s = Some k \<Longrightarrow> c = d"
proof -
  assume so: "sockets_ok s" and c: "chooseSocket c s = Some k" and d: "chooseSocket d s = Some k"
  note out = sockets_okD(3)[OF so] and iffs = sockets_okD(1,2)[OF so]
  show "c = d"
    using c d out[of c k] out[of d k] iffs[of c k] iffs[of d k] by (auto simp: chooseSocket_def split: option.splits)
qed

lemma chooseSocket_bound: "sockets_ok s \<Longrightarrow> chooseSocket c s = Some k \<Longrightarrow> k < bus_sockets s"
  using sockets_okD(3)[of s c k] sockets_okD(4)[of s c k] by (auto simp: chooseSocket_def split: option.splits)

lemma chooseSocket_pending:
  assumes "sockets_ok s" "ids_ok s" "c \<in> bus_connIdPendingOutgoingConnection s"
  shows "chooseSocket c s = None"
proof -
  have "bus_connIdToOutgoingSocket s c = None" "bus_connIdToIncomingEndpoint s c = None"
    using ids_okD(3)[OF assms(2,3)] ids_okD(1)[OF assms(2), of c] by simp_all
  moreover from this have "bus_connIdToIncomingSocket s c = None" using sockets_okD(4)[OF assms(1), of c] by (cases "bus_connIdToIncomingSocket s c") auto
  ultimately show ?thesis by (simp add: chooseSocket_def)
qed

definition closedIncoming :: "sock \<Rightarrow> ConnectionId \<Rightarrow> 'i MessageBus \<Rightarrow> 'i MessageBus" where
  "closedIncoming k c s = s\<lparr>bus_unauthenticatedConnections := bus_unauthenticatedConnections s - {c},
     bus_connIdToIncomingSocket := (bus_connIdToIncomingSocket s)(c := None), bus_socketToIncomingConnId := (bus_socketToIncomingConnId s)(k := None),
     bus_connIdToIncomingEndpoint := (bus_connIdToIncomingEndpoint s)(c := None), bus_incomingSocketBuffers := (bus_incomingSocketBuffers s)(k := None),
     bus_socketToBytesNeedingWrite := (bus_socketToBytesNeedingWrite s)(k := None)\<rparr>"

definition closedOutgoing :: "sock \<Rightarrow> ConnectionId \<Rightarrow> 'i MessageBus \<Rightarrow> 'i MessageBus" where
  "closedOutgoing k c s = s\<lparr>bus_connIdToOutgoingEndpoint := (bus_connIdToOutgoingEndpoint s)(c := None),
     bus_socketToOutgoingConnId := (bus_socketToOutgoingConnId s)(k := None), bus_connIdToOutgoingSocket := (bus_connIdToOutgoingSocket s)(c := None),
     bus_incomingSocketBuffers := (bus_incomingSocketBuffers s)(k := None), bus_socketToBytesNeedingWrite := (bus_socketToBytesNeedingWrite s)(k := None)\<rparr>"

text \<open>In a state of the bus none of the deletions raises \<open>KeyError\<close>.\<close>

lemma forgetIncoming_run:
  assumes "sockets_ok s" "bus_socketToIncomingConnId s k = Some c"
  shows "forgetIncoming k c s = (Inr (), closedIncoming k c s)"
proof -
  have "bus_connIdToIncomingSocket s c = Some k" using assms by (simp add: sockets_okD(2))
  moreover from this have "bus_connIdToIncomingEndpoint s c \<noteq> None" "bus_incomingSocketBuffers s k \<noteq> None" using sockets_okD(4)[OF assms(1)] by blast+
  ultimately show ?thesis using assms(2) by (simp add: forgetIncoming_def delM_def forgetBytes_def closedIncoming_def)
qed

lemma forgetOutgoing_run:
  assumes "sockets_ok s" "bus_socketToOutgoingConnId s k = Some c"
  shows "forgetOutgoing k c s = (Inr (), closedOutgoing k c s)"
proof -
  have "bus_connIdToOutgoingSocket s c = Some k" using assms by (simp add: sockets_okD(1))
  moreover from this have "bus_connIdToOutgoingEndpoint s c \<noteq> None" "bus_incomingSocketBuffers s k \<noteq> None" using sockets_okD(3)[OF assms(1)] by blast+
  ultimately show ?thesis using assms(2) by (simp add: forgetOutgoing_def delM_def forgetBytes_def closedOutgoing_def)
qed

lemma closedIncoming_ok:
  assumes ok: "bus_ok env s" and k: "bus_socketToIncomingConnId s k = Some c"
  shows "bus_ok env (closedIncoming k c s)"
proof (rule bus_okI)
  note so = bus_okD(1)[OF ok] and ids = bus_okD(2)[OF ok] and st = bus_okD(5)[OF ok]
  have c: "bus_connIdToIncomingSocket s c = Some k" using k by (simp add: sockets_okD(2)[OF so])
  have inj: "bus_connIdToIncomingSocket s d \<noteq> Some k" if "d \<noteq> c" for d using k that by (simp add: sockets_okD(2)[OF so])
  have out: "bus_connIdToOutgoingSocket s d \<noteq> Some k" for d using k sockets_okD(3)[OF so, of d k] by auto
  show "sockets_ok (closedIncoming k c s)"
  proof (rule sockets_okI)
    fix d j
    note facts = sockets_okD[OF so, of d j]
    show "bus_connIdToOutgoingSocket (closedIncoming k c s) d = Some j \<longleftrightarrow> bus_socketToOutgoingConnId (closedIncoming k c s) j = Some d"
      using facts(1) by (simp add: closedIncoming_def)
    show "bus_connIdToIncomingSocket (closedIncoming k c s) d = Some j \<longleftrightarrow> bus_socketToIncomingConnId (closedIncoming k c s) j = Some d"
      using facts(2) c k inj[of d] by (cases "d = c"; cases "j = k") (simp_all add: closedIncoming_def)
    show "j < bus_sockets (closedIncoming k c s) \<and> bus_connIdToOutgoingEndpoint (closedIncoming k c s) d \<noteq> None \<and> bus_incomingSocketBuffers (closedIncoming k c s) j \<noteq> None
        \<and> bus_socketToIncomingConnId (closedIncoming k c s) j = None" if "bus_connIdToOutgoingSocket (closedIncoming k c s) d = Some j"
      using that facts(3) c k inj[of d] out[of d] by (auto simp: closedIncoming_def split: if_splits)
    show "j < bus_sockets (closedIncoming k c s) \<and> bus_connIdToIncomingEndpoint (closedIncoming k c s) d \<noteq> None \<and> bus_incomingSocketBuffers (closedIncoming k c s) j \<noteq> None"
      if "bus_connIdToIncomingSocket (closedIncoming k c s) d = Some j"
      using that facts(4) c k inj[of d] out[of d] by (auto simp: closedIncoming_def split: if_splits)
  qed
  show "ids_ok (closedIncoming k c s)"
    using ids unfolding ids_ok_def closedIncoming_def by (simp del: split_paired_All)
  show "queue_ok (closedIncoming k c s)"
    using bus_okD(3)[OF ok] unfolding queue_ok_def closedIncoming_def connectRequests_def by simp
  show "submission_ok (closedIncoming k c s)"
    using bus_okD(4)[OF ok] unfolding submission_ok_def closedIncoming_def by simp
  have "chooseSocket d s = Some j \<and> j \<noteq> k" if "chooseSocket d (closedIncoming k c s) = Some j" for d j
    using that inj out[of d] by (auto simp: chooseSocket_def closedIncoming_def split: option.splits if_splits)
  then show "streams_ok env (closedIncoming k c s)"
    using streams_withD[OF st[unfolded streams_ok_def]] chooseSocket_pending[OF so ids] unfolding streams_ok_def
    by (intro streams_withI) (fastforce simp: closedIncoming_def handed_def needing_def heldBack_def)+
qed

lemma closedOutgoing_ok:
  assumes ok: "bus_ok env s" and k: "bus_socketToOutgoingConnId s k = Some c"
  shows "bus_ok env (closedOutgoing k c s)"
proof (rule bus_okI)
  note so = bus_okD(1)[OF ok] and ids = bus_okD(2)[OF ok] and st = bus_okD(5)[OF ok]
  have c: "bus_connIdToOutgoingSocket s c = Some k" using k by (simp add: sockets_okD(1)[OF so])
  have inj: "bus_connIdToOutgoingSocket s d \<noteq> Some k" if "d \<noteq> c" for d using k that by (simp add: sockets_okD(1)[OF so])
  have sti: "bus_socketToIncomingConnId s k = None" using sockets_okD(3)[OF so c] by simp
  then have inc: "bus_connIdToIncomingSocket s d \<noteq> Some k" for d by (simp add: sockets_okD(2)[OF so])
  have ep: "bus_connIdToIncomingSocket s c = None"
  proof (rule ccontr)
    assume "bus_connIdToIncomingSocket s c \<noteq> None"
    then have "bus_connIdToIncomingEndpoint s c \<noteq> None" using sockets_okD(4)[OF so] by blast
    moreover have "bus_connIdToOutgoingEndpoint s c \<noteq> None" using sockets_okD(3)[OF so c] by blast
    ultimately show False using ids_okD(1)[OF ids, of c] by auto
  qed
  have pend: "c \<notin> bus_connIdPendingOutgoingConnection s" using c ids_okD(3)[OF ids, of c] by auto
  show "sockets_ok (closedOutgoing k c s)"
  proof (rule sockets_okI)
    fix d j
    note facts = sockets_okD[OF so, of d j]
    show "bus_connIdToOutgoingSocket (closedOutgoing k c s) d = Some j \<longleftrightarrow> bus_socketToOutgoingConnId (closedOutgoing k c s) j = Some d"
      using facts(1) c k inj[of d] by (cases "d = c"; cases "j = k") (simp_all add: closedOutgoing_def)
    show "bus_connIdToIncomingSocket (closedOutgoing k c s) d = Some j \<longleftrightarrow> bus_socketToIncomingConnId (closedOutgoing k c s) j = Some d"
      using facts(2) by (simp add: closedOutgoing_def)
    show "j < bus_sockets (closedOutgoing k c s) \<and> bus_connIdToOutgoingEndpoint (closedOutgoing k c s) d \<noteq> None \<and> bus_incomingSocketBuffers (closedOutgoing k c s) j \<noteq> None
        \<and> bus_socketToIncomingConnId (closedOutgoing k c s) j = None" if "bus_connIdToOutgoingSocket (closedOutgoing k c s) d = Some j"
      using that facts(3) c k inj[of d] inc[of d] by (auto simp: closedOutgoing_def split: if_splits)
    show "j < bus_sockets (closedOutgoing k c s) \<and> bus_connIdToIncomingEndpoint (closedOutgoing k c s) d \<noteq> None \<and> bus_incomingSocketBuffers (closedOutgoing k c s) j \<noteq> None"
      if "bus_connIdToIncomingSocket (closedOutgoing k c s) d = Some j"
      using that facts(4) c k inj[of d] inc[of d] by (auto simp: closedOutgoing_def split: if_splits)
  qed
  show "ids_ok (closedOutgoing k c s)"
    using ids pend unfolding ids_ok_def closedOutgoing_def by (simp del: split_paired_All) blast
  show "queue_ok (closedOutgoing k c s)"
    using bus_okD(3)[OF ok] unfolding queue_ok_def closedOutgoing_def connectRequests_def by simp
  show "submission_ok (closedOutgoing k c s)"
    using bus_okD(4)[OF ok] unfolding submission_ok_def closedOutgoing_def by simp
  have "chooseSocket d s = Some j \<and> j \<noteq> k" if "chooseSocket d (closedOutgoing k c s) = Some j" for d j
    using that inj inc[of d] ep by (auto simp: chooseSocket_def closedOutgoing_def split: option.splits if_splits)
  then show "streams_ok env (closedOutgoing k c s)"
    using streams_withD[OF st[unfolded streams_ok_def]] chooseSocket_pending[OF so ids] unfolding streams_ok_def
    by (intro streams_withI) (fastforce simp: closedOutgoing_def handed_def needing_def heldBack_def)+
qed

lemma keeps_fireEvent [keeps_rules]: "keeps (bus_ok env) (fireEvent e)"
  by (simp add: fireEvent_def keeps_modify)

lemma keeps_scheduleEvent [keeps_rules]: "keeps (bus_ok env) (scheduleEvent e)"
  by (simp add: scheduleEvent_def keeps_modify)

lemma keeps_markSocketClosed [keeps_rules]: "keeps (bus_ok env) (markSocketClosed k)"
proof (rule keepsI)
  fix s :: "'a MessageBus" assume ok: "bus_ok env s"
  note run = forgetIncoming_run[OF bus_okD(1)[OF ok]] forgetOutgoing_run[OF bus_okD(1)[OF ok]]
  show "bus_ok env (snd (markSocketClosed k s))"
  proof (cases "bus_socketToIncomingConnId s k")
    case (Some c)
    then show ?thesis using closedIncoming_ok[OF ok Some] run(1)[OF Some]
      by (simp add: markSocketClosed_def ensureSocketClosed_def fireEvent_def)
  next
    case None
    then show ?thesis
    proof (cases "bus_socketToOutgoingConnId s k")
      case (Some c)
      with None show ?thesis using closedOutgoing_ok[OF ok Some] run(2)[OF Some]
        by (simp add: markSocketClosed_def ensureSocketClosed_def fireEvent_def)
    next
      case none: None
      with None ok show ?thesis by (simp add: markSocketClosed_def ensureSocketClosed_def)
    qed
  qed
qed

section \<open>Writing\<close>

text \<open>A change that concerns only the bytes on their way.\<close>

lemma bus_ok_bytes:
  assumes ok: "bus_ok env s"
    and same: "sockets_ok s \<Longrightarrow> sockets_ok t" "ids_ok s \<Longrightarrow> ids_ok t" "queue_ok s \<Longrightarrow> queue_ok t" "submission_ok s \<Longrightarrow> submission_ok t"
      "bus_sockets t = bus_sockets s" "bus_connIdPendingOutgoingConnection t = bus_connIdPendingOutgoingConnection s"
      "bus_extraMessageSizeCheck t = bus_extraMessageSizeCheck s" "\<And>c. chooseSocket c t = chooseSocket c s" "\<And>c. handed env c t = handed env c s"
      "\<And>c. heldBack c t = heldBack c s"
    and bytes: "\<And>k. k \<notin> bus_lost t \<Longrightarrow> k \<notin> bus_lost s \<and> bus_wire t k @ needing k t = bus_wire s k @ needing k s"
    and fresh: "\<And>k. k \<ge> bus_sockets s \<Longrightarrow> bus_wire t k = bus_wire s k \<and> (bus_socketToBytesNeedingWrite s k = None \<longrightarrow> bus_socketToBytesNeedingWrite t k = None)"
  shows "bus_ok env t"
proof (rule bus_okI)
  note st = bus_okD(5)[OF ok, unfolded streams_ok_def]
  show "streams_ok env t"
    unfolding streams_ok_def
  proof (rule streams_withI)
    fix c k assume "chooseSocket c t = Some k" "k \<notin> bus_lost t"
    then show "bus_wire t k @ needing k t = concat (map (frame (bus_extraMessageSizeCheck t)) (filter fits (handed env c t)))"
      using bytes[of k] streams_withD(1)[OF st, of c k] by (simp add: same)
  next
    fix c assume "c \<in> bus_connIdPendingOutgoingConnection t" "chooseSocket c t = None"
    then show "heldBack c t = handed env c t" using streams_withD(2)[OF st, of c] by (simp add: same)
  next
    fix k assume "bus_sockets t \<le> k"
    then show "bus_wire t k = [] \<and> bus_socketToBytesNeedingWrite t k = None" using fresh[of k] streams_withD(3)[OF st, of k] by (simp add: same)
  qed
qed (use bus_okD[OF ok] same in blast)+

lemma bytes_only:
  "sockets_ok (s\<lparr>bus_wire := w\<rparr>) = sockets_ok s"
  "ids_ok (s\<lparr>bus_wire := w\<rparr>) = ids_ok s"
  "queue_ok (s\<lparr>bus_wire := w\<rparr>) = queue_ok s"
  "submission_ok (s\<lparr>bus_wire := w\<rparr>) = submission_ok s"
  "chooseSocket c (s\<lparr>bus_wire := w\<rparr>) = chooseSocket c s"
  "handed env c (s\<lparr>bus_wire := w\<rparr>) = handed env c s"
  "heldBack c (s\<lparr>bus_wire := w\<rparr>) = heldBack c s"
  "sockets_ok (s\<lparr>bus_socketToBytesNeedingWrite := m\<rparr>) = sockets_ok s"
  "ids_ok (s\<lparr>bus_socketToBytesNeedingWrite := m\<rparr>) = ids_ok s"
  "queue_ok (s\<lparr>bus_socketToBytesNeedingWrite := m\<rparr>) = queue_ok s"
  "submission_ok (s\<lparr>bus_socketToBytesNeedingWrite := m\<rparr>) = submission_ok s"
  "chooseSocket c (s\<lparr>bus_socketToBytesNeedingWrite := m\<rparr>) = chooseSocket c s"
  "handed env c (s\<lparr>bus_socketToBytesNeedingWrite := m\<rparr>) = handed env c s"
  "heldBack c (s\<lparr>bus_socketToBytesNeedingWrite := m\<rparr>) = heldBack c s"
  "sockets_ok (s\<lparr>bus_lost := l\<rparr>) = sockets_ok s"
  "ids_ok (s\<lparr>bus_lost := l\<rparr>) = ids_ok s"
  "queue_ok (s\<lparr>bus_lost := l\<rparr>) = queue_ok s"
  "submission_ok (s\<lparr>bus_lost := l\<rparr>) = submission_ok s"
  "chooseSocket c (s\<lparr>bus_lost := l\<rparr>) = chooseSocket c s"
  "handed env c (s\<lparr>bus_lost := l\<rparr>) = handed env c s"
  "heldBack c (s\<lparr>bus_lost := l\<rparr>) = heldBack c s"
  by (simp_all add: sockets_ok_def ids_ok_def queue_ok_def submission_ok_def connectRequests_def chooseSocket_def handed_def heldBack_def cong: option.case_cong)

definition sent :: "sock \<Rightarrow> nat \<Rightarrow> bytes \<Rightarrow> 'i MessageBus \<Rightarrow> 'i MessageBus" where
  "sent k n bs s = s\<lparr>bus_wire := (bus_wire s)(k := bus_wire s k @ take n bs),
     bus_socketToBytesNeedingWrite := (bus_socketToBytesNeedingWrite s)(k := if drop n bs = [] then None else Some (drop n bs)), bus_lost := bus_lost s\<rparr>"

definition dropped :: "sock \<Rightarrow> 'i MessageBus \<Rightarrow> 'i MessageBus" where
  "dropped k s = s\<lparr>bus_wire := bus_wire s, bus_socketToBytesNeedingWrite := (bus_socketToBytesNeedingWrite s)(k := None), bus_lost := insert k (bus_lost s)\<rparr>"

lemma sent_ok:
  assumes ok: "bus_ok env s" and bs: "bus_socketToBytesNeedingWrite s k = Some bs"
  shows "bus_ok env (sent k n bs s)"
proof (rule bus_ok_bytes[OF ok])
  have "k < bus_sockets s" using bs streams_withD(3)[OF bus_okD(5)[OF ok, unfolded streams_ok_def], of k] by (cases "k < bus_sockets s") auto
  then show "bus_sockets s \<le> j \<Longrightarrow> bus_wire (sent k n bs s) j = bus_wire s j \<and>
      (bus_socketToBytesNeedingWrite s j = None \<longrightarrow> bus_socketToBytesNeedingWrite (sent k n bs s) j = None)" for j by (simp add: sent_def)
  show "j \<notin> bus_lost (sent k n bs s) \<Longrightarrow> j \<notin> bus_lost s \<and> bus_wire (sent k n bs s) j @ needing j (sent k n bs s) = bus_wire s j @ needing j s" for j
    using bs by (cases "j = k") (simp_all add: sent_def needing_def)
qed (simp_all add: sent_def bytes_only)

lemma dropped_ok: "bus_ok env s \<Longrightarrow> bus_ok env (dropped k s)"
  by (rule bus_ok_bytes) (auto simp: dropped_def bytes_only needing_def)

lemma keeps_handleWriteReadySocket [keeps_rules]: "keeps (bus_ok env) (handleWriteReadySocket k r)"
proof (rule keepsI)
  fix s :: "'a MessageBus" assume ok: "bus_ok env s"
  show "bus_ok env (snd (handleWriteReadySocket k r s))"
  proof (cases "bus_socketToBytesNeedingWrite s k")
    case None
    with ok show ?thesis by (simp add: handleWriteReadySocket_def)
  next
    case (Some bs)
    let ?n = "bytesWritten r"
    consider "?n = 0" | "?n = -1" | m where "r = Sent m" "m > 0" by (cases r) (auto simp: bytesWritten_def)
    then show ?thesis
    proof cases
      case 1
      then have "r \<noteq> SendWantWrite" by (auto simp: bytesWritten_def)
      with 1 Some have "snd (handleWriteReadySocket k r s) = (dropped k s)\<lparr>bus_writeSockets := bus_writeSockets s - {k}\<rparr>"
        by (simp add: handleWriteReadySocket_def dropped_def Let_def)
      then show ?thesis using dropped_ok[OF ok] by simp
    next
      case 2
      with Some ok show ?thesis by (simp add: handleWriteReadySocket_def Let_def)
    next
      case (3 m)
      let ?t = "(sent k m bs s)\<lparr>bus_totalBytesPendingInOutputLoop := bus_totalBytesPendingInOutputLoop s - int m, bus_totalBytesWritten := bus_totalBytesWritten s + int m,
          bus_writeSockets := (if drop m bs = [] then bus_writeSockets s - {k} else bus_writeSockets s)\<rparr>"
      have "snd (handleWriteReadySocket k r s) = ?t"
        using 3 Some by (simp add: handleWriteReadySocket_def sent_def bytesWritten_def Let_def)
      then show ?thesis using sent_ok[OF ok Some] by simp
    qed
  qed
qed

lemma keeps_dropFailed [keeps_rules]: "keeps (bus_ok env) (dropFailed ks)"
proof -
  have "bus_ok env (s\<lparr>bus_socketToBytesNeedingWrite := (bus_socketToBytesNeedingWrite s)(k := None), bus_lost := insert k (bus_lost s)\<rparr>)"
    if "bus_ok env s" for s :: "'a MessageBus" and k
    using dropped_ok[OF that, of k] by (simp add: dropped_def)
  then show ?thesis unfolding dropFailed_def by (intro keeps_forM keeps_modify)
qed

end
