(* ===== verification/Bus_Sending.thy ===== *)
theory Bus_Sending
  imports Bus_Streams
begin

text \<open>
  The operations that hand messages to a connection keep the invariant of the bus: what users submit, what the socket thread takes off the queue, and what
  the event thread does when a connection has been made or has failed.
\<close>

section \<open>Scheduling bytes\<close>

lemma encode_unfit: "\<not> fits m \<Longrightarrow> encode m x = Inl StructError"
  by (simp add: encode_def structPack_def fits_def)

lemma schedule_result:
  "scheduleBytesForWrite c m s =
     (if m = [] then (Inr (), s)
      else case chooseSocket c s of
        None \<Rightarrow> (Inr (), if c \<notin> bus_connIdPendingOutgoingConnection s then s
          else s\<lparr>bus_messagesForUnconnected := (bus_messagesForUnconnected s)(c \<mapsto> heldBack c s @ [m])\<rparr>)
      | Some k \<Rightarrow> if fits m
          then (Inr (), s\<lparr>bus_totalBytesPendingInOutputLoop := bus_totalBytesPendingInOutputLoop s + int (length (frame (bus_extraMessageSizeCheck s) m)),
             bus_socketToBytesNeedingWrite := (bus_socketToBytesNeedingWrite s)(k \<mapsto> needing k s @ frame (bus_extraMessageSizeCheck s) m)\<rparr>)
          else (Inl StructError, s))"
  by (simp add: scheduleBytesForWrite_def writeTo_def heldBack_def needing_def encode_frame encode_unfit split: option.split)

lemma schedule_keeps_fields:
  "bus_connIdToOutgoingSocket (snd (scheduleBytesForWrite c m s)) = bus_connIdToOutgoingSocket s"
  "bus_connIdToIncomingSocket (snd (scheduleBytesForWrite c m s)) = bus_connIdToIncomingSocket s"
  "bus_socketToOutgoingConnId (snd (scheduleBytesForWrite c m s)) = bus_socketToOutgoingConnId s"
  "bus_socketToIncomingConnId (snd (scheduleBytesForWrite c m s)) = bus_socketToIncomingConnId s"
  "bus_connIdToOutgoingEndpoint (snd (scheduleBytesForWrite c m s)) = bus_connIdToOutgoingEndpoint s"
  "bus_connIdToIncomingEndpoint (snd (scheduleBytesForWrite c m s)) = bus_connIdToIncomingEndpoint s"
  "bus_connIdPendingOutgoingConnection (snd (scheduleBytesForWrite c m s)) = bus_connIdPendingOutgoingConnection s"
  "bus_connectionIdCounter (snd (scheduleBytesForWrite c m s)) = bus_connectionIdCounter s"
  "bus_sockets (snd (scheduleBytesForWrite c m s)) = bus_sockets s"
  "bus_lost (snd (scheduleBytesForWrite c m s)) = bus_lost s"
  "bus_wire (snd (scheduleBytesForWrite c m s)) = bus_wire s"
  "bus_incomingSocketBuffers (snd (scheduleBytesForWrite c m s)) = bus_incomingSocketBuffers s"
  "bus_submitted (snd (scheduleBytesForWrite c m s)) = bus_submitted s"
  "bus_taken (snd (scheduleBytesForWrite c m s)) = bus_taken s"
  "bus_authToken (snd (scheduleBytesForWrite c m s)) = bus_authToken s"
  "bus_extraMessageSizeCheck (snd (scheduleBytesForWrite c m s)) = bus_extraMessageSizeCheck s"
  "bus_messagesToSendQueue (snd (scheduleBytesForWrite c m s)) = bus_messagesToSendQueue s"
  "bus_pendingTimedCallbacks (snd (scheduleBytesForWrite c m s)) = bus_pendingTimedCallbacks s"
  "bus_eventQueue (snd (scheduleBytesForWrite c m s)) = bus_eventQueue s"
  by (simp_all add: schedule_result split: option.split)

lemma schedule_chooseSocket: "chooseSocket d (snd (scheduleBytesForWrite c m s)) = chooseSocket d s"
  by (simp add: chooseSocket_def schedule_keeps_fields cong: option.case_cong)

lemma schedule_books:
  "sockets_ok (snd (scheduleBytesForWrite c m s)) = sockets_ok s"
  "queue_ok (snd (scheduleBytesForWrite c m s)) = queue_ok s"
  "submission_ok (snd (scheduleBytesForWrite c m s)) = submission_ok s"
  "handed env d (snd (scheduleBytesForWrite c m s)) = handed env d s"
  "connectRequests d (snd (scheduleBytesForWrite c m s)) = connectRequests d s"
  by (simp_all only: sockets_ok_def queue_ok_def submission_ok_def handed_def connectRequests_def schedule_keeps_fields)

lemma schedule_ids:
  assumes "ids_ok s"
  shows "ids_ok (snd (scheduleBytesForWrite c m s))"
proof -
  let ?t = "snd (scheduleBytesForWrite c m s)"
  have "d \<le> bus_connectionIdCounter s" if "bus_messagesForUnconnected ?t d \<noteq> None" for d
  proof (cases "bus_messagesForUnconnected s d = None")
    case True
    with that have "d \<in> bus_connIdPendingOutgoingConnection s" by (auto simp: schedule_result split: option.splits if_splits)
    then show ?thesis using ids_okD(1)[OF assms, of d] ids_okD(3)[OF assms, of d] by blast
  next
    case False
    then show ?thesis using ids_okD(4)[OF assms, of d] by blast
  qed
  then show ?thesis by (intro ids_okI; use ids_okD[OF assms] in \<open>simp only: schedule_keeps_fields simp_thms\<close>)
qed

lemma schedule_streams:
  assumes so: "sockets_ok s" and st: "streams_with H s"
  shows "streams_with (H(c := H c @ (if m = [] then [] else [m]))) (snd (scheduleBytesForWrite c m s))"
proof (cases "m = []")
  case True
  then show ?thesis using st by (simp add: schedule_result)
next
  case False
  let ?t = "snd (scheduleBytesForWrite c m s)" and ?H = "H(c := H c @ [m])"
  have "streams_with ?H ?t"
  proof (rule streams_withI)
    fix d k assume d: "chooseSocket d ?t = Some k" and k: "k \<notin> bus_lost ?t"
    then have d': "chooseSocket d s = Some k" "k \<notin> bus_lost s" by (simp_all add: schedule_chooseSocket schedule_keeps_fields)
    note old = streams_withD(1)[OF st d']
    show "bus_wire ?t k @ needing k ?t = concat (map (frame (bus_extraMessageSizeCheck ?t)) (filter fits (?H d)))"
    proof (cases "d = c")
      case True
      with d' False old show ?thesis by (simp add: schedule_result needing_def)
    next
      case other: False
      then have "chooseSocket c s \<noteq> Some k" using chooseSocket_inj[OF so d'(1)] by blast
      then have "needing k ?t = needing k s" by (auto simp: schedule_result needing_def split: option.splits)
      with other old show ?thesis by (simp add: schedule_keeps_fields)
    qed
  next
    fix d assume d: "d \<in> bus_connIdPendingOutgoingConnection ?t" "chooseSocket d ?t = None"
    then have d': "d \<in> bus_connIdPendingOutgoingConnection s" "chooseSocket d s = None" by (simp_all add: schedule_chooseSocket schedule_keeps_fields)
    with streams_withD(2)[OF st this] False show "heldBack d ?t = ?H d" by (auto simp: schedule_result heldBack_def split: option.splits)
  next
    fix k assume "bus_sockets ?t \<le> k"
    then have k: "bus_sockets s \<le> k" by (simp add: schedule_keeps_fields)
    moreover have "chooseSocket c s \<noteq> Some k" using k chooseSocket_bound[OF so, of c k] by auto
    ultimately show "bus_wire ?t k = [] \<and> bus_socketToBytesNeedingWrite ?t k = None"
      using streams_withD(3)[OF st k] by (auto simp: schedule_result split: option.splits)
  qed
  with False show ?thesis by simp
qed

section \<open>Taking a message off the queue\<close>

lemma addTimed_count [simp]: "count_list (map snd (addTimed x xs)) y = count_list (map snd xs) y + (if snd x = y then 1 else 0)"
  by (induction xs) auto

definition popped :: "'i MessageBus \<Rightarrow> send_item \<Rightarrow> send_item BytecountLimitedQueue \<Rightarrow> 'i MessageBus" where
  "popped s item q = s\<lparr>bus_messagesToSendQueue := q, bus_taken := bus_taken s @ [item]\<rparr>"

lemma popped_books:
  assumes ok: "bus_ok env s" and q: "bq_queue (bus_messagesToSendQueue s) = item # bq_queue q"
  shows "sockets_ok (popped s item q)" "ids_ok (popped s item q)" "submission_ok (popped s item q)"
    "streams_with (\<lambda>c. handed env c s) (popped s item q)"
    "bus_submitted (popped s item q) = bus_taken (popped s item q) @ bq_queue q"
    "connectRequests c (popped s item q) + (if item = TriggerConnect c then 1 else 0) = (if c \<in> bus_connIdPendingOutgoingConnection s then 1 else 0)"
    "handed env c (popped s item q) = handed env c s @ itemMessages env (bus_authToken s) c item"
proof -
  show "sockets_ok (popped s item q)" "ids_ok (popped s item q)" "submission_ok (popped s item q)" "streams_with (\<lambda>c. handed env c s) (popped s item q)"
    using bus_okD(1,2,4,5)[OF ok] unfolding sockets_ok_def ids_ok_def submission_ok_def streams_ok_def streams_with_def popped_def
    by (simp_all add: chooseSocket_def needing_def heldBack_def cong: option.case_cong del: split_paired_All)
  show "bus_submitted (popped s item q) = bus_taken (popped s item q) @ bq_queue q"
    using bus_okD(3)[OF ok] q by (simp add: queue_ok_def popped_def)
  have "connectRequests c s = (if c \<in> bus_connIdPendingOutgoingConnection s then 1 else 0)" using bus_okD(3)[OF ok] by (simp add: queue_ok_def)
  then show "connectRequests c (popped s item q) + (if item = TriggerConnect c then 1 else 0) = (if c \<in> bus_connIdPendingOutgoingConnection s then 1 else 0)"
    using q by (auto simp: connectRequests_def popped_def split: if_splits)
  show "handed env c (popped s item q) = handed env c s @ itemMessages env (bus_authToken s) c item" by (simp add: handed_def popped_def)
qed

text \<open>The item has been taken off and the bytes that go with it have been scheduled; a request to connect has still to be passed on.\<close>

lemma popped_scheduled:
  assumes ok: "bus_ok env s" and q: "bq_queue (bus_messagesToSendQueue s) = item # bq_queue q"
    and m: "\<And>d. itemMessages env (bus_authToken s) d item = (if d = c \<and> m \<noteq> [] then [m] else [])"
  defines "t \<equiv> snd (scheduleBytesForWrite c m (popped s item q))"
  shows "sockets_ok t" "ids_ok t" "submission_ok t" "streams_ok env t" "bus_submitted t = bus_taken t @ bq_queue (bus_messagesToSendQueue t)"
    "connectRequests d t + (if item = TriggerConnect d then 1 else 0) = (if d \<in> bus_connIdPendingOutgoingConnection t then 1 else 0)"
proof -
  note p = popped_books[OF ok q]
  show "sockets_ok t" "ids_ok t" "submission_ok t" using p(1,2,3) unfolding t_def by (simp_all add: schedule_books schedule_ids)
  have "(\<lambda>d. handed env d t) = (\<lambda>d. handed env d s)(c := handed env c s @ (if m = [] then [] else [m]))"
    unfolding t_def by (rule ext) (simp add: schedule_books p(7) m)
  then show "streams_ok env t" using schedule_streams[OF p(1,4), of c m] unfolding streams_ok_def t_def by simp
  show "bus_submitted t = bus_taken t @ bq_queue (bus_messagesToSendQueue t)"
    using p(5) unfolding t_def by (simp add: schedule_keeps_fields) (simp add: popped_def)
  show "connectRequests d t + (if item = TriggerConnect d then 1 else 0) = (if d \<in> bus_connIdPendingOutgoingConnection t then 1 else 0)"
    using p(6)[of d] unfolding t_def by (simp add: schedule_keeps_fields schedule_books) (simp add: popped_def)
qed

lemma getTake_popped:
  assumes "getTake q = Some (item, q')"
  shows "bq_queue q = item # bq_queue (snd (getFinish bytesPerMsg item q'))"
  using assms by (auto simp: getTake_def getFinish_def Let_def split: list.splits)

lemma scheduleCallback_now: "scheduleCallback now (Some cb) None None s =
    (Inr (), s\<lparr>bus_pendingTimedCallbacks := addTimed (now, cb) (bus_pendingTimedCallbacks s),
       bus_generalWakes := bus_generalWakes s + (if fst (hd (addTimed (now, cb) (bus_pendingTimedCallbacks s))) = now then 1 else 0)\<rparr>)"
  by (simp add: scheduleCallback_def Let_def)

lemma timed_only:
  "sockets_ok (s\<lparr>bus_pendingTimedCallbacks := cbs\<rparr>) = sockets_ok s"
  "ids_ok (s\<lparr>bus_pendingTimedCallbacks := cbs\<rparr>) = ids_ok s"
  "submission_ok (s\<lparr>bus_pendingTimedCallbacks := cbs\<rparr>) = submission_ok s"
  "streams_ok env (s\<lparr>bus_pendingTimedCallbacks := cbs\<rparr>) = streams_ok env s"
  by (simp_all add: sockets_ok_def ids_ok_def submission_ok_def streams_ok_def streams_with_def chooseSocket_def handed_def needing_def heldBack_def
      cong: option.case_cong)

lemma schedule_ok_pending:
  assumes "sockets_ok s" "ids_ok s" "c \<in> bus_connIdPendingOutgoingConnection s"
  shows "scheduleBytesForWrite c m s = (Inr (), snd (scheduleBytesForWrite c m s))"
  using chooseSocket_pending[OF assms] by (simp add: schedule_result)

lemma keeps_handleMessageToSend [keeps_rules]: "keeps (bus_ok env) (handleMessageToSend env now)"
proof (rule keepsI)
  fix s :: "'a MessageBus" assume ok: "bus_ok env s"
  show "bus_ok env (snd (handleMessageToSend env now s))"
  proof (cases "getTake (bus_messagesToSendQueue s)")
    case None
    with ok show ?thesis by (simp add: handleMessageToSend_def)
  next
    case (Some r)
    obtain item q0 where r: "r = (item, q0)" by fastforce
    define q where "q = snd (getFinish bytesPerMsg item q0)"
    have q: "bq_queue (bus_messagesToSendQueue s) = item # bq_queue q" unfolding q_def using getTake_popped Some r by blast
    note p = popped_books[OF ok q]
    show ?thesis
    proof (cases item)
      case DisconnectedItem
      then have "snd (handleMessageToSend env now s) = snd (scheduleBytesForWrite 0 [] (popped s item q))"
        using Some r by (simp add: handleMessageToSend_def popped_def q_def schedule_result)
      moreover have "itemMessages env (bus_authToken s) d item = (if d = 0 \<and> [] \<noteq> [] then [[]] else [])" for d using DisconnectedItem by simp
      ultimately show ?thesis
        using popped_scheduled[OF ok q, of 0 "[]"] DisconnectedItem by (intro bus_okI) (simp_all add: queue_ok_def)
    next
      case (SendBytes c m)
      then have "snd (handleMessageToSend env now s) = snd (scheduleBytesForWrite c m (popped s item q))"
        using Some r by (simp add: handleMessageToSend_def popped_def q_def)
      then show ?thesis using popped_scheduled[OF ok q, of c m] SendBytes by (intro bus_okI) (simp_all add: queue_ok_def)
    next
      case (TriggerConnect c)
      define m where "m = (case bus_authToken s of None \<Rightarrow> [] | Some t \<Rightarrow> be_encode env t)"
      have im: "itemMessages env (bus_authToken s) d item = (if d = c \<and> m \<noteq> [] then [m] else [])" for d
        using TriggerConnect by (simp add: m_def authMessage_def split: option.split)
      note t = popped_scheduled[OF ok q im]
      have pend: "c \<in> bus_connIdPendingOutgoingConnection (popped s item q)" using p(6)[of c] TriggerConnect by (simp add: popped_def split: if_splits)
      note sched = schedule_ok_pending[OF p(1,2) pend, of m]
      let ?t = "snd (scheduleBytesForWrite c m (popped s item q))"
      have "(case bus_authToken s of None \<Rightarrow> ret () | Some t \<Rightarrow> scheduleBytesForWrite c (be_encode env t)) (popped s item q) = (Inr (), ?t)"
        using sched by (simp add: m_def schedule_result split: option.splits)
      then have "snd (handleMessageToSend env now s) = snd (scheduleCallback now (Some (ConnectTo c)) None None ?t)"
        using Some r TriggerConnect by (simp add: handleMessageToSend_def popped_def q_def)
      moreover have "bus_ok env (?t\<lparr>bus_pendingTimedCallbacks := addTimed (now, ConnectTo c) (bus_pendingTimedCallbacks ?t)\<rparr>)"
      proof (rule bus_okI)
        have "connectRequests d (?t\<lparr>bus_pendingTimedCallbacks := addTimed (now, ConnectTo c) (bus_pendingTimedCallbacks ?t)\<rparr>) =
            connectRequests d ?t + (if item = TriggerConnect d then 1 else 0)" for d
          using TriggerConnect by (simp add: connectRequests_def)
        then show "queue_ok (?t\<lparr>bus_pendingTimedCallbacks := addTimed (now, ConnectTo c) (bus_pendingTimedCallbacks ?t)\<rparr>)"
          unfolding queue_ok_def using t(5) by (simp only: t(6)) simp
      qed (simp_all add: timed_only t(1-4))
      ultimately show ?thesis by (simp add: scheduleCallback_now)
    qed
  qed
qed

end
