(* ===== verification/Bus_Connecting.thy ===== *)
theory Bus_Connecting
  imports Bus_Sending
begin

text \<open>
  The operations that create connections keep the invariant of the bus: \<open>connect\<close>, accepting, and \<open>_connectTo\<close> on every outcome.
\<close>

section \<open>New identifiers and new sockets\<close>

lemma fresh_id:
  assumes ok: "bus_ok env s" and c: "c > bus_connectionIdCounter s"
  shows "bus_connIdToOutgoingEndpoint s c = None" "bus_connIdToIncomingEndpoint s c = None" "bus_connIdToOutgoingSocket s c = None"
    "bus_connIdToIncomingSocket s c = None" "c \<notin> bus_connIdPendingOutgoingConnection s" "bus_messagesForUnconnected s c = None"
    "itemsFor c (bus_submitted s) = []" "handed env c s = []" "connectRequests c s = 0"
proof -
  note ids = bus_okD(2)[OF ok] and so = bus_okD(1)[OF ok]
  show oe: "bus_connIdToOutgoingEndpoint s c = None" and ie: "bus_connIdToIncomingEndpoint s c = None" and "bus_messagesForUnconnected s c = None"
    using c ids_okD(1,2,4)[OF ids, of c] by force+
  show "bus_connIdToOutgoingSocket s c = None" using oe sockets_okD(3)[OF so, of c] by (cases "bus_connIdToOutgoingSocket s c") auto
  show "bus_connIdToIncomingSocket s c = None" using ie sockets_okD(4)[OF so, of c] by (cases "bus_connIdToIncomingSocket s c") auto
  show pend: "c \<notin> bus_connIdPendingOutgoingConnection s" using oe ids_okD(3)[OF ids, of c] by auto
  have items: "\<forall>i \<in> set (bus_submitted s). itemConn i \<noteq> Some c" using c ids_okD(5)[OF ids, of _ c] by fastforce
  then show "itemsFor c (bus_submitted s) = []" by (simp add: itemsFor_def)
  have "bus_submitted s = bus_taken s @ bq_queue (bus_messagesToSendQueue s)" using bus_okD(3)[OF ok] by (simp add: queue_ok_def)
  then show "handed env c s = []" using items unfolding handed_def by (intro messagesOf_other) auto
  show "connectRequests c s = 0" using bus_okD(3)[OF ok] pend by (simp add: queue_ok_def)
qed

lemma fresh_socket:
  assumes ok: "bus_ok env s" and k: "k \<ge> bus_sockets s"
  shows "bus_socketToOutgoingConnId s k = None" "bus_socketToIncomingConnId s k = None" "bus_wire s k = []" "bus_socketToBytesNeedingWrite s k = None"
    "bus_connIdToOutgoingSocket s c \<noteq> Some k" "bus_connIdToIncomingSocket s c \<noteq> Some k"
proof -
  note so = bus_okD(1)[OF ok]
  show o: "bus_connIdToOutgoingSocket s d \<noteq> Some k" and i: "bus_connIdToIncomingSocket s d \<noteq> Some k" for d
    using k sockets_okD(3,4)[OF so, of d k] by auto
  show "bus_socketToOutgoingConnId s k = None" using o sockets_okD(1)[OF so, of _ k] by (cases "bus_socketToOutgoingConnId s k") auto
  show "bus_socketToIncomingConnId s k = None" using i sockets_okD(2)[OF so, of _ k] by (cases "bus_socketToIncomingConnId s k") auto
  show "bus_wire s k = []" "bus_socketToBytesNeedingWrite s k = None" using streams_withD(3)[OF bus_okD(5)[OF ok, unfolded streams_ok_def] k] by simp_all
qed

section \<open>Submitting\<close>

lemma pushItem_ok:
  assumes "pushItem item s = (Inr u, t)"
  obtains q where "bq_queue q = bq_queue (bus_messagesToSendQueue s) @ [item]" "t = s\<lparr>bus_messagesToSendQueue := q, bus_submitted := bus_submitted s @ [item]\<rparr>"
proof -
  have "t = s\<lparr>bus_messagesToSendQueue := pushMessage bytesPerMsg item (bus_messagesToSendQueue s), bus_submitted := bus_submitted s @ [item]\<rparr>"
    using assms by (auto simp: pushItem_def dest!: bqPut_Pushed split: put_result.splits)
  with that[of "pushMessage bytesPerMsg item (bus_messagesToSendQueue s)"] show thesis by (simp add: pushMessage_def)
qed

lemma submission_okD:
  assumes "submission_ok s"
  shows "bus_connIdToOutgoingEndpoint s c \<noteq> None \<Longrightarrow> \<exists>ms. itemsFor c (bus_submitted s) = TriggerConnect c # map (SendBytes c) ms"
    and "bus_connIdToIncomingEndpoint s c \<noteq> None \<Longrightarrow> \<exists>ms. itemsFor c (bus_submitted s) = map (SendBytes c) ms"
  using conjunct1[OF assms[unfolded submission_ok_def]] conjunct2[OF assms[unfolded submission_ok_def]] by blast+

lemma itemsFor_append [simp]: "itemsFor c (xs @ ys) = itemsFor c xs @ itemsFor c ys"
  by (simp add: itemsFor_def)

lemma submitted_ok:
  assumes ok: "bus_ok env s" and q: "bq_queue q = bq_queue (bus_messagesToSendQueue s) @ [SendBytes c m]" and live: "\<not> isDefinitelyDead c s"
  shows "bus_ok env (s\<lparr>bus_messagesToSendQueue := q, bus_submitted := bus_submitted s @ [SendBytes c m]\<rparr>)" (is "bus_ok env ?t")
proof (rule bus_okI)
  have c: "c \<le> bus_connectionIdCounter s" using live ids_okD(1,2)[OF bus_okD(2)[OF ok], of c] by (auto simp: isDefinitelyDead_def)
  show "sockets_ok ?t" using bus_okD(1)[OF ok] by (simp add: sockets_ok_def)
  show "ids_ok ?t" using bus_okD(2)[OF ok] c by (simp add: ids_ok_def del: split_paired_All)
  show "queue_ok ?t" using bus_okD(3)[OF ok] q by (simp add: queue_ok_def connectRequests_def)
  show "submission_ok ?t"
    unfolding submission_ok_def
  proof (intro conjI allI impI)
    fix d assume "bus_connIdToOutgoingEndpoint ?t d \<noteq> None"
    then have "bus_connIdToOutgoingEndpoint s d \<noteq> None" by simp
    then obtain ms where ms: "itemsFor d (bus_submitted s) = TriggerConnect d # map (SendBytes d) ms" using submission_okD(1)[OF bus_okD(4)[OF ok]] by blast
    have "itemsFor d (bus_submitted ?t) = TriggerConnect d # map (SendBytes d) (ms @ (if d = c then [m] else []))" using ms by (simp add: itemsFor_def)
    then show "\<exists>ms. itemsFor d (bus_submitted ?t) = TriggerConnect d # map (SendBytes d) ms" by blast
  next
    fix d assume "bus_connIdToIncomingEndpoint ?t d \<noteq> None"
    then have "bus_connIdToIncomingEndpoint s d \<noteq> None" by simp
    then obtain ms where ms: "itemsFor d (bus_submitted s) = map (SendBytes d) ms" using submission_okD(2)[OF bus_okD(4)[OF ok]] by blast
    have "itemsFor d (bus_submitted ?t) = map (SendBytes d) (ms @ (if d = c then [m] else []))" using ms by (simp add: itemsFor_def)
    then show "\<exists>ms. itemsFor d (bus_submitted ?t) = map (SendBytes d) ms" by blast
  qed
  show "streams_ok env ?t" using bus_okD(5)[OF ok]
    by (simp add: streams_ok_def streams_with_def chooseSocket_def handed_def needing_def heldBack_def cong: option.case_cong)
qed

lemma sendMessage_ok:
  assumes ok: "bus_ok env s" and run: "sendMessage env c m s = (Inr b, t)"
  shows "bus_ok env t"
proof (cases "isDefinitelyDead c s \<or> \<not> bus_started s")
  case True
  with run ok show ?thesis by (cases "bus_started s") (auto simp: sendMessage_def)
next
  case False
  with run obtain u t' where "pushItem (SendBytes c (be_serialize env m)) s = (Inr u, t')" and t: "t = t'\<lparr>bus_messageToSendWakes := bus_messageToSendWakes t' + 1\<rparr>"
    by (auto simp: sendMessage_def putOnSendQueue_def pyM_ok)
  from this(1) have "bus_ok env t'" by (rule pushItem_ok) (use submitted_ok[OF ok] False in blast)
  with t show ?thesis by simp
qed

section \<open>Connecting\<close>

lemma connect_ok:
  assumes ok: "bus_ok env s" and c: "c = bus_connectionIdCounter s + 1" and q: "bq_queue q = bq_queue (bus_messagesToSendQueue s) @ [TriggerConnect c]"
  shows "bus_ok env (s\<lparr>bus_connectionIdCounter := c, bus_connIdToOutgoingEndpoint := (bus_connIdToOutgoingEndpoint s)(c \<mapsto> endpoint),
     bus_connIdPendingOutgoingConnection := insert c (bus_connIdPendingOutgoingConnection s), bus_messagesToSendQueue := q,
     bus_submitted := bus_submitted s @ [TriggerConnect c]\<rparr>)" (is "bus_ok env ?t")
proof (rule bus_okI)
  have gt: "c > bus_connectionIdCounter s" using c by simp
  note fresh = fresh_id[OF ok gt] and so = bus_okD(1)[OF ok] and ids = bus_okD(2)[OF ok] and st = bus_okD(5)[OF ok, unfolded streams_ok_def]
  show "sockets_ok ?t"
    by (rule sockets_okI) (use sockets_okD[OF so] in \<open>auto simp del: split_paired_All split_paired_Ex\<close>)
  show "ids_ok ?t"
  proof (rule ids_okI)
    fix d
    show "d \<le> bus_connectionIdCounter ?t \<and> bus_connIdToIncomingEndpoint ?t d = None" if "bus_connIdToOutgoingEndpoint ?t d \<noteq> None"
      using that fresh(2) ids_okD(1)[OF ids, of d] gt by (cases "d = c") auto
    show "d \<le> bus_connectionIdCounter ?t" if "bus_connIdToIncomingEndpoint ?t d \<noteq> None" using that ids_okD(2)[OF ids, of d] gt by simp
    show "bus_connIdToOutgoingEndpoint ?t d \<noteq> None \<and> bus_connIdToOutgoingSocket ?t d = None" if "d \<in> bus_connIdPendingOutgoingConnection ?t"
      using that fresh(3) ids_okD(3)[OF ids, of d] by (cases "d = c") auto
    show "d \<le> bus_connectionIdCounter ?t" if "bus_messagesForUnconnected ?t d \<noteq> None" using that ids_okD(4)[OF ids, of d] gt by simp
    show "d \<le> bus_connectionIdCounter ?t" if "i \<in> set (bus_submitted ?t)" "itemConn i = Some d" for i using that ids_okD(5)[OF ids, of i d] gt by auto
  qed
  have "connectRequests d ?t = connectRequests d s + (if d = c then 1 else 0)" for d using q by (simp add: connectRequests_def)
  then show "queue_ok ?t" using bus_okD(3)[OF ok] q fresh(5) unfolding queue_ok_def by simp
  show "submission_ok ?t" using bus_okD(4)[OF ok] fresh(2,7) unfolding submission_ok_def by (auto simp: itemsFor_def)
  have choose: "chooseSocket d ?t = chooseSocket d s" and held: "heldBack d ?t = heldBack d s" and hand: "handed env d ?t = handed env d s" for d
    by (simp_all add: chooseSocket_def heldBack_def handed_def cong: option.case_cong)
  have "heldBack c s = []" using fresh(6) by (simp add: heldBack_def)
  then show "streams_ok env ?t" unfolding streams_ok_def
    by (intro streams_withI) (use streams_withD[OF st] fresh(8) in \<open>auto simp: choose held hand needing_def\<close>)
qed

lemma busConnect_ok:
  assumes ok: "bus_ok env s" and run: "busConnect endpoint s = (Inr c, t)"
  shows "bus_ok env t"
proof -
  let ?c = "bus_connectionIdCounter s + 1"
  let ?s = "s\<lparr>bus_connectionIdCounter := ?c, bus_connIdToOutgoingEndpoint := (bus_connIdToOutgoingEndpoint s)(?c \<mapsto> endpoint),
     bus_connIdPendingOutgoingConnection := insert ?c (bus_connIdPendingOutgoingConnection s)\<rparr>"
  from run obtain u t' where "pushItem (TriggerConnect ?c) ?s = (Inr u, t')" and t: "t = t'\<lparr>bus_messageToSendWakes := bus_messageToSendWakes t' + 1\<rparr>"
    by (auto simp: busConnect_def newConnectionId_def putOnSendQueue_def thenM_ok split: if_splits)
  from this(1) have "bus_ok env t'"
  proof (rule pushItem_ok)
    fix q assume q: "bq_queue q = bq_queue (bus_messagesToSendQueue ?s) @ [TriggerConnect ?c]"
      and t': "t' = ?s\<lparr>bus_messagesToSendQueue := q, bus_submitted := bus_submitted ?s @ [TriggerConnect ?c]\<rparr>"
    from q have "bq_queue q = bq_queue (bus_messagesToSendQueue s) @ [TriggerConnect ?c]" by simp
    from connect_ok[OF ok refl this, of endpoint] show ?thesis unfolding t' by simp
  qed
  with t show ?thesis by simp
qed

section \<open>Accepting\<close>

definition accepted :: "sock \<Rightarrow> ConnectionId \<Rightarrow> Endpoint \<Rightarrow> MessageBuffer \<Rightarrow> 'i MessageBus \<Rightarrow> 'i MessageBus" where
  "accepted k c source mb s = s\<lparr>bus_sockets := Suc k, bus_connectionIdCounter := c, bus_connIdToIncomingSocket := (bus_connIdToIncomingSocket s)(c \<mapsto> k),
     bus_socketToIncomingConnId := (bus_socketToIncomingConnId s)(k \<mapsto> c), bus_connIdToIncomingEndpoint := (bus_connIdToIncomingEndpoint s)(c \<mapsto> source),
     bus_incomingSocketBuffers := (bus_incomingSocketBuffers s)(k \<mapsto> mb)\<rparr>"

lemma accepted_ok:
  assumes ok: "bus_ok env s" and k: "k = bus_sockets s" and c: "c = bus_connectionIdCounter s + 1"
  shows "bus_ok env (accepted k c source mb s)" (is "bus_ok env ?t")
proof (rule bus_okI)
  have gt: "c > bus_connectionIdCounter s" using c by simp
  have ge: "k \<ge> bus_sockets s" using k by simp
  note fresh = fresh_id[OF ok gt] and free = fresh_socket[OF ok ge] and so = bus_okD(1)[OF ok] and ids = bus_okD(2)[OF ok]
    and st = bus_okD(5)[OF ok, unfolded streams_ok_def]
  show "sockets_ok ?t"
  proof (rule sockets_okI)
    fix d j
    note facts = sockets_okD[OF so, of d j]
    show "bus_connIdToOutgoingSocket ?t d = Some j \<longleftrightarrow> bus_socketToOutgoingConnId ?t j = Some d" using facts(1) by (simp add: accepted_def)
    show "bus_connIdToIncomingSocket ?t d = Some j \<longleftrightarrow> bus_socketToIncomingConnId ?t j = Some d"
      using facts(2) fresh(4) free(2) free(6)[of d] by (cases "d = c"; cases "j = k") (auto simp: accepted_def)
    show "j < bus_sockets ?t \<and> bus_connIdToOutgoingEndpoint ?t d \<noteq> None \<and> bus_incomingSocketBuffers ?t j \<noteq> None \<and> bus_socketToIncomingConnId ?t j = None"
      if "bus_connIdToOutgoingSocket ?t d = Some j" using that facts(3) free(5)[of d] k by (auto simp: accepted_def)
    show "j < bus_sockets ?t \<and> bus_connIdToIncomingEndpoint ?t d \<noteq> None \<and> bus_incomingSocketBuffers ?t j \<noteq> None"
      if "bus_connIdToIncomingSocket ?t d = Some j" using that facts(4) k by (auto simp: accepted_def split: if_splits)
  qed
  show "ids_ok ?t"
  proof (rule ids_okI)
    fix d
    show "d \<le> bus_connectionIdCounter ?t \<and> bus_connIdToIncomingEndpoint ?t d = None" if "bus_connIdToOutgoingEndpoint ?t d \<noteq> None"
      using that fresh(1) ids_okD(1)[OF ids, of d] gt by (auto simp: accepted_def)
    show "d \<le> bus_connectionIdCounter ?t" if "bus_connIdToIncomingEndpoint ?t d \<noteq> None"
      using that ids_okD(2)[OF ids, of d] gt by (cases "d = c") (auto simp: accepted_def)
    show "bus_connIdToOutgoingEndpoint ?t d \<noteq> None \<and> bus_connIdToOutgoingSocket ?t d = None" if "d \<in> bus_connIdPendingOutgoingConnection ?t"
      using that ids_okD(3)[OF ids, of d] by (simp add: accepted_def)
    show "d \<le> bus_connectionIdCounter ?t" if "bus_messagesForUnconnected ?t d \<noteq> None" using that ids_okD(4)[OF ids, of d] gt by (simp add: accepted_def)
    show "d \<le> bus_connectionIdCounter ?t" if "i \<in> set (bus_submitted ?t)" "itemConn i = Some d" for i
      using that ids_okD(5)[OF ids, of i d] gt by (simp add: accepted_def)
  qed
  show "queue_ok ?t" using bus_okD(3)[OF ok] by (simp add: queue_ok_def connectRequests_def accepted_def)
  show "submission_ok ?t" using bus_okD(4)[OF ok] fresh(7) unfolding submission_ok_def by (auto simp: accepted_def)
  have other: "chooseSocket d ?t = (if d = c then Some k else chooseSocket d s)" for d
    using fresh(3) by (simp add: chooseSocket_def accepted_def split: option.split)
  show "streams_ok env ?t"
    unfolding streams_ok_def
  proof (rule streams_withI)
    fix d j assume "chooseSocket d ?t = Some j" "j \<notin> bus_lost ?t"
    then show "bus_wire ?t j @ needing j ?t = concat (map (frame (bus_extraMessageSizeCheck ?t)) (filter fits (handed env d ?t)))"
      using streams_withD(1)[OF st, of d j] free(3,4) fresh(8) unfolding other
      by (cases "d = c") (auto simp: accepted_def needing_def handed_def)
  next
    fix d assume "d \<in> bus_connIdPendingOutgoingConnection ?t" "chooseSocket d ?t = None"
    then show "heldBack d ?t = handed env d ?t"
      using streams_withD(2)[OF st, of d] unfolding other by (auto simp: accepted_def heldBack_def handed_def split: if_splits)
  next
    fix j assume "bus_sockets ?t \<le> j"
    then show "bus_wire ?t j = [] \<and> bus_socketToBytesNeedingWrite ?t j = None" using streams_withD(3)[OF st, of j] k by (simp add: accepted_def)
  qed
qed

lemma keeps_acceptConnection [keeps_rules]: "keeps (bus_ok env) (acceptConnection source)"
proof (rule keepsI)
  fix s :: "'a MessageBus" assume ok: "bus_ok env s"
  let ?k = "bus_sockets s" and ?c = "bus_connectionIdCounter s + 1" and ?mb = "newMessageBuffer (bus_extraMessageSizeCheck s)"
  have "snd (acceptConnection source s) = (accepted ?k ?c source ?mb s)
     \<lparr>bus_unauthenticatedConnections := (if bus_authToken s \<noteq> None then insert ?c else id) (bus_unauthenticatedConnections s),
      bus_readSockets := insert ?k (bus_readSockets s), bus_eventQueue := bus_eventQueue s @ [ThreadEvent (NewIncomingConnection source ?c)]\<rparr>"
    by (simp add: acceptConnection_def newSocket_def newConnectionId_def fireEvent_def accepted_def)
  then show "bus_ok env (snd (acceptConnection source s))" using accepted_ok[OF ok refl refl, of source ?mb] by (simp add: accepted_def)
qed

section \<open>Reading\<close>

lemma keeps_handleIncomingMessage [keeps_rules]: "keeps (bus_ok env) (handleIncomingMessage env' m k)"
  unfolding handleIncomingMessage_def by (intro keeps_rules keeps_modify) simp

lemma keeps_handleMessages [keeps_rules]: "keeps (bus_ok env) (handleMessages env' k ms)"
  by (induction ms) (simp_all add: keeps_bindM keeps_handleIncomingMessage keeps_markSocketClosed)

lemma buffer_ok:
  assumes "bus_ok env s" "bus_incomingSocketBuffers s k \<noteq> None"
  shows "bus_ok env (s\<lparr>bus_incomingSocketBuffers := (bus_incomingSocketBuffers s)(k \<mapsto> mb)\<rparr>)"
  using assms by (subst bus_ok_frame[where s = s]) (auto simp: connectRequests_def)

lemma keeps_receiveBytes [keeps_rules]: "keeps (bus_ok env) (receiveBytes env' k bs)"
proof (rule keepsI)
  fix s :: "'a MessageBus" assume ok: "bus_ok env s"
  let ?s = "s\<lparr>bus_totalBytesRead := bus_totalBytesRead s + int (length bs)\<rparr>"
  show "bus_ok env (snd (receiveBytes env' k bs s))"
  proof (cases "bus_incomingSocketBuffers s k")
    case None
    with ok show ?thesis by (simp add: receiveBytes_def)
  next
    case (Some mb)
    obtain r mb' where w: "bufferWrite bs mb = (r, mb')" by fastforce
    have t: "bus_ok env (?s\<lparr>bus_incomingSocketBuffers := (bus_incomingSocketBuffers ?s)(k \<mapsto> mb')\<rparr>)" (is "bus_ok env ?t")
      by (rule buffer_ok) (use ok Some in simp_all)
    show ?thesis
    proof (cases r)
      case (Inl e)
      then show ?thesis using Some w t keeps_markSocketClosed[of env k] by (simp add: receiveBytes_def keeps_def)
    next
      case (Inr ms)
      then show ?thesis using Some w t keeps_handleMessages[of env env' k ms] by (simp add: receiveBytes_def keeps_def Let_def)
    qed
  qed
qed

lemma keeps_handleReadReadySocket [keeps_rules]: "keeps (bus_ok env) (handleReadReadySocket env' k a r)"
proof -
  have want: "keeps (bus_ok env) (modify (\<lambda>s. s\<lparr>bus_socketsWithSslWantWrite := insert k (bus_socketsWithSslWantWrite s)\<rparr>))"
    by (rule keeps_modify) simp
  show ?thesis unfolding handleReadReadySocket_def
    by (cases a; cases r; intro keeps_rules; simp add: keeps_rules want)
qed

end
