(* ===== verification/Bus_Establishing.thy ===== *)
theory Bus_Establishing
  imports Bus_Connecting
begin

text \<open>
  The event thread: \<open>_connectTo\<close> keeps the invariant of the bus whether the connection is made, is refused, or one of the messages held back for it
  cannot be encoded; so does a round of the thread.
\<close>

section \<open>The messages held back\<close>

lemma messagesOf_nonempty: "m \<in> set (messagesOf env token c items) \<Longrightarrow> m \<noteq> []"
proof (induction items)
  case (Cons i items)
  then show ?case by (cases i) (auto simp: authMessage_def split: option.splits if_splits)
qed simp

text \<open>On a connected socket, scheduling changes the bytes that wait and their count and nothing else.\<close>

lemma schedule_connected:
  assumes "chooseSocket c s = Some k"
  shows "\<exists>n b. snd (scheduleBytesForWrite c m s) = s\<lparr>bus_totalBytesPendingInOutputLoop := n, bus_socketToBytesNeedingWrite := b\<rparr>"
proof (cases "m \<noteq> [] \<and> fits m")
  case True
  then show ?thesis using assms unfolding schedule_result by (simp, intro exI) (rule refl)
next
  case False
  then have "snd (scheduleBytesForWrite c m s) = s" using assms by (auto simp: schedule_result)
  then show ?thesis by (intro exI[of _ "bus_totalBytesPendingInOutputLoop s"] exI[of _ "bus_socketToBytesNeedingWrite s"]) simp
qed

lemma schedule_all:
  "chooseSocket c s = Some k \<Longrightarrow> sockets_ok s \<Longrightarrow> streams_with H s \<Longrightarrow> \<forall>m \<in> set ms. m \<noteq> [] \<Longrightarrow> forM ms (scheduleBytesForWrite c) s = (r, t) \<Longrightarrow>
   \<exists>H' n b. streams_with H' t \<and> (\<forall>d. d \<noteq> c \<longrightarrow> H' d = H d) \<and> (r = Inr () \<longrightarrow> H' c = H c @ ms) \<and>
     t = s\<lparr>bus_totalBytesPendingInOutputLoop := n, bus_socketToBytesNeedingWrite := b\<rparr>"
proof (induction ms arbitrary: s H)
  case Nil
  then have "streams_with H t" "t = s\<lparr>bus_totalBytesPendingInOutputLoop := bus_totalBytesPendingInOutputLoop s, bus_socketToBytesNeedingWrite := bus_socketToBytesNeedingWrite s\<rparr>"
    by simp_all
  then show ?case by (metis append_Nil2)
next
  case (Cons m ms)
  let ?u = "snd (scheduleBytesForWrite c m s)"
  have m: "m \<noteq> []" using Cons.prems(4) by simp
  obtain n b where u: "?u = s\<lparr>bus_totalBytesPendingInOutputLoop := n, bus_socketToBytesNeedingWrite := b\<rparr>" using schedule_connected[OF Cons.prems(1)] by blast
  have so: "sockets_ok ?u" using Cons.prems(2) by (simp add: schedule_books)
  have st: "streams_with (H(c := H c @ [m])) ?u" using schedule_streams[OF Cons.prems(2,3), of c m] m by simp
  show ?case
  proof (cases "fst (scheduleBytesForWrite c m s)")
    case (Inl e)
    then have "scheduleBytesForWrite c m s = (Inl e, ?u)" by (simp add: prod_eq_iff)
    with Cons.prems(5) have "r = Inl e" "t = ?u" by auto
    then have "streams_with (H(c := H c @ [m])) t \<and> (\<forall>d. d \<noteq> c \<longrightarrow> (H(c := H c @ [m])) d = H d) \<and> (r = Inr () \<longrightarrow> (H(c := H c @ [m])) c = H c @ m # ms)"
      using st by simp
    then show ?thesis using u \<open>t = ?u\<close> by blast
  next
    case (Inr x)
    then have run: "scheduleBytesForWrite c m s = (Inr x, ?u)" by (simp add: prod_eq_iff)
    have choose: "chooseSocket c ?u = Some k" using Cons.prems(1) by (simp add: schedule_chooseSocket)
    have "forM ms (scheduleBytesForWrite c) ?u = (r, t)" using Cons.prems(5) run by simp
    from Cons.IH[OF choose so st _ this] Cons.prems(4) obtain H' n' b' where
      1: "streams_with H' t" "\<forall>d. d \<noteq> c \<longrightarrow> H' d = (H(c := H c @ [m])) d" "r = Inr () \<longrightarrow> H' c = (H(c := H c @ [m])) c @ ms"
        "t = ?u\<lparr>bus_totalBytesPendingInOutputLoop := n', bus_socketToBytesNeedingWrite := b'\<rparr>" by auto
    have "t = s\<lparr>bus_totalBytesPendingInOutputLoop := n', bus_socketToBytesNeedingWrite := b'\<rparr>" using 1(4) u by simp
    moreover have "\<forall>d. d \<noteq> c \<longrightarrow> H' d = H d" "r = Inr () \<longrightarrow> H' c = H c @ m # ms" using 1(2,3) by simp_all
    ultimately show ?thesis using 1(1) by blast
  qed
qed

section \<open>A connection request being served\<close>

text \<open>The callback has been taken off the event thread's queue: the request for \<open>c\<close> is no longer counted, and \<open>c\<close> still waits.\<close>

definition serving :: "('i, 'o) busenv \<Rightarrow> ConnectionId \<Rightarrow> 'i MessageBus \<Rightarrow> bool" where
  "serving env c s \<longleftrightarrow> sockets_ok s \<and> ids_ok s \<and> submission_ok s \<and> streams_ok env s \<and> c \<in> bus_connIdPendingOutgoingConnection s
   \<and> bus_submitted s = bus_taken s @ bq_queue (bus_messagesToSendQueue s)
   \<and> (\<forall>d. connectRequests d s = (if d \<in> bus_connIdPendingOutgoingConnection s \<and> d \<noteq> c then 1 else 0))"

lemma serving_start:
  assumes ok: "bus_ok env s" and q: "bus_eventQueue s = ThreadCallback (ConnectTo c) # rest"
  shows "serving env c (s\<lparr>bus_eventQueue := rest\<rparr>)" (is "serving env c ?t")
proof -
  have rq: "connectRequests d s = (if d \<in> bus_connIdPendingOutgoingConnection s then 1 else 0)" for d using bus_okD(3)[OF ok] by (simp add: queue_ok_def)
  have cnt: "connectRequests d s = connectRequests d ?t + (if d = c then 1 else 0)" for d using q by (simp add: connectRequests_def)
  have pend: "c \<in> bus_connIdPendingOutgoingConnection s" using rq[of c] cnt[of c] by (simp split: if_splits)
  have "connectRequests d ?t = (if d \<in> bus_connIdPendingOutgoingConnection ?t \<and> d \<noteq> c then 1 else 0)" for d
    using rq[of d] cnt[of d] by (cases "d = c") (simp_all split: if_splits)
  moreover have "sockets_ok ?t" "ids_ok ?t" "submission_ok ?t" "streams_ok env ?t"
    using bus_okD(1,2,4,5)[OF ok]
    by (simp_all add: sockets_ok_def ids_ok_def submission_ok_def streams_ok_def streams_with_def chooseSocket_def handed_def needing_def heldBack_def
        cong: option.case_cong)
  moreover have "bus_submitted ?t = bus_taken ?t @ bq_queue (bus_messagesToSendQueue ?t)" using bus_okD(3)[OF ok] by (simp add: queue_ok_def)
  ultimately show ?thesis using pend unfolding serving_def by simp
qed

text \<open>The connection is given up: neither its endpoint nor its messages are kept, and no socket is left that belongs to it.\<close>

lemma given_up_ok:
  assumes sv: "serving env c s"
    and t: "bus_connIdToOutgoingEndpoint t = (bus_connIdToOutgoingEndpoint s)(c := None)"
      "bus_connIdPendingOutgoingConnection t = bus_connIdPendingOutgoingConnection s - {c}"
      "bus_messagesForUnconnected t = (bus_messagesForUnconnected s)(c := None)"
      "bus_connIdToOutgoingSocket t = bus_connIdToOutgoingSocket s" "bus_connIdToIncomingSocket t = bus_connIdToIncomingSocket s"
      "bus_socketToOutgoingConnId t = bus_socketToOutgoingConnId s" "bus_socketToIncomingConnId t = bus_socketToIncomingConnId s"
      "bus_connIdToIncomingEndpoint t = bus_connIdToIncomingEndpoint s" "bus_connectionIdCounter t = bus_connectionIdCounter s"
      "bus_sockets t \<ge> bus_sockets s" "bus_lost t = bus_lost s" "bus_wire t = bus_wire s" "dom (bus_incomingSocketBuffers s) \<subseteq> dom (bus_incomingSocketBuffers t)"
      "bus_submitted t = bus_submitted s" "bus_taken t = bus_taken s" "bus_authToken t = bus_authToken s"
      "bus_extraMessageSizeCheck t = bus_extraMessageSizeCheck s" "bus_messagesToSendQueue t = bus_messagesToSendQueue s"
      "\<And>d. connectRequests d t = connectRequests d s"
    and bytes: "\<And>d k. chooseSocket d s = Some k \<Longrightarrow> k \<notin> bus_lost s \<Longrightarrow>
         bus_wire s k @ needing k t = concat (map (frame (bus_extraMessageSizeCheck s)) (filter fits (handed env d s)))"
      "\<And>k. k \<ge> bus_sockets t \<Longrightarrow> bus_socketToBytesNeedingWrite t k = None"
  shows "bus_ok env t"
proof (rule bus_okI)
  have so: "sockets_ok s" and ids: "ids_ok s" and sub: "submission_ok s" and st: "streams_with (\<lambda>c. handed env c s) s"
    and pend: "c \<in> bus_connIdPendingOutgoingConnection s" and q: "bus_submitted s = bus_taken s @ bq_queue (bus_messagesToSendQueue s)"
    and rq: "\<And>d. connectRequests d s = (if d \<in> bus_connIdPendingOutgoingConnection s \<and> d \<noteq> c then 1 else 0)"
    using sv by (simp_all add: serving_def streams_ok_def)
  have oc: "bus_connIdToOutgoingSocket s c = None" using ids_okD(3)[OF ids pend] by simp
  have choose: "chooseSocket d t = chooseSocket d s" for d by (simp add: chooseSocket_def t cong: option.case_cong)
  have buf: "bus_incomingSocketBuffers s k \<noteq> None \<Longrightarrow> bus_incomingSocketBuffers t k \<noteq> None" for k using t(13) by blast
  have lt: "k < bus_sockets s \<Longrightarrow> k < bus_sockets t" for k using t(10) by simp
  show "sockets_ok t"
  proof (rule sockets_okI)
    fix d j
    note facts = sockets_okD[OF so, of d j]
    show "bus_connIdToOutgoingSocket t d = Some j \<longleftrightarrow> bus_socketToOutgoingConnId t j = Some d" using facts(1) by (simp add: t)
    show "bus_connIdToIncomingSocket t d = Some j \<longleftrightarrow> bus_socketToIncomingConnId t j = Some d" using facts(2) by (simp add: t)
    show "j < bus_sockets t \<and> bus_connIdToOutgoingEndpoint t d \<noteq> None \<and> bus_incomingSocketBuffers t j \<noteq> None \<and> bus_socketToIncomingConnId t j = None"
      if "bus_connIdToOutgoingSocket t d = Some j" using that facts(3) oc buf[of j] lt[of j] by (cases "d = c") (auto simp: t)
    show "j < bus_sockets t \<and> bus_connIdToIncomingEndpoint t d \<noteq> None \<and> bus_incomingSocketBuffers t j \<noteq> None"
      if "bus_connIdToIncomingSocket t d = Some j" using that facts(4) buf[of j] lt[of j] by (auto simp: t)
  qed
  show "ids_ok t" by (rule ids_okI) (use ids_okD[OF ids] in \<open>auto simp: t split: if_splits simp del: split_paired_All split_paired_Ex\<close>)
  show "queue_ok t" using q rq by (simp add: queue_ok_def t)
  show "submission_ok t" using sub by (simp add: submission_ok_def t)
  have hand: "handed env d t = handed env d s" for d by (simp add: handed_def t)
  show "streams_ok env t"
    unfolding streams_ok_def
  proof (rule streams_withI)
    fix d k assume "chooseSocket d t = Some k" "k \<notin> bus_lost t"
    then show "bus_wire t k @ needing k t = concat (map (frame (bus_extraMessageSizeCheck t)) (filter fits (handed env d t)))"
      using bytes(1)[of d k] by (simp add: choose hand t)
  next
    fix d assume "d \<in> bus_connIdPendingOutgoingConnection t" "chooseSocket d t = None"
    then show "heldBack d t = handed env d t" using streams_withD(2)[OF st, of d] by (simp add: choose hand t heldBack_def)
  next
    fix k assume k: "bus_sockets t \<le> k"
    then show "bus_wire t k = [] \<and> bus_socketToBytesNeedingWrite t k = None" using streams_withD(3)[OF st, of k] bytes(2)[OF k] t(10) by (simp add: t)
  qed
qed

section \<open>Making the connection\<close>

definition registered :: "ConnectionId \<Rightarrow> 'i MessageBus \<Rightarrow> 'i MessageBus" where
  "registered c s = s\<lparr>bus_sockets := Suc (bus_sockets s), bus_socketToOutgoingConnId := (bus_socketToOutgoingConnId s)(bus_sockets s \<mapsto> c),
     bus_connIdToOutgoingSocket := (bus_connIdToOutgoingSocket s)(c \<mapsto> bus_sockets s),
     bus_incomingSocketBuffers := (bus_incomingSocketBuffers s)(bus_sockets s \<mapsto> newMessageBuffer (bus_extraMessageSizeCheck s)),
     bus_messagesForUnconnected := (bus_messagesForUnconnected s)(c := None)\<rparr>"

lemma unused_socket:
  assumes so: "sockets_ok s"
  shows "bus_socketToOutgoingConnId s (bus_sockets s) = None" "bus_socketToIncomingConnId s (bus_sockets s) = None"
    "bus_connIdToOutgoingSocket s d \<noteq> Some (bus_sockets s)" "bus_connIdToIncomingSocket s d \<noteq> Some (bus_sockets s)"
proof -
  show o: "bus_connIdToOutgoingSocket s d \<noteq> Some (bus_sockets s)" and i: "bus_connIdToIncomingSocket s d \<noteq> Some (bus_sockets s)" for d
    using sockets_okD(3,4)[OF so, of d "bus_sockets s"] by auto
  show "bus_socketToOutgoingConnId s (bus_sockets s) = None"
    using o sockets_okD(1)[OF so, of _ "bus_sockets s"] by (cases "bus_socketToOutgoingConnId s (bus_sockets s)") auto
  show "bus_socketToIncomingConnId s (bus_sockets s) = None"
    using i sockets_okD(2)[OF so, of _ "bus_sockets s"] by (cases "bus_socketToIncomingConnId s (bus_sockets s)") auto
qed

lemma registered_books:
  assumes sv: "serving env c s"
  shows "sockets_ok (registered c s)" (is "sockets_ok ?t") "chooseSocket d (registered c s) = (if d = c then Some (bus_sockets s) else chooseSocket d s)"
    "streams_with ((\<lambda>d. handed env d s)(c := [])) (registered c s)"
proof -
  have so: "sockets_ok s" and ids: "ids_ok s" and st: "streams_with (\<lambda>c. handed env c s) s" and pend: "c \<in> bus_connIdPendingOutgoingConnection s"
    using sv by (simp_all add: serving_def streams_ok_def)
  note un = unused_socket[OF so] and c = ids_okD(3)[OF ids pend]
  show "sockets_ok ?t"
  proof (rule sockets_okI)
    fix d j
    note facts = sockets_okD[OF so, of d j]
    show "bus_connIdToOutgoingSocket ?t d = Some j \<longleftrightarrow> bus_socketToOutgoingConnId ?t j = Some d"
      using facts(1) c un(1) un(3)[of d] by (cases "d = c"; cases "j = bus_sockets s") (auto simp: registered_def)
    show "bus_connIdToIncomingSocket ?t d = Some j \<longleftrightarrow> bus_socketToIncomingConnId ?t j = Some d" using facts(2) by (simp add: registered_def)
    show "j < bus_sockets ?t \<and> bus_connIdToOutgoingEndpoint ?t d \<noteq> None \<and> bus_incomingSocketBuffers ?t j \<noteq> None \<and> bus_socketToIncomingConnId ?t j = None"
      if "bus_connIdToOutgoingSocket ?t d = Some j" using that facts(3) c un(2) by (cases "d = c") (auto simp: registered_def)
    show "j < bus_sockets ?t \<and> bus_connIdToIncomingEndpoint ?t d \<noteq> None \<and> bus_incomingSocketBuffers ?t j \<noteq> None"
      if "bus_connIdToIncomingSocket ?t d = Some j" using that facts(4) by (auto simp: registered_def)
  qed
  show choose: "chooseSocket d ?t = (if d = c then Some (bus_sockets s) else chooseSocket d s)" for d
    by (simp add: chooseSocket_def registered_def cong: option.case_cong)
  show "streams_with ((\<lambda>d. handed env d s)(c := [])) ?t"
  proof (rule streams_withI)
    fix d k assume "chooseSocket d ?t = Some k" "k \<notin> bus_lost ?t"
    then show "bus_wire ?t k @ needing k ?t = concat (map (frame (bus_extraMessageSizeCheck ?t)) (filter fits (((\<lambda>d. handed env d s)(c := [])) d)))"
      using streams_withD(1)[OF st, of d k] streams_withD(3)[OF st, of k] unfolding choose by (cases "d = c") (auto simp: registered_def needing_def)
  next
    fix d assume "d \<in> bus_connIdPendingOutgoingConnection ?t" "chooseSocket d ?t = None"
    then show "heldBack d ?t = ((\<lambda>d. handed env d s)(c := [])) d"
      using streams_withD(2)[OF st, of d] unfolding choose by (auto simp: registered_def heldBack_def split: if_splits)
  next
    fix k assume "bus_sockets ?t \<le> k"
    then show "bus_wire ?t k = [] \<and> bus_socketToBytesNeedingWrite ?t k = None" using streams_withD(3)[OF st, of k] by (simp add: registered_def)
  qed
qed

lemma establish_run:
  "establish c s = (case forM (heldBack c s) (scheduleBytesForWrite c) (registered c s) of
      (Inl e, t) \<Rightarrow> (Inl e, t)
    | (Inr u, t) \<Rightarrow> (Inr True, snd (scheduleEvent (FireEvent (OutgoingConnectionEstablished c))
         (t\<lparr>bus_connIdPendingOutgoingConnection := bus_connIdPendingOutgoingConnection t - {c}\<rparr>))))"
proof (cases "bus_messagesForUnconnected s c")
  case None
  then have "(bus_messagesForUnconnected s)(c := None) = bus_messagesForUnconnected s" by (simp add: fun_upd_idem)
  with None show ?thesis by (simp add: establish_def newSocket_def registered_def heldBack_def scheduleEvent_def)
next
  case (Some ms)
  obtain r t where f: "forM ms (scheduleBytesForWrite c) (registered c s) = (r, t)" by fastforce
  with Some show ?thesis
    by (cases r) (simp_all add: establish_def newSocket_def registered_def heldBack_def scheduleEvent_def)
qed

lemma established_ok:
  assumes sv: "serving env c s" and t: "t = (registered c s)\<lparr>bus_totalBytesPendingInOutputLoop := n, bus_socketToBytesNeedingWrite := b\<rparr>"
    and st: "streams_with H t" and H: "\<forall>d. H d = handed env d s"
  shows "bus_ok env (t\<lparr>bus_connIdPendingOutgoingConnection := bus_connIdPendingOutgoingConnection t - {c}\<rparr>)" (is "bus_ok env ?u")
proof (rule bus_okI)
  have so: "sockets_ok s" and ids: "ids_ok s" and sub: "submission_ok s" and pend: "c \<in> bus_connIdPendingOutgoingConnection s"
    and q: "bus_submitted s = bus_taken s @ bq_queue (bus_messagesToSendQueue s)"
    and rq: "\<And>d. connectRequests d s = (if d \<in> bus_connIdPendingOutgoingConnection s \<and> d \<noteq> c then 1 else 0)"
    using sv by (simp_all add: serving_def)
  show "sockets_ok ?u" using registered_books(1)[OF sv] unfolding sockets_ok_def t by simp
  show "ids_ok ?u"
    by (rule ids_okI) (use ids_okD[OF ids] in \<open>auto simp: t registered_def split: if_splits simp del: split_paired_All split_paired_Ex\<close>)
  have "connectRequests d ?u = connectRequests d s" for d by (simp add: connectRequests_def t registered_def)
  then show "queue_ok ?u" using q rq by (simp add: queue_ok_def t registered_def)
  show "submission_ok ?u" using sub by (simp add: submission_ok_def t registered_def)
  have choose: "chooseSocket d ?u = chooseSocket d t" and held: "heldBack d ?u = heldBack d t" and need: "needing k ?u = needing k t" for d k
    by (simp_all add: chooseSocket_def heldBack_def needing_def cong: option.case_cong)
  have "handed env d ?u = H d" for d using H by (simp add: handed_def t registered_def)
  then show "streams_ok env ?u" unfolding streams_ok_def
    by (intro streams_withI) (use streams_withD[OF st] in \<open>auto simp: choose held need\<close>)
qed

lemma connectTo_ok:
  assumes sv: "serving env c s"
  shows "bus_ok env (snd (connectTo c r s))"
proof -
  have so: "sockets_ok s" and ids: "ids_ok s" and st: "streams_with (\<lambda>c. handed env c s) s" and pend: "c \<in> bus_connIdPendingOutgoingConnection s"
    using sv by (simp_all add: serving_def streams_ok_def)
  note c = ids_okD(3)[OF ids pend] and un = unused_socket[OF so]
  then obtain e where ep: "bus_connIdToOutgoingEndpoint s c = Some e" by blast
  show ?thesis
  proof (cases r)
    case ConnectFailed
    have "bus_ok env (s\<lparr>bus_connIdToOutgoingEndpoint := (bus_connIdToOutgoingEndpoint s)(c := None),
        bus_connIdPendingOutgoingConnection := bus_connIdPendingOutgoingConnection s - {c}, bus_messagesForUnconnected := (bus_messagesForUnconnected s)(c := None)\<rparr>)"
      by (rule given_up_ok[OF sv]) (use streams_withD[OF st] in \<open>simp_all add: connectRequests_def needing_def\<close>)
    then show ?thesis using ep c ConnectFailed by (simp add: connectTo_def catchM_def cleanUp_def scheduleEvent_def)
  next
    case Connected
    let ?H = "(\<lambda>d. handed env d s)(c := [])"
    note reg = registered_books[OF sv]
    obtain f t where f: "forM (heldBack c s) (scheduleBytesForWrite c) (registered c s) = (f, t)" by fastforce
    have held: "heldBack c s = handed env c s" using streams_withD(2)[OF st pend] chooseSocket_pending[OF so ids pend] by simp
    have "\<forall>m \<in> set (heldBack c s). m \<noteq> []" unfolding held handed_def using messagesOf_nonempty by blast
    from schedule_all[OF _ reg(1,3) this f] obtain H n b where
      H: "streams_with H t" "\<forall>d. d \<noteq> c \<longrightarrow> H d = ?H d" "f = Inr () \<longrightarrow> H c = ?H c @ heldBack c s"
      and t: "t = (registered c s)\<lparr>bus_totalBytesPendingInOutputLoop := n, bus_socketToBytesNeedingWrite := b\<rparr>"
      using reg(2)[of c] by auto
    show ?thesis
    proof (cases f)
      case (Inr u)
      then have "\<forall>d. H d = handed env d s" using H(2,3) held by (metis fun_upd_apply append_Nil old.unit.exhaust)
      from established_ok[OF sv t H(1) this] show ?thesis
        using ep f Inr Connected by (simp add: connectTo_def catchM_def establish_run scheduleEvent_def)
    next
      case (Inl e)
      have choose: "chooseSocket d t = (if d = c then Some (bus_sockets s) else chooseSocket d s)" for d
        using reg(2)[of d] by (simp add: t chooseSocket_def cong: option.case_cong)
      have run: "snd (connectTo c r s) = t\<lparr>bus_connIdToOutgoingEndpoint := (bus_connIdToOutgoingEndpoint s)(c := None),
          bus_connIdPendingOutgoingConnection := bus_connIdPendingOutgoingConnection s - {c}, bus_messagesForUnconnected := (bus_messagesForUnconnected s)(c := None),
          bus_connIdToOutgoingSocket := bus_connIdToOutgoingSocket s, bus_socketToOutgoingConnId := bus_socketToOutgoingConnId s\<rparr>" (is "_ = ?u")
        using ep f Inl Connected c un(1) by (simp add: connectTo_def catchM_def establish_run cleanUp_def t registered_def fun_upd_idem)
      show ?thesis unfolding run
      proof (rule given_up_ok[OF sv])
        fix d k assume d: "chooseSocket d s = Some k" "k \<notin> bus_lost s"
        then have "d \<noteq> c" using chooseSocket_pending[OF so ids pend] by auto
        then show "bus_wire s k @ needing k ?u = concat (map (frame (bus_extraMessageSizeCheck s)) (filter fits (handed env d s)))"
          using streams_withD(1)[OF H(1), of d k] d H(2) by (simp add: choose) (simp add: t registered_def needing_def)
      next
        fix k assume "bus_sockets ?u \<le> k"
        then show "bus_socketToBytesNeedingWrite ?u k = None" using streams_withD(3)[OF H(1), of k] by simp
      qed (auto simp: t registered_def connectRequests_def)
    qed
  qed
qed

section \<open>The event thread and the timed callbacks\<close>

lemma consumeLoop_split: "consumeLoop clock xs = (r, left, cbs) \<Longrightarrow> map snd xs = cbs @ map snd left"
proof (induction clock xs arbitrary: r left cbs rule: consumeLoop.induct)
  case (2 clock t cb rest)
  then show ?case by (auto split: if_splits prod.splits)
qed simp

lemma count_list_callbacks: "count_list (map ThreadCallback cbs) (ThreadCallback cb) = count_list cbs cb"
  by (induction cbs) auto

lemma keeps_consumeCallbacks [keeps_rules]: "keeps (bus_ok env) (consumeCallbacksOnOutputThread clock)"
proof (rule keepsI)
  fix s :: "'a MessageBus" assume ok: "bus_ok env s"
  obtain r left cbs where l: "consumeLoop clock (bus_pendingTimedCallbacks s) = (r, left, cbs)" by (metis prod_cases3)
  let ?t = "s\<lparr>bus_pendingTimedCallbacks := left, bus_eventQueue := bus_eventQueue s @ map ThreadCallback cbs\<rparr>"
  have "connectRequests c ?t = connectRequests c s" for c
    by (simp add: connectRequests_def count_list_callbacks consumeLoop_split[OF l])
  then have "bus_ok env ?t = bus_ok env s" by (intro bus_ok_frame) simp_all
  then show "bus_ok env (snd (consumeCallbacksOnOutputThread clock s))" using ok l by (simp add: consumeCallbacksOnOutputThread_def)
qed

lemma eventThreadStep_ok:
  assumes ok: "bus_ok env s"
  shows "bus_ok env (snd (eventThreadStep r s))"
proof (cases "bus_eventQueue s")
  case Nil
  with ok show ?thesis by (simp add: eventThreadStep_def)
next
  case (Cons item rest)
  show ?thesis
  proof (cases "\<exists>c. item = ThreadCallback (ConnectTo c)")
    case True
    then obtain c where c: "item = ThreadCallback (ConnectTo c)" by blast
    then show ?thesis using Cons connectTo_ok[OF serving_start[OF ok], of c rest r] by (simp add: eventThreadStep_def Let_def)
  next
    case False
    have "count_list rest (ThreadCallback (ConnectTo c)) = count_list (bus_eventQueue s) (ThreadCallback (ConnectTo c))" for c using False Cons by auto
    then have t: "bus_ok env (s\<lparr>bus_eventQueue := rest\<rparr>)" using ok by simp
    have ev: "bus_ok env (snd (scheduleEvent e (s\<lparr>bus_eventQueue := rest\<rparr>)))" for e :: "'a fire_item"
      using keeps_scheduleEvent[of env e] t by (simp add: keeps_def)
    show ?thesis using Cons False t ev by (auto simp: eventThreadStep_def Let_def split: thread_item.split callback.split)
  qed
qed

lemma scheduleCallback_other:
  assumes "\<And>c. cb \<noteq> Some (ConnectTo c)"
  shows "keeps (bus_ok env) (scheduleCallback now cb stamp delay)"
proof (cases cb)
  case None
  then show ?thesis by (simp add: scheduleCallback_def keeps_ret)
next
  case (Some f)
  have "bus_ok env (s\<lparr>bus_pendingTimedCallbacks := addTimed (x, f) (bus_pendingTimedCallbacks s)\<rparr>) = bus_ok env s" for s :: "'a MessageBus" and x
    using assms Some by (intro bus_ok_frame) (auto simp: connectRequests_def)
  then show ?thesis using Some unfolding scheduleCallback_def
    by (auto simp: Let_def intro!: keeps_modify keeps_raise)
qed

lemma keeps_handleEventToFire [keeps_rules]: "keeps (bus_ok env) (handleEventToFire now)"
proof (rule keepsI)
  fix s :: "'a MessageBus" assume ok: "bus_ok env s"
  show "bus_ok env (snd (handleEventToFire now s))"
  proof (cases "bus_eventsToFireQueue s")
    case Nil
    with ok show ?thesis by (simp add: handleEventToFire_def)
  next
    case (Cons item rest)
    let ?s = "s\<lparr>bus_eventsToFireQueue := rest\<rparr>"
    have t: "bus_ok env ?s" using ok by simp
    show ?thesis
    proof (cases item)
      case (TriggerDisconnect c)
      have "bus_ok env (snd (scheduleCallback now (Some (ScheduleDisconnect c)) None (Some (1 / 10)) ?s))" "bus_ok env (snd (markSocketClosed k ?s))" for k
        using t scheduleCallback_other[of "Some (ScheduleDisconnect c)" env now None "Some (1 / 10)"] keeps_markSocketClosed[of env k]
        by (simp_all add: keeps_def)
      then show ?thesis using Cons TriggerDisconnect t by (auto simp: handleEventToFire_def split: option.split)
    next
      case (FireEvent event)
      then show ?thesis using Cons t
        by (auto simp: handleEventToFire_def fireEvent_def split: MessageBusEvent.split option.split)
    qed
  qed
qed

end
