(* ===== verification/Bus_Runs.thy ===== *)
theory Bus_Runs
  imports Bus_Establishing
begin

text \<open>
  What can happen to a message bus: its users call it, its socket thread runs a handler, its event thread runs a callback, in any order. Every
  reachable state satisfies \<open>bus_ok\<close>, and a round of the socket thread's loop is a sequence of such steps.
\<close>

section \<open>Steps\<close>

text \<open>Only the watcher and the wake pipes have changed.\<close>

definition only_watching :: "'i MessageBus \<Rightarrow> 'i MessageBus \<Rightarrow> bool" where
  "only_watching s t \<longleftrightarrow> t = s\<lparr>bus_readSockets := bus_readSockets t, bus_writeSockets := bus_writeSockets t,
     bus_socketsWithSslWantWrite := bus_socketsWithSslWantWrite t, bus_messageToSendWakes := bus_messageToSendWakes t,
     bus_eventToFireWakes := bus_eventToFireWakes t, bus_generalWakes := bus_generalWakes t\<rparr>"

text \<open>A user whose \<open>put\<close> has to wait has not taken its step yet.\<close>

inductive bus_step :: "('i, 'o) busenv \<Rightarrow> 'i MessageBus \<Rightarrow> 'i MessageBus \<Rightarrow> bool" for env where
  starts: "bus_step env s (snd (busStart listens bound s))"
| stops: "busStop s = (Inr u, t) \<Longrightarrow> bus_step env s t"
| stops_events: "bus_step env s (stopEventThread s)"
| tears_down: "bus_step env s (busTeardown s)"
| limits: "bus_step env s (snd (setMaxWriteQueueSize n s))"
| connects: "busConnect endpoint s = (Inr c, t) \<Longrightarrow> bus_step env s t"
| sends: "sendMessage env c m s = (Inr b, t) \<Longrightarrow> bus_step env s t"
| closes: "bus_step env s (snd (closeConnection c s))"
| schedules: "bus_step env s (snd (scheduleCallback now (Some (UserCallback n)) stamp delay s))"
| takes: "bus_step env s (snd (handleMessageToSend env now s))"
| fires: "bus_step env s (snd (handleEventToFire now s))"
| writes: "bus_step env s (snd (handleWriteReadySocket k r s))"
| reads: "bus_step env s (snd (handleReadReadySocket env k a r s))"
| consumes: "bus_step env s (snd (consumeCallbacksOnOutputThread clock s))"
| drops: "bus_step env s (snd (dropFailed ks s))"
| calls: "bus_step env s (snd (eventThreadStep r s))"
| watches: "only_watching s t \<Longrightarrow> bus_step env s t"

definition bus_reachable :: "('i, 'o) busenv \<Rightarrow> string option \<Rightarrow> bool \<Rightarrow> 'i MessageBus \<Rightarrow> bool" where
  "bus_reachable env token extra = (bus_step env)\<^sup>*\<^sup>* (newMessageBus token extra)"

section \<open>The invariant holds\<close>

lemma bus_ok_new: "bus_ok env (newMessageBus token extra)"
  by (simp add: bus_ok_defs itemsFor_def newMessageBus_def newBytecountLimitedQueue_def)

lemma newSocket_ok:
  assumes ok: "bus_ok env s"
  shows "bus_ok env (s\<lparr>bus_sockets := Suc (bus_sockets s)\<rparr>)" (is "bus_ok env ?t")
proof (rule bus_okI)
  show "sockets_ok ?t" by (rule sockets_okI) (use sockets_okD[OF bus_okD(1)[OF ok]] in \<open>simp_all add: less_SucI\<close>)
  show "ids_ok ?t" using bus_okD(2)[OF ok] by (simp add: ids_ok_def)
  show "queue_ok ?t" using bus_okD(3)[OF ok] by (simp add: queue_ok_def connectRequests_def)
  show "submission_ok ?t" using bus_okD(4)[OF ok] by (simp add: submission_ok_def)
  show "streams_ok env ?t" using bus_okD(5)[OF ok]
    by (simp add: streams_ok_def streams_with_def chooseSocket_def handed_def needing_def heldBack_def cong: option.case_cong)
qed

lemma keeps_newSocket: "keeps (bus_ok env) newSocket"
  by (rule keepsI) (simp add: newSocket_def newSocket_ok)

lemma keeps_busStart: "keeps (bus_ok env) (busStart listens bound)"
  unfolding busStart_def by (intro keeps_rules keeps_newSocket keeps_modify) simp_all

lemma busStop_ok:
  assumes ok: "bus_ok env s" and run: "busStop s = (Inr u, t)"
  shows "bus_ok env t"
proof (cases "bus_started s")
  case False
  with ok run show ?thesis by (simp add: busStop_def)
next
  case True
  let ?s = "s\<lparr>bus_started := False\<rparr>"
  from run True obtain v t' where "pushItem DisconnectedItem ?s = (Inr v, t')" and t: "t = snd (scheduleEvent (FireEvent Stopped) t')"
    by (auto simp: busStop_def thenM_ok)
  from this(1) have "bus_ok env t'"
  proof (rule pushItem_ok)
    fix q assume q: "bq_queue q = bq_queue (bus_messagesToSendQueue ?s) @ [DisconnectedItem]"
      and t': "t' = ?s\<lparr>bus_messagesToSendQueue := q, bus_submitted := bus_submitted ?s @ [DisconnectedItem]\<rparr>"
    have ok': "bus_ok env ?s" using ok by simp
    show ?thesis unfolding t'
    proof (rule bus_okI, goal_cases)
      case 1 show ?case using bus_okD(1)[OF ok'] by (simp add: sockets_ok_def)
      case 2 show ?case using bus_okD(2)[OF ok'] by (simp add: ids_ok_def)
      case 3 show ?case using bus_okD(3)[OF ok'] q by (simp add: queue_ok_def connectRequests_def)
      case 4 show ?case using bus_okD(4)[OF ok'] by (simp add: submission_ok_def itemsFor_def)
      case 5 show ?case using bus_okD(5)[OF ok']
        by (simp add: streams_ok_def streams_with_def chooseSocket_def handed_def needing_def heldBack_def cong: option.case_cong)
    qed
  qed
  then show ?thesis using t keeps_scheduleEvent[of env "FireEvent Stopped"] by (simp add: keeps_def)
qed

lemma run_keeps_ok: "keeps (bus_ok env) m \<Longrightarrow> bus_ok env s \<Longrightarrow> bus_ok env (snd (m s))"
  by (simp add: keeps_def)

lemma bus_step_ok: "bus_step env s t \<Longrightarrow> bus_ok env s \<Longrightarrow> bus_ok env t"
proof (induction rule: bus_step.induct)
  case (starts s listens bound)
  then show ?case by (rule run_keeps_ok[OF keeps_busStart])
next
  case (stops s u t)
  then show ?case by (rule busStop_ok[rotated])
next
  case (stops_events s)
  then show ?case by (simp add: stopEventThread_def)
next
  case (tears_down s)
  then show ?case by (simp add: busTeardown_def)
next
  case (limits s n)
  have "bus_ok env (s\<lparr>bus_messagesToSendQueue := assignMaxBytes n (bus_messagesToSendQueue s)\<rparr>) = bus_ok env s"
    by (rule bus_ok_frame) (simp_all add: connectRequests_def assignMaxBytes_def)
  with limits show ?case by (simp add: setMaxWriteQueueSize_def)
next
  case (connects endpoint s c t)
  then show ?case by (rule busConnect_ok[rotated])
next
  case (sends c m s b t)
  then show ?case by (rule sendMessage_ok[rotated])
next
  case (closes s c)
  then show ?case by (simp add: closeConnection_def scheduleEvent_def)
next
  case (schedules s now n stamp delay)
  then show ?case by (intro run_keeps_ok scheduleCallback_other) simp_all
next
  case (calls s r)
  then show ?case by (rule eventThreadStep_ok)
next
  case (watches s t)
  obtain rs ws ssl a b c where "t = s\<lparr>bus_readSockets := rs, bus_writeSockets := ws, bus_socketsWithSslWantWrite := ssl, bus_messageToSendWakes := a,
    bus_eventToFireWakes := b, bus_generalWakes := c\<rparr>" using watches(1) unfolding only_watching_def by blast
  with watches(2) show ?case by simp
qed (erule run_keeps_ok[rotated];
  rule keeps_handleMessageToSend keeps_handleEventToFire keeps_handleWriteReadySocket keeps_handleReadReadySocket keeps_consumeCallbacks keeps_dropFailed)+

lemma bus_reachable_ok: "bus_reachable env token extra s \<Longrightarrow> bus_ok env s"
  unfolding bus_reachable_def by (induction rule: rtranclp_induct) (auto intro: bus_ok_new bus_step_ok)

section \<open>Rounds of the socket thread\<close>

definition reached :: "('i, 'o) busenv \<Rightarrow> 'i MessageBus \<Rightarrow> 'i MessageBus \<Rightarrow> bool" where
  "reached env s0 s = (bus_step env)\<^sup>*\<^sup>* s0 s"

lemma keeps_reached: "(\<And>s. bus_step env s (snd (m s))) \<Longrightarrow> keeps (reached env s0) m"
  by (rule keepsI) (auto simp: reached_def intro: rtranclp.rtrancl_into_rtrancl)

lemma keeps_reached_watch: "(\<And>s. only_watching s (f s)) \<Longrightarrow> keeps (reached env s0) (modify f)"
  by (rule keeps_reached) (simp add: bus_step.watches)

lemma keeps_reached_handlers:
  "keeps (reached env s0) (handleMessageToSend env now)" "keeps (reached env s0) (handleEventToFire now)"
  "keeps (reached env s0) (handleWriteReadySocket k r)" "keeps (reached env s0) (handleReadReadySocket env k a r')"
  "keeps (reached env s0) (consumeCallbacksOnOutputThread clock)" "keeps (reached env s0) (dropFailed ks)"
  by (rule keeps_reached, rule bus_step.intros)+

lemma keeps_reached_pipes:
  "keeps (reached env s0) (handleMessageToSendWakePipe env now)" "keeps (reached env s0) (handleEventToFireWakePipe now)"
  "keeps (reached env s0) handleGeneralWakePipe"
  unfolding handleMessageToSendWakePipe_def handleEventToFireWakePipe_def handleGeneralWakePipe_def
  by (intro keeps_rules keeps_reached_handlers keeps_reached_watch; simp add: only_watching_def)+

lemma keeps_reached_ready: "keeps (reached env s0) (handleReady env now can r)"
  by (cases r) (auto intro!: keeps_rules keeps_reached_pipes keeps_reached_handlers)

lemma round_is_steps: "(bus_step env)\<^sup>*\<^sup>* s (snd (socketThreadStep env clock now elapsed selects polled s))"
proof -
  have w: "keeps (reached env s0) (handleWriteable w did)" for s0 w did
    unfolding handleWriteable_def by (intro keeps_rules keeps_reached_handlers)
  have p: "keeps (reached env s0) (handlePolled env now can n rs ws)" for s0 can n rs ws
    unfolding handlePolled_def by (intro keeps_rules keeps_reached_ready w keeps_reached_watch) (simp add: only_watching_def)
  have "keeps (reached env s0) (socketThreadRound env clock now elapsed selects polled)" for s0
    unfolding socketThreadRound_def
    by (cases polled) (simp_all add: Let_def, (intro conjI impI keeps_rules keeps_reached_handlers p keeps_reached_watch; simp add: only_watching_def)+)
  then have "reached env s (snd (socketThreadRound env clock now elapsed selects polled s))" by (simp add: keeps_def reached_def)
  moreover have "snd (socketThreadStep env clock now elapsed selects polled s) = snd (socketThreadRound env clock now elapsed selects polled s)"
    unfolding socketThreadStep_def by (cases "socketThreadRound env clock now elapsed selects polled s"; cases "fst (socketThreadRound env clock now elapsed selects polled s)") simp_all
  ultimately show ?thesis by (simp add: reached_def)
qed

end
