(* ===== verification/Bus_Delivery.thy ===== *)
theory Bus_Delivery
  imports Bus_Runs
begin

text \<open>
  From one bus to another: the bytes that a bus in any reachable state has written for an outgoing connection, cut into pieces in any way and
  read by the bus at the other end, authenticate the connection and fire the events of the messages submitted, in order.
\<close>

section \<open>What the sender has written\<close>

text \<open>The messages users have submitted for a connection. Empty ones are never sent.\<close>

definition payloads :: "ConnectionId \<Rightarrow> send_item list \<Rightarrow> bytes list" where
  "payloads c items = concat (map (\<lambda>i. case i of SendBytes d m \<Rightarrow> if d = c \<and> m \<noteq> [] then [m] else [] | _ \<Rightarrow> []) items)"

lemma payloads_simps [simp]:
  "payloads c [] = []" "payloads c (items @ items') = payloads c items @ payloads c items'"
  "payloads c (i # items) = (case i of SendBytes d m \<Rightarrow> if d = c \<and> m \<noteq> [] then [m] else [] | _ \<Rightarrow> []) @ payloads c items"
  by (simp_all add: payloads_def)

lemma payloads_itemsFor: "payloads c (itemsFor c items) = payloads c items"
  by (induction items) (auto simp: itemsFor_def split: send_item.split)

lemma messagesOf_itemsFor: "messagesOf env token c (itemsFor c items) = messagesOf env token c items"
  by (induction items) (auto simp: itemsFor_def itemMessages_other)

lemma messagesOf_sends: "messagesOf env token c (map (SendBytes c) ms) = payloads c (map (SendBytes c) ms)"
  by (induction ms) auto

text \<open>An outgoing connection starts with the token.\<close>

lemma outgoing_messages:
  assumes ok: "bus_ok env s" and c: "bus_connIdToOutgoingEndpoint s c \<noteq> None"
  shows "messagesOf env (bus_authToken s) c (bus_submitted s) = authMessage env (bus_authToken s) @ payloads c (bus_submitted s)"
proof -
  obtain ms where ms: "itemsFor c (bus_submitted s) = TriggerConnect c # map (SendBytes c) ms"
    using submission_okD(1)[OF bus_okD(4)[OF ok] c] by blast
  have "messagesOf env (bus_authToken s) c (bus_submitted s) = authMessage env (bus_authToken s) @ payloads c (map (SendBytes c) ms)"
    unfolding messagesOf_itemsFor[of env _ c "bus_submitted s", symmetric] ms by (simp add: messagesOf_sends)
  also have "payloads c (map (SendBytes c) ms) = payloads c (bus_submitted s)"
    unfolding payloads_itemsFor[of c "bus_submitted s", symmetric] ms by simp
  finally show ?thesis .
qed

text \<open>The bytes on the wire are an initial part of the frames of everything submitted, and all of it once nothing waits.\<close>

lemma wire_frames:
  assumes ok: "bus_ok env s" and k: "bus_connIdToOutgoingSocket s c = Some k" "k \<notin> bus_lost s"
  obtains rest where "bus_wire s k @ rest =
      concat (map (frame (bus_extraMessageSizeCheck s)) (filter fits (authMessage env (bus_authToken s) @ payloads c (bus_submitted s))))"
    "bus_socketToBytesNeedingWrite s k = None \<Longrightarrow> itemsFor c (bq_queue (bus_messagesToSendQueue s)) = [] \<Longrightarrow> rest = []"
proof -
  let ?q = "bq_queue (bus_messagesToSendQueue s)" and ?F = "\<lambda>ms. concat (map (frame (bus_extraMessageSizeCheck s)) (filter fits ms))"
  let ?later = "messagesOf env (bus_authToken s) c ?q"
  have choose: "chooseSocket c s = Some k" using k by (simp add: chooseSocket_def)
  have ep: "bus_connIdToOutgoingEndpoint s c \<noteq> None" using sockets_okD(3)[OF bus_okD(1)[OF ok] k(1)] by blast
  have sub: "bus_submitted s = bus_taken s @ ?q" using bus_okD(3)[OF ok] by (simp add: queue_ok_def)
  have "bus_wire s k @ needing k s = ?F (handed env c s)"
    by (rule streams_withD(1)[OF bus_okD(5)[OF ok, unfolded streams_ok_def] choose k(2)])
  then have "bus_wire s k @ (needing k s @ ?F ?later) = ?F (handed env c s @ ?later)" by simp
  also have "handed env c s @ ?later = authMessage env (bus_authToken s) @ payloads c (bus_submitted s)"
    unfolding outgoing_messages[OF ok ep, symmetric] by (simp add: handed_def sub)
  finally have 1: "bus_wire s k @ (needing k s @ ?F ?later) = ?F (authMessage env (bus_authToken s) @ payloads c (bus_submitted s))" .
  moreover have "needing k s @ ?F ?later = []" if "bus_socketToBytesNeedingWrite s k = None" "itemsFor c ?q = []"
    using that messagesOf_itemsFor[of env "bus_authToken s" c ?q] by (simp add: needing_def)
  ultimately show thesis by (rule that)
qed

section \<open>What the receiver does with it\<close>

text \<open>The socket loop reads one piece after the other.\<close>

definition receiveAll :: "('i, 'o) busenv \<Rightarrow> sock \<Rightarrow> bytes list \<Rightarrow> ('i MessageBus, unit) pyM" where
  "receiveAll env j pieces = forM pieces (\<lambda>p. thenM (handleReadReadySocket env j AcceptFailed (Received p)) (ret ()))"

definition messageEvent :: "('i, 'o) busenv \<Rightarrow> ConnectionId \<Rightarrow> bytes \<Rightarrow> 'i thread_item" where
  "messageEvent env d m = ThreadEvent (IncomingMessage d (the (be_deserialize env m)))"

text \<open>The messages \<open>g\<close> have arrived on socket \<open>j\<close>, connection \<open>d\<close>, of which the first \<open>a\<close> are for authentication.\<close>

definition receiving :: "('i, 'o) busenv \<Rightarrow> string option \<Rightarrow> ConnectionId \<Rightarrow> sock \<Rightarrow> 'i thread_item list \<Rightarrow> nat \<Rightarrow> bytes list \<Rightarrow> 'i MessageBus \<Rightarrow> bool" where
  "receiving env token d j q0 a g r \<longleftrightarrow> getConnectionIdFromSocket j r = Some d \<and> j \<in> bus_readSockets r \<and> bus_acceptSocket r \<noteq> Some j \<and> bus_authToken r = token
     \<and> (d \<in> bus_unauthenticatedConnections r \<longleftrightarrow> token \<noteq> None \<and> g = []) \<and> bus_eventQueue r = q0 @ map (messageEvent env d) (drop a g)"

text \<open>The token as it is sent, and the messages after it, are understood at the other end.\<close>

definition understood :: "('i, 'o) busenv \<Rightarrow> string option \<Rightarrow> bytes list \<Rightarrow> bytes list \<Rightarrow> bool" where
  "understood env token auth ms \<longleftrightarrow>
     (case token of None \<Rightarrow> auth = [] | Some t \<Rightarrow> (\<exists>m. auth = [m] \<and> be_decode env m = Some t)) \<and> (\<forall>m \<in> set ms. be_deserialize env m \<noteq> None)"

lemma receive_one:
  assumes r: "receiving env token d j q0 (length auth) g r" and u: "understood env token auth ms" and stream: "auth @ ms = g @ m # later"
  shows "\<exists>r'. handleIncomingMessage env m j r = (Inr True, r') \<and> receiving env token d j q0 (length auth) (g @ [m]) r'
    \<and> bus_incomingSocketBuffers r' = bus_incomingSocketBuffers r"
proof (cases "d \<in> bus_unauthenticatedConnections r")
  case True
  with r obtain t where t: "token = Some t" "g = []" by (auto simp: receiving_def)
  with u stream have "auth = [m]" "be_decode env m = Some t" by (auto simp: understood_def)
  moreover from this r True t have "handleIncomingMessage env m j r = (Inr True, r\<lparr>bus_unauthenticatedConnections := bus_unauthenticatedConnections r - {d}\<rparr>)"
    by (simp add: handleIncomingMessage_def receiving_def)
  ultimately show ?thesis using r t by (auto simp: receiving_def getConnectionIdFromSocket_def cong: option.case_cong)
next
  case False
  have len: "length auth \<le> length g"
  proof (cases token)
    case None
    then show ?thesis using u by (simp add: understood_def)
  next
    case (Some t)
    with r False have "g \<noteq> []" by (auto simp: receiving_def)
    then show ?thesis using u Some by (cases g) (auto simp: understood_def)
  qed
  have "m \<in> set ms"
  proof -
    have "drop (length auth) (auth @ ms) = drop (length auth) (g @ m # later)" by (simp only: stream)
    then have "ms = drop (length auth) g @ m # later" using len by simp
    then show ?thesis by simp
  qed
  then obtain x where x: "be_deserialize env m = Some x" using u by (auto simp: understood_def)
  have "handleIncomingMessage env m j r = (Inr True, r\<lparr>bus_eventQueue := bus_eventQueue r @ [messageEvent env d m]\<rparr>)"
    using r False x by (simp add: handleIncomingMessage_def receiving_def fireEvent_def messageEvent_def)
  then show ?thesis using r False len by (auto simp: receiving_def getConnectionIdFromSocket_def cong: option.case_cong)
qed

lemma receive_several:
  "receiving env token d j q0 (length auth) g r \<Longrightarrow> understood env token auth ms \<Longrightarrow> auth @ ms = g @ got @ later \<Longrightarrow>
   \<exists>r'. handleMessages env j got r = (Inr (), r') \<and> receiving env token d j q0 (length auth) (g @ got) r' \<and> bus_incomingSocketBuffers r' = bus_incomingSocketBuffers r"
proof (induction got arbitrary: g r)
  case (Cons m got)
  then have "auth @ ms = g @ m # (got @ later)" by simp
  from receive_one[OF Cons.prems(1,2) this] obtain r1 where
    1: "handleIncomingMessage env m j r = (Inr True, r1)" "receiving env token d j q0 (length auth) (g @ [m]) r1" "bus_incomingSocketBuffers r1 = bus_incomingSocketBuffers r"
    by blast
  from Cons.IH[OF 1(2) Cons.prems(2)] Cons.prems(3) obtain r2 where
    "handleMessages env j got r1 = (Inr (), r2)" "receiving env token d j q0 (length auth) (g @ m # got) r2" "bus_incomingSocketBuffers r2 = bus_incomingSocketBuffers r1"
    by auto
  with 1 show ?case by auto
qed simp

lemma receive_piece:
  assumes r: "receiving env token d j q0 (length auth) g r" and u: "understood env token auth ms" and mb: "bus_incomingSocketBuffers r j = Some mb"
    and w: "waiting_for x mb (p @ rest) todo" and stream: "auth @ ms = g @ todo" and fit: "\<forall>m \<in> set todo. fits m" and p: "p \<noteq> []"
  shows "\<exists>got todo' mb' r'. todo = got @ todo' \<and> thenM (handleReadReadySocket env j AcceptFailed (Received p)) (ret ()) r = (Inr (), r')
    \<and> receiving env token d j q0 (length auth) (g @ got) r' \<and> bus_incomingSocketBuffers r' j = Some mb' \<and> waiting_for x mb' rest todo'"
proof -
  from w fit obtain got todo' mb' where b: "todo = got @ todo'" "bufferWrite p mb = (Inr got, mb')" "waiting_for x mb' rest todo'" by (rule bufferWrite_frames)
  define n where "n = bus_totalBytesPendingInInputLoop r + (int (pendingBytecount mb') - int (pendingBytecount mb))"
  let ?r = "r\<lparr>bus_totalBytesRead := bus_totalBytesRead r + int (length p), bus_incomingSocketBuffers := (bus_incomingSocketBuffers r)(j \<mapsto> mb'),
    bus_totalBytesPendingInInputLoop := n, bus_inputLoopHighWatermark := max n (bus_inputLoopHighWatermark r)\<rparr>"
  have "receiving env token d j q0 (length auth) g ?r" using r by (simp add: receiving_def getConnectionIdFromSocket_def cong: option.case_cong)
  from receive_several[OF this u] stream b(1) obtain r' where
    r': "handleMessages env j got ?r = (Inr (), r')" "receiving env token d j q0 (length auth) (g @ got) r'" "bus_incomingSocketBuffers r' = bus_incomingSocketBuffers ?r"
    by blast
  have "receiveBytes env j p r = (Inr (), r')" using mb b(2) r'(1) by (simp add: receiveBytes_def Let_def n_def)
  then have "thenM (handleReadReadySocket env j AcceptFailed (Received p)) (ret ()) r = (Inr (), r')"
    using r p by (simp add: handleReadReadySocket_def receiving_def)
  with b r' show ?thesis by auto
qed

lemma receive_pieces:
  "receiving env token d j q0 (length auth) g r \<Longrightarrow> understood env token auth ms \<Longrightarrow> bus_incomingSocketBuffers r j = Some mb \<Longrightarrow>
   waiting_for x mb (concat pieces @ rest) todo \<Longrightarrow> auth @ ms = g @ todo \<Longrightarrow> \<forall>m \<in> set todo. fits m \<Longrightarrow> [] \<notin> set pieces \<Longrightarrow>
   \<exists>got todo' mb' r'. todo = got @ todo' \<and> receiveAll env j pieces r = (Inr (), r') \<and> receiving env token d j q0 (length auth) (g @ got) r'
     \<and> bus_incomingSocketBuffers r' j = Some mb' \<and> waiting_for x mb' rest todo'"
proof (induction pieces arbitrary: g r mb todo)
  case Nil
  then show ?case by (intro exI[of _ "[]"] exI[of _ todo] exI[of _ mb] exI[of _ r]) (simp add: receiveAll_def)
next
  case (Cons p pieces)
  then have w: "waiting_for x mb (p @ (concat pieces @ rest)) todo" and p: "p \<noteq> []" by auto
  from receive_piece[OF Cons.prems(1-3) w Cons.prems(5,6) p] obtain got todo' mb' r1 where
    1: "todo = got @ todo'" "thenM (handleReadReadySocket env j AcceptFailed (Received p)) (ret ()) r = (Inr (), r1)"
      "receiving env token d j q0 (length auth) (g @ got) r1" "bus_incomingSocketBuffers r1 j = Some mb'" "waiting_for x mb' (concat pieces @ rest) todo'" by blast
  from Cons.IH[OF 1(3) Cons.prems(2) 1(4,5)] Cons.prems(5,6,7) 1(1) obtain got' todo'' mb'' r2 where
    2: "todo' = got' @ todo''" "receiveAll env j pieces r1 = (Inr (), r2)" "receiving env token d j q0 (length auth) ((g @ got) @ got') r2"
      "bus_incomingSocketBuffers r2 j = Some mb''" "waiting_for x mb'' rest todo''" by auto
  have "receiveAll env j (p # pieces) r = (Inr (), r2)" using 1(2) 2(2) by (simp add: receiveAll_def)
  with 1 2 show ?case by (intro exI[of _ "got @ got'"] exI[of _ todo'']) auto
qed

section \<open>Accepting a connection\<close>

text \<open>What never changes.\<close>

definition settings :: "string option \<Rightarrow> bool \<Rightarrow> 'i MessageBus \<Rightarrow> bool" where
  "settings token extra s \<longleftrightarrow> bus_authToken s = token \<and> bus_extraMessageSizeCheck s = extra \<and> (\<forall>k. bus_acceptSocket s = Some k \<longrightarrow> k < bus_sockets s)
     \<and> (token = None \<longrightarrow> bus_unauthenticatedConnections s = {})"

lemma keeps_settings_delM [keeps_rules]:
  "(\<And>s f. settings token extra s \<Longrightarrow> settings token extra (upd f s)) \<Longrightarrow> keeps (settings token extra) (delM d upd k)"
  unfolding delM_def by (intro keeps_rules keeps_modify)

lemma keeps_settings_schedule: "keeps (settings token extra) (scheduleBytesForWrite c m)"
  by (rule keepsI) (auto simp: schedule_result settings_def split: option.split)

lemma keeps_settings_callback: "keeps (settings token extra) (scheduleCallback now cb stamp delay)"
  by (rule keepsI) (auto simp: scheduleCallback_def settings_def Let_def split: option.split)

lemma keeps_settings_push: "keeps (settings token extra) (pushItem item)"
  by (rule keepsI) (auto simp: pushItem_def settings_def split: put_result.split)

lemma keeps_settings_events:
  "keeps (settings token extra) (fireEvent e)" "keeps (settings token extra) (scheduleEvent e')"
  by (auto simp: keeps_def fireEvent_def scheduleEvent_def settings_def)

lemma keeps_settings_newSocket: "keeps (settings token extra) newSocket"
  by (rule keepsI) (auto simp: newSocket_def settings_def less_SucI)

lemma keeps_settings_close: "keeps (settings token extra) (markSocketClosed k)"
proof -
  have "keeps (settings token extra) (forgetIncoming k c)" "keeps (settings token extra) (forgetOutgoing k c)" for c
    unfolding forgetIncoming_def forgetOutgoing_def forgetBytes_def by (intro keeps_rules keeps_modify; simp add: settings_def; auto)+
  then show ?thesis unfolding markSocketClosed_def ensureSocketClosed_def
    by (intro keeps_rules keeps_modify keeps_settings_events) (auto simp: settings_def)
qed

lemmas keeps_settings = keeps_settings_schedule keeps_settings_callback keeps_settings_push keeps_settings_events keeps_settings_newSocket keeps_settings_close

lemma keeps_settings_send: "keeps (settings token extra) (handleMessageToSend env now)"
proof -
  have "keeps (settings token extra) (case item of DisconnectedItem \<Rightarrow> ret () | TriggerConnect c \<Rightarrow>
      bindM (gets bus_authToken) (\<lambda>tk. thenM (case tk of None \<Rightarrow> ret () | Some t \<Rightarrow> scheduleBytesForWrite c (be_encode env t))
        (scheduleCallback now (Some (ConnectTo c)) None None)) | SendBytes c m \<Rightarrow> scheduleBytesForWrite c m)" for item
    by (cases item) (simp_all, (intro keeps_rules keeps_settings)+)
  then show ?thesis unfolding handleMessageToSend_def by (intro keeps_rules keeps_modify) (auto simp: settings_def)
qed

lemma keeps_settings_fire: "keeps (settings token extra) (handleEventToFire now)"
proof (rule keepsI)
  fix s :: "'a MessageBus" assume st: "settings token extra s"
  show "settings token extra (snd (handleEventToFire now s))"
  proof (cases "bus_eventsToFireQueue s")
    case Nil
    with st show ?thesis by (simp add: handleEventToFire_def)
  next
    case (Cons item rest)
    let ?s = "s\<lparr>bus_eventsToFireQueue := rest\<rparr>"
    have t: "settings token extra ?s" using st by (simp add: settings_def)
    then have "settings token extra (snd (scheduleCallback now cb stamp delay ?s))" "settings token extra (snd (markSocketClosed k ?s))" for cb stamp delay k
      using keeps_settings(2,7) unfolding keeps_def by blast+
    then show ?thesis using Cons t
      by (cases item) (auto simp: handleEventToFire_def fireEvent_def settings_def split: MessageBusEvent.split option.split)
  qed
qed

lemma keeps_settings_write: "keeps (settings token extra) (handleWriteReadySocket k r)"
  unfolding handleWriteReadySocket_def by (intro keeps_rules keeps_modify) (auto simp: settings_def)

lemma keeps_settings_accept: "keeps (settings token extra) (acceptConnection source)"
  unfolding acceptConnection_def newConnectionId_def
  by (intro keeps_rules keeps_modify keeps_settings) (auto simp: settings_def)

lemma keeps_settings_messages: "keeps (settings token extra) (handleMessages env k ms)"
proof (induction ms)
  case (Cons m ms)
  have "keeps (settings token extra) (handleIncomingMessage env m k)"
    unfolding handleIncomingMessage_def by (intro keeps_rules keeps_modify keeps_settings) (auto simp: settings_def)
  with Cons show ?case by (simp, intro keeps_rules keeps_settings)
qed (simp add: keeps_ret)

lemma keeps_settings_receive: "keeps (settings token extra) (receiveBytes env k bs)"
proof -
  have "keeps (settings token extra) (case r of Inl e \<Rightarrow> if e = CorruptMessageStream then markSocketClosed k else raise e
      | Inr newMessages \<Rightarrow> thenM (modify (\<lambda>s. let p = bus_totalBytesPendingInInputLoop s + n
             in s\<lparr>bus_totalBytesPendingInInputLoop := p, bus_inputLoopHighWatermark := max p (bus_inputLoopHighWatermark s)\<rparr>))
             (handleMessages env k newMessages))" for r n
  proof (cases r)
    case (Inl e)
    then show ?thesis by (simp add: keeps_settings keeps_raise)
  next
    case (Inr ms)
    have "keeps (settings token extra) (thenM (modify (\<lambda>s. let p = bus_totalBytesPendingInInputLoop s + n
             in s\<lparr>bus_totalBytesPendingInInputLoop := p, bus_inputLoopHighWatermark := max p (bus_inputLoopHighWatermark s)\<rparr>)) (handleMessages env k ms))"
      by (intro keeps_rules keeps_modify keeps_settings_messages) (simp add: settings_def Let_def)
    then show ?thesis using Inr by simp
  qed
  then show ?thesis unfolding receiveBytes_def by (intro keeps_rules keeps_modify) (simp_all add: settings_def)
qed

lemma keeps_settings_read: "keeps (settings token extra) (handleReadReadySocket env k a r)"
proof -
  have want: "keeps (settings token extra) (modify (\<lambda>s. s\<lparr>bus_socketsWithSslWantWrite := insert k (bus_socketsWithSslWantWrite s)\<rparr>))"
    by (rule keeps_modify) (simp add: settings_def)
  show ?thesis unfolding handleReadReadySocket_def
    by (cases a; cases r; intro keeps_rules; simp add: keeps_rules want keeps_settings keeps_settings_accept keeps_settings_receive)
qed

lemma keeps_settings_connect: "keeps (settings token extra) (connectTo c r)"
proof -
  have "keeps (settings token extra) (establish c)"
    unfolding establish_def by (intro keeps_rules keeps_modify keeps_settings) (auto simp: settings_def)
  moreover have "keeps (settings token extra) (cleanUp c)"
    unfolding cleanUp_def by (intro keeps_rules keeps_modify keeps_settings) (auto simp: settings_def)
  ultimately show ?thesis unfolding connectTo_def by (cases r) (intro keeps_rules; simp add: keeps_raise)+
qed

lemma bus_step_settings: "bus_step env s t \<Longrightarrow> settings token extra s \<Longrightarrow> settings token extra t"
proof (induction rule: bus_step.induct)
  case (starts s listens bound)
  have "settings token extra (snd (busStart listens bound s))" if "settings token extra s"
    using that by (cases listens; cases bound) (auto simp: busStart_def newSocket_def settings_def less_SucI)
  with starts show ?case by blast
next
  case (stops s u t)
  have "keeps (settings token extra) (busStop :: ('a MessageBus, unit) pyM)"
    unfolding busStop_def by (intro keeps_rules keeps_modify keeps_settings) (simp add: settings_def)
  with stops show ?case by (blast dest: keepsD)
next
  case (connects endpoint s c t)
  have "keeps (settings token extra) (busConnect endpoint)"
    unfolding busConnect_def newConnectionId_def putOnSendQueue_def by (intro keeps_rules keeps_modify keeps_settings) (auto simp: settings_def)
  with connects show ?case by (blast dest: keepsD)
next
  case (sends c m s b t)
  have "keeps (settings token extra) (sendMessage env c m)"
    unfolding sendMessage_def putOnSendQueue_def by (intro keeps_rules keeps_modify keeps_settings) (auto simp: settings_def)
  with sends show ?case by (blast dest: keepsD)
next
  case (schedules s now n stamp delay)
  then show ?case by (rule keeps_settings_callback[unfolded keeps_def, rule_format])
next
  case (takes s now)
  then show ?case by (rule keeps_settings_send[unfolded keeps_def, rule_format])
next
  case (fires s now)
  then show ?case by (rule keeps_settings_fire[unfolded keeps_def, rule_format])
next
  case (writes s k r)
  then show ?case by (rule keeps_settings_write[unfolded keeps_def, rule_format])
next
  case (reads s k a r)
  then show ?case by (rule keeps_settings_read[unfolded keeps_def, rule_format])
next
  case (consumes s clock)
  then show ?case by (simp add: consumeCallbacksOnOutputThread_def settings_def split: prod.split)
next
  case (drops s ks)
  have "keeps (settings token extra) (dropFailed ks)" unfolding dropFailed_def by (intro keeps_rules keeps_modify) (simp add: settings_def)
  with drops show ?case by (auto simp: keeps_def)
next
  case (calls s r)
  have "settings token extra (s\<lparr>bus_eventQueue := rest\<rparr>)" for rest using calls by (simp add: settings_def)
  then have "settings token extra (snd (connectTo c r (s\<lparr>bus_eventQueue := rest\<rparr>)))" "settings token extra (s\<lparr>bus_eventQueue := rest\<rparr>)"
    "settings token extra (snd (scheduleEvent e (s\<lparr>bus_eventQueue := rest\<rparr>)))" for c rest e
    using keeps_settings_connect keeps_settings_events(2) unfolding keeps_def by blast+
  with calls show ?case by (auto simp: eventThreadStep_def Let_def split: list.split thread_item.split callback.split)
next
  case (watches s t)
  then obtain rs ws ssl a b c where "t = s\<lparr>bus_readSockets := rs, bus_writeSockets := ws, bus_socketsWithSslWantWrite := ssl, bus_messageToSendWakes := a,
    bus_eventToFireWakes := b, bus_generalWakes := c\<rparr>" unfolding only_watching_def by blast
  with watches(2) show ?case by (simp add: settings_def)
qed (simp_all add: stopEventThread_def busTeardown_def setMaxWriteQueueSize_def closeConnection_def scheduleEvent_def settings_def)

lemma bus_reachable_settings: "bus_reachable env token extra s \<Longrightarrow> settings token extra s"
  unfolding bus_reachable_def
proof (induction rule: rtranclp_induct)
  case base
  then show ?case by (simp add: settings_def newMessageBus_def)
qed (rule bus_step_settings)

text \<open>The connection a bus has just accepted.\<close>

lemma accept_receiving:
  assumes r: "bus_reachable env token extra r"
  defines "d \<equiv> bus_connectionIdCounter r + 1"
  obtains r' where "acceptConnection source r = (Inr (), r')"
    "receiving env token d (bus_sockets r) (bus_eventQueue r @ [ThreadEvent (NewIncomingConnection source d)]) a [] r'"
    "bus_incomingSocketBuffers r' (bus_sockets r) = Some (newMessageBuffer extra)"
proof -
  have st: "bus_authToken r = token" "bus_extraMessageSizeCheck r = extra" "bus_acceptSocket r \<noteq> Some (bus_sockets r)"
    "token = None \<Longrightarrow> bus_unauthenticatedConnections r = {}"
    using bus_reachable_settings[OF r] by (auto simp: settings_def)
  define r' where "r' = r\<lparr>bus_sockets := Suc (bus_sockets r), bus_connectionIdCounter := d,
     bus_unauthenticatedConnections := (if token \<noteq> None then insert d else id) (bus_unauthenticatedConnections r),
     bus_connIdToIncomingSocket := (bus_connIdToIncomingSocket r)(d \<mapsto> bus_sockets r), bus_socketToIncomingConnId := (bus_socketToIncomingConnId r)(bus_sockets r \<mapsto> d),
     bus_connIdToIncomingEndpoint := (bus_connIdToIncomingEndpoint r)(d \<mapsto> source),
     bus_incomingSocketBuffers := (bus_incomingSocketBuffers r)(bus_sockets r \<mapsto> newMessageBuffer extra),
     bus_readSockets := insert (bus_sockets r) (bus_readSockets r), bus_eventQueue := bus_eventQueue r @ [ThreadEvent (NewIncomingConnection source d)]\<rparr>"
  have "acceptConnection source r = (Inr (), r')"
    by (simp add: acceptConnection_def newSocket_def newConnectionId_def fireEvent_def r'_def d_def st(1,2))
  moreover have "d \<in> bus_unauthenticatedConnections r' \<longleftrightarrow> token \<noteq> None" using st(4) by (cases "token = None") (simp_all add: r'_def)
  then have "receiving env token d (bus_sockets r) (bus_eventQueue r @ [ThreadEvent (NewIncomingConnection source d)]) a [] r'"
    unfolding receiving_def using st(1,3) by (simp add: r'_def getConnectionIdFromSocket_def)
  moreover have "bus_incomingSocketBuffers r' (bus_sockets r) = Some (newMessageBuffer extra)" by (simp add: r'_def)
  ultimately show thesis by (rule that)
qed

lemma all_arrived: "waiting_for x mb [] todo \<Longrightarrow> todo = []"
  by (cases todo) (auto simp: waiting_for_def)

lemma split_auth:
  assumes "auth @ ms = got @ todo" "length auth \<le> 1"
  obtains todo' where "ms = drop (length auth) got @ todo'" "todo = [] \<longrightarrow> todo' = []"
proof (cases "length auth \<le> length got")
  case True
  have "drop (length auth) (auth @ ms) = drop (length auth) (got @ todo)" by (simp only: assms(1))
  with True have "ms = drop (length auth) got @ todo" by simp
  then show thesis by (rule that) simp
next
  case False
  with assms(2) have "got = []" by (cases got) auto
  with assms(1) show thesis by (intro that[of ms]) auto
qed

end
