(* ===== verification/Bus_Demo.thy ===== *)
theory Bus_Demo
  imports Bus_Delivery
begin

text \<open>
  Two concrete buses: one connects, sends a message before and one after the connection is made, and writes all of it; the other listens.
\<close>

definition demoBusEnv :: "(bytes, bytes) busenv" where
  "demoBusEnv = \<lparr>be_serialize = (\<lambda>m. m), be_deserialize = Some, be_encode = (\<lambda>t. if t = ''t'' then [5] else []),
     be_decode = (\<lambda>bs. if bs = [5] then Some ''t'' else None)\<rparr>"

definition demoStarted :: "bytes MessageBus" where
  "demoStarted = snd (busStart False True (newMessageBus (Some ''t'') True))"

definition demoConnected :: "bytes MessageBus" where
  "demoConnected = snd (busConnect (''h'', 1) demoStarted)"

definition demoSent :: "bytes MessageBus" where
  "demoSent = snd (sendMessage demoBusEnv 1 [7, 8] demoConnected)"

text \<open>The socket thread takes the request to connect and the first message off its queue and hands the request to the event thread.\<close>

definition demoTaken :: "bytes MessageBus" where
  "demoTaken = snd (consumeCallbacksOnOutputThread (\<lambda>_. 1) (snd (handleMessageToSend demoBusEnv 0 (snd (handleMessageToSend demoBusEnv 0 demoSent)))))"

definition demoEstablished :: "bytes MessageBus" where
  "demoEstablished = snd (sendMessage demoBusEnv 1 [9] (snd (eventThreadStep Connected demoTaken)))"

definition demoSender :: "bytes MessageBus" where
  "demoSender = snd (handleWriteReadySocket 0 (Sent 8) (snd (handleWriteReadySocket 0 (Sent 20) (snd (handleMessageToSend demoBusEnv 0 demoEstablished)))))"

definition demoReceiver :: "bytes MessageBus" where
  "demoReceiver = snd (busStart True True (newMessageBus (Some ''t'') True))"

lemmas demo_bus_defs = demoBusEnv_def newMessageBus_def newBytecountLimitedQueue_def busStart_def newSocket_def busConnect_def newConnectionId_def
  putOnSendQueue_def pushItem_def bqPut_def isBlocked_def pushMessage_def bytesPerMsg_def sendMessage_def isDefinitelyDead_def

lemma demoStarted_eq: "demoStarted = (newMessageBus (Some ''t'') True)\<lparr>bus_started := True\<rparr>"
  by (simp add: demoStarted_def demo_bus_defs)

lemma demoConnected_run: "busConnect (''h'', 1) demoStarted = (Inr 1, demoConnected)"
  by (simp add: demoConnected_def demoStarted_eq demo_bus_defs)

lemma demoSent_run: "sendMessage demoBusEnv 1 [7, 8] demoConnected = (Inr True, demoSent)"
  by (simp add: demoSent_def demoConnected_def demoStarted_eq demo_bus_defs)

lemma demoSent_eq: "demoSent = (newMessageBus (Some ''t'') True)\<lparr>bus_started := True, bus_connectionIdCounter := 1,
    bus_connIdToOutgoingEndpoint := [1 \<mapsto> (''h'', 1)], bus_connIdPendingOutgoingConnection := {1}, bus_messageToSendWakes := 2,
    bus_messagesToSendQueue := \<lparr>bq_queue = [TriggerConnect 1, SendBytes 1 [7, 8]], bq_totalBytes = 2, bq_maxBytes = None\<rparr>,
    bus_submitted := [TriggerConnect 1, SendBytes 1 [7, 8]]\<rparr>"
  by (simp add: demoSent_def demoConnected_def demoStarted_eq demo_bus_defs)

lemmas demo_send_defs = handleMessageToSend_def getTake_def getFinish_def scheduleBytesForWrite_def chooseSocket_def writeTo_def scheduleCallback_def

lemma demoTaken_eq: "demoTaken = (newMessageBus (Some ''t'') True)\<lparr>bus_started := True, bus_connectionIdCounter := 1,
    bus_connIdToOutgoingEndpoint := [1 \<mapsto> (''h'', 1)], bus_connIdPendingOutgoingConnection := {1}, bus_messageToSendWakes := 2,
    bus_messagesToSendQueue := \<lparr>bq_queue = [], bq_totalBytes = 0, bq_maxBytes = None\<rparr>, bus_submitted := [TriggerConnect 1, SendBytes 1 [7, 8]],
    bus_taken := [TriggerConnect 1, SendBytes 1 [7, 8]], bus_messagesForUnconnected := [1 \<mapsto> [[5], [7, 8]]], bus_generalWakes := 1,
    bus_eventQueue := [ThreadCallback (ConnectTo 1)]\<rparr>"
  by (simp add: demoTaken_def demoSent_eq demo_bus_defs demo_send_defs consumeCallbacksOnOutputThread_def)

lemma demo_encode: "encode [5] True = Inr [1, 0, 0, 0, 5, 1, 0, 0, 0]" "encode [7, 8] True = Inr [2, 0, 0, 0, 7, 8, 2, 0, 0, 0]"
  "encode [9] True = Inr [1, 0, 0, 0, 9, 1, 0, 0, 0]"
  by code_simp+

lemma demoEstablished_run: "sendMessage demoBusEnv 1 [9] (snd (eventThreadStep Connected demoTaken)) = (Inr True, demoEstablished)"
  by (simp add: demoEstablished_def demoTaken_eq demo_bus_defs eventThreadStep_def connectTo_def catchM_def establish_def scheduleEvent_def
      scheduleBytesForWrite_def chooseSocket_def writeTo_def demo_encode)

lemma demoEstablished_eq: "demoEstablished = (newMessageBus (Some ''t'') True)\<lparr>bus_started := True, bus_connectionIdCounter := 1,
    bus_connIdToOutgoingEndpoint := [1 \<mapsto> (''h'', 1)], bus_messageToSendWakes := 3,
    bus_messagesToSendQueue := \<lparr>bq_queue = [SendBytes 1 [9]], bq_totalBytes = 1, bq_maxBytes = None\<rparr>,
    bus_submitted := [TriggerConnect 1, SendBytes 1 [7, 8], SendBytes 1 [9]],
    bus_taken := [TriggerConnect 1, SendBytes 1 [7, 8]], bus_generalWakes := 1, bus_sockets := 1, bus_socketToOutgoingConnId := [0 \<mapsto> 1],
    bus_connIdToOutgoingSocket := [1 \<mapsto> 0], bus_incomingSocketBuffers := [0 \<mapsto> newMessageBuffer True], bus_totalBytesPendingInOutputLoop := 19,
    bus_socketToBytesNeedingWrite := [0 \<mapsto> [1, 0, 0, 0, 5, 1, 0, 0, 0, 2, 0, 0, 0, 7, 8, 2, 0, 0, 0]],
    bus_eventsToFireQueue := [FireEvent (OutgoingConnectionEstablished 1)], bus_eventToFireWakes := 1\<rparr>"
  by (simp add: demoEstablished_def demoTaken_eq demo_bus_defs eventThreadStep_def connectTo_def catchM_def establish_def scheduleEvent_def
      scheduleBytesForWrite_def chooseSocket_def writeTo_def demo_encode)

lemma demoSender_fields:
  "bus_connIdToOutgoingSocket demoSender 1 = Some 0" "bus_lost demoSender = {}" "bus_socketToBytesNeedingWrite demoSender 0 = None"
  "bus_wire demoSender 0 = [1, 0, 0, 0, 5, 1, 0, 0, 0, 2, 0, 0, 0, 7, 8, 2, 0, 0, 0, 1, 0, 0, 0, 9, 1, 0, 0, 0]"
  "bq_queue (bus_messagesToSendQueue demoSender) = []" "bus_submitted demoSender = [TriggerConnect 1, SendBytes 1 [7, 8], SendBytes 1 [9]]"
  by (simp_all add: demoSender_def demoEstablished_eq demo_bus_defs demo_send_defs handleWriteReadySocket_def bytesWritten_def demo_encode Let_def)

text \<open>The sender's state is reached by steps of its users and its threads.\<close>

lemma one_more_step: "(bus_step env)\<^sup>*\<^sup>* s0 s \<Longrightarrow> bus_step env s t \<Longrightarrow> (bus_step env)\<^sup>*\<^sup>* s0 t"
  by (rule rtranclp.rtrancl_into_rtrancl)

lemma demoSender_reachable: "bus_reachable demoBusEnv (Some ''t'') True demoSender"
proof -
  let ?steps = "(bus_step demoBusEnv)\<^sup>*\<^sup>* (newMessageBus (Some ''t'') True)"
  have "?steps demoStarted" unfolding demoStarted_def by (rule r_into_rtranclp, rule bus_step.starts)
  then have "?steps demoConnected" by (rule one_more_step) (rule bus_step.connects, rule demoConnected_run)
  then have "?steps demoSent" by (rule one_more_step) (rule bus_step.sends, rule demoSent_run)
  then have "?steps (snd (handleMessageToSend demoBusEnv 0 demoSent))" by (rule one_more_step) (rule bus_step.takes)
  then have "?steps (snd (handleMessageToSend demoBusEnv 0 (snd (handleMessageToSend demoBusEnv 0 demoSent))))" by (rule one_more_step) (rule bus_step.takes)
  then have "?steps demoTaken" unfolding demoTaken_def by (rule one_more_step) (rule bus_step.consumes)
  then have "?steps (snd (eventThreadStep Connected demoTaken))" by (rule one_more_step) (rule bus_step.calls)
  then have "?steps demoEstablished" by (rule one_more_step) (rule bus_step.sends, rule demoEstablished_run)
  then have "?steps (snd (handleMessageToSend demoBusEnv 0 demoEstablished))" by (rule one_more_step) (rule bus_step.takes)
  then have "?steps (snd (handleWriteReadySocket 0 (Sent 20) (snd (handleMessageToSend demoBusEnv 0 demoEstablished))))" by (rule one_more_step) (rule bus_step.writes)
  then have "?steps demoSender" unfolding demoSender_def by (rule one_more_step) (rule bus_step.writes)
  then show ?thesis by (simp add: bus_reachable_def)
qed

lemma demoReceiver_reachable: "bus_reachable demoBusEnv (Some ''t'') True demoReceiver"
  unfolding bus_reachable_def demoReceiver_def by (rule r_into_rtranclp, rule bus_step.starts)

lemma demoReceiver_fields: "bus_sockets demoReceiver = 1" "bus_connectionIdCounter demoReceiver = 0" "bus_eventQueue demoReceiver = []"
  by (simp_all add: demoReceiver_def demo_bus_defs)

end
