(* ===== verification/Bus_Properties.thy ===== *)
theory Bus_Properties
  imports Bus_Demo
begin

text \<open>
  The message bus from end to end.
\<close>



end
