(* ===== verification/Spec2Isabelle.thy ===== *)
theory Spec2Isabelle
  imports Server_Access Redis_Persistence Message_Buffer Editor_Session Byte_Queue Client_Transaction Cell_Children Computed_Slots Proxy_Properties Bus_Properties
begin

text \<open>
  A verification of the core of \<open>object_database\<close>, a distributed in-memory object store written in Python
  (\<open>src/object_database\<close>). Clients keep subscribed copies of the objects and commit transactions
  optimistically; the server stores keys and index sets, decides which transactions are accepted and
  broadcasts them. On top of it sits a web framework of cells, with a shared text editor.

  \<^bold>\<open>How the program is modelled.\<close> An operation of a mutable object is a function from the object's state, a
  record with the fields of the Python object, to an outcome and a state; a raised exception is a value of
  \<open>py_error\<close> and keeps the mutations made before it (\<open>Prelude\<close>). Dictionaries that are iterated over are
  association lists in insertion order, others are maps. Code outside the repository (serialisation of
  values, hashing order of sets, guids, the clock) is a parameter: the record \<open>pyenv\<close> of \<open>Environment\<close>, the
  clock readings \<open>clock\<close>, or an argument \<open>now\<close>, \<open>guid\<close>; what the code relies on is a named hypothesis
  (\<open>codec_ok\<close>, \<open>iter_ok\<close>, \<open>kinds_ok\<close>, \<open>fresh\<close>).

  \<^bold>\<open>The server\<close> (\<open>server.py\<close>).
  \<^item> \<open>Odb_Types\<close>: identifiers of \<open>schema.py\<close> and the two message alternatives of \<open>messages.py\<close>.
  \<^item> \<open>Identity\<close>, \<open>Type_Map\<close>: \<open>IdentityProducer\<close> (\<open>identity.py\<close>) and the field numbering \<open>TypeMap\<close>; identities of
    different producers never collide, numbering is a bijection that never renumbers.
  \<^item> \<open>Persistence\<close>: \<open>InMemoryPersistence\<close> (\<open>persistence.py\<close>); \<open>Kv_Interface\<close>: what the server needs of a key-value
    store (locale \<open>kv_persistence\<close>), with the in-memory store as its first provider; \<open>Redis_Persistence\<close>:
    \<open>RedisPersistence\<close>, the second one, a write-through cache in front of redis. The redis client is a record of
    operations on an unknown state, \<open>redis_ok\<close> is its documented behaviour, \<open>wire_ok\<close> that of the serialisation.
  \<^item> \<open>Server_State\<close>: \<open>Server.__init__\<close>, \<open>ConnectedChannel\<close>; \<open>Server_Commit\<close>: \<open>_handleNewTransaction\<close>, \<open>_commitAndBroadcastNewTransaction\<close> and their phases
    (conflict check, prerequisites, version stamps, store, index subscriptions, broadcast) and the
    garbage collection of version numbers; \<open>Server_Subscriptions\<close>: subscriptions, in the foreground and in
    slices on the background thread; \<open>Server_Messages\<close>: the message dispatch, connections, heartbeats and
    start-up.
  \<^item> \<open>Server_Steps\<close>, \<open>Server_Versions\<close>, \<open>Server_Frame\<close>: runs of the server and what each operation keeps.
    \<open>Server_Safety\<close>, \<open>Server_Progress\<close>, \<open>Server_Rejection\<close>: optimistic concurrency control, that is, an accepted
    transaction read nothing stale, a transaction on the current state is accepted, a rejected one changes
    nothing. \<open>Server_Store\<close>: a commit takes the abstract store where the transaction says. \<open>Server_Broadcast\<close>,
    \<open>Server_Order\<close>: who is told, and in which order. \<open>Server_Access\<close>: authentication and dead connections.
    \<open>Demo_States\<close> holds the concrete states of the witnesses.

  \<^bold>\<open>The proxy\<close> (\<open>proxy_server.py\<close>), a server for its clients and one client of the main server.
  \<^item> \<open>Proxy_State\<close>: \<open>SubscriptionState\<close>, the proxy's copy of the data and who has subscribed to what; \<open>Proxy_Server\<close>:
    \<open>ProxyServer\<close>, the handlers of messages from clients and from the main server.
  \<^item> \<open>Proxy_Replica\<close>: what a sequence of messages tells a client (\<open>replica\<close>), and the invariant that a subscriber knows what the
    proxy knows; \<open>Proxy_Transactions\<close>: transactions keep it; \<open>Proxy_Runs\<close>: so does every other step of a proxy. The locale \<open>proxy_clients\<close> reduces
    an invariant of the subscription state to its operations; it is interpreted for the one above and, in \<open>Proxy_Pending\<close>, for the bookkeeping of
    subscriptions that wait for the main server.
  \<^item> \<open>Proxy_Routing\<close>: the numbers under which a proxy passes flushes and transactions on (locale \<open>proxy_books\<close>).
    \<open>Proxy_Demo\<close> is a concrete run, \<open>Proxy_Properties\<close> states the results: the proxy is transparent, answers find their way back, no
    subscription is forgotten.

  \<^bold>\<open>Transport.\<close>
  \<^item> \<open>Message_Buffer\<close>: the framing of \<open>message_bus.py\<close> (\<open>MessageBuffer\<close>); round trip under every fragmentation of
    the stream, detection of corrupt trailers.
  \<^item> \<open>Byte_Queue\<close>: \<open>bytecount_limited_queue.py\<close> with blocking writers as a step relation; accounting, order, no
    lost wake-up.
  \<^item> \<open>Message_Bus\<close>: \<open>MessageBus\<close> of \<open>message_bus.py\<close>, the methods its users call, the handlers of its socket thread and of its event thread, and a
    round of the socket thread's loop. The answers of the operating system and the time are arguments; five fields of the record log what has
    happened. \<open>Bus_Streams\<close> holds the invariant: identifiers and sockets correspond, each pending connection has one request under way, and what has been written and what
    waits for a socket are the frames of the messages handed to its connection. \<open>Bus_Sending\<close>, \<open>Bus_Connecting\<close> and \<open>Bus_Establishing\<close> show that every
    operation keeps it, \<open>Bus_Runs\<close> that every interleaving does and that a round of the loop is a sequence of such steps. \<open>Bus_Delivery\<close> follows the bytes into
    a second bus, \<open>Bus_Demo\<close> is a concrete pair, and \<open>Bus_Properties\<close> states the result: messages arrive complete and in order.
  \<^item> \<open>Client_Transaction\<close>: the commit side of \<open>database_connection.py\<close> (\<open>_createTransaction\<close>, results,
    \<open>_onDisconnected\<close>) against the server's \<open>handleTransactionData\<close> and \<open>extractTransactionData\<close>: a transaction
    survives being split, pieces are bounded, each callback is called once.

  \<^bold>\<open>The shared editor\<close> (\<open>web/cells/editor/event_model.py\<close>, \<open>editor.py\<close>).
  \<^item> \<open>Editor_Changes\<close>: applying, checking, reversing and collapsing changes; \<open>Editor_Events\<close>: events as the browser
    sends them (JSON), their validation, undo streams; \<open>Editor_Undo\<close>: the backward scans against an undo and a
    redo stack (locale \<open>backward_search\<close>, interpreted for both directions); \<open>Editor_History\<close>: every history of
    edits, undos and redos; \<open>Editor_Delta\<close>: \<open>computeDeltaEvent\<close>; \<open>Editor_Compress\<close>: the state cache and
    \<open>compressState\<close>; \<open>Editor_Session\<close>: the handlers of \<open>Editor\<close>, among them \<open>onMessage\<close> for a new event,
    \<open>setContents\<close>, undo and redo, and what the browser is sent.

  \<^bold>\<open>Cells\<close> (\<open>web/cells\<close>).
  \<^item> \<open>Cell_Children\<close>: the class \<open>Children\<close> (\<open>children.py\<close>).
  \<^item> \<open>Cell_Graph\<close>: \<open>CellDependencies\<close> (\<open>cell_dependencies.py\<close>), the graph of who has read what; it stays consistent, discarding is
    complete and comes to an end, exactly the readers of a change become dirty.
  \<^item> \<open>Computed_Slots\<close>: \<open>ComputedSlot\<close> (\<open>computed_slot.py\<close>) in a read-only \<open>DependencyContext\<close> and the loop over dirty computed
    slots. The user's functions are trees of reads; the reference (\<open>meaning\<close>) calculates everything anew, and the loop agrees with it
    if it takes the lowest level first. In other orders an update can be lost.

  \<^bold>\<open>Termination and bounds.\<close> Every loop is structural or comes with a measure (\<open>versionLoop\<close>, the framing loop,
  the compression loops), except the wait of \<open>RedisPersistence\<close> for a database that is loading: it takes fuel,
  one unit for each try, and \<open>redis_get_returns\<close> says how many tries are needed, and the recursions of the cells: discarding takes
  fuel for its depth, which the number of calculations in the graph bounds, a computed slot takes as much fuel as its level, and the loop
  over dirty slots as many rounds as there are calculations. Python integers are unbounded \<open>int\<close>; bytes are \<open>8 word\<close>
  and the length prefix of a frame is the signed 32-bit integer of \<open>struct\<close>, with its range checks. Time stamps
  of the editor are rationals. A Python list and a tuple with the same elements are the same value here; the
  editor compares states of both kinds.

  \<^bold>\<open>Not modelled.\<close> Of \<open>message_bus.py\<close> the creation of sockets and SSL contexts and the joining of threads, which are calls of the operating system;
  the handlers of the bus are atomic there, although \<open>_scheduleBytesForWrite\<close> does not hold the lock throughout. The subscription
  side of \<open>database_connection.py\<close> is left for an extension. Cursors of other users, autocompletion and sections of the editor,
  writeable dependency contexts and the recalculation of the cell tree come after them. Views (\<open>view.py\<close>) rest on the native implementation in C++;
  the service manager, the web service, the frontends and the AWS code drive processes and third-party
  packages; the demos and display widgets are data for the browser, whose JavaScript is a different program.
  Log messages, locks and the scheduling of threads are not part of any state; where threads interleave
  (background subscriptions, the queue), the interleaving is a step relation.
\<close>

end
